(* ===== verification/Prelude.thy ===== *)
theory Prelude
  imports Complex_Main "HOL-Library.Word" "HOL-Library.AList" "HOL-Library.Sublist"
begin

text \<open>
  Shared vocabulary of the development.

  \<^item> Types: Python \<open>bytes\<close> are lists of 8-bit words; \<open>str\<close> is a list of code points below 256
    (every string operation used here is exact on that range); \<open>time.time()\<close> values are reals
    passed in as arguments; an exception is the left summand of a result.
  \<^item> SQL tables are lists of rows in row-id order; the statements the sources use are the
    functions \<open>fetchone\<close>, \<open>delete_where\<close>, \<open>update_where\<close> and \<open>rowcount\<close>.
  \<^item> A Python dict is an association list in insertion order (\<open>AList.update\<close>,
    \<open>AList.delete\<close>, \<open>map_of\<close>).
  \<^item> Three locales state what the components share: \<open>inv_machine\<close>, an invariant kept by every
    operation of a component and hence by every sequence of operations
    (\<open>transition_system\<close> is the same for a step relation), and \<open>py_dict\<close>, the
    contract of a Python dict, interpreted on association lists.
\<close>

section \<open>Types\<close>

type_synonym byte = "8 word"
type_synonym bytes = "byte list"
type_synonym str = string
type_synonym timestamp = real
type_synonym ('e, 'a) result = "'e + 'a"

named_theorems table_simps \<open>rewriting of table statements\<close>
named_theorems key_intros \<open>uniqueness of a key column is kept\<close>

section \<open>Results\<close>

definition res_bind :: "('e, 'a) result \<Rightarrow> ('a \<Rightarrow> ('e, 'b) result) \<Rightarrow> ('e, 'b) result" where
  "res_bind r f = (case r of Inl e \<Rightarrow> Inl e | Inr a \<Rightarrow> f a)"

fun is_ok :: "('e, 'a) result \<Rightarrow> bool" where
  "is_ok (Inl e) = False"
| "is_ok (Inr a) = True"

section \<open>Python strings\<close>

definition py_space :: "char \<Rightarrow> bool" where
  "py_space c = (let n = of_char c :: nat in
     (9 \<le> n \<and> n \<le> 13) \<or> (28 \<le> n \<and> n \<le> 32) \<or> n = 133 \<or> n = 160)"

definition py_strip :: "str \<Rightarrow> str" where
  "py_strip s = rev (dropWhile py_space (rev (dropWhile py_space s)))"

definition py_lower_char :: "char \<Rightarrow> char" where
  "py_lower_char c = (let n = of_char c :: nat in
     if (65 \<le> n \<and> n \<le> 90) \<or> (192 \<le> n \<and> n \<le> 222 \<and> n \<noteq> 215) then char_of (n + 32) else c)"

definition py_lower :: "str \<Rightarrow> str" where
  "py_lower s = map py_lower_char s"

definition py_lstrip_char :: "char \<Rightarrow> str \<Rightarrow> str" where
  "py_lstrip_char c s = dropWhile (\<lambda>x. x = c) s"

definition py_startswith :: "str \<Rightarrow> str \<Rightarrow> bool" where
  "py_startswith s p = prefix p s"

definition py_contains :: "str \<Rightarrow> str \<Rightarrow> bool" where
  "py_contains s sub = sublist sub s"

definition utf8_char :: "char \<Rightarrow> bytes" where
  "utf8_char c = (let n = of_char c :: nat in
     if n < 128 then [word_of_nat n]
     else [word_of_nat (192 + n div 64), word_of_nat (128 + n mod 64)])"

definition utf8_encode :: "str \<Rightarrow> bytes" where
  "utf8_encode s = concat (map utf8_char s)"

fun nat_digits :: "nat \<Rightarrow> str" where
  "nat_digits n = (if n < 10 then [char_of (48 + n)] else nat_digits (n div 10) @ [char_of (48 + n mod 10)])"

declare nat_digits.simps [simp del]

fun py_split :: "char \<Rightarrow> str \<Rightarrow> str list" where
  "py_split sep [] = [[]]"
| "py_split sep (c # cs) = (if c = sep then [] # py_split sep cs
     else (case py_split sep cs of [] \<Rightarrow> [[c]] | w # ws \<Rightarrow> (c # w) # ws))"

definition py_int :: "real \<Rightarrow> int" where
  "py_int x = (if 0 \<le> x then \<lfloor>x\<rfloor> else \<lceil>x\<rceil>)"

section \<open>Big-endian integers\<close>

fun be_encode :: "nat \<Rightarrow> nat \<Rightarrow> bytes" where
  "be_encode 0 x = []"
| "be_encode (Suc n) x = be_encode n (x div 256) @ [word_of_nat (x mod 256)]"

definition be_decode :: "bytes \<Rightarrow> nat" where
  "be_decode bs = foldl (\<lambda>a b. a * 256 + unat b) 0 bs"

section \<open>Tables\<close>

definition fetchone :: "('r \<Rightarrow> bool) \<Rightarrow> 'r list \<Rightarrow> 'r option" where
  "fetchone p t = List.find p t"

definition delete_where :: "('r \<Rightarrow> bool) \<Rightarrow> 'r list \<Rightarrow> 'r list" where
  "delete_where p t = filter (\<lambda>r. \<not> p r) t"

definition update_where :: "('r \<Rightarrow> bool) \<Rightarrow> ('r \<Rightarrow> 'r) \<Rightarrow> 'r list \<Rightarrow> 'r list" where
  "update_where p f t = map (\<lambda>r. if p r then f r else r) t"

definition rowcount :: "('r \<Rightarrow> bool) \<Rightarrow> 'r list \<Rightarrow> nat" where
  "rowcount p t = length (filter p t)"

definition insert_or_replace :: "('r \<Rightarrow> 'k) \<Rightarrow> 'r \<Rightarrow> 'r list \<Rightarrow> 'r list" where
  "insert_or_replace key r t = delete_where (\<lambda>x. key x = key r) t @ [r]"

section \<open>Lemmas\<close>

subsection \<open>Results\<close>

lemma res_bind_simps [simp]:
  "res_bind (Inl e) f = Inl e"
  "res_bind (Inr a) f = f a"
  by (simp_all add: res_bind_def)

lemma res_bind_eq_Inr:
  "res_bind r f = Inr b \<longleftrightarrow> (\<exists>a. r = Inr a \<and> f a = Inr b)"
  by (cases r) auto

lemma res_bind_eq_Inl:
  "res_bind r f = Inl e \<longleftrightarrow> r = Inl e \<or> (\<exists>a. r = Inr a \<and> f a = Inl e)"
  by (cases r) auto

lemma is_ok_iff: "is_ok r \<longleftrightarrow> (\<exists>a. r = Inr a)"
  by (cases r) auto

subsection \<open>Big-endian integers\<close>

lemma length_be_encode [simp]: "length (be_encode n x) = n"
  by (induction n arbitrary: x) auto

lemma be_decode_simps [simp]:
  "be_decode [] = 0"
  "be_decode (bs @ [b]) = be_decode bs * 256 + unat b"
  by (simp_all add: be_decode_def)

lemma be_decode_encode: "be_decode (be_encode n x) = x mod 256 ^ n"
proof (induction n arbitrary: x)
  case 0
  then show ?case by simp
next
  case (Suc n)
  have "unat (word_of_nat (x mod 256) :: byte) = x mod 256"
    by (simp add: unat_of_nat)
  with Suc show ?case
    by (simp add: mod_mult2_eq mult.commute)
qed

lemma be_decode_bound: "be_decode bs < 256 ^ length bs"
proof (induction bs rule: rev_induct)
  case Nil
  then show ?case by simp
next
  case (snoc b bs)
  have "unat b < 256" using unsigned_less [of b] by simp
  with snoc show ?case by simp
qed

lemma be_encode_decode: "be_encode (length bs) (be_decode bs) = bs"
proof (induction bs rule: rev_induct)
  case Nil
  then show ?case by simp
next
  case (snoc b bs)
  have "unat b < 256" using unsigned_less [of b] by simp
  with snoc show ?case by simp
qed

subsection \<open>UTF-8\<close>

lemma map_unat_utf8_char:
  "map unat (utf8_char c) = (let n = of_char c :: nat in
     if n < 128 then [n] else [192 + n div 64, 128 + n mod 64])"
proof -
  have byte: "unat (word_of_nat k :: byte) = k" if "k < 256" for k :: nat
    using that by (simp add: unat_of_nat)
  define n where "n = (of_char c :: nat)"
  have "n < 256" by (simp add: n_def)
  then have "192 + n div 64 < 256" and "128 + n mod 64 < 256" by simp_all
  with \<open>n < 256\<close> have "unat (word_of_nat n :: byte) = n"
    and "unat (word_of_nat (192 + n div 64) :: byte) = 192 + n div 64"
    and "unat (word_of_nat (128 + n mod 64) :: byte) = 128 + n mod 64"
    by (simp_all only: byte)
  then show ?thesis
    unfolding utf8_char_def Let_def n_def [symmetric] by (simp del: of_nat_add)
qed

lemma utf8_char_append_inject:
  assumes "utf8_char c @ xs = utf8_char d @ ys"
  shows "c = d \<and> xs = ys"
proof -
  define n m where "n = (of_char c :: nat)" and "m = (of_char d :: nat)"
  from assms have "map unat (utf8_char c) @ map unat xs = map unat (utf8_char d) @ map unat ys"
    by (metis map_append)
  moreover have "n div 64 * 64 + n mod 64 = n" "m div 64 * 64 + m mod 64 = m" by simp_all
  ultimately have "n = m"
    by (auto simp: map_unat_utf8_char Let_def n_def [symmetric] m_def [symmetric] split: if_splits)
      (metis div_mult_mod_eq)
  then have "c = d" by (simp add: n_def m_def)
  with assms show ?thesis by simp
qed

lemma utf8_encode_Nil_iff [simp]: "utf8_encode s = [] \<longleftrightarrow> s = []"
  by (cases s) (auto simp: utf8_encode_def utf8_char_def Let_def)

lemma utf8_encode_inject: "utf8_encode s = utf8_encode t \<Longrightarrow> s = t"
proof (induction s arbitrary: t)
  case Nil
  then show ?case by (metis utf8_encode_Nil_iff)
next
  case (Cons c s)
  then obtain d t' where t: "t = d # t'"
    by (cases t) (auto simp: utf8_encode_def utf8_char_def Let_def split: if_splits)
  with Cons.prems have "c = d \<and> utf8_encode s = utf8_encode t'"
    by (auto simp: utf8_encode_def dest: utf8_char_append_inject)
  with Cons.IH t show ?case by blast
qed

subsection \<open>Stripping, decimal digits and splitting\<close>

lemma py_strip_idem [simp]: "py_strip (py_strip s) = py_strip s"
proof -
  define t where "t = dropWhile py_space s"
  define r where "r = dropWhile py_space (rev t)"
  have "dropWhile py_space (rev r) = rev r"
  proof (cases "rev r")
    case (Cons c cs)
    have "rev t = takeWhile py_space (rev t) @ r" by (simp add: r_def)
    then have "t = rev r @ rev (takeWhile py_space (rev t))" by (metis rev_append rev_rev_ident)
    then have "hd t = c" "t \<noteq> []" using Cons by (metis append_Cons list.sel(1), auto)
    then have "\<not> py_space c" using hd_dropWhile [of py_space s] by (auto simp: t_def)
    with Cons show ?thesis by simp
  qed simp
  moreover have "dropWhile py_space r = r" by (simp add: r_def)
  ultimately show ?thesis unfolding py_strip_def t_def [symmetric] r_def [symmetric] by simp
qed

lemma nat_digits_value: "foldl (\<lambda>a c. a * 10 + (of_char c - 48)) 0 (nat_digits n) = n"
proof (induction n rule: nat_digits.induct)
  case (1 n)
  show ?case
  proof (cases "n < 10")
    case True
    then show ?thesis by (simp add: nat_digits.simps [of n])
  next
    case False
    have "(of_char (char_of (48 + n mod 10) :: char) :: nat) = 48 + n mod 10" by simp
    with False 1 show ?thesis by (simp add: nat_digits.simps [of n])
  qed
qed

lemma nat_digits_inject: "nat_digits n = nat_digits m \<longleftrightarrow> n = m"
  by (metis nat_digits_value)

lemma nat_digits_neq_Nil [simp]: "nat_digits n \<noteq> []"
  by (simp add: nat_digits.simps [of n])

lemma nat_digits_only: "c \<in> set (nat_digits n) \<Longrightarrow> 48 \<le> (of_char c :: nat) \<and> (of_char c :: nat) < 58"
proof (induction n rule: nat_digits.induct)
  case (1 n)
  have "(of_char (char_of (48 + n mod 10) :: char) :: nat) = 48 + n mod 10" by simp
  with 1 show ?case by (auto simp: nat_digits.simps [of n] split: if_splits)
qed

lemma py_split_neq_Nil [simp]: "py_split sep s \<noteq> []"
  by (induction s) (auto split: list.split)

lemma py_split_single: "sep \<notin> set s \<Longrightarrow> py_split sep s = [s]"
  by (induction s) auto

lemma py_split_append: "sep \<notin> set s \<Longrightarrow> py_split sep (s @ sep # t) = s # py_split sep t"
  by (induction s) auto

lemma py_split_append_last:
  "sep \<notin> set t \<Longrightarrow> py_split sep (s @ sep # t) = py_split sep s @ [t]"
  by (induction s) (auto simp: py_split_single split: list.split)

subsection \<open>Tables\<close>

lemma fetchone_None [table_simps]: "fetchone p t = None \<longleftrightarrow> (\<forall>r \<in> set t. \<not> p r)"
  by (auto simp: fetchone_def find_None_iff)

lemma fetchone_Some_mem: "fetchone p t = Some r \<Longrightarrow> r \<in> set t \<and> p r"
  by (auto simp: fetchone_def find_Some_iff)

lemma fetchone_unique:
  assumes "distinct (map key t)" and "r \<in> set t"
  shows "fetchone (\<lambda>x. key x = key r) t = Some r"
  using assms by (induction t) (auto simp: fetchone_def)

lemma fetchone_key_iff:
  assumes "distinct (map key t)"
  shows "fetchone (\<lambda>x. key x = k) t = Some r \<longleftrightarrow> r \<in> set t \<and> key r = k"
  using assms fetchone_unique [OF assms, of r] by (auto dest: fetchone_Some_mem)

lemma fetchone_append [table_simps]:
  "fetchone p (t @ u) = (case fetchone p t of None \<Rightarrow> fetchone p u | Some r \<Rightarrow> Some r)"
  by (induction t) (auto simp: fetchone_def)

lemma set_delete_where [table_simps]: "set (delete_where p t) = {r \<in> set t. \<not> p r}"
  by (auto simp: delete_where_def)

lemma set_update_where [table_simps]:
  "set (update_where p f t) = (\<lambda>r. if p r then f r else r) ` set t"
  by (auto simp: update_where_def)

lemma rowcount_0 [table_simps]: "rowcount p t = 0 \<longleftrightarrow> (\<forall>r \<in> set t. \<not> p r)"
  by (auto simp: rowcount_def filter_empty_conv)

lemma delete_where_none: "\<forall>r \<in> set t. \<not> p r \<Longrightarrow> delete_where p t = t"
  by (auto simp: delete_where_def intro: filter_True)

lemma update_where_none: "\<forall>r \<in> set t. \<not> p r \<Longrightarrow> update_where p f t = t"
  by (auto simp: update_where_def intro: map_idI)

lemma map_key_update_where [table_simps]:
  "(\<And>r. key (f r) = key r) \<Longrightarrow> map key (update_where p f t) = map key t"
  by (auto simp: update_where_def)

lemma length_update_where [simp]: "length (update_where p f t) = length t"
  by (simp add: update_where_def)

lemma distinct_delete_where [key_intros]:
  "distinct (map key t) \<Longrightarrow> distinct (map key (delete_where p t))"
  by (simp add: delete_where_def distinct_map_filter)

lemma distinct_snoc_key [key_intros]:
  "distinct (map key t) \<Longrightarrow> \<forall>x \<in> set t. key x \<noteq> key r \<Longrightarrow> distinct (map key (t @ [r]))"
  by auto

lemma distinct_insert_or_replace [key_intros]:
  "distinct (map key t) \<Longrightarrow> distinct (map key (insert_or_replace key r t))"
  by (auto simp: insert_or_replace_def table_simps intro: distinct_delete_where)

lemma set_insert_or_replace [table_simps]:
  "set (insert_or_replace key r t) = {x \<in> set t. key x \<noteq> key r} \<union> {r}"
  by (auto simp: insert_or_replace_def table_simps)

lemma fetchone_insert_or_replace_same:
  "fetchone (\<lambda>x. key x = key r) (insert_or_replace key r t) = Some r"
proof -
  have "fetchone (\<lambda>x. key x = key r) (delete_where (\<lambda>x. key x = key r) t) = None"
    by (simp add: table_simps)
  then show ?thesis
    unfolding insert_or_replace_def fetchone_append by (simp add: fetchone_def)
qed

lemma fetchone_delete_where_other:
  "(\<And>r. p r \<Longrightarrow> \<not> q r) \<Longrightarrow> fetchone p (delete_where q t) = fetchone p t"
  by (induction t) (auto simp: fetchone_def delete_where_def)

lemma fetchone_update_where:
  "(\<And>r. p (f r) = p r) \<Longrightarrow>
   fetchone p (update_where q f t) = map_option (\<lambda>r. if q r then f r else r) (fetchone p t)"
  by (induction t) (auto simp: fetchone_def update_where_def)

lemma fetchone_insert_or_replace_other:
  "k \<noteq> key r \<Longrightarrow>
   fetchone (\<lambda>x. key x = k) (insert_or_replace key r t) = fetchone (\<lambda>x. key x = k) t"
  by (induction t) (auto simp: fetchone_def insert_or_replace_def delete_where_def)

section \<open>Invariants of a component\<close>

locale inv_machine =
  fixes step :: "'op \<Rightarrow> 's \<Rightarrow> 's" and inv :: "'s \<Rightarrow> bool"
  assumes step_inv: "inv s \<Longrightarrow> inv (step op s)"
begin

lemma run_inv: "inv s \<Longrightarrow> inv (fold step ops s)"
  by (induction ops arbitrary: s) (auto intro: step_inv)

lemma run_stable:
  assumes "\<And>op s. inv s \<Longrightarrow> P s \<Longrightarrow> P (step op s)" and "inv s" and "P s"
  shows "P (fold step ops s)"
  using assms(2,3)
proof (induction ops arbitrary: s)
  case Nil
  then show ?case by simp
next
  case (Cons op ops)
  then show ?case by (simp add: assms(1) step_inv)
qed

end

locale transition_system =
  fixes init :: 's and step :: "'s \<Rightarrow> 's \<Rightarrow> bool" and inv :: "'s \<Rightarrow> bool"
  assumes init_inv: "inv init" and step_inv: "inv s \<Longrightarrow> step s t \<Longrightarrow> inv t"
begin

lemma path_inv: "step\<^sup>*\<^sup>* s t \<Longrightarrow> inv s \<Longrightarrow> inv t"
  by (induction rule: rtranclp_induct) (auto intro: step_inv)

lemma reach_inv: "step\<^sup>*\<^sup>* init s \<Longrightarrow> inv s"
  by (rule path_inv) (auto intro: init_inv)

end

section \<open>Python dicts\<close>

locale py_dict =
  fixes put :: "'k \<Rightarrow> 'v \<Rightarrow> 'd \<Rightarrow> 'd"
    and pop :: "'k \<Rightarrow> 'd \<Rightarrow> 'd"
    and get :: "'d \<Rightarrow> 'k \<Rightarrow> 'v option"
    and size_of :: "'d \<Rightarrow> nat"
    and keys_ok :: "'d \<Rightarrow> bool"
  assumes get_put: "get (put k v d) = (get d)(k \<mapsto> v)"
    and get_pop: "keys_ok d \<Longrightarrow> get (pop k d) = (get d)(k := None)"
    and size_put: "keys_ok d \<Longrightarrow>
      size_of (put k v d) = (if get d k = None then Suc (size_of d) else size_of d)"
    and ok_put: "keys_ok d \<Longrightarrow> keys_ok (put k v d)"
    and ok_pop: "keys_ok d \<Longrightarrow> keys_ok (pop k d)"
begin

lemma get_put_same: "get (put k v d) k = Some v"
  by (simp add: get_put)

lemma get_put_other: "k' \<noteq> k \<Longrightarrow> get (put k v d) k' = get d k'"
  by (simp add: get_put)

lemma get_pop_same: "keys_ok d \<Longrightarrow> get (pop k d) k = None"
  by (simp add: get_pop)

lemma get_pop_other: "keys_ok d \<Longrightarrow> k' \<noteq> k \<Longrightarrow> get (pop k d) k' = get d k'"
  by (simp add: get_pop)

lemma pop_put_new: "keys_ok d \<Longrightarrow> get d k = None \<Longrightarrow> get (pop k (put k v d)) = get d"
  by (auto simp: get_pop ok_put get_put)

end

abbreviation dict_ok :: "('k \<times> 'v) list \<Rightarrow> bool" where
  "dict_ok d \<equiv> distinct (map fst d)"

lemma length_AList_update:
  "length (AList.update k v d) = (if k \<in> fst ` set d then length d else Suc (length d))"
  by (induction d) auto

interpretation dict: py_dict AList.update AList.delete map_of length dict_ok
proof unfold_locales
  fix k :: 'k and v :: 'v and d
  show "map_of (AList.update k v d) = (map_of d)(k \<mapsto> v)"
    by (rule update_conv')
  assume "dict_ok d"
  show "map_of (AList.delete k d) = (map_of d)(k := None)"
    by (rule delete_conv')
  show "length (AList.update k v d) = (if map_of d k = None then Suc (length d) else length d)"
    by (simp add: length_AList_update map_of_eq_None_iff)
  show "dict_ok (AList.update k v d)" using \<open>dict_ok d\<close> by (rule distinct_update)
  show "dict_ok (AList.delete k d)" using \<open>dict_ok d\<close> by (rule distinct_delete)
qed

end
