(* ===== verification/Frames.thy ===== *)
theory Frames
  imports Prelude
begin

text \<open>
  The tunnel wire format: \<open>src/tunnel/constants.py\<close>, \<open>enums.py\<close>, \<open>exceptions.py\<close>,
  \<open>frames.py\<close> and \<open>ws_payload.py\<close>. A frame is one type byte, the 16 bytes of a UUID, a
  big-endian 32-bit payload length and the payload. The locale \<open>wire_codec\<close> states what the two
  ends of the tunnel rely on; it is interpreted on the frame functions.
\<close>

unbundle bit_operations_syntax

section \<open>Constants, enums and exceptions\<close>

definition HEADER_SIZE :: nat where "HEADER_SIZE = 1 + 16 + 4"
definition MAX_PAYLOAD_BYTES :: nat where "MAX_PAYLOAD_BYTES = 65536"
definition MAX_STREAMS :: nat where "MAX_STREAMS = 100"
definition QUEUE_DEPTH :: nat where "QUEUE_DEPTH = 64"
definition HEARTBEAT_MISSED_LIMIT :: nat where "HEARTBEAT_MISSED_LIMIT = 3"
definition PROTOCOL_VERSION :: int where "PROTOCOL_VERSION = 1"

datatype FrameType =
  OPEN | DATA | CLOSE | CANCEL | ERROR | PING | PONG | WS_OPEN | WS_DATA | WS_CLOSE

datatype tunnel_exn =
    TunnelError
  | FrameTooLargeError
  | StreamLimitError
  | FirstByteTimeoutError
  | StreamNotFoundError
  | MetadataError
  | MetadataTooLargeError
  | TunnelSendError
  | ValueError

type_synonym uuid = "128 word"

fun frame_type_value :: "FrameType \<Rightarrow> nat" where
  "frame_type_value OPEN = 1"
| "frame_type_value DATA = 2"
| "frame_type_value CLOSE = 3"
| "frame_type_value CANCEL = 4"
| "frame_type_value ERROR = 5"
| "frame_type_value PING = 6"
| "frame_type_value PONG = 7"
| "frame_type_value WS_OPEN = 8"
| "frame_type_value WS_DATA = 9"
| "frame_type_value WS_CLOSE = 10"

definition all_frame_types :: "FrameType list" where
  "all_frame_types = [OPEN, DATA, CLOSE, CANCEL, ERROR, PING, PONG, WS_OPEN, WS_DATA, WS_CLOSE]"

definition FrameType_of :: "nat \<Rightarrow> (tunnel_exn, FrameType) result" where
  "FrameType_of n = (case List.find (\<lambda>t. frame_type_value t = n) all_frame_types of
     None \<Rightarrow> Inl ValueError | Some t \<Rightarrow> Inr t)"

section \<open>Frames\<close>

definition uuid_bytes :: "uuid \<Rightarrow> bytes" where
  "uuid_bytes u = be_encode 16 (unat u)"

definition uuid_of_bytes :: "bytes \<Rightarrow> uuid" where
  "uuid_of_bytes bs = word_of_nat (be_decode bs)"

definition pack_header :: "nat \<Rightarrow> bytes \<Rightarrow> nat \<Rightarrow> bytes" where
  "pack_header t u n = be_encode 1 t @ u @ be_encode 4 n"

definition unpack_header :: "bytes \<Rightarrow> nat \<times> bytes \<times> nat" where
  "unpack_header h = (be_decode (take 1 h), take 16 (drop 1 h), be_decode (drop 17 h))"

definition serialize_frame :: "FrameType \<Rightarrow> uuid \<Rightarrow> bytes \<Rightarrow> (tunnel_exn, bytes) result" where
  "serialize_frame frame_type request_id payload =
     (if length payload > MAX_PAYLOAD_BYTES then Inl FrameTooLargeError
      else Inr (pack_header (frame_type_value frame_type) (uuid_bytes request_id) (length payload)
                @ payload))"

definition deserialize_frame :: "bytes \<Rightarrow> (tunnel_exn, FrameType \<times> uuid \<times> bytes) result" where
  "deserialize_frame data =
     (if length data < HEADER_SIZE then Inl TunnelError
      else case unpack_header (take HEADER_SIZE data) of (type_byte, uuid_bs, payload_length) \<Rightarrow>
        res_bind (FrameType_of type_byte) (\<lambda>frame_type.
          let actual_payload = drop HEADER_SIZE data in
          if length actual_payload \<noteq> payload_length then Inl TunnelError
          else Inr (frame_type, uuid_of_bytes uuid_bs, actual_payload)))"

section \<open>WebSocket payload codec\<close>

datatype WsMessageKind = TEXT | BINARY

fun kind_value :: "WsMessageKind \<Rightarrow> byte" where
  "kind_value TEXT = 0"
| "kind_value BINARY = 1"

definition encode_text_message :: "str \<Rightarrow> bytes" where
  "encode_text_message text = [kind_value TEXT] @ utf8_encode text"

definition encode_binary_message :: "bytes \<Rightarrow> bytes" where
  "encode_binary_message data = [kind_value BINARY] @ data"

definition decode_ws_message :: "bytes \<Rightarrow> (tunnel_exn, WsMessageKind \<times> bytes) result" where
  "decode_ws_message payload = (case payload of
     [] \<Rightarrow> Inl TunnelError
   | marker # rest \<Rightarrow>
       if marker = kind_value TEXT then Inr (TEXT, rest)
       else if marker = kind_value BINARY then Inr (BINARY, rest)
       else Inl TunnelError)"

section \<open>Lemmas\<close>

lemma FrameType_of_value [simp]: "FrameType_of (frame_type_value t) = Inr t"
  by (cases t) (simp_all add: FrameType_of_def all_frame_types_def)

lemma FrameType_of_Inr: "FrameType_of n = Inr t \<longleftrightarrow> n = frame_type_value t"
proof
  assume "FrameType_of n = Inr t"
  then show "n = frame_type_value t"
    by (auto simp: FrameType_of_def find_Some_iff split: option.splits)
qed simp

lemma FrameType_of_Inl: "FrameType_of n = Inl e \<longleftrightarrow> e = ValueError \<and> (n = 0 \<or> n > 10)"
  by (auto simp: FrameType_of_def all_frame_types_def) presburger

lemma frame_type_value_bounds: "1 \<le> frame_type_value t \<and> frame_type_value t \<le> 10"
  by (cases t) simp_all

lemma length_uuid_bytes [simp]: "length (uuid_bytes u) = 16"
  by (simp add: uuid_bytes_def)

lemma uuid_of_bytes_bytes [simp]: "uuid_of_bytes (uuid_bytes u) = u"
proof -
  have "unat u < 256 ^ 16" using unsigned_less [of u] by simp
  then show ?thesis by (simp add: uuid_of_bytes_def uuid_bytes_def be_decode_encode)
qed

lemma uuid_bytes_of_bytes:
  assumes "length bs = 16"
  shows "uuid_bytes (uuid_of_bytes bs) = bs"
proof -
  have "be_decode bs < 2 ^ 128" using be_decode_bound [of bs] assms by simp
  then have "unat (word_of_nat (be_decode bs) :: uuid) = be_decode bs"
    by (simp add: unat_of_nat)
  then show ?thesis
    unfolding uuid_bytes_def uuid_of_bytes_def using be_encode_decode [of bs] assms by simp
qed

lemma length_pack_header: "length u = 16 \<Longrightarrow> length (pack_header t u n) = HEADER_SIZE"
  by (simp add: pack_header_def HEADER_SIZE_def)

lemma unpack_pack_header:
  assumes "t < 256" and "length u = 16" and "n < 2 ^ 32"
  shows "unpack_header (pack_header t u n) = (t, u, n)"
proof -
  have "drop 17 (pack_header t u n) = be_encode 4 n"
    using assms(2) by (simp add: pack_header_def)
  then show ?thesis
    using assms by (simp add: unpack_header_def pack_header_def be_decode_encode
        del: be_encode.simps)
qed

lemma pack_unpack_header:
  assumes "length h = 21" and "unpack_header h = (t, u, n)"
  shows "pack_header t u n = h \<and> length u = 16 \<and> t < 256 \<and> n < 2 ^ 32"
proof -
  from assms(2) have t: "t = be_decode (take 1 h)" and u: "u = take 16 (drop 1 h)"
    and n: "n = be_decode (drop 17 h)" by (simp_all add: unpack_header_def)
  have "be_encode 1 t = take 1 h" using be_encode_decode [of "take 1 h"] assms(1) t by simp
  moreover have "be_encode 4 n = drop 17 h"
    using be_encode_decode [of "drop 17 h"] assms(1) n by simp
  moreover have "take 1 h @ take 16 (drop 1 h) @ drop 17 h = h"
    using take_add [of 1 16 h] append_take_drop_id [of 17 h] by (simp flip: append_assoc)
  ultimately have "pack_header t u n = h" by (simp add: pack_header_def u)
  moreover have "t < 256" using be_decode_bound [of "take 1 h"] t assms(1) by simp
  moreover have "n < 2 ^ 32" using be_decode_bound [of "drop 17 h"] n assms(1) by simp
  ultimately show ?thesis using u assms(1) by simp
qed

lemma serialize_ok_iff:
  "serialize_frame t r p = Inr bs \<longleftrightarrow>
     length p \<le> MAX_PAYLOAD_BYTES \<and>
     bs = pack_header (frame_type_value t) (uuid_bytes r) (length p) @ p"
  by (auto simp: serialize_frame_def)

lemma deserialize_packed:
  assumes "length p < 2 ^ 32"
  shows "deserialize_frame (pack_header (frame_type_value t) (uuid_bytes r) (length p) @ p)
         = Inr (t, r, p)"
proof -
  have len: "length (pack_header (frame_type_value t) (uuid_bytes r) (length p)) = HEADER_SIZE"
    by (simp add: length_pack_header)
  have "frame_type_value t < 256" using frame_type_value_bounds [of t] by simp
  with assms have "unpack_header (pack_header (frame_type_value t) (uuid_bytes r) (length p))
      = (frame_type_value t, uuid_bytes r, length p)"
    by (simp add: unpack_pack_header)
  with len show ?thesis by (simp add: deserialize_frame_def)
qed

lemma deserialize_Inr_packed:
  assumes "deserialize_frame data = Inr (t, r, p)"
  shows "data = pack_header (frame_type_value t) (uuid_bytes r) (length p) @ p \<and> length p < 2 ^ 32"
proof -
  let ?h = "take HEADER_SIZE data"
  obtain tb ub n where h: "unpack_header ?h = (tb, ub, n)"
    by (cases "unpack_header ?h")
  from assms have len: "HEADER_SIZE \<le> length data"
    by (auto simp: deserialize_frame_def split: if_splits)
  then have lh: "length ?h = 21" by (simp add: HEADER_SIZE_def)
  from assms h len have tb: "FrameType_of tb = Inr t" and r: "r = uuid_of_bytes ub"
    and p: "p = drop HEADER_SIZE data" and n: "n = length p"
    by (auto simp: deserialize_frame_def res_bind_eq_Inr Let_def split: if_splits)
  from pack_unpack_header [OF lh h] have ph: "pack_header tb ub n = ?h" and ub: "length ub = 16"
    and nb: "n < 2 ^ 32" by auto
  from tb have "tb = frame_type_value t" by (simp add: FrameType_of_Inr)
  moreover from ub r have "ub = uuid_bytes r" by (simp add: uuid_bytes_of_bytes)
  ultimately have "pack_header (frame_type_value t) (uuid_bytes r) (length p) = ?h"
    using ph n by simp
  with p nb n show ?thesis by (metis append_take_drop_id)
qed

section \<open>The codec contract\<close>

locale wire_codec =
  fixes enc :: "'m \<Rightarrow> ('e, bytes) result" and dec :: "bytes \<Rightarrow> ('e, 'm) result"
  assumes dec_enc: "enc m = Inr bs \<Longrightarrow> dec bs = Inr m"
begin

lemma enc_inject: "enc m = Inr bs \<Longrightarrow> enc m' = Inr bs \<Longrightarrow> m = m'"
  by (metis dec_enc sum.inject(2))

lemma dec_transcript:
  "list_all2 (\<lambda>m bs. enc m = Inr bs) ms bss \<Longrightarrow> map dec bss = map Inr ms"
  by (induction rule: list_all2_induct) (auto simp: dec_enc)

end

interpretation frame_codec: wire_codec
  "\<lambda>(t, r, p). serialize_frame t r p" deserialize_frame
proof unfold_locales
  fix m :: "FrameType \<times> uuid \<times> bytes" and bs
  assume enc: "(case m of (t, r, p) \<Rightarrow> serialize_frame t r p) = Inr bs"
  obtain t r p where m: "m = (t, r, p)" by (cases m)
  have "MAX_PAYLOAD_BYTES < 2 ^ 32" by (simp add: MAX_PAYLOAD_BYTES_def)
  with enc m show "deserialize_frame bs = Inr m"
    by (auto simp: serialize_ok_iff intro: deserialize_packed)
qed

section \<open>Properties\<close>

text \<open>C13: a frame whose payload respects the cap is serialized to 21 header bytes and the
  payload, and parsing those bytes gives back exactly its type, stream id and payload.\<close>

theorem frame_roundtrip:
  assumes "length payload \<le> MAX_PAYLOAD_BYTES"
  shows "\<exists>data. serialize_frame frame_type request_id payload = Inr data \<and>
           length data = 21 + length payload \<and>
           deserialize_frame data = Inr (frame_type, request_id, payload)"
proof -
  let ?d = "pack_header (frame_type_value frame_type) (uuid_bytes request_id) (length payload)
            @ payload"
  have s: "serialize_frame frame_type request_id payload = Inr ?d"
    using assms by (simp add: serialize_ok_iff)
  then have "deserialize_frame ?d = Inr (frame_type, request_id, payload)"
    by (rule frame_codec.dec_enc [of "(frame_type, request_id, payload)", simplified])
  moreover have "length ?d = 21 + length payload"
    by (simp add: length_pack_header HEADER_SIZE_def)
  ultimately show ?thesis using s by blast
qed

theorem frame_roundtrip_witness:
  "\<exists>data. serialize_frame WS_DATA 77 [1, 2, 3] = Inr data \<and> length data = 24 \<and>
     deserialize_frame data = Inr (WS_DATA, 77, [1, 2, 3])"
  using frame_roundtrip [of "[1, 2, 3]" WS_DATA 77] by (simp add: MAX_PAYLOAD_BYTES_def)

text \<open>C39: the parser accepts exactly the packed frames: a byte string parses to a type, a stream
  id and a payload if and only if it is their header followed by the payload. Nothing is accepted
  with trailing bytes, a short payload or an unknown type byte.\<close>

theorem frame_parse_exact:
  "deserialize_frame data = Inr (frame_type, request_id, payload) \<longleftrightarrow>
     data = pack_header (frame_type_value frame_type) (uuid_bytes request_id) (length payload)
            @ payload \<and> length payload < 2 ^ 32"
  using deserialize_Inr_packed deserialize_packed by blast

text \<open>Text and binary WebSocket messages keep their kind and their bytes through the codec,
  and the marker byte makes a message of 65536 bytes or more unsendable: the frame that would
  carry it exceeds the payload cap.\<close>

lemma ws_codec_roundtrip_and_cap:
  "decode_ws_message (encode_text_message text) = Inr (TEXT, utf8_encode text) \<and>
   decode_ws_message (encode_binary_message data) = Inr (BINARY, data) \<and>
   (serialize_frame WS_DATA ws_id (encode_binary_message data) = Inl FrameTooLargeError
      \<longleftrightarrow> 65536 \<le> length data)"
  by (auto simp: decode_ws_message_def encode_text_message_def encode_binary_message_def
      serialize_frame_def MAX_PAYLOAD_BYTES_def)

end
