(* ===== verification/Json.thy ===== *)
theory Json
  imports Prelude
begin

text \<open>
  JSON as Python's \<open>json\<close> module writes and reads it: \<open>json.dumps\<close> with its default arguments and
  \<open>json.loads\<close>. The tunnel's metadata, the first frame of a response and the control messages are
  encoded with it.

  The reader takes its depth from the length of the text, which is enough: every nested call
  starts at a later character. A number with a fraction or an exponent, \<open>NaN\<close> and \<open>Infinity\<close>, and an
  escape of a code point above 255 lie outside of the values modelled here and are refused.
\<close>

datatype json =
    JNull | JBool bool | JInt int | JStr str | JList "json list" | JObj "(str \<times> json) list"

section \<open>json.dumps\<close>

definition hex_lower :: "nat \<Rightarrow> char" where
  "hex_lower n = (if n < 10 then char_of (48 + n) else char_of (87 + n))"

definition esc_char :: "char \<Rightarrow> str" where
  "esc_char c = (let n = of_char c :: nat in
     if n = 34 then [CHR 0x5C, CHR 0x22]
     else if n = 92 then [CHR 0x5C, CHR 0x5C]
     else if n = 10 then [CHR 0x5C, CHR ''n'']
     else if n = 13 then [CHR 0x5C, CHR ''r'']
     else if n = 9 then [CHR 0x5C, CHR ''t'']
     else if n = 12 then [CHR 0x5C, CHR ''f'']
     else if n = 8 then [CHR 0x5C, CHR ''b'']
     else if 32 \<le> n \<and> n \<le> 126 then [c]
     else [CHR 0x5C, CHR ''u'', CHR ''0'', CHR ''0'', hex_lower (n div 16), hex_lower (n mod 16)])"

definition quoted :: "str \<Rightarrow> str" where
  "quoted s = CHR 0x22 # concat (map esc_char s) @ [CHR 0x22]"

definition int_str :: "int \<Rightarrow> str" where
  "int_str i = (if i < 0 then CHR ''-'' # nat_digits (nat (- i)) else nat_digits (nat i))"

fun join :: "str \<Rightarrow> str list \<Rightarrow> str" where
  "join d [] = []"
| "join d [x] = x"
| "join d (x # y # xs) = x @ d @ join d (y # xs)"

fun dumps_text :: "json \<Rightarrow> str" where
  "dumps_text JNull = ''null''"
| "dumps_text (JBool b) = (if b then ''true'' else ''false'')"
| "dumps_text (JInt i) = int_str i"
| "dumps_text (JStr s) = quoted s"
| "dumps_text (JList xs) = CHR ''['' # join '', '' (map dumps_text xs) @ '']''"
| "dumps_text (JObj kvs) = CHR ''{'' # join '', '' (map (\<lambda>kv. quoted (fst kv) @ '': '' @ dumps_text (snd kv)) kvs) @ ''}''"

definition json_dumps :: "json \<Rightarrow> bytes" where
  "json_dumps v = utf8_encode (dumps_text v)"

section \<open>json.loads\<close>

definition is_ws :: "char \<Rightarrow> bool" where
  "is_ws c = (c = CHR '' '' \<or> c = CHR 9 \<or> c = CHR 10 \<or> c = CHR 13)"

definition skip_ws :: "str \<Rightarrow> str" where
  "skip_ws s = dropWhile is_ws s"

definition hex_value :: "char \<Rightarrow> nat option" where
  "hex_value c = (let n = of_char c :: nat in
     if 48 \<le> n \<and> n \<le> 57 then Some (n - 48)
     else if 97 \<le> n \<and> n \<le> 102 then Some (n - 87)
     else if 65 \<le> n \<and> n \<le> 70 then Some (n - 55)
     else None)"

definition hex4 :: "char \<Rightarrow> char \<Rightarrow> char \<Rightarrow> char \<Rightarrow> nat option" where
  "hex4 a b c d = (case (hex_value a, hex_value b, hex_value c, hex_value d) of
     (Some w, Some x, Some y, Some z) \<Rightarrow> Some (((w * 16 + x) * 16 + y) * 16 + z) | _ \<Rightarrow> None)"

definition simple_escape :: "char \<Rightarrow> char option" where
  "simple_escape e =
     (if e = CHR 0x22 \<or> e = CHR 0x5C \<or> e = CHR ''/'' then Some e
      else if e = CHR ''n'' then Some (CHR 10) else if e = CHR ''r'' then Some (CHR 13)
      else if e = CHR ''t'' then Some (CHR 9) else if e = CHR ''f'' then Some (CHR 12)
      else if e = CHR ''b'' then Some (CHR 8) else None)"

definition cons_fst :: "'a \<Rightarrow> ('a list \<times> 'b) option \<Rightarrow> ('a list \<times> 'b) option" where
  "cons_fst x r = map_option (\<lambda>(xs, y). (x # xs, y)) r"

text \<open>The rest of a string after its opening quote.\<close>

fun scan_string :: "str \<Rightarrow> (str \<times> str) option" where
  "scan_string [] = None"
| "scan_string (ch # cs) =
     (if ch = CHR 0x22 then Some ([], cs)
      else if ch = CHR 0x5C then
        (case cs of
           [] \<Rightarrow> None
         | e # r \<Rightarrow>
             if e = CHR ''u'' then
               (case r of
                  a # b # c # d # r' \<Rightarrow>
                    (case hex4 a b c d of
                       None \<Rightarrow> None
                     | Some n \<Rightarrow> if n < 256 then cons_fst (char_of n) (scan_string r') else None)
                | _ \<Rightarrow> None)
             else (case simple_escape e of None \<Rightarrow> None | Some x \<Rightarrow> cons_fst x (scan_string r)))
      else if (of_char ch :: nat) < 32 then None
      else cons_fst ch (scan_string cs))"

definition is_digit :: "char \<Rightarrow> bool" where
  "is_digit c = (let n = of_char c :: nat in 48 \<le> n \<and> n \<le> 57)"

definition digits_value :: "str \<Rightarrow> nat" where
  "digits_value ds = foldl (\<lambda>a c. a * 10 + (of_char c - 48)) 0 ds"

text \<open>Optional fraction and exponent after the integer part: their text and the rest.\<close>

definition scan_fraction :: "str \<Rightarrow> str \<times> str" where
  "scan_fraction s = (case s of
     c # d # r \<Rightarrow> if c = CHR ''.'' \<and> is_digit d then (c # takeWhile is_digit (d # r), dropWhile is_digit (d # r)) else ([], s)
   | _ \<Rightarrow> ([], s))"

definition scan_exponent :: "str \<Rightarrow> str \<times> str" where
  "scan_exponent s = (case s of
     e # r \<Rightarrow>
       if e = CHR ''e'' \<or> e = CHR ''E'' then
         (let (sign, r') = (case r of g # r1 \<Rightarrow> if g = CHR ''+'' \<or> g = CHR ''-'' then ([g], r1) else ([], r) | [] \<Rightarrow> ([], r))
          in if takeWhile is_digit r' \<noteq> [] then (e # sign @ takeWhile is_digit r', dropWhile is_digit r') else ([], s))
       else ([], s)
   | [] \<Rightarrow> ([], s))"

definition scan_number :: "str \<Rightarrow> (json \<times> str) option" where
  "scan_number s =
     (let (neg, r) = (case s of c # r \<Rightarrow> if c = CHR ''-'' then (True, r) else (False, s) | [] \<Rightarrow> (False, s)) in
      case r of
        [] \<Rightarrow> None
      | d # r1 \<Rightarrow>
          if \<not> is_digit d then None
          else
            (let ds = (if d = CHR ''0'' then [d] else takeWhile is_digit r);
                 r2 = (if d = CHR ''0'' then r1 else dropWhile is_digit r);
                 (frac, r3) = scan_fraction r2;
                 (expo, r4) = scan_exponent r3
             in if frac = [] \<and> expo = []
                then Some (JInt (if neg then - int (digits_value ds) else int (digits_value ds)), r4)
                else None))"

definition literals :: "(str \<times> json) list" where
  "literals = [(''null'', JNull), (''true'', JBool True), (''false'', JBool False)]"

definition scan_literal :: "str \<Rightarrow> (json \<times> str) option" where
  "scan_literal s = map_option (\<lambda>(t, v). (v, drop (length t) s)) (List.find (\<lambda>(t, v). prefix t s) literals)"

definition scan_atom :: "str \<Rightarrow> (json \<times> str) option" where
  "scan_atom s = (case scan_literal s of Some r \<Rightarrow> Some r | None \<Rightarrow> scan_number s)"

text \<open>A value, the elements of an array from the first one on, the members of an object from the first one
  on; the number bounds the nesting.\<close>

fun parse_value :: "nat \<Rightarrow> str \<Rightarrow> (json \<times> str) option"
and parse_elems :: "nat \<Rightarrow> str \<Rightarrow> (json list \<times> str) option"
and parse_members :: "nat \<Rightarrow> str \<Rightarrow> ((str \<times> json) list \<times> str) option" where
  "parse_value 0 s = None"
| "parse_value (Suc n) [] = None"
| "parse_value (Suc n) (c # r) =
     (if c = CHR 0x22 then map_option (\<lambda>(t, r'). (JStr t, r')) (scan_string r)
      else if c = CHR ''{'' then
        (case skip_ws r of
           [] \<Rightarrow> None
         | d # r' \<Rightarrow> if d = CHR ''}'' then Some (JObj [], r')
             else map_option (\<lambda>(kvs, r''). (JObj (fold (\<lambda>(k, v) m. AList.update k v m) kvs []), r'')) (parse_members n (d # r')))
      else if c = CHR ''['' then
        (case skip_ws r of
           [] \<Rightarrow> None
         | d # r' \<Rightarrow> if d = CHR '']'' then Some (JList [], r')
             else map_option (\<lambda>(xs, r''). (JList xs, r'')) (parse_elems n (d # r')))
      else scan_atom (c # r))"
| "parse_elems 0 s = None"
| "parse_elems (Suc n) s =
     (case parse_value n s of
        None \<Rightarrow> None
      | Some (v, r) \<Rightarrow>
          (case skip_ws r of
             [] \<Rightarrow> None
           | d # r' \<Rightarrow> if d = CHR '']'' then Some ([v], r')
               else if d = CHR '','' then cons_fst v (parse_elems n (skip_ws r'))
               else None))"
| "parse_members 0 s = None"
| "parse_members (Suc n) [] = None"
| "parse_members (Suc n) (c # r) =
     (if c \<noteq> CHR 0x22 then None
      else (case scan_string r of
          None \<Rightarrow> None
        | Some (k, r1) \<Rightarrow>
            (case skip_ws r1 of
               [] \<Rightarrow> None
             | colon # r2 \<Rightarrow>
                 if colon \<noteq> CHR '':'' then None
                 else (case parse_value n (skip_ws r2) of
                     None \<Rightarrow> None
                   | Some (v, r3) \<Rightarrow>
                       (case skip_ws r3 of
                          [] \<Rightarrow> None
                        | d # r4 \<Rightarrow> if d = CHR ''}'' then Some ([(k, v)], r4)
                            else if d = CHR '','' then cons_fst (k, v) (parse_members n (skip_ws r4))
                            else None)))))"

definition loads_text :: "str \<Rightarrow> json option" where
  "loads_text s = (case parse_value (length s) (skip_ws s) of
     None \<Rightarrow> None
   | Some (v, r) \<Rightarrow> if skip_ws r = [] then Some v else None)"

text \<open>\<open>bytes.decode("utf-8")\<close> onto the strings modelled here: one byte below 128, or two bytes for the code
  points 128 to 255.\<close>

fun utf8_decode :: "bytes \<Rightarrow> str option" where
  "utf8_decode [] = Some []"
| "utf8_decode (b # bs) =
     (let n = unat b in
      if n < 128 then map_option (\<lambda>s. char_of n # s) (utf8_decode bs)
      else (case bs of
          [] \<Rightarrow> None
        | b2 # bs' \<Rightarrow>
            let m = unat b2 in
            if (n = 194 \<or> n = 195) \<and> 128 \<le> m \<and> m < 192
            then map_option (\<lambda>s. char_of ((n - 192) * 64 + (m - 128)) # s) (utf8_decode bs')
            else None))"

definition json_loads :: "bytes \<Rightarrow> json option" where
  "json_loads raw = (case utf8_decode raw of None \<Rightarrow> None | Some s \<Rightarrow> loads_text s)"

section \<open>Lemmas\<close>

subsection \<open>Strings\<close>

lemma cons_fst_simps [simp]: "cons_fst x None = None" "cons_fst x (Some (xs, y)) = Some (x # xs, y)"
  by (simp_all add: cons_fst_def)

lemma hex_value_lower: "n < 16 \<Longrightarrow> hex_value (hex_lower n) = Some n"
  by (auto simp: hex_value_def hex_lower_def Let_def of_char_of)

lemma hex4_byte: "n < 256 \<Longrightarrow> hex4 (CHR ''0'') (CHR ''0'') (hex_lower (n div 16)) (hex_lower (n mod 16)) = Some n"
proof -
  assume "n < 256"
  then have "n div 16 < 16" by simp
  moreover have "hex_value (CHR ''0'') = Some 0" by (simp add: hex_value_def)
  ultimately show ?thesis by (simp add: hex4_def hex_value_lower)
qed

lemma char_eqI: "(of_char c :: nat) = of_char d \<Longrightarrow> c = d"
  by simp

lemma scan_esc: "scan_string (esc_char c @ r) = cons_fst c (scan_string r)"
proof -
  define n where "n = (of_char c :: nat)"
  have n: "n < 256" "c = char_of n" by (simp_all add: n_def)
  have ne: "c \<noteq> CHR 0x22" "c \<noteq> CHR 0x5C" if "n \<noteq> 34" "n \<noteq> 92" using that by (auto simp: n_def)
  consider "n \<in> {34, 92, 10, 13, 9, 12, 8}" | "n \<notin> {34, 92, 10, 13, 9, 12, 8}" "32 \<le> n \<and> n \<le> 126"
    | "n \<notin> {34, 92, 10, 13, 9, 12, 8}" "\<not> (32 \<le> n \<and> n \<le> 126)" by blast
  then show ?thesis
  proof cases
    case 1
    then have "n = 34 \<or> n = 92 \<or> n = 10 \<or> n = 13 \<or> n = 9 \<or> n = 12 \<or> n = 8" by simp
    then show ?thesis unfolding n(2) by (elim disjE) (simp_all add: esc_char_def simple_escape_def, simp_all add: char_of_def bit_0)
  next
    case 2
    then have "esc_char c = [c]" unfolding esc_char_def n_def [symmetric] by simp
    moreover have "c \<noteq> CHR 0x22" "c \<noteq> CHR 0x5C" "\<not> (of_char c :: nat) < 32" using ne 2 n_def by auto
    ultimately show ?thesis by simp
  next
    case 3
    then have "esc_char c = [CHR 0x5C, CHR ''u'', CHR ''0'', CHR ''0'', hex_lower (n div 16), hex_lower (n mod 16)]"
      unfolding esc_char_def n_def [symmetric] by simp
    then show ?thesis using hex4_byte [OF n(1)] n by simp
  qed
qed

lemma scan_quoted: "scan_string (concat (map esc_char t) @ CHR 0x22 # r) = Some (t, r)"
  by (induction t) (simp_all add: scan_esc)

lemma utf8_roundtrip: "utf8_decode (utf8_encode s) = Some s"
proof (induction s)
  case (Cons c s)
  define n where "n = (of_char c :: nat)"
  have n: "n < 256" "char_of n = c" by (simp_all add: n_def)
  have byte: "unat (word_of_nat k :: byte) = k" if "k < 256" for k :: nat using that by (simp add: unat_of_nat)
  show ?case
  proof (cases "n < 128")
    case True
    then show ?thesis using Cons n byte [of n] by (simp add: utf8_encode_def utf8_char_def n_def [symmetric] Let_def)
  next
    case False
    have d: "192 + n div 64 < 256" "128 + n mod 64 < 256" "n div 64 = 2 \<or> n div 64 = 3" "n div 64 * 64 + n mod 64 = n"
      using n(1) False by auto
    then show ?thesis using Cons n False byte [OF d(1)] byte [OF d(2)]
      by (auto simp: utf8_encode_def utf8_char_def n_def [symmetric] Let_def simp del: of_nat_add of_nat_mult)
  qed
qed (simp add: utf8_encode_def)

subsection \<open>Numbers\<close>

lemma nat_digits_digit: "c \<in> set (nat_digits m) \<Longrightarrow> is_digit c"
  using nat_digits_only [of c m] by (simp add: is_digit_def Let_def)

lemma nat_digits_hd: "0 < m \<Longrightarrow> hd (nat_digits m) \<noteq> CHR ''0''"
proof (induction m rule: nat_digits.induct)
  case (1 m)
  show ?case
  proof (cases "m < 10")
    case True
    have "(of_char (char_of (48 + m) :: char) :: nat) = 48 + m" using True by (simp add: of_char_of)
    then have "char_of (48 + m) \<noteq> CHR ''0''" using 1(2) by (auto simp del: of_char_of)
    with True show ?thesis by (simp add: nat_digits.simps [of m])
  next
    case False
    then show ?thesis using 1 by (simp add: nat_digits.simps [of m])
  qed
qed

text \<open>What may follow a value in the text of an array, of an object, or at the end.\<close>

definition ends_value :: "str \<Rightarrow> bool" where
  "ends_value r \<longleftrightarrow> r = [] \<or> hd r \<in> {CHR '','', CHR '']'', CHR ''}''}"

lemma ends_value_no_number:
  assumes "ends_value r"
  shows "takeWhile is_digit r = []" "dropWhile is_digit r = r" "scan_fraction r = ([], r)" "scan_exponent r = ([], r)"
  using assms by (cases r; auto simp: ends_value_def is_digit_def scan_fraction_def scan_exponent_def split: list.split)+

lemma scan_digits:
  assumes "ends_value r"
  shows "\<exists>d ds. nat_digits m = d # ds \<and> is_digit d \<and> (d = CHR ''0'' \<longrightarrow> ds = []) \<and>
    takeWhile is_digit (nat_digits m @ r) = nat_digits m \<and> dropWhile is_digit (nat_digits m @ r) = r"
proof -
  obtain d ds where d: "nat_digits m = d # ds" by (cases "nat_digits m") auto
  have "ds = []" if "d = CHR ''0''"
  proof (cases "m = 0")
    case True
    then show ?thesis using d by (simp add: nat_digits.simps [of 0])
  next
    case False
    then show ?thesis using nat_digits_hd [of m] d that by simp
  qed
  moreover have "\<forall>c \<in> set (nat_digits m). is_digit c" by (simp add: nat_digits_digit)
  ultimately show ?thesis using d ends_value_no_number(1,2) [OF assms]
    by (simp add: takeWhile_append dropWhile_append)
qed

lemma digits_value_nat: "digits_value (nat_digits m) = m"
  unfolding digits_value_def by (rule nat_digits_value)

lemma no_literal:
  assumes "is_digit d"
  shows "scan_literal (d # r) = None" "scan_literal (CHR ''-'' # d # r) = None"
proof -
  have "\<not> is_digit (CHR ''n'')" "\<not> is_digit (CHR ''t'')" "\<not> is_digit (CHR ''f'')" "\<not> is_digit (CHR ''N'')"
    "\<not> is_digit (CHR ''I'')" "\<not> is_digit (CHR ''-'')" by (simp_all add: is_digit_def)
  then have "d \<noteq> CHR ''n''" "d \<noteq> CHR ''t''" "d \<noteq> CHR ''f''" "d \<noteq> CHR ''N''" "d \<noteq> CHR ''I''" "d \<noteq> CHR ''-''"
    using assms by blast+
  then show "scan_literal (d # r) = None" "scan_literal (CHR ''-'' # d # r) = None"
    by (simp_all add: scan_literal_def literals_def)
qed

lemma scan_int:
  assumes "ends_value r"
  shows "scan_atom (int_str i @ r) = Some (JInt i, r)"
proof -
  obtain d ds where d: "nat_digits (nat \<bar>i\<bar>) = d # ds" "is_digit d" "d = CHR ''0'' \<longrightarrow> ds = []"
      "takeWhile is_digit (d # ds @ r) = d # ds" "dropWhile is_digit (d # ds @ r) = r"
    using scan_digits [OF assms, of "nat \<bar>i\<bar>"] by auto
  have v: "digits_value (d # ds) = nat \<bar>i\<bar>" using digits_value_nat [of "nat \<bar>i\<bar>"] d(1) by simp
  have minus: "d \<noteq> CHR ''-''" using d(2) by (auto simp: is_digit_def)
  show ?thesis
  proof (cases "i < 0")
    case True
    then have "int_str i = CHR ''-'' # d # ds" using d(1) by (simp add: int_str_def)
    then show ?thesis using d v True no_literal(2) [OF d(2)] ends_value_no_number [OF assms]
      by (auto simp: scan_atom_def scan_number_def Let_def)
  next
    case False
    then have "int_str i = d # ds" using d(1) by (simp add: int_str_def)
    then show ?thesis using d v False minus no_literal(1) [OF d(2)] ends_value_no_number [OF assms]
      by (auto simp: scan_atom_def scan_number_def Let_def)
  qed
qed

subsection \<open>Values\<close>

text \<open>Values whose objects have no repeated key.\<close>

fun json_plain :: "json \<Rightarrow> bool" where
  "json_plain (JList xs) = (\<forall>x \<in> set xs. json_plain x)"
| "json_plain (JObj kvs) = (distinct (map fst kvs) \<and> (\<forall>kv \<in> set kvs. json_plain (snd kv)))"
| "json_plain _ = True"

lemma is_ws_simps [simp]:
  "is_ws (CHR '' '')" "\<not> is_ws (CHR 0x22)" "\<not> is_ws (CHR ''['')" "\<not> is_ws (CHR '']'')" "\<not> is_ws (CHR ''{'')" "\<not> is_ws (CHR ''}'')"
  "\<not> is_ws (CHR '','')" "\<not> is_ws (CHR '':'')" "\<not> is_ws (CHR ''n'')" "\<not> is_ws (CHR ''t'')" "\<not> is_ws (CHR ''f'')" "\<not> is_ws (CHR ''-'')"
  by (simp_all add: is_ws_def)

lemma skip_ws_simps [simp]:
  "skip_ws [] = []" "is_ws c \<Longrightarrow> skip_ws (c # s) = skip_ws s" "\<not> is_ws c \<Longrightarrow> skip_ws (c # s) = c # s"
  by (simp_all add: skip_ws_def)

lemma digit_not:
  assumes "is_digit d"
  shows "\<not> is_ws d" "d \<noteq> CHR 0x22" "d \<noteq> CHR ''['' " "d \<noteq> CHR ''{''" "d \<noteq> CHR '']''" "d \<noteq> CHR ''}''"
  using assms by (auto simp: is_ws_def is_digit_def)

definition starts_value :: "char \<Rightarrow> bool" where
  "starts_value c \<longleftrightarrow> \<not> is_ws c \<and> c \<noteq> CHR '']'' \<and> c \<noteq> CHR ''}''"

lemma int_str_start: "\<exists>c s. int_str i = c # s \<and> starts_value c \<and> c \<noteq> CHR 0x22 \<and> c \<noteq> CHR ''['' \<and> c \<noteq> CHR ''{''"
proof -
  obtain d ds where d: "nat_digits (nat \<bar>i\<bar>) = d # ds" by (cases "nat_digits (nat \<bar>i\<bar>)") auto
  then have "is_digit d" using nat_digits_digit [of d "nat \<bar>i\<bar>"] by simp
  from digit_not [OF this] d show ?thesis by (cases "i < 0") (auto simp: int_str_def starts_value_def)
qed

lemma dumps_start: "json_plain v \<Longrightarrow> \<exists>c s. dumps_text v = c # s \<and> starts_value c"
proof (cases v)
  case (JInt i)
  then show ?thesis using int_str_start [of i] by auto
qed (auto simp: quoted_def starts_value_def)

lemma dumps_pos: "json_plain v \<Longrightarrow> 0 < length (dumps_text v)"
  using dumps_start by fastforce

lemma join_Cons: "xs \<noteq> [] \<Longrightarrow> join d (x # xs) = x @ d @ join d xs"
  by (cases xs) auto

lemma fold_update_new:
  "distinct (map fst (acc @ kvs)) \<Longrightarrow> fold (\<lambda>(k, v) m. AList.update k v m) kvs acc = acc @ kvs"
proof (induction kvs arbitrary: acc)
  case (Cons kv kvs)
  have "AList.update (fst kv) (snd kv) acc = acc @ [kv]" using Cons.prems by (induction acc) auto
  with Cons.IH [of "acc @ [kv]"] Cons.prems show ?case by (simp add: case_prod_beta)
qed simp

definition reads_back :: "json \<Rightarrow> bool" where
  "reads_back v \<longleftrightarrow> (\<forall>n r. length (dumps_text v) \<le> n \<longrightarrow> ends_value r \<longrightarrow> parse_value n (dumps_text v @ r) = Some (v, r))"

lemma reads_backD:
  "reads_back v \<Longrightarrow> length (dumps_text v) \<le> n \<Longrightarrow> ends_value r \<Longrightarrow> parse_value n (dumps_text v @ r) = Some (v, r)"
  by (simp add: reads_back_def)

lemma ends_value_simps [simp]: "ends_value (CHR '','' # r)" "ends_value (CHR '']'' # r)" "ends_value (CHR ''}'' # r)" "ends_value []"
  by (simp_all add: ends_value_def)

lemma parse_elems_dumps:
  assumes "xs \<noteq> []" and "\<forall>x \<in> set xs. json_plain x \<and> reads_back x" and "length (join '', '' (map dumps_text xs)) < n"
  shows "parse_elems n (join '', '' (map dumps_text xs) @ CHR '']'' # r) = Some (xs, r)"
  using assms
proof (induction xs arbitrary: n)
  case (Cons x xs)
  obtain m where n: "n = Suc m" using Cons.prems(3) by (cases n) auto
  show ?case
  proof (cases "xs = []")
    case True
    then show ?thesis using Cons.prems n reads_backD [of x m "CHR '']'' # r"] by simp
  next
    case False
    let ?rest = "join '', '' (map dumps_text xs) @ CHR '']'' # r"
    obtain y ys where y: "xs = y # ys" using False by (cases xs) auto
    obtain c t where c: "?rest = c # t" "starts_value c"
      using dumps_start [of y] Cons.prems(2) y by (cases ys) auto
    have "parse_value m (dumps_text x @ CHR '','' # CHR '' '' # ?rest) = Some (x, CHR '','' # CHR '' '' # ?rest)"
      using Cons.prems False n by (intro reads_backD) (auto simp: join_Cons)
    moreover have "parse_elems m ?rest = Some (xs, r)"
      using Cons.IH [OF False] Cons.prems False n by (simp add: join_Cons)
    ultimately show ?thesis using c False by (simp add: n join_Cons starts_value_def)
  qed
qed simp

abbreviation member_text :: "str \<times> json \<Rightarrow> str" where
  "member_text kv \<equiv> quoted (fst kv) @ '': '' @ dumps_text (snd kv)"

lemma parse_members_dumps:
  assumes "kvs \<noteq> []" and "\<forall>kv \<in> set kvs. json_plain (snd kv) \<and> reads_back (snd kv)"
    and "length (join '', '' (map member_text kvs)) < n"
  shows "parse_members n (join '', '' (map member_text kvs) @ CHR ''}'' # r) = Some (kvs, r)"
  using assms
proof (induction kvs arbitrary: n)
  case (Cons kv kvs)
  obtain m where n: "n = Suc m" using Cons.prems(3) by (cases n) auto
  obtain c t where c: "dumps_text (snd kv) = c # t" "starts_value c" using dumps_start [of "snd kv"] Cons.prems(2) by auto
  have head: "parse_members (Suc m) (member_text kv @ q) = (case parse_value m (dumps_text (snd kv) @ q) of
      None \<Rightarrow> None
    | Some (v, r3) \<Rightarrow> (case skip_ws r3 of [] \<Rightarrow> None
        | d # r4 \<Rightarrow> if d = CHR ''}'' then Some ([(fst kv, v)], r4)
            else if d = CHR '','' then cons_fst (fst kv, v) (parse_members m (skip_ws r4)) else None))" for q
    using c by (simp add: quoted_def scan_quoted starts_value_def)
  show ?case
  proof (cases "kvs = []")
    case True
    then show ?thesis using Cons.prems n head [of "CHR ''}'' # r"] reads_backD [of "snd kv" m "CHR ''}'' # r"] by simp
  next
    case False
    let ?rest = "join '', '' (map member_text kvs) @ CHR ''}'' # r"
    obtain t' where t': "?rest = CHR 0x22 # t'" using False by (cases kvs; cases "tl kvs") (auto simp: quoted_def)
    have "parse_value m (dumps_text (snd kv) @ CHR '','' # CHR '' '' # ?rest) = Some (snd kv, CHR '','' # CHR '' '' # ?rest)"
      using Cons.prems False n by (intro reads_backD) (auto simp: join_Cons)
    moreover have "parse_members m ?rest = Some (kvs, r)"
      using Cons.IH [OF False] Cons.prems False n by (simp add: join_Cons)
    ultimately show ?thesis using t' False head [of "CHR '','' # CHR '' '' # ?rest"] by (simp add: n join_Cons)
  qed
qed simp

lemma reads_back_obj:
  assumes "distinct (map fst kvs)" and "\<forall>kv \<in> set kvs. json_plain (snd kv) \<and> reads_back (snd kv)"
  shows "reads_back (JObj kvs)"
  unfolding reads_back_def
proof (intro allI impI)
  fix n r assume n: "length (dumps_text (JObj kvs)) \<le> n" and "ends_value r"
  obtain m where m: "n = Suc m" using n by (cases n) auto
  show "parse_value n (dumps_text (JObj kvs) @ r) = Some (JObj kvs, r)"
  proof (cases "kvs = []")
    case False
    let ?rest = "join '', '' (map member_text kvs) @ CHR ''}'' # r"
    obtain t where t: "?rest = CHR 0x22 # t" using False by (cases kvs; cases "tl kvs") (auto simp: quoted_def)
    have "parse_members m ?rest = Some (kvs, r)" by (rule parse_members_dumps [OF False assms(2)]) (use n m in simp)
    then show ?thesis using t fold_update_new [of "[]" kvs] assms(1) by (simp add: m)
  qed (simp add: m)
qed

lemma reads_back_list:
  assumes "\<forall>x \<in> set xs. json_plain x \<and> reads_back x"
  shows "reads_back (JList xs)"
  unfolding reads_back_def
proof (intro allI impI)
  fix n r assume n: "length (dumps_text (JList xs)) \<le> n" and "ends_value r"
  obtain m where m: "n = Suc m" using n by (cases n) auto
  show "parse_value n (dumps_text (JList xs) @ r) = Some (JList xs, r)"
  proof (cases "xs = []")
    case False
    let ?rest = "join '', '' (map dumps_text xs) @ CHR '']'' # r"
    obtain y ys where y: "xs = y # ys" using False by (cases xs) auto
    obtain c t where t: "?rest = c # t" "starts_value c" using dumps_start [of y] assms y by (cases ys) auto
    have "parse_elems m ?rest = Some (xs, r)" by (rule parse_elems_dumps [OF False assms]) (use n m in simp)
    then show ?thesis using t by (simp add: m starts_value_def)
  qed (simp add: m)
qed

lemma reads_back_plain: "json_plain v \<Longrightarrow> reads_back v"
proof (induction v)
  case (JInt i)
  obtain c s where c: "int_str i = c # s" "c \<noteq> CHR 0x22" "c \<noteq> CHR ''[''" "c \<noteq> CHR ''{''" using int_str_start [of i] by auto
  show ?case unfolding reads_back_def
  proof (intro allI impI)
    fix n r assume "length (dumps_text (JInt i)) \<le> n" and r: "ends_value r"
    then obtain m where "n = Suc m" using c(1) by (cases n) auto
    then show "parse_value n (dumps_text (JInt i) @ r) = Some (JInt i, r)" using c scan_int [OF r, of i] by simp
  qed
next
  case (JStr t)
  have "parse_value n (quoted t @ r) = Some (JStr t, r)" if "length (quoted t) \<le> n" for n r
    using that by (cases n) (simp_all add: quoted_def scan_quoted)
  then show ?case by (simp add: reads_back_def)
next
  case (JList xs)
  then show ?case by (intro reads_back_list) auto
next
  case (JObj kvs)
  then have "reads_back (snd kv)" if "kv \<in> set kvs" for kv using that by (cases kv) (auto intro!: JObj.IH [OF that])
  then show ?case using JObj.prems by (intro reads_back_obj) auto
next
  case JNull
  have "parse_value n (''null'' @ r) = Some (JNull, r)" if "4 \<le> n" for n r
    using that by (cases n) (simp_all add: scan_atom_def scan_literal_def literals_def)
  then show ?case by (simp add: reads_back_def)
next
  case (JBool b)
  have "parse_value n (''true'' @ r) = Some (JBool True, r)" "parse_value n (''false'' @ r) = Some (JBool False, r)" if "4 \<le> n" for n r
    using that by (cases n; simp add: scan_atom_def scan_literal_def literals_def)+
  then show ?case by (simp add: reads_back_def)
qed

section \<open>Reading what was written\<close>

text \<open>JSON documents are read back as they were written. What \<open>json.dumps\<close> writes, encoded as UTF-8, is
  read by \<open>json.loads\<close> as the same value, for every value whose objects have no repeated key.\<close>

lemma json_roundtrip:
  assumes "json_plain v"
  shows "json_loads (json_dumps v) = Some v"
proof -
  obtain c s where "dumps_text v = c # s" "\<not> is_ws c" using dumps_start [OF assms] by (auto simp: starts_value_def)
  moreover have "parse_value (length (dumps_text v)) (dumps_text v @ []) = Some (v, [])"
    using reads_back_plain [OF assms] by (intro reads_backD) simp_all
  ultimately show ?thesis by (simp add: json_loads_def json_dumps_def utf8_roundtrip loads_text_def)
qed

lemma json_roundtrip_witness:
  "json_loads (json_dumps (JObj [(''path'', JStr (CHR 0x22 # CHR 10 # ''a/b'')), (''n'', JInt (- 20)), (''l'', JList [JNull, JBool True])])) =
     Some (JObj [(''path'', JStr (CHR 0x22 # CHR 10 # ''a/b'')), (''n'', JInt (- 20)), (''l'', JList [JNull, JBool True])])"
  by (rule json_roundtrip) simp

end
