(* ===== verification/Tunnel.thy ===== *)
theory Tunnel
  imports Frames Json
begin

text \<open>
  The multiplexed connection of \<open>src/tunnel/connection.py\<close>. Stream objects are shared: the
  dict \<open>_streams\<close>, a pending read and a running generator may all hold the same \<open>StreamState\<close>,
  and a consumer keeps draining its object after the dict forgot it. So the objects live in a
  store (\<open>objs\<close>, indexed by reference) and the dict maps ids to references.

  An \<open>await\<close> is a point where other tasks run. An operation that may suspend returns what it is
  suspended on, and the relation \<open>tstep\<close> interleaves the tasks: the receive loop, readers, the
  generators of \<open>read_stream_iter\<close>, the heartbeat and \<open>close()\<close>. The transport is outside the
  source; each send takes its outcome (\<open>None\<close>, or the exception raised) as an argument.
  Text frames carry the JSON value; the decoder's failure is the value \<open>NotJson\<close>.
\<close>

section \<open>Data\<close>

datatype ws_exn = ConnectionError | OSError | RuntimeError | OtherException

datatype conn_exn =
    Tun tunnel_exn
  | Ws ws_exn
  | JSONDecodeError
  | AttributeError
  | TypeError

datatype json_text = NotJson | Json json

datatype ws_frame = WsBytes bytes | WsText json

datatype frame_dict = FBytes bytes | FText json_text | FDisconnect

record stream_state =
  queue :: "bytes list"
  closed_event :: bool

datatype heartbeat =
    HbNone
  | HbSleeping nat
  | HbWaiting nat
  | HbExited
  | HbTornDown
  | HbFailed ws_exn

record tunnel =
  streams :: "(uuid \<times> nat) list"
  objs :: "stream_state list"
  is_closed :: bool
  pong_event :: bool
  hb_task :: heartbeat
  control_handler :: bool
  sent :: "ws_frame list"
  ws_closed :: bool

definition StreamState_new :: stream_state where
  "StreamState_new = \<lparr>queue = [], closed_event = False\<rparr>"

definition TunnelConnection_init :: tunnel where
  "TunnelConnection_init = \<lparr>streams = [], objs = [], is_closed = False, pong_event = False,
     hb_task = HbNone, control_handler = False, sent = [], ws_closed = False\<rparr>"

section \<open>Stream lifecycle\<close>

definition open_stream :: "uuid \<Rightarrow> tunnel \<Rightarrow> (tunnel_exn, nat \<times> tunnel) result" where
  "open_stream request_id c =
     (if length (streams c) \<ge> MAX_STREAMS then Inl StreamLimitError
      else if map_of (streams c) request_id \<noteq> None then Inl TunnelError
      else let ref = length (objs c) in
        Inr (ref, c\<lparr>objs := objs c @ [StreamState_new],
                    streams := AList.update request_id ref (streams c)\<rparr>))"

definition get_stream :: "uuid \<Rightarrow> tunnel \<Rightarrow> (tunnel_exn, nat) result" where
  "get_stream request_id c = (case map_of (streams c) request_id of
     None \<Rightarrow> Inl StreamNotFoundError | Some ref \<Rightarrow> Inr ref)"

definition set_closed :: "nat \<Rightarrow> tunnel \<Rightarrow> tunnel" where
  "set_closed ref c = c\<lparr>objs := (objs c)[ref := (objs c ! ref)\<lparr>closed_event := True\<rparr>]\<rparr>"

definition close_stream :: "uuid \<Rightarrow> tunnel \<Rightarrow> (tunnel_exn, tunnel) result" where
  "close_stream request_id c =
     res_bind (get_stream request_id c) (\<lambda>ref. Inr (set_closed ref c))"

definition remove_stream :: "uuid \<Rightarrow> tunnel \<Rightarrow> tunnel" where
  "remove_stream request_id c = c\<lparr>streams := AList.delete request_id (streams c)\<rparr>"

definition queue_put :: "nat \<Rightarrow> bytes \<Rightarrow> tunnel \<Rightarrow> tunnel option" where
  "queue_put ref payload c =
     (if length (queue (objs c ! ref)) < QUEUE_DEPTH
      then Some (c\<lparr>objs := (objs c)[ref := (objs c ! ref)\<lparr>queue := queue (objs c ! ref) @ [payload]\<rparr>]\<rparr>)
      else None)"

definition queue_get :: "nat \<Rightarrow> tunnel \<Rightarrow> (bytes \<times> tunnel) option" where
  "queue_get ref c = (case queue (objs c ! ref) of
     [] \<Rightarrow> None
   | x # xs \<Rightarrow> Some (x, c\<lparr>objs := (objs c)[ref := (objs c ! ref)\<lparr>queue := xs\<rparr>]\<rparr>))"

datatype dispatch_outcome = Dispatched tunnel | AwaitPut nat bytes

definition dispatch_frame :: "FrameType \<Rightarrow> uuid \<Rightarrow> bytes \<Rightarrow> tunnel \<Rightarrow> dispatch_outcome" where
  "dispatch_frame frame_type request_id payload c =
     (if frame_type \<in> {DATA, WS_DATA} then
        (case get_stream request_id c of
           Inl _ \<Rightarrow> Dispatched c
         | Inr ref \<Rightarrow> (case queue_put ref payload c of
             Some c' \<Rightarrow> Dispatched c' | None \<Rightarrow> AwaitPut ref payload))
      else if frame_type \<in> {CLOSE, CANCEL, ERROR, WS_CLOSE} then
        (case close_stream request_id c of Inl _ \<Rightarrow> Dispatched c | Inr c' \<Rightarrow> Dispatched c')
      else Dispatched c)"

section \<open>Sending\<close>

definition transport_send :: "ws_frame \<Rightarrow> ws_exn option \<Rightarrow> tunnel \<Rightarrow> (conn_exn, tunnel) result" where
  "transport_send frame out c = (case out of
     None \<Rightarrow> Inr (c\<lparr>sent := sent c @ [frame]\<rparr>) | Some e \<Rightarrow> Inl (Ws e))"

definition guarded_send :: "bytes \<Rightarrow> ws_exn option \<Rightarrow> tunnel \<Rightarrow> (conn_exn, tunnel) result" where
  "guarded_send frame out c = (case transport_send (WsBytes frame) out c of
     Inl (Ws e) \<Rightarrow>
       if e \<in> {ConnectionError, OSError, RuntimeError} then Inl (Tun TunnelSendError) else Inl (Ws e)
   | r \<Rightarrow> r)"

definition lift_tun :: "(tunnel_exn, 'a) result \<Rightarrow> (conn_exn, 'a) result" where
  "lift_tun r = (case r of Inl e \<Rightarrow> Inl (Tun e) | Inr a \<Rightarrow> Inr a)"

definition send_data :: "uuid \<Rightarrow> bytes \<Rightarrow> ws_exn option \<Rightarrow> tunnel \<Rightarrow> (conn_exn, tunnel) result" where
  "send_data request_id payload out c =
     res_bind (lift_tun (serialize_frame DATA request_id payload)) (\<lambda>frame. guarded_send frame out c)"

definition send_unguarded ::
  "FrameType \<Rightarrow> uuid \<Rightarrow> bytes \<Rightarrow> ws_exn option \<Rightarrow> tunnel \<Rightarrow> (conn_exn, tunnel) result" where
  "send_unguarded frame_type request_id payload out c =
     res_bind (lift_tun (serialize_frame frame_type request_id payload))
       (\<lambda>frame. transport_send (WsBytes frame) out c)"

definition send_close :: "uuid \<Rightarrow> ws_exn option \<Rightarrow> tunnel \<Rightarrow> (conn_exn, tunnel) result" where
  "send_close request_id = send_unguarded CLOSE request_id []"

definition send_cancel :: "uuid \<Rightarrow> ws_exn option \<Rightarrow> tunnel \<Rightarrow> (conn_exn, tunnel) result" where
  "send_cancel request_id = send_unguarded CANCEL request_id []"

definition send_ws_data :: "uuid \<Rightarrow> bytes \<Rightarrow> ws_exn option \<Rightarrow> tunnel \<Rightarrow> (conn_exn, tunnel) result" where
  "send_ws_data ws_id payload = send_unguarded WS_DATA ws_id payload"

definition send_ws_close :: "uuid \<Rightarrow> ws_exn option \<Rightarrow> tunnel \<Rightarrow> (conn_exn, tunnel) result" where
  "send_ws_close ws_id = send_unguarded WS_CLOSE ws_id []"

section \<open>Control messages\<close>

fun json_get :: "str \<Rightarrow> json \<Rightarrow> (conn_exn, json) result" where
  "json_get k (JObj kvs) = Inr (case map_of kvs k of None \<Rightarrow> JNull | Some v \<Rightarrow> v)"
| "json_get k _ = Inl AttributeError"

fun json_in :: "str \<Rightarrow> json \<Rightarrow> (conn_exn, bool) result" where
  "json_in k (JObj kvs) = Inr (map_of kvs k \<noteq> None)"
| "json_in k (JList xs) = Inr (JStr k \<in> set xs)"
| "json_in k (JStr s) = Inr (py_contains s k)"
| "json_in k _ = Inl TypeError"

fun json_keys :: "json \<Rightarrow> (conn_exn, str list) result" where
  "json_keys (JObj kvs) = Inr (map fst kvs)"
| "json_keys _ = Inl AttributeError"

definition send_control :: "json \<Rightarrow> ws_exn option \<Rightarrow> tunnel \<Rightarrow> (conn_exn, tunnel) result" where
  "send_control message out c =
     res_bind (json_in ''type'' message) (\<lambda>present.
       if \<not> present then res_bind (json_keys message) (\<lambda>_. Inl (Tun TunnelError))
       else transport_send (WsText message) out c)"

definition receive_control :: "json_text \<Rightarrow> (conn_exn, json) result" where
  "receive_control text = (case text of
     NotJson \<Rightarrow> Inl JSONDecodeError
   | Json message \<Rightarrow>
       res_bind (json_in ''type'' message) (\<lambda>present.
         if \<not> present then res_bind (json_keys message) (\<lambda>_. Inl (Tun TunnelError))
         else Inr message))"

definition set_control_handler :: "tunnel \<Rightarrow> tunnel" where
  "set_control_handler c = c\<lparr>control_handler := True\<rparr>"

definition ping_message :: json where "ping_message = JObj [(''type'', JStr ''ping'')]"
definition pong_message :: json where "pong_message = JObj [(''type'', JStr ''pong'')]"

section \<open>Teardown and heartbeat\<close>

definition handle_pong :: "tunnel \<Rightarrow> tunnel" where
  "handle_pong c = c\<lparr>pong_event := True\<rparr>"

definition tear_down :: "tunnel \<Rightarrow> tunnel" where
  "tear_down c =
     (if is_closed c then c
      else let c1 = c\<lparr>is_closed := True\<rparr>;
               c2 = fold (\<lambda>rid c'. case map_of (streams c') rid of
                       None \<Rightarrow> c' | Some ref \<Rightarrow> set_closed ref c') (map fst (streams c1)) c1
           in c2\<lparr>streams := []\<rparr>)"

definition start_heartbeat :: "tunnel \<Rightarrow> tunnel" where
  "start_heartbeat c = c\<lparr>hb_task := (if is_closed c then HbExited else HbSleeping 0)\<rparr>"

definition hb_next :: "nat \<Rightarrow> tunnel \<Rightarrow> tunnel" where
  "hb_next missed c = c\<lparr>hb_task := (if is_closed c then HbExited else HbSleeping missed)\<rparr>"

text \<open>The three resumptions of \<open>_heartbeat_loop\<close>: the sleep ends, a pong arrives in time, or
  the wait for it times out.\<close>

definition hb_wake :: "ws_exn option \<Rightarrow> nat \<Rightarrow> tunnel \<Rightarrow> tunnel" where
  "hb_wake out missed c =
     (let c1 = c\<lparr>pong_event := False\<rparr> in
      case send_control ping_message out c1 of
        Inl (Ws e) \<Rightarrow> c1\<lparr>hb_task := HbFailed e\<rparr>
      | Inl _ \<Rightarrow> c1\<lparr>hb_task := HbFailed OtherException\<rparr>
      | Inr c2 \<Rightarrow> c2\<lparr>hb_task := HbWaiting missed\<rparr>)"

definition hb_pong :: "tunnel \<Rightarrow> tunnel" where
  "hb_pong c = hb_next 0 c"

definition hb_timeout :: "nat \<Rightarrow> nat \<Rightarrow> tunnel \<Rightarrow> tunnel" where
  "hb_timeout missed_limit missed c =
     (let missed' = missed + 1 in
      if missed' \<ge> missed_limit then (tear_down c)\<lparr>hb_task := HbTornDown\<rparr>
      else hb_next missed' c)"

definition close_conn :: "tunnel \<Rightarrow> (conn_exn, unit) result \<times> tunnel" where
  "close_conn c =
     (if is_closed c then (Inr (), c)
      else let c1 = tear_down c in
        case hb_task c1 of
          HbFailed e \<Rightarrow> (Inl (Ws e), c1)
        | HbNone \<Rightarrow> (Inr (), c1\<lparr>ws_closed := True\<rparr>)
        | _ \<Rightarrow> (Inr (), c1\<lparr>hb_task := HbNone, ws_closed := True\<rparr>))"

section \<open>The receive loop\<close>

datatype rx_outcome =
    RxContinue tunnel
  | RxAwaitPut nat bytes
  | RxOnOpen uuid bytes
  | RxOnWsOpen uuid bytes
  | RxControl json
  | RxBreak
  | RxRaise conn_exn

definition run_receive_loop_once ::
  "bool \<Rightarrow> ws_exn option \<Rightarrow> frame_dict \<Rightarrow> tunnel \<Rightarrow> rx_outcome" where
  "run_receive_loop_once with_handlers out fd c = (case fd of
     FBytes raw \<Rightarrow> (case deserialize_frame raw of
         Inl e \<Rightarrow> RxRaise (Tun e)
       | Inr (frame_type, request_id, payload) \<Rightarrow>
           if frame_type = OPEN \<and> with_handlers then RxOnOpen request_id payload
           else if frame_type = WS_OPEN \<and> with_handlers then RxOnWsOpen request_id payload
           else (case dispatch_frame frame_type request_id payload c of
               Dispatched c' \<Rightarrow> RxContinue c' | AwaitPut ref p \<Rightarrow> RxAwaitPut ref p))
   | FText NotJson \<Rightarrow> RxRaise JSONDecodeError
   | FText (Json message) \<Rightarrow> (case json_get ''type'' message of
         Inl e \<Rightarrow> RxRaise e
       | Inr ty \<Rightarrow>
           if ty = JStr ''pong'' then RxContinue (handle_pong c)
           else if ty = JStr ''ping'' then
             (case send_control pong_message out c of Inl e \<Rightarrow> RxRaise e | Inr c' \<Rightarrow> RxContinue c')
           else if control_handler c then RxControl message else RxContinue c)
   | FDisconnect \<Rightarrow> RxBreak)"

section \<open>Readers\<close>

datatype read_outcome = Got bytes tunnel | WaitingForData | ReadRaise tunnel_exn

definition read_stream :: "bool \<Rightarrow> uuid \<Rightarrow> tunnel \<Rightarrow> read_outcome" where
  "read_stream timed_out request_id c = (case get_stream request_id c of
     Inl e \<Rightarrow> ReadRaise e
   | Inr ref \<Rightarrow> (case queue_get ref c of
       Some (x, c') \<Rightarrow> Got x c'
     | None \<Rightarrow> if timed_out then ReadRaise FirstByteTimeoutError else WaitingForData))"

datatype iter_pc = IterLoop | IterYielded | IterDraining | IterDone

datatype iter_out = Yield bytes | Suspended | Stop

definition iter_stop :: "uuid \<Rightarrow> tunnel \<Rightarrow> iter_out \<times> iter_pc \<times> tunnel" where
  "iter_stop rid c = (Stop, IterDone, remove_stream rid c)"

definition iter_drain :: "uuid \<Rightarrow> nat \<Rightarrow> tunnel \<Rightarrow> iter_out \<times> iter_pc \<times> tunnel" where
  "iter_drain rid ref c = (case queue_get ref c of
     Some (x, c') \<Rightarrow> (Yield x, IterDraining, c') | None \<Rightarrow> iter_stop rid c)"

text \<open>\<open>get_done\<close> says whether \<open>asyncio.wait\<close> reported the task of \<open>queue.get()\<close>. It can only
  be so when the queue holds a frame; when it is not and the stream is closed, the closed branch
  drains the queue.\<close>

definition iter_loop :: "bool \<Rightarrow> uuid \<Rightarrow> nat \<Rightarrow> tunnel \<Rightarrow> iter_out \<times> iter_pc \<times> tunnel" where
  "iter_loop get_done rid ref c = (case queue_get ref c of
     Some (x, c') \<Rightarrow>
       if get_done then (Yield x, IterYielded, c')
       else if closed_event (objs c ! ref) then iter_drain rid ref c
       else (Suspended, IterLoop, c)
   | None \<Rightarrow>
       if closed_event (objs c ! ref) then iter_drain rid ref c
       else (Suspended, IterLoop, c))"

fun iter_resume :: "bool \<Rightarrow> uuid \<Rightarrow> nat \<Rightarrow> iter_pc \<Rightarrow> tunnel \<Rightarrow> iter_out \<times> iter_pc \<times> tunnel" where
  "iter_resume get_done rid ref IterLoop c = iter_loop get_done rid ref c"
| "iter_resume get_done rid ref IterYielded c =
     (if closed_event (objs c ! ref) \<and> queue (objs c ! ref) = [] then iter_stop rid c
      else iter_loop get_done rid ref c)"
| "iter_resume get_done rid ref IterDraining c = iter_drain rid ref c"
| "iter_resume get_done rid ref IterDone c = (Stop, IterDone, c)"

fun iter_collect :: "nat \<Rightarrow> bool \<Rightarrow> uuid \<Rightarrow> nat \<Rightarrow> iter_pc \<Rightarrow> tunnel \<Rightarrow> (bytes list \<times> tunnel) option" where
  "iter_collect 0 get_done rid ref pc c = None"
| "iter_collect (Suc n) get_done rid ref pc c = (case iter_resume get_done rid ref pc c of
     (Yield x, pc', c') \<Rightarrow>
       map_option (\<lambda>(xs, c''). (x # xs, c'')) (iter_collect n get_done rid ref pc' c')
   | (Suspended, pc', c') \<Rightarrow> None
   | (Stop, pc', c') \<Rightarrow> Some ([], c'))"

section \<open>The interleaved system\<close>

datatype rx_state = RxIdle | RxPutting nat bytes | RxEnded

text \<open>\<open>put_log\<close> and \<open>got_log\<close> are history variables: what was put into and taken out of each
  stream object. \<open>gens\<close> holds the running generators by the object they read.\<close>

record tsys =
  conn :: tunnel
  rx :: rx_state
  gens :: "nat \<Rightarrow> (uuid \<times> iter_pc) option"
  put_log :: "nat \<Rightarrow> bytes list"
  got_log :: "nat \<Rightarrow> bytes list"

definition tsys_init :: tsys where
  "tsys_init = \<lparr>conn = TunnelConnection_init, rx = RxIdle, gens = (\<lambda>_. None),
     put_log = (\<lambda>_. []), got_log = (\<lambda>_. [])\<rparr>"

definition frame_target :: "frame_dict \<Rightarrow> tunnel \<Rightarrow> (nat \<times> bytes) option" where
  "frame_target fd c = (case fd of
     FBytes raw \<Rightarrow> (case deserialize_frame raw of
         Inr (ty, rid, p) \<Rightarrow>
           if ty \<in> {DATA, WS_DATA} then map_option (\<lambda>ref. (ref, p)) (map_of (streams c) rid) else None
       | Inl _ \<Rightarrow> None)
   | _ \<Rightarrow> None)"

definition yielded :: "iter_out \<Rightarrow> bytes list" where
  "yielded out = (case out of Yield x \<Rightarrow> [x] | _ \<Rightarrow> [])"

inductive tstep :: "nat \<Rightarrow> tsys \<Rightarrow> tsys \<Rightarrow> bool" for missed_limit where
  t_open: "open_stream rid (conn s) = Inr (ref, c') \<Longrightarrow> tstep missed_limit s (s\<lparr>conn := c'\<rparr>)"
| t_remove: "tstep missed_limit s (s\<lparr>conn := remove_stream rid (conn s)\<rparr>)"
| t_handler: "tstep missed_limit s (s\<lparr>conn := set_control_handler (conn s)\<rparr>)"
| t_send: "send_control m out (conn s) = Inr c' \<Longrightarrow> tstep missed_limit s (s\<lparr>conn := c'\<rparr>)"
| t_send_frame: "send_unguarded ty rid p out (conn s) = Inr c' \<Longrightarrow>
    tstep missed_limit s (s\<lparr>conn := c'\<rparr>)"
| rx_data: "rx s = RxIdle \<Longrightarrow> run_receive_loop_once h out fd (conn s) = RxContinue c' \<Longrightarrow>
    frame_target fd (conn s) = Some (ref, p) \<Longrightarrow>
    tstep missed_limit s (s\<lparr>conn := c', put_log := (put_log s)(ref := put_log s ref @ [p])\<rparr>)"
| rx_other: "rx s = RxIdle \<Longrightarrow> run_receive_loop_once h out fd (conn s) = RxContinue c' \<Longrightarrow>
    frame_target fd (conn s) = None \<Longrightarrow> tstep missed_limit s (s\<lparr>conn := c'\<rparr>)"
| rx_block: "rx s = RxIdle \<Longrightarrow> run_receive_loop_once h out fd (conn s) = RxAwaitPut ref p \<Longrightarrow>
    tstep missed_limit s (s\<lparr>rx := RxPutting ref p\<rparr>)"
| rx_unblock: "rx s = RxPutting ref p \<Longrightarrow> queue_put ref p (conn s) = Some c' \<Longrightarrow>
    tstep missed_limit s
      (s\<lparr>conn := c', rx := RxIdle, put_log := (put_log s)(ref := put_log s ref @ [p])\<rparr>)"
| rx_end: "rx s = RxIdle \<Longrightarrow>
    run_receive_loop_once h out fd (conn s) = RxBreak \<or>
    (\<exists>e. run_receive_loop_once h out fd (conn s) = RxRaise e) \<Longrightarrow>
    tstep missed_limit s (s\<lparr>rx := RxEnded\<rparr>)"
| reader: "ref < length (objs (conn s)) \<Longrightarrow> queue_get ref (conn s) = Some (x, c') \<Longrightarrow>
    tstep missed_limit s (s\<lparr>conn := c', got_log := (got_log s)(ref := got_log s ref @ [x])\<rparr>)"
| gen_start: "get_stream rid (conn s) = Inr ref \<Longrightarrow>
    tstep missed_limit s (s\<lparr>gens := (gens s)(ref \<mapsto> (rid, IterLoop))\<rparr>)"
| gen_step: "gens s ref = Some (rid, pc) \<Longrightarrow>
    iter_resume get_done rid ref pc (conn s) = (res, pc', c') \<Longrightarrow>
    tstep missed_limit s (s\<lparr>conn := c', gens := (gens s)(ref \<mapsto> (rid, pc')),
        got_log := (got_log s)(ref := got_log s ref @ yielded res)\<rparr>)"
| hb_start: "tstep missed_limit s (s\<lparr>conn := start_heartbeat (conn s)\<rparr>)"
| hb_wakes: "hb_task (conn s) = HbSleeping m \<Longrightarrow>
    tstep missed_limit s (s\<lparr>conn := hb_wake out m (conn s)\<rparr>)"
| hb_ponged: "hb_task (conn s) = HbWaiting m \<Longrightarrow> pong_event (conn s) \<Longrightarrow>
    tstep missed_limit s (s\<lparr>conn := hb_pong (conn s)\<rparr>)"
| hb_timed_out: "hb_task (conn s) = HbWaiting m \<Longrightarrow> \<not> pong_event (conn s) \<Longrightarrow>
    tstep missed_limit s (s\<lparr>conn := hb_timeout missed_limit m (conn s)\<rparr>)"
| closing: "tstep missed_limit s (s\<lparr>conn := snd (close_conn (conn s))\<rparr>)"

definition treach :: "nat \<Rightarrow> tsys \<Rightarrow> bool" where
  "treach missed_limit s \<longleftrightarrow> (tstep missed_limit)\<^sup>*\<^sup>* tsys_init s"

section \<open>Lemmas\<close>

subsection \<open>What each operation does to the queues and to the dict\<close>

named_theorems conn_frame \<open>effect of the connection operations on queues and streams\<close>

definition queues :: "tunnel \<Rightarrow> bytes list list" where
  "queues c = map queue (objs c)"

lemma length_queues [simp]: "length (queues c) = length (objs c)"
  by (simp add: queues_def)

lemma queues_set_closed [conn_frame]: "queues (set_closed r c) = queues c"
  by (auto simp: queues_def set_closed_def map_update list_update_same_conv
      intro: list_update_beyond)
     (metis list_update_id map_update)

lemma set_closed_frame [conn_frame]:
  "streams (set_closed r c) = streams c" "is_closed (set_closed r c) = is_closed c"
  "length (objs (set_closed r c)) = length (objs c)" "ws_closed (set_closed r c) = ws_closed c"
  "hb_task (set_closed r c) = hb_task c"
  by (simp_all add: set_closed_def)

definition close_all :: "uuid list \<Rightarrow> tunnel \<Rightarrow> tunnel" where
  "close_all rids c = fold (\<lambda>rid c'. case map_of (streams c') rid of
      None \<Rightarrow> c' | Some ref \<Rightarrow> set_closed ref c') rids c"

lemma close_all_frame [conn_frame]:
  "streams (close_all rids c) = streams c \<and> is_closed (close_all rids c) = is_closed c \<and>
   queues (close_all rids c) = queues c \<and> length (objs (close_all rids c)) = length (objs c) \<and>
   ws_closed (close_all rids c) = ws_closed c \<and> hb_task (close_all rids c) = hb_task c"
  unfolding close_all_def
  by (induction rids arbitrary: c) (auto simp: conn_frame split: option.split)

lemma tear_down_eq:
  "tear_down c = (if is_closed c then c
     else (close_all (map fst (streams c)) (c\<lparr>is_closed := True\<rparr>))\<lparr>streams := []\<rparr>)"
  by (simp add: tear_down_def close_all_def)

lemma tear_down_frame [conn_frame]:
  "queues (tear_down c) = queues c" "length (objs (tear_down c)) = length (objs c)"
  "streams (tear_down c) = (if is_closed c then streams c else [])" "is_closed (tear_down c)"
  "ws_closed (tear_down c) = ws_closed c" "hb_task (tear_down c) = hb_task c"
  using close_all_frame [of "map fst (streams c)" "c\<lparr>is_closed := True\<rparr>"]
  by (simp_all add: tear_down_eq queues_def)

lemma remove_stream_frame [conn_frame]:
  "queues (remove_stream r c) = queues c"
  "streams (remove_stream r c) = AList.delete r (streams c)"
  "objs (remove_stream r c) = objs c" "is_closed (remove_stream r c) = is_closed c"
  by (simp_all add: remove_stream_def queues_def)

lemma open_stream_frame:
  assumes "open_stream rid c = Inr (ref, c')"
  shows "queues c' = queues c @ [[]]" "streams c' = AList.update rid ref (streams c)"
    "ref = length (objs c)" "length (streams c) < MAX_STREAMS" "map_of (streams c) rid = None"
    "objs c' = objs c @ [StreamState_new]"
  using assms
  by (auto simp: open_stream_def queues_def StreamState_new_def Let_def split: if_splits)

lemma queue_put_frame:
  assumes "queue_put ref p c = Some c'" and "ref < length (objs c)"
  shows "queues c' = (queues c)[ref := queues c ! ref @ [p]]" "streams c' = streams c"
    "length (queues c ! ref) < QUEUE_DEPTH"
  using assms by (auto simp: queue_put_def queues_def map_update split: if_splits)

lemma queue_get_frame:
  assumes "queue_get ref c = Some (x, c')" and "ref < length (objs c)"
  shows "queues c ! ref = x # queues c' ! ref" "queues c' = (queues c)[ref := queues c' ! ref]"
    "streams c' = streams c" "length (objs c') = length (objs c)"
  using assms by (auto simp: queue_get_def queues_def map_update split: list.splits)

lemma queue_get_None: "ref < length (objs c) \<Longrightarrow> queue_get ref c = None \<longleftrightarrow> queues c ! ref = []"
  by (auto simp: queue_get_def queues_def split: list.splits)

lemma transport_send_frame:
  assumes "transport_send f out c = Inr c'"
  shows "queues c' = queues c" "streams c' = streams c" "objs c' = objs c"
  using assms by (auto simp: transport_send_def queues_def split: option.splits)

lemma send_control_frame:
  assumes "send_control m out c = Inr c'"
  shows "queues c' = queues c" "streams c' = streams c" "objs c' = objs c"
  using assms transport_send_frame
  by (fastforce simp: send_control_def res_bind_eq_Inr split: if_splits)+

lemma send_unguarded_frame:
  assumes "send_unguarded ty rid p out c = Inr c'"
  shows "queues c' = queues c" "streams c' = streams c" "objs c' = objs c"
  using assms transport_send_frame by (fastforce simp: send_unguarded_def res_bind_eq_Inr)+

lemma hb_next_frame [conn_frame]:
  "queues (hb_next m c) = queues c" "streams (hb_next m c) = streams c"
  "objs (hb_next m c) = objs c"
  by (simp_all add: hb_next_def queues_def)

lemma hb_wake_frame [conn_frame]:
  "queues (hb_wake out m c) = queues c \<and> streams (hb_wake out m c) = streams c \<and>
   objs (hb_wake out m c) = objs c"
proof (cases "send_control ping_message out (c\<lparr>pong_event := False\<rparr>)")
  case (Inl e)
  then show ?thesis by (cases e) (simp_all add: hb_wake_def queues_def)
next
  case (Inr d)
  from send_control_frame [OF Inr] Inr show ?thesis by (simp add: hb_wake_def queues_def)
qed

lemma hb_frame [conn_frame]:
  "queues (hb_pong c) = queues c" "streams (hb_pong c) = streams c" "objs (hb_pong c) = objs c"
  "queues (start_heartbeat c) = queues c" "streams (start_heartbeat c) = streams c"
  "objs (start_heartbeat c) = objs c"
  "queues (set_control_handler c) = queues c" "streams (set_control_handler c) = streams c"
  "objs (set_control_handler c) = objs c"
  by (simp_all add: hb_pong_def conn_frame start_heartbeat_def set_control_handler_def queues_def)

lemma hb_timeout_frame [conn_frame]:
  "queues (hb_timeout l m c) = queues c" "length (objs (hb_timeout l m c)) = length (objs c)"
  "streams (hb_timeout l m c) = streams c \<or> streams (hb_timeout l m c) = []"
proof -
  have "queues (x\<lparr>hb_task := y\<rparr>) = queues x" for x y by (simp add: queues_def)
  then show "queues (hb_timeout l m c) = queues c"
    "length (objs (hb_timeout l m c)) = length (objs c)"
    "streams (hb_timeout l m c) = streams c \<or> streams (hb_timeout l m c) = []"
    by (simp_all add: hb_timeout_def Let_def conn_frame)
qed

lemma close_conn_frame [conn_frame]:
  "queues (snd (close_conn c)) = queues c"
  "length (objs (snd (close_conn c))) = length (objs c)"
  "streams (snd (close_conn c)) = (if is_closed c then streams c else [])"
  "is_closed (snd (close_conn c))"
proof -
  have "queues (x\<lparr>ws_closed := b\<rparr>) = queues x" "queues (x\<lparr>hb_task := y\<rparr>) = queues x" for x y b
    by (simp_all add: queues_def)
  then show "queues (snd (close_conn c)) = queues c"
    "length (objs (snd (close_conn c))) = length (objs c)"
    "streams (snd (close_conn c)) = (if is_closed c then streams c else [])"
    "is_closed (snd (close_conn c))"
    by (auto simp: close_conn_def Let_def conn_frame split: heartbeat.split)
qed

lemma dispatch_target:
  assumes "dispatch_frame ty rid p c = Dispatched c'"
  shows "if ty \<in> {DATA, WS_DATA} \<and> map_of (streams c) rid \<noteq> None
    then queue_put (the (map_of (streams c) rid)) p c = Some c'
    else queues c' = queues c \<and> streams c' = streams c \<and> length (objs c') = length (objs c)"
  using assms
  by (auto simp: dispatch_frame_def get_stream_def close_stream_def conn_frame
      split: if_splits option.splits)

lemma map_of_snd: "map_of xs k = Some v \<Longrightarrow> v \<in> snd ` set xs"
  by (force dest: map_of_SomeD)

lemma rx_continue_effect:
  assumes "run_receive_loop_once h out fd c = RxContinue c'"
  shows "case frame_target fd c of
     None \<Rightarrow> queues c' = queues c \<and> streams c' = streams c \<and> length (objs c') = length (objs c)
   | Some (ref, p) \<Rightarrow> queue_put ref p c = Some c' \<and> ref \<in> snd ` set (streams c)"
proof (cases fd)
  case (FBytes raw)
  then show ?thesis using assms
    by (auto simp: run_receive_loop_once_def frame_target_def split: sum.splits if_splits
        dispatch_outcome.splits option.splits dest!: dispatch_target intro: map_of_snd)
next
  case (FText tx)
  have pong: "queues (handle_pong c) = queues c" "streams (handle_pong c) = streams c"
    "objs (handle_pong c) = objs c" by (simp_all add: handle_pong_def queues_def)
  have ping: "queues d = queues c \<and> streams d = streams c \<and> objs d = objs c"
    if "send_control pong_message out c = Inr d" for d
    using send_control_frame [OF that] by simp
  show ?thesis using assms FText
    by (auto simp: run_receive_loop_once_def frame_target_def pong
        split: json_text.splits sum.splits if_splits dest!: ping)
next
  case FDisconnect
  then show ?thesis using assms by (simp add: run_receive_loop_once_def)
qed

lemma rx_await_registered:
  assumes "run_receive_loop_once h out fd c = RxAwaitPut ref p"
  shows "ref \<in> snd ` set (streams c) \<and> QUEUE_DEPTH \<le> length (queue (objs c ! ref))"
  using assms
  by (auto simp: run_receive_loop_once_def dispatch_frame_def get_stream_def queue_put_def
      close_stream_def split: frame_dict.splits json_text.splits sum.splits if_splits
      dispatch_outcome.splits option.splits intro: map_of_snd)

definition takes :: "nat \<Rightarrow> bytes list \<Rightarrow> tunnel \<Rightarrow> tunnel \<Rightarrow> bool" where
  "takes ref xs c c' \<longleftrightarrow> length (objs c') = length (objs c) \<and>
     queues c ! ref = xs @ queues c' ! ref \<and> (\<forall>r. r \<noteq> ref \<longrightarrow> queues c' ! r = queues c ! r)"

lemma takes_nothing: "queues c' = queues c \<Longrightarrow> takes ref [] c c'"
  unfolding takes_def by (simp flip: length_queues)

lemma queue_get_takes:
  assumes "queue_get ref c = Some (x, c')" and "ref < length (objs c)"
  shows "takes ref [x] c c' \<and> streams c' = streams c"
proof -
  have "queues c' ! r = queues c ! r" if "r \<noteq> ref" for r
    by (subst queue_get_frame(2) [OF assms]) (use that in simp)
  with queue_get_frame(1,3,4) [OF assms] show ?thesis by (simp add: takes_def)
qed

lemma iter_drain_effect:
  assumes "iter_drain rid ref c = (res, pc', c')" and "ref < length (objs c)"
  shows "takes ref (yielded res) c c' \<and>
    (streams c' = streams c \<or> streams c' = AList.delete rid (streams c)) \<and>
    (res = Stop \<longrightarrow> queues c ! ref = [])"
proof (cases "queue_get ref c")
  case None
  with assms show ?thesis
    using queue_get_None [of ref c]
    by (auto simp: iter_drain_def iter_stop_def yielded_def conn_frame intro: takes_nothing)
next
  case (Some xc)
  obtain x d where xc: "xc = (x, d)" by (cases xc)
  with Some assms queue_get_takes [of ref c x d] show ?thesis
    by (auto simp: iter_drain_def yielded_def)
qed

lemma iter_loop_effect:
  assumes "iter_loop gd rid ref c = (res, pc', c')" and "ref < length (objs c)"
  shows "takes ref (yielded res) c c' \<and>
    (streams c' = streams c \<or> streams c' = AList.delete rid (streams c)) \<and>
    (res = Stop \<longrightarrow> queues c ! ref = [])"
proof (cases "queue_get ref c")
  case None
  with assms show ?thesis
    using iter_drain_effect [of rid ref c]
    by (auto simp: iter_loop_def split: if_splits) (simp_all add: yielded_def takes_nothing)
next
  case (Some xc)
  obtain x d where xc: "xc = (x, d)" by (cases xc)
  have "takes ref [x] c d \<and> streams d = streams c"
    using Some xc assms(2) by (simp add: queue_get_takes)
  with Some xc assms show ?thesis
    using iter_drain_effect [of rid ref c]
    by (auto simp: iter_loop_def split: if_splits) (simp_all add: yielded_def takes_nothing)
qed

lemma iter_resume_effect:
  assumes "iter_resume gd rid ref pc c = (res, pc', c')" and "ref < length (objs c)"
  shows "takes ref (yielded res) c c' \<and>
    (streams c' = streams c \<or> streams c' = AList.delete rid (streams c)) \<and>
    (res = Stop \<and> pc \<noteq> IterDone \<longrightarrow> queues c ! ref = [])"
proof (cases pc)
  case IterLoop
  with assms iter_loop_effect show ?thesis by simp
next
  case IterYielded
  have "queues c ! ref = queue (objs c ! ref)" using assms(2) by (simp add: queues_def)
  with IterYielded assms show ?thesis
    using iter_loop_effect [of gd rid ref c]
    by (auto simp: iter_stop_def conn_frame split: if_splits)
      (simp_all add: yielded_def takes_nothing conn_frame)
next
  case IterDraining
  with assms iter_drain_effect show ?thesis by simp
next
  case IterDone
  with assms show ?thesis by (auto simp: yielded_def takes_nothing)
qed

subsection \<open>The invariant of the connection\<close>

definition tunnel_ok :: "tunnel \<Rightarrow> bool" where
  "tunnel_ok c \<longleftrightarrow> dict_ok (streams c) \<and> length (streams c) \<le> MAX_STREAMS \<and>
     distinct (map snd (streams c)) \<and> (\<forall>ref \<in> snd ` set (streams c). ref < length (objs c)) \<and>
     (\<forall>ref < length (objs c). length (queues c ! ref) \<le> QUEUE_DEPTH)"

definition tsys_ok :: "tsys \<Rightarrow> bool" where
  "tsys_ok s \<longleftrightarrow> tunnel_ok (conn s) \<and>
     (\<forall>ref < length (objs (conn s)). put_log s ref = got_log s ref @ queues (conn s) ! ref) \<and>
     (\<forall>ref \<ge> length (objs (conn s)). put_log s ref = [] \<and> got_log s ref = []) \<and>
     (\<forall>ref p. rx s = RxPutting ref p \<longrightarrow> ref < length (objs (conn s))) \<and>
     (\<forall>ref g. gens s ref = Some g \<longrightarrow> ref < length (objs (conn s)))"

lemma length_AList_delete_le: "length (AList.delete k xs) \<le> length xs"
  by (induction xs) auto

lemma delete_filter: "AList.delete k xs = filter (\<lambda>p. fst p \<noteq> k) xs"
  by (induction xs) auto

lemma update_fresh: "map_of xs k = None \<Longrightarrow> AList.update k v xs = xs @ [(k, v)]"
  by (induction xs) (auto split: if_splits)

lemma distinct_snd_delete:
  "distinct (map snd xs) \<Longrightarrow> distinct (map snd (AList.delete k xs))"
  by (simp add: delete_filter distinct_map_filter)

lemma tunnel_ok_frame:
  assumes "tunnel_ok c"
    and "streams c' = streams c \<or> streams c' = [] \<or> (\<exists>k. streams c' = AList.delete k (streams c))"
    and "length (objs c') = length (objs c)"
    and "\<And>ref. ref < length (objs c) \<Longrightarrow> length (queues c' ! ref) \<le> length (queues c ! ref)"
  shows "tunnel_ok c'"
proof -
  from assms(2) have "dict_ok (streams c') \<and> length (streams c') \<le> MAX_STREAMS \<and>
      distinct (map snd (streams c')) \<and> snd ` set (streams c') \<subseteq> snd ` set (streams c)"
  proof (elim disjE exE)
    fix k
    assume "streams c' = AList.delete k (streams c)"
    moreover have "set (AList.delete k (streams c)) \<subseteq> set (streams c)"
      by (auto simp: delete_filter)
    ultimately show ?thesis
      using assms(1) length_AList_delete_le [of k "streams c"]
      by (auto simp: tunnel_ok_def intro: distinct_snd_delete distinct_delete)
  qed (use assms(1) in \<open>auto simp: tunnel_ok_def\<close>)
  moreover have "length (queues c' ! ref) \<le> QUEUE_DEPTH" if "ref < length (objs c)" for ref
    using assms(1,4) that by (meson le_trans tunnel_ok_def)
  ultimately show ?thesis using assms(1,3) unfolding tunnel_ok_def by fastforce
qed

lemma tunnel_ok_same:
  "tunnel_ok c \<Longrightarrow> queues c' = queues c \<Longrightarrow>
   streams c' = streams c \<or> streams c' = [] \<or> (\<exists>k. streams c' = AList.delete k (streams c)) \<Longrightarrow>
   tunnel_ok c'"
  by (rule tunnel_ok_frame) (auto simp flip: length_queues)

lemma tunnel_ok_open:
  assumes "tunnel_ok c" and "open_stream rid c = Inr (ref, c')"
  shows "tunnel_ok c'"
proof -
  note f = open_stream_frame [OF assms(2)]
  have new: "ref \<notin> snd ` set (streams c)" using assms(1) f(3) by (auto simp: tunnel_ok_def)
  have upd: "streams c' = streams c @ [(rid, ref)]"
    using f(2,5) by (simp add: update_fresh)
  have "length (queues c' ! r) \<le> QUEUE_DEPTH" if "r < length (objs c')" for r
    using assms(1) that f(1,6) by (auto simp: tunnel_ok_def nth_append)
  then show ?thesis
    using assms(1) new upd f by (auto simp: tunnel_ok_def map_of_eq_None_iff)
qed

lemma tunnel_ok_put:
  assumes "tunnel_ok c" and "queue_put ref p c = Some c'" and "ref < length (objs c)"
  shows "tunnel_ok c'"
proof -
  note f = queue_put_frame [OF assms(2,3)]
  have len: "length (objs c') = length (objs c)"
    using f(1) by (metis length_list_update length_queues)
  have "length (queues c' ! r) \<le> QUEUE_DEPTH" if "r < length (objs c)" for r
    using assms(1) that f(1,3) by (cases "r = ref") (auto simp: tunnel_ok_def)
  then show ?thesis using assms(1) f(2) len by (auto simp: tunnel_ok_def)
qed

lemma tunnel_ok_takes:
  assumes "tunnel_ok c" and "takes ref xs c c'"
    and "streams c' = streams c \<or> streams c' = AList.delete k (streams c)"
  shows "tunnel_ok c'"
proof (rule tunnel_ok_frame [OF assms(1)])
  show "length (queues c' ! r) \<le> length (queues c ! r)" for r
    using assms(2) by (cases "r = ref") (auto simp: takes_def)
qed (use assms(2,3) in \<open>auto simp: takes_def\<close>)

lemma tsys_ok_conn:
  assumes "tsys_ok s" and "queues c' = queues (conn s)"
    and "streams c' = streams (conn s) \<or> streams c' = [] \<or>
      (\<exists>k. streams c' = AList.delete k (streams (conn s)))"
  shows "tsys_ok (s\<lparr>conn := c'\<rparr>)"
proof -
  have "tunnel_ok c'" by (rule tunnel_ok_same) (use assms in \<open>auto simp: tsys_ok_def\<close>)
  moreover have "length (objs c') = length (objs (conn s))"
    using assms(2) by (simp flip: length_queues)
  ultimately show ?thesis using assms(1,2) by (simp add: tsys_ok_def)
qed

lemma tsys_ok_put:
  assumes "tsys_ok s" and "queue_put ref p (conn s) = Some c'" and "ref < length (objs (conn s))"
  shows "tsys_ok (s\<lparr>conn := c', put_log := (put_log s)(ref := put_log s ref @ [p])\<rparr>)"
proof -
  note f = queue_put_frame [OF assms(2,3)]
  have "tunnel_ok c'" by (rule tunnel_ok_put [OF _ assms(2,3)]) (use assms(1) in \<open>simp add: tsys_ok_def\<close>)
  moreover have "length (objs c') = length (objs (conn s))"
    using f(1) by (metis length_list_update length_queues)
  ultimately show ?thesis using assms(1,3) f(1) by (auto simp: tsys_ok_def)
qed

lemma tsys_ok_idle: "tsys_ok s \<Longrightarrow> tsys_ok (s\<lparr>rx := RxIdle\<rparr>)"
  by (simp add: tsys_ok_def)

lemma tsys_ok_take:
  assumes "tsys_ok s" and "takes ref xs (conn s) c'" and "ref < length (objs (conn s))"
    and "streams c' = streams (conn s) \<or> streams c' = AList.delete k (streams (conn s))"
    and "\<And>r g. gs r = Some g \<Longrightarrow> r = ref \<or> gens s r \<noteq> None"
  shows "tsys_ok (s\<lparr>conn := c', gens := gs, got_log := (got_log s)(ref := got_log s ref @ xs)\<rparr>)"
proof -
  have "tunnel_ok c'"
    by (rule tunnel_ok_takes [OF _ assms(2,4)]) (use assms(1) in \<open>simp add: tsys_ok_def\<close>)
  moreover have "r < length (objs (conn s))" if "gs r = Some g" for r g
    using assms(1,3) assms(5) [OF that] by (fastforce simp: tsys_ok_def)
  ultimately show ?thesis using assms(1,2,3) by (auto simp: tsys_ok_def takes_def)
qed

lemma tsys_ok_opened:
  assumes "tsys_ok s" and "open_stream rid (conn s) = Inr (ref, c')"
  shows "tsys_ok (s\<lparr>conn := c'\<rparr>)"
proof -
  note f = open_stream_frame [OF assms(2)]
  have "tunnel_ok c'" by (rule tunnel_ok_open [OF _ assms(2)]) (use assms(1) in \<open>simp add: tsys_ok_def\<close>)
  moreover have "put_log s r = got_log s r @ queues c' ! r" if "r < length (objs c')" for r
    using assms(1) that f(1,6) by (cases "r = length (objs (conn s))") (auto simp: tsys_ok_def nth_append)
  ultimately show ?thesis using assms(1) f(6) by (fastforce simp: tsys_ok_def)
qed

lemma tsys_ok_registered:
  "tsys_ok s \<Longrightarrow> ref \<in> snd ` set (streams (conn s)) \<Longrightarrow> ref < length (objs (conn s))"
  by (auto simp: tsys_ok_def tunnel_ok_def)

lemma tsys_ok_step:
  assumes "tsys_ok s" and "tstep missed_limit s t"
  shows "tsys_ok t"
  using assms(2,1)
proof (cases rule: tstep.cases)
  case (t_open rid ref c')
  then show ?thesis using assms(1) tsys_ok_opened by simp
next
  case (hb_timed_out m)
  then show ?thesis using hb_timeout_frame [of missed_limit m "conn s"] tsys_ok_conn [OF assms(1)]
    by auto
next
  case (rx_data h out fd c' ref p)
  then show ?thesis using assms(1) rx_continue_effect [of h out fd "conn s" c']
      tsys_ok_put [of s ref p c'] tsys_ok_registered [of s ref] by auto
next
  case (rx_other h out fd c')
  then show ?thesis using assms(1) rx_continue_effect [of h out fd "conn s" c']
    by (auto intro: tsys_ok_conn)
next
  case (rx_block h out fd ref p)
  then have "ref < length (objs (conn s))"
    using assms(1) rx_await_registered tsys_ok_registered by blast
  with rx_block show ?thesis using assms(1) by (simp add: tsys_ok_def)
next
  case (rx_unblock ref p c')
  then show ?thesis using assms(1) tsys_ok_put [of s ref p c', THEN tsys_ok_idle]
    by (auto simp: tsys_ok_def)
next
  case (reader ref x c')
  then have "takes ref [x] (conn s) c' \<and> streams c' = streams (conn s)" by (simp add: queue_get_takes)
  with reader show ?thesis using assms(1) tsys_ok_take [of s ref "[x]" c' _ "gens s"] by auto
next
  case (gen_start rid ref)
  then have "ref < length (objs (conn s))"
    using assms(1) by (intro tsys_ok_registered)
      (auto simp: get_stream_def split: option.splits intro: map_of_snd)
  with gen_start show ?thesis using assms(1) by (auto simp: tsys_ok_def)
next
  case (gen_step ref rid pc get_done res pc' c')
  then have "ref < length (objs (conn s))" using assms(1) by (auto simp: tsys_ok_def)
  with gen_step show ?thesis using assms(1) iter_resume_effect [of get_done rid ref pc "conn s" res pc' c']
    by (auto intro!: tsys_ok_take [where k = rid] split: if_splits)
next
  case (rx_end h out fd)
  then show ?thesis using assms(1) by (simp add: tsys_ok_def)
qed (use assms(1) in \<open>auto intro!: tsys_ok_conn simp: conn_frame
      dest: send_control_frame send_unguarded_frame split: if_splits\<close>)

interpretation tunnel_sys: transition_system tsys_init "tstep missed_limit" tsys_ok
  for missed_limit
  by unfold_locales (simp add: tsys_ok_def tunnel_ok_def tsys_init_def
      TunnelConnection_init_def, erule (1) tsys_ok_step)

subsection \<open>Draining a closed stream\<close>

lemma queue_get_objs:
  "queue_get ref c = Some (x, c') \<Longrightarrow> ref < length (objs c) \<Longrightarrow>
   objs c' = (objs c)[ref := (objs c ! ref)\<lparr>queue := tl (queue (objs c ! ref))\<rparr>] \<and>
   queue (objs c ! ref) = x # queue (objs c' ! ref) \<and> streams c' = streams c \<and>
   closed_event (objs c' ! ref) = closed_event (objs c ! ref) \<and> length (objs c') = length (objs c)"
  by (auto simp: queue_get_def split: list.splits)

lemma queue_get_Cons:
  assumes "ref < length (objs c)" and "queue (objs c ! ref) = x # xs"
  obtains d where "queue_get ref c = Some (x, d)" "ref < length (objs d)"
    "queue (objs d ! ref) = xs" "streams d = streams c"
    "closed_event (objs d ! ref) = closed_event (objs c ! ref)"
  using assms by (simp add: queue_get_def)

lemma iter_collect_drain:
  "ref < length (objs c) \<Longrightarrow> queue (objs c ! ref) = xs \<Longrightarrow>
   \<exists>c'. iter_collect (Suc (length xs)) gd rid ref IterDraining c = Some (xs, c') \<and>
     streams c' = AList.delete rid (streams c)"
proof (induction xs arbitrary: c)
  case Nil
  then show ?case by (simp add: iter_drain_def queue_get_def iter_stop_def conn_frame)
next
  case (Cons x xs)
  obtain d where "queue_get ref c = Some (x, d)" "ref < length (objs d)"
    "queue (objs d ! ref) = xs" "streams d = streams c"
    using Cons.prems by (rule queue_get_Cons)
  with Cons.IH [of d] show ?case by (auto simp: iter_drain_def)
qed

lemma iter_collect_closed:
  "ref < length (objs c) \<Longrightarrow> queue (objs c ! ref) = xs \<Longrightarrow> closed_event (objs c ! ref) \<Longrightarrow>
   \<exists>c'. iter_collect (Suc (length xs)) gd rid ref IterLoop c = Some (xs, c') \<and>
     streams c' = AList.delete rid (streams c)"
proof (induction xs arbitrary: c)
  case Nil
  then show ?case by (simp add: iter_loop_def iter_drain_def queue_get_def iter_stop_def conn_frame)
next
  case (Cons x xs)
  obtain d where d: "queue_get ref c = Some (x, d)" "ref < length (objs d)"
    "queue (objs d ! ref) = xs" "streams d = streams c"
    "closed_event (objs d ! ref) = closed_event (objs c ! ref)"
    using Cons.prems(1,2) by (rule queue_get_Cons)
  show ?case
  proof (cases gd)
    case False
    then have "iter_resume gd rid ref IterLoop c = iter_resume gd rid ref IterDraining c"
      using d(1) Cons.prems(3) by (simp add: iter_loop_def)
    with iter_collect_drain [OF Cons.prems(1,2), of gd rid] show ?thesis by simp
  next
    case True
    have "\<exists>c'. iter_collect (Suc (length xs)) gd rid ref IterYielded d
       = Some (xs, c') \<and> streams c' = AList.delete rid (streams d)"
    proof (cases xs)
      case Nil
      then show ?thesis using d Cons.prems(3) by (simp add: iter_stop_def conn_frame)
    next
      case ys: (Cons y ys)
      then have "iter_resume gd rid ref IterYielded d = iter_resume gd rid ref IterLoop d"
        using d by simp
      with Cons.IH [of d] d Cons.prems(3) show ?thesis by simp
    qed
    with True d(1,4) show ?thesis by (auto simp: iter_loop_def)
  qed
qed

subsection \<open>Teardown\<close>

lemma set_closed_objs:
  "r < length (objs c) \<Longrightarrow>
   closed_event (objs (set_closed ref c) ! r) \<longleftrightarrow> r = ref \<or> closed_event (objs c ! r)"
  by (cases "r = ref") (auto simp: set_closed_def)

lemma close_all_objs:
  "r < length (objs c) \<Longrightarrow>
   closed_event (objs (close_all rids c) ! r) \<longleftrightarrow>
     (\<exists>rid \<in> set rids. map_of (streams c) rid = Some r) \<or> closed_event (objs c ! r)"
proof (induction rids arbitrary: c)
  case Nil
  then show ?case by (simp add: close_all_def)
next
  case (Cons rid rids)
  have "close_all (rid # rids) c = close_all rids
      (case map_of (streams c) rid of None \<Rightarrow> c | Some ref \<Rightarrow> set_closed ref c)"
    by (simp add: close_all_def)
  with Cons show ?case by (auto simp: conn_frame set_closed_objs split: option.splits)
qed

lemma tear_down_objs:
  assumes "\<not> is_closed c" and "dict_ok (streams c)" and "r < length (objs c)"
  shows "closed_event (objs (tear_down c) ! r) \<longleftrightarrow>
    r \<in> snd ` set (streams c) \<or> closed_event (objs c ! r)"
proof -
  have "(\<exists>rid \<in> fst ` set (streams c). map_of (streams c) rid = Some r) \<longleftrightarrow>
      r \<in> snd ` set (streams c)"
    using assms(2) by (force dest: map_of_SomeD)
  with assms(1,3) close_all_objs [of r "c\<lparr>is_closed := True\<rparr>" "map fst (streams c)"]
  show ?thesis by (simp add: tear_down_eq)
qed

subsection \<open>The heartbeat\<close>

text \<open>One round of the loop whose ping was sent: the sleep ends, the ping goes out, and either
  the pong arrives in time or the wait times out.\<close>

definition hb_round :: "nat \<Rightarrow> bool \<Rightarrow> tunnel \<Rightarrow> tunnel" where
  "hb_round missed_limit ponged c = (case hb_task c of
     HbSleeping m \<Rightarrow>
       let w = hb_wake None m c in if ponged then hb_pong w else hb_timeout missed_limit m w
   | _ \<Rightarrow> c)"

lemma hb_wake_ok:
  "hb_wake None m c = c\<lparr>pong_event := False, sent := sent c @ [WsText ping_message],
     hb_task := HbWaiting m\<rparr>"
  by (simp add: hb_wake_def send_control_def ping_message_def transport_send_def)

lemma hb_round_sleeping:
  assumes "hb_task c = HbSleeping m" and "\<not> is_closed c"
  shows "if ponged then hb_task (hb_round l ponged c) = HbSleeping 0 \<and> \<not> is_closed (hb_round l ponged c)
     else if l \<le> Suc m then hb_task (hb_round l ponged c) = HbTornDown
     else hb_task (hb_round l ponged c) = HbSleeping (Suc m) \<and> \<not> is_closed (hb_round l ponged c)"
  using assms
  by (simp add: hb_round_def hb_wake_ok hb_pong_def hb_timeout_def hb_next_def Let_def)

lemma hb_run_torn: "hb_task c = HbTornDown \<Longrightarrow> hb_task (fold (hb_round l) bs c) = HbTornDown"
  by (induction bs) (auto simp: hb_round_def)

lemma replicate_split:
  "\<not> x \<Longrightarrow> (\<exists>pre post. x # bs = pre @ replicate (Suc k) False @ post) \<longleftrightarrow>
    (\<exists>post. bs = replicate k False @ post) \<or> (\<exists>pre post. bs = pre @ replicate (Suc k) False @ post)"
  by (auto simp: Cons_eq_append_conv)

lemma hb_run_torn_iff:
  assumes "hb_task c = HbSleeping m" and "\<not> is_closed c" and "m < l"
  shows "hb_task (fold (hb_round l) bs c) = HbTornDown \<longleftrightarrow>
     (\<exists>post. bs = replicate (l - m) False @ post) \<or>
     (\<exists>pre post. bs = pre @ replicate l False @ post)"
  using assms
proof (induction bs arbitrary: c m)
  case Nil
  then show ?case by simp
next
  case (Cons x bs)
  note r = hb_round_sleeping [OF Cons.prems(1,2), of x l]
  obtain k where l: "l = Suc k" using Cons.prems(3) by (cases l) auto
  show ?case
  proof (cases x)
    case True
    then have run: "hb_task (fold (hb_round l) bs (hb_round l x c)) = HbTornDown \<longleftrightarrow>
       (\<exists>post. bs = replicate l False @ post) \<or> (\<exists>pre post. bs = pre @ replicate l False @ post)"
      using r Cons.IH [of "hb_round l x c" 0] l by simp
    have "(\<exists>pre post. x # bs = pre @ replicate l False @ post) \<longleftrightarrow>
        (\<exists>pre post. bs = pre @ replicate l False @ post)"
      using True l by (auto simp: Cons_eq_append_conv)
    moreover have "\<not> (\<exists>post. x # bs = replicate (l - m) False @ post)"
      using True Cons.prems(3) by (metis Suc_diff_Suc append_Cons list.inject replicate_Suc)
    moreover have "(\<exists>post. bs = replicate l False @ post) \<Longrightarrow>
        (\<exists>pre post. bs = pre @ replicate l False @ post)" by (metis append_Nil)
    ultimately show ?thesis using run by auto
  next
    case False
    show ?thesis
    proof (cases "l \<le> Suc m")
      case True
      then have "l - m = 1" using Cons.prems(3) by simp
      then have "\<exists>post. x # bs = replicate (l - m) False @ post" using False by simp
      with r False True hb_run_torn show ?thesis by simp
    next
      case more: False
      then have run: "hb_task (fold (hb_round l) bs (hb_round l x c)) = HbTornDown \<longleftrightarrow>
         (\<exists>post. bs = replicate (l - Suc m) False @ post) \<or>
         (\<exists>pre post. bs = pre @ replicate l False @ post)"
        using r False Cons.IH [of "hb_round l x c" "Suc m"] by simp
      have "(\<exists>post. x # bs = replicate (l - m) False @ post) \<longleftrightarrow>
          (\<exists>post. bs = replicate (l - Suc m) False @ post)"
        using False Cons.prems(3) by (simp flip: Suc_diff_Suc)
      moreover have "(\<exists>post. bs = replicate k False @ post) \<Longrightarrow>
          \<exists>post. bs = replicate (l - Suc m) False @ post"
        using l by (metis diff_Suc_Suc diff_le_self append_assoc le_add_diff_inverse replicate_add)
      ultimately show ?thesis
        using run replicate_split [OF False, of bs k] l by auto
    qed
  qed
qed

subsection \<open>A transfer\<close>

fun send_all :: "uuid \<Rightarrow> bytes list \<Rightarrow> tunnel \<Rightarrow> (conn_exn, tunnel) result" where
  "send_all rid [] c = send_close rid None c"
| "send_all rid (p # ps) c = res_bind (send_data rid p None c) (send_all rid ps)"

fun receive_all :: "ws_frame list \<Rightarrow> tunnel \<Rightarrow> tunnel option" where
  "receive_all [] c = Some c"
| "receive_all (WsBytes b # fs) c = (case run_receive_loop_once True None (FBytes b) c of
     RxContinue c' \<Rightarrow> receive_all fs c' | _ \<Rightarrow> None)"
| "receive_all (WsText m # fs) c = (case run_receive_loop_once True None (FText (Json m)) c of
     RxContinue c' \<Rightarrow> receive_all fs c' | _ \<Rightarrow> None)"

definition packed :: "FrameType \<Rightarrow> uuid \<Rightarrow> bytes \<Rightarrow> bytes" where
  "packed t rid p = pack_header (frame_type_value t) (uuid_bytes rid) (length p) @ p"

lemma send_all_sent:
  "\<forall>p \<in> set ps. length p \<le> MAX_PAYLOAD_BYTES \<Longrightarrow>
   send_all rid ps c = Inr (c\<lparr>sent := sent c @ map (\<lambda>p. WsBytes (packed DATA rid p)) ps
     @ [WsBytes (packed CLOSE rid [])]\<rparr>)"
  by (induction ps arbitrary: c)
    (simp_all add: send_close_def send_unguarded_def send_data_def guarded_send_def
      transport_send_def lift_tun_def serialize_frame_def packed_def res_bind_def)

lemma receive_data:
  assumes "length p \<le> MAX_PAYLOAD_BYTES" and "map_of (streams c) rid = Some ref"
    and "length (queue (objs c ! ref)) < QUEUE_DEPTH"
  shows "receive_all (WsBytes (packed DATA rid p) # fs) c = receive_all fs
    (c\<lparr>objs := (objs c)[ref := (objs c ! ref)\<lparr>queue := queue (objs c ! ref) @ [p]\<rparr>]\<rparr>)"
proof -
  have "deserialize_frame (packed DATA rid p) = Inr (DATA, rid, p)"
    unfolding packed_def using assms(1) by (intro deserialize_packed) (simp add: MAX_PAYLOAD_BYTES_def)
  then show ?thesis using assms(2,3)
    by (simp add: run_receive_loop_once_def dispatch_frame_def get_stream_def queue_put_def)
qed

lemma receive_close:
  assumes "map_of (streams c) rid = Some ref"
  shows "receive_all [WsBytes (packed CLOSE rid [])] c = Some (set_closed ref c)"
proof -
  have "deserialize_frame (packed CLOSE rid []) = Inr (CLOSE, rid, [])"
    unfolding packed_def by (intro deserialize_packed) simp
  then show ?thesis using assms
    by (simp add: run_receive_loop_once_def dispatch_frame_def close_stream_def get_stream_def)
qed

lemma receive_transfer:
  assumes "\<forall>p \<in> set ps. length p \<le> MAX_PAYLOAD_BYTES"
    and "map_of (streams c) rid = Some ref" and "ref < length (objs c)"
    and "length (queue (objs c ! ref)) + length ps \<le> QUEUE_DEPTH"
  shows "\<exists>c'. receive_all (map (\<lambda>p. WsBytes (packed DATA rid p)) ps @ [WsBytes (packed CLOSE rid [])]) c
      = Some c' \<and> streams c' = streams c \<and> ref < length (objs c') \<and> closed_event (objs c' ! ref) \<and>
      queue (objs c' ! ref) = queue (objs c ! ref) @ ps \<and>
      (\<forall>r. r \<noteq> ref \<longrightarrow> objs c' ! r = objs c ! r)"
  using assms
proof (induction ps arbitrary: c)
  case Nil
  then show ?case using receive_close [of c rid ref] by (simp add: set_closed_def)
next
  case (Cons p ps)
  let ?d = "c\<lparr>objs := (objs c)[ref := (objs c ! ref)\<lparr>queue := queue (objs c ! ref) @ [p]\<rparr>]\<rparr>"
  have "length (queue (objs ?d ! ref)) + length ps \<le> QUEUE_DEPTH" using Cons.prems by simp
  from Cons.IH [of ?d] this Cons.prems show ?case by (simp add: receive_data del: receive_all.simps)
qed

subsection \<open>A concrete run\<close>

definition demo_conn :: tunnel where
  "demo_conn = TunnelConnection_init\<lparr>streams := [(7, 0)],
     objs := [\<lparr>queue = [[1, 2]], closed_event = False\<rparr>]\<rparr>"

definition demo_sys :: tsys where
  "demo_sys = tsys_init\<lparr>conn := demo_conn, put_log := (\<lambda>_. [])(0 := [[1, 2]])\<rparr>"

lemma demo_reach: "treach 3 demo_sys"
proof -
  let ?c = "TunnelConnection_init\<lparr>objs := [StreamState_new], streams := [(7, 0)]\<rparr>"
  let ?s = "tsys_init\<lparr>conn := ?c\<rparr>" and ?raw = "packed DATA 7 [1, 2]"
  have "open_stream 7 (conn tsys_init) = Inr (0, ?c)"
    by (simp add: open_stream_def tsys_init_def TunnelConnection_init_def MAX_STREAMS_def)
  then have 1: "tstep 3 tsys_init ?s" by (rule tstep.t_open)
  have raw: "deserialize_frame ?raw = Inr (DATA, 7, [1, 2])"
    unfolding packed_def by (rule deserialize_packed) simp
  have "tstep 3 ?s (?s\<lparr>conn := demo_conn, put_log := (put_log ?s)(0 := put_log ?s 0 @ [[1, 2]])\<rparr>)"
    by (rule tstep.rx_data [where h = True and out = None and fd = "FBytes ?raw"])
      (simp_all add: raw tsys_init_def run_receive_loop_once_def dispatch_frame_def get_stream_def
        queue_put_def QUEUE_DEPTH_def StreamState_new_def demo_conn_def frame_target_def)
  then have "tstep 3 ?s demo_sys" by (simp add: demo_sys_def tsys_init_def)
  with 1 show ?thesis by (auto simp: treach_def intro: rtranclp.intros)
qed

section \<open>Properties\<close>

text \<open>In every reachable state of the interleaved connection at most 100 streams are
  registered, every registered id has a stream object of its own, and no stream queue holds more
  than 64 frames.\<close>

lemma tunnel_bounds:
  assumes "treach missed_limit s"
  shows "length (streams (conn s)) \<le> 100 \<and> distinct (map fst (streams (conn s))) \<and>
    distinct (map snd (streams (conn s))) \<and>
    (\<forall>ref < length (objs (conn s)). length (queue (objs (conn s) ! ref)) \<le> 64)"
proof -
  have "tsys_ok s" using assms by (simp add: treach_def tunnel_sys.reach_inv)
  then show ?thesis
    by (auto simp: tsys_ok_def tunnel_ok_def queues_def MAX_STREAMS_def QUEUE_DEPTH_def)
qed

lemma tunnel_bounds_witness:
  "treach 3 demo_sys \<and> length (streams (conn demo_sys)) \<le> 100"
  using tunnel_bounds [OF demo_reach] demo_reach by simp

text \<open>C5: in every reachable state, for every stream object, the frames put into its queue are
  exactly the frames handed to its readers followed by the frames still queued, in order: nothing
  is lost, duplicated or reordered. When a generator ends, everything put has been delivered.\<close>

theorem tunnel_fifo:
  assumes "treach missed_limit s" and "ref < length (objs (conn s))"
  shows "put_log s ref = got_log s ref @ queue (objs (conn s) ! ref) \<and>
    (gens s ref = Some (rid, pc) \<and> pc \<noteq> IterDone \<and>
      iter_resume get_done rid ref pc (conn s) = (Stop, pc', c') \<longrightarrow> got_log s ref = put_log s ref)"
proof -
  have "tsys_ok s" using assms(1) by (simp add: treach_def tunnel_sys.reach_inv)
  then have "put_log s ref = got_log s ref @ queues (conn s) ! ref"
    using assms(2) by (simp add: tsys_ok_def)
  then show ?thesis
    using assms(2) iter_resume_effect [of get_done rid ref pc "conn s" Stop pc' c']
    by (auto simp: queues_def)
qed

theorem tunnel_fifo_witness:
  "treach 3 demo_sys \<and> put_log demo_sys 0 = got_log demo_sys 0 @ queue (objs (conn demo_sys) ! 0)"
  using tunnel_fifo [OF demo_reach, of 0] demo_reach
  by (simp add: demo_sys_def demo_conn_def)

text \<open>A closed stream is drained completely: whatever the event loop reports about the
  pending \<open>queue.get()\<close>, iterating over it returns after at most one step per queued frame and one
  more, with exactly the queued frames in order, and the stream is no longer registered.\<close>

lemma closed_stream_drains:
  assumes "ref < length (objs c)" and "closed_event (objs c ! ref)"
  shows "\<exists>c'. iter_collect (Suc (length (queue (objs c ! ref)))) get_done rid ref IterLoop c
      = Some (queue (objs c ! ref), c') \<and> map_of (streams c') rid = None"
proof -
  obtain c' where "iter_collect (Suc (length (queue (objs c ! ref)))) get_done rid ref IterLoop c
      = Some (queue (objs c ! ref), c')" "streams c' = AList.delete rid (streams c)"
    using iter_collect_closed [OF assms(1) refl assms(2)] by blast
  then show ?thesis by (simp add: delete_conv')
qed

lemma closed_stream_drains_witness:
  "\<exists>c'. iter_collect 2 False 7 0 IterLoop (set_closed 0 demo_conn) = Some ([[1, 2]], c') \<and>
     map_of (streams c') 7 = None"
  using closed_stream_drains [of 0 "set_closed 0 demo_conn" False 7]
  by (simp add: demo_conn_def set_closed_def numeral_2_eq_2)

text \<open>A transfer over the tunnel. Up to 64 payloads within the frame cap, sent with
  \<open>send_data\<close> and ended with \<open>send_close\<close> by one end, leave the sender as frames that the other
  end's receive loop accepts; the reader of the freshly opened stream then gets exactly those
  payloads in order and the stream is gone. Every other stream object of the receiver is left
  as it was.\<close>

lemma transfer_roundtrip:
  assumes "\<forall>p \<in> set ps. length p \<le> MAX_PAYLOAD_BYTES" and "length ps \<le> QUEUE_DEPTH"
    and "open_stream rid peer = Inr (ref, peer1)"
  shows "\<exists>sender' fs peer2 peer3. send_all rid ps sender = Inr sender' \<and>
    sent sender' = sent sender @ fs \<and> receive_all fs peer1 = Some peer2 \<and>
    (\<forall>r < length (objs peer). objs peer2 ! r = objs peer ! r) \<and>
    iter_collect (Suc (length ps)) get_done rid ref IterLoop peer2 = Some (ps, peer3) \<and>
    map_of (streams peer3) rid = None"
proof -
  let ?fs = "map (\<lambda>p. WsBytes (packed DATA rid p)) ps @ [WsBytes (packed CLOSE rid [])]"
  note f = open_stream_frame [OF assms(3)]
  have fresh: "objs peer1 ! ref = StreamState_new" "map_of (streams peer1) rid = Some ref"
    using f by (simp_all add: update_conv')
  obtain peer2 where p2: "receive_all ?fs peer1 = Some peer2" "streams peer2 = streams peer1"
    "ref < length (objs peer2)" "closed_event (objs peer2 ! ref)" "queue (objs peer2 ! ref) = ps"
    "\<forall>r. r \<noteq> ref \<longrightarrow> objs peer2 ! r = objs peer1 ! r"
    using receive_transfer [OF assms(1), of peer1 rid ref] assms(2) fresh f(3,6)
    by (auto simp: StreamState_new_def)
  obtain peer3 where "iter_collect (Suc (length ps)) get_done rid ref IterLoop peer2
      = Some (ps, peer3)" "streams peer3 = AList.delete rid (streams peer2)"
    using iter_collect_closed [OF p2(3,5,4)] by blast
  moreover have "\<forall>r < length (objs peer). objs peer2 ! r = objs peer ! r"
    using p2(6) f(3,6) by (simp add: nth_append)
  ultimately show ?thesis
    using send_all_sent [OF assms(1), of rid sender] p2(1) by (auto simp: delete_conv')
qed

lemma transfer_roundtrip_witness:
  "\<exists>sender' fs peer2 peer3. send_all 7 [[1, 2], [3]] TunnelConnection_init = Inr sender' \<and>
    sent sender' = sent TunnelConnection_init @ fs \<and>
    receive_all fs (TunnelConnection_init\<lparr>objs := [StreamState_new], streams := [(7, 0)]\<rparr>) = Some peer2 \<and>
    iter_collect (Suc (length [[1, 2], [3 :: byte]])) True 7 0 IterLoop peer2 = Some ([[1, 2], [3]], peer3) \<and>
    map_of (streams peer3) 7 = None"
proof -
  have "open_stream 7 TunnelConnection_init =
      Inr (0, TunnelConnection_init\<lparr>objs := [StreamState_new], streams := [(7, 0)]\<rparr>)"
    by (simp add: open_stream_def MAX_STREAMS_def TunnelConnection_init_def)
  from transfer_roundtrip [OF _ _ this, of "[[1, 2], [3]]" TunnelConnection_init True] show ?thesis
    unfolding MAX_PAYLOAD_BYTES_def QUEUE_DEPTH_def by (auto simp del: iter_collect.simps receive_all.simps send_all.simps)
qed

text \<open>Tearing a connection down closes exactly the registered streams (and those closed
  before), forgets all of them, keeps every queued frame for the readers, and doing it again
  changes nothing.\<close>

lemma tear_down_closes_all:
  assumes "\<not> is_closed c" and "dict_ok (streams c)"
  shows "is_closed (tear_down c) \<and> streams (tear_down c) = [] \<and>
    (\<forall>r < length (objs c). queue (objs (tear_down c) ! r) = queue (objs c ! r) \<and>
      (closed_event (objs (tear_down c) ! r) \<longleftrightarrow>
         r \<in> snd ` set (streams c) \<or> closed_event (objs c ! r))) \<and>
    tear_down (tear_down c) = tear_down c"
proof -
  have "queue (objs (tear_down c) ! r) = queue (objs c ! r)" if "r < length (objs c)" for r
  proof -
    have "queues (tear_down c) ! r = queues c ! r" by (simp add: conn_frame)
    with that show ?thesis by (simp add: queues_def conn_frame)
  qed
  moreover have "is_closed (tear_down c)" by (simp add: conn_frame)
  moreover from this have "tear_down (tear_down c) = tear_down c" by (subst tear_down_def) simp
  ultimately show ?thesis using assms tear_down_objs by (simp add: conn_frame)
qed

lemma tear_down_closes_all_witness:
  "closed_event (objs (tear_down demo_conn) ! 0) \<and> streams (tear_down demo_conn) = []"
  using tear_down_closes_all [of demo_conn]
  by (simp add: demo_conn_def TunnelConnection_init_def)

text \<open>The heartbeat started on an open connection tears it down exactly when some
  \<open>missed_limit\<close> consecutive pings in a row went unanswered; an answered ping resets the count.\<close>

lemma heartbeat_tears_down_iff:
  assumes "\<not> is_closed c" and "0 < missed_limit"
  shows "hb_task (fold (hb_round missed_limit) answers (start_heartbeat c)) = HbTornDown \<longleftrightarrow>
    (\<exists>before after. answers = before @ replicate missed_limit False @ after)"
proof -
  have "hb_task (start_heartbeat c) = HbSleeping 0" "\<not> is_closed (start_heartbeat c)"
    using assms(1) by (simp_all add: start_heartbeat_def)
  from hb_run_torn_iff [OF this assms(2)] show ?thesis by simp (metis append_Nil)
qed

lemma heartbeat_tears_down_iff_witness:
  "hb_task (fold (hb_round 2) ([False, True] @ replicate 2 False @ [])
     (start_heartbeat TunnelConnection_init)) = HbTornDown"
  by (subst heartbeat_tears_down_iff) (simp add: TunnelConnection_init_def, simp, blast)

text \<open>\<open>close()\<close> closes the WebSocket exactly when the connection was not already marked closed
  and no failed heartbeat task is awaited; it raises exactly when it awaits a failed heartbeat.
  So after the heartbeat tore a connection down, \<open>close()\<close> does nothing and the WebSocket is
  never closed.\<close>

lemma close_conn_spec:
  "(ws_closed (snd (close_conn c)) \<longleftrightarrow>
      ws_closed c \<or> \<not> is_closed c \<and> (\<nexists>e. hb_task c = HbFailed e)) \<and>
   (fst (close_conn c) = Inl (Ws e) \<longleftrightarrow> \<not> is_closed c \<and> hb_task c = HbFailed e) \<and>
   (missed_limit \<le> Suc m \<and> \<not> ws_closed c \<longrightarrow>
      (let torn = hb_timeout missed_limit m c in
       hb_task torn = HbTornDown \<and> \<not> ws_closed torn \<and> close_conn torn = (Inr (), torn)))"
  by (auto simp: close_conn_def hb_timeout_def Let_def conn_frame split: heartbeat.splits)

lemma close_conn_spec_witness:
  "close_conn (hb_timeout 3 2 TunnelConnection_init) = (Inr (), hb_timeout 3 2 TunnelConnection_init) \<and>
   \<not> ws_closed (hb_timeout 3 2 TunnelConnection_init)"
  using close_conn_spec [of TunnelConnection_init OtherException 3 2]
  by (simp add: TunnelConnection_init_def Let_def)

end
