(* ===== verification/Accounts.thy ===== *)
theory Accounts
  imports Prelude "HOL-Library.Product_Lexorder"
begin

text \<open>
  The accounts library of \<open>src/accounts\<close>: users, groups that contain users and groups, per-user
  quotas and identities of external providers, as \<open>SqliteAccountStore\<close> keeps them, and the graph
  walk of \<open>resolve.py\<close>.

  The database is a record of tables, a table a list of rows in rowid order. \<open>AUTOINCREMENT\<close> is
  the counter of the largest id ever given out. An \<open>INSERT\<close> states the table's constraints: it
  yields \<open>None\<close> for \<open>IntegrityError\<close>. An operation returns the exception it raises or its result
  and the new database. \<open>bcrypt\<close> is outside the source: its functions are arguments.
\<close>

section \<open>Enumerations, models and exceptions\<close>

datatype Role = READ | WRITE | RECEIVE

datatype AccessMode = OPEN_MODE | RESTRICTED | LEGACY

datatype SubjectType = USER | GROUP

text \<open>The order of the stored values: \<open>'group' < 'user'\<close>.\<close>

instantiation SubjectType :: linorder
begin

definition less_eq_SubjectType :: "SubjectType \<Rightarrow> SubjectType \<Rightarrow> bool" where
  "less_eq_SubjectType x y \<longleftrightarrow> x = GROUP \<or> y = USER"

definition less_SubjectType :: "SubjectType \<Rightarrow> SubjectType \<Rightarrow> bool" where
  "less_SubjectType x y \<longleftrightarrow> x = GROUP \<and> y = USER"

instance
proof
  fix x y z :: SubjectType
  show "(x < y) = (x \<le> y \<and> \<not> y \<le> x)"
    by (cases x; cases y) (simp_all add: less_eq_SubjectType_def less_SubjectType_def)
  show "x \<le> x" by (cases x) (simp_all add: less_eq_SubjectType_def)
  show "x \<le> y \<Longrightarrow> y \<le> z \<Longrightarrow> x \<le> z" by (auto simp: less_eq_SubjectType_def)
  show "x \<le> y \<Longrightarrow> y \<le> x \<Longrightarrow> x = y" by (auto simp: less_eq_SubjectType_def)
  show "x \<le> y \<or> y \<le> x" by (cases x; cases y) (simp_all add: less_eq_SubjectType_def)
qed

end

record user =
  uid :: int
  username :: str
  email :: "str option"
  password_hash :: bytes
  user_created_at :: timestamp
  is_active :: bool

record grp =
  gid :: int
  gname :: str
  group_created_at :: timestamp

record membership =
  group_id :: int
  member_type :: SubjectType
  member_id :: int

record quota_row =
  quota_user_id :: int
  quota_bytes :: int

record external_identity =
  provider :: str
  subject :: str
  ext_user_id :: int
  ext_created_at :: timestamp

record accounts_db =
  users :: "user list"
  users_seq :: int
  groups :: "grp list"
  groups_seq :: int
  memberships :: "membership list"
  user_quota :: "quota_row list"
  external_identities :: "external_identity list"

datatype lookup_key = ById int | ByName str | ByExternal str str

datatype account_exn =
    UsernameTakenError str
  | UserNotFoundError lookup_key
  | GroupNotFoundError lookup_key
  | GroupNameTakenError str
  | GroupCycleError int int
  | DuplicateMembershipError int SubjectType int
  | MembershipNotFoundError int SubjectType int
  | WeakPasswordError
  | QuotaNotSetError int
  | AccountValueError

section \<open>Passwords\<close>

definition BCRYPT_MAX_BYTES :: nat where "BCRYPT_MAX_BYTES = 72"

definition hash_password ::
  "(bytes \<Rightarrow> bytes \<Rightarrow> bytes) \<Rightarrow> bytes \<Rightarrow> str \<Rightarrow> (account_exn, bytes) result" where
  "hash_password hashpw salt plain_password =
     (if length plain_password = 0 then Inl WeakPasswordError
      else if length (utf8_encode plain_password) > BCRYPT_MAX_BYTES then Inl WeakPasswordError
      else Inr (hashpw (utf8_encode plain_password) salt))"

definition verify_password ::
  "(bytes \<Rightarrow> bytes \<Rightarrow> bool) \<Rightarrow> str \<Rightarrow> bytes \<Rightarrow> (account_exn, bool) result" where
  "verify_password checkpw plain_password hashed_password =
     (if length plain_password = 0 then Inl WeakPasswordError
      else if length hashed_password = 0 then Inl AccountValueError
      else Inr (checkpw (utf8_encode plain_password) hashed_password))"

section \<open>The store: users\<close>

definition create_store :: accounts_db where
  "create_store = \<lparr>users = [], users_seq = 0, groups = [], groups_seq = 0, memberships = [],
     user_quota = [], external_identities = []\<rparr>"

definition username_exists :: "str \<Rightarrow> accounts_db \<Rightarrow> bool" where
  "username_exists name db = (fetchone (\<lambda>u. username u = name) (users db) \<noteq> None)"

definition insert_user ::
  "str \<Rightarrow> str option \<Rightarrow> bytes \<Rightarrow> timestamp \<Rightarrow> accounts_db \<Rightarrow> (user \<times> accounts_db) option" where
  "insert_user name em ph created db =
     (if fetchone (\<lambda>u. username u = name) (users db) \<noteq> None then None
      else let u = \<lparr>uid = users_seq db + 1, username = name, email = em, password_hash = ph,
                    user_created_at = created, is_active = True\<rparr>
           in Some (u, db\<lparr>users := users db @ [u], users_seq := users_seq db + 1\<rparr>))"

definition create_user ::
  "str \<Rightarrow> bytes \<Rightarrow> str option \<Rightarrow> timestamp \<Rightarrow> accounts_db \<Rightarrow> (account_exn, user \<times> accounts_db) result" where
  "create_user name ph em now db =
     (if length (py_strip name) = 0 then Inl AccountValueError
      else if length ph = 0 then Inl AccountValueError
      else let normalized = py_strip name in
        if username_exists normalized db then Inl (UsernameTakenError normalized)
        else case insert_user normalized em ph now db of
          None \<Rightarrow> Inl (UsernameTakenError normalized) | Some r \<Rightarrow> Inr r)"

definition get_user_by_username :: "str \<Rightarrow> accounts_db \<Rightarrow> (account_exn, user) result" where
  "get_user_by_username name db = (case fetchone (\<lambda>u. username u = name) (users db) of
     None \<Rightarrow> Inl (UserNotFoundError (ByName name)) | Some u \<Rightarrow> Inr u)"

definition get_user_by_id :: "int \<Rightarrow> accounts_db \<Rightarrow> (account_exn, user) result" where
  "get_user_by_id user_id db = (case fetchone (\<lambda>u. uid u = user_id) (users db) of
     None \<Rightarrow> Inl (UserNotFoundError (ById user_id)) | Some u \<Rightarrow> Inr u)"

definition get_users_by_ids :: "int list \<Rightarrow> accounts_db \<Rightarrow> (int \<times> user) list" where
  "get_users_by_ids user_ids db =
     (let unique_ids = sort (remdups user_ids) in
      if length unique_ids = 0 then []
      else map (\<lambda>u. (uid u, u)) (filter (\<lambda>u. uid u \<in> set unique_ids) (users db)))"

definition set_user_active :: "int \<Rightarrow> bool \<Rightarrow> accounts_db \<Rightarrow> (account_exn, accounts_db) result" where
  "set_user_active user_id active db =
     (if rowcount (\<lambda>u. uid u = user_id) (users db) = 0 then Inl (UserNotFoundError (ById user_id))
      else Inr (db\<lparr>users := update_where (\<lambda>u. uid u = user_id) (\<lambda>u. u\<lparr>is_active := active\<rparr>) (users db)\<rparr>))"

definition list_users :: "accounts_db \<Rightarrow> user list" where
  "list_users db = sort_key uid (users db)"

section \<open>The store: external identities\<close>

definition get_user_by_external_id :: "str \<Rightarrow> str \<Rightarrow> accounts_db \<Rightarrow> (account_exn, user) result" where
  "get_user_by_external_id prov sub db =
     (case fetchone (\<lambda>(u, e). ext_user_id e = uid u \<and> provider e = prov \<and> subject e = sub)
        (List.product (users db) (external_identities db)) of
      None \<Rightarrow> Inl (UserNotFoundError (ByExternal prov sub)) | Some (u, e) \<Rightarrow> Inr u)"

definition insert_external ::
  "str \<Rightarrow> str \<Rightarrow> int \<Rightarrow> timestamp \<Rightarrow> accounts_db \<Rightarrow> accounts_db option" where
  "insert_external prov sub user_id created db =
     (if fetchone (\<lambda>e. (provider e, subject e) = (prov, sub)) (external_identities db) \<noteq> None then None
      else Some (db\<lparr>external_identities := external_identities db @
        [\<lparr>provider = prov, subject = sub, ext_user_id = user_id, ext_created_at = created\<rparr>]\<rparr>))"

definition create_external_user ::
  "(bytes \<Rightarrow> bytes \<Rightarrow> bytes) \<Rightarrow> bytes \<Rightarrow> str \<Rightarrow> str \<Rightarrow> str \<Rightarrow> str \<Rightarrow> str option \<Rightarrow> timestamp \<Rightarrow>
   accounts_db \<Rightarrow> (account_exn, user \<times> accounts_db) result" where
  "create_external_user hashpw salt token prov sub name em now db =
     (if length (py_strip name) = 0 then Inl AccountValueError
      else if prov = [] \<or> sub = [] then Inl AccountValueError
      else let normalized = py_strip name in
        if username_exists normalized db then Inl (UsernameTakenError normalized)
        else res_bind (hash_password hashpw salt token) (\<lambda>sentinel.
          case insert_user normalized em sentinel now db of
            None \<Rightarrow> Inl (UsernameTakenError normalized)
          | Some (u, db') \<Rightarrow> (case insert_external prov sub (uid u) now db' of
              None \<Rightarrow> Inl (UsernameTakenError normalized) | Some db'' \<Rightarrow> Inr (u, db''))))"

section \<open>The store: groups\<close>

definition group_name_exists :: "str \<Rightarrow> accounts_db \<Rightarrow> bool" where
  "group_name_exists name db = (fetchone (\<lambda>g. gname g = name) (groups db) \<noteq> None)"

definition create_group :: "str \<Rightarrow> timestamp \<Rightarrow> accounts_db \<Rightarrow> (account_exn, grp \<times> accounts_db) result" where
  "create_group name now db =
     (if length (py_strip name) = 0 then Inl AccountValueError
      else let normalized = py_strip name in
        if group_name_exists normalized db then Inl (GroupNameTakenError normalized)
        else let g = \<lparr>gid = groups_seq db + 1, gname = normalized, group_created_at = now\<rparr>
          in Inr (g, db\<lparr>groups := groups db @ [g], groups_seq := groups_seq db + 1\<rparr>))"

definition get_group_by_id :: "int \<Rightarrow> accounts_db \<Rightarrow> (account_exn, grp) result" where
  "get_group_by_id g db = (case fetchone (\<lambda>r. gid r = g) (groups db) of
     None \<Rightarrow> Inl (GroupNotFoundError (ById g)) | Some r \<Rightarrow> Inr r)"

definition get_group_by_name :: "str \<Rightarrow> accounts_db \<Rightarrow> (account_exn, grp) result" where
  "get_group_by_name name db = (case fetchone (\<lambda>r. gname r = name) (groups db) of
     None \<Rightarrow> Inl (GroupNotFoundError (ByName name)) | Some r \<Rightarrow> Inr r)"

definition list_groups :: "accounts_db \<Rightarrow> grp list" where
  "list_groups db = sort_key gid (groups db)"

definition delete_group :: "int \<Rightarrow> accounts_db \<Rightarrow> (account_exn, accounts_db) result" where
  "delete_group g db =
     (if rowcount (\<lambda>r. gid r = g) (groups db) = 0 then Inl (GroupNotFoundError (ById g))
      else let ms1 = delete_where (\<lambda>m. group_id m = g) (memberships db);
               ms2 = delete_where (\<lambda>m. member_type m = GROUP \<and> member_id m = g) ms1
           in Inr (db\<lparr>groups := delete_where (\<lambda>r. gid r = g) (groups db), memberships := ms2\<rparr>))"

section \<open>The store: memberships\<close>

text \<open>\<open>_group_descendants\<close>: the worklist loop over the edges of the membership table.\<close>

definition child_groups :: "membership list \<Rightarrow> int \<Rightarrow> int list" where
  "child_groups ms current =
     map member_id (filter (\<lambda>m. group_id m = current \<and> member_type m = GROUP) ms)"

definition visit_child :: "int \<Rightarrow> int set \<times> int list \<Rightarrow> int set \<times> int list" where
  "visit_child child st = (case st of (descendants, frontier) \<Rightarrow>
     if child \<in> descendants then (descendants, frontier)
     else (insert child descendants, frontier @ [child]))"

definition unseen :: "membership list \<Rightarrow> int set \<Rightarrow> nat" where
  "unseen ms descendants = card (member_id ` set ms - descendants)"

lemma visit_children_measure:
  "set cs \<subseteq> member_id ` set ms \<Longrightarrow> fold visit_child cs (d, f) = (d', f') \<Longrightarrow>
   2 * unseen ms d' + length f' \<le> 2 * unseen ms d + length f"
proof (induction cs arbitrary: d f)
  case Nil
  then show ?case by simp
next
  case (Cons c cs)
  show ?case
  proof (cases "c \<in> d")
    case True
    with Cons show ?thesis by (simp add: visit_child_def)
  next
    case False
    have "c \<in> member_id ` set ms - d" using False Cons.prems(1) by simp
    moreover have "member_id ` set ms - insert c d = (member_id ` set ms - d) - {c}" by blast
    ultimately have "unseen ms d = Suc (unseen ms (insert c d))"
      unfolding unseen_def by (simp add: card.remove del: card_Diff_insert)
    with Cons.IH [of "insert c d" "f @ [c]"] Cons.prems False show ?thesis
      by (simp add: visit_child_def)
  qed
qed

function descend :: "membership list \<Rightarrow> int set \<Rightarrow> int list \<Rightarrow> int set" where
  "descend ms descendants frontier =
     (if frontier = [] then descendants
      else let current = last frontier;
               (descendants', frontier') =
                 fold visit_child (child_groups ms current) (descendants, butlast frontier)
           in descend ms descendants' frontier')"
  by auto
termination
proof (relation "measure (\<lambda>(ms, d, f). 2 * unseen ms d + length f)")
  fix ms :: "membership list" and descendants d' frontier f' current x
  assume "frontier \<noteq> []" and x: "x = fold visit_child (child_groups ms current) (descendants, butlast frontier)"
    and d: "(d', f') = x"
  have "set (child_groups ms current) \<subseteq> member_id ` set ms" by (auto simp: child_groups_def)
  moreover have "fold visit_child (child_groups ms current) (descendants, butlast frontier) = (d', f')"
    using x d by simp
  ultimately have "2 * unseen ms d' + length f' \<le> 2 * unseen ms descendants + length (butlast frontier)"
    by (rule visit_children_measure)
  moreover have "length (butlast frontier) < length frontier" using \<open>frontier \<noteq> []\<close> by simp
  ultimately show "((ms, d', f'), ms, descendants, frontier) \<in> measure (\<lambda>(ms, d, f). 2 * unseen ms d + length f)"
    by simp
qed simp

declare descend.simps [simp del]

definition group_descendants :: "int \<Rightarrow> accounts_db \<Rightarrow> int set" where
  "group_descendants g db = descend (memberships db) {} [g]"

definition membership_exists :: "int \<Rightarrow> SubjectType \<Rightarrow> int \<Rightarrow> accounts_db \<Rightarrow> bool" where
  "membership_exists g ty m db =
     (fetchone (\<lambda>r. group_id r = g \<and> member_type r = ty \<and> member_id r = m) (memberships db) \<noteq> None)"

text \<open>\<open>add_member\<close> awaits the database between its checks and its insert, so the two halves are
  separate: other operations may run between them.\<close>

definition add_member_check :: "int \<Rightarrow> SubjectType \<Rightarrow> int \<Rightarrow> accounts_db \<Rightarrow> (account_exn, unit) result" where
  "add_member_check g ty m db =
     res_bind (get_group_by_id g db) (\<lambda>_.
     res_bind (if ty = USER then res_bind (get_user_by_id m db) (\<lambda>_. Inr ())
               else res_bind (get_group_by_id m db) (\<lambda>_.
                 if m = g then Inl (GroupCycleError g m)
                 else if g \<in> group_descendants m db then Inl (GroupCycleError g m)
                 else Inr ())) (\<lambda>_.
     if membership_exists g ty m db then Inl (DuplicateMembershipError g ty m) else Inr ()))"

definition add_member_insert :: "int \<Rightarrow> SubjectType \<Rightarrow> int \<Rightarrow> accounts_db \<Rightarrow> (account_exn, accounts_db) result" where
  "add_member_insert g ty m db =
     (if membership_exists g ty m db then Inl (DuplicateMembershipError g ty m)
      else Inr (db\<lparr>memberships := memberships db @
             [\<lparr>group_id = g, member_type = ty, member_id = m\<rparr>]\<rparr>))"

definition add_member :: "int \<Rightarrow> SubjectType \<Rightarrow> int \<Rightarrow> accounts_db \<Rightarrow> (account_exn, accounts_db) result" where
  "add_member g ty m db = res_bind (add_member_check g ty m db) (\<lambda>_. add_member_insert g ty m db)"

definition remove_member :: "int \<Rightarrow> SubjectType \<Rightarrow> int \<Rightarrow> accounts_db \<Rightarrow> (account_exn, accounts_db) result" where
  "remove_member g ty m db =
     (let sel = (\<lambda>r. group_id r = g \<and> member_type r = ty \<and> member_id r = m) in
      if rowcount sel (memberships db) = 0 then Inl (MembershipNotFoundError g ty m)
      else Inr (db\<lparr>memberships := delete_where sel (memberships db)\<rparr>))"

definition list_group_members :: "int \<Rightarrow> accounts_db \<Rightarrow> (account_exn, membership list) result" where
  "list_group_members g db = res_bind (get_group_by_id g db) (\<lambda>_.
     Inr (sort_key (\<lambda>r. (member_type r, member_id r)) (filter (\<lambda>r. group_id r = g) (memberships db))))"

definition list_parent_group_ids :: "SubjectType \<Rightarrow> int \<Rightarrow> accounts_db \<Rightarrow> int list" where
  "list_parent_group_ids ty m db =
     map group_id (filter (\<lambda>r. member_type r = ty \<and> member_id r = m) (memberships db))"

section \<open>Resolution of a user's groups\<close>

text \<open>\<open>_collect_parents\<close>, with the loop over the fetched parents as recursion on that list. The
  depth of the recursive calls is bounded by fuel; \<open>None\<close> is running out of it.\<close>

fun collect_parents ::
  "nat \<Rightarrow> (int \<Rightarrow> int list) \<Rightarrow> int list \<Rightarrow> int set \<Rightarrow> int set \<Rightarrow> (account_exn, int set) result option" where
  "collect_parents n parents [] acc path = Some (Inr acc)"
| "collect_parents n parents (p # ps) acc path =
     (if p \<in> path then Some (Inl (GroupCycleError p p))
      else if p \<in> acc then collect_parents n parents ps acc path
      else case n of
          0 \<Rightarrow> None
        | Suc k \<Rightarrow> (case collect_parents k parents (parents p) (insert p acc) (insert p path) of
              None \<Rightarrow> None
            | Some (Inl e) \<Rightarrow> Some (Inl e)
            | Some (Inr acc') \<Rightarrow> collect_parents n parents ps acc' path))"

definition resolve_user_groups :: "nat \<Rightarrow> int \<Rightarrow> accounts_db \<Rightarrow> (account_exn, int set) result option" where
  "resolve_user_groups fuel user_id db = (case get_user_by_id user_id db of
     Inl e \<Rightarrow> Some (Inl e)
   | Inr _ \<Rightarrow> collect_parents fuel (\<lambda>g. list_parent_group_ids GROUP g db)
       (list_parent_group_ids USER user_id db) {} {})"

text \<open>The recursion never goes deeper than there are membership rows (\<open>resolve_total\<close> below), so
  the store's operation runs it with that much fuel.\<close>

definition resolve_user_group_ids :: "int \<Rightarrow> accounts_db \<Rightarrow> (account_exn, int set) result option" where
  "resolve_user_group_ids user_id db = resolve_user_groups (length (memberships db)) user_id db"

section \<open>The store: quotas\<close>

definition set_user_quota :: "int \<Rightarrow> int \<Rightarrow> accounts_db \<Rightarrow> (account_exn, accounts_db) result" where
  "set_user_quota user_id q db =
     (if q < 0 then Inl AccountValueError
      else res_bind (get_user_by_id user_id db) (\<lambda>_.
        Inr (db\<lparr>user_quota := insert_or_replace quota_user_id
          \<lparr>quota_user_id = user_id, quota_bytes = q\<rparr> (user_quota db)\<rparr>)))"

definition get_user_quota :: "int \<Rightarrow> accounts_db \<Rightarrow> (account_exn, int) result" where
  "get_user_quota user_id db = (case fetchone (\<lambda>r. quota_user_id r = user_id) (user_quota db) of
     None \<Rightarrow> Inl (QuotaNotSetError user_id) | Some r \<Rightarrow> Inr (quota_bytes r))"

section \<open>The invariant\<close>

definition group_edges :: "membership list \<Rightarrow> (int \<times> int) set" where
  "group_edges ms = {(g, c). \<exists>m \<in> set ms. member_type m = GROUP \<and> group_id m = g \<and> member_id m = c}"

definition user_ids :: "accounts_db \<Rightarrow> int set" where
  "user_ids db = uid ` set (users db)"

definition group_ids :: "accounts_db \<Rightarrow> int set" where
  "group_ids db = gid ` set (groups db)"

definition clean_name :: "str \<Rightarrow> bool" where
  "clean_name s \<longleftrightarrow> s \<noteq> [] \<and> py_strip s = s"

definition users_ok :: "accounts_db \<Rightarrow> bool" where
  "users_ok db \<longleftrightarrow> 0 \<le> users_seq db \<and> distinct (map uid (users db)) \<and> distinct (map username (users db)) \<and>
     (\<forall>u \<in> set (users db). 1 \<le> uid u \<and> uid u \<le> users_seq db \<and> clean_name (username u))"

definition groups_ok :: "accounts_db \<Rightarrow> bool" where
  "groups_ok db \<longleftrightarrow> 0 \<le> groups_seq db \<and> distinct (map gid (groups db)) \<and> distinct (map gname (groups db)) \<and>
     (\<forall>g \<in> set (groups db). 1 \<le> gid g \<and> gid g \<le> groups_seq db \<and> clean_name (gname g))"

definition memberships_ok :: "accounts_db \<Rightarrow> bool" where
  "memberships_ok db \<longleftrightarrow> distinct (memberships db) \<and> acyclic (group_edges (memberships db)) \<and>
     (\<forall>m \<in> set (memberships db). group_id m \<in> group_ids db \<and>
        member_id m \<in> (if member_type m = USER then user_ids db else group_ids db))"

definition links_ok :: "accounts_db \<Rightarrow> bool" where
  "links_ok db \<longleftrightarrow>
     distinct (map quota_user_id (user_quota db)) \<and>
     (\<forall>q \<in> set (user_quota db). quota_user_id q \<in> user_ids db \<and> 0 \<le> quota_bytes q) \<and>
     distinct (map (\<lambda>e. (provider e, subject e)) (external_identities db)) \<and>
     (\<forall>e \<in> set (external_identities db). ext_user_id e \<in> user_ids db)"

definition accounts_ok :: "accounts_db \<Rightarrow> bool" where
  "accounts_ok db \<longleftrightarrow> users_ok db \<and> groups_ok db \<and> memberships_ok db \<and> links_ok db"

text \<open>The operations that write, with their arguments, as one step; a raised exception leaves the
  database as it was.\<close>

datatype account_op =
    CreateUser str bytes "str option" timestamp
  | SetUserActive int bool
  | CreateExternalUser "bytes \<Rightarrow> bytes \<Rightarrow> bytes" bytes str str str str "str option" timestamp
  | CreateGroup str timestamp
  | DeleteGroup int
  | AddMember int SubjectType int
  | RemoveMember int SubjectType int
  | SetUserQuota int int

definition or_keep :: "('e, 's) result \<Rightarrow> 's \<Rightarrow> 's" where
  "or_keep r s = (case r of Inl _ \<Rightarrow> s | Inr s' \<Rightarrow> s')"

definition map_ok :: "('a \<Rightarrow> 'b) \<Rightarrow> ('e, 'a) result \<Rightarrow> ('e, 'b) result" where
  "map_ok f r = (case r of Inl e \<Rightarrow> Inl e | Inr a \<Rightarrow> Inr (f a))"

fun account_result :: "account_op \<Rightarrow> accounts_db \<Rightarrow> (account_exn, accounts_db) result" where
  "account_result (CreateUser n ph em now) db = map_ok snd (create_user n ph em now db)"
| "account_result (SetUserActive i b) db = set_user_active i b db"
| "account_result (CreateExternalUser h salt tok p sub n em now) db =
     map_ok snd (create_external_user h salt tok p sub n em now db)"
| "account_result (CreateGroup n now) db = map_ok snd (create_group n now db)"
| "account_result (DeleteGroup g) db = delete_group g db"
| "account_result (AddMember g ty m) db = add_member g ty m db"
| "account_result (RemoveMember g ty m) db = remove_member g ty m db"
| "account_result (SetUserQuota i q) db = set_user_quota i q db"

definition account_step :: "account_op \<Rightarrow> accounts_db \<Rightarrow> accounts_db" where
  "account_step op db = or_keep (account_result op db) db"

section \<open>Lemmas\<close>

subsection \<open>Names\<close>

lemma clean_name_strip: "length (py_strip s) \<noteq> 0 \<Longrightarrow> clean_name (py_strip s)"
  by (simp add: clean_name_def)

subsection \<open>The descendants of a group\<close>

lemma child_groups_edges: "set (child_groups ms g) = group_edges ms `` {g}"
  by (auto simp: child_groups_def group_edges_def)

lemma visit_children:
  "fold visit_child cs (d, f) = (d', f') \<Longrightarrow>
   d' = d \<union> set cs \<and> set f' = set f \<union> (set cs - d)"
proof (induction cs arbitrary: d f)
  case (Cons c cs)
  show ?case
  proof (cases "c \<in> d")
    case True
    with Cons.IH [of d f] Cons.prems show ?thesis by (auto simp: visit_child_def)
  next
    case False
    with Cons.IH [of "insert c d" "f @ [c]"] Cons.prems show ?thesis by (auto simp: visit_child_def)
  qed
qed auto

lemma set_last_butlast: "f \<noteq> [] \<Longrightarrow> set f = insert (last f) (set (butlast f))"
  by (cases f rule: rev_cases) auto

lemma descend_sound:
  assumes "set f \<subseteq> insert g d" and "d \<subseteq> (group_edges ms)\<^sup>+ `` {g}"
    and "\<forall>x \<in> insert g d - set f. group_edges ms `` {x} \<subseteq> d"
  shows "descend ms d f = (group_edges ms)\<^sup>+ `` {g}"
  using assms
proof (induction ms d f rule: descend.induct)
  case (1 ms d f)
  show ?case
  proof (cases "f = []")
    case True
    have "y \<in> d" if "(g, y) \<in> (group_edges ms)\<^sup>+" for y
      using that by (induction rule: trancl_induct) (use 1(4) True in auto)
    with 1(3) True show ?thesis by (auto simp: descend.simps [of ms d "[]"])
  next
    case False
    obtain d' f' where v: "fold visit_child (child_groups ms (last f)) (d, butlast f) = (d', f')"
      by (cases "fold visit_child (child_groups ms (last f)) (d, butlast f)")
    note e = visit_children [OF v, unfolded child_groups_edges]
    note l = set_last_butlast [OF False]
    have "last f = g \<or> (g, last f) \<in> (group_edges ms)\<^sup>+" using 1(2,3) l by blast
    then have "group_edges ms `` {last f} \<subseteq> (group_edges ms)\<^sup>+ `` {g}"
      by (auto intro: trancl_into_trancl)
    then have "d' \<subseteq> (group_edges ms)\<^sup>+ `` {g}" using e 1(3) by blast
    moreover have "set f' \<subseteq> insert g d'" using e l 1(2) by blast
    moreover have "\<forall>x \<in> insert g d' - set f'. group_edges ms `` {x} \<subseteq> d'"
    proof
      fix x
      assume x: "x \<in> insert g d' - set f'"
      show "group_edges ms `` {x} \<subseteq> d'"
      proof (cases "x = last f")
        case False
        then have "x \<in> insert g d - set f" using x e l by blast
        then show ?thesis using 1(4) e by blast
      qed (use e in blast)
    qed
    ultimately have "descend ms d' f' = (group_edges ms)\<^sup>+ `` {g}"
      using 1(1) [OF False refl v [symmetric] refl] by blast
    then show ?thesis using False v by (simp add: descend.simps [of ms d f])
  qed
qed

lemma group_descendants_trancl:
  "group_descendants g db = (group_edges (memberships db))\<^sup>+ `` {g}"
  unfolding group_descendants_def by (rule descend_sound) auto

subsection \<open>The contract of the store that resolution relies on\<close>

text \<open>\<open>resolve.py\<close> sees the store through \<open>AccountStore\<close>: beyond looking the user up it
  asks for the parents of a member. All it needs of a store is that every parent it is told of lies in a finite set.\<close>

definition parent_rel :: "(int \<Rightarrow> int list) \<Rightarrow> (int \<times> int) set" where
  "parent_rel parents = {(c, p). p \<in> set (parents c)}"

lemma collect_parents_sound:
  "collect_parents n parents ps acc path = Some (Inr acc') \<Longrightarrow>
   acc \<subseteq> acc' \<and> set ps \<subseteq> acc' \<and> set ps \<inter> path = {} \<and>
   (\<forall>x \<in> acc' - acc. set (parents x) \<subseteq> acc') \<and> acc' \<subseteq> acc \<union> (parent_rel parents)\<^sup>* `` set ps"
proof (induction n parents ps acc path arbitrary: acc' rule: collect_parents.induct)
  case (1 n parents acc path)
  then show ?case by auto
next
  case (2 n parents p ps acc path)
  show ?case
  proof (cases "p \<in> acc")
    case True
    then have "p \<notin> path" "collect_parents n parents ps acc path = Some (Inr acc')"
      using 2(4) by (simp_all split: if_splits)
    with 2(1) [OF _ True] True show ?thesis by auto
  next
    case False
    have np: "p \<notin> path" using 2(4) by (auto simp only: collect_parents.simps split: if_splits)
    then obtain k a1 where k: "n = Suc k"
      and r1: "collect_parents k parents (parents p) (insert p acc) (insert p path) = Some (Inr a1)"
      and r2: "collect_parents n parents ps a1 path = Some (Inr acc')"
      using 2(4) False
      by (cases n; simp) (auto simp del: collect_parents.simps split: option.splits sum.splits)
    note i1 = 2(2) [OF np False k r1] and i2 = 2(3) [OF np False k r1 refl r2]
    let ?R = "(parent_rel parents)\<^sup>*"
    have "x \<in> ?R `` {p}" if "x \<in> ?R `` set (parents p)" for x
      using that by (auto simp: parent_rel_def intro: converse_rtrancl_into_rtrancl)
    then have "?R `` set (parents p) \<subseteq> ?R `` {p}" by blast
    then have "a1 \<subseteq> acc \<union> ?R `` {p}" using i1 by blast
    moreover have "?R `` set (p # ps) = ?R `` {p} \<union> ?R `` set ps" by auto
    ultimately have "acc' \<subseteq> acc \<union> ?R `` set (p # ps)" using i2 by blast
    moreover have "\<forall>x \<in> acc' - acc. set (parents x) \<subseteq> acc'" using i1 i2 by blast
    moreover have "acc \<subseteq> acc' \<and> set (p # ps) \<subseteq> acc'" using i1 i2 by auto
    ultimately show ?thesis using np i2 by auto
  qed
qed

lemma collect_parents_Cons_cases:
  assumes "collect_parents n parents (p # ps) acc path = Some r"
  obtains (cycle) "p \<in> path" "r = Inl (GroupCycleError p p)"
  | (seen) "p \<notin> path" "p \<in> acc" "collect_parents n parents ps acc path = Some r"
  | (inner) k e where "p \<notin> path" "p \<notin> acc" "n = Suc k" "r = Inl e"
      "collect_parents k parents (parents p) (insert p acc) (insert p path) = Some (Inl e)"
  | (rest) k a1 where "p \<notin> path" "p \<notin> acc" "n = Suc k"
      "collect_parents k parents (parents p) (insert p acc) (insert p path) = Some (Inr a1)"
      "collect_parents n parents ps a1 path = Some r"
proof (cases "p \<in> path \<or> p \<in> acc")
  case True
  with assms that(1,2) show ?thesis by (auto split: if_splits)
next
  case False
  then obtain k where k: "n = Suc k" using assms by (cases n) auto
  let ?c = "collect_parents k parents (parents p) (insert p acc) (insert p path)"
  have "(case ?c of None \<Rightarrow> None | Some (Inl e) \<Rightarrow> Some (Inl e)
      | Some (Inr a1) \<Rightarrow> collect_parents (Suc k) parents ps a1 path) = Some r"
    using False assms unfolding k by simp
  with k that(3,4) [OF _ _ k] False show ?thesis
    by (cases ?c rule: option.exhaust) (auto simp del: collect_parents.simps split: sum.splits)
qed

text \<open>A raised cycle error names a group on a cycle; a normal return means no cycle is reachable.\<close>

lemma collect_parents_cycle:
  "collect_parents n parents ps acc path = Some (Inl e) \<Longrightarrow>
   \<forall>q \<in> path. \<forall>p \<in> set ps. (q, p) \<in> (parent_rel parents)\<^sup>+ \<Longrightarrow>
   \<exists>g. e = GroupCycleError g g \<and> (g, g) \<in> (parent_rel parents)\<^sup>+"
proof (induction n parents ps acc path arbitrary: e rule: collect_parents.induct)
  case (1 n parents acc path)
  then show ?case by simp
next
  case (2 n parents p ps acc path)
  from 2(4) show ?case
  proof (cases rule: collect_parents_Cons_cases)
    case cycle
    with 2(5) show ?thesis by auto
  next
    case seen
    with 2(1,5) show ?thesis by simp
  next
    case (inner k e')
    have "\<forall>q \<in> insert p path. \<forall>p' \<in> set (parents p). (q, p') \<in> (parent_rel parents)\<^sup>+"
      using 2(5) by (auto simp: parent_rel_def intro: trancl_into_trancl)
    with 2(2) [OF inner(1-3)] inner show ?thesis by simp
  next
    case (rest k a1)
    with 2(3) [OF rest(1-4) refl] 2(5) show ?thesis by simp
  qed
qed

lemma collect_parents_raises:
  "collect_parents n parents ps acc path = Some (Inl (GroupCycleError g g')) \<Longrightarrow>
   g \<in> (parent_rel parents)\<^sup>* `` set ps"
proof (induction n parents ps acc path rule: collect_parents.induct)
  case (1 n parents acc path)
  then show ?case by simp
next
  case (2 n parents p ps acc path)
  from 2(4) show ?case
  proof (cases rule: collect_parents_Cons_cases)
    case seen
    with 2(1) show ?thesis by auto
  next
    case (inner k e)
    with 2(2) [OF inner(1-3)] have "g \<in> (parent_rel parents)\<^sup>* `` set (parents p)" by simp
    then show ?thesis
      by (auto simp: parent_rel_def intro: converse_rtrancl_into_rtrancl)
  next
    case (rest k a1)
    with 2(3) [OF rest(1-4) refl] show ?thesis by auto
  qed auto
qed

definition closed_acyclic :: "(int \<Rightarrow> int list) \<Rightarrow> int set \<Rightarrow> bool" where
  "closed_acyclic parents B \<longleftrightarrow> (\<forall>x \<in> B. set (parents x) \<subseteq> B) \<and>
     (\<forall>x \<in> B. (x, x) \<notin> (parent_rel parents)\<^sup>+)"

lemma closed_reach:
  "(x, y) \<in> (parent_rel parents)\<^sup>+ \<Longrightarrow> x \<in> B \<Longrightarrow> \<forall>z \<in> B. set (parents z) \<subseteq> B \<Longrightarrow> y \<in> B"
  by (induction rule: trancl_induct) (auto simp: parent_rel_def)

lemma closed_acyclic_insert:
  assumes "closed_acyclic parents B" and "set (parents p) \<subseteq> B" and "p \<notin> B"
  shows "closed_acyclic parents (insert p B)"
proof -
  have "(p, p) \<notin> (parent_rel parents)\<^sup>+"
  proof
    assume "(p, p) \<in> (parent_rel parents)\<^sup>+"
    then obtain q where "q \<in> set (parents p)" "q = p \<or> (q, p) \<in> (parent_rel parents)\<^sup>+"
      by (cases rule: converse_tranclE) (auto simp: parent_rel_def)
    with assms closed_reach [of q p parents B] show False by (auto simp: closed_acyclic_def)
  qed
  with assms show ?thesis by (auto simp: closed_acyclic_def)
qed

lemma collect_parents_acyclic:
  "collect_parents n parents ps acc path = Some (Inr acc') \<Longrightarrow>
   closed_acyclic parents (acc - path) \<Longrightarrow> closed_acyclic parents (acc' - path)"
proof (induction n parents ps acc path arbitrary: acc' rule: collect_parents.induct)
  case (1 n parents acc path)
  then show ?case by simp
next
  case (2 n parents p ps acc path)
  from 2(4) show ?case
  proof (cases rule: collect_parents_Cons_cases)
    case seen
    with 2(1,5) show ?thesis by simp
  next
    case (rest k a1)
    have "insert p acc - insert p path = acc - path" using rest(2) by auto
    with 2(2) [OF rest(1-4)] 2(5) have B: "closed_acyclic parents (a1 - insert p path)" by simp
    note s = collect_parents_sound [OF rest(4)]
    have "set (parents p) \<subseteq> a1 - insert p path" using s by blast
    with B have "closed_acyclic parents (insert p (a1 - insert p path))"
      by (rule closed_acyclic_insert) simp
    moreover have "insert p (a1 - insert p path) = a1 - path" using s rest(1) by auto
    ultimately show ?thesis using 2(3) [OF rest(1-4) refl rest(5)] by simp
  qed auto
qed

lemma collect_parents_total:
  assumes "finite U" and "\<And>c. set (parents c) \<subseteq> U"
  shows "set ps \<subseteq> U \<Longrightarrow> card (U - acc) \<le> n \<Longrightarrow> collect_parents n parents ps acc path \<noteq> None"
proof (induction n parents\<equiv>parents ps acc path rule: collect_parents.induct)
  case (1 n acc path)
  then show ?case by simp
next
  case (2 n p ps acc path)
  show ?case
  proof (cases "p \<in> path \<or> p \<in> acc")
    case True
    with 2(1,4,5) show ?thesis by auto
  next
    case False
    then have np: "p \<notin> path" "p \<notin> acc" by auto
    have p: "p \<in> U - acc" using np 2(4) by simp
    have "U - insert p acc = (U - acc) - {p}" by blast
    with p assms(1) have "Suc (card (U - insert p acc)) = card (U - acc)"
      by (simp add: card.remove del: card_Diff_insert)
    with 2(5) obtain k where k: "n = Suc k" "card (U - insert p acc) \<le> k" by (cases n) auto
    from 2(2) [OF np k(1) assms(2) k(2)]
    obtain r where r: "collect_parents k parents (parents p) (insert p acc) (insert p path) = Some r"
      by auto
    show ?thesis
    proof (cases r)
      case (Inl e)
      with np k(1) r show ?thesis by simp
    next
      case (Inr a1)
      have "acc \<subseteq> a1" using collect_parents_sound [OF r [unfolded Inr]] by blast
      then have "card (U - a1) \<le> card (U - acc)" using assms(1) by (intro card_mono) auto
      with 2(3) [OF np k(1) r Inr] 2(4,5) np k(1) r Inr show ?thesis by simp
    qed
  qed
qed

locale parent_source =
  fixes parents_of :: "'s \<Rightarrow> SubjectType \<Rightarrow> int \<Rightarrow> int list"
    and universe :: "'s \<Rightarrow> int set"
  assumes universe_finite: "finite (universe s)"
    and parents_universe: "set (parents_of s ty m) \<subseteq> universe s"
begin

lemma collect_returns:
  "card (universe s) \<le> n \<Longrightarrow>
   collect_parents n (parents_of s GROUP) (parents_of s USER u) {} {} \<noteq> None"
  by (rule collect_parents_total [OF universe_finite parents_universe parents_universe]) simp

lemma collect_spec:
  assumes "card (universe s) \<le> n"
  shows "if \<exists>g \<in> (parent_rel (parents_of s GROUP))\<^sup>* `` set (parents_of s USER u).
      (g, g) \<in> (parent_rel (parents_of s GROUP))\<^sup>+
    then \<exists>g. collect_parents n (parents_of s GROUP) (parents_of s USER u) {} {} =
      Some (Inl (GroupCycleError g g)) \<and> (g, g) \<in> (parent_rel (parents_of s GROUP))\<^sup>+
    else collect_parents n (parents_of s GROUP) (parents_of s USER u) {} {} =
      Some (Inr ((parent_rel (parents_of s GROUP))\<^sup>* `` set (parents_of s USER u)))"
    (is "if ?cyc then _ else _")
proof -
  let ?par = "parents_of s GROUP" and ?ps = "parents_of s USER u"
  let ?R = "parent_rel (parents_of s GROUP)"
  obtain r where r: "collect_parents n ?par ?ps {} {} = Some r"
    using collect_returns [OF assms] by auto
  show ?thesis
  proof (cases r)
    case (Inl e)
    from collect_parents_cycle [OF r [unfolded Inl]] obtain g
      where g: "e = GroupCycleError g g" "(g, g) \<in> ?R\<^sup>+" by auto
    from collect_parents_raises [OF r [unfolded Inl g(1)]] have ?cyc using g(2) by blast
    with g r Inl show ?thesis by auto
  next
    case (Inr acc)
    note sd = collect_parents_sound [OF r [unfolded Inr]]
    have sub: "?R\<^sup>* `` set ?ps \<subseteq> acc"
    proof (rule subsetI, elim ImageE)
      fix x y
      assume "(x, y) \<in> ?R\<^sup>*" "x \<in> set ?ps"
      then show "y \<in> acc"
        by (induction rule: rtrancl_induct) (use sd in \<open>auto simp: parent_rel_def\<close>)
    qed
    moreover have "closed_acyclic ?par acc"
      using collect_parents_acyclic [OF r [unfolded Inr]] by (simp add: closed_acyclic_def)
    ultimately have "\<not> ?cyc" by (auto simp: closed_acyclic_def)
    with sub sd r Inr show ?thesis by auto
  qed
qed

end

interpretation store_parents: parent_source
  "\<lambda>db ty m. list_parent_group_ids ty m db" "\<lambda>db. group_id ` set (memberships db)"
  by unfold_locales (auto simp: list_parent_group_ids_def)

lemma parent_rel_store:
  "parent_rel (\<lambda>m. list_parent_group_ids GROUP m db) = (group_edges (memberships db))\<inverse>"
  by (auto simp: parent_rel_def list_parent_group_ids_def group_edges_def)

lemma card_parents: "card (group_id ` set (memberships db)) \<le> length (memberships db)"
  by (metis card_image_le card_length finite_set le_trans)

lemma acyclic_no_cycle: "acyclic E \<Longrightarrow> (g, g) \<notin> (E\<inverse>)\<^sup>+"
  by (simp add: acyclic_def trancl_converse)

subsection \<open>Every operation keeps the invariant\<close>

lemma map_ok_Inr: "map_ok f r = Inr b \<longleftrightarrow> (\<exists>a. r = Inr a \<and> b = f a)"
  by (cases r) (auto simp: map_ok_def)

lemma user_exists_iff: "(\<exists>u. get_user_by_id i db = Inr u) \<longleftrightarrow> i \<in> user_ids db"
  by (auto simp: get_user_by_id_def user_ids_def fetchone_None split: option.split
      dest: fetchone_Some_mem)

lemma group_exists_iff: "(\<exists>r. get_group_by_id g db = Inr r) \<longleftrightarrow> g \<in> group_ids db"
  by (auto simp: get_group_by_id_def group_ids_def fetchone_None split: option.split
      dest: fetchone_Some_mem)

lemma accounts_ok_users:
  assumes "accounts_ok db" and "users_ok db'" and "user_ids db \<subseteq> user_ids db'"
    and "groups db' = groups db" "groups_seq db' = groups_seq db" "memberships db' = memberships db"
    and "user_quota db' = user_quota db"
    and "distinct (map (\<lambda>e. (provider e, subject e)) (external_identities db'))"
    and "\<forall>e \<in> set (external_identities db'). ext_user_id e \<in> user_ids db'"
  shows "accounts_ok db'"
  using assms
  by (auto simp: accounts_ok_def groups_ok_def memberships_ok_def links_ok_def group_ids_def
      split: if_splits)

lemma fresh_id:
  "\<forall>u \<in> set t. 1 \<le> key u \<and> key u \<le> n \<and> P u \<Longrightarrow> (n :: int) + 1 \<notin> key ` set t"
  by force

lemma insert_user_ok:
  assumes "insert_user n em ph now db = Some (u, db')" and "users_ok db" and "clean_name n"
  shows "users_ok db' \<and> user_ids db' = insert (uid u) (user_ids db) \<and>
    groups db' = groups db \<and> groups_seq db' = groups_seq db \<and> memberships db' = memberships db \<and>
    user_quota db' = user_quota db \<and> external_identities db' = external_identities db"
proof -
  have fresh: "users_seq db + 1 \<notin> uid ` set (users db)"
    using assms(2) fresh_id [of "users db" uid "users_seq db" "\<lambda>u. clean_name (username u)"]
    by (simp add: users_ok_def)
  have "uid u \<le> users_seq db + 1" if "u \<in> set (users db)" for u
    using assms(2) that by (force simp: users_ok_def)
  with assms fresh show ?thesis
    by (auto simp: insert_user_def Let_def users_ok_def user_ids_def table_simps image_iff
        split: if_splits)
qed

lemma create_user_ok:
  assumes "create_user n ph em now db = Inr (u, db')" and "accounts_ok db"
  shows "accounts_ok db'"
proof -
  have ins: "insert_user (py_strip n) em ph now db = Some (u, db')" "length (py_strip n) \<noteq> 0"
    using assms(1) by (auto simp: create_user_def Let_def split: if_splits option.splits)
  from insert_user_ok [OF ins(1) _ clean_name_strip [OF ins(2)]] assms(2)
  show ?thesis by (intro accounts_ok_users [OF assms(2)]) (auto simp: accounts_ok_def links_ok_def)
qed

lemma create_external_user_ok:
  assumes "create_external_user h salt tok p sub n em now db = Inr (u, db')" and "accounts_ok db"
  shows "accounts_ok db'"
proof -
  have ne: "length (py_strip n) \<noteq> 0"
    using assms(1) by (auto simp: create_external_user_def split: if_splits)
  obtain ph where ph: "(case insert_user (py_strip n) em ph now db of
      None \<Rightarrow> Inl (UsernameTakenError (py_strip n))
    | Some (v, d) \<Rightarrow> (case insert_external p sub (uid v) now d of
        None \<Rightarrow> Inl (UsernameTakenError (py_strip n)) | Some d' \<Rightarrow> Inr (v, d'))) = Inr (u, db')"
    using assms(1) by (auto simp: create_external_user_def Let_def res_bind_eq_Inr split: if_splits)
  then obtain vd where vd: "insert_user (py_strip n) em ph now db = Some vd"
    by (cases "insert_user (py_strip n) em ph now db") auto
  obtain v d where "vd = (v, d)" by (cases vd)
  with ph vd ne have ins: "insert_user (py_strip n) em ph now db = Some (u, d)"
    "insert_external p sub (uid u) now d = Some db'" "length (py_strip n) \<noteq> 0"
    by (auto split: option.split_asm)
  note d = insert_user_ok [OF ins(1) _ clean_name_strip [OF ins(3)]]
  have "users db' = users d" "users_seq db' = users_seq d" "groups db' = groups d"
    "groups_seq db' = groups_seq d" "memberships db' = memberships d" "user_quota db' = user_quota d"
    "\<forall>e \<in> set (external_identities d). (provider e, subject e) \<noteq> (p, sub)"
    "external_identities db' = external_identities d @
       [\<lparr>provider = p, subject = sub, ext_user_id = uid u, ext_created_at = now\<rparr>]"
    using ins(2) by (auto simp: insert_external_def table_simps split: if_splits)
  note e = this
  have u: "user_ids db' = user_ids d" "users_ok db' = users_ok d"
    using e(1,2) by (simp_all add: user_ids_def users_ok_def)
  have ok: "users_ok db" "links_ok db" using assms(2) by (simp_all add: accounts_ok_def)
  note d' = d [OF ok(1)]
  show ?thesis
  proof (rule accounts_ok_users [OF assms(2)])
    show "distinct (map (\<lambda>e. (provider e, subject e)) (external_identities db'))"
      using ok(2) d' e(7,8) by (auto simp: links_ok_def)
    show "\<forall>e \<in> set (external_identities db'). ext_user_id e \<in> user_ids db'"
      using ok(2) d' e(8) u(1) by (auto simp: links_ok_def)
  qed (use d' e u in auto)
qed

lemma set_user_active_ok:
  assumes "set_user_active i b db = Inr db'" and "accounts_ok db"
  shows "accounts_ok db'"
proof -
  let ?t = "update_where (\<lambda>u. uid u = i) (\<lambda>u. u\<lparr>is_active := b\<rparr>) (users db)"
  have db': "db' = db\<lparr>users := ?t\<rparr>"
    using assms(1) by (auto simp: set_user_active_def split: if_splits)
  have cols: "map uid ?t = map uid (users db)" "map username ?t = map username (users db)"
    by (simp_all add: map_key_update_where)
  then have "user_ids db' = user_ids db" unfolding user_ids_def db' by (simp flip: set_map)
  moreover have "users_ok db'"
    using assms(2) cols by (auto simp: accounts_ok_def users_ok_def db' table_simps)
  ultimately show ?thesis
    using assms(2) by (intro accounts_ok_users [OF assms(2)]) (auto simp: accounts_ok_def links_ok_def db')
qed

lemma create_group_ok:
  assumes "create_group n now db = Inr (g, db')" and "accounts_ok db"
  shows "accounts_ok db'"
proof -
  have fresh: "groups_seq db + 1 \<notin> gid ` set (groups db)"
    using assms(2) fresh_id [of "groups db" gid "groups_seq db" "\<lambda>g. clean_name (gname g)"]
    by (simp add: accounts_ok_def groups_ok_def)
  have le: "gid g \<le> groups_seq db + 1" if "g \<in> set (groups db)" for g
    using assms(2) that by (force simp: accounts_ok_def groups_ok_def)
  have nm: "length (py_strip n) \<noteq> 0" "\<not> group_name_exists (py_strip n) db"
    "db' = db\<lparr>groups := groups db @ [g], groups_seq := groups_seq db + 1\<rparr>"
    "gid g = groups_seq db + 1" "gname g = py_strip n"
    using assms(1) by (auto simp: create_group_def Let_def split: if_splits)
  have "groups_ok db'"
    using assms(2) fresh le nm clean_name_strip [OF nm(1)]
    by (auto simp: accounts_ok_def groups_ok_def group_name_exists_def table_simps image_iff)
  with assms(2) nm(3) show ?thesis
    by (auto simp: accounts_ok_def users_ok_def memberships_ok_def links_ok_def group_ids_def user_ids_def)
qed

lemma group_edges_mono: "set ms \<subseteq> set ms' \<Longrightarrow> group_edges ms \<subseteq> group_edges ms'"
  by (auto simp: group_edges_def)

lemma accounts_ok_fewer_members:
  assumes "accounts_ok db" and "set ms \<subseteq> set (memberships db)" and "distinct ms"
    and "\<forall>m \<in> set ms. group_id m \<in> gid ` set gs \<and> (member_type m = GROUP \<longrightarrow> member_id m \<in> gid ` set gs)"
    and "set gs \<subseteq> set (groups db)" and "distinct (map gid gs)" and "distinct (map gname gs)"
  shows "accounts_ok (db\<lparr>groups := gs, memberships := ms\<rparr>)"
proof -
  have "acyclic (group_edges ms)"
    using assms(1,2) group_edges_mono acyclic_subset by (metis accounts_ok_def memberships_ok_def)
  moreover have "member_id m \<in> user_ids db" if "m \<in> set ms" "member_type m = USER" for m
    using assms(1,2) that by (force simp: accounts_ok_def memberships_ok_def)
  moreover have "member_type m = GROUP" if "member_type m \<noteq> USER" for m :: membership
    using that by (cases "member_type m") auto
  ultimately show ?thesis
    using assms by (auto simp: accounts_ok_def users_ok_def groups_ok_def memberships_ok_def
        links_ok_def group_ids_def user_ids_def)
qed

lemma delete_group_ok:
  assumes "delete_group g db = Inr db'" and "accounts_ok db"
  shows "accounts_ok db'"
proof -
  let ?gs = "delete_where (\<lambda>r. gid r = g) (groups db)"
  let ?ms = "delete_where (\<lambda>m. member_type m = GROUP \<and> member_id m = g)
    (delete_where (\<lambda>m. group_id m = g) (memberships db))"
  have gs: "gid ` set ?gs = group_ids db - {g}" by (auto simp: group_ids_def table_simps)
  have "distinct ?ms" using assms(2)
    by (simp add: accounts_ok_def memberships_ok_def delete_where_def)
  moreover have "\<forall>m \<in> set ?ms. group_id m \<in> gid ` set ?gs \<and>
      (member_type m = GROUP \<longrightarrow> member_id m \<in> gid ` set ?gs)"
    using assms(2) unfolding gs by (auto simp: accounts_ok_def memberships_ok_def table_simps)
  moreover have "distinct (map gid ?gs)" "distinct (map gname ?gs)"
    using assms(2) by (auto simp: accounts_ok_def groups_ok_def intro: key_intros)
  ultimately have "accounts_ok (db\<lparr>groups := ?gs, memberships := ?ms\<rparr>)"
    by (intro accounts_ok_fewer_members [OF assms(2)]) (auto simp: table_simps)
  then show ?thesis using assms(1) by (auto simp: delete_group_def Let_def split: if_splits)
qed

lemma remove_member_ok:
  assumes "remove_member g ty m db = Inr db'" and "accounts_ok db"
  shows "accounts_ok db'"
proof -
  let ?ms = "delete_where (\<lambda>r. group_id r = g \<and> member_type r = ty \<and> member_id r = m) (memberships db)"
  have "accounts_ok (db\<lparr>groups := groups db, memberships := ?ms\<rparr>)"
    using assms(2) by (intro accounts_ok_fewer_members [OF assms(2)])
      (auto simp: table_simps accounts_ok_def memberships_ok_def groups_ok_def group_ids_def,
       simp_all add: delete_where_def)
  then show ?thesis using assms(1) by (auto simp: remove_member_def Let_def split: if_splits)
qed

lemma add_member_Inr:
  "add_member g ty m db = Inr db' \<longleftrightarrow>
   g \<in> group_ids db \<and> m \<in> (if ty = USER then user_ids db else group_ids db) \<and>
   (ty = GROUP \<longrightarrow> (m, g) \<notin> (group_edges (memberships db))\<^sup>*) \<and>
   \<lparr>group_id = g, member_type = ty, member_id = m\<rparr> \<notin> set (memberships db) \<and>
   db' = db\<lparr>memberships := memberships db @ [\<lparr>group_id = g, member_type = ty, member_id = m\<rparr>]\<rparr>"
proof -
  have ex: "membership_exists g ty m db \<longleftrightarrow>
      \<lparr>group_id = g, member_type = ty, member_id = m\<rparr> \<in> set (memberships db)"
  proof -
    have "m' = \<lparr>group_id = g, member_type = ty, member_id = m\<rparr> \<longleftrightarrow>
        group_id m' = g \<and> member_type m' = ty \<and> member_id m' = m" for m' by (cases m') auto
    then have "(\<lambda>r. group_id r = g \<and> member_type r = ty \<and> member_id r = m) =
        (\<lambda>r. r = \<lparr>group_id = g, member_type = ty, member_id = m\<rparr>)" by simp
    then show ?thesis by (simp only: membership_exists_def fetchone_None) blast
  qed
  have desc: "m = g \<or> g \<in> group_descendants m db \<longleftrightarrow> (m, g) \<in> (group_edges (memberships db))\<^sup>*"
    by (auto simp: group_descendants_trancl rtrancl_eq_or_trancl)
  show ?thesis
    by (cases ty) (use ex desc user_exists_iff [of m db] group_exists_iff [of g db]
        group_exists_iff [of m db] in \<open>auto simp: add_member_def add_member_check_def
          add_member_insert_def res_bind_eq_Inr split: if_splits\<close>)
qed

lemma group_edges_snoc:
  "group_edges (ms @ [\<lparr>group_id = g, member_type = ty, member_id = m\<rparr>]) =
   (if ty = GROUP then insert (g, m) (group_edges ms) else group_edges ms)"
  by (auto simp: group_edges_def)

lemma add_member_ok:
  assumes "add_member g ty m db = Inr db'" and "accounts_ok db"
  shows "accounts_ok db'"
proof -
  note a = assms(1) [unfolded add_member_Inr]
  have "acyclic (group_edges (memberships db'))"
    using a assms(2)
    by (auto simp: group_edges_snoc accounts_ok_def memberships_ok_def)
  with a assms(2) show ?thesis
    by (auto simp: accounts_ok_def users_ok_def groups_ok_def memberships_ok_def links_ok_def
        group_ids_def user_ids_def split: if_splits)
qed

lemma set_user_quota_ok:
  assumes "set_user_quota i q db = Inr db'" and "accounts_ok db"
  shows "accounts_ok db'"
proof -
  have a: "0 \<le> q" "i \<in> user_ids db" "db' = db\<lparr>user_quota := insert_or_replace quota_user_id
      \<lparr>quota_user_id = i, quota_bytes = q\<rparr> (user_quota db)\<rparr>"
    using assms(1) user_exists_iff [of i db]
    by (auto simp: set_user_quota_def res_bind_eq_Inr split: if_splits)
  with assms(2) show ?thesis
    by (auto simp: accounts_ok_def users_ok_def groups_ok_def memberships_ok_def links_ok_def
        group_ids_def user_ids_def table_simps split: if_splits intro: key_intros)
qed

lemmas account_ops_ok = create_user_ok create_external_user_ok set_user_active_ok create_group_ok
  delete_group_ok add_member_ok remove_member_ok set_user_quota_ok

lemma account_result_ok: "account_result op db = Inr db' \<Longrightarrow> accounts_ok db \<Longrightarrow> accounts_ok db'"
  by (cases op) (auto simp: map_ok_Inr intro: account_ops_ok)

interpretation accounts: inv_machine account_step accounts_ok
proof
  fix db op
  assume "accounts_ok db"
  then show "accounts_ok (account_step op db)"
    using account_result_ok [of op db] by (auto simp: account_step_def or_keep_def split: sum.splits)
qed

lemma create_store_ok: "accounts_ok create_store"
  by (simp add: accounts_ok_def users_ok_def groups_ok_def memberships_ok_def links_ok_def
      create_store_def group_edges_def acyclic_def)

subsection \<open>Resolution on the store\<close>

definition user_groups :: "int \<Rightarrow> accounts_db \<Rightarrow> int set" where
  "user_groups u db = {g. \<exists>m \<in> set (memberships db). member_type m = USER \<and> member_id m = u \<and>
     (g, group_id m) \<in> (group_edges (memberships db))\<^sup>*}"

lemma user_groups_closure:
  "user_groups u db =
   ((group_edges (memberships db))\<inverse>)\<^sup>* `` set (list_parent_group_ids USER u db)"
  unfolding user_groups_def list_parent_group_ids_def rtrancl_converse by auto

lemma resolve_total:
  "card (group_id ` set (memberships db)) \<le> n \<Longrightarrow> resolve_user_groups n u db \<noteq> None"
  using store_parents.collect_returns [of db n u]
  by (auto simp: resolve_user_groups_def split: sum.split)

lemma resolve_spec:
  assumes "get_user_by_id u db = Inr r"
  shows "if \<exists>g \<in> user_groups u db. (g, g) \<in> (group_edges (memberships db))\<^sup>+
    then \<exists>g. resolve_user_group_ids u db = Some (Inl (GroupCycleError g g)) \<and>
      (g, g) \<in> (group_edges (memberships db))\<^sup>+
    else resolve_user_group_ids u db = Some (Inr (user_groups u db))"
  using store_parents.collect_spec [OF card_parents, of db u, unfolded parent_rel_store] assms
  unfolding user_groups_closure
  by (simp add: resolve_user_group_ids_def resolve_user_groups_def trancl_converse
      cong: if_cong split: if_split_asm)

lemma acyclic_empty: "acyclic {}"
  by (simp add: acyclic_def)

section \<open>Properties\<close>

text \<open>C15: whatever sequence of store operations runs on a fresh store, with whatever arguments,
  user ids, usernames, group ids and group names stay unique, every membership edge joins existing
  subjects, no edge is stored twice, and the graph of groups stays acyclic.\<close>

theorem accounts_invariant:
  "let db = fold account_step ops create_store in
     distinct (map uid (users db)) \<and> distinct (map username (users db)) \<and>
     distinct (map gid (groups db)) \<and> distinct (map gname (groups db)) \<and>
     distinct (memberships db) \<and> acyclic (group_edges (memberships db)) \<and>
     (\<forall>m \<in> set (memberships db). group_id m \<in> gid ` set (groups db) \<and>
        member_id m \<in> (if member_type m = USER then uid ` set (users db) else gid ` set (groups db)))"
  using accounts.run_inv [OF create_store_ok, of ops]
  unfolding Let_def accounts_ok_def users_ok_def groups_ok_def memberships_ok_def
    user_ids_def group_ids_def
  by (elim conjE) (intro conjI; assumption)

theorem accounts_invariant_witness:
  "let db = fold account_step [CreateUser ''ann'' [1] None 0, CreateGroup ''dev'' 0,
       AddMember 1 USER 1, AddMember 1 GROUP 1] create_store in
     acyclic (group_edges (memberships db)) \<and> distinct (map username (users db))"
  using accounts_invariant [of "[CreateUser ''ann'' [1] None 0, CreateGroup ''dev'' 0,
    AddMember 1 USER 1, AddMember 1 GROUP 1]"] by (simp only: Let_def)

text \<open>On a store whose groups are acyclic, adding an existing group to an existing group
  raises \<open>GroupCycleError\<close> exactly when the new edge would close a cycle; otherwise a stored edge
  raises \<open>DuplicateMembershipError\<close>, and a new edge is appended and keeps the graph acyclic.\<close>

lemma add_member_group_spec:
  assumes "accounts_ok db" and "g \<in> gid ` set (groups db)" and "m \<in> gid ` set (groups db)"
  shows "add_member g GROUP m db =
    (if \<not> acyclic (insert (g, m) (group_edges (memberships db))) then Inl (GroupCycleError g m)
     else if (g, m) \<in> group_edges (memberships db) then Inl (DuplicateMembershipError g GROUP m)
     else Inr (db\<lparr>memberships := memberships db @
       [\<lparr>group_id = g, member_type = GROUP, member_id = m\<rparr>]\<rparr>))"
proof -
  have ex: "\<exists>r. get_group_by_id g db = Inr r" "\<exists>r. get_group_by_id m db = Inr r"
    using assms(2,3) by (simp_all add: group_exists_iff group_ids_def)
  have cyc: "\<not> acyclic (insert (g, m) (group_edges (memberships db))) \<longleftrightarrow>
      m = g \<or> g \<in> group_descendants m db"
    using assms(1) by (auto simp: accounts_ok_def memberships_ok_def
        group_descendants_trancl rtrancl_eq_or_trancl)
  have dup: "membership_exists g GROUP m db \<longleftrightarrow> (g, m) \<in> group_edges (memberships db)"
    by (auto simp: membership_exists_def group_edges_def fetchone_None)
  show ?thesis using ex unfolding cyc dup [symmetric]
    by (auto simp: add_member_def add_member_check_def add_member_insert_def)
qed

text \<open>Two groups, one containing the other, used by the witnesses.\<close>

definition two_groups :: accounts_db where
  "two_groups = fold account_step [CreateUser ''ann'' [1] None 0, CreateGroup ''dev'' 0,
     CreateGroup ''ops'' 0, AddMember 1 USER 1] create_store"

lemma two_groups_eq:
  "two_groups = \<lparr>users = [\<lparr>uid = 1, username = ''ann'', email = None, password_hash = [1],
      user_created_at = 0, is_active = True\<rparr>], users_seq = 1,
    groups = [\<lparr>gid = 1, gname = ''dev'', group_created_at = 0\<rparr>,
      \<lparr>gid = 2, gname = ''ops'', group_created_at = 0\<rparr>], groups_seq = 2,
    memberships = [\<lparr>group_id = 1, member_type = USER, member_id = 1\<rparr>],
    user_quota = [], external_identities = []\<rparr>"
proof -
  have strip: "py_strip ''ann'' = ''ann''" "py_strip ''dev'' = ''dev''" "py_strip ''ops'' = ''ops''"
    by code_simp+
  show ?thesis
    by (simp add: two_groups_def account_step_def or_keep_def map_ok_def create_user_def create_group_def
        strip insert_user_def username_exists_def group_name_exists_def fetchone_def create_store_def
        add_member_def add_member_check_def add_member_insert_def get_group_by_id_def
        get_user_by_id_def membership_exists_def Let_def)
qed

lemma two_groups_ok: "accounts_ok two_groups"
  unfolding two_groups_def by (rule accounts.run_inv [OF create_store_ok])

lemma add_member_group_spec_witness:
  "add_member 2 GROUP 1 two_groups = Inr (two_groups\<lparr>memberships := memberships two_groups @
       [\<lparr>group_id = 2, member_type = GROUP, member_id = 1\<rparr>]\<rparr>)"
proof -
  have "group_edges (memberships two_groups) = {}" by (simp add: two_groups_eq group_edges_def)
  then show ?thesis
    using add_member_group_spec [OF two_groups_ok, of 2 1]
    by (simp add: two_groups_eq acyclic_empty)
qed

text \<open>C9: resolving the groups of an existing user always returns. When no cycle can be reached
  from the user's groups the result is exactly the set of groups that contain the user directly
  or through a chain of groups; otherwise \<open>GroupCycleError\<close> is raised for a group on a cycle. On a
  store built by the operations the first case always applies.\<close>

theorem resolve_user_groups_spec:
  assumes "get_user_by_id u db = Inr r"
  shows "(if \<exists>g \<in> user_groups u db. (g, g) \<in> (group_edges (memberships db))\<^sup>+
    then \<exists>g. resolve_user_group_ids u db = Some (Inl (GroupCycleError g g)) \<and>
      (g, g) \<in> (group_edges (memberships db))\<^sup>+
    else resolve_user_group_ids u db = Some (Inr (user_groups u db))) \<and>
    (accounts_ok db \<longrightarrow> resolve_user_group_ids u db = Some (Inr (user_groups u db)))"
  using resolve_spec [OF assms] by (auto simp: accounts_ok_def memberships_ok_def acyclic_def)

theorem resolve_user_groups_spec_witness:
  "resolve_user_group_ids 1 two_groups = Some (Inr (user_groups 1 two_groups)) \<and>
   1 \<in> user_groups 1 two_groups"
  using resolve_user_groups_spec [of 1 two_groups] two_groups_ok
  by (simp add: two_groups_eq get_user_by_id_def fetchone_def user_groups_def)

text \<open>The cycle check of \<open>add_member\<close> does not protect against interleaving. Two calls that add
  two groups to each other both pass their checks when these run before either insert; then both
  inserts succeed, the stored graph is cyclic, and resolving the groups of a member user raises
  \<open>GroupCycleError\<close> from then on.\<close>

lemma add_member_race:
  "\<exists>db db1 db2. accounts_ok db \<and> add_member_check 1 GROUP 2 db = Inr () \<and>
     add_member_check 2 GROUP 1 db = Inr () \<and> add_member_insert 1 GROUP 2 db = Inr db1 \<and>
     add_member_insert 2 GROUP 1 db1 = Inr db2 \<and> \<not> acyclic (group_edges (memberships db2)) \<and>
     resolve_user_group_ids 1 db2 = Some (Inl (GroupCycleError 1 1))"
proof -
  let ?d1 = "two_groups\<lparr>memberships := memberships two_groups @
    [\<lparr>group_id = 1, member_type = GROUP, member_id = 2\<rparr>]\<rparr>"
  let ?d2 = "?d1\<lparr>memberships := memberships ?d1 @
    [\<lparr>group_id = 2, member_type = GROUP, member_id = 1\<rparr>]\<rparr>"
  have e: "group_edges (memberships two_groups) = {}" by (simp add: two_groups_eq group_edges_def)
  have c: "add_member_check 1 GROUP 2 two_groups = Inr ()" "add_member_check 2 GROUP 1 two_groups = Inr ()"
    using e by (simp_all add: add_member_check_def group_descendants_trancl get_group_by_id_def
        membership_exists_def fetchone_def two_groups_eq)
  have i: "add_member_insert 1 GROUP 2 two_groups = Inr ?d1" "add_member_insert 2 GROUP 1 ?d1 = Inr ?d2"
    by (simp_all add: add_member_insert_def membership_exists_def fetchone_def two_groups_eq)
  have "group_edges (memberships ?d2) = {(1, 2), (2, 1)}"
    by (auto simp: two_groups_eq group_edges_def)
  then have "\<not> acyclic (group_edges (memberships ?d2))" by auto
  moreover have "resolve_user_group_ids 1 ?d2 = Some (Inl (GroupCycleError 1 1))"
    by (simp add: resolve_user_group_ids_def resolve_user_groups_def two_groups_eq
        get_user_by_id_def fetchone_def list_parent_group_ids_def)
  ultimately show ?thesis using c i two_groups_ok by blast
qed

text \<open>Deleting an existing group removes it and every edge from or to it, keeps every other
  group and every other edge, and the id counter is kept, so a group created later never gets the
  id of a deleted one.\<close>

lemma delete_group_clean:
  assumes "delete_group g db = Inr db'" and "accounts_ok db"
  shows "get_group_by_id g db' = Inl (GroupNotFoundError (ById g)) \<and>
    set (groups db') = {r \<in> set (groups db). gid r \<noteq> g} \<and>
    set (memberships db') = {m \<in> set (memberships db). group_id m \<noteq> g \<and>
       \<not> (member_type m = GROUP \<and> member_id m = g)} \<and>
    (create_group n now db' = Inr (g', db'') \<longrightarrow> gid g' \<noteq> g)"
proof -
  have d: "g \<in> gid ` set (groups db)" "groups db' = delete_where (\<lambda>r. gid r = g) (groups db)"
    "groups_seq db' = groups_seq db"
    "memberships db' = delete_where (\<lambda>m. member_type m = GROUP \<and> member_id m = g)
       (delete_where (\<lambda>m. group_id m = g) (memberships db))"
    using assms(1) by (auto simp: delete_group_def Let_def table_simps split: if_splits)
  have "g \<le> groups_seq db" using d(1) assms(2) by (auto simp: accounts_ok_def groups_ok_def)
  moreover have "gid g' = groups_seq db + 1" if "create_group n now db' = Inr (g', db'')"
    using that d(3) by (auto simp: create_group_def Let_def split: if_splits)
  moreover have "fetchone (\<lambda>r. gid r = g) (groups db') = None" by (simp add: d(2) table_simps)
  then have "get_group_by_id g db' = Inl (GroupNotFoundError (ById g))"
    by (simp add: get_group_by_id_def)
  ultimately show ?thesis by (auto simp: d(2,4) table_simps)
qed

lemma delete_group_clean_witness:
  "\<exists>db'. delete_group 1 two_groups = Inr db' \<and>
     get_group_by_id 1 db' = Inl (GroupNotFoundError (ById 1)) \<and> memberships db' = []"
proof -
  let ?d = "two_groups\<lparr>groups := [\<lparr>gid = 2, gname = ''ops'', group_created_at = 0\<rparr>], memberships := []\<rparr>"
  have "delete_group 1 two_groups = Inr ?d"
    by (simp add: delete_group_def two_groups_eq rowcount_def delete_where_def)
  from this delete_group_clean [OF this two_groups_ok] show ?thesis by auto
qed

text \<open>Creating a user succeeds exactly when the stripped name and the hash are not empty and
  the stripped name is free; the new active user is then found by that name and by a new id, and
  every lookup of another name gives what it gave before.\<close>

lemma create_user_lookup:
  assumes "accounts_ok db"
  shows "(is_ok (create_user n ph em now db) \<longleftrightarrow>
      py_strip n \<noteq> [] \<and> ph \<noteq> [] \<and> py_strip n \<notin> username ` set (users db)) \<and>
    (create_user n ph em now db = Inr (u, db') \<longrightarrow>
      username u = py_strip n \<and> is_active u \<and> uid u \<notin> uid ` set (users db) \<and>
      get_user_by_username (py_strip n) db' = Inr u \<and> get_user_by_id (uid u) db' = Inr u \<and>
      (\<forall>other. other \<noteq> py_strip n \<longrightarrow>
         get_user_by_username other db' = get_user_by_username other db))"
proof -
  have fresh: "users_seq db + 1 \<notin> uid ` set (users db)"
    using assms fresh_id [of "users db" uid "users_seq db" "\<lambda>u. clean_name (username u)"]
    by (simp add: accounts_ok_def users_ok_def)
  have taken: "username_exists k db \<longleftrightarrow> k \<in> username ` set (users db)" for k
    by (auto simp: username_exists_def fetchone_None)
  have ins: "create_user n ph em now db = (if py_strip n = [] \<or> ph = [] then Inl AccountValueError
      else if py_strip n \<in> username ` set (users db) then Inl (UsernameTakenError (py_strip n))
      else let u = \<lparr>uid = users_seq db + 1, username = py_strip n, email = em, password_hash = ph,
             user_created_at = now, is_active = True\<rparr>
        in Inr (u, db\<lparr>users := users db @ [u], users_seq := users_seq db + 1\<rparr>))"
    by (auto simp: create_user_def Let_def taken insert_user_def fetchone_None image_iff)
  have none: "fetchone (\<lambda>r. uid r = users_seq db + 1) (users db) = None"
    using fresh by (auto simp: fetchone_None image_iff)
  have free: "fetchone (\<lambda>r. username r = k) (users db) = None" if "k \<notin> username ` set (users db)" for k
    using that by (auto simp: fetchone_None image_iff)
  have last: "fetchone p [x] = (if p x then Some x else None)" for p and x :: user
    by (simp add: fetchone_def)
  show ?thesis
    using fresh by (auto simp: ins Let_def get_user_by_username_def get_user_by_id_def fetchone_append
        none last free split: if_splits option.splits)
qed

lemma create_user_lookup_witness:
  "is_ok (create_user ''bob'' [7] None 0 two_groups) \<longleftrightarrow> py_strip ''bob'' \<noteq> [] \<and>
     [7 :: byte] \<noteq> [] \<and> py_strip ''bob'' \<notin> username ` set (users two_groups)"
  using create_user_lookup [OF two_groups_ok, of "''bob''" "[7]" None 0] by blast

text \<open>With bcrypt functions that accept the hash they made, a password that hashes verifies
  against its hash; exactly the passwords that are empty or longer than 72 UTF-8 bytes are refused
  with \<open>WeakPasswordError\<close>, so nothing is silently truncated.\<close>

lemma password_roundtrip:
  assumes "\<And>pw. checkpw pw (hashpw pw salt)" and "\<And>pw. hashpw pw salt \<noteq> []"
  shows "(hash_password hashpw salt plain = Inl WeakPasswordError \<longleftrightarrow>
      plain = [] \<or> 72 < length (utf8_encode plain)) \<and>
    (hash_password hashpw salt plain = Inr h \<longrightarrow> verify_password checkpw plain h = Inr True)"
  using assms by (auto simp: hash_password_def verify_password_def BCRYPT_MAX_BYTES_def)

lemma password_roundtrip_witness:
  "hash_password (\<lambda>pw salt. salt @ 1 # pw) [9] ''pw'' = Inr ([9] @ 1 # utf8_encode ''pw'') \<and>
   verify_password (\<lambda>pw h. h = [9] @ 1 # pw) ''pw'' ([9] @ 1 # utf8_encode ''pw'') = Inr True"
proof -
  have "length (utf8_encode ''pw'') = 2" by code_simp
  then have "hash_password (\<lambda>pw salt. salt @ 1 # pw) [9] ''pw'' = Inr ([9] @ 1 # utf8_encode ''pw'')"
    by (simp add: hash_password_def BCRYPT_MAX_BYTES_def)
  with password_roundtrip [of "\<lambda>pw h. h = [9] @ 1 # pw" "\<lambda>pw salt. salt @ 1 # pw" "[9]" "''pw''"]
  show ?thesis by simp
qed

end
