(* ===== verification/Mount_Registry.thy ===== *)
theory Mount_Registry
  imports Accounts
begin

text \<open>
  The relay's registry of mounts: the in-memory \<open>MountRegistry\<close> of \<open>mount_registry.py\<close> and the
  \<open>SqliteMountRegistry\<close> of \<open>sqlite_registry.py\<close> that replaces it, with the access policies, the
  access requests and the start-up clean-up.

  A live tunnel is a reference (a number); whether it is closed is asked of the tunnel, so the
  operations that ask take the predicate \<open>dead\<close>. The clock is an argument.
\<close>

section \<open>Data\<close>

datatype MountStatus = ONLINE | OFFLINE | EXPIRED

datatype AccessRequestStatus = PENDING | APPROVED | DENIED

type_synonym conn_ref = nat

datatype registry_exn =
    MountNotFoundError str
  | MountOfflineError str
  | MountExpiredError str
  | NoTunnelError str
  | AccessRequestNotFoundError int
  | RegistryValueError

record PolicyEntry =
  subject_type :: SubjectType
  subject_id :: int
  entry_role :: Role

record MountPolicy =
  policy_code :: str
  policy_owner :: "int option"
  policy_mode :: AccessMode
  policy_has_password :: bool
  policy_entries :: "PolicyEntry list"

record AccessRequest =
  req_id :: int
  req_code :: str
  req_user_id :: int
  req_status :: AccessRequestStatus
  req_created_at :: timestamp

record MountRecord =
  rec_code :: str
  rec_connection :: "conn_ref option"
  rec_status :: MountStatus
  rec_agent_ip :: str
  rec_created_at :: timestamp
  rec_expires_at :: "timestamp option"
  rec_ttl_warned :: bool

section \<open>The in-memory registry\<close>

type_synonym mem_registry = "(str \<times> MountRecord) list"

definition mem_register ::
  "str \<Rightarrow> conn_ref \<Rightarrow> str \<Rightarrow> timestamp \<Rightarrow> timestamp option \<Rightarrow> mem_registry \<Rightarrow>
   (registry_exn, mem_registry) result" where
  "mem_register code connection agent_ip created_at expires_at reg =
     (if code = [] then Inl RegistryValueError
      else Inr (AList.update code \<lparr>rec_code = code, rec_connection = Some connection,
             rec_status = ONLINE, rec_agent_ip = agent_ip, rec_created_at = created_at,
             rec_expires_at = expires_at, rec_ttl_warned = False\<rparr> reg))"

definition mem_deregister :: "str \<Rightarrow> mem_registry \<Rightarrow> (registry_exn, mem_registry) result" where
  "mem_deregister code reg =
     (if map_of reg code = None then Inl (MountNotFoundError code) else Inr (AList.delete code reg))"

definition mem_get_connection ::
  "(conn_ref \<Rightarrow> bool) \<Rightarrow> str \<Rightarrow> mem_registry \<Rightarrow> (registry_exn, conn_ref) result" where
  "mem_get_connection dead code reg = (case map_of reg code of
     None \<Rightarrow> Inl (MountNotFoundError code)
   | Some r \<Rightarrow>
       if rec_status r = OFFLINE then Inl (MountOfflineError code)
       else if rec_status r = EXPIRED then Inl (MountExpiredError code)
       else (case rec_connection r of
           None \<Rightarrow> Inl (NoTunnelError code)
         | Some k \<Rightarrow> if dead k then Inl (MountOfflineError code) else Inr k))"

definition mem_mark_offline :: "str \<Rightarrow> mem_registry \<Rightarrow> (registry_exn, mem_registry) result" where
  "mem_mark_offline code reg = (case map_of reg code of
     None \<Rightarrow> Inl (MountNotFoundError code)
   | Some r \<Rightarrow> Inr (AList.update code (r\<lparr>rec_status := OFFLINE\<rparr>) reg))"

definition mem_has_mount :: "str \<Rightarrow> mem_registry \<Rightarrow> bool" where
  "mem_has_mount code reg = (map_of reg code \<noteq> None)"

definition mem_count_mounts_by_ip :: "str \<Rightarrow> mem_registry \<Rightarrow> nat" where
  "mem_count_mounts_by_ip ip reg =
     length (filter (\<lambda>m. rec_agent_ip m = ip \<and> rec_status m \<noteq> EXPIRED) (map snd reg))"

definition mem_active_mounts :: "mem_registry \<Rightarrow> MountRecord list" where
  "mem_active_mounts reg = filter (\<lambda>m. rec_status m \<noteq> EXPIRED) (map snd reg)"

section \<open>The SQLite registry: mounts\<close>

record mount_row =
  mcode :: str
  status :: MountStatus
  agent_ip :: str
  created_at :: timestamp
  expires_at :: "timestamp option"
  ttl_warned :: bool
  owner_user_id :: "int option"
  access_mode :: AccessMode
  has_password :: bool

record policy_row =
  pcode :: str
  pentry :: PolicyEntry

text \<open>\<open>mode_default\<close> is the schema's default of the column \<open>access_mode\<close>: \<open>'open'\<close> in a database
  created with it, \<open>'legacy'\<close> in one migrated from an older version.\<close>

record registry =
  mounts :: "mount_row list"
  mode_default :: AccessMode
  mount_policy :: "policy_row list"
  access_requests :: "AccessRequest list"
  requests_seq :: int
  connections :: "(str \<times> conn_ref) list"
  identity_secrets :: "(str \<times> str) list"

definition set_identity_secret :: "str \<Rightarrow> str \<Rightarrow> registry \<Rightarrow> (registry_exn, registry) result" where
  "set_identity_secret code secret reg =
     (if length code = 0 then Inl RegistryValueError
      else if length secret = 0 then Inl RegistryValueError
      else Inr (reg\<lparr>identity_secrets := AList.update code secret (identity_secrets reg)\<rparr>))"

definition get_identity_secret :: "str \<Rightarrow> registry \<Rightarrow> str option" where
  "get_identity_secret code reg = map_of (identity_secrets reg) code"

definition RETENTION_SECONDS :: real where "RETENTION_SECONDS = 6 * 3600"

definition expired_before :: "timestamp \<Rightarrow> mount_row \<Rightarrow> bool" where
  "expired_before cutoff m \<longleftrightarrow>
     status m = EXPIRED \<and> (case expires_at m of None \<Rightarrow> False | Some t \<Rightarrow> t < cutoff)"

definition startup_cleanup :: "timestamp \<Rightarrow> registry \<Rightarrow> registry" where
  "startup_cleanup now reg =
     (let ms1 = delete_where (expired_before (now - RETENTION_SECONDS)) (mounts reg);
          ms2 = update_where (\<lambda>m. case expires_at m of None \<Rightarrow> False | Some t \<Rightarrow> t < now)
                  (\<lambda>m. m\<lparr>status := EXPIRED\<rparr>) ms1;
          ms3 = update_where (\<lambda>m. status m = ONLINE) (\<lambda>m. m\<lparr>status := OFFLINE\<rparr>) ms2
      in reg\<lparr>mounts := ms3\<rparr>)"

definition migrate :: "str set \<Rightarrow> registry \<Rightarrow> registry" where
  "migrate existing_cols reg =
     (let r1 = (if ''owner_user_id'' \<notin> existing_cols
                then reg\<lparr>mounts := map (\<lambda>m. m\<lparr>owner_user_id := None\<rparr>) (mounts reg)\<rparr> else reg);
          r2 = (if ''access_mode'' \<notin> existing_cols
                then r1\<lparr>mounts := map (\<lambda>m. m\<lparr>access_mode := LEGACY\<rparr>) (mounts r1),
                        mode_default := LEGACY\<rparr> else r1)
      in if ''has_password'' \<notin> existing_cols
         then r2\<lparr>mounts := map (\<lambda>m. m\<lparr>has_password := False\<rparr>) (mounts r2)\<rparr> else r2)"

definition create_registry :: "str set \<Rightarrow> timestamp \<Rightarrow> registry \<Rightarrow> registry" where
  "create_registry existing_cols now stored =
     startup_cleanup now
       ((migrate existing_cols stored)\<lparr>connections := [], identity_secrets := []\<rparr>)"

definition fresh_registry :: registry where
  "fresh_registry = \<lparr>mounts = [], mode_default = OPEN_MODE, mount_policy = [], access_requests = [],
     requests_seq = 0, connections = [], identity_secrets = []\<rparr>"

definition register ::
  "str \<Rightarrow> conn_ref option \<Rightarrow> str \<Rightarrow> timestamp \<Rightarrow> timestamp option \<Rightarrow> registry \<Rightarrow>
   (registry_exn, registry) result" where
  "register code connection ip created expiry reg =
     (if code = [] then Inl RegistryValueError
      else let row = \<lparr>mcode = code, status = ONLINE, agent_ip = ip, created_at = created,
                      expires_at = expiry, ttl_warned = False, owner_user_id = None,
                      access_mode = mode_default reg, has_password = False\<rparr>;
               reg1 = reg\<lparr>mounts := insert_or_replace mcode row (mounts reg)\<rparr>
           in Inr (case connection of
                None \<Rightarrow> reg1
              | Some k \<Rightarrow> reg1\<lparr>connections := AList.update code k (connections reg1)\<rparr>))"

definition forget_live :: "str \<Rightarrow> registry \<Rightarrow> registry" where
  "forget_live code reg = reg\<lparr>connections := AList.delete code (connections reg),
     identity_secrets := AList.delete code (identity_secrets reg)\<rparr>"

definition find_mount :: "str \<Rightarrow> registry \<Rightarrow> mount_row option" where
  "find_mount code reg = fetchone (\<lambda>m. mcode m = code) (mounts reg)"

definition set_status :: "str \<Rightarrow> MountStatus \<Rightarrow> registry \<Rightarrow> registry" where
  "set_status code st reg =
     reg\<lparr>mounts := update_where (\<lambda>m. mcode m = code) (\<lambda>m. m\<lparr>status := st\<rparr>) (mounts reg)\<rparr>"

definition deregister :: "str \<Rightarrow> registry \<Rightarrow> (registry_exn, registry) result" where
  "deregister code reg =
     (if rowcount (\<lambda>m. mcode m = code) (mounts reg) = 0 then Inl (MountNotFoundError code)
      else Inr (forget_live code (reg\<lparr>mounts := delete_where (\<lambda>m. mcode m = code) (mounts reg)\<rparr>)))"

definition get_connection ::
  "(conn_ref \<Rightarrow> bool) \<Rightarrow> str \<Rightarrow> registry \<Rightarrow> (registry_exn, conn_ref) result" where
  "get_connection dead code reg = (case find_mount code reg of
     None \<Rightarrow> Inl (MountNotFoundError code)
   | Some m \<Rightarrow>
       if status m = OFFLINE then Inl (MountOfflineError code)
       else if status m = EXPIRED then Inl (MountExpiredError code)
       else (case map_of (connections reg) code of
           None \<Rightarrow> Inl (NoTunnelError code)
         | Some k \<Rightarrow> if dead k then Inl (MountOfflineError code) else Inr k))"

definition mark_offline :: "str \<Rightarrow> registry \<Rightarrow> (registry_exn, registry) result" where
  "mark_offline code reg = (case find_mount code reg of
     None \<Rightarrow> Inl (MountNotFoundError code)
   | Some m \<Rightarrow>
       let reg1 = (if status m = ONLINE
                   then (set_status code OFFLINE reg)\<lparr>connections := AList.delete code (connections reg)\<rparr>
                   else reg)
       in Inr (reg1\<lparr>identity_secrets := AList.delete code (identity_secrets reg1)\<rparr>))"

definition expire :: "str \<Rightarrow> registry \<Rightarrow> (registry_exn, registry) result" where
  "expire code reg = (case find_mount code reg of
     None \<Rightarrow> Inl (MountNotFoundError code)
   | Some m \<Rightarrow> Inr (forget_live code (set_status code EXPIRED reg)))"

definition mark_ttl_warned :: "str \<Rightarrow> registry \<Rightarrow> (registry_exn, registry) result" where
  "mark_ttl_warned code reg =
     (if rowcount (\<lambda>m. mcode m = code) (mounts reg) = 0 then Inl (MountNotFoundError code)
      else Inr (reg\<lparr>mounts := update_where (\<lambda>m. mcode m = code) (\<lambda>m. m\<lparr>ttl_warned := True\<rparr>) (mounts reg)\<rparr>))"

definition has_mount :: "str \<Rightarrow> registry \<Rightarrow> bool" where
  "has_mount code reg = (find_mount code reg \<noteq> None)"

definition count_mounts_by_ip :: "str \<Rightarrow> registry \<Rightarrow> nat" where
  "count_mounts_by_ip ip reg = rowcount (\<lambda>m. agent_ip m = ip \<and> status m \<noteq> EXPIRED) (mounts reg)"

definition mount_count :: "registry \<Rightarrow> nat" where
  "mount_count reg = length (mounts reg)"

definition row_record :: "registry \<Rightarrow> mount_row \<Rightarrow> MountRecord" where
  "row_record reg m = \<lparr>rec_code = mcode m, rec_connection = map_of (connections reg) (mcode m),
     rec_status = status m, rec_agent_ip = agent_ip m, rec_created_at = created_at m,
     rec_expires_at = expires_at m, rec_ttl_warned = ttl_warned m\<rparr>"

definition active_mounts :: "registry \<Rightarrow> MountRecord list" where
  "active_mounts reg = map (row_record reg) (filter (\<lambda>m. status m \<noteq> EXPIRED) (mounts reg))"

section \<open>The SQLite registry: reclaim\<close>

definition expired_at :: "timestamp \<Rightarrow> mount_row \<Rightarrow> bool" where
  "expired_at now m = (case expires_at m of None \<Rightarrow> False | Some t \<Rightarrow> t \<le> now)"

definition remaining_ttl :: "timestamp \<Rightarrow> mount_row \<Rightarrow> int" where
  "remaining_ttl now m = (case expires_at m of None \<Rightarrow> 0 | Some t \<Rightarrow> py_int (t - now))"

definition take_over :: "str \<Rightarrow> conn_ref \<Rightarrow> registry \<Rightarrow> registry" where
  "take_over code k reg =
     (set_status code ONLINE reg)\<lparr>connections := AList.update code k (connections reg)\<rparr>"

definition try_reclaim ::
  "str \<Rightarrow> conn_ref \<Rightarrow> str \<Rightarrow> timestamp \<Rightarrow> registry \<Rightarrow> int option \<times> registry" where
  "try_reclaim code connection ip now reg = (case find_mount code reg of
     None \<Rightarrow> (None, reg)
   | Some m \<Rightarrow>
       if status m \<noteq> OFFLINE then (None, reg)
       else if agent_ip m \<noteq> ip then (None, reg)
       else if expired_at now m then (None, reg)
       else (Some (remaining_ttl now m), take_over code connection reg))"

definition try_reclaim_as_owner ::
  "str \<Rightarrow> conn_ref \<Rightarrow> int \<Rightarrow> timestamp \<Rightarrow> registry \<Rightarrow> int option \<times> registry" where
  "try_reclaim_as_owner code connection owner now reg = (case find_mount code reg of
     None \<Rightarrow> (None, reg)
   | Some m \<Rightarrow>
       if status m \<noteq> OFFLINE then (None, reg)
       else if owner_user_id m = None \<or> owner_user_id m \<noteq> Some owner then (None, reg)
       else if expired_at now m then (None, reg)
       else (Some (remaining_ttl now m), take_over code connection reg))"

definition delete_expired_before :: "timestamp \<Rightarrow> registry \<Rightarrow> registry" where
  "delete_expired_before cutoff reg =
     reg\<lparr>mounts := delete_where (expired_before cutoff) (mounts reg)\<rparr>"

section \<open>The SQLite registry: policies\<close>

definition policy_key :: "policy_row \<Rightarrow> str \<times> SubjectType \<times> int" where
  "policy_key r = (pcode r, subject_type (pentry r), subject_id (pentry r))"

definition put_entry :: "str \<Rightarrow> PolicyEntry \<Rightarrow> policy_row list \<Rightarrow> policy_row list" where
  "put_entry code e rows = insert_or_replace policy_key \<lparr>pcode = code, pentry = e\<rparr> rows"

definition set_owner_policy ::
  "str \<Rightarrow> int option \<Rightarrow> AccessMode \<Rightarrow> bool \<Rightarrow> PolicyEntry list \<Rightarrow> registry \<Rightarrow>
   (registry_exn, registry) result" where
  "set_owner_policy code owner mode pw entries reg =
     (if rowcount (\<lambda>m. mcode m = code) (mounts reg) = 0 then Inl (MountNotFoundError code)
      else Inr (reg\<lparr>
        mounts := update_where (\<lambda>m. mcode m = code)
          (\<lambda>m. m\<lparr>owner_user_id := owner, access_mode := mode, has_password := pw\<rparr>) (mounts reg),
        mount_policy := fold (put_entry code) entries
          (delete_where (\<lambda>r. pcode r = code) (mount_policy reg))\<rparr>))"

definition get_policy :: "str \<Rightarrow> registry \<Rightarrow> (registry_exn, MountPolicy) result" where
  "get_policy code reg = (case find_mount code reg of
     None \<Rightarrow> Inl (MountNotFoundError code)
   | Some m \<Rightarrow> Inr \<lparr>policy_code = code, policy_owner = owner_user_id m, policy_mode = access_mode m,
       policy_has_password = has_password m,
       policy_entries = map pentry (filter (\<lambda>r. pcode r = code) (mount_policy reg))\<rparr>)"

definition add_policy_entry ::
  "str \<Rightarrow> SubjectType \<Rightarrow> int \<Rightarrow> Role \<Rightarrow> registry \<Rightarrow> (registry_exn, registry) result" where
  "add_policy_entry code st sid rl reg =
     (if find_mount code reg = None then Inl (MountNotFoundError code)
      else Inr (reg\<lparr>mount_policy :=
        put_entry code \<lparr>subject_type = st, subject_id = sid, entry_role = rl\<rparr> (mount_policy reg)\<rparr>))"

section \<open>The SQLite registry: access requests\<close>

definition find_request :: "str \<Rightarrow> int \<Rightarrow> registry \<Rightarrow> AccessRequest option" where
  "find_request code user reg =
     fetchone (\<lambda>r. req_code r = code \<and> req_user_id r = user) (access_requests reg)"

text \<open>\<open>INSERT OR IGNORE\<close>, then the select that reads the stored row back.\<close>

definition create_access_request ::
  "str \<Rightarrow> int \<Rightarrow> timestamp \<Rightarrow> registry \<Rightarrow> AccessRequest option \<times> registry" where
  "create_access_request code user now reg =
     (let reg1 = (if find_request code user reg \<noteq> None then reg
        else reg\<lparr>requests_seq := requests_seq reg + 1,
          access_requests := access_requests reg @ [\<lparr>req_id = requests_seq reg + 1, req_code = code,
            req_user_id = user, req_status = PENDING, req_created_at = now\<rparr>]\<rparr>)
      in (find_request code user reg1, reg1))"

definition get_access_request :: "int \<Rightarrow> registry \<Rightarrow> (registry_exn, AccessRequest) result" where
  "get_access_request i reg = (case fetchone (\<lambda>r. req_id r = i) (access_requests reg) of
     None \<Rightarrow> Inl (AccessRequestNotFoundError i) | Some r \<Rightarrow> Inr r)"

definition list_all_access_requests :: "registry \<Rightarrow> AccessRequest list" where
  "list_all_access_requests reg = rev (sort_key req_id (access_requests reg))"

definition list_access_requests_for_user :: "int \<Rightarrow> registry \<Rightarrow> AccessRequest list" where
  "list_access_requests_for_user user reg =
     rev (sort_key req_id (filter (\<lambda>r. req_user_id r = user) (access_requests reg)))"

definition list_access_requests_for_owner :: "int \<Rightarrow> registry \<Rightarrow> AccessRequest list" where
  "list_access_requests_for_owner owner reg =
     rev (sort_key req_id (map fst (filter (\<lambda>(r, m). mcode m = req_code r \<and> owner_user_id m = Some owner)
       (List.product (access_requests reg) (mounts reg)))))"

definition resolve_access_request ::
  "int \<Rightarrow> AccessRequestStatus \<Rightarrow> registry \<Rightarrow> (registry_exn, registry) result" where
  "resolve_access_request i st reg =
     (if rowcount (\<lambda>r. req_id r = i) (access_requests reg) = 0 then Inl (AccessRequestNotFoundError i)
      else Inr (reg\<lparr>access_requests :=
        update_where (\<lambda>r. req_id r = i) (\<lambda>r. r\<lparr>req_status := st\<rparr>) (access_requests reg)\<rparr>))"

section \<open>Lemmas\<close>

named_theorems reg_simps \<open>lookup of a mount after an operation\<close>

lemma find_mount_code: "find_mount c reg = Some m \<Longrightarrow> mcode m = c \<and> m \<in> set (mounts reg)"
  unfolding find_mount_def by (auto dest: fetchone_Some_mem)

lemma find_mount_update:
  assumes "\<And>m. mcode (f m) = mcode m"
  shows "find_mount c (reg\<lparr>mounts := update_where (\<lambda>m. mcode m = code) f (mounts reg)\<rparr>) =
    (if c = code then map_option f (find_mount c reg) else find_mount c reg)"
proof -
  have "find_mount c (reg\<lparr>mounts := update_where (\<lambda>m. mcode m = code) f (mounts reg)\<rparr>) =
      map_option (\<lambda>m. if mcode m = code then f m else m) (find_mount c reg)"
    using assms by (simp add: find_mount_def fetchone_update_where)
  then show ?thesis
    using find_mount_code [of c reg] by (cases "find_mount c reg") auto
qed

lemma find_mount_set_status [reg_simps]:
  "find_mount c (set_status code st reg) =
   (if c = code then map_option (\<lambda>m. m\<lparr>status := st\<rparr>) (find_mount c reg) else find_mount c reg)"
  unfolding set_status_def by (rule find_mount_update) simp

lemma find_mount_None: "find_mount c reg = None \<longleftrightarrow> c \<notin> mcode ` set (mounts reg)"
  by (auto simp: find_mount_def fetchone_None)

lemma find_mount_live [reg_simps]:
  "find_mount c (reg\<lparr>connections := x\<rparr>) = find_mount c reg"
  "find_mount c (reg\<lparr>identity_secrets := y\<rparr>) = find_mount c reg"
  "find_mount c (reg\<lparr>mount_policy := p\<rparr>) = find_mount c reg"
  "find_mount c (reg\<lparr>access_requests := a\<rparr>) = find_mount c reg"
  "find_mount c (reg\<lparr>requests_seq := n\<rparr>) = find_mount c reg"
  "find_mount c (forget_live code reg) = find_mount c reg"
  by (simp_all add: find_mount_def forget_live_def)

lemma set_status_frame [reg_simps]:
  "connections (set_status code st reg) = connections reg"
  "identity_secrets (set_status code st reg) = identity_secrets reg"
  "mount_policy (set_status code st reg) = mount_policy reg"
  by (simp_all add: set_status_def)

lemma find_mount_delete:
  "find_mount c (reg\<lparr>mounts := delete_where (\<lambda>m. mcode m = code) (mounts reg)\<rparr>) =
   (if c = code then None else find_mount c reg)"
  by (auto simp: find_mount_def fetchone_None table_simps fetchone_delete_where_other)

lemma find_mount_insert:
  "find_mount c (reg\<lparr>mounts := insert_or_replace mcode row (mounts reg)\<rparr>) =
   (if c = mcode row then Some row else find_mount c reg)"
  by (simp add: find_mount_def fetchone_insert_or_replace_same fetchone_insert_or_replace_other)

lemma rowcount_mount: "rowcount (\<lambda>m. mcode m = code) (mounts reg) = 0 \<longleftrightarrow> find_mount code reg = None"
  by (simp add: rowcount_0 find_mount_def fetchone_None)

lemma map_of_delete: "map_of (AList.delete k xs) k' = (if k' = k then None else map_of xs k')"
  by (simp add: delete_conv')

lemma map_of_update: "map_of (AList.update k v xs) k' = (if k' = k then Some v else map_of xs k')"
  by (simp add: update_conv')

subsection \<open>The contract of a mount registry\<close>

text \<open>What the proxy and the agent endpoint rely on. Both registries of the source keep it.\<close>

locale mount_service =
  fixes reg_register :: "str \<Rightarrow> conn_ref \<Rightarrow> str \<Rightarrow> timestamp \<Rightarrow> timestamp option \<Rightarrow> 's \<Rightarrow> (registry_exn, 's) result"
    and reg_deregister :: "str \<Rightarrow> 's \<Rightarrow> (registry_exn, 's) result"
    and reg_mark_offline :: "str \<Rightarrow> 's \<Rightarrow> (registry_exn, 's) result"
    and reg_get :: "(conn_ref \<Rightarrow> bool) \<Rightarrow> str \<Rightarrow> 's \<Rightarrow> (registry_exn, conn_ref) result"
  assumes get_registered: "reg_register c k ip t e s = Inr s' \<Longrightarrow> \<not> dead k \<Longrightarrow> reg_get dead c s' = Inr k"
    and get_dead: "reg_register c k ip t e s = Inr s' \<Longrightarrow> dead k \<Longrightarrow> reg_get dead c s' = Inl (MountOfflineError c)"
    and register_other: "reg_register c k ip t e s = Inr s' \<Longrightarrow> c' \<noteq> c \<Longrightarrow> reg_get dead c' s' = reg_get dead c' s"
    and register_empty: "(\<exists>s'. reg_register c k ip t e s = Inr s') \<longleftrightarrow> c \<noteq> []"
    and get_deregistered: "reg_deregister c s = Inr s' \<Longrightarrow> reg_get dead c s' = Inl (MountNotFoundError c)"
    and deregister_other: "reg_deregister c s = Inr s' \<Longrightarrow> c' \<noteq> c \<Longrightarrow> reg_get dead c' s' = reg_get dead c' s"
    and deregister_missing: "reg_get dead c s = Inl (MountNotFoundError c) \<Longrightarrow> reg_deregister c s = Inl (MountNotFoundError c)"
    and get_offline: "reg_get dead c s = Inr k \<Longrightarrow> reg_mark_offline c s = Inr s' \<Longrightarrow>
      reg_get dead c s' = Inl (MountOfflineError c)"
    and offline_live: "reg_get dead c s = Inr k \<Longrightarrow> \<exists>s'. reg_mark_offline c s = Inr s'"
    and offline_other: "reg_mark_offline c s = Inr s' \<Longrightarrow> c' \<noteq> c \<Longrightarrow> reg_get dead c' s' = reg_get dead c' s"
begin

definition run_op :: "str \<times> nat \<times> conn_ref \<times> str \<times> timestamp \<times> timestamp option \<Rightarrow> 's \<Rightarrow> 's" where
  "run_op op s = (case op of (c, kind, k, ip, t, e) \<Rightarrow>
     or_keep (if kind = 0 then reg_register c k ip t e s
       else if kind = 1 then reg_deregister c s else reg_mark_offline c s) s)"

lemma run_op_other: "fst op \<noteq> c \<Longrightarrow> reg_get dead c (run_op op s) = reg_get dead c s"
  unfolding run_op_def or_keep_def
  by (auto split: prod.splits sum.splits if_splits
      dest: register_other [of _ _ _ _ _ _ _ c] deregister_other [of _ _ _ c] offline_other [of _ _ _ c])

lemma isolation: "\<forall>op \<in> set ops. fst op \<noteq> c \<Longrightarrow> reg_get dead c (fold run_op ops s) = reg_get dead c s"
  by (induction ops arbitrary: s) (auto simp: run_op_other)

lemma lifecycle:
  assumes "c \<noteq> []" and "\<not> dead k" and "\<forall>op \<in> set ops. fst op \<noteq> c"
  shows "\<exists>s1 s2. reg_register c k ip t e s = Inr s1 \<and> reg_get dead c (fold run_op ops s1) = Inr k \<and>
    reg_mark_offline c (fold run_op ops s1) = Inr s2 \<and> reg_get dead c s2 = Inl (MountOfflineError c)"
proof -
  obtain s1 where s1: "reg_register c k ip t e s = Inr s1" using register_empty assms(1) by blast
  then have g: "reg_get dead c (fold run_op ops s1) = Inr k"
    using isolation [where dead = dead, OF assms(3)] get_registered [OF s1, where dead = dead] assms(2)
    by simp
  then obtain s2 where "reg_mark_offline c (fold run_op ops s1) = Inr s2" using offline_live by blast
  with s1 g get_offline [OF g this] show ?thesis by blast
qed

end

interpretation mem: mount_service mem_register mem_deregister mem_mark_offline mem_get_connection
  by unfold_locales
    (auto simp: mem_register_def mem_deregister_def mem_mark_offline_def mem_get_connection_def
      map_of_update map_of_delete split: if_splits option.splits)

lemma get_connection_cong:
  "find_mount c reg' = find_mount c reg \<Longrightarrow> map_of (connections reg') c = map_of (connections reg) c \<Longrightarrow>
   get_connection dead c reg' = get_connection dead c reg"
  unfolding get_connection_def by metis

lemma register_frame:
  assumes "register c k ip t e reg = Inr reg'"
  shows "find_mount c' reg' = (if c' = c then Some \<lparr>mcode = c, status = ONLINE, agent_ip = ip,
      created_at = t, expires_at = e, ttl_warned = False, owner_user_id = None,
      access_mode = mode_default reg, has_password = False\<rparr> else find_mount c' reg)"
    and "map_of (connections reg') c' = (if c' = c \<and> k \<noteq> None then k else map_of (connections reg) c')"
    and "c \<noteq> []" and "mount_policy reg' = mount_policy reg"
  using assms by (auto simp: register_def Let_def reg_simps find_mount_insert map_of_update
      split: if_splits option.splits)

lemma deregister_frame:
  assumes "deregister c reg = Inr reg'"
  shows "find_mount c' reg' = (if c' = c then None else find_mount c' reg)"
    and "map_of (connections reg') c' = (if c' = c then None else map_of (connections reg) c')"
  using assms by (auto simp: deregister_def reg_simps find_mount_delete forget_live_def map_of_delete
      split: if_splits)

lemma mark_offline_frame:
  assumes "mark_offline c reg = Inr reg'"
  shows "c' \<noteq> c \<Longrightarrow> find_mount c' reg' = find_mount c' reg"
    and "c' \<noteq> c \<Longrightarrow> map_of (connections reg') c' = map_of (connections reg) c'"
    and "find_mount c reg' = map_option
      (\<lambda>m. if status m = ONLINE then m\<lparr>status := OFFLINE\<rparr> else m) (find_mount c reg)"
proof -
  obtain m where "find_mount c reg = Some m"
    using assms by (auto simp: mark_offline_def split: option.splits)
  with assms show "c' \<noteq> c \<Longrightarrow> find_mount c' reg' = find_mount c' reg"
    "c' \<noteq> c \<Longrightarrow> map_of (connections reg') c' = map_of (connections reg) c'"
    "find_mount c reg' = map_option
      (\<lambda>m. if status m = ONLINE then m\<lparr>status := OFFLINE\<rparr> else m) (find_mount c reg)"
    by (auto simp: mark_offline_def Let_def reg_simps map_of_delete split: if_splits)
qed

interpretation sql: mount_service "\<lambda>c k. register c (Some k)" deregister mark_offline get_connection
proof unfold_locales
  fix c c' k ip t e dead and s s' :: registry
  show "register c (Some k) ip t e s = Inr s' \<Longrightarrow> \<not> dead k \<Longrightarrow> get_connection dead c s' = Inr k"
    "register c (Some k) ip t e s = Inr s' \<Longrightarrow> dead k \<Longrightarrow> get_connection dead c s' = Inl (MountOfflineError c)"
    by (simp_all add: get_connection_def register_frame)
  show "register c (Some k) ip t e s = Inr s' \<Longrightarrow> c' \<noteq> c \<Longrightarrow> get_connection dead c' s' = get_connection dead c' s"
    by (rule get_connection_cong) (simp_all add: register_frame)
  show "(\<exists>s'. register c (Some k) ip t e s = Inr s') \<longleftrightarrow> c \<noteq> []"
    by (auto simp: register_def Let_def)
  show "deregister c s = Inr s' \<Longrightarrow> get_connection dead c s' = Inl (MountNotFoundError c)"
    by (simp add: get_connection_def deregister_frame)
  show "deregister c s = Inr s' \<Longrightarrow> c' \<noteq> c \<Longrightarrow> get_connection dead c' s' = get_connection dead c' s"
    by (rule get_connection_cong) (simp_all add: deregister_frame)
  show "get_connection dead c s = Inl (MountNotFoundError c) \<Longrightarrow> deregister c s = Inl (MountNotFoundError c)"
    by (auto simp: get_connection_def deregister_def rowcount_mount split: option.splits if_splits)
  show "mark_offline c s = Inr s' \<Longrightarrow> c' \<noteq> c \<Longrightarrow> get_connection dead c' s' = get_connection dead c' s"
    by (rule get_connection_cong) (simp_all add: mark_offline_frame)
  assume g: "get_connection dead c s = Inr k"
  then obtain m where m: "find_mount c s = Some m" "status m = ONLINE"
    by (cases "find_mount c s"; cases "status (the (find_mount c s))")
      (auto simp: get_connection_def)
  then show "\<exists>s'. mark_offline c s = Inr s'" by (simp add: mark_offline_def Let_def)
  show "mark_offline c s = Inr s' \<Longrightarrow> get_connection dead c s' = Inl (MountOfflineError c)"
    using m by (simp add: get_connection_def mark_offline_frame)
qed

subsection \<open>The invariant of the SQLite registry\<close>

definition live_ok :: "registry \<Rightarrow> bool" where
  "live_ok reg \<longleftrightarrow> (\<forall>c k. map_of (connections reg) c = Some k \<longrightarrow>
     (\<exists>m. find_mount c reg = Some m \<and> status m = ONLINE))"

definition registry_ok :: "registry \<Rightarrow> bool" where
  "registry_ok reg \<longleftrightarrow> distinct (map mcode (mounts reg)) \<and> [] \<notin> mcode ` set (mounts reg) \<and>
     distinct (map policy_key (mount_policy reg)) \<and>
     distinct (map req_id (access_requests reg)) \<and>
     distinct (map (\<lambda>r. (req_code r, req_user_id r)) (access_requests reg)) \<and>
     (\<forall>r \<in> set (access_requests reg). req_id r \<le> requests_seq reg) \<and> live_ok reg"

datatype registry_op =
    SetIdentitySecret str str
  | Register str "conn_ref option" str timestamp "timestamp option"
  | Deregister str
  | MarkOffline str
  | Expire str
  | MarkTtlWarned str
  | TryReclaim str conn_ref str timestamp
  | TryReclaimAsOwner str conn_ref int timestamp
  | DeleteExpiredBefore timestamp
  | SetOwnerPolicy str "int option" AccessMode bool "PolicyEntry list"
  | AddPolicyEntry str SubjectType int Role
  | CreateAccessRequest str int timestamp
  | ResolveAccessRequest int AccessRequestStatus

fun registry_result :: "registry_op \<Rightarrow> registry \<Rightarrow> (registry_exn, registry) result" where
  "registry_result (SetIdentitySecret c sec) reg = set_identity_secret c sec reg"
| "registry_result (Register c k ip t e) reg = register c k ip t e reg"
| "registry_result (Deregister c) reg = deregister c reg"
| "registry_result (MarkOffline c) reg = mark_offline c reg"
| "registry_result (Expire c) reg = expire c reg"
| "registry_result (MarkTtlWarned c) reg = mark_ttl_warned c reg"
| "registry_result (TryReclaim c k ip now) reg = Inr (snd (try_reclaim c k ip now reg))"
| "registry_result (TryReclaimAsOwner c k ow now) reg = Inr (snd (try_reclaim_as_owner c k ow now reg))"
| "registry_result (DeleteExpiredBefore t) reg = Inr (delete_expired_before t reg)"
| "registry_result (SetOwnerPolicy c ow md pw es) reg = set_owner_policy c ow md pw es reg"
| "registry_result (AddPolicyEntry c st i rl) reg = add_policy_entry c st i rl reg"
| "registry_result (CreateAccessRequest c u now) reg = Inr (snd (create_access_request c u now reg))"
| "registry_result (ResolveAccessRequest i st) reg = resolve_access_request i st reg"

definition registry_step :: "registry_op \<Rightarrow> registry \<Rightarrow> registry" where
  "registry_step op reg = or_keep (registry_result op reg) reg"

lemma fold_put_entry_distinct:
  "distinct (map policy_key rows) \<Longrightarrow> distinct (map policy_key (fold (put_entry code) es rows))"
  by (induction es arbitrary: rows) (auto simp: put_entry_def intro: key_intros)

lemma registry_ok_mounts:
  assumes "registry_ok reg" and "map mcode (mounts reg') = map mcode (mounts reg)"
    and "mount_policy reg' = mount_policy reg" "access_requests reg' = access_requests reg"
    and "requests_seq reg' = requests_seq reg" and "live_ok reg'"
  shows "registry_ok reg'"
proof -
  have "mcode ` set (mounts reg') = mcode ` set (mounts reg)"
    using assms(2) by (metis set_map)
  with assms show ?thesis by (simp add: registry_ok_def)
qed

lemma map_mcode_set_status [reg_simps]: "map mcode (mounts (set_status c st reg)) = map mcode (mounts reg)"
  by (simp add: set_status_def map_key_update_where)

lemma live_okI:
  assumes "live_ok reg"
    and "\<And>c' k. map_of (connections reg') c' = Some k \<Longrightarrow> c' \<noteq> c \<Longrightarrow>
      map_of (connections reg) c' = Some k \<and> find_mount c' reg' = find_mount c' reg"
    and "\<And>k. map_of (connections reg') c = Some k \<Longrightarrow>
      \<exists>m. find_mount c reg' = Some m \<and> status m = ONLINE"
  shows "live_ok reg'"
  unfolding live_ok_def
proof (intro allI impI)
  fix c' k
  assume "map_of (connections reg') c' = Some k"
  with assms show "\<exists>m. find_mount c' reg' = Some m \<and> status m = ONLINE"
    by (cases "c' = c") (auto simp: live_ok_def)
qed

lemma live_ok_kept:
  assumes "live_ok reg" and "connections reg' = connections reg"
    and "\<And>c m. find_mount c reg = Some m \<Longrightarrow> status m = ONLINE \<Longrightarrow>
      \<exists>m'. find_mount c reg' = Some m' \<and> status m' = ONLINE"
  shows "live_ok reg'"
  using assms unfolding live_ok_def by metis

lemma register_ok:
  assumes "registry_ok reg" and "register c k ip t e reg = Inr reg'"
  shows "registry_ok reg'"
proof -
  note f = register_frame [OF assms(2)]
  have "live_ok reg'"
    by (rule live_okI [of reg _ c]) (use assms(1) f in \<open>auto simp: registry_ok_def\<close>)
  then show ?thesis
    using assms by (auto simp: registry_ok_def register_def Let_def table_simps
        split: if_splits option.splits intro: key_intros)
qed

lemma deregister_ok:
  assumes "registry_ok reg" and "deregister c reg = Inr reg'"
  shows "registry_ok reg'"
proof -
  note f = deregister_frame [OF assms(2)]
  have "live_ok reg'"
    by (rule live_okI [of reg _ c]) (use assms(1) f in \<open>auto simp: registry_ok_def\<close>)
  then show ?thesis
    using assms by (auto simp: registry_ok_def deregister_def forget_live_def table_simps
        split: if_splits intro: key_intros)
qed

lemma mark_offline_ok:
  assumes "registry_ok reg" and "mark_offline c reg = Inr reg'"
  shows "registry_ok reg'"
proof -
  note f = mark_offline_frame [OF assms(2)]
  obtain m where m: "find_mount c reg = Some m"
    using assms(2) by (auto simp: mark_offline_def split: option.splits)
  have "map_of (connections reg') c = (if status m = ONLINE then None else map_of (connections reg) c)"
    using assms(2) m by (auto simp: mark_offline_def Let_def map_of_delete reg_simps)
  note conn = this
  have lo: "live_ok reg" using assms(1) by (simp add: registry_ok_def)
  have "live_ok reg'"
  proof (rule live_okI [OF lo, of _ c])
    fix k
    assume k: "map_of (connections reg') c = Some k"
    then have "status m \<noteq> ONLINE" "map_of (connections reg) c = Some k"
      using conn by (auto split: if_splits)
    then show "\<exists>m. find_mount c reg' = Some m \<and> status m = ONLINE"
      using lo m by (force simp: live_ok_def)
  qed (use f in auto)
  then show ?thesis
    using assms m by (intro registry_ok_mounts [OF assms(1)])
      (auto simp: mark_offline_def Let_def reg_simps set_status_def table_simps)
qed

lemma expire_ok:
  assumes "registry_ok reg" and "expire c reg = Inr reg'"
  shows "registry_ok reg'"
proof -
  have r: "reg' = forget_live c (set_status c EXPIRED reg)"
    using assms(2) by (auto simp: expire_def split: option.splits)
  have "live_ok reg'"
    by (rule live_okI [of reg _ c]) (use assms(1) in \<open>auto simp: r registry_ok_def forget_live_def
        map_of_delete reg_simps\<close>)
  then show ?thesis
    by (intro registry_ok_mounts [OF assms(1)]) (auto simp: r forget_live_def set_status_def table_simps)
qed

lemma take_over_ok:
  assumes "registry_ok reg" and "find_mount c reg \<noteq> None"
  shows "registry_ok (take_over c k reg)"
proof -
  have "live_ok (take_over c k reg)"
    by (rule live_okI [of reg _ c])
      (use assms in \<open>auto simp: registry_ok_def take_over_def map_of_update reg_simps\<close>)
  then show ?thesis
    by (intro registry_ok_mounts [OF assms(1)]) (auto simp: take_over_def set_status_def table_simps)
qed

lemma delete_expired_ok:
  assumes "registry_ok reg"
  shows "registry_ok (delete_expired_before t reg)"
proof -
  have "find_mount c (delete_expired_before t reg) = Some m"
    if "find_mount c reg = Some m" "status m = ONLINE" for c m
  proof -
    have "m \<in> set (mounts (delete_expired_before t reg))" "mcode m = c"
      using that find_mount_code [of c reg] by (auto simp: delete_expired_before_def table_simps expired_before_def)
    moreover have "distinct (map mcode (mounts (delete_expired_before t reg)))"
      using assms by (auto simp: registry_ok_def delete_expired_before_def intro: key_intros)
    ultimately show ?thesis unfolding find_mount_def by (simp add: fetchone_key_iff)
  qed
  note kept = this
  have "live_ok (delete_expired_before t reg)"
  proof (rule live_ok_kept [of reg])
    show "live_ok reg" using assms by (simp add: registry_ok_def)
    show "connections (delete_expired_before t reg) = connections reg"
      by (simp add: delete_expired_before_def)
  qed (blast dest: kept)
  with assms show ?thesis
    by (auto simp: registry_ok_def delete_expired_before_def table_simps intro: key_intros)
qed

lemma set_owner_policy_ok:
  assumes "registry_ok reg" and "set_owner_policy c ow md pw es reg = Inr reg'"
  shows "registry_ok reg'"
proof -
  let ?f = "\<lambda>m. m\<lparr>owner_user_id := ow, access_mode := md, has_password := pw\<rparr>"
  have r: "reg' = reg\<lparr>mounts := update_where (\<lambda>m. mcode m = c) ?f (mounts reg),
      mount_policy := fold (put_entry c) es (delete_where (\<lambda>r. pcode r = c) (mount_policy reg))\<rparr>"
    using assms(2) by (auto simp: set_owner_policy_def split: if_splits)
  have "find_mount x reg' = (if x = c then map_option ?f (find_mount x reg) else find_mount x reg)" for x
    using find_mount_update [of ?f x c reg] by (simp add: r find_mount_def)
  note upd = this
  have lo: "live_ok reg" using assms(1) by (simp add: registry_ok_def)
  have "live_ok reg'"
  proof (rule live_ok_kept [OF lo])
    fix x m
    assume "find_mount x reg = Some m" "status m = ONLINE"
    then show "\<exists>m'. find_mount x reg' = Some m' \<and> status m' = ONLINE"
      by (cases "x = c") (auto simp: upd)
  qed (simp add: r)
  moreover have "map mcode (mounts reg') = map mcode (mounts reg)"
    by (simp add: r map_key_update_where)
  moreover from this have "mcode ` set (mounts reg') = mcode ` set (mounts reg)" by (metis set_map)
  moreover have "distinct (map policy_key (mount_policy reg'))"
    using assms(1) by (auto simp: r registry_ok_def intro: fold_put_entry_distinct key_intros)
  ultimately show ?thesis using assms(1) by (simp add: registry_ok_def r)
qed

lemma create_access_request_ok:
  assumes "registry_ok reg"
  shows "registry_ok (snd (create_access_request c u now reg))"
proof -
  have "requests_seq reg + 1 \<notin> req_id ` set (access_requests reg)"
    using assms by (force simp: registry_ok_def)
  moreover have "req_id r \<le> requests_seq reg + 1" if "r \<in> set (access_requests reg)" for r
    using assms that by (force simp: registry_ok_def)
  ultimately show ?thesis
    using assms by (auto simp: create_access_request_def Let_def registry_ok_def live_ok_def
        find_request_def fetchone_None find_mount_def)
qed

lemma registry_misc_ok:
  assumes "registry_ok reg"
  shows "set_identity_secret c sec reg = Inr reg' \<Longrightarrow> registry_ok reg'"
    and "mark_ttl_warned c reg = Inr reg' \<Longrightarrow> registry_ok reg'"
    and "add_policy_entry c st i rl reg = Inr reg' \<Longrightarrow> registry_ok reg'"
    and "resolve_access_request i ast reg = Inr reg' \<Longrightarrow> registry_ok reg'"
proof -
  show "set_identity_secret c sec reg = Inr reg' \<Longrightarrow> registry_ok reg'"
    using assms by (auto simp: set_identity_secret_def registry_ok_def live_ok_def reg_simps split: if_splits)
  show "add_policy_entry c st i rl reg = Inr reg' \<Longrightarrow> registry_ok reg'"
    using assms by (auto simp: add_policy_entry_def registry_ok_def live_ok_def reg_simps put_entry_def
        split: if_splits intro: key_intros)
  show "resolve_access_request i ast reg = Inr reg' \<Longrightarrow> registry_ok reg'"
    using assms by (auto simp: resolve_access_request_def registry_ok_def live_ok_def reg_simps
        table_simps split: if_splits)
  show "registry_ok reg'" if w: "mark_ttl_warned c reg = Inr reg'"
  proof (rule registry_ok_mounts [OF assms])
    have r: "reg' = reg\<lparr>mounts := update_where (\<lambda>m. mcode m = c) (\<lambda>m. m\<lparr>ttl_warned := True\<rparr>) (mounts reg)\<rparr>"
      using w by (auto simp: mark_ttl_warned_def split: if_splits)
    then have "find_mount x reg' = (if x = c then map_option (\<lambda>m. m\<lparr>ttl_warned := True\<rparr>) (find_mount x reg)
        else find_mount x reg)" for x
      by (simp add: find_mount_update)
    note upd = this
    have lo: "live_ok reg" using assms by (simp add: registry_ok_def)
    show "live_ok reg'"
    proof (rule live_ok_kept [OF lo])
      fix x m
      assume "find_mount x reg = Some m" "status m = ONLINE"
      then show "\<exists>m'. find_mount x reg' = Some m' \<and> status m' = ONLINE"
      by (cases "x = c") (auto simp: upd)
    qed (simp add: r)
  qed (use w in \<open>auto simp: mark_ttl_warned_def table_simps split: if_splits\<close>)
qed

lemma try_reclaim_ok: "registry_ok reg \<Longrightarrow> registry_ok (snd (try_reclaim c k ip now reg))"
  by (auto simp: try_reclaim_def intro: take_over_ok split: option.splits)

lemma try_reclaim_as_owner_ok:
  "registry_ok reg \<Longrightarrow> registry_ok (snd (try_reclaim_as_owner c k ow now reg))"
  by (auto simp: try_reclaim_as_owner_def intro: take_over_ok split: option.splits)

lemmas registry_ops_ok = register_ok deregister_ok mark_offline_ok expire_ok delete_expired_ok
  set_owner_policy_ok create_access_request_ok registry_misc_ok try_reclaim_ok try_reclaim_as_owner_ok

lemma registry_result_ok: "registry_ok reg \<Longrightarrow> registry_result op reg = Inr reg' \<Longrightarrow> registry_ok reg'"
  by (cases op) (auto intro: registry_ops_ok)

interpretation registry: inv_machine registry_step registry_ok
proof
  fix reg op
  assume "registry_ok reg"
  then show "registry_ok (registry_step op reg)"
    using registry_result_ok [of reg op] by (auto simp: registry_step_def or_keep_def split: sum.splits)
qed

lemma fresh_registry_ok: "registry_ok fresh_registry"
  by (simp add: registry_ok_def live_ok_def fresh_registry_def)

subsection \<open>Policies\<close>

abbreviation subject_of :: "PolicyEntry \<Rightarrow> SubjectType \<times> int" where
  "subject_of e \<equiv> (subject_type e, subject_id e)"

definition entries_of :: "str \<Rightarrow> policy_row list \<Rightarrow> PolicyEntry list" where
  "entries_of code rows = map pentry (filter (\<lambda>r. pcode r = code) rows)"

lemma entries_of_put:
  "entries_of code (put_entry c e rows) =
   (if code = c then insert_or_replace subject_of e (entries_of code rows) else entries_of code rows)"
  by (induction rows)
    (auto simp: entries_of_def put_entry_def insert_or_replace_def delete_where_def policy_key_def)

lemma entries_of_fold_put:
  "entries_of code (fold (put_entry c) es rows) =
   (if code = c then fold (insert_or_replace subject_of) es (entries_of code rows)
    else entries_of code rows)"
  by (induction es arbitrary: rows) (auto simp: entries_of_put)

lemma entries_of_delete:
  "entries_of code (delete_where (\<lambda>r. pcode r = c) rows) = (if code = c then [] else entries_of code rows)"
  by (induction rows) (auto simp: entries_of_def delete_where_def)

lemma fold_insert_distinct:
  "distinct (map key (acc @ es)) \<Longrightarrow> fold (insert_or_replace key) es acc = acc @ es"
proof (induction es arbitrary: acc)
  case (Cons e es)
  have "key e \<notin> key ` set acc" using Cons.prems by auto
  then have "delete_where (\<lambda>x. key x = key e) acc = acc"
    by (intro delete_where_none) (auto simp: image_iff)
  with Cons show ?case by (simp add: insert_or_replace_def)
qed simp

lemma get_policy_entries:
  "get_policy code reg = (case find_mount code reg of
     None \<Rightarrow> Inl (MountNotFoundError code)
   | Some m \<Rightarrow> Inr \<lparr>policy_code = code, policy_owner = owner_user_id m, policy_mode = access_mode m,
       policy_has_password = has_password m, policy_entries = entries_of code (mount_policy reg)\<rparr>)"
  unfolding get_policy_def entries_of_def ..

lemma set_owner_policy_get:
  assumes "set_owner_policy c ow md pw es reg = Inr reg'"
  shows "get_policy c reg' = Inr \<lparr>policy_code = c, policy_owner = ow, policy_mode = md,
      policy_has_password = pw, policy_entries = fold (insert_or_replace subject_of) es []\<rparr>"
    and "c' \<noteq> c \<Longrightarrow> get_policy c' reg' = get_policy c' reg"
    and "connections reg' = connections reg"
    and "find_mount c' reg' = (if c' = c then map_option
      (\<lambda>m. m\<lparr>owner_user_id := ow, access_mode := md, has_password := pw\<rparr>) (find_mount c' reg)
      else find_mount c' reg)"
proof -
  let ?f = "\<lambda>m. m\<lparr>owner_user_id := ow, access_mode := md, has_password := pw\<rparr>"
  have r: "find_mount c reg \<noteq> None" "reg' = reg\<lparr>mounts := update_where (\<lambda>m. mcode m = c) ?f (mounts reg),
      mount_policy := fold (put_entry c) es (delete_where (\<lambda>r. pcode r = c) (mount_policy reg))\<rparr>"
    using assms by (auto simp: set_owner_policy_def rowcount_mount split: if_splits)
  show f: "find_mount c' reg' = (if c' = c then map_option ?f (find_mount c' reg) else find_mount c' reg)" for c'
    using find_mount_update [of ?f c' c reg] by (simp add: r(2) find_mount_def)
  show "get_policy c reg' = Inr \<lparr>policy_code = c, policy_owner = ow, policy_mode = md,
      policy_has_password = pw, policy_entries = fold (insert_or_replace subject_of) es []\<rparr>"
    using r(1) by (auto simp: get_policy_entries f) (simp add: r(2) entries_of_fold_put entries_of_delete)
  show "get_policy c' reg' = get_policy c' reg" if "c' \<noteq> c"
  proof -
    have "entries_of c' (mount_policy reg') = entries_of c' (mount_policy reg)"
      using that by (simp add: r(2) entries_of_fold_put entries_of_delete)
    with that show ?thesis by (simp add: get_policy_entries f split: option.split)
  qed
  show "connections reg' = connections reg" by (simp add: r(2))
qed

subsection \<open>Isolation of live mounts\<close>

fun op_code :: "registry_op \<Rightarrow> str option" where
  "op_code (SetIdentitySecret c s) = Some c"
| "op_code (Register c k ip t e) = Some c"
| "op_code (Deregister c) = Some c"
| "op_code (MarkOffline c) = Some c"
| "op_code (Expire c) = Some c"
| "op_code (MarkTtlWarned c) = Some c"
| "op_code (TryReclaim c k ip now) = Some c"
| "op_code (TryReclaimAsOwner c k ow now) = Some c"
| "op_code (SetOwnerPolicy c ow md pw es) = Some c"
| "op_code (AddPolicyEntry c st i rl) = Some c"
| "op_code (DeleteExpiredBefore t) = None"
| "op_code (CreateAccessRequest c u now) = None"
| "op_code (ResolveAccessRequest i st) = None"

definition is_live :: "str \<Rightarrow> conn_ref \<Rightarrow> registry \<Rightarrow> bool" where
  "is_live c k reg \<longleftrightarrow> map_of (connections reg) c = Some k \<and>
     (\<exists>m. find_mount c reg = Some m \<and> status m = ONLINE)"

lemma get_connection_live:
  "registry_ok reg \<Longrightarrow> get_connection dead c reg = Inr k \<longleftrightarrow> is_live c k reg \<and> \<not> dead k"
  by (cases "find_mount c reg"; cases "status (the (find_mount c reg))")
    (auto simp: get_connection_def is_live_def split: option.splits)

lemma is_live_cong:
  "map_of (connections reg') c = map_of (connections reg) c \<Longrightarrow>
   find_mount c reg' = find_mount c reg \<Longrightarrow> is_live c k reg' = is_live c k reg"
  by (simp add: is_live_def)

lemma find_mount_delete_expired:
  assumes "registry_ok reg" and "find_mount c reg = Some m" and "status m \<noteq> EXPIRED"
  shows "find_mount c (delete_expired_before t reg) = Some m"
proof -
  have "m \<in> set (mounts (delete_expired_before t reg))" "mcode m = c"
    using assms find_mount_code [of c reg] by (auto simp: delete_expired_before_def table_simps expired_before_def)
  moreover have "distinct (map mcode (mounts (delete_expired_before t reg)))"
    using assms(1) by (auto simp: registry_ok_def delete_expired_before_def intro: key_intros)
  ultimately show ?thesis unfolding find_mount_def by (simp add: fetchone_key_iff)
qed

lemma take_over_other:
  "c' \<noteq> c \<Longrightarrow> find_mount c' (take_over c k reg) = find_mount c' reg \<and>
   map_of (connections (take_over c k reg)) c' = map_of (connections reg) c'"
  by (simp add: take_over_def reg_simps map_of_update)

lemma is_live_step:
  assumes "registry_ok reg" and "is_live c k reg" and "op_code op \<noteq> Some c"
  shows "is_live c k (registry_step op reg)"
proof (cases "registry_result op reg")
  case (Inl e)
  then show ?thesis using assms(2) by (simp add: registry_step_def or_keep_def)
next
  case (Inr reg')
  have "is_live c k reg'"
  proof (cases op)
    case (DeleteExpiredBefore t)
    then show ?thesis using Inr assms(1,2) find_mount_delete_expired [OF assms(1)]
      by (force simp: is_live_def delete_expired_before_def)
  next
    case (Register d k' ip t e)
    then show ?thesis using Inr assms register_frame [of d k' ip t e reg reg']
      by (auto simp: is_live_def)
  next
    case (Deregister d)
    then show ?thesis using Inr assms deregister_frame [of d reg reg'] by (auto simp: is_live_def)
  next
    case (MarkOffline d)
    then show ?thesis using Inr assms mark_offline_frame [of d reg reg'] by (auto simp: is_live_def)
  next
    case (SetOwnerPolicy d ow md pw es)
    then have "set_owner_policy d ow md pw es reg = Inr reg'" using Inr by simp
    from set_owner_policy_get(3,4) [OF this] assms SetOwnerPolicy show ?thesis
      by (auto simp: is_live_def)
  next
    case (TryReclaim d k' ip now)
    then show ?thesis using Inr assms take_over_other [of c d]
      by (auto simp: is_live_def try_reclaim_def split: option.splits if_splits)
  next
    case (TryReclaimAsOwner d k' ow now)
    then show ?thesis using Inr assms take_over_other [of c d]
      by (auto simp: is_live_def try_reclaim_as_owner_def split: option.splits if_splits)
  next
    case (MarkTtlWarned d)
    then show ?thesis using Inr assms
      by (auto simp: is_live_def mark_ttl_warned_def find_mount_update split: if_splits)
  qed (use Inr assms in \<open>auto simp: is_live_def set_identity_secret_def expire_def forget_live_def
      add_policy_entry_def create_access_request_def resolve_access_request_def Let_def reg_simps
      map_of_delete
      split: if_splits option.splits\<close>)
  then show ?thesis by (simp add: registry_step_def or_keep_def Inr)
qed

section \<open>Properties\<close>

text \<open>C23: whatever sequence of registry operations runs on a fresh registry, mount codes stay
  unique and non-empty, a live tunnel is only ever recorded for a mount that is \<open>ONLINE\<close>, a mount
  has at most one policy entry per subject, and a user at most one access request per mount.\<close>

theorem registry_invariant:
  "let reg = fold registry_step ops fresh_registry in
     distinct (map mcode (mounts reg)) \<and> [] \<notin> mcode ` set (mounts reg) \<and>
     (\<forall>c k. map_of (connections reg) c = Some k \<longrightarrow>
        (\<exists>m. find_mount c reg = Some m \<and> status m = ONLINE)) \<and>
     distinct (map policy_key (mount_policy reg)) \<and>
     distinct (map req_id (access_requests reg)) \<and>
     distinct (map (\<lambda>r. (req_code r, req_user_id r)) (access_requests reg))"
  using registry.run_inv [OF fresh_registry_ok, of ops]
  unfolding Let_def registry_ok_def live_ok_def by (elim conjE) (intro conjI; assumption)

theorem registry_invariant_witness:
  "let reg = fold registry_step [Register ''a'' (Some 1) ''ip'' 0 None, MarkOffline ''a'',
       TryReclaim ''a'' 2 ''ip'' 1] fresh_registry in
     map_of (connections reg) ''a'' = Some 2 \<and> (\<exists>m. find_mount ''a'' reg = Some m \<and> status m = ONLINE)"
proof -
  let ?ops = "[Register ''a'' (Some 1) ''ip'' 0 None, MarkOffline ''a'', TryReclaim ''a'' 2 ''ip'' 1]"
  have "map_of (connections (fold registry_step ?ops fresh_registry)) ''a'' = Some 2"
    by (simp add: registry_step_def or_keep_def register_def fresh_registry_def mark_offline_def
        find_mount_def fetchone_def insert_or_replace_def delete_where_def set_status_def
        update_where_def try_reclaim_def expired_at_def take_over_def Let_def)
  with registry_invariant [of ?ops] show ?thesis unfolding Let_def by blast
qed

text \<open>A live mount is isolated: as long as no operation names its code, any sequence of
  registry operations, on other mounts, on access requests or of the retention clean-up, leaves
  the connection that the proxy gets for it unchanged.\<close>

lemma live_mount_isolated:
  assumes "registry_ok reg" and "get_connection dead c reg = Inr k"
    and "\<forall>op \<in> set ops. op_code op \<noteq> Some c"
  shows "get_connection dead c (fold registry_step ops reg) = Inr k"
proof -
  have "is_live c k (fold registry_step ops reg) \<and> registry_ok (fold registry_step ops reg)"
    using assms
  proof (induction ops arbitrary: reg)
    case Nil
    then show ?case by (simp add: get_connection_live)
  next
    case (Cons op ops)
    then have "is_live c k (registry_step op reg)" "registry_ok (registry_step op reg)"
      by (auto simp: get_connection_live intro: is_live_step registry.step_inv)
    with Cons show ?case by (simp add: get_connection_live)
  qed
  with assms(1,2) show ?thesis by (simp add: get_connection_live)
qed

definition demo_registry :: registry where
  "demo_registry = fold registry_step [Register ''a'' (Some 1) ''ip'' 0 (Some 100),
     SetOwnerPolicy ''a'' (Some 5) RESTRICTED False
       [\<lparr>subject_type = USER, subject_id = 1, entry_role = READ\<rparr>]] fresh_registry"

lemma demo_registry_eq:
  "demo_registry = \<lparr>mounts = [\<lparr>mcode = ''a'', status = ONLINE, agent_ip = ''ip'', created_at = 0,
      expires_at = Some 100, ttl_warned = False, owner_user_id = Some 5, access_mode = RESTRICTED,
      has_password = False\<rparr>], mode_default = OPEN_MODE,
    mount_policy = [\<lparr>pcode = ''a'', pentry = \<lparr>subject_type = USER, subject_id = 1, entry_role = READ\<rparr>\<rparr>],
    access_requests = [], requests_seq = 0, connections = [(''a'', 1)], identity_secrets = []\<rparr>"
  by (simp add: demo_registry_def registry_step_def or_keep_def register_def fresh_registry_def
      set_owner_policy_def rowcount_def update_where_def put_entry_def insert_or_replace_def
      delete_where_def Let_def)

lemma demo_registry_ok: "registry_ok demo_registry"
  unfolding demo_registry_def by (rule registry.run_inv [OF fresh_registry_ok])

lemma live_mount_isolated_witness:
  "get_connection (\<lambda>_. False) ''a'' (fold registry_step [Expire ''b'', Register ''b'' (Some 9) ''x'' 0 None,
     DeleteExpiredBefore 10] demo_registry) = Inr 1"
  by (rule live_mount_isolated [OF demo_registry_ok])
    (simp_all add: demo_registry_eq get_connection_def find_mount_def fetchone_def)

text \<open>Both registries keep the same contract. A mount registered under a non-empty code is
  found with its connection; once marked offline the lookup raises \<open>MountOfflineError\<close>; once
  deregistered it raises \<open>MountNotFoundError\<close>.\<close>

lemma registries_lifecycle:
  assumes "c \<noteq> []" and "\<not> dead k"
  shows "(\<exists>s1 s2 s3. mem_register c k ip t e s = Inr s1 \<and> mem_get_connection dead c s1 = Inr k \<and>
      mem_mark_offline c s1 = Inr s2 \<and> mem_get_connection dead c s2 = Inl (MountOfflineError c) \<and>
      mem_deregister c s1 = Inr s3 \<and> mem_get_connection dead c s3 = Inl (MountNotFoundError c)) \<and>
    (\<exists>r1 r2 r3. register c (Some k) ip t e r = Inr r1 \<and> get_connection dead c r1 = Inr k \<and>
      mark_offline c r1 = Inr r2 \<and> get_connection dead c r2 = Inl (MountOfflineError c) \<and>
      deregister c r1 = Inr r3 \<and> get_connection dead c r3 = Inl (MountNotFoundError c))"
proof -
  obtain s1 s2 where s: "mem_register c k ip t e s = Inr s1" "mem_get_connection dead c s1 = Inr k"
    "mem_mark_offline c s1 = Inr s2" "mem_get_connection dead c s2 = Inl (MountOfflineError c)"
    using mem.lifecycle [of c dead k "[]" ip t e s] assms by auto
  obtain r1 r2 where r: "register c (Some k) ip t e r = Inr r1" "get_connection dead c r1 = Inr k"
    "mark_offline c r1 = Inr r2" "get_connection dead c r2 = Inl (MountOfflineError c)"
    using sql.lifecycle [of c dead k "[]" ip t e r] assms by auto
  have "map_of s1 c \<noteq> None" using s(1) by (auto simp: mem_register_def map_of_update split: if_splits)
  then obtain s3 where s3: "mem_deregister c s1 = Inr s3" by (auto simp: mem_deregister_def)
  have "find_mount c r1 \<noteq> None" using register_frame(1) [OF r(1), of c] by simp
  then obtain r3 where r3: "deregister c r1 = Inr r3" by (auto simp: deregister_def rowcount_mount)
  show ?thesis using s r s3 r3 mem.get_deregistered [OF s3] sql.get_deregistered [OF r3] by blast
qed

lemma registries_lifecycle_witness:
  "\<exists>r1 r2 r3. register ''a'' (Some 3) ''ip'' 0 None fresh_registry = Inr r1 \<and>
     get_connection (\<lambda>_. False) ''a'' r1 = Inr 3 \<and>
     mark_offline ''a'' r1 = Inr r2 \<and> get_connection (\<lambda>_. False) ''a'' r2 = Inl (MountOfflineError ''a'') \<and>
     deregister ''a'' r1 = Inr r3 \<and> get_connection (\<lambda>_. False) ''a'' r3 = Inl (MountNotFoundError ''a'')"
  using registries_lifecycle [of "''a''" "\<lambda>_. False" 3 "''ip''" 0 None _ fresh_registry] by simp

text \<open>C32: an agent reclaims a mount exactly when its row is \<open>OFFLINE\<close>, has the agent's IP and is
  not past its expiry. Then the mount is reachable over the new connection, its policy is
  unchanged and the remaining TTL reported is the whole seconds left, never negative; otherwise
  the registry is left as it was.\<close>

theorem reclaim_spec:
  assumes "registry_ok reg"
  shows "case try_reclaim c k ip now reg of
      (None, reg') \<Rightarrow> reg' = reg \<and> (\<forall>m. find_mount c reg = Some m \<longrightarrow>
        status m \<noteq> OFFLINE \<or> agent_ip m \<noteq> ip \<or> (\<exists>t. expires_at m = Some t \<and> t \<le> now))
    | (Some ttl, reg') \<Rightarrow> (\<exists>m. find_mount c reg = Some m \<and> status m = OFFLINE \<and> agent_ip m = ip \<and>
          (case expires_at m of None \<Rightarrow> ttl = 0
           | Some t \<Rightarrow> now < t \<and> 0 \<le> ttl \<and> ttl \<le> t - now \<and> t - now < ttl + 1)) \<and>
        (\<not> dead k \<longrightarrow> get_connection dead c reg' = Inr k) \<and> get_policy c reg' = get_policy c reg \<and>
        registry_ok reg'"
proof (cases "find_mount c reg")
  case None
  then show ?thesis by (simp add: try_reclaim_def)
next
  case (Some m)
  show ?thesis
  proof (cases "status m = OFFLINE \<and> agent_ip m = ip \<and> \<not> expired_at now m")
    case True
    have "registry_ok (take_over c k reg)" using assms Some by (simp add: take_over_ok)
    moreover have "find_mount c (take_over c k reg) = Some (m\<lparr>status := ONLINE\<rparr>)"
      using Some by (simp add: take_over_def reg_simps)
    moreover have "map_of (connections (take_over c k reg)) c = Some k"
      "mount_policy (take_over c k reg) = mount_policy reg"
      by (simp_all add: take_over_def map_of_update reg_simps)
    moreover have "case expires_at m of None \<Rightarrow> remaining_ttl now m = 0
       | Some t \<Rightarrow> now < t \<and> 0 \<le> remaining_ttl now m \<and> remaining_ttl now m \<le> t - now \<and>
           t - now < remaining_ttl now m + 1"
      using True by (auto simp: expired_at_def remaining_ttl_def py_int_def split: option.splits)
    ultimately show ?thesis
      using True Some by (simp add: try_reclaim_def get_policy_entries get_connection_def)
  next
    case False
    then show ?thesis using Some by (auto simp: try_reclaim_def expired_at_def split: option.splits)
  qed
qed

theorem reclaim_spec_witness:
  "\<exists>reg'. try_reclaim ''a'' 7 ''ip'' (139/2) (set_status ''a'' OFFLINE demo_registry\<lparr>connections := []\<rparr>) = (Some 30, reg') \<and>
     get_connection (\<lambda>_. False) ''a'' reg' = Inr 7"
proof -
  let ?r = "set_status ''a'' OFFLINE demo_registry\<lparr>connections := []\<rparr>"
  have "registry_ok ?r"
    using demo_registry_ok by (simp add: registry_ok_def live_ok_def set_status_def demo_registry_eq
        update_where_def)
  moreover obtain reg' where "try_reclaim ''a'' 7 ''ip'' (139/2) ?r = (Some 30, reg')"
    by (simp add: try_reclaim_def find_mount_def fetchone_def set_status_def update_where_def
        demo_registry_eq expired_at_def remaining_ttl_def py_int_def floor_eq_iff)
  ultimately show ?thesis using reclaim_spec [of ?r, where c = "''a''" and k = 7 and ip = "''ip''"
      and now = "139/2" and dead = "\<lambda>_. False"] by auto
qed

text \<open>The policy stored for a mount is the policy read back: the owner, the mode, the password
  flag and, when no subject is listed twice, exactly the entries given in their order. The
  policies of all other mounts are unchanged.\<close>

lemma policy_roundtrip:
  assumes "set_owner_policy c owner mode pw entries reg = Inr reg'"
    and "distinct (map subject_of entries)"
  shows "get_policy c reg' = Inr \<lparr>policy_code = c, policy_owner = owner, policy_mode = mode,
      policy_has_password = pw, policy_entries = entries\<rparr> \<and>
    (\<forall>c'. c' \<noteq> c \<longrightarrow> get_policy c' reg' = get_policy c' reg)"
  using set_owner_policy_get(1,2) [OF assms(1)] fold_insert_distinct [of subject_of "[]" entries] assms(2)
  by simp

lemma policy_roundtrip_witness:
  "\<exists>reg'. set_owner_policy ''a'' None OPEN_MODE True [] demo_registry = Inr reg' \<and>
     get_policy ''a'' reg' = Inr \<lparr>policy_code = ''a'', policy_owner = None, policy_mode = OPEN_MODE,
      policy_has_password = True, policy_entries = []\<rparr>"
proof -
  obtain reg' where "set_owner_policy ''a'' None OPEN_MODE True [] demo_registry = Inr reg'"
    by (simp add: set_owner_policy_def demo_registry_eq rowcount_def)
  with policy_roundtrip [OF this] show ?thesis by auto
qed

text \<open>After a restart no mount is \<open>ONLINE\<close> and none has a tunnel; every mount whose expiry has
  passed is \<open>EXPIRED\<close>; no mount that had not expired is lost, and it keeps its code, IP, expiry,
  owner and policy.\<close>

lemma startup_cleanup_spec:
  "(\<forall>m \<in> set (mounts (create_registry cols now reg)). status m \<noteq> ONLINE \<and>
      (\<forall>t. expires_at m = Some t \<and> t < now \<longrightarrow> status m = EXPIRED)) \<and>
   connections (create_registry cols now reg) = [] \<and>
   (cols = {''owner_user_id'', ''access_mode'', ''has_password''} \<longrightarrow>
    (\<forall>m \<in> set (mounts reg). status m \<noteq> EXPIRED \<and> (\<forall>t. expires_at m = Some t \<longrightarrow> now \<le> t) \<longrightarrow>
      m\<lparr>status := OFFLINE\<rparr> \<in> set (mounts (create_registry cols now reg))))"
proof (intro conjI ballI impI)
  show "connections (create_registry cols now reg) = []"
    by (simp add: create_registry_def startup_cleanup_def Let_def)
next
  fix m
  assume "m \<in> set (mounts (create_registry cols now reg))"
  then show "status m \<noteq> ONLINE" "\<forall>t. expires_at m = Some t \<and> t < now \<longrightarrow> status m = EXPIRED"
    by (auto simp: create_registry_def startup_cleanup_def Let_def table_simps split: if_splits option.splits)
next
  fix m
  assume cols: "cols = {''owner_user_id'', ''access_mode'', ''has_password''}" and m: "m \<in> set (mounts reg)"
    and st: "status m \<noteq> EXPIRED \<and> (\<forall>t. expires_at m = Some t \<longrightarrow> now \<le> t)"
  have mig: "mounts (migrate cols reg) = mounts reg" by (simp add: migrate_def cols)
  have off: "status m = OFFLINE \<or> status m = ONLINE" using st by (cases "status m") auto
  have "m \<in> set (delete_where (expired_before (now - RETENTION_SECONDS)) (mounts reg))"
    using m st by (simp add: table_simps expired_before_def)
  then have "m \<in> set (update_where (\<lambda>m. case expires_at m of None \<Rightarrow> False | Some t \<Rightarrow> t < now)
      (\<lambda>m. m\<lparr>status := EXPIRED\<rparr>) (delete_where (expired_before (now - RETENTION_SECONDS)) (mounts reg)))"
    using st by (force simp: set_update_where split: option.splits)
  then have "(if status m = ONLINE then m\<lparr>status := OFFLINE\<rparr> else m) \<in>
      set (mounts (create_registry cols now reg))"
    unfolding create_registry_def startup_cleanup_def Let_def
    by (simp add: mig set_update_where [of "\<lambda>m. status m = ONLINE"])
  moreover have "m\<lparr>status := OFFLINE\<rparr> = (if status m = ONLINE then m\<lparr>status := OFFLINE\<rparr> else m)"
    using off by (cases m) auto
  ultimately show "m\<lparr>status := OFFLINE\<rparr> \<in> set (mounts (create_registry cols now reg))" by simp
qed

lemma startup_cleanup_spec_witness:
  "mounts (create_registry {} 50 demo_registry) \<noteq> [] \<and>
   status (hd (mounts (create_registry {} 50 demo_registry))) \<noteq> ONLINE"
proof -
  have "mounts (create_registry {} 50 demo_registry) \<noteq> []"
    by (simp add: create_registry_def startup_cleanup_def migrate_def demo_registry_eq delete_where_def
        update_where_def expired_before_def Let_def)
  with startup_cleanup_spec [of "{}" 50 demo_registry] show ?thesis by (meson hd_in_set)
qed

end
