(* ===== verification/Access_Policy.thy ===== *)
theory Access_Policy
  imports Mount_Registry
begin

text \<open>
  Who may reach a mount: the decision of \<open>relay/app/services/access_policy.py\<close>, the admin check of
  \<open>dependencies.py\<close>, and the workflow of \<open>routers/access_requests.py\<close> by which a user asks to be
  put on a mount's allowlist. Resolving groups is the accounts library's operation; its \<open>None\<close>
  (the walk did not return) is carried through and shown never to occur.
\<close>

section \<open>The decision\<close>

record SessionIdentity =
  ident_user_id :: int
  ident_username :: str

record AccessDecision =
  identified :: bool
  decision_username :: "str option"
  decision_role :: "Role option"

datatype access_exn =
    AuthenticationRequiredError str
  | AccessDeniedError str str
  | AccountFailure account_exn

fun ROLE_RANK :: "Role \<Rightarrow> nat" where
  "ROLE_RANK READ = 1"
| "ROLE_RANK RECEIVE = 2"
| "ROLE_RANK WRITE = 3"

text \<open>Python's \<open>max\<close> with a key keeps the first of the largest.\<close>

fun highest_role :: "Role \<Rightarrow> Role list \<Rightarrow> Role" where
  "highest_role best [] = best"
| "highest_role best (r # rs) = highest_role (if ROLE_RANK r > ROLE_RANK best then r else best) rs"

definition entry_matches :: "SessionIdentity \<Rightarrow> int set \<Rightarrow> PolicyEntry \<Rightarrow> bool" where
  "entry_matches ident gids e \<longleftrightarrow>
     (subject_type e = USER \<and> subject_id e = ident_user_id ident) \<or>
     (subject_type e = GROUP \<and> subject_id e \<in> gids)"

definition matched_role ::
  "MountPolicy \<Rightarrow> SessionIdentity \<Rightarrow> accounts_db option \<Rightarrow> (account_exn, Role option) result option" where
  "matched_role policy ident store = (case store of
     None \<Rightarrow> Some (Inr None)
   | Some db \<Rightarrow> (case resolve_user_group_ids (ident_user_id ident) db of
       None \<Rightarrow> None
     | Some (Inl (UserNotFoundError k)) \<Rightarrow> Some (Inr None)
     | Some (Inl e) \<Rightarrow> Some (Inl e)
     | Some (Inr gids) \<Rightarrow>
         (case map entry_role (filter (entry_matches ident gids) (policy_entries policy)) of
            [] \<Rightarrow> Some (Inr None)
          | r # rs \<Rightarrow> Some (Inr (Some (highest_role r rs))))))"

definition passthrough :: "str option \<Rightarrow> AccessDecision" where
  "passthrough name = \<lparr>identified = False, decision_username = name, decision_role = None\<rparr>"

definition fallback_decision ::
  "MountPolicy \<Rightarrow> str \<Rightarrow> SessionIdentity option \<Rightarrow> (access_exn, AccessDecision) result" where
  "fallback_decision policy code ident =
     (if policy_mode policy = LEGACY then Inr (passthrough (map_option ident_username ident))
      else if policy_mode policy = OPEN_MODE then Inr (passthrough (map_option ident_username ident))
      else if policy_has_password policy then Inr (passthrough None)
      else case ident of
          None \<Rightarrow> Inl (AuthenticationRequiredError code)
        | Some i \<Rightarrow> Inl (AccessDeniedError code (ident_username i)))"

definition authorize ::
  "registry \<Rightarrow> accounts_db option \<Rightarrow> str \<Rightarrow> SessionIdentity option \<Rightarrow>
   (access_exn, AccessDecision) result option" where
  "authorize reg store code ident = (case get_policy code reg of
     Inl e \<Rightarrow> Some (Inr (passthrough None))
   | Inr policy \<Rightarrow> (case ident of
       None \<Rightarrow> Some (fallback_decision policy code None)
     | Some i \<Rightarrow> (case matched_role policy i store of
         None \<Rightarrow> None
       | Some (Inl e) \<Rightarrow> Some (Inl (AccountFailure e))
       | Some (Inr (Some r)) \<Rightarrow> Some (Inr \<lparr>identified = True,
           decision_username = Some (ident_username i), decision_role = Some r\<rparr>)
       | Some (Inr None) \<Rightarrow> Some (fallback_decision policy code (Some i)))))"

section \<open>Admins and access requests\<close>

definition is_admin_username :: "str \<Rightarrow> str set \<Rightarrow> bool" where
  "is_admin_username name admin_users \<longleftrightarrow> py_lower (py_strip name) \<in> admin_users"

datatype http_exn = HTTPException nat str | RegistryFailure registry_exn

datatype ResolveAction = APPROVE | DENY

record resolve_reply =
  reply_id :: int
  reply_status :: AccessRequestStatus
  reply_role :: "Role option"

definition lift_reg :: "(registry_exn, 'a) result \<Rightarrow> (http_exn, 'a) result" where
  "lift_reg r = (case r of Inl e \<Rightarrow> Inl (RegistryFailure e) | Inr a \<Rightarrow> Inr a)"

definition resolve_request ::
  "str set \<Rightarrow> SessionIdentity \<Rightarrow> int \<Rightarrow> ResolveAction \<Rightarrow> Role option \<Rightarrow> registry \<Rightarrow>
   (http_exn, resolve_reply \<times> registry) result" where
  "resolve_request admin_users ident request_id action role_opt reg =
     res_bind (lift_reg (get_access_request request_id reg)) (\<lambda>req.
     res_bind (lift_reg (get_policy (req_code req) reg)) (\<lambda>policy.
       let is_owner = (policy_owner policy = Some (ident_user_id ident)) in
       if \<not> (is_owner \<or> is_admin_username (ident_username ident) admin_users)
       then Inl (HTTPException 403 ''Only the mount owner or an admin may resolve'')
       else if action = APPROVE then
         let r = (case role_opt of Some r \<Rightarrow> r | None \<Rightarrow> READ) in
         res_bind (lift_reg (add_policy_entry (req_code req) USER (req_user_id req) r reg)) (\<lambda>reg1.
         res_bind (lift_reg (resolve_access_request request_id APPROVED reg1)) (\<lambda>reg2.
           Inr (\<lparr>reply_id = request_id, reply_status = APPROVED, reply_role = Some r\<rparr>, reg2)))
       else
         res_bind (lift_reg (resolve_access_request request_id DENIED reg)) (\<lambda>reg2.
           Inr (\<lparr>reply_id = request_id, reply_status = DENIED, reply_role = None\<rparr>, reg2))))"

text \<open>The list of requests a user sees: all of them for an admin; otherwise their own and those
  for mounts they own, each once, newest first. The dict keyed by id is an association list.\<close>

definition list_requests :: "str set \<Rightarrow> SessionIdentity \<Rightarrow> registry \<Rightarrow> AccessRequest list" where
  "list_requests admin_users ident reg =
     (if is_admin_username (ident_username ident) admin_users then list_all_access_requests reg
      else let mine = list_access_requests_for_user (ident_user_id ident) reg;
               owned = list_access_requests_for_owner (ident_user_id ident) reg;
               by_id = fold (\<lambda>r d. AList.update (req_id r) r d) (mine @ owned) []
           in rev (sort_key req_id (map snd by_id)))"

definition serialize_with_username :: "AccessRequest \<Rightarrow> str option \<Rightarrow> AccessRequest \<times> str option" where
  "serialize_with_username req name = (req, name)"

definition list_requests_reply ::
  "str set \<Rightarrow> SessionIdentity \<Rightarrow> accounts_db \<Rightarrow> registry \<Rightarrow> (AccessRequest \<times> str option) list" where
  "list_requests_reply admin_users ident db reg =
     (let reqs = list_requests admin_users ident reg;
          found = get_users_by_ids (map req_user_id reqs) db
      in map (\<lambda>r. serialize_with_username r
           (map_option username (map_of found (req_user_id r)))) reqs)"

definition create_request ::
  "SessionIdentity \<Rightarrow> str \<Rightarrow> timestamp \<Rightarrow> accounts_db \<Rightarrow> registry \<Rightarrow>
   (AccessRequest \<times> str option) option \<times> registry" where
  "create_request ident code now db reg =
     (case create_access_request code (ident_user_id ident) now reg of (req, reg') \<Rightarrow>
        (map_option (\<lambda>r. serialize_with_username r
           (case get_user_by_id (req_user_id r) db of Inl _ \<Rightarrow> None | Inr u \<Rightarrow> Some (username u))) req, reg'))"

section \<open>Lemmas\<close>

lemma rank_inject: "ROLE_RANK a = ROLE_RANK b \<longleftrightarrow> a = b"
  by (cases a; cases b) simp_all

lemma highest_role_max:
  "highest_role r rs \<in> set (r # rs) \<and> (\<forall>x \<in> set (r # rs). ROLE_RANK x \<le> ROLE_RANK (highest_role r rs))"
proof (induction rs arbitrary: r)
  case (Cons a rs)
  show ?case using Cons [of "if ROLE_RANK a > ROLE_RANK r then a else r"] by (auto split: if_splits)
qed simp

definition granted_roles :: "MountPolicy \<Rightarrow> int \<Rightarrow> accounts_db \<Rightarrow> Role set" where
  "granted_roles p u db = {entry_role e | e. e \<in> set (policy_entries p) \<and>
     (subject_type e = USER \<and> subject_id e = u \<or>
      subject_type e = GROUP \<and> subject_id e \<in> user_groups u db)}"

lemma resolve_ok:
  assumes "accounts_ok db" and "u \<in> user_ids db"
  shows "resolve_user_group_ids u db = Some (Inr (user_groups u db))"
proof -
  obtain r where "get_user_by_id u db = Inr r" using assms(2) user_exists_iff by blast
  from resolve_spec [OF this] assms(1) show ?thesis
    by (auto simp: accounts_ok_def memberships_ok_def acyclic_def split: if_splits)
qed

lemma resolve_missing:
  assumes "u \<notin> user_ids db"
  shows "resolve_user_group_ids u db = Some (Inl (UserNotFoundError (ById u)))"
proof -
  have "\<nexists>r. get_user_by_id u db = Inr r" using assms user_exists_iff by blast
  then have "get_user_by_id u db = Inl (UserNotFoundError (ById u))"
    by (auto simp: get_user_by_id_def split: option.splits)
  then show ?thesis by (simp add: resolve_user_group_ids_def resolve_user_groups_def)
qed

lemma resolve_returns: "resolve_user_group_ids u db \<noteq> None"
  unfolding resolve_user_group_ids_def by (rule resolve_total) (rule card_parents)

lemma matched_role_returns: "matched_role p i store \<noteq> None"
proof (cases store)
  case (Some db)
  obtain r where "resolve_user_group_ids (ident_user_id i) db = Some r"
    using resolve_returns [of "ident_user_id i" db] by blast
  with Some show ?thesis
    by (auto simp: matched_role_def split: sum.splits account_exn.splits list.splits)
qed (simp add: matched_role_def)

lemma authorize_returns: "authorize reg store code ident \<noteq> None"
proof (cases "get_policy code reg")
  case (Inr p)
  show ?thesis
  proof (cases ident)
    case (Some i)
    obtain r where "matched_role p i store = Some r"
      using matched_role_returns [of p i store] by blast
    with Inr Some show ?thesis by (simp add: authorize_def split: sum.split option.split)
  qed (simp add: authorize_def Inr)
qed (simp add: authorize_def)

lemma set_matching_roles:
  "set (map entry_role (filter (entry_matches i (user_groups (ident_user_id i) db)) (policy_entries p))) =
   granted_roles p (ident_user_id i) db"
  by (auto simp: granted_roles_def entry_matches_def)

lemma matched_role_spec:
  assumes "accounts_ok db" and "ident_user_id i \<in> user_ids db"
  shows "if granted_roles p (ident_user_id i) db = {} then matched_role p i (Some db) = Some (Inr None)
    else \<exists>r \<in> granted_roles p (ident_user_id i) db. matched_role p i (Some db) = Some (Inr (Some r)) \<and>
      (\<forall>r' \<in> granted_roles p (ident_user_id i) db. ROLE_RANK r' \<le> ROLE_RANK r)"
proof -
  let ?l = "map entry_role (filter (entry_matches i (user_groups (ident_user_id i) db)) (policy_entries p))"
  have m: "matched_role p i (Some db) = (case ?l of [] \<Rightarrow> Some (Inr None)
      | r # rs \<Rightarrow> Some (Inr (Some (highest_role r rs))))"
    using resolve_ok [OF assms] by (simp add: matched_role_def)
  show ?thesis
  proof (cases ?l)
    case Nil
    then show ?thesis using m set_matching_roles [of i db p] by simp
  next
    case (Cons r rs)
    then have "granted_roles p (ident_user_id i) db = set (r # rs)"
      using set_matching_roles [of i db p] by simp
    with m Cons highest_role_max [of r rs] show ?thesis by auto
  qed
qed

lemma matched_role_missing:
  "ident_user_id i \<notin> user_ids db \<Longrightarrow> matched_role p i (Some db) = Some (Inr None)"
  by (simp add: matched_role_def resolve_missing)

text \<open>A restricted mount without a password: a signed-in user without a grant is refused, and who is let
  through has the most permissive role that the allowlist grants to that account.\<close>

lemma unlisted_refused:
  assumes "accounts_ok db" and "get_policy code reg = Inr p" and "policy_mode p = RESTRICTED" and "\<not> policy_has_password p"
    and "ident_user_id i \<notin> user_ids db \<or> granted_roles p (ident_user_id i) db = {}"
  shows "authorize reg (Some db) code (Some i) = Some (Inl (AccessDeniedError code (ident_username i)))"
proof -
  have "matched_role p i (Some db) = Some (Inr None)"
    using assms(5) matched_role_spec [OF assms(1), of i p] matched_role_missing [of i db p] by auto
  then show ?thesis using assms(2-4) by (simp add: authorize_def fallback_decision_def)
qed

lemma restricted_allowlist:
  assumes "accounts_ok db" and "get_policy code reg = Inr p" and "policy_mode p = RESTRICTED" and "\<not> policy_has_password p"
    and "authorize reg (Some db) code ident = Some (Inr d)"
  obtains i r where "ident = Some i" "ident_user_id i \<in> user_ids db" "r \<in> granted_roles p (ident_user_id i) db"
    "\<forall>r' \<in> granted_roles p (ident_user_id i) db. ROLE_RANK r' \<le> ROLE_RANK r"
    "d = \<lparr>identified = True, decision_username = Some (ident_username i), decision_role = Some r\<rparr>"
proof (cases ident)
  case None
  then show thesis using assms by (simp add: authorize_def fallback_decision_def)
next
  case (Some i)
  have g: "ident_user_id i \<in> user_ids db" "granted_roles p (ident_user_id i) db \<noteq> {}"
    using unlisted_refused [OF assms(1-4), of i] assms(5) Some by auto
  from matched_role_spec [OF assms(1) g(1), of p] g(2) obtain r where
    "r \<in> granted_roles p (ident_user_id i) db" "matched_role p i (Some db) = Some (Inr (Some r))"
    "\<forall>r' \<in> granted_roles p (ident_user_id i) db. ROLE_RANK r' \<le> ROLE_RANK r" by auto
  then show thesis using that [OF Some g(1)] Some assms(2,5) by (auto simp: authorize_def)
qed

section \<open>Properties\<close>

text \<open>C18: the decision for a signed-in user over a consistent account store. When the account
  exists and the mount's allowlist grants it some role, directly or through any chain of groups,
  the request is let through as that user with the most permissive granted role. Otherwise open
  and legacy mounts let it through unidentified, a restricted mount with a password lets it
  through to the server's own password gate, and a restricted mount without one refuses it.\<close>

theorem authorize_identified:
  assumes "accounts_ok db" and "get_policy code reg = Inr p"
  shows "(ident_user_id i \<in> uid ` set (users db) \<and> granted_roles p (ident_user_id i) db \<noteq> {} \<longrightarrow>
      (\<exists>r \<in> granted_roles p (ident_user_id i) db.
        (\<forall>r' \<in> granted_roles p (ident_user_id i) db. ROLE_RANK r' \<le> ROLE_RANK r) \<and>
        authorize reg (Some db) code (Some i) = Some (Inr \<lparr>identified = True,
          decision_username = Some (ident_username i), decision_role = Some r\<rparr>))) \<and>
    (\<not> (ident_user_id i \<in> uid ` set (users db) \<and> granted_roles p (ident_user_id i) db \<noteq> {}) \<longrightarrow>
      authorize reg (Some db) code (Some i) = Some (case policy_mode p of
          RESTRICTED \<Rightarrow> if policy_has_password p then Inr (passthrough None)
            else Inl (AccessDeniedError code (ident_username i))
        | _ \<Rightarrow> Inr (passthrough (Some (ident_username i)))))"
proof (cases "ident_user_id i \<in> user_ids db")
  case True
  then show ?thesis
    using matched_role_spec [OF assms(1) True, of p] assms(2)
    by (auto simp: authorize_def fallback_decision_def user_ids_def split: if_splits AccessMode.split)
next
  case False
  then show ?thesis
    using matched_role_missing [OF False, of p] assms(2)
    by (auto simp: authorize_def fallback_decision_def user_ids_def split: AccessMode.split)
qed

theorem authorize_identified_witness:
  "authorize demo_registry (Some two_groups) ''a'' (Some \<lparr>ident_user_id = 1, ident_username = ''ann''\<rparr>) =
     Some (Inr \<lparr>identified = True, decision_username = Some ''ann'', decision_role = Some READ\<rparr>)"
proof -
  let ?p = "\<lparr>policy_code = ''a'', policy_owner = Some 5, policy_mode = RESTRICTED,
    policy_has_password = False, policy_entries = [\<lparr>subject_type = USER, subject_id = 1, entry_role = READ\<rparr>]\<rparr>"
  let ?i = "\<lparr>ident_user_id = 1, ident_username = ''ann''\<rparr>"
  have p: "get_policy ''a'' demo_registry = Inr ?p"
    by (simp add: get_policy_def find_mount_def fetchone_def demo_registry_eq)
  have g: "granted_roles ?p 1 two_groups = {READ}" by (auto simp: granted_roles_def)
  have "(1 :: int) \<in> uid ` set (users two_groups)" by (simp add: two_groups_eq)
  with authorize_identified [OF two_groups_ok p, of ?i] g show ?thesis by simp
qed

text \<open>Deactivating an account does not change any access decision: a user disabled by an admin
  who still holds a session keeps every role the allowlists grant.\<close>

lemma deactivation_not_enforced:
  assumes "set_user_active u active db = Inr db'"
  shows "authorize reg (Some db') code ident = authorize reg (Some db) code ident"
proof -
  have d: "memberships db' = memberships db"
    "users db' = update_where (\<lambda>r. uid r = u) (\<lambda>r. r\<lparr>is_active := active\<rparr>) (users db)"
    using assms by (auto simp: set_user_active_def split: if_splits)
  have "resolve_user_group_ids x db' = resolve_user_group_ids x db" for x
  proof (cases "fetchone (\<lambda>r. uid r = x) (users db)")
    case None
    then show ?thesis
      by (simp add: resolve_user_group_ids_def resolve_user_groups_def get_user_by_id_def d
          fetchone_update_where)
  next
    case (Some r)
    then obtain r' where "get_user_by_id x db = Inr r" "get_user_by_id x db' = Inr r'"
      by (simp add: get_user_by_id_def d(2) fetchone_update_where)
    then show ?thesis
      by (simp add: resolve_user_group_ids_def resolve_user_groups_def d(1) list_parent_group_ids_def)
  qed
  then have m: "matched_role p i (Some db') = matched_role p i (Some db)" for p i
    by (simp add: matched_role_def)
  show ?thesis unfolding authorize_def m ..
qed

lemma deactivation_not_enforced_witness:
  "\<exists>db'. set_user_active 1 False two_groups = Inr db' \<and>
     authorize demo_registry (Some db') ''a'' None = authorize demo_registry (Some two_groups) ''a'' None"
proof -
  obtain db' where "set_user_active 1 False two_groups = Inr db'"
    by (simp add: set_user_active_def two_groups_eq rowcount_def)
  with deactivation_not_enforced [OF this] show ?thesis by blast
qed

text \<open>C38: only the owner of the mount or an admin resolves an access request; anyone else gets 403.
  An approval records the request as approved and puts the requesting user on the allowlist: from
  then on, over a consistent account store, that user is let through as identified with at least
  the approved role.\<close>

theorem approval_grants:
  assumes "accounts_ok db"
    and "resolve_request admins i rid APPROVE role_opt reg = Inr (rep, reg')"
    and "get_access_request rid reg = Inr req" and "get_policy (req_code req) reg = Inr p"
    and "ident_user_id j = req_user_id req" and "req_user_id req \<in> uid ` set (users db)"
  shows "(policy_owner p = Some (ident_user_id i) \<or> is_admin_username (ident_username i) admins) \<and>
    map_ok req_status (get_access_request rid reg') = Inr APPROVED \<and>
    (\<exists>r. authorize reg' (Some db) (req_code req) (Some j) = Some (Inr \<lparr>identified = True,
        decision_username = Some (ident_username j), decision_role = Some r\<rparr>) \<and>
      ROLE_RANK (case role_opt of Some x \<Rightarrow> x | None \<Rightarrow> READ) \<le> ROLE_RANK r)"
proof -
  let ?r = "case role_opt of Some x \<Rightarrow> x | None \<Rightarrow> READ"
  let ?e = "\<lparr>subject_type = USER, subject_id = req_user_id req, entry_role = ?r\<rparr>"
  obtain reg1 where st: "policy_owner p = Some (ident_user_id i) \<or> is_admin_username (ident_username i) admins"
    "add_policy_entry (req_code req) USER (req_user_id req) ?r reg = Inr reg1"
    "resolve_access_request rid APPROVED reg1 = Inr reg'"
    using assms(2) by (auto simp: resolve_request_def assms(3,4) lift_reg_def res_bind_eq_Inr Let_def
        split: if_splits sum.splits)
  have r1: "reg1 = reg\<lparr>mount_policy := put_entry (req_code req) ?e (mount_policy reg)\<rparr>"
    using st(2) by (auto simp: add_policy_entry_def split: if_splits)
  have r': "access_requests reg' = update_where (\<lambda>r. req_id r = rid) (\<lambda>r. r\<lparr>req_status := APPROVED\<rparr>)
      (access_requests reg)" "mount_policy reg' = mount_policy reg1" "mounts reg' = mounts reg"
    using st(3) by (auto simp: resolve_access_request_def r1 split: if_splits)
  let ?p' = "p\<lparr>policy_entries := insert_or_replace subject_of ?e (policy_entries p)\<rparr>"
  have p': "get_policy (req_code req) reg' = Inr ?p'"
    using assms(4) by (auto simp: get_policy_entries r' r1 entries_of_put find_mount_def split: option.splits)
  have "?e \<in> set (policy_entries ?p')" by (simp add: table_simps)
  then have "?r \<in> granted_roles ?p' (ident_user_id j) db"
    unfolding granted_roles_def using assms(5) by force
  moreover have "ident_user_id j \<in> user_ids db" using assms(5,6) by (simp add: user_ids_def)
  ultimately obtain r where "matched_role ?p' j (Some db) = Some (Inr (Some r))" "ROLE_RANK ?r \<le> ROLE_RANK r"
    using matched_role_spec [OF assms(1), of j ?p'] by (auto split: if_splits)
  moreover have "map_ok req_status (get_access_request rid reg') = Inr APPROVED"
    using assms(3) by (auto simp: get_access_request_def r'(1) fetchone_update_where map_ok_def
        split: option.splits dest: fetchone_Some_mem)
  ultimately show ?thesis using st(1) p' by (auto simp: authorize_def)
qed

definition demo_request :: registry where
  "demo_request = demo_registry\<lparr>access_requests := [\<lparr>req_id = 1, req_code = ''a'', req_user_id = 1,
     req_status = PENDING, req_created_at = 0\<rparr>], requests_seq := 1\<rparr>"

theorem approval_grants_witness:
  "\<exists>rep reg' r. resolve_request {} \<lparr>ident_user_id = 5, ident_username = ''own''\<rparr> 1 APPROVE (Some WRITE) demo_request = Inr (rep, reg') \<and>
     authorize reg' (Some two_groups) ''a'' (Some \<lparr>ident_user_id = 1, ident_username = ''ann''\<rparr>) =
       Some (Inr \<lparr>identified = True, decision_username = Some ''ann'', decision_role = Some r\<rparr>) \<and>
     ROLE_RANK WRITE \<le> ROLE_RANK r"
proof -
  let ?req = "\<lparr>req_id = 1, req_code = ''a'', req_user_id = 1, req_status = PENDING, req_created_at = 0\<rparr>"
  have q: "get_access_request 1 demo_request = Inr ?req"
    by (simp add: get_access_request_def demo_request_def fetchone_def)
  obtain p where p: "get_policy ''a'' demo_request = Inr p" "policy_owner p = Some 5"
    by (simp add: get_policy_def find_mount_def fetchone_def demo_request_def demo_registry_eq)
  obtain rep reg' where r: "resolve_request {} \<lparr>ident_user_id = 5, ident_username = ''own''\<rparr> 1 APPROVE
      (Some WRITE) demo_request = Inr (rep, reg')"
    using q p by (auto simp: resolve_request_def lift_reg_def Let_def add_policy_entry_def
        resolve_access_request_def rowcount_def find_mount_def fetchone_def demo_request_def demo_registry_eq)
  have u: "req_user_id ?req \<in> uid ` set (users two_groups)" by (simp add: two_groups_eq)
  show ?thesis
    using approval_grants [OF two_groups_ok r q _ _ u, of p "\<lparr>ident_user_id = 1, ident_username = ''ann''\<rparr>"] r p
    by auto
qed

end
