(* ===== verification/Relay_Session.thy ===== *)
theory Relay_Session
  imports Tunnel Access_Policy
begin

text \<open>
  Identity at the relay: the signed tokens of \<open>relay/app/services/session.py\<close>, the guards of
  \<open>dependencies.py\<close> and the account endpoints of \<open>routers/auth.py\<close> and \<open>routers/admin.py\<close>.

  The signer (\<open>itsdangerous\<close>) is outside the source: \<open>dumps salt value\<close> gives a token and
  \<open>loads salt token max_age\<close> gives the signed value back, or says that the signature is bad or too
  old. Both are arguments; what the properties rely on is stated as hypotheses. So are bcrypt's
  functions, and \<open>str_of\<close>, Python's \<open>str()\<close> of a JSON list or object.
\<close>

section \<open>Tokens\<close>

datatype loads_result = Loaded json | SignatureExpired | BadSignature

type_synonym dumps_fn = "str \<Rightarrow> json \<Rightarrow> str"
type_synonym loads_fn = "str \<Rightarrow> str \<Rightarrow> nat \<Rightarrow> loads_result"

definition SESSION_MAX_AGE_SECONDS :: nat where "SESSION_MAX_AGE_SECONDS = 7 * 24 * 3600"
definition AGENT_TOKEN_MAX_AGE_SECONDS :: nat where "AGENT_TOKEN_MAX_AGE_SECONDS = 120"
definition OIDC_STATE_MAX_AGE_SECONDS :: nat where "OIDC_STATE_MAX_AGE_SECONDS = 600"
definition SESSION_SALT :: str where "SESSION_SALT = ''wfs-relay-session''"
definition AGENT_SALT :: str where "AGENT_SALT = ''wfs-agent-owner''"
definition OIDC_STATE_SALT :: str where "OIDC_STATE_SALT = ''wfs-oidc-state''"

datatype session_exn = InvalidSessionError str | SessionValueError | SessionAttributeError

fun digits_value :: "int \<Rightarrow> str \<Rightarrow> int option" where
  "digits_value acc [] = Some acc"
| "digits_value acc (c # cs) =
     (if 48 \<le> (of_char c :: int) \<and> (of_char c :: int) \<le> 57
      then digits_value (acc * 10 + (of_char c - 48)) cs
      else if c = CHR ''_'' \<and> cs \<noteq> [] \<and> hd cs \<noteq> CHR ''_'' then digits_value acc cs
      else None)"

definition unsigned_value :: "str \<Rightarrow> int option" where
  "unsigned_value s = (if s = [] \<or> hd s = CHR ''_'' then None else digits_value 0 s)"

text \<open>Python's \<open>int()\<close> of a decoded JSON value; \<open>None\<close> for the \<open>ValueError\<close> or \<open>TypeError\<close>.\<close>

fun json_int :: "json \<Rightarrow> int option" where
  "json_int (JInt i) = Some i"
| "json_int (JBool b) = Some (if b then 1 else 0)"
| "json_int (JStr s) = (case py_strip s of
     [] \<Rightarrow> None
   | c # cs \<Rightarrow> if c = CHR ''-'' then map_option uminus (unsigned_value cs)
       else if c = CHR ''+'' then unsigned_value cs else unsigned_value (c # cs))"
| "json_int _ = None"

fun json_str :: "(json \<Rightarrow> str) \<Rightarrow> json \<Rightarrow> str" where
  "json_str str_of (JStr s) = s"
| "json_str str_of JNull = ''None''"
| "json_str str_of (JBool b) = (if b then ''True'' else ''False'')"
| "json_str str_of (JInt i) = (if i < 0 then CHR ''-'' # nat_digits (nat (- i)) else nat_digits (nat i))"
| "json_str str_of j = str_of j"

text \<open>Subscripting a decoded value with a string: \<open>None\<close> for the \<open>KeyError\<close> of a missing key and the
  \<open>TypeError\<close> of anything that is not an object.\<close>

fun json_item :: "json \<Rightarrow> str \<Rightarrow> json option" where
  "json_item (JObj kvs) k = map_of kvs k"
| "json_item _ k = None"

definition loads_or_raise :: "loads_fn \<Rightarrow> str \<Rightarrow> str \<Rightarrow> nat \<Rightarrow> (session_exn, json) result" where
  "loads_or_raise loads salt token max_age =
     (if length token = 0 then Inl (InvalidSessionError ''empty token'')
      else case loads salt token max_age of
          SignatureExpired \<Rightarrow> Inl (InvalidSessionError ''token expired'')
        | BadSignature \<Rightarrow> Inl (InvalidSessionError ''invalid signature'')
        | Loaded data \<Rightarrow> Inr data)"

definition to_identity :: "(json \<Rightarrow> str) \<Rightarrow> json \<Rightarrow> (session_exn, SessionIdentity) result" where
  "to_identity str_of data =
     (case (Option.bind (json_item data ''uid'') json_int, json_item data ''username'') of
        (Some i, Some n) \<Rightarrow> Inr \<lparr>ident_user_id = i, ident_username = json_str str_of n\<rparr>
      | _ \<Rightarrow> Inl (InvalidSessionError ''malformed session payload''))"

definition session_payload :: "int \<Rightarrow> str \<Rightarrow> json" where
  "session_payload user_id name = JObj [(''uid'', JInt user_id), (''username'', JStr name)]"

definition agent_payload :: "int \<Rightarrow> json" where
  "agent_payload user_id = JObj [(''uid'', JInt user_id), (''purpose'', JStr ''agent'')]"

definition issue :: "dumps_fn \<Rightarrow> int \<Rightarrow> str \<Rightarrow> (session_exn, str) result" where
  "issue dumps user_id name =
     (if length name = 0 then Inl SessionValueError
      else Inr (dumps SESSION_SALT (session_payload user_id name)))"

definition verify :: "loads_fn \<Rightarrow> (json \<Rightarrow> str) \<Rightarrow> str \<Rightarrow> nat \<Rightarrow> (session_exn, SessionIdentity) result" where
  "verify loads str_of token max_age =
     res_bind (loads_or_raise loads SESSION_SALT token max_age) (to_identity str_of)"

definition verify_session_cookie ::
  "loads_fn \<Rightarrow> (json \<Rightarrow> str) \<Rightarrow> str \<Rightarrow> (session_exn, SessionIdentity) result" where
  "verify_session_cookie loads str_of token = verify loads str_of token SESSION_MAX_AGE_SECONDS"

definition issue_oauth_state :: "dumps_fn \<Rightarrow> str \<Rightarrow> str \<Rightarrow> (session_exn, str) result" where
  "issue_oauth_state dumps next_url csrf =
     (if length csrf = 0 then Inl SessionValueError
      else Inr (dumps OIDC_STATE_SALT (JObj [(''next'', JStr next_url), (''csrf'', JStr csrf)])))"

definition verify_oauth_state ::
  "loads_fn \<Rightarrow> (json \<Rightarrow> str) \<Rightarrow> str \<Rightarrow> (session_exn, str \<times> str) result" where
  "verify_oauth_state loads str_of token =
     res_bind (loads_or_raise loads OIDC_STATE_SALT token OIDC_STATE_MAX_AGE_SECONDS) (\<lambda>data.
       case (json_item data ''next'', json_item data ''csrf'') of
         (Some n, Some c) \<Rightarrow> Inr (json_str str_of n, json_str str_of c)
       | _ \<Rightarrow> Inl (InvalidSessionError ''malformed oidc state''))"

definition issue_agent_owner_token :: "dumps_fn \<Rightarrow> int \<Rightarrow> str" where
  "issue_agent_owner_token dumps user_id =
     dumps AGENT_SALT (agent_payload user_id)"

definition verify_agent_owner_token :: "loads_fn \<Rightarrow> str \<Rightarrow> (session_exn, int) result" where
  "verify_agent_owner_token loads token =
     res_bind (loads_or_raise loads AGENT_SALT token AGENT_TOKEN_MAX_AGE_SECONDS) (\<lambda>data.
       case data of
         JObj kvs \<Rightarrow>
           if map_of kvs ''purpose'' \<noteq> Some (JStr ''agent'')
           then Inl (InvalidSessionError ''not an agent-owner token'')
           else (case Option.bind (map_of kvs ''uid'') json_int of
               None \<Rightarrow> Inl (InvalidSessionError ''malformed agent token payload'')
             | Some i \<Rightarrow> Inr i)
       | _ \<Rightarrow> Inl SessionAttributeError)"

section \<open>Request guards\<close>

definition SESSION_COOKIE_NAME :: str where "SESSION_COOKIE_NAME = ''wfs_session''"

definition identity_from_cookies ::
  "loads_fn option \<Rightarrow> (json \<Rightarrow> str) \<Rightarrow> (str \<times> str) list \<Rightarrow> SessionIdentity option" where
  "identity_from_cookies session str_of cookies =
     (case map_of cookies SESSION_COOKIE_NAME of
        None \<Rightarrow> None
      | Some token \<Rightarrow>
          if token = [] then None
          else (case session of
              None \<Rightarrow> None
            | Some loads \<Rightarrow> (case verify_session_cookie loads str_of token of
                Inl e \<Rightarrow> None | Inr i \<Rightarrow> Some i)))"

definition get_current_identity ::
  "loads_fn \<Rightarrow> (json \<Rightarrow> str) \<Rightarrow> (str \<times> str) list \<Rightarrow> (http_exn, SessionIdentity) result" where
  "get_current_identity loads str_of cookies =
     (case identity_from_cookies (Some loads) str_of cookies of
        None \<Rightarrow> Inl (HTTPException 401 ''Authentication required'') | Some i \<Rightarrow> Inr i)"

definition require_admin ::
  "loads_fn \<Rightarrow> (json \<Rightarrow> str) \<Rightarrow> str set \<Rightarrow> (str \<times> str) list \<Rightarrow> (http_exn, SessionIdentity) result" where
  "require_admin loads str_of admin_users cookies =
     res_bind (get_current_identity loads str_of cookies) (\<lambda>i.
       if \<not> is_admin_username (ident_username i) admin_users
       then Inl (HTTPException 403 ''Admin privileges required'') else Inr i)"

section \<open>Account endpoints\<close>

definition signup ::
  "(bytes \<Rightarrow> bytes \<Rightarrow> bytes) \<Rightarrow> bytes \<Rightarrow> str \<Rightarrow> str \<Rightarrow> str option \<Rightarrow> timestamp \<Rightarrow> accounts_db \<Rightarrow>
   (http_exn, user \<times> accounts_db) result" where
  "signup hashpw salt name password em now db =
     (case hash_password hashpw salt password of
        Inl e \<Rightarrow> Inl (HTTPException 400 ''weak password'')
      | Inr ph \<Rightarrow> (case create_user name ph em now db of
          Inl (UsernameTakenError n) \<Rightarrow> Inl (HTTPException 409 ''Username already taken'')
        | Inl e \<Rightarrow> Inl (HTTPException 400 ''invalid'')
        | Inr r \<Rightarrow> Inr r))"

definition bad_login :: http_exn where
  "bad_login = HTTPException 401 ''Invalid username or password''"

definition check_credentials ::
  "(bytes \<Rightarrow> bytes \<Rightarrow> bool) \<Rightarrow> str \<Rightarrow> str \<Rightarrow> accounts_db \<Rightarrow> (http_exn, user) result" where
  "check_credentials checkpw name password db =
     (case get_user_by_username name db of
        Inl e \<Rightarrow> Inl bad_login
      | Inr u \<Rightarrow> (case verify_password checkpw password (password_hash u) of
          Inl WeakPasswordError \<Rightarrow> Inl bad_login
        | Inl e \<Rightarrow> Inl (HTTPException 500 ''Internal Server Error'')
        | Inr ok \<Rightarrow> if \<not> ok \<or> \<not> is_active u then Inl bad_login else Inr u))"

definition login ::
  "dumps_fn \<Rightarrow> (bytes \<Rightarrow> bytes \<Rightarrow> bool) \<Rightarrow> str set \<Rightarrow> str \<Rightarrow> str \<Rightarrow> accounts_db \<Rightarrow>
   (http_exn, str \<times> bool \<times> str) result" where
  "login dumps checkpw admin_users name password db =
     res_bind (check_credentials checkpw name password db) (\<lambda>u.
       case issue dumps (uid u) (username u) of
         Inl e \<Rightarrow> Inl (HTTPException 500 ''Internal Server Error'')
       | Inr token \<Rightarrow> Inr (username u, is_admin_username (username u) admin_users, token))"

definition agent_token ::
  "dumps_fn \<Rightarrow> (bytes \<Rightarrow> bytes \<Rightarrow> bool) \<Rightarrow> str \<Rightarrow> str \<Rightarrow> accounts_db \<Rightarrow>
   (http_exn, str \<times> int \<times> str) result" where
  "agent_token dumps checkpw name password db =
     res_bind (check_credentials checkpw name password db) (\<lambda>u.
       Inr (issue_agent_owner_token dumps (uid u), uid u, username u))"

section \<open>Admin endpoints\<close>

definition resolve_member_id :: "SubjectType \<Rightarrow> str \<Rightarrow> accounts_db \<Rightarrow> (http_exn, int) result" where
  "resolve_member_id ty ref db =
     (if ty = USER then (case get_user_by_username ref db of
          Inl e \<Rightarrow> Inl (HTTPException 404 ''not found'') | Inr u \<Rightarrow> Inr (uid u))
      else (case get_group_by_name ref db of
          Inl e \<Rightarrow> Inl (HTTPException 404 ''not found'') | Inr g \<Rightarrow> Inr (gid g)))"

definition admin_set_user_active :: "int \<Rightarrow> bool \<Rightarrow> accounts_db \<Rightarrow> (http_exn, accounts_db) result" where
  "admin_set_user_active i active db = (case set_user_active i active db of
     Inl e \<Rightarrow> Inl (HTTPException 404 ''User not found'') | Inr db' \<Rightarrow> Inr db')"

definition admin_create_group :: "str \<Rightarrow> timestamp \<Rightarrow> accounts_db \<Rightarrow> (http_exn, grp \<times> accounts_db) result" where
  "admin_create_group name now db = (case create_group name now db of
     Inl (GroupNameTakenError n) \<Rightarrow> Inl (HTTPException 409 ''Group name already taken'')
   | Inl e \<Rightarrow> Inl (HTTPException 400 ''invalid'')
   | Inr r \<Rightarrow> Inr r)"

definition admin_delete_group :: "int \<Rightarrow> accounts_db \<Rightarrow> (http_exn, accounts_db) result" where
  "admin_delete_group g db = (case delete_group g db of
     Inl e \<Rightarrow> Inl (HTTPException 404 ''Group not found'') | Inr db' \<Rightarrow> Inr db')"

definition admin_list_group_members :: "int \<Rightarrow> accounts_db \<Rightarrow> (http_exn, (SubjectType \<times> int) list) result" where
  "admin_list_group_members g db = (case list_group_members g db of
     Inl e \<Rightarrow> Inl (HTTPException 404 ''Group not found'')
   | Inr ms \<Rightarrow> Inr (map (\<lambda>m. (member_type m, member_id m)) ms))"

text \<open>\<open>UserNotFoundError\<close> is not among the exceptions the endpoint translates; it cannot occur
  after the reference was resolved in the same database.\<close>

definition add_group_member ::
  "int \<Rightarrow> SubjectType \<Rightarrow> str \<Rightarrow> accounts_db \<Rightarrow> (http_exn, int \<times> accounts_db) result" where
  "add_group_member g ty ref db =
     res_bind (resolve_member_id ty ref db) (\<lambda>m.
       case add_member g ty m db of
         Inl (GroupNotFoundError k) \<Rightarrow> Inl (HTTPException 404 ''Group not found'')
       | Inl (GroupCycleError a b) \<Rightarrow> Inl (HTTPException 409 ''Membership would create a group cycle'')
       | Inl (DuplicateMembershipError a b c) \<Rightarrow> Inl (HTTPException 409 ''Membership already exists'')
       | Inl e \<Rightarrow> Inl (HTTPException 500 ''Internal Server Error'')
       | Inr db' \<Rightarrow> Inr (m, db'))"

definition remove_group_member ::
  "int \<Rightarrow> SubjectType \<Rightarrow> int \<Rightarrow> accounts_db \<Rightarrow> (http_exn, accounts_db) result" where
  "remove_group_member g ty m db = (case remove_member g ty m db of
     Inl e \<Rightarrow> Inl (HTTPException 404 ''Membership not found'') | Inr db' \<Rightarrow> Inr db')"

section \<open>Lemmas\<close>

lemma check_credentials_iff:
  "check_credentials checkpw name password db = Inr u \<longleftrightarrow>
   get_user_by_username name db = Inr u \<and> is_active u \<and> password \<noteq> [] \<and> password_hash u \<noteq> [] \<and>
   checkpw (utf8_encode password) (password_hash u)"
  by (auto simp: check_credentials_def verify_password_def bad_login_def split: sum.splits account_exn.splits if_splits)

lemma signup_row:
  assumes "signup hashpw salt name password em now db = Inr (u, db')"
  shows "password \<noteq> []" "password_hash u = hashpw (utf8_encode password) salt" "is_active u"
    "username u = py_strip name" "username u \<noteq> []" "get_user_by_username (py_strip name) db' = Inr u"
proof -
  obtain ph where ph: "hash_password hashpw salt password = Inr ph" "create_user name ph em now db = Inr (u, db')"
    using assms by (auto simp: signup_def split: sum.splits account_exn.splits)
  then show "password \<noteq> []" "password_hash u = hashpw (utf8_encode password) salt" "is_active u"
    "username u = py_strip name" "username u \<noteq> []"
    by (auto simp: hash_password_def create_user_def insert_user_def Let_def split: if_splits)
  have "fetchone (\<lambda>r. username r = py_strip name) (users db) = None" "users db' = users db @ [u]"
    "username u = py_strip name"
    using ph(2) by (auto simp: create_user_def insert_user_def username_exists_def Let_def split: if_splits)
  then show "get_user_by_username (py_strip name) db' = Inr u"
    by (simp add: get_user_by_username_def fetchone_append) (simp add: fetchone_def)
qed

section \<open>Properties\<close>

text \<open>What was signed: the sessions, owner tokens and login states that the relay has issued, with their times.
  A signer is sound for them when it gives a signed value back for \<open>max_age\<close> seconds under its own salt and
  says \<open>SignatureExpired\<close> afterwards, rejects it under another salt, and loads nothing else. This is what
  \<open>itsdangerous\<close> documents.\<close>

definition state_payload :: "str \<Rightarrow> str \<Rightarrow> json" where
  "state_payload next_url csrf = JObj [(''next'', JStr next_url), (''csrf'', JStr csrf)]"

definition signed_values ::
  "(nat \<times> int \<times> str) set \<Rightarrow> (nat \<times> int) set \<Rightarrow> (nat \<times> str \<times> str) set \<Rightarrow> (nat \<times> str \<times> json) set" where
  "signed_values S A Q = {(t, SESSION_SALT, session_payload u n) |t u n. (t, u, n) \<in> S} \<union>
     {(t, AGENT_SALT, agent_payload u) |t u. (t, u) \<in> A} \<union> {(t, OIDC_STATE_SALT, state_payload x c) |t x c. (t, x, c) \<in> Q}"

definition signer_sound :: "(nat \<Rightarrow> dumps_fn) \<Rightarrow> loads_fn \<Rightarrow> nat \<Rightarrow> (nat \<times> str \<times> json) set \<Rightarrow> bool" where
  "signer_sound sign loads now issued \<longleftrightarrow>
     (\<forall>(t, salt, v) \<in> issued. sign t salt v \<noteq> [] \<and>
       (\<forall>m. loads salt (sign t salt v) m = (if now - t \<le> m then Loaded v else SignatureExpired)) \<and>
       (\<forall>salt' m. salt' \<noteq> salt \<longrightarrow> loads salt' (sign t salt v) m = BadSignature)) \<and>
     (\<forall>salt x m v. loads salt x m = Loaded v \<longrightarrow> (\<exists>t. (t, salt, v) \<in> issued \<and> x = sign t salt v))"

lemma salts_distinct: "distinct [SESSION_SALT, AGENT_SALT, OIDC_STATE_SALT]"
  by (simp add: SESSION_SALT_def AGENT_SALT_def OIDC_STATE_SALT_def)

lemma signer_soundD:
  assumes "signer_sound sign loads now issued"
  shows "(t, salt, v) \<in> issued \<Longrightarrow> sign t salt v \<noteq> []"
    and "(t, salt, v) \<in> issued \<Longrightarrow> loads salt (sign t salt v) m = (if now - t \<le> m then Loaded v else SignatureExpired)"
    and "(t, salt, v) \<in> issued \<Longrightarrow> salt' \<noteq> salt \<Longrightarrow> loads salt' (sign t salt v) m = BadSignature"
    and "loads salt x m = Loaded v \<Longrightarrow> \<exists>t. (t, salt, v) \<in> issued \<and> x = sign t salt v"
  using assms unfolding signer_sound_def by blast+

lemma loaded_iff:
  assumes "signer_sound sign loads now issued"
  shows "loads_or_raise loads salt x m = Inr v \<longleftrightarrow> (\<exists>t. (t, salt, v) \<in> issued \<and> x = sign t salt v \<and> now - t \<le> m)"
proof
  assume "loads_or_raise loads salt x m = Inr v"
  then have l: "loads salt x m = Loaded v" by (auto simp: loads_or_raise_def split: if_splits loads_result.splits)
  then obtain t where t: "(t, salt, v) \<in> issued" "x = sign t salt v" using signer_soundD(4) [OF assms] by blast
  then show "\<exists>t. (t, salt, v) \<in> issued \<and> x = sign t salt v \<and> now - t \<le> m"
    using signer_soundD(2) [OF assms t(1), of m] l by (auto split: if_splits)
next
  assume "\<exists>t. (t, salt, v) \<in> issued \<and> x = sign t salt v \<and> now - t \<le> m"
  then show "loads_or_raise loads salt x m = Inr v" using signer_soundD(1,2) [OF assms] by (auto simp: loads_or_raise_def)
qed

lemma loads_other_salt:
  assumes "signer_sound sign loads now issued" and "(t, salt, v) \<in> issued" and "salt' \<noteq> salt"
  shows "loads_or_raise loads salt' (sign t salt v) m = Inl (InvalidSessionError ''invalid signature'')"
  using signer_soundD(1,3) [OF assms(1,2)] assms(3) by (simp add: loads_or_raise_def)

lemma signed_iff:
  "(t, SESSION_SALT, v) \<in> signed_values S A Q \<longleftrightarrow> (\<exists>u n. (t, u, n) \<in> S \<and> v = session_payload u n)"
  "(t, AGENT_SALT, v) \<in> signed_values S A Q \<longleftrightarrow> (\<exists>u. (t, u) \<in> A \<and> v = agent_payload u)"
  "(t, OIDC_STATE_SALT, v) \<in> signed_values S A Q \<longleftrightarrow> (\<exists>x c. (t, x, c) \<in> Q \<and> v = state_payload x c)"
  using salts_distinct by (auto simp: signed_values_def)

text \<open>C37: a token is good for what it was issued for, and only for a time. With a signer that is sound for the
  tokens the relay has issued, any text is accepted as a session exactly when it is a session token issued to
  that user at most 7 days ago, as an agent's owner token exactly when it is one issued to that owner at most 120
  seconds ago, and as the state of a login exactly when it is one issued for that address and cookie at
  most 600 seconds ago. A token of one kind in the place of another is rejected for its signature, whatever its
  age.\<close>

theorem tokens_separate:
  assumes "signer_sound sign loads now (signed_values S A Q)" and "\<forall>(t, u, n) \<in> S. n \<noteq> []" and "\<forall>(t, x, c) \<in> Q. c \<noteq> []"
  shows "(verify_session_cookie loads str_of tok = Inr i \<longleftrightarrow>
      (\<exists>t. (t, ident_user_id i, ident_username i) \<in> S \<and> issue (sign t) (ident_user_id i) (ident_username i) = Inr tok \<and>
        now - t \<le> 7 * 24 * 3600)) \<and>
    (verify_agent_owner_token loads tok = Inr u \<longleftrightarrow>
      (\<exists>t. (t, u) \<in> A \<and> issue_agent_owner_token (sign t) u = tok \<and> now - t \<le> 120)) \<and>
    (verify_oauth_state loads str_of tok = Inr (x, c) \<longleftrightarrow>
      (\<exists>t. (t, x, c) \<in> Q \<and> issue_oauth_state (sign t) x c = Inr tok \<and> now - t \<le> 600)) \<and>
    (\<forall>(t, u, n) \<in> S. issue (sign t) u n = Inr tok \<longrightarrow>
      verify_agent_owner_token loads tok = Inl (InvalidSessionError ''invalid signature'') \<and>
      verify_oauth_state loads str_of tok = Inl (InvalidSessionError ''invalid signature'')) \<and>
    (\<forall>(t, u) \<in> A. issue_agent_owner_token (sign t) u = tok \<longrightarrow>
      verify_session_cookie loads str_of tok = Inl (InvalidSessionError ''invalid signature'') \<and>
      verify_oauth_state loads str_of tok = Inl (InvalidSessionError ''invalid signature'')) \<and>
    (\<forall>(t, x, c) \<in> Q. issue_oauth_state (sign t) x c = Inr tok \<longrightarrow>
      verify_session_cookie loads str_of tok = Inl (InvalidSessionError ''invalid signature'') \<and>
      verify_agent_owner_token loads tok = Inl (InvalidSessionError ''invalid signature''))"
proof (intro conjI)
  note ld = loaded_iff [OF assms(1)] and bad = loads_other_salt [OF assms(1)]
  have d: "SESSION_SALT \<noteq> AGENT_SALT" "SESSION_SALT \<noteq> OIDC_STATE_SALT" "AGENT_SALT \<noteq> OIDC_STATE_SALT" using salts_distinct by auto
  show "verify_session_cookie loads str_of tok = Inr i \<longleftrightarrow>
      (\<exists>t. (t, ident_user_id i, ident_username i) \<in> S \<and> issue (sign t) (ident_user_id i) (ident_username i) = Inr tok \<and>
        now - t \<le> 7 * 24 * 3600)"
    unfolding verify_session_cookie_def verify_def res_bind_eq_Inr ld signed_iff SESSION_MAX_AGE_SECONDS_def
    using assms(2) by (cases i) (fastforce simp: to_identity_def session_payload_def issue_def)
  show "verify_agent_owner_token loads tok = Inr u \<longleftrightarrow>
      (\<exists>t. (t, u) \<in> A \<and> issue_agent_owner_token (sign t) u = tok \<and> now - t \<le> 120)"
    unfolding verify_agent_owner_token_def res_bind_eq_Inr ld signed_iff AGENT_TOKEN_MAX_AGE_SECONDS_def
    by (fastforce simp: agent_payload_def issue_agent_owner_token_def)
  show "verify_oauth_state loads str_of tok = Inr (x, c) \<longleftrightarrow>
      (\<exists>t. (t, x, c) \<in> Q \<and> issue_oauth_state (sign t) x c = Inr tok \<and> now - t \<le> 600)"
    unfolding verify_oauth_state_def res_bind_eq_Inr ld signed_iff OIDC_STATE_MAX_AGE_SECONDS_def
    using assms(3) by (fastforce simp: state_payload_def issue_oauth_state_def)
  have v: "verify_session_cookie loads str_of (sign t salt v) = Inl (InvalidSessionError ''invalid signature'')"
    if "(t, salt, v) \<in> signed_values S A Q" "salt \<noteq> SESSION_SALT" for t salt v
    using bad [OF that(1)] that(2) by (auto simp: verify_session_cookie_def verify_def)
  have w: "verify_agent_owner_token loads (sign t salt v) = Inl (InvalidSessionError ''invalid signature'')"
    if "(t, salt, v) \<in> signed_values S A Q" "salt \<noteq> AGENT_SALT" for t salt v
    using bad [OF that(1)] that(2) by (auto simp: verify_agent_owner_token_def)
  have y: "verify_oauth_state loads str_of (sign t salt v) = Inl (InvalidSessionError ''invalid signature'')"
    if "(t, salt, v) \<in> signed_values S A Q" "salt \<noteq> OIDC_STATE_SALT" for t salt v
    using bad [OF that(1)] that(2) by (auto simp: verify_oauth_state_def)
  have m: "(t, u, n) \<in> S \<Longrightarrow> (t, SESSION_SALT, session_payload u n) \<in> signed_values S A Q"
    "(t, u) \<in> A \<Longrightarrow> (t, AGENT_SALT, agent_payload u) \<in> signed_values S A Q"
    "(t, x, c) \<in> Q \<Longrightarrow> (t, OIDC_STATE_SALT, state_payload x c) \<in> signed_values S A Q" for t u n x c
    by (auto simp: signed_iff)
  show "\<forall>(t, u, n) \<in> S. issue (sign t) u n = Inr tok \<longrightarrow>
      verify_agent_owner_token loads tok = Inl (InvalidSessionError ''invalid signature'') \<and>
      verify_oauth_state loads str_of tok = Inl (InvalidSessionError ''invalid signature'')"
    using w [OF m(1)] y [OF m(1)] d by (auto simp: issue_def split: if_splits)
  show "\<forall>(t, u) \<in> A. issue_agent_owner_token (sign t) u = tok \<longrightarrow>
      verify_session_cookie loads str_of tok = Inl (InvalidSessionError ''invalid signature'') \<and>
      verify_oauth_state loads str_of tok = Inl (InvalidSessionError ''invalid signature'')"
    using v [OF m(2)] y [OF m(2)] d by (auto simp: issue_agent_owner_token_def)
  show "\<forall>(t, x, c) \<in> Q. issue_oauth_state (sign t) x c = Inr tok \<longrightarrow>
      verify_session_cookie loads str_of tok = Inl (InvalidSessionError ''invalid signature'') \<and>
      verify_agent_owner_token loads tok = Inl (InvalidSessionError ''invalid signature'')"
    using v [OF m(3)] w [OF m(3)] d by (auto simp: issue_oauth_state_def state_payload_def [symmetric] split: if_splits)
qed

definition demo_dumps :: dumps_fn where
  "demo_dumps salt v = salt @ (if v = session_payload 1 ''ann'' then ''.s'' else ''.a'')"

definition demo_loads :: loads_fn where
  "demo_loads salt token max_age =
     (if token = salt @ ''.s'' then Loaded (session_payload 1 ''ann'')
      else if token = salt @ ''.a'' then Loaded (agent_payload 1) else BadSignature)"

text \<open>A signer at time 200 that has signed one session, one owner token and one state at time 0.\<close>

definition demo_aged :: loads_fn where
  "demo_aged salt token max_age =
     (if token \<noteq> salt @ ''.'' \<or> salt \<notin> {SESSION_SALT, AGENT_SALT, OIDC_STATE_SALT} then BadSignature
      else if max_age < 200 then SignatureExpired
      else Loaded (if salt = SESSION_SALT then session_payload 1 ''ann'' else if salt = AGENT_SALT then agent_payload 1
        else state_payload ''/'' ''c''))"

theorem tokens_separate_witness:
  "verify_session_cookie demo_aged (\<lambda>_. []) (SESSION_SALT @ ''.'') = Inr \<lparr>ident_user_id = 1, ident_username = ''ann''\<rparr> \<and>
   verify_agent_owner_token demo_aged (AGENT_SALT @ ''.'') \<noteq> Inr 1 \<and>
   verify_oauth_state demo_aged (\<lambda>_. []) (OIDC_STATE_SALT @ ''.'') = Inr (''/'', ''c'')"
proof -
  let ?sign = "\<lambda>t :: nat. \<lambda>salt v. salt @ ''.''" and ?S = "{(0, 1, ''ann'')}" and ?A = "{(0, 1)}" and ?Q = "{(0, ''/'', ''c'')}"
  have "signer_sound ?sign demo_aged 200 (signed_values ?S ?A ?Q)"
    using salts_distinct by (auto simp: signer_sound_def signed_values_def demo_aged_def split: if_splits)
  note t = tokens_separate [where str_of = "\<lambda>_. []", OF this]
  show ?thesis
    using t [of "SESSION_SALT @ ''.''" "\<lparr>ident_user_id = 1, ident_username = ''ann''\<rparr>"] t [of "AGENT_SALT @ ''.''" _ 1]
      t [of "OIDC_STATE_SALT @ ''.''" _ _ "''/''" "''c''"]
    by (simp add: issue_def issue_oauth_state_def)
qed

text \<open>Signing up and logging in. With bcrypt functions that accept the hash they made, a user
  who signed up can log in under the stripped name with the same password, and gets the session
  token and the owner token of exactly the account that was created; a disabled account, a wrong
  password and an unknown name all give the same 401.\<close>

lemma signup_then_login:
  assumes "\<And>pw. checkpw pw (hashpw pw salt)" and "\<And>pw. hashpw pw salt \<noteq> []"
    and "signup hashpw salt name password em now db = Inr (u, db')"
  shows "login dumps checkpw admins (py_strip name) password db' =
      Inr (py_strip name, is_admin_username (py_strip name) admins,
        dumps SESSION_SALT (session_payload (uid u) (py_strip name))) \<and>
    agent_token dumps checkpw (py_strip name) password db' =
      Inr (issue_agent_owner_token dumps (uid u), uid u, py_strip name) \<and>
    (set_user_active (uid u) False db' = Inr db'' \<longrightarrow>
      login dumps checkpw admins (py_strip name) password db'' = Inl bad_login)"
proof -
  note r = signup_row [OF assms(3)]
  have c: "check_credentials checkpw (py_strip name) password db' = Inr u"
    using r assms(1,2) by (simp add: check_credentials_iff)
  have "check_credentials checkpw (py_strip name) password db'' = Inl bad_login"
    if d: "set_user_active (uid u) False db' = Inr db''"
  proof -
    have "users db'' = update_where (\<lambda>x. uid x = uid u) (\<lambda>x. x\<lparr>is_active := False\<rparr>) (users db')"
      using d by (auto simp: set_user_active_def split: if_splits)
    moreover have "fetchone (\<lambda>x. username x = py_strip name) (users db') = Some u"
      using r(6) by (auto simp: get_user_by_username_def split: option.splits)
    ultimately have "get_user_by_username (py_strip name) db'' = Inr (u\<lparr>is_active := False\<rparr>)"
      by (simp add: get_user_by_username_def fetchone_update_where)
    then show ?thesis using r(1,2) assms(2) by (simp add: check_credentials_def verify_password_def)
  qed
  with c r(4,5) show ?thesis by (auto simp: login_def agent_token_def issue_def)
qed

lemma signup_then_login_witness:
  "\<exists>u db'. signup (\<lambda>pw salt. salt @ 1 # pw) [9] ''bob'' ''pw'' None 0 two_groups = Inr (u, db') \<and>
     agent_token demo_dumps (\<lambda>pw h. h = [9] @ 1 # pw) (py_strip ''bob'') ''pw'' db' =
       Inr (issue_agent_owner_token demo_dumps (uid u), uid u, py_strip ''bob'')"
proof -
  have s: "py_strip ''bob'' = ''bob''" by code_simp
  have "length (utf8_encode ''pw'') = 2" by code_simp
  then obtain u db' where "signup (\<lambda>pw salt. salt @ 1 # pw) [9] ''bob'' ''pw'' None 0 two_groups = Inr (u, db')"
    by (simp add: signup_def hash_password_def BCRYPT_MAX_BYTES_def create_user_def s username_exists_def
        insert_user_def fetchone_def two_groups_eq Let_def)
  with signup_then_login [where checkpw = "\<lambda>pw h. h = [9] @ 1 # pw" and dumps = demo_dumps, OF _ _ this]
  show ?thesis by auto
qed

text \<open>Admin rights follow the lower-cased name while usernames are distinguished by case: with
  an admin \<open>alice\<close> configured and registered, anyone can sign up as \<open>Alice\<close> and is an admin too.\<close>

lemma admin_name_collision:
  assumes "hashpw (utf8_encode ''pw'') salt \<noteq> []" and "''Alice'' \<notin> username ` set (users db)"
    and "get_user_by_username ''alice'' db = Inr alice"
  shows "\<exists>u db'. signup hashpw salt ''Alice'' ''pw'' None now db = Inr (u, db') \<and> u \<noteq> alice \<and>
    is_admin_username (username u) {''alice''} \<and> is_admin_username (username alice) {''alice''}"
proof -
  have s: "py_strip ''Alice'' = ''Alice''" by code_simp
  have low: "is_admin_username ''Alice'' {''alice''}" "is_admin_username ''alice'' {''alice''}" by code_simp+
  have len: "length (utf8_encode ''pw'') = 2" by code_simp
  have "username alice = ''alice''"
    using assms(3) by (auto simp: get_user_by_username_def split: option.splits dest: fetchone_Some_mem)
  moreover have "fetchone (\<lambda>u. username u = ''Alice'') (users db) = None"
    using assms(2) by (auto simp: fetchone_None image_iff)
  moreover have "hash_password hashpw salt ''pw'' = Inr (hashpw (utf8_encode ''pw'') salt)"
    using len by (simp add: hash_password_def BCRYPT_MAX_BYTES_def)
  ultimately show ?thesis
    using low assms(1) by (auto simp: signup_def create_user_def s username_exists_def insert_user_def Let_def)
qed

lemma admin_name_collision_witness:
  "\<exists>u db' alice. get_user_by_username ''alice'' (account_step (CreateUser ''alice'' [1] None 0) create_store) = Inr alice \<and>
     signup (\<lambda>pw salt. salt @ pw) [9] ''Alice'' ''pw'' None 0
       (account_step (CreateUser ''alice'' [1] None 0) create_store) = Inr (u, db') \<and> u \<noteq> alice"
proof -
  have s: "py_strip ''alice'' = ''alice''" by code_simp
  let ?db = "account_step (CreateUser ''alice'' [1] None 0) create_store"
  have u: "users ?db = [\<lparr>uid = 1, username = ''alice'', email = None, password_hash = [1],
      user_created_at = 0, is_active = True\<rparr>]"
    by (simp add: account_step_def or_keep_def map_ok_def create_user_def s username_exists_def
        insert_user_def fetchone_def create_store_def Let_def)
  then obtain alice where a: "get_user_by_username ''alice'' ?db = Inr alice"
    by (simp add: get_user_by_username_def fetchone_def)
  from admin_name_collision [OF _ _ a, of "\<lambda>pw salt. salt @ pw" "[9]" 0] a u show ?thesis by auto
qed

end
