(* ===== verification/Proxy_Identity.thy ===== *)
theory Proxy_Identity
  imports Relay_Session
begin

text \<open>
  How the relay's decision about a request reaches the file server behind a mount.

  The relay (\<open>relay/app/routers/mount_proxy.py\<close>) authorises the request, drops every \<open>X-WFS-*\<close>
  header the client sent and, for an identified user, adds its own, signed with the mount's secret
  (\<open>shared/identity_sig.py\<close>). The server (\<open>server/app/services/relay_identity.py\<close>) believes these
  headers only with a valid signature; its guards (\<open>middleware/mode_guard.py\<close>,
  \<open>middleware/auth_middleware.py\<close>) and the \<open>dependencies\<close> of its routes decide from them.

  HMAC-SHA256 (key and message to hex digest) is the argument \<open>mac\<close>, the signer of session cookies
  the argument \<open>loads\<close>, and the server's lookup of a header by its lower-case name the argument
  \<open>get\<close>. A Python dict of headers is an association list.
\<close>

section \<open>Signing (shared/identity_sig.py)\<close>

type_synonym mac_fn = "bytes \<Rightarrow> bytes \<Rightarrow> str"

datatype sig_exn = SigValueError | SigTypeError

definition IDENTITY_SIG_HEADER :: str where "IDENTITY_SIG_HEADER = ''x-wfs-identity-sig''"

definition nl :: str where "nl = [CHR 10]"

definition canonical :: "str \<Rightarrow> str \<Rightarrow> bool \<Rightarrow> bytes" where
  "canonical user role bypass = utf8_encode (user @ nl @ role @ nl @ (if bypass then ''1'' else ''0''))"

definition sign_identity :: "mac_fn \<Rightarrow> str \<Rightarrow> str \<Rightarrow> str \<Rightarrow> bool \<Rightarrow> (sig_exn, str) result" where
  "sign_identity mac secret user role bypass =
     (if length secret = 0 then Inl SigValueError
      else Inr (mac (utf8_encode secret) (canonical user role bypass)))"

text \<open>\<open>hmac.compare_digest\<close> raises \<open>TypeError\<close> on strings with non-ASCII characters.\<close>

definition is_ascii :: "str \<Rightarrow> bool" where
  "is_ascii s = list_all (\<lambda>c. (of_char c :: nat) < 128) s"

definition compare_digest :: "str \<Rightarrow> str \<Rightarrow> (sig_exn, bool) result" where
  "compare_digest a b = (if is_ascii a \<and> is_ascii b then Inr (a = b) else Inl SigTypeError)"

definition verify_identity :: "mac_fn \<Rightarrow> str \<Rightarrow> str \<Rightarrow> str \<Rightarrow> bool \<Rightarrow> str \<Rightarrow> (sig_exn, bool) result" where
  "verify_identity mac secret user role bypass signature =
     (if length secret = 0 then Inl SigValueError
      else if length signature = 0 then Inr False
      else res_bind (sign_identity mac secret user role bypass) (\<lambda>expected.
        compare_digest expected signature))"

section \<open>The relay's side (relay/app/routers/mount_proxy.py)\<close>

fun role_value :: "Role \<Rightarrow> str" where
  "role_value READ = ''read''"
| "role_value WRITE = ''write''"
| "role_value RECEIVE = ''receive''"

definition HOP_BY_HOP :: "str list" where
  "HOP_BY_HOP = [''connection'', ''keep-alive'', ''te'', ''trailers'', ''transfer-encoding'', ''upgrade'',
     ''proxy-authenticate'', ''proxy-authorization'']"

type_synonym headers = "(str \<times> str) list"

definition wfs_header :: "str \<Rightarrow> bool" where
  "wfs_header name = py_startswith (py_lower name) ''x-wfs-''"

definition not_forwarded :: "str \<Rightarrow> bool" where
  "not_forwarded name \<longleftrightarrow>
     py_lower name \<in> set HOP_BY_HOP \<or> py_lower name = ''host'' \<or> wfs_header name"

definition dict_of :: "headers \<Rightarrow> headers" where
  "dict_of items = fold (\<lambda>(k, v) d. AList.update k v d) items []"

text \<open>\<open>items\<close> is \<open>request.headers.items()\<close>, \<open>host\<close> is \<open>request.headers.get("host", "")\<close>.\<close>

definition forward_headers :: "str \<Rightarrow> headers \<Rightarrow> headers" where
  "forward_headers host items = AList.update ''host'' host
     (fold (\<lambda>(name, v) d. if not_forwarded name then d else AList.update name v d) items [])"

definition inject_identity ::
  "mac_fn \<Rightarrow> headers \<Rightarrow> str \<Rightarrow> str \<Rightarrow> str option \<Rightarrow> (sig_exn, headers) result" where
  "inject_identity mac hdrs name role_val secret =
     (let h1 = AList.update ''x-wfs-user'' name hdrs;
          h2 = AList.update ''x-wfs-role'' role_val h1;
          h3 = AList.update ''x-wfs-auth-bypass'' ''1'' h2
      in case secret of
           None \<Rightarrow> Inr h3
         | Some s \<Rightarrow> res_bind (sign_identity mac s name role_val True) (\<lambda>sig.
             Inr (AList.update IDENTITY_SIG_HEADER sig h3)))"

record http_request =
  url_path :: str
  url_query :: str
  accept_header :: str
  host_header :: str
  header_items :: headers

datatype proxy_exn =
    ProxySignature sig_exn
  | ProxyAttributeError
  | ProxyAccounts account_exn
  | ProxyRegistry registry_exn

datatype proxy_reply =
    LoginRedirect str
  | JsonUnauthorized
  | ForbiddenPage
  | NotFoundPage
  | OfflinePage
  | ExpiredPage
  | ToLocal headers
  | ToTunnel conn_ref headers

text \<open>\<open>urllib.parse.quote\<close> with no safe characters beyond the unreserved ones.\<close>

definition hex_digit :: "nat \<Rightarrow> char" where
  "hex_digit n = (if n < 10 then char_of (48 + n) else char_of (55 + n))"

definition quote_byte :: "byte \<Rightarrow> str" where
  "quote_byte b = (let n = unat b in
     if 48 \<le> n \<and> n \<le> 57 \<or> 65 \<le> n \<and> n \<le> 90 \<or> 97 \<le> n \<and> n \<le> 122 \<or> n \<in> {45, 46, 95, 126}
     then [char_of n] else [CHR ''%'', hex_digit (n div 16), hex_digit (n mod 16)])"

definition quote :: "str \<Rightarrow> str" where
  "quote s = concat (map quote_byte (utf8_encode s))"

definition login_url :: "http_request \<Rightarrow> str" where
  "login_url rq = ''/login?next='' @
     quote (if url_query rq = [] then url_path rq else url_path rq @ ''?'' @ url_query rq)"

text \<open>An identified decision carries a name and a role; \<open>decision.role.value\<close> on \<open>None\<close> would raise.\<close>

definition identity_headers ::
  "mac_fn \<Rightarrow> registry \<Rightarrow> str \<Rightarrow> AccessDecision \<Rightarrow> headers \<Rightarrow> (proxy_exn, headers) result" where
  "identity_headers mac reg code d hdrs =
     (if identified d then
        (case (decision_username d, decision_role d) of
           (Some name, Some r) \<Rightarrow>
             (case inject_identity mac hdrs name (role_value r) (get_identity_secret code reg) of
                Inl e \<Rightarrow> Inl (ProxySignature e) | Inr h \<Rightarrow> Inr h)
         | _ \<Rightarrow> Inl ProxyAttributeError)
      else Inr hdrs)"

text \<open>\<open>proxy_request\<close> up to the point where the request is handed over, to a local mount or into the
  tunnel. The outer \<open>None\<close> is an account resolution that does not return.\<close>

definition proxy_admit ::
  "mac_fn \<Rightarrow> (conn_ref \<Rightarrow> bool) \<Rightarrow> str list \<Rightarrow> registry \<Rightarrow> accounts_db option \<Rightarrow> SessionIdentity option \<Rightarrow>
   str \<Rightarrow> http_request \<Rightarrow> (proxy_exn, proxy_reply) result option" where
  "proxy_admit mac dead local_mounts reg store ident code rq =
     (if code \<in> set local_mounts
      then Some (Inr (ToLocal (dict_of (filter (\<lambda>(k, v). \<not> wfs_header k) (header_items rq)))))
      else (case authorize reg store code ident of
          None \<Rightarrow> None
        | Some (Inl (AuthenticationRequiredError c)) \<Rightarrow>
            Some (Inr (if py_contains (accept_header rq) ''text/html''
                       then LoginRedirect (login_url rq) else JsonUnauthorized))
        | Some (Inl (AccessDeniedError c n)) \<Rightarrow> Some (Inr ForbiddenPage)
        | Some (Inl (AccountFailure e)) \<Rightarrow> Some (Inl (ProxyAccounts e))
        | Some (Inr d) \<Rightarrow> Some (case get_connection dead code reg of
            Inl (MountNotFoundError c) \<Rightarrow> Inr NotFoundPage
          | Inl (MountOfflineError c) \<Rightarrow> Inr OfflinePage
          | Inl (MountExpiredError c) \<Rightarrow> Inr ExpiredPage
          | Inl e \<Rightarrow> Inl (ProxyRegistry e)
          | Inr tun \<Rightarrow>
              res_bind (identity_headers mac reg code d
                  (forward_headers (host_header rq) (header_items rq))) (\<lambda>hdrs.
                Inr (ToTunnel tun hdrs)))))"

datatype ws_reply = WsClosed nat | WsLocal headers | WsTunnel conn_ref headers

definition ws_admit ::
  "mac_fn \<Rightarrow> (conn_ref \<Rightarrow> bool) \<Rightarrow> str list \<Rightarrow> registry \<Rightarrow> accounts_db option \<Rightarrow> SessionIdentity option \<Rightarrow>
   str \<Rightarrow> http_request \<Rightarrow> (proxy_exn, ws_reply) result option" where
  "ws_admit mac dead local_mounts reg store ident code rq =
     (if code \<in> set local_mounts
      then Some (Inr (WsLocal (dict_of (filter (\<lambda>(k, v). py_lower k \<notin> set HOP_BY_HOP \<and>
             py_lower k \<noteq> ''host'') (header_items rq)))))
      else (case authorize reg store code ident of
          None \<Rightarrow> None
        | Some (Inl (AccountFailure e)) \<Rightarrow> Some (Inl (ProxyAccounts e))
        | Some (Inl e) \<Rightarrow> Some (Inr (WsClosed 1008))
        | Some (Inr d) \<Rightarrow> Some (case get_connection dead code reg of
            Inl (MountNotFoundError c) \<Rightarrow> Inr (WsClosed 1011)
          | Inl (MountOfflineError c) \<Rightarrow> Inr (WsClosed 1011)
          | Inl (MountExpiredError c) \<Rightarrow> Inr (WsClosed 1011)
          | Inl e \<Rightarrow> Inl (ProxyRegistry e)
          | Inr tun \<Rightarrow>
              res_bind (identity_headers mac reg code d
                  (forward_headers (host_header rq) (header_items rq))) (\<lambda>hdrs.
                Inr (WsTunnel tun hdrs)))))"

definition mount_status :: "(conn_ref \<Rightarrow> bool) \<Rightarrow> registry \<Rightarrow> str \<Rightarrow> (registry_exn, str) result" where
  "mount_status dead reg code = (case get_connection dead code reg of
     Inr k \<Rightarrow> Inr ''online''
   | Inl (NoTunnelError c) \<Rightarrow> Inr ''online''
   | Inl (MountOfflineError c) \<Rightarrow> Inr ''offline''
   | Inl (MountExpiredError c) \<Rightarrow> Inr ''expired''
   | Inl (MountNotFoundError c) \<Rightarrow> Inr ''not_found''
   | Inl e \<Rightarrow> Inl e)"

section \<open>The server's side (server/app)\<close>

record server_config =
  cfg_shared_folder :: str
  cfg_password_hash :: "bytes option"
  cfg_read_only :: bool
  cfg_receive :: bool
  cfg_mount_code :: "str option"
  cfg_identity_secret :: "str option"

type_synonym lookup = "str \<Rightarrow> str option"

definition is_relay_served :: "server_config \<Rightarrow> bool" where
  "is_relay_served cfg = (cfg_mount_code cfg \<noteq> None)"

definition verified_identity ::
  "mac_fn \<Rightarrow> server_config \<Rightarrow> lookup \<Rightarrow> (sig_exn, (str \<times> str \<times> bool) option) result" where
  "verified_identity mac cfg get =
     (if \<not> is_relay_served cfg then Inr None
      else (case cfg_identity_secret cfg of
          None \<Rightarrow> Inr None
        | Some secret \<Rightarrow>
            (case (get ''x-wfs-user'', get ''x-wfs-role'', get IDENTITY_SIG_HEADER) of
               (Some user, Some role, Some signature) \<Rightarrow>
                 (let bypass = (get ''x-wfs-auth-bypass'' = Some ''1'') in
                  res_bind (verify_identity mac secret user role bypass signature) (\<lambda>ok.
                    Inr (if ok then Some (user, role, bypass) else None)))
             | _ \<Rightarrow> Inr None)))"

definition Role_of :: "str \<Rightarrow> Role option" where
  "Role_of s = (if s = ''read'' then Some READ else if s = ''write'' then Some WRITE
     else if s = ''receive'' then Some RECEIVE else None)"

definition trusted_role :: "mac_fn \<Rightarrow> server_config \<Rightarrow> lookup \<Rightarrow> (sig_exn, Role option) result" where
  "trusted_role mac cfg get = res_bind (verified_identity mac cfg get) (\<lambda>v. Inr (case v of
     None \<Rightarrow> None | Some (user, role, bypass) \<Rightarrow> Role_of role))"

definition trusted_user :: "mac_fn \<Rightarrow> server_config \<Rightarrow> lookup \<Rightarrow> (sig_exn, str option) result" where
  "trusted_user mac cfg get = res_bind (verified_identity mac cfg get) (\<lambda>v. Inr (case v of
     None \<Rightarrow> None | Some (user, role, bypass) \<Rightarrow> Some user))"

definition is_auth_bypassed :: "mac_fn \<Rightarrow> server_config \<Rightarrow> lookup \<Rightarrow> (sig_exn, bool) result" where
  "is_auth_bypassed mac cfg get = res_bind (verified_identity mac cfg get) (\<lambda>v. Inr (case v of
     None \<Rightarrow> False | Some (user, role, bypass) \<Rightarrow> bypass))"

subsection \<open>Guards (middleware/mode_guard.py)\<close>

datatype guard_exn = ReadOnlyError | ReceiveDenied | GuardSignature sig_exn

definition lift_sig :: "(sig_exn, 'a) result \<Rightarrow> (guard_exn, 'a) result" where
  "lift_sig r = (case r of Inl e \<Rightarrow> Inl (GuardSignature e) | Inr a \<Rightarrow> Inr a)"

definition require_write_access :: "mac_fn \<Rightarrow> server_config \<Rightarrow> lookup \<Rightarrow> (guard_exn, unit) result" where
  "require_write_access mac cfg get = res_bind (lift_sig (trusted_role mac cfg get)) (\<lambda>role.
     case role of
       Some r \<Rightarrow> if r = READ then Inl ReadOnlyError else Inr ()
     | None \<Rightarrow> if cfg_read_only cfg then Inl ReadOnlyError else Inr ())"

definition require_full_access :: "mac_fn \<Rightarrow> server_config \<Rightarrow> lookup \<Rightarrow> (guard_exn, unit) result" where
  "require_full_access mac cfg get = res_bind (lift_sig (trusted_role mac cfg get)) (\<lambda>role.
     case role of
       Some r \<Rightarrow> if r = RECEIVE then Inl ReceiveDenied else Inr ()
     | None \<Rightarrow> if cfg_receive cfg then Inl ReceiveDenied else Inr ())"

definition require_browse_access :: "mac_fn \<Rightarrow> server_config \<Rightarrow> lookup \<Rightarrow> (guard_exn, unit) result" where
  "require_browse_access mac cfg get = res_bind (lift_sig (trusted_role mac cfg get)) (\<lambda>role.
     case role of
       Some r \<Rightarrow> Inr ()
     | None \<Rightarrow> if cfg_receive cfg then Inl ReceiveDenied else Inr ())"

definition receive_scope_user :: "mac_fn \<Rightarrow> server_config \<Rightarrow> lookup \<Rightarrow> (sig_exn, str option) result" where
  "receive_scope_user mac cfg get = res_bind (trusted_role mac cfg get) (\<lambda>role.
     if role \<noteq> Some RECEIVE then Inr None else trusted_user mac cfg get)"

subsection \<open>Password gate (middleware/auth_middleware.py, services/auth_service.py)\<close>

definition validate_token :: "(str \<Rightarrow> loads_result) \<Rightarrow> str \<Rightarrow> bool" where
  "validate_token loads token = (case loads token of Loaded d \<Rightarrow> True | _ \<Rightarrow> False)"

definition EXEMPT_API_PREFIXES :: "str list" where
  "EXEMPT_API_PREFIXES = [''/api/auth/login'', ''/api/auth/logout'', ''/api/server-info'']"

text \<open>The middleware is installed only in an app with a password. \<open>cookie\<close> is the value of the
  \<open>session\<close> cookie. \<open>Inr True\<close> passes the request on, \<open>Inr False\<close> is the 401 reply.\<close>

definition auth_gate ::
  "mac_fn \<Rightarrow> (str \<Rightarrow> loads_result) \<Rightarrow> server_config \<Rightarrow> str \<Rightarrow> str \<Rightarrow> lookup \<Rightarrow> str option \<Rightarrow> (sig_exn, bool) result" where
  "auth_gate mac loads cfg scope_type path get cookie =
     (if cfg_password_hash cfg = None then Inr True
      else if scope_type \<noteq> ''http'' then Inr True
      else if \<not> py_startswith path ''/api/'' then Inr True
      else if list_ex (py_startswith path) EXEMPT_API_PREFIXES then Inr True
      else res_bind (is_auth_bypassed mac cfg get) (\<lambda>bypassed.
        if bypassed then Inr True
        else Inr (case cookie of None \<Rightarrow> False | Some token \<Rightarrow> validate_token loads token)))"

subsection \<open>Routes and their dependencies (routers/*.py)\<close>

datatype guard = WriteAccess | FullAccess | BrowseAccess

fun run_guard :: "mac_fn \<Rightarrow> server_config \<Rightarrow> lookup \<Rightarrow> guard \<Rightarrow> (guard_exn, unit) result" where
  "run_guard mac cfg get WriteAccess = require_write_access mac cfg get"
| "run_guard mac cfg get FullAccess = require_full_access mac cfg get"
| "run_guard mac cfg get BrowseAccess = require_browse_access mac cfg get"

datatype files_route = GetFiles | UploadFiles | DownloadSingleFile | DownloadZip | RenameFile | DeleteFiles
  | CreateNewFolder | SearchFiles | PreviewFile
datatype clipboard_route = ListSnippets | CreateSnippet | UpdateSnippetTitle | DeleteSnippet
datatype requests_route = ListFileRequests | CreateFileRequest | FulfillFileRequest | DismissFileRequest
datatype share_route = CreateShareLink | ListShareLinks | RevokeShareLink
datatype route = Files files_route | Clipboard clipboard_route | Requests requests_route
  | Share share_route | ShareUpload

fun files_guards :: "files_route \<Rightarrow> guard list" where
  "files_guards GetFiles = [BrowseAccess]"
| "files_guards UploadFiles = [WriteAccess]"
| "files_guards DownloadSingleFile = [BrowseAccess]"
| "files_guards DownloadZip = [BrowseAccess]"
| "files_guards RenameFile = [WriteAccess, FullAccess]"
| "files_guards DeleteFiles = [WriteAccess, FullAccess]"
| "files_guards CreateNewFolder = [WriteAccess, FullAccess]"
| "files_guards SearchFiles = [BrowseAccess]"
| "files_guards PreviewFile = [BrowseAccess]"

fun clipboard_guards :: "clipboard_route \<Rightarrow> guard list" where
  "clipboard_guards ListSnippets = [FullAccess]"
| "clipboard_guards CreateSnippet = [WriteAccess, FullAccess]"
| "clipboard_guards UpdateSnippetTitle = [WriteAccess, FullAccess]"
| "clipboard_guards DeleteSnippet = [WriteAccess, FullAccess]"

fun requests_guards :: "requests_route \<Rightarrow> guard list" where
  "requests_guards ListFileRequests = [FullAccess]"
| "requests_guards CreateFileRequest = [WriteAccess, FullAccess]"
| "requests_guards FulfillFileRequest = [WriteAccess, FullAccess]"
| "requests_guards DismissFileRequest = [WriteAccess, FullAccess]"

fun share_guards :: "share_route \<Rightarrow> guard list" where
  "share_guards CreateShareLink = [WriteAccess, FullAccess]"
| "share_guards ListShareLinks = [WriteAccess, FullAccess]"
| "share_guards RevokeShareLink = [WriteAccess, FullAccess]"

fun route_guards :: "route \<Rightarrow> guard list" where
  "route_guards (Files r) = files_guards r"
| "route_guards (Clipboard r) = clipboard_guards r"
| "route_guards (Requests r) = requests_guards r"
| "route_guards (Share r) = share_guards r"
| "route_guards ShareUpload = [WriteAccess]"

text \<open>The dependencies of a route run in order; the first that raises ends the request.\<close>

fun run_guards :: "mac_fn \<Rightarrow> server_config \<Rightarrow> lookup \<Rightarrow> guard list \<Rightarrow> (guard_exn, unit) result" where
  "run_guards mac cfg get [] = Inr ()"
| "run_guards mac cfg get (g # gs) = res_bind (run_guard mac cfg get g) (\<lambda>_. run_guards mac cfg get gs)"

definition route_allowed :: "mac_fn \<Rightarrow> server_config \<Rightarrow> lookup \<Rightarrow> route \<Rightarrow> bool" where
  "route_allowed mac cfg get r = is_ok (run_guards mac cfg get (route_guards r))"

section \<open>Lemmas\<close>

subsection \<open>Signatures\<close>

lemma role_value_Role_of [simp]: "Role_of (role_value r) = Some r"
  by (cases r) (simp_all add: Role_of_def)

lemma role_value_no_nl: "CHR 10 \<notin> set (role_value r)"
  by (cases r) auto

lemma split_last_nl:
  assumes "u @ nl @ r = u' @ nl @ r'" and "CHR 10 \<notin> set r" and "CHR 10 \<notin> set r'"
  shows "u = u' \<and> r = r'"
proof -
  have tw: "takeWhile (\<lambda>c. c \<noteq> CHR 10) (rev (w @ nl @ s)) = rev s" if "CHR 10 \<notin> set s" for w s :: str
  proof -
    have "takeWhile (\<lambda>c. c \<noteq> CHR 10) (rev s @ CHR 10 # rev w) = rev s @ takeWhile (\<lambda>c. c \<noteq> CHR 10) (CHR 10 # rev w)"
      using that by (intro takeWhile_append2) auto
    then show ?thesis by (simp add: nl_def)
  qed
  have "rev r = rev r'" using tw [OF assms(2), of u] tw [OF assms(3), of u'] assms(1) by simp
  with assms(1) show ?thesis by simp
qed

lemma canonical_inject:
  assumes "canonical u r b = canonical u' r' b'" and "CHR 10 \<notin> set r" and "CHR 10 \<notin> set r'"
  shows "u = u' \<and> r = r' \<and> b = b'"
proof -
  let ?f = "\<lambda>b. if b then ''1'' else ''0''"
  have "(u @ nl @ r) @ nl @ ?f b = (u' @ nl @ r') @ nl @ ?f b'"
    using utf8_encode_inject [OF assms(1) [unfolded canonical_def]] by simp
  moreover have "CHR 10 \<notin> set (?f b)" "CHR 10 \<notin> set (?f b')" by (cases b; simp)+
  ultimately have e: "u @ nl @ r = u' @ nl @ r' \<and> ?f b = ?f b'" by (rule split_last_nl)
  then have "u = u' \<and> r = r'" using split_last_nl [OF _ assms(2,3)] by blast
  with e show ?thesis by (cases b; cases b') simp_all
qed

subsection \<open>Headers\<close>

definition keys :: "headers \<Rightarrow> str set" where
  "keys h = fst ` set h"

definition look :: "headers \<Rightarrow> lookup" where
  "look h n = map_of (map (\<lambda>(k, v). (py_lower k, v)) h) n"

text \<open>No \<open>X-WFS-*\<close> name occurs in two spellings.\<close>

definition clean :: "headers \<Rightarrow> bool" where
  "clean h \<longleftrightarrow> (\<forall>k \<in> keys h. wfs_header k \<longrightarrow> py_lower k = k)"

lemma keys_update [simp]: "keys (AList.update k v h) = insert k (keys h)"
  by (simp add: keys_def dom_map_of_conv_image_fst [symmetric] update_conv')

lemma keys_Nil [simp]: "keys [] = {}"
  by (simp add: keys_def)

lemma look_None: "look h n = None \<longleftrightarrow> (\<forall>k \<in> keys h. py_lower k \<noteq> n)"
  by (auto simp: look_def map_of_eq_None_iff image_iff keys_def)

lemma look_update:
  assumes "py_lower k = k" and "\<forall>k' \<in> keys h. py_lower k' = k \<longrightarrow> k' = k"
  shows "look (AList.update k v h) = (look h)(k \<mapsto> v)"
  using assms(2) by (induction h) (auto simp: look_def keys_def assms(1) fun_eq_iff)

lemma look_update_wfs:
  assumes "py_lower k = k" and "wfs_header k" and "clean h"
  shows "look (AList.update k v h) = (look h)(k \<mapsto> v)" and "clean (AList.update k v h)"
proof -
  have "\<forall>k' \<in> keys h. py_lower k' = k \<longrightarrow> k' = k"
  proof (intro ballI impI)
    fix k' assume "k' \<in> keys h" "py_lower k' = k"
    moreover from this have "wfs_header k'" using assms(1,2) by (simp add: wfs_header_def)
    ultimately show "k' = k" using assms(3) by (auto simp: clean_def)
  qed
  with assms(1) show "look (AList.update k v h) = (look h)(k \<mapsto> v)" by (rule look_update)
  show "clean (AList.update k v h)" using assms by (auto simp: clean_def)
qed

lemma forward_no_wfs: "\<forall>k \<in> keys (forward_headers host items). \<not> wfs_header k"
proof -
  let ?f = "\<lambda>(name, v) d. if not_forwarded name then d else AList.update name v d"
  have "\<forall>k \<in> keys (fold ?f items d). \<not> wfs_header k" if "\<forall>k \<in> keys d. \<not> wfs_header k" for d
    using that
  proof (induction items arbitrary: d)
    case (Cons a items)
    have "\<forall>k \<in> keys (?f a d). \<not> wfs_header k"
      using Cons.prems by (cases a) (simp add: not_forwarded_def)
    from Cons.IH [OF this] show ?case by simp
  qed simp
  from this [of "[]"] show ?thesis
    by (auto simp: forward_headers_def wfs_header_def py_lower_def py_lower_char_def py_startswith_def)
qed

lemma forward_clean: "clean (forward_headers host items)"
  using forward_no_wfs by (auto simp: clean_def)

lemma wfs_names [simp]:
  "wfs_header ''x-wfs-user''" "wfs_header ''x-wfs-role''" "wfs_header ''x-wfs-auth-bypass''"
  "wfs_header IDENTITY_SIG_HEADER"
  "py_lower ''x-wfs-user'' = ''x-wfs-user''" "py_lower ''x-wfs-role'' = ''x-wfs-role''"
  "py_lower ''x-wfs-auth-bypass'' = ''x-wfs-auth-bypass''" "py_lower IDENTITY_SIG_HEADER = IDENTITY_SIG_HEADER"
  by (simp_all add: wfs_header_def py_lower_def py_lower_char_def py_startswith_def IDENTITY_SIG_HEADER_def)

lemma wfs_distinct [simp]:
  "IDENTITY_SIG_HEADER \<noteq> ''x-wfs-user''" "IDENTITY_SIG_HEADER \<noteq> ''x-wfs-role''"
  "IDENTITY_SIG_HEADER \<noteq> ''x-wfs-auth-bypass''" "''x-wfs-user'' \<noteq> IDENTITY_SIG_HEADER"
  "''x-wfs-role'' \<noteq> IDENTITY_SIG_HEADER" "''x-wfs-auth-bypass'' \<noteq> IDENTITY_SIG_HEADER"
  by (simp_all add: IDENTITY_SIG_HEADER_def)

lemma inject_look:
  assumes "inject_identity mac h name rv secret = Inr h'" and "\<forall>k \<in> keys h. \<not> wfs_header k"
  shows "look h' ''x-wfs-user'' = Some name \<and> look h' ''x-wfs-role'' = Some rv \<and>
    look h' ''x-wfs-auth-bypass'' = Some ''1'' \<and>
    look h' IDENTITY_SIG_HEADER = map_option (\<lambda>s. mac (utf8_encode s) (canonical name rv True)) secret \<and>
    secret \<noteq> Some []"
proof -
  let ?h1 = "AList.update ''x-wfs-user'' name h"
  let ?h2 = "AList.update ''x-wfs-role'' rv ?h1"
  let ?h3 = "AList.update ''x-wfs-auth-bypass'' ''1'' ?h2"
  have c: "clean h" "clean ?h1" "clean ?h2" "clean ?h3"
    using assms(2) by (auto simp: clean_def)
  have "look h IDENTITY_SIG_HEADER = None" using assms(2) wfs_names(4)
    by (auto simp: look_None wfs_header_def)
  then have l: "look ?h3 = (look h)(''x-wfs-user'' \<mapsto> name, ''x-wfs-role'' \<mapsto> rv, ''x-wfs-auth-bypass'' \<mapsto> ''1'')"
    "look h IDENTITY_SIG_HEADER = None"
    by (simp_all add: look_update_wfs(1) c)
  show ?thesis
  proof (cases secret)
    case None
    then have "h' = ?h3" using assms(1) by (simp add: inject_identity_def Let_def)
    with None l show ?thesis by simp
  next
    case (Some s)
    then have "h' = AList.update IDENTITY_SIG_HEADER (mac (utf8_encode s) (canonical name rv True)) ?h3" "s \<noteq> []"
      using assms(1) by (auto simp: inject_identity_def sign_identity_def Let_def split: if_splits)
    with Some l show ?thesis by (simp add: look_update_wfs(1) c)
  qed
qed

lemma forward_look:
  assumes "wfs_header n" "py_lower n = n"
  shows "look (forward_headers host items) n = None"
  using forward_no_wfs [of host items] assms by (auto simp: look_None wfs_header_def)

subsection \<open>Decisions\<close>

lemma fallback_unidentified: "fallback_decision p code ident = Inr d \<Longrightarrow> \<not> identified d \<and> decision_role d = None"
  by (auto simp: fallback_decision_def passthrough_def split: if_splits option.splits)

lemma authorize_shape:
  assumes "authorize reg store code ident = Some (Inr d)"
  shows "identified d \<longleftrightarrow> decision_role d \<noteq> None"
    and "identified d \<Longrightarrow> \<exists>i. ident = Some i \<and> decision_username d = Some (ident_username i)"
  using assms
  by (auto simp: authorize_def passthrough_def dest: fallback_unidentified
      split: sum.splits option.splits)

lemma proxy_admit_tunnel:
  assumes "proxy_admit mac dead locals reg store ident code rq = Some (Inr (ToTunnel tun hdrs))"
  obtains d where "authorize reg store code ident = Some (Inr d)" "get_connection dead code reg = Inr tun"
    "identity_headers mac reg code d (forward_headers (host_header rq) (header_items rq)) = Inr hdrs"
  using assms
  by (auto simp: proxy_admit_def res_bind_eq_Inr res_bind_eq_Inl split: if_splits option.splits sum.splits
      access_exn.splits registry_exn.splits)

lemma ws_admit_tunnel:
  assumes "ws_admit mac dead locals reg store ident code rq = Some (Inr (WsTunnel tun hdrs))"
  obtains d where "authorize reg store code ident = Some (Inr d)" "get_connection dead code reg = Inr tun"
    "identity_headers mac reg code d (forward_headers (host_header rq) (header_items rq)) = Inr hdrs"
  using assms
  by (auto simp: ws_admit_def res_bind_eq_Inr res_bind_eq_Inl split: if_splits option.splits sum.splits
      access_exn.splits registry_exn.splits)

text \<open>What the transport keeps of the identity headers.\<close>

definition transported :: "headers \<Rightarrow> lookup \<Rightarrow> bool" where
  "transported hdrs get \<longleftrightarrow>
     (\<forall>n \<in> {''x-wfs-user'', ''x-wfs-role'', ''x-wfs-auth-bypass'', IDENTITY_SIG_HEADER}. get n = look hdrs n)"

lemma verified_relay:
  assumes "identity_headers mac reg code d (forward_headers host items) = Inr hdrs"
    and "\<And>k m. mac k m \<noteq> [] \<and> is_ascii (mac k m)"
    and "is_relay_served cfg" and "cfg_identity_secret cfg = get_identity_secret code reg"
    and "transported hdrs get"
  shows "verified_identity mac cfg get = Inr (if identified d \<and> cfg_identity_secret cfg \<noteq> None
    then Some (the (decision_username d), role_value (the (decision_role d)), True) else None)"
proof (cases "identified d")
  case False
  then have "hdrs = forward_headers host items" using assms(1) by (simp add: identity_headers_def)
  then have "get ''x-wfs-user'' = None" using assms(5) by (simp add: transported_def forward_look)
  with False show ?thesis by (simp add: verified_identity_def split: option.split)
next
  case True
  then obtain name r where d: "decision_username d = Some name" "decision_role d = Some r"
    and i: "inject_identity mac (forward_headers host items) name (role_value r) (get_identity_secret code reg) = Inr hdrs"
    using assms(1) by (auto simp: identity_headers_def split: option.splits sum.splits)
  note l = inject_look [OF i forward_no_wfs]
  have g: "get ''x-wfs-user'' = Some name" "get ''x-wfs-role'' = Some (role_value r)"
    "get ''x-wfs-auth-bypass'' = Some ''1''"
    "get IDENTITY_SIG_HEADER = map_option (\<lambda>s. mac (utf8_encode s) (canonical name (role_value r) True))
       (get_identity_secret code reg)"
    using l assms(5) by (simp_all add: transported_def)
  show ?thesis
  proof (cases "get_identity_secret code reg")
    case None
    then show ?thesis using assms(3,4) by (simp add: verified_identity_def)
  next
    case (Some s)
    then have "s \<noteq> []" using l by auto
    then show ?thesis using True Some g d assms(2-4)
      by (simp add: verified_identity_def verify_identity_def sign_identity_def compare_digest_def)
  qed
qed

subsection \<open>Guards\<close>

lemma guard_trusted:
  assumes "trusted_role mac cfg get = Inr ro"
  shows "is_ok (run_guard mac cfg get g) \<longleftrightarrow> (case g of
      WriteAccess \<Rightarrow> (case ro of Some r \<Rightarrow> r \<noteq> READ | None \<Rightarrow> \<not> cfg_read_only cfg)
    | FullAccess \<Rightarrow> (case ro of Some r \<Rightarrow> r \<noteq> RECEIVE | None \<Rightarrow> \<not> cfg_receive cfg)
    | BrowseAccess \<Rightarrow> (case ro of Some r \<Rightarrow> True | None \<Rightarrow> \<not> cfg_receive cfg))"
  using assms
  by (cases g) (auto simp: require_write_access_def require_full_access_def require_browse_access_def
      lift_sig_def split: option.split)

lemma run_guards_iff:
  "is_ok (run_guards mac cfg get gs) \<longleftrightarrow> (\<forall>g \<in> set gs. is_ok (run_guard mac cfg get g))"
proof (induction gs)
  case (Cons g gs)
  then show ?case by (cases "run_guard mac cfg get g") auto
qed simp

lemma ball_guard:
  "(\<forall>g \<in> A. P g) \<longleftrightarrow> (WriteAccess \<in> A \<longrightarrow> P WriteAccess) \<and> (FullAccess \<in> A \<longrightarrow> P FullAccess) \<and>
    (BrowseAccess \<in> A \<longrightarrow> P BrowseAccess)" (is "?l \<longleftrightarrow> ?r")
proof
  assume r: ?r
  show ?l
  proof
    fix g assume "g \<in> A"
    with r show "P g" by (cases g) simp_all
  qed
qed simp

abbreviation browse_routes :: "route set" where
  "browse_routes \<equiv> Files ` {GetFiles, DownloadSingleFile, DownloadZip, SearchFiles, PreviewFile}"

abbreviation upload_routes :: "route set" where
  "upload_routes \<equiv> {Files UploadFiles, ShareUpload}"

abbreviation list_routes :: "route set" where
  "list_routes \<equiv> {Clipboard ListSnippets, Requests ListFileRequests}"

lemma route_exhaust:
  obtains r where "rt = Files r" | r where "rt = Clipboard r" | r where "rt = Requests r"
    | r where "rt = Share r" | "rt = ShareUpload"
  by (cases rt) auto

lemma files_guards_sets:
  "WriteAccess \<in> set (files_guards r) \<longleftrightarrow> r \<in> {UploadFiles, RenameFile, DeleteFiles, CreateNewFolder}"
  "FullAccess \<in> set (files_guards r) \<longleftrightarrow> r \<in> {RenameFile, DeleteFiles, CreateNewFolder}"
  "BrowseAccess \<in> set (files_guards r) \<longleftrightarrow> r \<in> {GetFiles, DownloadSingleFile, DownloadZip, SearchFiles, PreviewFile}"
  by (cases r; simp)+

lemma other_guards_sets:
  "WriteAccess \<in> set (clipboard_guards c) \<longleftrightarrow> c \<noteq> ListSnippets" "FullAccess \<in> set (clipboard_guards c)"
  "BrowseAccess \<notin> set (clipboard_guards c)"
  "WriteAccess \<in> set (requests_guards q) \<longleftrightarrow> q \<noteq> ListFileRequests" "FullAccess \<in> set (requests_guards q)"
  "BrowseAccess \<notin> set (requests_guards q)"
  "WriteAccess \<in> set (share_guards h)" "FullAccess \<in> set (share_guards h)"
  "BrowseAccess \<notin> set (share_guards h)"
  by (cases c; simp)+ (cases q; simp | cases h; simp)+

lemma files_complement:
  "r \<in> {UploadFiles, RenameFile, DeleteFiles, CreateNewFolder} \<longleftrightarrow>
   r \<notin> {GetFiles, DownloadSingleFile, DownloadZip, SearchFiles, PreviewFile}"
  by (cases r) simp_all

lemma route_guards_sets:
  "WriteAccess \<in> set (route_guards rt) \<longleftrightarrow> rt \<notin> browse_routes \<union> list_routes"
  "FullAccess \<in> set (route_guards rt) \<longleftrightarrow> rt \<notin> browse_routes \<union> upload_routes"
  "BrowseAccess \<in> set (route_guards rt) \<longleftrightarrow> rt \<in> browse_routes"
  using files_complement by (cases rt rule: route_exhaust; auto simp: files_guards_sets other_guards_sets)+

subsection \<open>A concrete mount\<close>

definition demo_mac :: mac_fn where
  "demo_mac key msg = CHR ''m'' # concat (map (\<lambda>b. [hex_digit (unat b div 16), hex_digit (unat b mod 16)]) msg)"

lemma demo_mac_ascii: "demo_mac k m \<noteq> [] \<and> is_ascii (demo_mac k m)"
proof -
  have h: "(of_char (hex_digit n) :: nat) < 128" if "n < 16" for n
    using that by (auto simp: hex_digit_def of_char_of)
  have "unat b div 16 < 16" for b :: byte
  proof -
    have "unat b < 16 * 16" using unsigned_less [of b] by simp
    then show ?thesis by (rule less_mult_imp_div_less)
  qed
  then have "is_ascii (concat (map (\<lambda>b. [hex_digit (unat b div 16), hex_digit (unat b mod 16)]) m))"
    by (induction m) (simp_all add: is_ascii_def h)
  then show ?thesis by (simp add: demo_mac_def is_ascii_def)
qed

definition plain_mac :: mac_fn where
  "plain_mac key msg = map (\<lambda>b. char_of (unat b)) msg"

lemma plain_mac_inject: "plain_mac k m = plain_mac k m' \<Longrightarrow> m = m'"
proof -
  have u: "unat b < 256" for b :: byte using unsigned_less [of b] by simp
  have "inj (\<lambda>b :: byte. char_of (unat b) :: char)"
    by (rule injI) (metis mod_less of_char_of u unsigned_word_eqI)
  then show "plain_mac k m = plain_mac k m' \<Longrightarrow> m = m'"
    unfolding plain_mac_def by (rule map_injective [rotated])
qed

definition demo_signed :: registry where
  "demo_signed = demo_registry\<lparr>identity_secrets := [(''a'', ''k'')]\<rparr>"

definition demo_ann :: SessionIdentity where
  "demo_ann = \<lparr>ident_user_id = 1, ident_username = ''ann''\<rparr>"

definition demo_server :: server_config where
  "demo_server = \<lparr>cfg_shared_folder = ''/srv'', cfg_password_hash = None, cfg_read_only = False,
     cfg_receive = False, cfg_mount_code = Some ''a'', cfg_identity_secret = Some ''k''\<rparr>"

text \<open>A client that claims the role WRITE for itself.\<close>

definition demo_forged :: http_request where
  "demo_forged = \<lparr>url_path = ''/m/a/'', url_query = [], accept_header = ''text/html'',
     host_header = ''relay'', header_items = [(''X-WFS-Role'', ''write''), (''accept'', ''text/html'')]\<rparr>"

lemma demo_policy:
  "get_policy ''a'' demo_signed = Inr \<lparr>policy_code = ''a'', policy_owner = Some 5, policy_mode = RESTRICTED,
     policy_has_password = False, policy_entries = [\<lparr>subject_type = USER, subject_id = 1, entry_role = READ\<rparr>]\<rparr>"
  by (simp add: demo_signed_def get_policy_def find_mount_def fetchone_def demo_registry_eq)

lemma demo_authorize:
  "authorize demo_signed (Some two_groups) ''a'' (Some demo_ann) =
     Some (Inr \<lparr>identified = True, decision_username = Some ''ann'', decision_role = Some READ\<rparr>)"
proof -
  have u: "ident_user_id demo_ann \<in> user_ids two_groups" by (simp add: user_ids_def two_groups_eq demo_ann_def)
  have r: "resolve_user_group_ids (ident_user_id demo_ann) two_groups = Some (Inr (user_groups 1 two_groups))"
    using resolve_ok [OF two_groups_ok u] by (simp add: demo_ann_def)
  show ?thesis by (simp add: authorize_def demo_policy matched_role_def r entry_matches_def)
    (simp add: demo_ann_def)
qed

lemma demo_connection: "get_connection (\<lambda>_. False) ''a'' demo_signed = Inr 1"
  by (simp add: demo_signed_def get_connection_def find_mount_def fetchone_def demo_registry_eq)

lemma demo_admitted:
  "\<exists>hdrs. proxy_admit demo_mac (\<lambda>_. False) [] demo_signed (Some two_groups) (Some demo_ann) ''a'' demo_forged
     = Some (Inr (ToTunnel 1 hdrs))"
  by (simp add: proxy_admit_def demo_authorize demo_connection identity_headers_def inject_identity_def
      get_identity_secret_def Let_def) (simp add: demo_signed_def sign_identity_def)

section \<open>Properties\<close>

text \<open>C1: what the relay decided is what the server believes. When a request, HTTP or WebSocket, is
  forwarded into a mount's tunnel, the server that shares the mount's secret takes as the user's
  role, name and password bypass exactly those of the relay's decision, whatever headers the client
  sent: an unidentified request carries none, and without a secret nothing is believed. The
  hypotheses are that a digest is a non-empty ASCII string and that the transport delivers the four
  identity headers as they were sent.\<close>

theorem identity_end_to_end:
  assumes "proxy_admit mac dead locals reg store ident code rq = Some (Inr (ToTunnel tun hdrs)) \<or>
      ws_admit mac dead locals reg store ident code rq = Some (Inr (WsTunnel tun hdrs))"
    and "\<And>k m. mac k m \<noteq> [] \<and> is_ascii (mac k m)"
    and "cfg_mount_code cfg = Some code" and "cfg_identity_secret cfg = get_identity_secret code reg"
    and "transported hdrs get"
  shows "\<exists>d. authorize reg store code ident = Some (Inr d) \<and> get_connection dead code reg = Inr tun \<and>
    trusted_role mac cfg get = Inr (if cfg_identity_secret cfg = None then None else decision_role d) \<and>
    trusted_user mac cfg get =
      Inr (if identified d \<and> cfg_identity_secret cfg \<noteq> None then decision_username d else None) \<and>
    is_auth_bypassed mac cfg get = Inr (identified d \<and> cfg_identity_secret cfg \<noteq> None)"
proof -
  obtain d where a: "authorize reg store code ident = Some (Inr d)" "get_connection dead code reg = Inr tun"
    and h: "identity_headers mac reg code d (forward_headers (host_header rq) (header_items rq)) = Inr hdrs"
    using assms(1) by (metis proxy_admit_tunnel ws_admit_tunnel)
  have "is_relay_served cfg" using assms(3) by (simp add: is_relay_served_def)
  note v = verified_relay [OF h assms(2) this assms(4,5)]
  show ?thesis using v authorize_shape [OF a(1)] a
    by (auto simp: trusted_role_def trusted_user_def is_auth_bypassed_def)
qed

theorem identity_end_to_end_witness:
  "\<exists>hdrs. proxy_admit demo_mac (\<lambda>_. False) [] demo_signed (Some two_groups) (Some demo_ann) ''a'' demo_forged
       = Some (Inr (ToTunnel 1 hdrs)) \<and>
     trusted_role demo_mac demo_server (look hdrs) = Inr (Some READ) \<and>
     is_auth_bypassed demo_mac demo_server (look hdrs) = Inr True"
proof -
  obtain hdrs where h: "proxy_admit demo_mac (\<lambda>_. False) [] demo_signed (Some two_groups) (Some demo_ann) ''a'' demo_forged
      = Some (Inr (ToTunnel 1 hdrs))"
    using demo_admitted by blast
  have "cfg_mount_code demo_server = Some ''a''"
    "cfg_identity_secret demo_server = get_identity_secret ''a'' demo_signed"
    "transported hdrs (look hdrs)"
    by (simp_all add: demo_server_def demo_signed_def get_identity_secret_def transported_def)
  from identity_end_to_end [OF disjI1 [OF h] demo_mac_ascii this] h show ?thesis
    by (auto simp: demo_authorize demo_server_def)
qed

text \<open>A signature binds the whole identity. If the server accepts, for a name, role and bypass flag,
  a signature that was made with the mount's secret for another triple, the two triples are equal,
  given that the digests of these two messages do not collide. Role values contain no newline; the
  name may be any string.\<close>

lemma signature_binds_identity:
  assumes "sign_identity mac secret user role bypass = Inr sig"
    and "verify_identity mac secret user' role' bypass' sig = Inr True"
    and "CHR 10 \<notin> set role" and "CHR 10 \<notin> set role'"
    and "mac (utf8_encode secret) (canonical user role bypass) = mac (utf8_encode secret) (canonical user' role' bypass')
      \<Longrightarrow> canonical user role bypass = canonical user' role' bypass'"
  shows "user' = user \<and> role' = role \<and> bypass' = bypass"
proof -
  have "mac (utf8_encode secret) (canonical user role bypass) = mac (utf8_encode secret) (canonical user' role' bypass')"
    using assms(1,2) by (auto simp: sign_identity_def verify_identity_def compare_digest_def split: if_splits)
  from canonical_inject [OF assms(5) [OF this] assms(3,4)] show ?thesis by simp
qed

lemma signature_binds_identity_witness:
  "\<exists>sig. sign_identity plain_mac ''k'' ''ann'' ''read'' True = Inr sig \<and>
     verify_identity plain_mac ''k'' ''ann'' ''write'' True sig \<noteq> Inr True"
proof -
  obtain sig where s: "sign_identity plain_mac ''k'' ''ann'' ''read'' True = Inr sig"
    by (simp add: sign_identity_def)
  have "verify_identity plain_mac ''k'' ''ann'' ''write'' True sig \<noteq> Inr True"
    using signature_binds_identity [OF s, of "''ann''" "''write''" True] plain_mac_inject by fastforce
  with s show ?thesis by blast
qed

text \<open>C31: the permission matrix of the server's routes. A WRITE user reaches every guarded route; a READ
  user exactly the browsing and listing routes, none of which changes state; a RECEIVE user exactly
  browsing and uploading. Without a trusted role the server's own flags decide: read-only closes
  every writing route, receive mode leaves only the uploads.\<close>

theorem role_permissions:
  assumes "trusted_role mac cfg get = Inr ro"
  shows "route_allowed mac cfg get rt \<longleftrightarrow> (case ro of
      Some WRITE \<Rightarrow> True
    | Some READ \<Rightarrow> rt \<in> browse_routes \<union> list_routes
    | Some RECEIVE \<Rightarrow> rt \<in> browse_routes \<union> upload_routes
    | None \<Rightarrow> (cfg_read_only cfg \<longrightarrow> rt \<in> browse_routes \<union> list_routes) \<and>
        (cfg_receive cfg \<longrightarrow> rt \<in> upload_routes))"
proof -
  have "route_allowed mac cfg get rt \<longleftrightarrow>
      (WriteAccess \<in> set (route_guards rt) \<longrightarrow> is_ok (run_guard mac cfg get WriteAccess)) \<and>
      (FullAccess \<in> set (route_guards rt) \<longrightarrow> is_ok (run_guard mac cfg get FullAccess)) \<and>
      (BrowseAccess \<in> set (route_guards rt) \<longrightarrow> is_ok (run_guard mac cfg get BrowseAccess))"
    unfolding route_allowed_def run_guards_iff by (rule ball_guard)
  then have r: "route_allowed mac cfg get rt \<longleftrightarrow>
      (rt \<notin> browse_routes \<union> list_routes \<longrightarrow> (case ro of Some r \<Rightarrow> r \<noteq> READ | None \<Rightarrow> \<not> cfg_read_only cfg)) \<and>
      (rt \<notin> browse_routes \<union> upload_routes \<longrightarrow> (case ro of Some r \<Rightarrow> r \<noteq> RECEIVE | None \<Rightarrow> \<not> cfg_receive cfg)) \<and>
      (rt \<in> browse_routes \<longrightarrow> (case ro of Some r \<Rightarrow> True | None \<Rightarrow> \<not> cfg_receive cfg))"
    unfolding guard_trusted [OF assms] route_guards_sets by simp
  have d: "rt \<in> browse_routes \<Longrightarrow> rt \<notin> list_routes \<and> rt \<notin> upload_routes" "rt \<in> list_routes \<Longrightarrow> rt \<notin> upload_routes"
    by auto
  show ?thesis unfolding r using d by (cases ro; cases "the ro") (simp_all only: option.case Role.case option.sel, blast+)
qed

theorem role_permissions_witness:
  "trusted_role demo_mac demo_server (\<lambda>_. None) = Inr None \<and>
   route_allowed demo_mac demo_server (\<lambda>_. None) (Files DeleteFiles)"
proof -
  have "trusted_role demo_mac demo_server (\<lambda>_. None) = Inr None"
    by (simp add: trusted_role_def verified_identity_def demo_server_def is_relay_served_def)
  from role_permissions [OF this, of "Files DeleteFiles"] this show ?thesis by (simp add: demo_server_def)
qed

end
