(* ===== verification/Server_State.thy ===== *)
theory Server_State
  imports Proxy_Identity
begin

text \<open>
  The file server's collaboration state: the tables of \<open>server/app/services/sqlite_store.py\<close> and the
  services over them (clipboard snippets, file requests, share links, upload ownership).

  A table is a list of rows in row-id order, as in the relay's stores. A \<open>created_at\<close> text is the
  ISO form of a UTC instant and is represented by that instant (their orders agree). Random ids,
  the clock and the signer of share links are arguments.
\<close>

section \<open>The store (services/sqlite_store.py)\<close>

datatype RequestStatus = REQ_PENDING | REQ_FULFILLED | REQ_DISMISSED

record ClipboardRow =
  snip_id :: str
  snip_title :: str
  snip_content :: str
  snip_created_at :: timestamp
  snip_updated_at :: timestamp

record FileRequestRow =
  fr_id :: str
  fr_description :: str
  fr_requester_device_id :: str
  fr_requester_device_name :: str
  fr_status :: RequestStatus
  fr_created_at :: timestamp
  fr_fulfilled_by :: "str option"
  fr_fulfilled_file_name :: "str option"
  fr_fulfilled_file_path :: "str option"
  fr_fulfilled_at :: "timestamp option"

record ShareLinkRow =
  link_token :: str
  link_file_path :: str
  link_created_at :: timestamp
  link_ttl_seconds :: int

record server_state =
  clipboard_snippets :: "ClipboardRow list"
  file_requests :: "FileRequestRow list"
  share_links :: "ShareLinkRow list"
  upload_owners :: "(str \<times> str) list"
  meta :: "(str \<times> str) list"

datatype store_exn =
    StoreKeyError str
  | StoreIntegrityError
  | StoreValueError str
  | SnippetNotFoundError str
  | SnippetValidationError str
  | ShareLinkRevokedError str
  | ShareLinkNotFoundError str
  | ShareLinkExpiredError str
  | ShareBadSignature

definition open_state_store :: server_state where
  "open_state_store = \<lparr>clipboard_snippets = [], file_requests = [], share_links = [], upload_owners = [], meta = []\<rparr>"

text \<open>\<open>INSERT\<close> into a table with a primary key, and \<open>INSERT ... ON CONFLICT DO UPDATE\<close>.\<close>

definition insert_row :: "('r \<Rightarrow> 'k) \<Rightarrow> 'r \<Rightarrow> 'r list \<Rightarrow> (store_exn, 'r list) result" where
  "insert_row key r t = (if rowcount (\<lambda>x. key x = key r) t > 0 then Inl StoreIntegrityError else Inr (t @ [r]))"

definition upsert_row :: "('r \<Rightarrow> 'k) \<Rightarrow> 'r \<Rightarrow> 'r list \<Rightarrow> 'r list" where
  "upsert_row key r t = (if rowcount (\<lambda>x. key x = key r) t > 0
     then update_where (\<lambda>x. key x = key r) (\<lambda>_. r) t else t @ [r])"

definition get_meta :: "str \<Rightarrow> server_state \<Rightarrow> str option" where
  "get_meta k s = map_option snd (fetchone (\<lambda>r. fst r = k) (meta s))"

definition set_meta :: "str \<Rightarrow> str \<Rightarrow> server_state \<Rightarrow> server_state" where
  "set_meta k v s = s\<lparr>meta := upsert_row fst (k, v) (meta s)\<rparr>"

definition get_or_create_share_secret :: "str \<Rightarrow> server_state \<Rightarrow> str \<times> server_state" where
  "get_or_create_share_secret fresh s = (case get_meta ''share_secret'' s of
     Some v \<Rightarrow> (v, s)
   | None \<Rightarrow> (fresh, set_meta ''share_secret'' fresh s))"

subsection \<open>Clipboard snippets\<close>

definition list_clipboard_snippets :: "server_state \<Rightarrow> ClipboardRow list" where
  "list_clipboard_snippets s = sort_key snip_created_at (clipboard_snippets s)"

definition count_clipboard_snippets :: "server_state \<Rightarrow> nat" where
  "count_clipboard_snippets s = length (clipboard_snippets s)"

definition insert_clipboard_snippet :: "ClipboardRow \<Rightarrow> server_state \<Rightarrow> (store_exn, server_state) result" where
  "insert_clipboard_snippet row s = res_bind (insert_row snip_id row (clipboard_snippets s)) (\<lambda>t.
     Inr (s\<lparr>clipboard_snippets := t\<rparr>))"

definition update_clipboard_snippet ::
  "str \<Rightarrow> str option \<Rightarrow> str option \<Rightarrow> timestamp \<Rightarrow> server_state \<Rightarrow> (store_exn, ClipboardRow \<times> server_state) result" where
  "update_clipboard_snippet sid title content now s =
     (case fetchone (\<lambda>r. snip_id r = sid) (clipboard_snippets s) of
        None \<Rightarrow> Inl (StoreKeyError sid)
      | Some row \<Rightarrow>
          let row' = row\<lparr>snip_title := (case title of Some t \<Rightarrow> t | None \<Rightarrow> snip_title row),
                snip_content := (case content of Some c \<Rightarrow> c | None \<Rightarrow> snip_content row),
                snip_updated_at := now\<rparr>
          in Inr (row', s\<lparr>clipboard_snippets :=
               update_where (\<lambda>r. snip_id r = sid) (\<lambda>r. r\<lparr>snip_title := snip_title row',
                 snip_content := snip_content row', snip_updated_at := now\<rparr>) (clipboard_snippets s)\<rparr>))"

definition delete_clipboard_snippet :: "str \<Rightarrow> server_state \<Rightarrow> (store_exn, server_state) result" where
  "delete_clipboard_snippet sid s =
     (if rowcount (\<lambda>r. snip_id r = sid) (clipboard_snippets s) = 0 then Inl (StoreKeyError sid)
      else Inr (s\<lparr>clipboard_snippets := delete_where (\<lambda>r. snip_id r = sid) (clipboard_snippets s)\<rparr>))"

subsection \<open>File requests\<close>

definition list_file_requests :: "server_state \<Rightarrow> FileRequestRow list" where
  "list_file_requests s = sort_key (\<lambda>r. - fr_created_at r)
     (filter (\<lambda>r. fr_status r \<noteq> REQ_DISMISSED) (file_requests s))"

definition insert_file_request :: "FileRequestRow \<Rightarrow> server_state \<Rightarrow> (store_exn, server_state) result" where
  "insert_file_request row s = res_bind (insert_row fr_id row (file_requests s)) (\<lambda>t.
     Inr (s\<lparr>file_requests := t\<rparr>))"

definition get_file_request :: "str \<Rightarrow> server_state \<Rightarrow> (store_exn, FileRequestRow) result" where
  "get_file_request rid s = (case fetchone (\<lambda>r. fr_id r = rid) (file_requests s) of
     None \<Rightarrow> Inl (StoreKeyError rid) | Some r \<Rightarrow> Inr r)"

definition or_old :: "'a option \<Rightarrow> 'a option \<Rightarrow> 'a option" where
  "or_old new old = (case new of Some v \<Rightarrow> Some v | None \<Rightarrow> old)"

definition update_file_request ::
  "str \<Rightarrow> RequestStatus option \<Rightarrow> str option \<Rightarrow> str option \<Rightarrow> str option \<Rightarrow> timestamp option \<Rightarrow> server_state \<Rightarrow>
   (store_exn, FileRequestRow \<times> server_state) result" where
  "update_file_request rid st by_name file_name file_path at_time s =
     (case fetchone (\<lambda>r. fr_id r = rid) (file_requests s) of
        None \<Rightarrow> Inl (StoreKeyError rid)
      | Some row \<Rightarrow>
          let upd = (\<lambda>r. r\<lparr>fr_status := (case st of Some x \<Rightarrow> x | None \<Rightarrow> fr_status row),
                fr_fulfilled_by := or_old by_name (fr_fulfilled_by row),
                fr_fulfilled_file_name := or_old file_name (fr_fulfilled_file_name row),
                fr_fulfilled_file_path := or_old file_path (fr_fulfilled_file_path row),
                fr_fulfilled_at := or_old at_time (fr_fulfilled_at row)\<rparr>)
          in Inr (upd row, s\<lparr>file_requests := update_where (\<lambda>r. fr_id r = rid) upd (file_requests s)\<rparr>))"

definition dismiss_file_request :: "str \<Rightarrow> server_state \<Rightarrow> (store_exn, server_state) result" where
  "dismiss_file_request rid s =
     (if rowcount (\<lambda>r. fr_id r = rid) (file_requests s) = 0 then Inl (StoreKeyError rid)
      else Inr (s\<lparr>file_requests := update_where (\<lambda>r. fr_id r = rid) (\<lambda>r. r\<lparr>fr_status := REQ_DISMISSED\<rparr>)
             (file_requests s)\<rparr>))"

subsection \<open>Share links and upload owners\<close>

definition list_share_links :: "server_state \<Rightarrow> ShareLinkRow list" where
  "list_share_links s = share_links s"

definition upsert_share_link :: "ShareLinkRow \<Rightarrow> server_state \<Rightarrow> server_state" where
  "upsert_share_link row s = s\<lparr>share_links := upsert_row link_token row (share_links s)\<rparr>"

definition delete_share_link :: "str \<Rightarrow> server_state \<Rightarrow> (store_exn, server_state) result" where
  "delete_share_link token s =
     (if rowcount (\<lambda>r. link_token r = token) (share_links s) = 0 then Inl (StoreKeyError token)
      else Inr (s\<lparr>share_links := delete_where (\<lambda>r. link_token r = token) (share_links s)\<rparr>))"

definition get_share_link :: "str \<Rightarrow> server_state \<Rightarrow> ShareLinkRow option" where
  "get_share_link token s = fetchone (\<lambda>r. link_token r = token) (share_links s)"

definition record_upload_owner :: "str \<Rightarrow> str \<Rightarrow> server_state \<Rightarrow> server_state" where
  "record_upload_owner rel uploader s = s\<lparr>upload_owners := upsert_row fst (rel, uploader) (upload_owners s)\<rparr>"

definition is_upload_owned_by :: "str \<Rightarrow> str \<Rightarrow> server_state \<Rightarrow> bool" where
  "is_upload_owned_by rel uploader s = (case fetchone (\<lambda>r. fst r = rel) (upload_owners s) of
     None \<Rightarrow> False | Some r \<Rightarrow> snd r = uploader)"

definition owned_upload_paths :: "str \<Rightarrow> server_state \<Rightarrow> str set" where
  "owned_upload_paths uploader s = fst ` set (filter (\<lambda>r. snd r = uploader) (upload_owners s))"

section \<open>Clipboard service (services/clipboard_service.py)\<close>

definition MAX_SNIPPETS :: nat where "MAX_SNIPPETS = 50"
definition MAX_CONTENT_LENGTH :: nat where "MAX_CONTENT_LENGTH = 10000"

text \<open>\<open>create_snippet\<close> counts and inserts in two separate store calls; between them other requests run.\<close>

definition create_snippet_check :: "server_state \<Rightarrow> (store_exn, unit) result" where
  "create_snippet_check s = (if count_clipboard_snippets s \<ge> MAX_SNIPPETS
     then Inl (SnippetValidationError ''Maximum snippet count (50) exceeded'') else Inr ())"

definition create_snippet_insert :: "str \<Rightarrow> str \<Rightarrow> timestamp \<Rightarrow> server_state \<Rightarrow> (store_exn, ClipboardRow \<times> server_state) result" where
  "create_snippet_insert new_id title now s =
     (let row = \<lparr>snip_id = new_id, snip_title = title, snip_content = [], snip_created_at = now, snip_updated_at = now\<rparr>
      in res_bind (insert_clipboard_snippet row s) (\<lambda>s'. Inr (row, s')))"

definition create_snippet :: "str \<Rightarrow> str \<Rightarrow> timestamp \<Rightarrow> server_state \<Rightarrow> (store_exn, ClipboardRow \<times> server_state) result" where
  "create_snippet new_id title now s = res_bind (create_snippet_check s) (\<lambda>_. create_snippet_insert new_id title now s)"

definition key_to_not_found :: "str \<Rightarrow> (store_exn, 'a) result \<Rightarrow> (store_exn, 'a) result" where
  "key_to_not_found sid r = (case r of Inl (StoreKeyError k) \<Rightarrow> Inl (SnippetNotFoundError sid) | _ \<Rightarrow> r)"

definition update_snippet :: "str \<Rightarrow> str \<Rightarrow> timestamp \<Rightarrow> server_state \<Rightarrow> (store_exn, ClipboardRow \<times> server_state) result" where
  "update_snippet sid content now s =
     (if length content > MAX_CONTENT_LENGTH
      then Inl (SnippetValidationError ''Content exceeds maximum length (10000 characters)'')
      else key_to_not_found sid (update_clipboard_snippet sid None (Some content) now s))"

definition update_title :: "str \<Rightarrow> str \<Rightarrow> timestamp \<Rightarrow> server_state \<Rightarrow> (store_exn, ClipboardRow \<times> server_state) result" where
  "update_title sid title now s = key_to_not_found sid (update_clipboard_snippet sid (Some title) None now s)"

definition delete_snippet :: "str \<Rightarrow> server_state \<Rightarrow> (store_exn, server_state) result" where
  "delete_snippet sid s = key_to_not_found sid (delete_clipboard_snippet sid s)"

section \<open>File request service (services/file_request_service.py)\<close>

definition create_file_request ::
  "str \<Rightarrow> str \<Rightarrow> str \<Rightarrow> str \<Rightarrow> timestamp \<Rightarrow> server_state \<Rightarrow> (store_exn, FileRequestRow \<times> server_state) result" where
  "create_file_request new_id description device_id device_name now s =
     (if py_strip description = [] then Inl (StoreValueError ''description must not be empty'')
      else let row = \<lparr>fr_id = new_id, fr_description = py_strip description, fr_requester_device_id = device_id,
             fr_requester_device_name = device_name, fr_status = REQ_PENDING, fr_created_at = now,
             fr_fulfilled_by = None, fr_fulfilled_file_name = None, fr_fulfilled_file_path = None,
             fr_fulfilled_at = None\<rparr>
        in res_bind (insert_file_request row s) (\<lambda>s'. Inr (row, s')))"

text \<open>\<open>fulfill_request\<close> reads the row in one store call and updates it in a second.\<close>

definition fulfill_check :: "str \<Rightarrow> server_state \<Rightarrow> (store_exn, unit) result" where
  "fulfill_check rid s = res_bind (get_file_request rid s) (\<lambda>current.
     if fr_status current \<noteq> REQ_PENDING then Inl (StoreValueError ''Can only fulfill PENDING requests'') else Inr ())"

definition fulfill_update ::
  "str \<Rightarrow> str \<Rightarrow> str \<Rightarrow> str \<Rightarrow> timestamp \<Rightarrow> server_state \<Rightarrow> (store_exn, FileRequestRow \<times> server_state) result" where
  "fulfill_update rid by_name file_name file_path now s =
     update_file_request rid (Some REQ_FULFILLED) (Some by_name) (Some file_name) (Some file_path) (Some now) s"

definition fulfill_request ::
  "str \<Rightarrow> str \<Rightarrow> str \<Rightarrow> str \<Rightarrow> timestamp \<Rightarrow> server_state \<Rightarrow> (store_exn, FileRequestRow \<times> server_state) result" where
  "fulfill_request rid by_name file_name file_path now s =
     res_bind (fulfill_check rid s) (\<lambda>_. fulfill_update rid by_name file_name file_path now s)"

definition dismiss_request :: "str \<Rightarrow> str \<Rightarrow> server_state \<Rightarrow> (store_exn, server_state) result" where
  "dismiss_request rid caller s = res_bind (get_file_request rid s) (\<lambda>entry.
     if fr_requester_device_id entry \<noteq> caller
     then Inl (StoreValueError ''Only the requester can dismiss their request'')
     else dismiss_file_request rid s)"

section \<open>Upload index (services/upload_index.py)\<close>

definition norm_path :: "str \<Rightarrow> (store_exn, str) result" where
  "norm_path rel = (if length (py_strip rel) = 0 then Inl (StoreValueError ''rel_path must be a non-empty string'')
     else Inr (py_lstrip_char (CHR ''/'') (py_strip rel)))"

definition record_upload :: "str \<Rightarrow> str \<Rightarrow> server_state \<Rightarrow> (store_exn, server_state) result" where
  "record_upload rel uploader s =
     (if length uploader = 0 then Inl (StoreValueError ''uploader must be a non-empty string'')
      else res_bind (norm_path rel) (\<lambda>p. Inr (record_upload_owner p uploader s)))"

definition is_owned_by :: "str \<Rightarrow> str \<Rightarrow> server_state \<Rightarrow> (store_exn, bool) result" where
  "is_owned_by rel uploader s = res_bind (norm_path rel) (\<lambda>p. Inr (is_upload_owned_by p uploader s))"

definition owned_paths :: "str \<Rightarrow> server_state \<Rightarrow> str set" where
  "owned_paths uploader s = owned_upload_paths uploader s"

section \<open>Share link service (services/share_service.py)\<close>

text \<open>\<open>dumps t p\<close> is the token signed at clock \<open>t\<close> for the path \<open>p\<close>; \<open>loads now token max_age\<close> is
  what the serializer returns or raises. The state of the service is the dict of active links and
  the store.\<close>

type_synonym share_dumps = "timestamp \<Rightarrow> str \<Rightarrow> str"
type_synonym share_loads = "timestamp \<Rightarrow> str \<Rightarrow> int \<Rightarrow> loads_result"

datatype ShareTTL = FIFTEEN_MINUTES | ONE_HOUR | SIX_HOURS | TWENTY_FOUR_HOURS

fun ttl_value :: "ShareTTL \<Rightarrow> int" where
  "ttl_value FIFTEEN_MINUTES = 900"
| "ttl_value ONE_HOUR = 3600"
| "ttl_value SIX_HOURS = 21600"
| "ttl_value TWENTY_FOUR_HOURS = 86400"

record share_service =
  active_links :: "(str \<times> ShareLinkRow) list"
  link_store :: server_state

definition ShareLinkService_init :: "server_state \<Rightarrow> share_service" where
  "ShareLinkService_init s = \<lparr>active_links = fold (\<lambda>row d. AList.update (link_token row) row d) (list_share_links s) [],
     link_store = s\<rparr>"

definition create_link :: "share_dumps \<Rightarrow> str \<Rightarrow> ShareTTL \<Rightarrow> timestamp \<Rightarrow> share_service \<Rightarrow> ShareLinkRow \<times> share_service" where
  "create_link dumps path ttl now svc =
     (let rec = \<lparr>link_token = dumps now path, link_file_path = path, link_created_at = now,
                link_ttl_seconds = ttl_value ttl\<rparr>
      in (rec, \<lparr>active_links = AList.update (link_token rec) rec (active_links svc),
                link_store = upsert_share_link rec (link_store svc)\<rparr>))"

text \<open>Forgetting a link: from the dict, and from the store when it is there.\<close>

definition drop_link :: "str \<Rightarrow> share_service \<Rightarrow> share_service" where
  "drop_link token svc = \<lparr>active_links = AList.delete token (active_links svc),
     link_store = (case delete_share_link token (link_store svc) of Inl e \<Rightarrow> link_store svc | Inr s \<Rightarrow> s)\<rparr>"

definition validate_link ::
  "share_loads \<Rightarrow> str \<Rightarrow> timestamp \<Rightarrow> share_service \<Rightarrow> (store_exn, str) result \<times> share_service" where
  "validate_link loads token now svc = (case map_of (active_links svc) token of
     None \<Rightarrow> (Inl (ShareLinkRevokedError token), svc)
   | Some rec \<Rightarrow> (case loads now token (link_ttl_seconds rec) of
       SignatureExpired \<Rightarrow> (Inl (ShareLinkExpiredError token), drop_link token svc)
     | BadSignature \<Rightarrow> (Inl ShareBadSignature, svc)
     | Loaded data \<Rightarrow> (case json_item data ''path'' of
         Some (JStr p) \<Rightarrow> (Inr p, svc)
       | _ \<Rightarrow> (Inl (StoreKeyError ''path''), svc))))"

definition revoke_link :: "str \<Rightarrow> share_service \<Rightarrow> (store_exn, unit) result \<times> share_service" where
  "revoke_link token svc =
     (if map_of (active_links svc) token = None then (Inl (ShareLinkNotFoundError token), svc)
      else (Inr (), drop_link token svc))"

definition list_active_links :: "share_loads \<Rightarrow> timestamp \<Rightarrow> share_service \<Rightarrow> ShareLinkRow list \<times> share_service" where
  "list_active_links loads now svc =
     (let ok = (\<lambda>(token, rec). case loads now token (link_ttl_seconds rec) of Loaded d \<Rightarrow> True | _ \<Rightarrow> False);
          expired = map fst (filter (\<lambda>x. \<not> ok x) (active_links svc))
      in (map snd (filter ok (active_links svc)), fold drop_link expired svc))"

section \<open>Snippet updates over the WebSocket (routers/websocket.py)\<close>

text \<open>The endpoint's own password check: \<open>cookie\<close> is the \<open>session\<close> cookie of the first Cookie header.\<close>

definition ws_authenticated :: "(str \<Rightarrow> loads_result) \<Rightarrow> server_config \<Rightarrow> str option \<Rightarrow> bool" where
  "ws_authenticated loads cfg cookie =
     (cfg_password_hash cfg = None \<or> (case cookie of None \<Rightarrow> False | Some token \<Rightarrow> validate_token loads token))"

definition ws_snippet_update ::
  "server_config \<Rightarrow> str \<Rightarrow> str \<Rightarrow> timestamp \<Rightarrow> server_state \<Rightarrow> server_state" where
  "ws_snippet_update cfg sid content now s =
     (if cfg_read_only cfg then s
      else (case update_snippet sid content now s of Inl e \<Rightarrow> s | Inr (row, s') \<Rightarrow> s'))"

section \<open>Operations as steps\<close>

datatype server_op =
    OpCreateSnippet str str timestamp
  | OpUpdateSnippet str str timestamp
  | OpUpdateTitle str str timestamp
  | OpDeleteSnippet str
  | OpWsUpdate server_config str str timestamp
  | OpCreateRequest str str str str timestamp
  | OpFulfill str str str str timestamp
  | OpDismiss str str
  | OpRecordUpload str str
  | OpShareSecret str

definition keep_on_error :: "server_state \<Rightarrow> (store_exn, server_state) result \<Rightarrow> server_state" where
  "keep_on_error s r = (case r of Inl e \<Rightarrow> s | Inr s' \<Rightarrow> s')"

definition drop_fst :: "(store_exn, 'a \<times> server_state) result \<Rightarrow> (store_exn, server_state) result" where
  "drop_fst r = (case r of Inl e \<Rightarrow> Inl e | Inr (a, s) \<Rightarrow> Inr s)"

fun server_step :: "server_op \<Rightarrow> server_state \<Rightarrow> server_state" where
  "server_step (OpCreateSnippet i t now) s = keep_on_error s (drop_fst (create_snippet i t now s))"
| "server_step (OpUpdateSnippet i c now) s = keep_on_error s (drop_fst (update_snippet i c now s))"
| "server_step (OpUpdateTitle i t now) s = keep_on_error s (drop_fst (update_title i t now s))"
| "server_step (OpDeleteSnippet i) s = keep_on_error s (delete_snippet i s)"
| "server_step (OpWsUpdate cfg i c now) s = ws_snippet_update cfg i c now s"
| "server_step (OpCreateRequest i d dev n now) s = keep_on_error s (drop_fst (create_file_request i d dev n now s))"
| "server_step (OpFulfill i b n p now) s = keep_on_error s (drop_fst (fulfill_request i b n p now s))"
| "server_step (OpDismiss i c) s = keep_on_error s (dismiss_request i c s)"
| "server_step (OpRecordUpload p u) s = keep_on_error s (record_upload p u s)"
| "server_step (OpShareSecret f) s = snd (get_or_create_share_secret f s)"

text \<open>The invariant of the collaboration tables.\<close>

definition snippets_ok :: "ClipboardRow list \<Rightarrow> bool" where
  "snippets_ok t \<longleftrightarrow> distinct (map snip_id t) \<and> length t \<le> MAX_SNIPPETS \<and>
     (\<forall>r \<in> set t. length (snip_content r) \<le> MAX_CONTENT_LENGTH)"

definition request_ok :: "FileRequestRow \<Rightarrow> bool" where
  "request_ok r \<longleftrightarrow> fr_description r \<noteq> [] \<and> py_strip (fr_description r) = fr_description r \<and>
     (fr_status r = REQ_PENDING \<longrightarrow> fr_fulfilled_by r = None \<and> fr_fulfilled_file_name r = None \<and>
        fr_fulfilled_file_path r = None \<and> fr_fulfilled_at r = None) \<and>
     (fr_status r = REQ_FULFILLED \<longrightarrow> fr_fulfilled_by r \<noteq> None \<and> fr_fulfilled_file_name r \<noteq> None \<and>
        fr_fulfilled_file_path r \<noteq> None \<and> fr_fulfilled_at r \<noteq> None)"

definition server_ok :: "server_state \<Rightarrow> bool" where
  "server_ok s \<longleftrightarrow> snippets_ok (clipboard_snippets s) \<and>
     distinct (map fr_id (file_requests s)) \<and> (\<forall>r \<in> set (file_requests s). request_ok r) \<and>
     distinct (map fst (upload_owners s)) \<and> distinct (map fst (meta s))"

section \<open>Lemmas\<close>

subsection \<open>Tables\<close>

lemma insert_row_eq_Inr:
  "insert_row key r t = Inr t' \<longleftrightarrow> (\<forall>x \<in> set t. key x \<noteq> key r) \<and> t' = t @ [r]"
  by (auto simp: insert_row_def rowcount_def filter_empty_conv)

lemma set_upsert_row:
  "set (upsert_row key r t) \<subseteq> insert r (set t)"
  by (auto simp: upsert_row_def update_where_def)

lemma rowcount_pos: "0 < rowcount p t \<longleftrightarrow> (\<exists>r \<in> set t. p r)"
  using rowcount_0 [of p t] by auto

lemma upsert_cases:
  "upsert_row key r t = (if \<exists>x \<in> set t. key x = key r
     then update_where (\<lambda>x. key x = key r) (\<lambda>_. r) t else t @ [r])"
  by (simp add: upsert_row_def rowcount_pos)

lemma distinct_upsert_row [key_intros]:
  assumes "distinct (map key t)"
  shows "distinct (map key (upsert_row key r t))"
proof -
  have "map key (update_where (\<lambda>x. key x = key r) (\<lambda>_. r) t) = map key t" by (auto simp: update_where_def)
  with assms show ?thesis by (auto simp: upsert_cases)
qed

lemma fetchone_update_row:
  "fetchone (\<lambda>x. key x = k) (update_where (\<lambda>x. key x = key r) (\<lambda>_. r) t) =
     (if k = key r then (if \<exists>x \<in> set t. key x = key r then Some r else None) else fetchone (\<lambda>x. key x = k) t)"
  by (induction t) (auto simp: fetchone_def update_where_def)

lemma fetchone_upsert_row:
  "fetchone (\<lambda>x. key x = k) (upsert_row key r t) = (if k = key r then Some r else fetchone (\<lambda>x. key x = k) t)"
proof (cases "\<exists>x \<in> set t. key x = key r")
  case True
  then show ?thesis by (simp add: upsert_cases fetchone_update_row)
next
  case False
  then have "fetchone (\<lambda>x. key x = key r) t = None" by (simp add: table_simps)
  moreover have "upsert_row key r t = t @ [r]" using False by (simp add: upsert_cases)
  ultimately show ?thesis by (simp add: fetchone_append) (simp add: fetchone_def split: option.split)
qed

subsection \<open>The invariant\<close>

lemma snippets_ok_insert:
  assumes "snippets_ok t" and "insert_row snip_id r t = Inr t'" and "length t < MAX_SNIPPETS"
    and "snip_content r = []"
  shows "snippets_ok t'"
  using assms by (auto simp: snippets_ok_def insert_row_eq_Inr)

lemma snippets_ok_update:
  assumes "snippets_ok t" and "length c \<le> MAX_CONTENT_LENGTH"
  shows "snippets_ok (update_where p (\<lambda>r. r\<lparr>snip_title := ti, snip_content := c, snip_updated_at := now\<rparr>) t)"
  using assms by (auto simp: snippets_ok_def table_simps)

lemma snippets_ok_delete: "snippets_ok t \<Longrightarrow> snippets_ok (delete_where p t)"
  by (auto simp: snippets_ok_def table_simps intro: key_intros)
    (metis delete_where_def le_trans length_filter_le)

lemma update_clipboard_ok:
  assumes "snippets_ok (clipboard_snippets s)" and "update_clipboard_snippet i ti co now s = Inr (row, s')"
    and "\<forall>c. co = Some c \<longrightarrow> length c \<le> MAX_CONTENT_LENGTH"
  shows "snippets_ok (clipboard_snippets s')"
proof -
  obtain r where r: "fetchone (\<lambda>r. snip_id r = i) (clipboard_snippets s) = Some r"
    using assms(2) by (auto simp: update_clipboard_snippet_def split: option.splits)
  have "length (snip_content r) \<le> MAX_CONTENT_LENGTH"
    using fetchone_Some_mem [OF r] assms(1) by (auto simp: snippets_ok_def)
  then have "length (case co of Some c \<Rightarrow> c | None \<Rightarrow> snip_content r) \<le> MAX_CONTENT_LENGTH"
    using assms(3) by (auto split: option.split)
  from snippets_ok_update [OF assms(1) this] show ?thesis
    using assms(2) r by (auto simp: update_clipboard_snippet_def Let_def)
qed

lemma key_to_not_found_Inr [simp]: "key_to_not_found i r = Inr x \<longleftrightarrow> r = Inr x"
  by (auto simp: key_to_not_found_def split: sum.splits store_exn.splits)

lemma update_clipboard_frame:
  assumes "update_clipboard_snippet i ti co now s = Inr (row, s')"
  shows "file_requests s' = file_requests s" "upload_owners s' = upload_owners s" "meta s' = meta s"
    "share_links s' = share_links s"
  using assms by (auto simp: update_clipboard_snippet_def Let_def split: option.splits)

lemma server_ok_snippets:
  assumes "server_ok s" and "update_clipboard_snippet i ti co now s = Inr (row, s')"
    and "\<forall>c. co = Some c \<longrightarrow> length c \<le> MAX_CONTENT_LENGTH"
  shows "server_ok s'"
  using assms(1) update_clipboard_ok [OF _ assms(2,3)] update_clipboard_frame [OF assms(2)]
  by (auto simp: server_ok_def)

lemma update_snippet_ok: "server_ok s \<Longrightarrow> update_snippet i c now s = Inr (row, s') \<Longrightarrow> server_ok s'"
  by (auto simp: update_snippet_def split: if_splits elim: server_ok_snippets)

lemma update_title_ok: "server_ok s \<Longrightarrow> update_title i t now s = Inr (row, s') \<Longrightarrow> server_ok s'"
  by (auto simp: update_title_def elim: server_ok_snippets)

lemma create_snippet_ok: "server_ok s \<Longrightarrow> create_snippet i t now s = Inr (row, s') \<Longrightarrow> server_ok s'"
  by (auto simp: create_snippet_def create_snippet_check_def create_snippet_insert_def server_ok_def Let_def
      insert_clipboard_snippet_def res_bind_eq_Inr count_clipboard_snippets_def intro: snippets_ok_insert
      split: if_splits)

lemma delete_snippet_ok: "server_ok s \<Longrightarrow> delete_snippet i s = Inr s' \<Longrightarrow> server_ok s'"
  by (auto simp: delete_snippet_def delete_clipboard_snippet_def server_ok_def intro: snippets_ok_delete
      split: if_splits)

lemma create_request_ok: "server_ok s \<Longrightarrow> create_file_request i d dev n now s = Inr (row, s') \<Longrightarrow> server_ok s'"
  by (auto simp: create_file_request_def server_ok_def insert_file_request_def insert_row_eq_Inr Let_def
      res_bind_eq_Inr request_ok_def split: if_splits)

lemma fulfill_eq:
  assumes "fulfill_request i b n p now s = Inr (row, s')" and "distinct (map fr_id (file_requests s))"
  shows "\<exists>r. fetchone (\<lambda>r. fr_id r = i) (file_requests s) = Some r \<and> fr_status r = REQ_PENDING \<and>
    s' = s\<lparr>file_requests := update_where (\<lambda>r. fr_id r = i) (\<lambda>r. r\<lparr>fr_status := REQ_FULFILLED,
      fr_fulfilled_by := Some b, fr_fulfilled_file_name := Some n, fr_fulfilled_file_path := Some p,
      fr_fulfilled_at := Some now\<rparr>) (file_requests s)\<rparr>"
  using assms by (auto simp: fulfill_request_def fulfill_check_def fulfill_update_def update_file_request_def
      get_file_request_def or_old_def Let_def res_bind_eq_Inr split: option.splits if_splits)

lemma fulfill_ok:
  assumes "server_ok s" and "fulfill_request i b n p now s = Inr (row, s')"
  shows "server_ok s'"
proof -
  obtain r where "s' = s\<lparr>file_requests := update_where (\<lambda>r. fr_id r = i) (\<lambda>r. r\<lparr>fr_status := REQ_FULFILLED,
      fr_fulfilled_by := Some b, fr_fulfilled_file_name := Some n, fr_fulfilled_file_path := Some p,
      fr_fulfilled_at := Some now\<rparr>) (file_requests s)\<rparr>"
    using fulfill_eq [OF assms(2)] assms(1) by (auto simp: server_ok_def)
  then show ?thesis using assms(1) by (auto simp: server_ok_def table_simps request_ok_def)
qed

lemma dismiss_eq:
  assumes "dismiss_request i c s = Inr s'"
  shows "\<exists>r. fetchone (\<lambda>r. fr_id r = i) (file_requests s) = Some r \<and> fr_requester_device_id r = c \<and>
    s' = s\<lparr>file_requests := update_where (\<lambda>r. fr_id r = i) (\<lambda>r. r\<lparr>fr_status := REQ_DISMISSED\<rparr>) (file_requests s)\<rparr>"
  using assms by (auto simp: dismiss_request_def get_file_request_def dismiss_file_request_def res_bind_eq_Inr
      split: option.splits if_splits)

lemma dismiss_ok: "server_ok s \<Longrightarrow> dismiss_request i c s = Inr s' \<Longrightarrow> server_ok s'"
  by (drule dismiss_eq) (auto simp: server_ok_def table_simps request_ok_def)

lemma record_upload_ok: "server_ok s \<Longrightarrow> record_upload p u s = Inr s' \<Longrightarrow> server_ok s'"
  by (auto simp: record_upload_def record_upload_owner_def server_ok_def res_bind_eq_Inr intro: key_intros
      split: if_splits)

lemma share_secret_ok: "server_ok s \<Longrightarrow> server_ok (snd (get_or_create_share_secret f s))"
  by (auto simp: get_or_create_share_secret_def set_meta_def server_ok_def intro: key_intros split: option.split)

lemmas op_oks = create_snippet_ok update_snippet_ok update_title_ok delete_snippet_ok create_request_ok
  fulfill_ok dismiss_ok record_upload_ok

interpretation server: inv_machine server_step server_ok
proof
  fix s op assume "server_ok s"
  then show "server_ok (server_step op s)"
    by (cases op) (auto simp: keep_on_error_def drop_fst_def ws_snippet_update_def share_secret_ok
        split: sum.split prod.split intro: op_oks)
qed

lemma open_state_store_ok: "server_ok open_state_store"
  by (simp add: open_state_store_def server_ok_def snippets_ok_def)

subsection \<open>Life of a file request\<close>

fun status_rank :: "RequestStatus \<Rightarrow> nat" where
  "status_rank REQ_PENDING = 0"
| "status_rank REQ_FULFILLED = 1"
| "status_rank REQ_DISMISSED = 2"

definition advanced :: "FileRequestRow \<Rightarrow> FileRequestRow \<Rightarrow> bool" where
  "advanced r r' \<longleftrightarrow> status_rank (fr_status r) \<le> status_rank (fr_status r') \<and>
     fr_id r' = fr_id r \<and> fr_description r' = fr_description r \<and>
     fr_requester_device_id r' = fr_requester_device_id r \<and>
     (fr_status r \<noteq> REQ_PENDING \<longrightarrow> fr_fulfilled_by r' = fr_fulfilled_by r \<and>
        fr_fulfilled_file_path r' = fr_fulfilled_file_path r \<and> fr_fulfilled_at r' = fr_fulfilled_at r)"

lemma status_rank_pending: "status_rank st \<le> status_rank REQ_PENDING \<longleftrightarrow> st = REQ_PENDING"
  by (cases st) simp_all

lemma status_rank_le [simp]: "status_rank st \<le> 2"
  by (cases st) simp_all

lemma advanced_refl [simp]: "advanced r r"
  by (simp add: advanced_def)

lemma advanced_trans: "advanced r r' \<Longrightarrow> advanced r' r'' \<Longrightarrow> advanced r r''"
  unfolding advanced_def using status_rank_pending by (metis le_trans)

abbreviation request_at :: "str \<Rightarrow> server_state \<Rightarrow> FileRequestRow option" where
  "request_at i s \<equiv> fetchone (\<lambda>r. fr_id r = i) (file_requests s)"

lemma request_update:
  assumes "request_at i s = Some r" and "\<And>x. fr_id (f x) = fr_id x" and "fr_id r = j \<Longrightarrow> advanced r (f r)"
  shows "\<exists>r'. fetchone (\<lambda>r. fr_id r = i) (update_where (\<lambda>r. fr_id r = j) f (file_requests s)) = Some r' \<and> advanced r r'"
  using assms fetchone_Some_mem [OF assms(1)] by (auto simp: fetchone_update_where)

lemma fulfill_advances:
  assumes "server_ok s" and "request_at i s = Some r" and "fulfill_request j b n p now s = Inr (row, s')"
  shows "\<exists>r'. request_at i s' = Some r' \<and> advanced r r'"
proof -
  obtain q where q: "request_at j s = Some q" "fr_status q = REQ_PENDING"
    and s': "s' = s\<lparr>file_requests := update_where (\<lambda>r. fr_id r = j) (\<lambda>r. r\<lparr>fr_status := REQ_FULFILLED,
      fr_fulfilled_by := Some b, fr_fulfilled_file_name := Some n, fr_fulfilled_file_path := Some p,
      fr_fulfilled_at := Some now\<rparr>) (file_requests s)\<rparr>"
    using fulfill_eq [OF assms(3)] assms(1) by (auto simp: server_ok_def)
  have "fr_id r = j \<Longrightarrow> r = q" using q(1) assms(2) fetchone_Some_mem [OF assms(2)] by auto
  then show ?thesis unfolding s' using assms(2) q(2)
    by (simp, intro request_update) (auto simp: advanced_def)
qed

lemma request_step:
  assumes "server_ok s" and "request_at i s = Some r"
  shows "\<exists>r'. request_at i (server_step op s) = Some r' \<and> advanced r r'"
proof (cases op)
  case (OpFulfill j b n p now)
  then show ?thesis using assms fulfill_advances [OF assms]
    by (auto simp: keep_on_error_def drop_fst_def split: sum.split prod.split)
next
  case (OpDismiss j c)
  show ?thesis
  proof (cases "dismiss_request j c s")
    case (Inr s')
    have "\<exists>r'. fetchone (\<lambda>r. fr_id r = i) (update_where (\<lambda>r. fr_id r = j) (\<lambda>r. r\<lparr>fr_status := REQ_DISMISSED\<rparr>)
        (file_requests s)) = Some r' \<and> advanced r r'"
      by (intro request_update assms(2)) (auto simp: advanced_def)
    then show ?thesis using OpDismiss Inr dismiss_eq [OF Inr] by (auto simp: keep_on_error_def)
  qed (use OpDismiss assms in \<open>simp add: keep_on_error_def\<close>)
next
  case (OpCreateRequest j d dev n now)
  then show ?thesis using assms(2)
    by (auto simp: keep_on_error_def drop_fst_def create_file_request_def insert_file_request_def insert_row_def
        Let_def res_bind_def fetchone_append split: sum.split prod.split)
next
  case (OpCreateSnippet j t now)
  then show ?thesis using assms(2)
    by (auto simp: keep_on_error_def drop_fst_def create_snippet_def create_snippet_check_def
        create_snippet_insert_def insert_clipboard_snippet_def Let_def res_bind_def split: sum.split prod.split)
next
  case (OpUpdateSnippet j c now)
  then show ?thesis using assms(2)
    by (auto simp: keep_on_error_def drop_fst_def update_snippet_def dest: update_clipboard_frame(1)
        split: sum.split prod.split)
next
  case (OpUpdateTitle j c now)
  then show ?thesis using assms(2)
    by (auto simp: keep_on_error_def drop_fst_def update_title_def dest: update_clipboard_frame(1)
        split: sum.split prod.split)
next
  case (OpDeleteSnippet j)
  then show ?thesis using assms(2)
    by (auto simp: keep_on_error_def delete_snippet_def delete_clipboard_snippet_def split: sum.split if_splits)
next
  case (OpWsUpdate cfg j c now)
  then show ?thesis using assms(2)
    by (auto simp: ws_snippet_update_def update_snippet_def dest: update_clipboard_frame(1) split: sum.split prod.split)
next
  case (OpRecordUpload q u)
  then show ?thesis using assms(2)
    by (auto simp: keep_on_error_def record_upload_def record_upload_owner_def res_bind_def split: sum.split)
next
  case (OpShareSecret f)
  then show ?thesis using assms(2)
    by (auto simp: get_or_create_share_secret_def set_meta_def split: option.split)
qed

subsection \<open>Share links\<close>

text \<open>The abstract state of the share service: the record of every active token.\<close>

definition links :: "share_service \<Rightarrow> str \<rightharpoonup> ShareLinkRow" where
  "links svc = map_of (active_links svc)"

text \<open>The dict mirrors the table.\<close>

definition svc_ok :: "share_service \<Rightarrow> bool" where
  "svc_ok svc \<longleftrightarrow> dict_ok (active_links svc) \<and> distinct (map link_token (share_links (link_store svc))) \<and>
     (\<forall>t. links svc t = get_share_link t (link_store svc))"

lemma links_create: "links (snd (create_link dumps path ttl now svc)) = (links svc)(dumps now path \<mapsto>
    \<lparr>link_token = dumps now path, link_file_path = path, link_created_at = now, link_ttl_seconds = ttl_value ttl\<rparr>)"
  by (simp add: links_def create_link_def Let_def update_conv')

lemma create_svc_ok: "svc_ok svc \<Longrightarrow> svc_ok (snd (create_link dumps path ttl now svc))"
  unfolding svc_ok_def links_create
  by (auto simp: create_link_def Let_def upsert_share_link_def get_share_link_def fetchone_upsert_row
      intro: distinct_update key_intros)

lemma drop_store:
  "share_links (link_store (drop_link t svc)) = delete_where (\<lambda>r. link_token r = t) (share_links (link_store svc))"
proof (cases "rowcount (\<lambda>r. link_token r = t) (share_links (link_store svc)) = 0")
  case True
  then have "delete_where (\<lambda>r. link_token r = t) (share_links (link_store svc)) = share_links (link_store svc)"
    by (intro delete_where_none) (simp add: table_simps)
  with True show ?thesis by (simp add: drop_link_def delete_share_link_def)
qed (simp add: drop_link_def delete_share_link_def)

lemma links_drop: "links (drop_link t svc) = (links svc)(t := None)"
  by (simp add: links_def drop_link_def delete_conv')

lemma drop_svc_ok: "svc_ok svc \<Longrightarrow> svc_ok (drop_link t svc)"
proof -
  assume ok: "svc_ok svc"
  have "get_share_link t' (link_store (drop_link t svc)) = (if t' = t then None else get_share_link t' (link_store svc))" for t'
    by (auto simp: get_share_link_def drop_store table_simps intro: fetchone_delete_where_other)
  then show ?thesis using ok
    by (auto simp: svc_ok_def links_drop drop_store intro: key_intros)
      (simp add: drop_link_def distinct_delete)
qed

lemma links_drops: "links (fold drop_link ts svc) = (\<lambda>t. if t \<in> set ts then None else links svc t)"
  by (induction ts arbitrary: svc) (auto simp: links_drop)

lemma drops_svc_ok: "svc_ok svc \<Longrightarrow> svc_ok (fold drop_link ts svc)"
  by (induction ts arbitrary: svc) (auto intro: drop_svc_ok)

lemma init_links:
  assumes "distinct (map link_token (share_links s))"
  shows "links (ShareLinkService_init s) t = get_share_link t s" and "dict_ok (active_links (ShareLinkService_init s))"
proof -
  have f: "map_of (fold (\<lambda>row d. AList.update (link_token row) row d) rows d) t =
      (case fetchone (\<lambda>r. link_token r = t) rows of Some r \<Rightarrow> Some r | None \<Rightarrow> map_of d t)"
    if "distinct (map link_token rows)" for rows d
    using that
  proof (induction rows arbitrary: d)
    case (Cons r rows)
    show ?case
    proof (cases "link_token r = t")
      case True
      then have "fetchone (\<lambda>r. link_token r = t) rows = None"
        using Cons.prems by (simp add: table_simps) (metis imageI)
      with True Cons show ?thesis by (simp add: fetchone_def update_conv')
    next
      case False
      with Cons show ?thesis by (simp add: fetchone_def update_conv' split: option.split)
    qed
  qed (simp add: fetchone_def)
  show "links (ShareLinkService_init s) t = get_share_link t s"
    using f [OF assms, of "[]"]
    by (simp add: links_def ShareLinkService_init_def list_share_links_def get_share_link_def split: option.splits)
  have "dict_ok (fold (\<lambda>row d. AList.update (link_token row) row d) rows d)" if "dict_ok d" for rows and d :: "(str \<times> ShareLinkRow) list"
    using that by (induction rows arbitrary: d) (auto intro: distinct_update)
  then show "dict_ok (active_links (ShareLinkService_init s))" by (simp add: ShareLinkService_init_def)
qed

lemma init_svc_ok: "distinct (map link_token (share_links s)) \<Longrightarrow> svc_ok (ShareLinkService_init s)"
  using init_links by (simp add: svc_ok_def) (simp add: ShareLinkService_init_def)

lemma validate_shape:
  "snd (validate_link loads t now svc) = svc \<or> (snd (validate_link loads t now svc) = drop_link t svc \<and>
     (\<exists>r. links svc t = Some r \<and> loads now t (link_ttl_seconds r) = SignatureExpired))"
  by (auto simp: validate_link_def links_def split: option.split loads_result.split json.split)

lemma links_list:
  assumes "dict_ok (active_links svc)"
  shows "links (snd (list_active_links loads now svc)) = (\<lambda>t. case links svc t of None \<Rightarrow> None
    | Some r \<Rightarrow> (case loads now t (link_ttl_seconds r) of Loaded d \<Rightarrow> Some r | _ \<Rightarrow> None))"
proof
  fix t
  let ?ok = "\<lambda>(token, rec). case loads now token (link_ttl_seconds rec) of Loaded d \<Rightarrow> True | _ \<Rightarrow> False"
  have "t \<in> fst ` set (filter (\<lambda>x. \<not> ?ok x) (active_links svc)) \<longleftrightarrow> (\<exists>r. links svc t = Some r \<and> \<not> ?ok (t, r))"
    using assms by (auto simp: links_def map_of_eq_Some_iff image_iff)
  then show "links (snd (list_active_links loads now svc)) t = (case links svc t of None \<Rightarrow> None
      | Some r \<Rightarrow> (case loads now t (link_ttl_seconds r) of Loaded d \<Rightarrow> Some r | _ \<Rightarrow> None))"
    by (auto simp: list_active_links_def Let_def links_drops split: option.split loads_result.split)
qed

datatype share_op = ShCreate str ShareTTL timestamp | ShValidate str timestamp | ShRevoke str
  | ShList timestamp | ShRestart

fun share_step :: "share_dumps \<Rightarrow> share_loads \<Rightarrow> share_op \<Rightarrow> share_service \<Rightarrow> share_service" where
  "share_step dumps loads (ShCreate path ttl now) svc = snd (create_link dumps path ttl now svc)"
| "share_step dumps loads (ShValidate t now) svc = snd (validate_link loads t now svc)"
| "share_step dumps loads (ShRevoke t) svc = snd (revoke_link t svc)"
| "share_step dumps loads (ShList now) svc = snd (list_active_links loads now svc)"
| "share_step dumps loads ShRestart svc = ShareLinkService_init (link_store svc)"

interpretation share: inv_machine "share_step dumps loads" svc_ok for dumps loads
proof
  fix s op assume ok: "svc_ok s"
  show "svc_ok (share_step dumps loads op s)"
  proof (cases op)
    case (ShValidate t now)
    then show ?thesis using ok validate_shape [of loads t now s] drop_svc_ok [OF ok] by auto
  next
    case ShRestart
    then show ?thesis using ok init_svc_ok by (simp add: svc_ok_def)
  qed (use ok in \<open>auto simp: create_svc_ok revoke_link_def drop_svc_ok list_active_links_def Let_def drops_svc_ok\<close>)
qed

text \<open>The documented behaviour of the timed serializer: a token is accepted while its age in whole
  seconds is between zero and the maximum.\<close>

definition alive :: "timestamp \<Rightarrow> int \<Rightarrow> timestamp \<Rightarrow> bool" where
  "alive t ttl now \<longleftrightarrow> 0 \<le> py_int now - py_int t \<and> py_int now - py_int t \<le> ttl"

definition timed_signer :: "share_dumps \<Rightarrow> share_loads \<Rightarrow> bool" where
  "timed_signer dumps loads \<longleftrightarrow> (\<forall>t p now age. loads now (dumps t p) age =
     (if alive t age now then Loaded (JObj [(''path'', JStr p)]) else SignatureExpired))"

fun creates :: "share_dumps \<Rightarrow> str \<Rightarrow> share_op \<Rightarrow> bool" where
  "creates dumps tok (ShCreate path ttl now) = (dumps now path = tok)"
| "creates dumps tok _ = False"

text \<open>The operations that can end the link \<open>tok\<close>: revoking it, and looking at it after its time.\<close>

fun ends :: "str \<Rightarrow> (timestamp \<Rightarrow> bool) \<Rightarrow> share_op \<Rightarrow> bool" where
  "ends tok live (ShValidate t now) = (t = tok \<and> \<not> live now)"
| "ends tok live (ShRevoke t) = (t = tok)"
| "ends tok live (ShList now) = (\<not> live now)"
| "ends tok live _ = False"

lemma step_links:
  assumes "svc_ok svc" and "\<not> creates dumps tok op"
  shows "links (share_step dumps loads op svc) tok = links svc tok \<or> links (share_step dumps loads op svc) tok = None"
proof (cases op)
  case (ShCreate path ttl now)
  then show ?thesis using assms(2) by (simp add: links_create)
next
  case (ShValidate t now)
  then show ?thesis using validate_shape [of loads t now svc] by (auto simp: links_drop split: if_splits)
next
  case (ShList now)
  then show ?thesis using assms(1)
    by (simp add: links_list svc_ok_def split: option.split loads_result.split)
next
  case ShRestart
  then show ?thesis using assms(1) by (simp add: init_links svc_ok_def)
qed (simp_all add: revoke_link_def links_drop)

lemma step_links_kept:
  assumes "svc_ok svc" and "timed_signer dumps loads" and "links svc (dumps t p) = Some r" and "link_ttl_seconds r = ttl"
    and "\<not> creates dumps (dumps t p) op" and "\<not> ends (dumps t p) (alive t ttl) op"
  shows "links (share_step dumps loads op svc) (dumps t p) = Some r"
proof (cases op)
  case (ShCreate path ttl now)
  then show ?thesis using assms(3,5) by (simp add: links_create)
next
  case (ShValidate t' now)
  then show ?thesis using validate_shape [of loads t' now svc] assms
    by (auto simp: links_drop timed_signer_def split: if_splits)
next
  case (ShRevoke t')
  then show ?thesis using assms(3,6) by (simp add: revoke_link_def links_drop)
next
  case (ShList now)
  then show ?thesis using assms by (simp add: links_list svc_ok_def timed_signer_def)
next
  case ShRestart
  then show ?thesis using assms(1,3) by (simp add: init_links svc_ok_def)
qed

lemma run_links_kept:
  assumes "svc_ok svc" and "timed_signer dumps loads" and "links svc (dumps t p) = Some r" and "link_ttl_seconds r = ttl"
    and "\<forall>op \<in> set ops. \<not> creates dumps (dumps t p) op \<and> \<not> ends (dumps t p) (alive t ttl) op"
  shows "links (fold (share_step dumps loads) ops svc) (dumps t p) = Some r"
  using assms(1,3,5)
proof (induction ops arbitrary: svc)
  case (Cons op ops)
  then show ?case using step_links_kept [OF _ assms(2) _ assms(4)] share.step_inv by simp
qed simp

lemma run_links:
  assumes "svc_ok svc" and "\<forall>op \<in> set ops. \<not> creates dumps tok op" and "links svc tok \<in> {None, x}"
  shows "links (fold (share_step dumps loads) ops svc) tok \<in> {None, x}"
  using assms
proof (induction ops arbitrary: svc)
  case (Cons op ops)
  then show ?case using step_links [of svc dumps tok op loads] share.step_inv [of svc dumps loads op]
    by (metis fold_simps(2) insertCI insertE list.set_intros(1,2) singletonD)
qed simp

lemma validate_at:
  assumes "timed_signer dumps loads"
  shows "fst (validate_link loads (dumps t p) now svc) = (case links svc (dumps t p) of
      None \<Rightarrow> Inl (ShareLinkRevokedError (dumps t p))
    | Some r \<Rightarrow> if alive t (link_ttl_seconds r) now then Inr p else Inl (ShareLinkExpiredError (dumps t p)))"
  using assms by (simp add: validate_link_def links_def timed_signer_def split: option.split)

subsection \<open>A concrete signer\<close>

text \<open>A signer with the documented behaviour: the token spells out the signing second and the path.\<close>

definition plain_dumps :: share_dumps where
  "plain_dumps t p = (let k = py_int t in
     (if 0 \<le> k then replicate (nat k) CHR ''t'' else replicate (nat (- k)) CHR ''n'') @ CHR ''.'' # p)"

definition token_time :: "str \<Rightarrow> int" where
  "token_time token = (let s = takeWhile (\<lambda>c. c \<noteq> CHR ''.'') token in
     if set s \<subseteq> {CHR ''t''} then int (length s) else - int (length s))"

definition plain_loads :: share_loads where
  "plain_loads now token age = (if alive (of_int (token_time token)) age now
     then Loaded (JObj [(''path'', JStr (tl (dropWhile (\<lambda>c. c \<noteq> CHR ''.'') token)))]) else SignatureExpired)"

lemma py_int_of_int [simp]: "py_int (of_int k) = k"
  by (simp add: py_int_def)

lemma take_replicate_dot:
  assumes "c \<noteq> CHR ''.''"
  shows "takeWhile (\<lambda>c. c \<noteq> CHR ''.'') (replicate n c @ CHR ''.'' # p) = replicate n c"
    and "dropWhile (\<lambda>c. c \<noteq> CHR ''.'') (replicate n c @ CHR ''.'' # p) = CHR ''.'' # p"
  using assms by (induction n) simp_all

lemma plain_signer: "timed_signer plain_dumps plain_loads"
proof -
  have "token_time (plain_dumps t p) = py_int t" for t p
    by (auto simp: token_time_def plain_dumps_def Let_def take_replicate_dot split: if_splits)
  moreover have "tl (dropWhile (\<lambda>c. c \<noteq> CHR ''.'') (plain_dumps t p)) = p" for t p
    by (simp add: plain_dumps_def Let_def take_replicate_dot)
  ultimately show ?thesis by (simp add: timed_signer_def plain_loads_def alive_def)
qed

lemma empty_service_ok: "svc_ok (ShareLinkService_init open_state_store)"
  by (rule init_svc_ok) (simp add: open_state_store_def)

subsection \<open>Life of a share link\<close>

lemma created_link:
  assumes "svc_ok svc" and "create_link dumps path ttl t svc = (rec, svc1)"
  shows "link_token rec = dumps t path" and "link_ttl_seconds rec = ttl_value ttl" and "svc_ok svc1"
    and "links svc1 (dumps t path) = Some rec"
proof -
  have svc1: "svc1 = snd (create_link dumps path ttl t svc)" using assms(2) by simp
  show "link_token rec = dumps t path" "link_ttl_seconds rec = ttl_value ttl"
    using assms(2) by (auto simp: create_link_def Let_def)
  show "svc_ok svc1" unfolding svc1 by (rule create_svc_ok [OF assms(1)])
  show "links svc1 (dumps t path) = Some rec"
    using assms(2) by (auto simp: svc1 links_create) (simp add: create_link_def Let_def)
qed

text \<open>A link created at \<open>t\<close>, validated at \<open>now\<close> after the operations \<open>ops\<close>.\<close>

lemma link_valid:
  assumes "timed_signer dumps loads" and "svc_ok svc" and "create_link dumps path ttl t svc = (rec, svc1)"
    and "\<forall>op \<in> set ops. \<not> creates dumps (link_token rec) op"
    and "\<forall>op \<in> set ops. \<not> ends (link_token rec) (alive t (ttl_value ttl)) op" and "alive t (ttl_value ttl) now"
  shows "fst (validate_link loads (link_token rec) now (fold (share_step dumps loads) ops svc1)) = Inr path"
proof -
  note c = created_link [OF assms(2,3)]
  have "links (fold (share_step dumps loads) ops svc1) (dumps t path) = Some rec"
    using run_links_kept [OF c(3) assms(1) c(4,2)] assms(4,5) c(1) by simp
  then show ?thesis unfolding c(1) validate_at [OF assms(1)] using assms(6) c(2) by simp
qed

lemma link_expired:
  assumes "timed_signer dumps loads" and "svc_ok svc" and "create_link dumps path ttl t svc = (rec, svc1)"
    and "\<forall>op \<in> set ops. \<not> creates dumps (link_token rec) op" and "\<not> alive t (ttl_value ttl) now"
  shows "fst (validate_link loads (link_token rec) now (fold (share_step dumps loads) ops svc1)) \<in>
    {Inl (ShareLinkRevokedError (link_token rec)), Inl (ShareLinkExpiredError (link_token rec))}"
proof -
  note c = created_link [OF assms(2,3)]
  have "links (fold (share_step dumps loads) ops svc1) (dumps t path) \<in> {None, Some rec}"
    by (rule run_links [OF c(3)]) (use assms(4) c(1,4) in simp_all)
  then show ?thesis unfolding c(1) validate_at [OF assms(1)] using assms(5) c(2) by auto
qed

lemma link_revoked:
  assumes "timed_signer dumps loads" and "svc_ok svc" and "create_link dumps path ttl t svc = (rec, svc1)"
    and "\<forall>op \<in> set ops. \<not> creates dumps (link_token rec) op" and "ShRevoke (link_token rec) \<in> set ops"
  shows "fst (validate_link loads (link_token rec) now (fold (share_step dumps loads) ops svc1)) =
    Inl (ShareLinkRevokedError (link_token rec))"
proof -
  note c = created_link [OF assms(2,3)]
  obtain a b where ab: "ops = a @ ShRevoke (dumps t path) # b" using split_list [OF assms(5)] c(1) by auto
  let ?mid = "share_step dumps loads (ShRevoke (dumps t path)) (fold (share_step dumps loads) a svc1)"
  have "links ?mid (dumps t path) = None" by (simp add: revoke_link_def links_drop links_def [symmetric])
  moreover have "svc_ok ?mid" by (intro share.step_inv share.run_inv c(3))
  ultimately have "links (fold (share_step dumps loads) ops svc1) (dumps t path) = None"
    using run_links [of ?mid b dumps "dumps t path" None loads] assms(4) ab c(1) by simp
  then show ?thesis unfolding c(1) validate_at [OF assms(1)] by simp
qed

section \<open>Properties\<close>

text \<open>C11: the share service implements a map from tokens to link records. Creating a link binds its
  token, revoking and expiry remove it, listing removes exactly the links whose token no longer
  loads, and a restart, which rebuilds the dict from the database, changes nothing; in every state
  the dict and the table agree.\<close>

theorem share_service_refines:
  assumes "svc_ok svc"
  shows "svc_ok (share_step dumps loads op svc) \<and>
    links (share_step dumps loads op svc) = (case op of
      ShCreate path ttl now \<Rightarrow> (links svc)(dumps now path \<mapsto> \<lparr>link_token = dumps now path, link_file_path = path,
        link_created_at = now, link_ttl_seconds = ttl_value ttl\<rparr>)
    | ShValidate t now \<Rightarrow> (case links svc t of None \<Rightarrow> links svc
        | Some r \<Rightarrow> if loads now t (link_ttl_seconds r) = SignatureExpired then (links svc)(t := None) else links svc)
    | ShRevoke t \<Rightarrow> (links svc)(t := None)
    | ShList now \<Rightarrow> (\<lambda>t. case links svc t of None \<Rightarrow> None
        | Some r \<Rightarrow> (case loads now t (link_ttl_seconds r) of Loaded d \<Rightarrow> Some r | _ \<Rightarrow> None))
    | ShRestart \<Rightarrow> links svc)"
proof (cases op)
  case (ShValidate t now)
  have "links (snd (validate_link loads t now svc)) = (case links svc t of None \<Rightarrow> links svc
      | Some r \<Rightarrow> if loads now t (link_ttl_seconds r) = SignatureExpired then (links svc)(t := None) else links svc)"
    by (auto simp: validate_link_def links_drop links_def [symmetric] split: option.split loads_result.split json.split)
  with ShValidate share.step_inv [OF assms, of dumps loads op] show ?thesis by simp
next
  case (ShRevoke t)
  have "links (snd (revoke_link t svc)) = (links svc)(t := None)"
    by (auto simp: revoke_link_def links_drop links_def [symmetric] intro: fun_upd_idem [symmetric])
  with ShRevoke share.step_inv [OF assms, of dumps loads op] show ?thesis by simp
next
  case (ShList now)
  have "dict_ok (active_links svc)" using assms by (simp add: svc_ok_def)
  with ShList share.step_inv [OF assms, of dumps loads op] show ?thesis by (simp add: links_list)
next
  case ShRestart
  have "links (ShareLinkService_init (link_store svc)) = links svc"
    using assms by (auto simp: svc_ok_def init_links)
  with ShRestart share.step_inv [OF assms, of dumps loads op] show ?thesis by simp
qed (simp_all add: links_create create_svc_ok assms)

theorem share_service_refines_witness:
  "links (share_step plain_dumps plain_loads (ShCreate ''f'' ONE_HOUR 7) (ShareLinkService_init open_state_store))
     (plain_dumps 7 ''f'') = Some \<lparr>link_token = plain_dumps 7 ''f'', link_file_path = ''f'', link_created_at = 7,
       link_ttl_seconds = 3600\<rparr>"
  using share_service_refines [OF empty_service_ok, of plain_dumps plain_loads "ShCreate ''f'' ONE_HOUR 7"] by simp

text \<open>The life of a share link, over any sequence of later operations and restarts that does not
  create the same token again. As long as nothing ends the link and its age is within its TTL,
  the token gives the shared path; past its TTL it never does; once it has been revoked it is
  refused for good.\<close>

lemma share_link_lifetime:
  assumes "timed_signer dumps loads" and "svc_ok svc" and "create_link dumps path ttl t svc = (rec, svc1)"
    and "\<forall>op \<in> set ops. \<not> creates dumps (link_token rec) op"
  shows "((\<forall>op \<in> set ops. \<not> ends (link_token rec) (alive t (ttl_value ttl)) op) \<and> alive t (ttl_value ttl) now \<longrightarrow>
      fst (validate_link loads (link_token rec) now (fold (share_step dumps loads) ops svc1)) = Inr path) \<and>
    (\<not> alive t (ttl_value ttl) now \<longrightarrow>
      \<not> is_ok (fst (validate_link loads (link_token rec) now (fold (share_step dumps loads) ops svc1)))) \<and>
    (ShRevoke (link_token rec) \<in> set ops \<longrightarrow>
      fst (validate_link loads (link_token rec) now (fold (share_step dumps loads) ops svc1)) =
        Inl (ShareLinkRevokedError (link_token rec)))"
  using link_valid [OF assms, of now] link_expired [OF assms, of now] link_revoked [OF assms, of now] by auto

lemma share_link_lifetime_witness:
  "\<exists>rec svc1. create_link plain_dumps ''f'' ONE_HOUR 7 (ShareLinkService_init open_state_store) = (rec, svc1) \<and>
     fst (validate_link plain_loads (link_token rec) 3607 (fold (share_step plain_dumps plain_loads) [ShRestart, ShList 8] svc1)) = Inr ''f'' \<and>
     \<not> is_ok (fst (validate_link plain_loads (link_token rec) 3608 (fold (share_step plain_dumps plain_loads) [ShRestart, ShList 8] svc1)))"
proof -
  obtain rec svc1 where c: "create_link plain_dumps ''f'' ONE_HOUR 7 (ShareLinkService_init open_state_store) = (rec, svc1)"
    by (cases "create_link plain_dumps ''f'' ONE_HOUR 7 (ShareLinkService_init open_state_store)")
  have i: "py_int 7 = 7" "py_int 8 = 8" "py_int 3607 = 3607" "py_int 3608 = 3608"
    using py_int_of_int [of 7] py_int_of_int [of 8] py_int_of_int [of 3607] py_int_of_int [of 3608] by simp_all
  have "\<forall>op \<in> set [ShRestart, ShList 8]. \<not> creates plain_dumps (link_token rec) op" by simp
  from share_link_lifetime [OF plain_signer empty_service_ok c this] c show ?thesis
    by (auto simp: alive_def i)
qed

text \<open>The collaboration tables stay well-formed and bounded. Whatever sequence of service calls runs,
  each as a whole, and whichever of them fail, ids stay unique, there are at most 50 snippets of at
  most 10,000 characters, every request has a trimmed non-empty description, pending requests carry
  no fulfilment and fulfilled ones a complete one.\<close>

lemma server_state_invariant:
  assumes "server_ok s"
  shows "server_ok (fold server_step ops s) \<and>
    length (list_clipboard_snippets (fold server_step ops s)) \<le> 50 \<and>
    (\<forall>r \<in> set (list_clipboard_snippets (fold server_step ops s)). length (snip_content r) \<le> 10000)"
proof -
  have "server_ok (fold server_step ops s)" using assms by (rule server.run_inv)
  then show ?thesis
    by (simp add: server_ok_def snippets_ok_def list_clipboard_snippets_def MAX_SNIPPETS_def MAX_CONTENT_LENGTH_def)
qed

lemma server_state_invariant_witness:
  "server_ok (fold server_step [OpCreateSnippet ''a'' ''t'' 0, OpUpdateSnippet ''a'' ''text'' 1, OpCreateRequest ''r'' '' x '' ''d'' ''n'' 2]
     open_state_store)"
  using server_state_invariant [OF open_state_store_ok] by blast

text \<open>A file request only moves forward, from pending to fulfilled to dismissed, and is never lost,
  whatever the services do afterwards; who asked and for what never changes, nor does a recorded
  fulfilment, and a dismissed request is in no listing again.\<close>

lemma request_lifecycle:
  assumes "server_ok s" and "get_file_request i s = Inr r"
  shows "\<exists>r'. get_file_request i (fold server_step ops s) = Inr r' \<and> advanced r r' \<and>
    (fr_status r = REQ_DISMISSED \<longrightarrow> fr_status r' = REQ_DISMISSED \<and> r' \<notin> set (list_file_requests (fold server_step ops s)))"
proof -
  have r: "request_at i s = Some r" using assms(2) by (auto simp: get_file_request_def split: option.splits)
  have "\<exists>r'. request_at i (fold server_step ops s) = Some r' \<and> advanced r r'"
    by (rule server.run_stable [where P = "\<lambda>s. \<exists>r'. request_at i s = Some r' \<and> advanced r r'"])
      (use request_step advanced_trans assms(1) r in \<open>blast, blast, auto\<close>)
  then obtain r' where r': "request_at i (fold server_step ops s) = Some r'" "advanced r r'" by blast
  have "fr_status r' = REQ_DISMISSED" if "fr_status r = REQ_DISMISSED"
    using r'(2) that by (cases "fr_status r'") (simp_all add: advanced_def)
  with r' show ?thesis by (auto simp: get_file_request_def list_file_requests_def)
qed

lemma request_lifecycle_witness:
  "\<exists>s. s = server_step (OpCreateRequest ''r'' ''x'' ''d'' ''n'' 0) open_state_store \<and>
     (\<exists>r'. get_file_request ''r'' (fold server_step [OpFulfill ''r'' ''b'' ''f'' ''f'' 1, OpDismiss ''r'' ''other''] s) = Inr r' \<and>
       fr_requester_device_id r' = ''d'')"
proof -
  let ?s = "server_step (OpCreateRequest ''r'' ''x'' ''d'' ''n'' 0) open_state_store"
  have ok: "server_ok ?s" using server.step_inv [OF open_state_store_ok] .
  have "\<exists>r. get_file_request ''r'' ?s = Inr r \<and> fr_requester_device_id r = ''d''"
    by (simp add: create_file_request_def py_strip_def py_space_def insert_file_request_def insert_row_def rowcount_def
        open_state_store_def keep_on_error_def drop_fst_def get_file_request_def fetchone_def Let_def)
  then obtain r where r: "get_file_request ''r'' ?s = Inr r" "fr_requester_device_id r = ''d''" by blast
  from request_lifecycle [OF ok r(1), of "[OpFulfill ''r'' ''b'' ''f'' ''f'' 1, OpDismiss ''r'' ''other'']"] r(2)
  show ?thesis by (auto simp: advanced_def)
qed

text \<open>The WebSocket endpoint does not know the relay's roles. A user to whom the relay gives only READ
  or RECEIVE, and to whom the server refuses every clipboard change over HTTP, changes a snippet's
  content over the WebSocket; and an allowlisted user for whom the password gate is lifted over HTTP
  cannot open the WebSocket of a password-protected server without the password.\<close>

lemma websocket_ignores_relay_identity:
  assumes "trusted_role mac cfg get = Inr (Some r)" and "r \<noteq> WRITE" and "\<not> cfg_read_only cfg"
    and "update_snippet sid content now s = Inr (row, s')"
  shows "\<not> route_allowed mac cfg get (Clipboard CreateSnippet) \<and>
    \<not> route_allowed mac cfg get (Clipboard UpdateSnippetTitle) \<and>
    \<not> route_allowed mac cfg get (Clipboard DeleteSnippet) \<and>
    ws_snippet_update cfg sid content now s = s' \<and>
    (is_auth_bypassed mac cfg get = Inr True \<and> cfg_password_hash cfg \<noteq> None \<longrightarrow>
      auth_gate mac loads cfg ''http'' path get None = Inr True \<and> \<not> ws_authenticated loads cfg None)"
proof -
  have "r = READ \<or> r = RECEIVE" using assms(2) by (cases r) simp_all
  then have "\<not> route_allowed mac cfg get rt" if "route_guards rt = [WriteAccess, FullAccess]" for rt
    unfolding route_allowed_def that run_guards_iff using guard_trusted [OF assms(1)] by auto
  then show ?thesis using assms(3,4)
    by (simp add: ws_snippet_update_def auth_gate_def ws_authenticated_def)
qed

lemma websocket_ignores_relay_identity_witness:
  "\<exists>s'. ws_snippet_update demo_server ''a'' ''text'' 1 (server_step (OpCreateSnippet ''a'' ''t'' 0) open_state_store) = s' \<and>
     map snip_content (clipboard_snippets s') = [''text''] \<and>
     \<not> route_allowed demo_mac demo_server (look [(''x-wfs-user'', ''ann''), (''x-wfs-role'', ''read''),
       (IDENTITY_SIG_HEADER, demo_mac (utf8_encode ''k'') (canonical ''ann'' ''read'' False))]) (Clipboard DeleteSnippet)"
proof -
  let ?get = "look [(''x-wfs-user'', ''ann''), (''x-wfs-role'', ''read''),
    (IDENTITY_SIG_HEADER, demo_mac (utf8_encode ''k'') (canonical ''ann'' ''read'' False))]"
  let ?s = "server_step (OpCreateSnippet ''a'' ''t'' 0) open_state_store"
  have r: "trusted_role demo_mac demo_server ?get = Inr (Some READ)"
    using demo_mac_ascii by (simp add: trusted_role_def verified_identity_def demo_server_def is_relay_served_def look_def
        verify_identity_def sign_identity_def compare_digest_def Role_of_def Let_def)
  have u: "\<exists>row s'. update_snippet ''a'' ''text'' 1 ?s = Inr (row, s') \<and> map snip_content (clipboard_snippets s') = [''text'']"
    by (simp add: update_snippet_def MAX_CONTENT_LENGTH_def update_clipboard_snippet_def create_snippet_def
        create_snippet_check_def create_snippet_insert_def count_clipboard_snippets_def MAX_SNIPPETS_def insert_row_def
        insert_clipboard_snippet_def rowcount_def open_state_store_def keep_on_error_def drop_fst_def fetchone_def
        update_where_def Let_def)
  then obtain row s' where u: "update_snippet ''a'' ''text'' 1 ?s = Inr (row, s')"
    "map snip_content (clipboard_snippets s') = [''text'']" by (elim exE conjE)
  from websocket_ignores_relay_identity [OF r _ _ u(1)] u(2) show ?thesis by (auto simp: demo_server_def)
qed

text \<open>The limit on snippets is checked and used in separate store calls: two creations that both pass
  the check at 49 snippets leave 51.\<close>

lemma snippet_limit_race:
  assumes "length (clipboard_snippets s) = 49" and "i \<noteq> j"
    and "\<forall>r \<in> set (clipboard_snippets s). snip_id r \<noteq> i \<and> snip_id r \<noteq> j"
  shows "create_snippet_check s = Inr () \<and> (\<exists>r1 s1 r2 s2. create_snippet_insert i t now s = Inr (r1, s1) \<and>
    create_snippet_insert j t' now' s1 = Inr (r2, s2) \<and> length (clipboard_snippets s2) = 51)"
  using assms by (auto simp: create_snippet_check_def create_snippet_insert_def count_clipboard_snippets_def
      MAX_SNIPPETS_def insert_clipboard_snippet_def insert_row_def rowcount_def Let_def filter_empty_conv)

lemma fulfill_update_mem:
  assumes "request_at i s = Some r"
  shows "\<exists>row s2. fulfill_update i b n p now s = Inr (row, s2) \<and> fr_status row = REQ_FULFILLED \<and>
    row \<in> set (file_requests s2)"
proof -
  let ?f = "\<lambda>x. x\<lparr>fr_status := REQ_FULFILLED, fr_fulfilled_by := Some b, fr_fulfilled_file_name := Some n,
    fr_fulfilled_file_path := Some p, fr_fulfilled_at := Some now\<rparr>"
  have u: "fulfill_update i b n p now s = Inr (?f r, s\<lparr>file_requests := update_where (\<lambda>r. fr_id r = i) ?f (file_requests s)\<rparr>)"
    using assms by (simp add: fulfill_update_def update_file_request_def or_old_def Let_def)
  have m: "r \<in> set (file_requests s) \<and> fr_id r = i" using fetchone_Some_mem [OF assms] .
  have "?f r \<in> set (update_where (\<lambda>r. fr_id r = i) ?f (file_requests s))"
    unfolding set_update_where using m by (intro image_eqI [of _ _ r]) simp_all
  with u show ?thesis by simp
qed

text \<open>Likewise a request can be fulfilled after its requester dismissed it, between the check and the
  update: it is listed again.\<close>

lemma fulfill_after_dismiss_race:
  assumes "server_ok s" and "request_at i s = Some r" and "fr_status r = REQ_PENDING"
  shows "fulfill_check i s = Inr () \<and> (\<exists>s1 row s2. dismiss_request i (fr_requester_device_id r) s = Inr s1 \<and>
    fulfill_update i b n p now s1 = Inr (row, s2) \<and> fr_status row = REQ_FULFILLED \<and> row \<in> set (list_file_requests s2))"
proof -
  have m: "r \<in> set (file_requests s)" "fr_id r = i" using fetchone_Some_mem [OF assms(2)] by auto
  let ?s1 = "s\<lparr>file_requests := update_where (\<lambda>r. fr_id r = i) (\<lambda>r. r\<lparr>fr_status := REQ_DISMISSED\<rparr>) (file_requests s)\<rparr>"
  have d: "dismiss_request i (fr_requester_device_id r) s = Inr ?s1"
    using assms(2) m by (auto simp: dismiss_request_def get_file_request_def dismiss_file_request_def rowcount_0)
  have f: "request_at i ?s1 = Some (r\<lparr>fr_status := REQ_DISMISSED\<rparr>)"
    using assms(2) m(2) by (simp add: fetchone_update_where)
  have "fulfill_check i s = Inr ()" using assms(2,3) by (simp add: fulfill_check_def get_file_request_def)
  moreover obtain row s2 where u: "fulfill_update i b n p now ?s1 = Inr (row, s2)" "fr_status row = REQ_FULFILLED"
      "row \<in> set (file_requests s2)"
    using fulfill_update_mem [OF f] by blast
  ultimately show ?thesis using d by (fastforce simp: list_file_requests_def)
qed

end
