(* ===== verification/Devices.thy ===== *)
theory Devices
  imports Server_State
begin

text \<open>
  Device tracking and live messages of the server: \<open>server/app/services/connection_manager.py\<close> and the
  endpoint \<open>/ws\<close> of \<open>server/app/routers/websocket.py\<close>.

  A WebSocket is a number; which of them still accept a message at a moment is the argument
  \<open>works\<close> (a send to any other raises). \<open>hub\<close> holds the connection manager and what has been sent.
  A broadcast is its loop, which collects the ids of failed sends, and the removals after it. The
  endpoint is an event system: a connection opens, receives messages, and ends, and a broadcast is one step of
  it. \<open>traffic_step\<close> takes broadcasts apart: each send is a step of its own, between which
  devices connect and leave and other broadcasts run; without such interleaving it is the broadcast in
  one step (\<open>flight_alone\<close>).
\<close>

section \<open>Connection manager (services/connection_manager.py)\<close>

datatype DeviceType = PHONE | TABLET | DESKTOP

definition parse_device_type :: "str \<Rightarrow> DeviceType" where
  "parse_device_type user_agent = (let ua = py_lower user_agent in
     if py_contains ua ''ipad'' \<or> py_contains ua ''tablet'' then TABLET
     else if py_contains ua ''mobile'' \<or> py_contains ua ''android'' \<or> py_contains ua ''iphone'' then PHONE
     else DESKTOP)"

record DeviceInfo =
  dev_id :: str
  dev_name :: str
  dev_ip :: str
  dev_type :: DeviceType
  dev_connected_at :: timestamp

type_synonym ws_ref = nat

record ConnectionManager =
  active_connections :: "(str \<times> ws_ref) list"
  devices :: "(str \<times> DeviceInfo) list"

datatype ToastType =
    FILE_UPLOADED | FILE_EXPIRED | DEVICE_CONNECTED | DEVICE_DISCONNECTED | TOAST_REQUEST_CREATED | TOAST_REQUEST_FULFILLED

datatype toast_extra = NoExtra | ToastDevice DeviceInfo | ToastDeviceId str

datatype ws_msg =
    Pong
  | Toast ToastType str str timestamp toast_extra
  | DeviceCount nat
  | DeviceList "DeviceInfo list" str
  | SnippetCreated ClipboardRow
  | SnippetUpdated ClipboardRow
  | SnippetDeleted str
  | RequestCreated FileRequestRow
  | RequestFulfilled FileRequestRow
  | RequestDismissed str

record hub =
  manager :: ConnectionManager
  sent :: "(ws_ref \<times> ws_msg) list"

definition ConnectionManager_init :: ConnectionManager where
  "ConnectionManager_init = \<lparr>active_connections = [], devices = []\<rparr>"

definition connect :: "ws_ref \<Rightarrow> str \<Rightarrow> str \<Rightarrow> str \<Rightarrow> str \<Rightarrow> timestamp \<Rightarrow> ConnectionManager \<Rightarrow> ConnectionManager" where
  "connect ws device_id device_name ip_address user_agent now m =
     \<lparr>active_connections = AList.update device_id ws (active_connections m),
      devices = AList.update device_id \<lparr>dev_id = device_id, dev_name = device_name, dev_ip = ip_address,
        dev_type = parse_device_type user_agent, dev_connected_at = now\<rparr> (devices m)\<rparr>"

definition disconnect :: "str \<Rightarrow> ConnectionManager \<Rightarrow> ConnectionManager" where
  "disconnect device_id m = \<lparr>active_connections = AList.delete device_id (active_connections m),
     devices = AList.delete device_id (devices m)\<rparr>"

definition is_current_connection :: "str \<Rightarrow> ws_ref \<Rightarrow> ConnectionManager \<Rightarrow> bool" where
  "is_current_connection device_id ws m = (map_of (active_connections m) device_id = Some ws)"

text \<open>The loop of \<open>broadcast\<close> and, without an excluded device, of \<open>broadcast_all\<close>, over the snapshot of the
  connections.\<close>

fun broadcast_loop ::
  "(ws_ref \<Rightarrow> bool) \<Rightarrow> ws_msg \<Rightarrow> str option \<Rightarrow> (str \<times> ws_ref) list \<Rightarrow> str list \<Rightarrow> (ws_ref \<times> ws_msg) list \<Rightarrow>
     str list \<times> (ws_ref \<times> ws_msg) list" where
  "broadcast_loop works msg exclude [] dead out = (dead, out)"
| "broadcast_loop works msg exclude ((dev, ws) # conns) dead out =
     (if exclude = Some dev then broadcast_loop works msg exclude conns dead out
      else if works ws then broadcast_loop works msg exclude conns dead (out @ [(ws, msg)])
      else broadcast_loop works msg exclude conns (dead @ [dev]) out)"

definition broadcast_end :: "str list \<Rightarrow> ConnectionManager \<Rightarrow> ConnectionManager" where
  "broadcast_end dead m = fold disconnect dead m"

definition broadcast_gen :: "(ws_ref \<Rightarrow> bool) \<Rightarrow> ws_msg \<Rightarrow> str option \<Rightarrow> hub \<Rightarrow> hub" where
  "broadcast_gen works msg exclude h =
     (case broadcast_loop works msg exclude (active_connections (manager h)) [] (sent h) of
        (dead, out) \<Rightarrow> \<lparr>manager = broadcast_end dead (manager h), sent = out\<rparr>)"

definition broadcast :: "(ws_ref \<Rightarrow> bool) \<Rightarrow> ws_msg \<Rightarrow> str \<Rightarrow> hub \<Rightarrow> hub" where
  "broadcast works msg exclude_device h = broadcast_gen works msg (Some exclude_device) h"

definition broadcast_all :: "(ws_ref \<Rightarrow> bool) \<Rightarrow> ws_msg \<Rightarrow> hub \<Rightarrow> hub" where
  "broadcast_all works msg h = broadcast_gen works msg None h"

datatype send_exn = SendKeyError | SendFailed

definition send_to :: "(ws_ref \<Rightarrow> bool) \<Rightarrow> str \<Rightarrow> ws_msg \<Rightarrow> hub \<Rightarrow> (send_exn, hub) result" where
  "send_to works device_id msg h = (case map_of (active_connections (manager h)) device_id of
     None \<Rightarrow> Inl SendKeyError
   | Some ws \<Rightarrow> if works ws then Inr (h\<lparr>sent := sent h @ [(ws, msg)]\<rparr>) else Inl SendFailed)"

definition device_count :: "ConnectionManager \<Rightarrow> nat" where
  "device_count m = length (active_connections m)"

definition get_device_name :: "str \<Rightarrow> ConnectionManager \<Rightarrow> (send_exn, str) result" where
  "get_device_name device_id m = (case map_of (devices m) device_id of
     None \<Rightarrow> Inl SendKeyError | Some info \<Rightarrow> Inr (dev_name info))"

definition get_device_list :: "ConnectionManager \<Rightarrow> DeviceInfo list" where
  "get_device_list m = map snd (devices m)"

section \<open>The endpoint (routers/websocket.py)\<close>

definition make_device_count :: "ConnectionManager \<Rightarrow> ws_msg" where
  "make_device_count m = DeviceCount (device_count m)"

definition make_device_list :: "ConnectionManager \<Rightarrow> str \<Rightarrow> ws_msg" where
  "make_device_list m your_device_id = DeviceList (get_device_list m) your_device_id"

definition endpoint_device_id :: "str \<Rightarrow> str \<Rightarrow> timestamp \<Rightarrow> str" where
  "endpoint_device_id device_id device_name now =
     (if device_id = [] then device_name @ ''-'' @ nat_digits (nat (py_int (now * 1000))) else device_id)"

text \<open>The \<open>finally\<close> block.\<close>

definition ws_finally :: "(ws_ref \<Rightarrow> bool) \<Rightarrow> str \<Rightarrow> str \<Rightarrow> ws_ref \<Rightarrow> timestamp \<Rightarrow> hub \<Rightarrow> hub" where
  "ws_finally works device_id device_name ws now h =
     (if is_current_connection device_id ws (manager h) then
        (let h1 = h\<lparr>manager := disconnect device_id (manager h)\<rparr>;
             h2 = broadcast_all works (Toast DEVICE_DISCONNECTED (device_name @ '' disconnected'') device_name now
               (ToastDeviceId device_id)) h1
         in broadcast_all works (make_device_count (manager h2)) h2)
      else h)"

text \<open>From the connection to the receive loop: registration, the device list for the new device, the toast
  for the others, the count for all. \<open>Inl\<close> is an exception on the way; \<open>finally\<close> then runs.\<close>

definition ws_greet ::
  "(ws_ref \<Rightarrow> bool) \<Rightarrow> str \<Rightarrow> str \<Rightarrow> timestamp \<Rightarrow> hub \<Rightarrow> (send_exn, hub) result" where
  "ws_greet works device_id device_name now h =
     res_bind (send_to works device_id (make_device_list (manager h) device_id) h) (\<lambda>h1.
       case map_of (devices (manager h1)) device_id of
         None \<Rightarrow> Inl SendKeyError
       | Some info \<Rightarrow>
           (let h2 = broadcast works (Toast DEVICE_CONNECTED (device_name @ '' connected'') device_name now
                (ToastDevice info)) device_id h1
            in Inr (broadcast_all works (make_device_count (manager h2)) h2)))"

record ws_request =
  wr_device_name :: str
  wr_device_id :: str
  wr_cookie :: "str option"
  wr_ip :: str
  wr_user_agent :: str

datatype ws_opened = WsRejected nat | WsFailed | WsOpen str

definition ws_open ::
  "(ws_ref \<Rightarrow> bool) \<Rightarrow> (str \<Rightarrow> loads_result) \<Rightarrow> server_config \<Rightarrow> ws_request \<Rightarrow> ws_ref \<Rightarrow> timestamp \<Rightarrow> hub \<Rightarrow> ws_opened \<times> hub" where
  "ws_open works loads cfg req ws now h =
     (let device_id = endpoint_device_id (wr_device_id req) (wr_device_name req) now in
      if \<not> ws_authenticated loads cfg (wr_cookie req) then (WsRejected 4001, h)
      else
        (let h1 = h\<lparr>manager := connect ws device_id (wr_device_name req) (wr_ip req) (wr_user_agent req) now (manager h)\<rparr>
         in case ws_greet works device_id (wr_device_name req) now h1 of
              Inl e \<Rightarrow> (WsFailed, ws_finally works device_id (wr_device_name req) ws now h1)
            | Inr h2 \<Rightarrow> (WsOpen device_id, h2)))"

text \<open>One round of the receive loop. A message without its fields, or that is not an object, raises;
  \<open>False\<close> says that the loop ended with an exception.\<close>

datatype client_msg = Ping | SnippetUpdate "str option" "str option" | OtherMessage | NotAnObject

definition ws_message ::
  "(ws_ref \<Rightarrow> bool) \<Rightarrow> server_config \<Rightarrow> str \<Rightarrow> ws_ref \<Rightarrow> client_msg \<Rightarrow> timestamp \<Rightarrow> hub \<Rightarrow> server_state \<Rightarrow> bool \<times> hub \<times> server_state" where
  "ws_message works cfg device_id ws data now h s = (case data of
     Ping \<Rightarrow> if works ws then (True, h\<lparr>sent := sent h @ [(ws, Pong)]\<rparr>, s) else (False, h, s)
   | SnippetUpdate snippet_id content \<Rightarrow>
       if cfg_read_only cfg then (True, h, s)
       else (case (snippet_id, content) of
           (Some sid, Some text) \<Rightarrow>
             (case update_snippet sid text now s of
                Inr (updated, s') \<Rightarrow> (True, broadcast works (SnippetUpdated updated) device_id h, s')
              | Inl (SnippetNotFoundError k) \<Rightarrow> (True, h, s)
              | Inl (SnippetValidationError reason) \<Rightarrow> (True, h, s)
              | Inl e \<Rightarrow> (False, h, s))
         | _ \<Rightarrow> (False, h, s))
   | OtherMessage \<Rightarrow> (True, h, s)
   | NotAnObject \<Rightarrow> (False, h, s))"

section \<open>Connections as an event system\<close>

text \<open>\<open>running\<close> are the endpoints in their receive loop: socket, device id and device name. Any other
  broadcast, by an HTTP route, is the event \<open>EvBroadcast\<close>.\<close>

record live_state =
  live_hub :: hub
  live_store :: server_state
  running :: "(ws_ref \<times> str \<times> str) list"

datatype live_event =
    EvConnect ws_ref ws_request timestamp
  | EvMessage ws_ref client_msg timestamp
  | EvEnd ws_ref timestamp
  | EvBroadcast ws_msg "str option"

definition live_end :: "(ws_ref \<Rightarrow> bool) \<Rightarrow> ws_ref \<Rightarrow> timestamp \<Rightarrow> live_state \<Rightarrow> live_state" where
  "live_end works ws now st = (case map_of (running st) ws of
     None \<Rightarrow> st
   | Some (dev, name) \<Rightarrow> st\<lparr>live_hub := ws_finally works dev name ws now (live_hub st), running := AList.delete ws (running st)\<rparr>)"

fun live_step :: "(str \<Rightarrow> loads_result) \<Rightarrow> server_config \<Rightarrow> (ws_ref \<Rightarrow> bool) \<times> live_event \<Rightarrow> live_state \<Rightarrow> live_state" where
  "live_step loads cfg (works, EvConnect ws req now) st =
     (if map_of (running st) ws \<noteq> None then st
      else (case ws_open works loads cfg req ws now (live_hub st) of
          (WsOpen dev, h) \<Rightarrow> st\<lparr>live_hub := h, running := AList.update ws (dev, wr_device_name req) (running st)\<rparr>
        | (_, h) \<Rightarrow> st\<lparr>live_hub := h\<rparr>))"
| "live_step loads cfg (works, EvMessage ws data now) st =
     (case map_of (running st) ws of
        None \<Rightarrow> st
      | Some (dev, name) \<Rightarrow>
          (case ws_message works cfg dev ws data now (live_hub st) (live_store st) of
             (True, h, s) \<Rightarrow> st\<lparr>live_hub := h, live_store := s\<rparr>
           | (False, h, s) \<Rightarrow> live_end works ws now (st\<lparr>live_hub := h, live_store := s\<rparr>)))"
| "live_step loads cfg (works, EvEnd ws now) st = live_end works ws now st"
| "live_step loads cfg (works, EvBroadcast msg exclude) st =
     st\<lparr>live_hub := broadcast_gen works msg exclude (live_hub st)\<rparr>"

section \<open>Broadcasts that take time\<close>

text \<open>A broadcast awaits every send, and other tasks run meanwhile. \<open>flight\<close> is a broadcast under way: what is left of
  the snapshot it took, and the ids of the devices whose send failed. The manager changes when a device
  connects, when the \<open>finally\<close> block of an endpoint removes its own connection, and when a broadcast that has
  reached the end of its snapshot removes the failed devices. \<open>tf_log\<close> records each delivery with the number
  of its broadcast.\<close>

record flight =
  fl_msg :: ws_msg
  fl_exclude :: "str option"
  fl_rest :: "(str \<times> ws_ref) list"
  fl_dead :: "str list"

record traffic =
  tf_manager :: ConnectionManager
  tf_flights :: "(nat \<times> flight) list"
  tf_next :: nat
  tf_log :: "(nat \<times> str \<times> ws_ref \<times> ws_msg) list"

datatype traffic_event =
    TConnect ws_ref str str str str timestamp
  | TFinally str ws_ref
  | TBroadcast ws_msg "str option"
  | TSend nat
  | TRemove nat

definition flight_send :: "(ws_ref \<Rightarrow> bool) \<Rightarrow> nat \<Rightarrow> flight \<Rightarrow> traffic \<Rightarrow> traffic" where
  "flight_send works i f st = (case fl_rest f of
     [] \<Rightarrow> st
   | (dev, ws) # rest \<Rightarrow>
       if fl_exclude f = Some dev then st\<lparr>tf_flights := AList.update i (f\<lparr>fl_rest := rest\<rparr>) (tf_flights st)\<rparr>
       else if works ws then st\<lparr>tf_flights := AList.update i (f\<lparr>fl_rest := rest\<rparr>) (tf_flights st),
         tf_log := tf_log st @ [(i, dev, ws, fl_msg f)]\<rparr>
       else st\<lparr>tf_flights := AList.update i (f\<lparr>fl_rest := rest, fl_dead := fl_dead f @ [dev]\<rparr>) (tf_flights st)\<rparr>)"

fun traffic_step :: "(ws_ref \<Rightarrow> bool) \<times> traffic_event \<Rightarrow> traffic \<Rightarrow> traffic" where
  "traffic_step (works, TConnect ws dev name ip ua now) st = st\<lparr>tf_manager := connect ws dev name ip ua now (tf_manager st)\<rparr>"
| "traffic_step (works, TFinally dev ws) st =
     (if is_current_connection dev ws (tf_manager st) then st\<lparr>tf_manager := disconnect dev (tf_manager st)\<rparr> else st)"
| "traffic_step (works, TBroadcast msg exclude) st =
     st\<lparr>tf_flights := AList.update (tf_next st) \<lparr>fl_msg = msg, fl_exclude = exclude,
          fl_rest = active_connections (tf_manager st), fl_dead = []\<rparr> (tf_flights st), tf_next := Suc (tf_next st)\<rparr>"
| "traffic_step (works, TSend i) st = (case map_of (tf_flights st) i of None \<Rightarrow> st | Some f \<Rightarrow> flight_send works i f st)"
| "traffic_step (works, TRemove i) st = (case map_of (tf_flights st) i of
     None \<Rightarrow> st
   | Some f \<Rightarrow> if fl_rest f \<noteq> [] then st
       else st\<lparr>tf_manager := broadcast_end (fl_dead f) (tf_manager st), tf_flights := AList.delete i (tf_flights st)\<rparr>)"

section \<open>Lemmas\<close>

subsection \<open>The manager\<close>

abbreviation registered :: "ConnectionManager \<Rightarrow> str \<rightharpoonup> ws_ref" where
  "registered m \<equiv> map_of (active_connections m)"

definition manager_ok :: "ConnectionManager \<Rightarrow> bool" where
  "manager_ok m \<longleftrightarrow> map fst (active_connections m) = map fst (devices m) \<and> dict_ok (active_connections m) \<and>
     (\<forall>d info. map_of (devices m) d = Some info \<longrightarrow> dev_id info = d)"

lemma connect_registered: "registered (connect ws d name ip ua now m) = (registered m)(d \<mapsto> ws)"
  by (simp add: connect_def update_conv')

lemma disconnect_registered: "registered (disconnect d m) = (registered m)(d := None)"
  by (simp add: disconnect_def delete_conv')

lemma connect_ok: "manager_ok m \<Longrightarrow> manager_ok (connect ws d name ip ua now m)"
  by (auto simp: manager_ok_def connect_def update_keys update_conv')

lemma disconnect_ok: "manager_ok m \<Longrightarrow> manager_ok (disconnect d m)"
  by (auto simp: manager_ok_def disconnect_def delete_keys delete_conv' distinct_removeAll)

lemma broadcast_end_ok: "manager_ok m \<Longrightarrow> manager_ok (broadcast_end dead m)"
  unfolding broadcast_end_def by (induction dead arbitrary: m) (auto intro: disconnect_ok)

lemma broadcast_end_registered:
  "registered (broadcast_end dead m) d = (if d \<in> set dead then None else registered m d)"
  unfolding broadcast_end_def by (induction dead arbitrary: m) (auto simp: disconnect_registered)

lemma broadcast_loop_eq:
  "broadcast_loop works msg exclude conns dead out =
     (dead @ map fst (filter (\<lambda>(d, w). exclude \<noteq> Some d \<and> \<not> works w) conns),
      out @ map (\<lambda>(d, w). (w, msg)) (filter (\<lambda>(d, w). exclude \<noteq> Some d \<and> works w) conns))"
  by (induction works msg exclude conns dead out rule: broadcast_loop.induct) auto

lemma broadcast_sent:
  "sent (broadcast_gen works msg exclude h) = sent h @
     map (\<lambda>(d, w). (w, msg)) (filter (\<lambda>(d, w). exclude \<noteq> Some d \<and> works w) (active_connections (manager h)))"
  by (simp add: broadcast_gen_def broadcast_loop_eq)

lemma broadcast_manager:
  "manager (broadcast_gen works msg exclude h) = broadcast_end
     (map fst (filter (\<lambda>(d, w). exclude \<noteq> Some d \<and> \<not> works w) (active_connections (manager h)))) (manager h)"
  by (simp add: broadcast_gen_def broadcast_loop_eq)

subsection \<open>What changes the registrations\<close>

text \<open>From \<open>m\<close> to \<open>m'\<close> only devices whose socket does not work were dropped.\<close>

definition prunes :: "(ws_ref \<Rightarrow> bool) \<Rightarrow> ConnectionManager \<Rightarrow> ConnectionManager \<Rightarrow> bool" where
  "prunes works m m' \<longleftrightarrow> manager_ok m' \<and> (\<forall>d. registered m' d = registered m d \<or>
     registered m' d = None \<and> (\<exists>w. registered m d = Some w \<and> \<not> works w))"

lemma prunes_refl: "manager_ok m \<Longrightarrow> prunes works m m"
  by (simp add: prunes_def)

lemma prunes_trans [trans]: "prunes works m1 m2 \<Longrightarrow> prunes works m2 m3 \<Longrightarrow> prunes works m1 m3"
  unfolding prunes_def by metis

lemma prunes_ok: "prunes works m m' \<Longrightarrow> manager_ok m'"
  by (simp add: prunes_def)

lemma prunes_keeps: "prunes works m m' \<Longrightarrow> registered m d = Some w \<Longrightarrow> works w \<Longrightarrow> registered m' d = Some w"
  unfolding prunes_def by (metis option.inject)

lemma prunes_le: "prunes works m m' \<Longrightarrow> registered m' d = Some w \<Longrightarrow> registered m d = Some w"
  unfolding prunes_def by (metis option.distinct(1))

lemma prunes_broadcast:
  assumes "manager_ok (manager h)"
  shows "prunes works (manager h) (manager (broadcast_gen works msg exclude h))"
proof -
  have "\<exists>w. registered (manager h) d = Some w \<and> \<not> works w"
    if "(d, w) \<in> set (active_connections (manager h))" "\<not> works w" for d w
    using that assms by (auto simp: manager_ok_def intro: map_of_is_SomeI)
  with assms show ?thesis
    by (auto simp: prunes_def broadcast_manager broadcast_end_ok broadcast_end_registered)
qed

lemma prunes_broadcast2:
  assumes "manager_ok (manager h)"
  shows "prunes works (manager h) (manager (broadcast_gen works m2 e2 (broadcast_gen works m1 e1 h)))"
  using prunes_broadcast [OF assms] prunes_broadcast [OF prunes_ok [OF prunes_broadcast [OF assms]]] by (rule prunes_trans)

lemma finally_prunes:
  assumes "manager_ok (manager h)"
  shows "prunes works (if is_current_connection d ws (manager h) then disconnect d (manager h) else manager h)
    (manager (ws_finally works d name ws now h))"
proof (cases "is_current_connection d ws (manager h)")
  case True
  let ?h1 = "h\<lparr>manager := disconnect d (manager h)\<rparr>"
  have "prunes works (manager ?h1) (manager (broadcast_all works m2 (broadcast_all works m1 ?h1)))" for m1 m2
    unfolding broadcast_all_def by (rule prunes_broadcast2) (simp add: assms disconnect_ok)
  with True show ?thesis by (simp add: ws_finally_def Let_def)
qed (simp add: ws_finally_def prunes_refl assms)

lemma greet_prunes:
  assumes "manager_ok (manager h)" and "ws_greet works d name now h = Inr h'"
  shows "prunes works (manager h) (manager h')"
proof -
  obtain h1 where h1: "send_to works d (make_device_list (manager h) d) h = Inr h1"
    using assms(2) by (auto simp: ws_greet_def res_bind_eq_Inr)
  then have m: "manager h1 = manager h" by (auto simp: send_to_def split: option.splits if_splits)
  obtain m1 m2 where "h' = broadcast_all works m2 (broadcast works m1 d h1)"
    using assms(2) h1 by (auto simp: ws_greet_def Let_def split: option.splits)
  then show ?thesis using prunes_broadcast2 [of h1 works m2 None m1 "Some d"] assms(1) m
    by (simp add: broadcast_all_def broadcast_def)
qed

lemma greet_fails:
  assumes "registered (manager h) d = Some ws" and "manager_ok (manager h)" and "ws_greet works d name now h = Inl e"
  shows "\<not> works ws"
proof -
  have "d \<in> fst ` set (devices (manager h))" using assms(1,2)
    by (metis manager_ok_def map_of_eq_None_iff option.distinct(1) set_map)
  then have "map_of (devices (manager h)) d \<noteq> None" by (simp add: map_of_eq_None_iff)
  then show ?thesis using assms(1,3) by (auto simp: ws_greet_def send_to_def Let_def split: option.splits if_splits)
qed

lemma message_prunes:
  assumes "manager_ok (manager h)"
  shows "prunes works (manager h) (manager (fst (snd (ws_message works cfg d ws data now h s))))"
  using prunes_refl [OF assms] prunes_broadcast [OF assms]
  by (auto simp: ws_message_def broadcast_def split: client_msg.split option.split sum.split store_exn.split)

text \<open>What opening a connection leaves behind.\<close>

lemma open_cases:
  assumes "manager_ok (manager h)" and "ws_open works loads cfg req ws now h = (r, h')"
  obtains (rejected) "r = WsRejected 4001" and "h' = h"
  | (failed) d m1 where "r = WsFailed" and "manager_ok m1" and "registered m1 = (registered (manager h))(d := None)"
      and "prunes works m1 (manager h')" and "d = endpoint_device_id (wr_device_id req) (wr_device_name req) now"
  | (opened) d m1 where "r = WsOpen d" and "manager_ok m1" and "registered m1 = (registered (manager h))(d \<mapsto> ws)"
      and "prunes works m1 (manager h')" and "d = endpoint_device_id (wr_device_id req) (wr_device_name req) now"
proof -
  let ?d = "endpoint_device_id (wr_device_id req) (wr_device_name req) now"
  let ?m = "connect ws ?d (wr_device_name req) (wr_ip req) (wr_user_agent req) now (manager h)"
  let ?h1 = "h\<lparr>manager := ?m\<rparr>"
  have ok: "manager_ok ?m" using assms(1) by (rule connect_ok)
  show thesis
  proof (cases "ws_authenticated loads cfg (wr_cookie req)")
    case False
    then show thesis using rejected assms(2) by (simp add: ws_open_def Let_def)
  next
    case auth: True
    show thesis
    proof (cases "ws_greet works ?d (wr_device_name req) now ?h1")
      case (Inl e)
      then have h': "r = WsFailed" "h' = ws_finally works ?d (wr_device_name req) ws now ?h1"
        using assms(2) auth by (simp_all add: ws_open_def Let_def)
      have "is_current_connection ?d ws ?m" by (simp add: is_current_connection_def connect_registered)
      then have "prunes works (disconnect ?d ?m) (manager h')" using finally_prunes [of ?h1 works ?d ws] ok h'(2) by simp
      then show thesis using failed [of "disconnect ?d ?m" ?d] h'(1) disconnect_ok [OF ok]
        by (simp add: disconnect_registered connect_registered)
    next
      case (Inr h2)
      then have h': "r = WsOpen ?d" "h' = h2" using assms(2) auth by (simp_all add: ws_open_def Let_def)
      have "prunes works ?m (manager h2)" using greet_prunes [OF _ Inr] ok by simp
      then show thesis using opened [of ?d ?m] h' ok by (simp add: connect_registered)
    qed
  qed
qed

subsection \<open>The event system\<close>

definition presence_ok :: "live_state \<Rightarrow> bool" where
  "presence_ok st \<longleftrightarrow> manager_ok (manager (live_hub st)) \<and> server_ok (live_store st) \<and>
     (\<forall>d w. registered (manager (live_hub st)) d = Some w \<longrightarrow> (\<exists>name. map_of (running st) w = Some (d, name)))"

lemma presence_ok_prunes:
  assumes "presence_ok st" and "prunes works (manager (live_hub st)) (manager h)" and "server_ok s"
  shows "presence_ok (st\<lparr>live_hub := h, live_store := s\<rparr>)"
  using assms prunes_le [OF assms(2)] by (auto simp: presence_ok_def prunes_def)

lemma end_registered:
  assumes "manager_ok (manager (live_hub st))" and "map_of (running st) ws = Some (d, name)"
  shows "manager_ok (manager (live_hub (live_end works ws now st)))"
    and "registered (manager (live_hub (live_end works ws now st))) e = Some w \<Longrightarrow>
      registered (manager (live_hub st)) e = Some w \<and> (e \<noteq> d \<or> w \<noteq> ws)"
    and "registered (manager (live_hub st)) e = Some w \<Longrightarrow> works w \<Longrightarrow> e \<noteq> d \<or> w \<noteq> ws \<Longrightarrow>
      registered (manager (live_hub (live_end works ws now st))) e = Some w"
proof -
  let ?h = "live_hub st" and ?h' = "ws_finally works d name ws now (live_hub st)"
  let ?m = "if is_current_connection d ws (manager ?h) then disconnect d (manager ?h) else manager ?h"
  have h': "live_hub (live_end works ws now st) = ?h'" using assms(2) by (simp add: live_end_def)
  have pr: "prunes works ?m (manager ?h')" by (rule finally_prunes [OF assms(1)])
  then show "manager_ok (manager (live_hub (live_end works ws now st)))" unfolding h' by (rule prunes_ok)
  have m: "registered ?m e = Some w \<longleftrightarrow> registered (manager ?h) e = Some w \<and> (e \<noteq> d \<or> w \<noteq> ws)" for e w
    by (auto simp: is_current_connection_def disconnect_registered)
  show "registered (manager (live_hub (live_end works ws now st))) e = Some w \<Longrightarrow>
      registered (manager (live_hub st)) e = Some w \<and> (e \<noteq> d \<or> w \<noteq> ws)"
    using prunes_le [OF pr] unfolding h' m .
  show "registered (manager (live_hub st)) e = Some w \<Longrightarrow> works w \<Longrightarrow> e \<noteq> d \<or> w \<noteq> ws \<Longrightarrow>
      registered (manager (live_hub (live_end works ws now st))) e = Some w"
    using prunes_keeps [OF pr] unfolding h' m by blast
qed

lemma end_ok:
  assumes "presence_ok st"
  shows "presence_ok (live_end works ws now st)"
proof (cases "map_of (running st) ws")
  case None
  then show ?thesis using assms by (simp add: live_end_def)
next
  case (Some p)
  then obtain d name where r: "map_of (running st) ws = Some (d, name)" by (cases p) auto
  have ok: "manager_ok (manager (live_hub st))" using assms by (simp add: presence_ok_def)
  have "\<exists>name. map_of (AList.delete ws (running st)) w = Some (e, name)"
    if "registered (manager (live_hub (live_end works ws now st))) e = Some w" for e w
  proof -
    have "registered (manager (live_hub st)) e = Some w" "e \<noteq> d \<or> w \<noteq> ws" using end_registered(2) [OF ok r that] by auto
    then show ?thesis using assms r unfolding presence_ok_def delete_conv' by fastforce
  qed
  then show ?thesis using assms end_registered(1) [OF ok r] r by (auto simp: presence_ok_def live_end_def)
qed

lemma update_snippet_errors:
  "update_snippet sid content now s = Inl e \<Longrightarrow> (\<exists>k. e = SnippetNotFoundError k) \<or> (\<exists>r. e = SnippetValidationError r)"
  by (auto simp: update_snippet_def key_to_not_found_def update_clipboard_snippet_def
      split: if_splits sum.splits store_exn.splits option.splits)

definition malformed :: "server_config \<Rightarrow> client_msg \<Rightarrow> bool" where
  "malformed cfg data = (case data of
     NotAnObject \<Rightarrow> True
   | SnippetUpdate sid content \<Rightarrow> \<not> cfg_read_only cfg \<and> (sid = None \<or> content = None)
   | _ \<Rightarrow> False)"

lemma message_result:
  assumes "ws_message works cfg d ws data now h s = (ok, h', s')"
  shows "ok \<longleftrightarrow> \<not> malformed cfg data \<and> (data = Ping \<longrightarrow> works ws)"
    and "s' = (case data of SnippetUpdate (Some sid) (Some content) \<Rightarrow> ws_snippet_update cfg sid content now s | _ \<Rightarrow> s)"
  using assms
  by (auto simp: ws_message_def malformed_def ws_snippet_update_def dest: update_snippet_errors
      split: client_msg.splits option.splits sum.splits store_exn.splits if_splits)

lemma message_store_ok:
  assumes "server_ok s" and "ws_message works cfg d ws data now h s = (ok, h', s')"
  shows "server_ok s'"
  using message_result(2) [OF assms(2)] assms(1)
  by (auto simp: ws_snippet_update_def split: client_msg.splits option.splits sum.splits intro: update_snippet_ok)

lemma live_step_ok:
  assumes "presence_ok st"
  shows "presence_ok (live_step loads cfg ev st)"
proof -
  obtain works e where ev: "ev = (works, e)" by (cases ev)
  have ok: "manager_ok (manager (live_hub st))" and so: "server_ok (live_store st)" using assms by (simp_all add: presence_ok_def)
  note old = assms [unfolded presence_ok_def]
  show ?thesis
  proof (cases e)
    case (EvConnect ws req now)
    show ?thesis
    proof (cases "map_of (running st) ws")
      case None
      obtain r h where o: "ws_open works loads cfg req ws now (live_hub st) = (r, h)" by (cases "ws_open works loads cfg req ws now (live_hub st)")
      from ok o show ?thesis
      proof (cases rule: open_cases)
        case rejected
        then show ?thesis using assms o None by (simp add: ev EvConnect)
      next
        case (failed d m1)
        then have "registered (manager (live_hub st)) x = Some w" if "registered (manager h) x = Some w" for x w
          using prunes_le [OF failed(4) that] by (auto split: if_splits)
        then show ?thesis using old o None failed(1) prunes_ok [OF failed(4)] by (auto simp: ev EvConnect presence_ok_def)
      next
        case (opened d m1)
        have "(\<exists>name. map_of (running st) w = Some (x, name) \<and> w \<noteq> ws) \<or> x = d \<and> w = ws" if "registered (manager h) x = Some w" for x w
          using prunes_le [OF opened(4) that] opened(3) old None by (cases "x = d") fastforce+
        then show ?thesis using old o None opened(1) prunes_ok [OF opened(4)]
          by (auto simp: ev EvConnect presence_ok_def update_conv')
      qed
    qed (use assms in \<open>simp add: ev EvConnect\<close>)
  next
    case (EvMessage ws data now)
    show ?thesis
    proof (cases "map_of (running st) ws")
      case (Some p)
      obtain d name where p: "p = (d, name)" by (cases p)
      obtain k h s where m: "ws_message works cfg d ws data now (live_hub st) (live_store st) = (k, h, s)"
        by (cases "ws_message works cfg d ws data now (live_hub st) (live_store st)") auto
      have "presence_ok (st\<lparr>live_hub := h, live_store := s\<rparr>)"
        using presence_ok_prunes [OF assms _ message_store_ok [OF so m], of works h]
          message_prunes [OF ok, of works cfg d ws data now "live_store st"] m by simp
      then show ?thesis using m Some p end_ok by (cases k) (simp_all add: ev EvMessage)
    qed (use assms in \<open>simp add: ev EvMessage\<close>)
  next
    case (EvEnd ws now)
    then show ?thesis using end_ok [OF assms] by (simp add: ev)
  next
    case (EvBroadcast msg exclude)
    then show ?thesis using presence_ok_prunes [OF assms prunes_broadcast [OF ok] so, of works msg exclude] by (simp add: ev)
  qed
qed

interpretation live: inv_machine "live_step loads cfg" presence_ok
  by unfold_locales (rule live_step_ok)

definition live_init :: live_state where
  "live_init = \<lparr>live_hub = \<lparr>manager = ConnectionManager_init, sent = []\<rparr>, live_store = open_state_store, running = []\<rparr>"

lemma live_init_ok: "presence_ok live_init"
  by (simp add: presence_ok_def live_init_def manager_ok_def ConnectionManager_init_def open_state_store_ok)

subsection \<open>Broadcasts under way\<close>

definition traffic_ok :: "traffic \<Rightarrow> bool" where
  "traffic_ok st \<longleftrightarrow> manager_ok (tf_manager st) \<and> (\<forall>i f. map_of (tf_flights st) i = Some f \<longrightarrow> i < tf_next st) \<and>
     (\<forall>x \<in> set (tf_log st). fst x < tf_next st)"

lemma traffic_step_ok:
  assumes "traffic_ok st"
  shows "traffic_ok (traffic_step ev st)"
proof -
  obtain works e where ev: "ev = (works, e)" by (cases ev)
  show ?thesis
  proof (cases e)
    case (TSend i)
    then show ?thesis using assms
      by (auto simp: ev traffic_ok_def flight_send_def update_conv' split: option.splits list.splits)
  next
    case (TRemove i)
    then show ?thesis using assms
      by (auto simp: ev traffic_ok_def delete_conv' broadcast_end_ok split: option.splits)
  qed (use assms in \<open>auto simp: ev traffic_ok_def update_conv' connect_ok disconnect_ok less_Suc_eq\<close>)
qed

interpretation under_way: inv_machine traffic_step traffic_ok
  by unfold_locales (rule traffic_step_ok)

definition traffic_init :: traffic where
  "traffic_init = \<lparr>tf_manager = ConnectionManager_init, tf_flights = [], tf_next = 0, tf_log = []\<rparr>"

lemma traffic_init_ok: "traffic_ok traffic_init"
  by (simp add: traffic_ok_def traffic_init_def manager_ok_def ConnectionManager_init_def)

text \<open>A broadcast that no other task interrupts is \<open>broadcast_gen\<close>.\<close>

lemma flight_alone_sends:
  assumes "map_of (tf_flights st) i = Some f"
  shows "\<exists>fl. fold traffic_step (replicate (length (fl_rest f)) (works, TSend i)) st = st\<lparr>tf_flights := fl,
      tf_log := tf_log st @ map (\<lambda>(d, w). (i, d, w, fl_msg f)) (filter (\<lambda>(d, w). fl_exclude f \<noteq> Some d \<and> works w) (fl_rest f))\<rparr> \<and>
    map_of fl = (map_of (tf_flights st))(i \<mapsto> f\<lparr>fl_rest := [],
      fl_dead := fl_dead f @ map fst (filter (\<lambda>(d, w). fl_exclude f \<noteq> Some d \<and> \<not> works w) (fl_rest f))\<rparr>)"
  using assms
proof (induction "fl_rest f" arbitrary: f st)
  case Nil
  then show ?case by (auto intro!: exI [of _ "tf_flights st"] ext)
next
  case (Cons p rest)
  obtain d w where p: "p = (d, w)" by (cases p)
  let ?f = "f\<lparr>fl_rest := rest, fl_dead := fl_dead f @ (if fl_exclude f \<noteq> Some d \<and> \<not> works w then [d] else [])\<rparr>"
  have step: "traffic_step (works, TSend i) st = st\<lparr>tf_flights := AList.update i ?f (tf_flights st),
      tf_log := tf_log st @ (if fl_exclude f \<noteq> Some d \<and> works w then [(i, d, w, fl_msg f)] else [])\<rparr>"
    using Cons.prems by (simp add: flight_send_def Cons.hyps(2) [symmetric] p)
  have go: "fold traffic_step (replicate (length (fl_rest f)) (works, TSend i)) st =
      fold traffic_step (replicate (length (fl_rest ?f)) (works, TSend i)) (traffic_step (works, TSend i) st)"
    unfolding Cons.hyps(2) [symmetric] by (simp del: traffic_step.simps)
  have "map_of (tf_flights (traffic_step (works, TSend i) st)) i = Some ?f" unfolding step by (simp add: update_conv')
  from Cons.hyps(1) [OF _ this] obtain fl where
    "fold traffic_step (replicate (length (fl_rest ?f)) (works, TSend i)) (traffic_step (works, TSend i) st) =
       (traffic_step (works, TSend i) st)\<lparr>tf_flights := fl, tf_log := tf_log (traffic_step (works, TSend i) st) @
         map (\<lambda>(d, w). (i, d, w, fl_msg f)) (filter (\<lambda>(d, w). fl_exclude f \<noteq> Some d \<and> works w) rest)\<rparr>"
    "map_of fl = (map_of (tf_flights (traffic_step (works, TSend i) st)))(i \<mapsto> f\<lparr>fl_rest := [],
       fl_dead := fl_dead ?f @ map fst (filter (\<lambda>(d, w). fl_exclude f \<noteq> Some d \<and> \<not> works w) rest)\<rparr>)" by auto
  then show ?case unfolding go unfolding step Cons.hyps(2) [symmetric]
    by (intro exI [of _ fl]) (auto simp: p update_conv')
qed

lemma flight_alone:
  assumes "tf_manager st = manager h" and "fl = (works, TBroadcast msg exclude) # replicate (length (active_connections (manager h)))
      (works, TSend (tf_next st)) @ [(works, TRemove (tf_next st))]"
  shows "tf_manager (fold traffic_step fl st) = manager (broadcast_gen works msg exclude h) \<and>
    map snd (map snd (drop (length (tf_log st)) (tf_log (fold traffic_step fl st)))) = drop (length (sent h)) (sent (broadcast_gen works msg exclude h))"
proof -
  let ?f = "\<lparr>fl_msg = msg, fl_exclude = exclude, fl_rest = active_connections (manager h), fl_dead = []\<rparr>"
  let ?st = "traffic_step (works, TBroadcast msg exclude) st"
  have m: "map_of (tf_flights ?st) (tf_next st) = Some ?f" using assms(1) by (simp add: update_conv')
  obtain fs where fs: "fold traffic_step (replicate (length (active_connections (manager h))) (works, TSend (tf_next st))) ?st =
      ?st\<lparr>tf_flights := fs, tf_log := tf_log ?st @ map (\<lambda>(d, w). (tf_next st, d, w, msg))
        (filter (\<lambda>(d, w). exclude \<noteq> Some d \<and> works w) (active_connections (manager h)))\<rparr>"
    "map_of fs (tf_next st) = Some (?f\<lparr>fl_rest := [],
      fl_dead := map fst (filter (\<lambda>(d, w). exclude \<noteq> Some d \<and> \<not> works w) (active_connections (manager h)))\<rparr>)"
    using flight_alone_sends [OF m, of works] by auto
  show ?thesis unfolding assms(2)
    using fs assms(1) by (simp add: broadcast_manager broadcast_sent case_prod_beta comp_def del: traffic_step.simps(4))
qed

text \<open>What can end the registration of device \<open>d\<close> under socket \<open>ws\<close>: a send to it fails, another connection of the
  same device opens, or its own endpoint ends.\<close>

fun disturbs :: "str \<Rightarrow> ws_ref \<Rightarrow> (ws_ref \<Rightarrow> bool) \<times> traffic_event \<Rightarrow> bool" where
  "disturbs d ws (works, TConnect w dev name ip ua now) = (dev = d)"
| "disturbs d ws (works, TFinally dev w) = (dev = d \<and> w = ws)"
| "disturbs d ws (works, TSend i) = (\<not> works ws)"
| "disturbs d ws (works, _) = False"

text \<open>No broadcast under way knows the device under another socket, or has seen it fail.\<close>

definition unhindered :: "str \<Rightarrow> ws_ref \<Rightarrow> traffic \<Rightarrow> bool" where
  "unhindered d ws st \<longleftrightarrow> (\<forall>i f. map_of (tf_flights st) i = Some f \<longrightarrow>
     d \<notin> set (fl_dead f) \<and> (\<forall>w. (d, w) \<in> set (fl_rest f) \<longrightarrow> w = ws))"

definition deliveries :: "nat \<Rightarrow> str \<Rightarrow> traffic \<Rightarrow> (nat \<times> str \<times> ws_ref \<times> ws_msg) list" where
  "deliveries i d st = filter (\<lambda>(j, e, w, m). j = i \<and> e = d) (tf_log st)"

text \<open>The broadcast number \<open>i\<close> has the device still before it, or has delivered the message.\<close>

definition on_course :: "nat \<Rightarrow> ws_msg \<Rightarrow> str option \<Rightarrow> str \<Rightarrow> ws_ref \<Rightarrow> traffic \<Rightarrow> bool" where
  "on_course i msg ex d ws st \<longleftrightarrow> i < tf_next st \<and> (case map_of (tf_flights st) i of
     None \<Rightarrow> deliveries i d st = (if ex = Some d then [] else [(i, d, ws, msg)])
   | Some f \<Rightarrow> fl_msg f = msg \<and> fl_exclude f = ex \<and> dict_ok (fl_rest f) \<and>
       deliveries i d st = (if ex = Some d \<or> (d, ws) \<in> set (fl_rest f) then [] else [(i, d, ws, msg)]))"

lemma undisturbed_step:
  assumes "traffic_ok st" and "registered (tf_manager st) d = Some ws" and "unhindered d ws st" and "\<not> disturbs d ws ev"
  shows "registered (tf_manager (traffic_step ev st)) d = Some ws \<and> unhindered d ws (traffic_step ev st)"
proof -
  obtain works e where ev: "ev = (works, e)" by (cases ev)
  have conns: "w = ws" if "(d, w) \<in> set (active_connections (tf_manager st))" for w
    using that assms(1,2) by (auto simp: traffic_ok_def manager_ok_def dest: map_of_is_SomeI)
  show ?thesis
  proof (cases e)
    case (TSend i)
    show ?thesis
    proof (cases "map_of (tf_flights st) i")
      case (Some f)
      have w: "w = ws" if "(d, w) \<in> set (fl_rest f)" for w using assms(3) Some that by (simp add: unhindered_def)
      have "works w" if "fl_rest f = (d, w) # rest" for w rest using w [of w] that assms(4) by (simp add: ev TSend)
      then show ?thesis using assms(2,3) Some w
        by (auto simp: ev TSend unhindered_def flight_send_def update_conv' split: list.split)
    qed (use assms(2,3) in \<open>simp add: ev TSend\<close>)
  next
    case (TRemove i)
    then show ?thesis using assms(2,3)
      by (auto simp: ev unhindered_def delete_conv' broadcast_end_registered split: option.split)
  qed (use assms(2-4) conns in \<open>auto simp: ev unhindered_def update_conv' connect_registered disconnect_registered is_current_connection_def\<close>)
qed

lemma on_course_step:
  assumes "on_course i msg ex d ws st" and "unhindered d ws st" and "\<not> disturbs d ws ev"
  shows "on_course i msg ex d ws (traffic_step ev st)"
proof -
  obtain works e where ev: "ev = (works, e)" by (cases ev)
  show ?thesis
  proof (cases e)
    case (TSend j)
    show ?thesis
    proof (cases "map_of (tf_flights st) j")
      case (Some f)
      show ?thesis
      proof (cases "fl_rest f")
        case (Cons p rest)
        obtain d' w where p: "p = (d', w)" by (cases p)
        have w: "w = ws" if "d' = d" using assms(2) Some Cons p that by (fastforce simp: unhindered_def)
        have not_key: "k \<notin> fst ` set l \<Longrightarrow> (k, v) \<notin> set l" for k :: str and v :: ws_ref and l by force
        show ?thesis
          using assms(1,3) Some Cons p w
          by (auto simp: ev TSend flight_send_def on_course_def deliveries_def update_conv' not_key split: option.splits if_splits)
      qed (use assms(1) Some in \<open>simp add: ev TSend flight_send_def\<close>)
    qed (use assms(1) in \<open>simp add: ev TSend\<close>)
  next
    case (TRemove j)
    then show ?thesis using assms(1)
      by (auto simp: ev on_course_def deliveries_def delete_conv' split: option.splits if_splits)
  qed (use assms(1) in \<open>auto simp: ev on_course_def deliveries_def update_conv' split: option.splits\<close>)
qed

lemma undisturbed_run:
  assumes "traffic_ok st" and "registered (tf_manager st) d = Some ws" and "unhindered d ws st" and "on_course i msg ex d ws st"
    and "\<forall>ev \<in> set evs. \<not> disturbs d ws ev"
  shows "registered (tf_manager (fold traffic_step evs st)) d = Some ws \<and> on_course i msg ex d ws (fold traffic_step evs st)"
  using assms
proof (induction evs arbitrary: st)
  case (Cons ev evs)
  then show ?case using undisturbed_step [OF Cons.prems(1-3)] on_course_step [OF Cons.prems(4,3)] traffic_step_ok [OF Cons.prems(1)] by simp
qed simp

subsection \<open>A concrete connection\<close>

definition demo_connect :: live_event where
  "demo_connect = EvConnect 1 \<lparr>wr_device_name = ''n'', wr_device_id = ''d'', wr_cookie = None, wr_ip = [], wr_user_agent = []\<rparr> 0"

definition demo_live :: live_state where
  "demo_live = live_step (\<lambda>_. BadSignature) demo_server ((\<lambda>_. True), demo_connect) live_init"

lemma demo_live_registered:
  "registered (manager (live_hub demo_live)) ''d'' = Some 1" "device_count (manager (live_hub demo_live)) = 1"
  by (simp_all add: demo_live_def demo_connect_def live_init_def ws_open_def endpoint_device_id_def ws_authenticated_def
      demo_server_def ws_greet_def send_to_def connect_def ConnectionManager_init_def broadcast_def broadcast_all_def
      broadcast_gen_def broadcast_end_def device_count_def Let_def)

section \<open>Properties\<close>

text \<open>C29: the device list never lies about who is connected. Whatever connections open, talk, fail and end,
  in any order and with any of the sockets broken, the two dicts of the connection manager have the
  same keys, the device count is the length of the device list, every listed device has an endpoint
  that is still running and whose socket is the registered one, and when no endpoint runs the list
  is empty.\<close>

theorem device_list_exact:
  assumes "fold (live_step loads cfg) evs live_init = st"
  shows "dom (registered (manager (live_hub st))) = dev_id ` set (get_device_list (manager (live_hub st))) \<and>
    device_count (manager (live_hub st)) = length (get_device_list (manager (live_hub st))) \<and>
    distinct (map dev_id (get_device_list (manager (live_hub st)))) \<and>
    (\<forall>d w. registered (manager (live_hub st)) d = Some w \<longrightarrow> (\<exists>name. map_of (running st) w = Some (d, name))) \<and>
    (running st = [] \<longrightarrow> get_device_list (manager (live_hub st)) = [])"
proof -
  let ?m = "manager (live_hub st)"
  have ok: "presence_ok st" using live.run_inv [OF live_init_ok] assms by blast
  then have m: "map fst (active_connections ?m) = map fst (devices ?m)" "distinct (map fst (devices ?m))"
    and ids: "\<forall>d info. map_of (devices ?m) d = Some info \<longrightarrow> dev_id info = d" by (auto simp: presence_ok_def manager_ok_def)
  have "dev_id info = d" if "(d, info) \<in> set (devices ?m)" for d info using that m(2) ids by (simp add: map_of_is_SomeI)
  then have names: "map dev_id (get_device_list ?m) = map fst (devices ?m)" by (auto simp: get_device_list_def)
  have "dom (registered ?m) = set (map fst (devices ?m))" using m(1) by (metis dom_map_of_conv_image_fst set_map)
  moreover have "length (active_connections ?m) = length (devices ?m)" using m(1) by (metis length_map)
  moreover have "active_connections ?m = []" if "running st = []"
    using ok that unfolding presence_ok_def by (metis map_of_eq_empty_iff map_of.simps(1) not_None_eq ext)
  moreover have "set (map dev_id (get_device_list ?m)) = set (map fst (devices ?m))"
    "distinct (map dev_id (get_device_list ?m))" "length (get_device_list ?m) = length (devices ?m)"
    unfolding names using m(2) by (simp_all add: get_device_list_def)
  moreover have "\<forall>d w. registered ?m d = Some w \<longrightarrow> (\<exists>name. map_of (running st) w = Some (d, name))"
    using ok by (simp add: presence_ok_def)
  ultimately show ?thesis by (auto simp: device_count_def simp flip: length_0_conv)
qed

theorem device_list_exact_witness:
  "\<exists>st. fold (live_step (\<lambda>_. BadSignature) demo_server) [((\<lambda>_. True), demo_connect)] live_init = st \<and>
     device_count (manager (live_hub st)) = 1 \<and> length (get_device_list (manager (live_hub st))) = 1"
  using device_list_exact [of "\<lambda>_. BadSignature" demo_server "[((\<lambda>_. True), demo_connect)]", OF refl] demo_live_registered
  by (simp add: demo_live_def)

text \<open>C33: a connected device stays reachable, also while broadcasts are under way, whose sends interleave with
  everything else. In any state that was reached, a device is registered under a socket, and no broadcast under way has seen the device fail or
  still has it in its snapshot under another socket; a broadcast is started. Then through any sequence of connections, ends of
  endpoints, further broadcasts, single sends and removals, in which that socket accepts what is sent, its
  endpoint does not end, and the device does not connect again, the device stays registered under the
  socket; and when the broadcast has ended, it has delivered its message to the device exactly once, or not at all
  when the device was excluded from it.\<close>

theorem device_stays_reachable:
  assumes "st = fold traffic_step earlier traffic_init" and "registered (tf_manager st) d = Some ws" and "unhindered d ws st"
    and "st1 = traffic_step (works, TBroadcast msg exclude) st" and "\<forall>ev \<in> set evs. \<not> disturbs d ws ev"
  shows "registered (tf_manager (fold traffic_step evs st1)) d = Some ws \<and>
    (map_of (tf_flights (fold traffic_step evs st1)) (tf_next st) = None \<longrightarrow>
      filter (\<lambda>(i, e, w, m). i = tf_next st \<and> e = d) (tf_log (fold traffic_step evs st1)) =
        (if exclude = Some d then [] else [(tf_next st, d, ws, msg)]))"
proof -
  have ok: "traffic_ok st" using under_way.run_inv [OF traffic_init_ok] assms(1) by simp
  have u: "registered (tf_manager st1) d = Some ws" "unhindered d ws st1" "traffic_ok st1"
    using undisturbed_step [OF ok assms(2,3), of "(works, TBroadcast msg exclude)"]
      traffic_step_ok [OF ok, of "(works, TBroadcast msg exclude)"] assms(4) by simp_all
  have "filter (\<lambda>(i, e, w, m). i = tf_next st \<and> e = d) (tf_log st) = []"
    using ok by (auto simp: traffic_ok_def filter_empty_conv)
  moreover have "(d, ws) \<in> set (active_connections (tf_manager st))" "dict_ok (active_connections (tf_manager st))"
    using ok assms(2) by (auto simp: traffic_ok_def manager_ok_def dest: map_of_SomeD)
  ultimately have "on_course (tf_next st) msg exclude d ws st1"
    using assms(4) by (simp add: on_course_def deliveries_def update_conv')
  from undisturbed_run [OF u(3,1,2) this assms(5)] show ?thesis by (auto simp: on_course_def deliveries_def)
qed

definition demo_traffic :: traffic where
  "demo_traffic = fold traffic_step [((\<lambda>_. True), TConnect 1 ''d'' ''n'' [] [] 0)] traffic_init"

theorem device_stays_reachable_witness:
  "registered (tf_manager (fold traffic_step [((\<lambda>_. True), TConnect 2 ''e'' ''m'' [] [] 1), ((\<lambda>w. w = 1), TSend 0), ((\<lambda>_. True), TFinally ''e'' 2),
      ((\<lambda>_. True), TRemove 0)] (traffic_step ((\<lambda>_. True), TBroadcast Pong None) demo_traffic))) ''d'' = Some 1 \<and>
   filter (\<lambda>(i, e, w, m). i = 0 \<and> e = ''d'') (tf_log (fold traffic_step [((\<lambda>_. True), TConnect 2 ''e'' ''m'' [] [] 1), ((\<lambda>w. w = 1), TSend 0),
      ((\<lambda>_. True), TFinally ''e'' 2), ((\<lambda>_. True), TRemove 0)] (traffic_step ((\<lambda>_. True), TBroadcast Pong None) demo_traffic))) = [(0, ''d'', 1, Pong)]"
proof -
  have "registered (tf_manager demo_traffic) ''d'' = Some 1" "unhindered ''d'' 1 demo_traffic" "tf_next demo_traffic = 0"
    by (auto simp: demo_traffic_def traffic_init_def unhindered_def connect_def ConnectionManager_init_def)
  from device_stays_reachable [OF demo_traffic_def this(1,2) refl, where evs = "[((\<lambda>_. True), TConnect 2 ''e'' ''m'' [] [] 1), ((\<lambda>w. w = 1), TSend 0),
      ((\<lambda>_. True), TFinally ''e'' 2), ((\<lambda>_. True), TRemove 0)]" and works = "\<lambda>_. True" and msg = Pong and exclude = None] this(3)
  show ?thesis by (simp add: demo_traffic_def traffic_init_def connect_def ConnectionManager_init_def flight_send_def is_current_connection_def)
qed

text \<open>The removals at the end of a broadcast go by device id: a connection of the same device that opened
  while the broadcast was sending is unregistered, although its socket works.\<close>

lemma newer_connection_evicted:
  assumes "manager_ok m" and "registered m d = Some old" and "\<not> works old" and "exclude \<noteq> Some d"
    and "broadcast_loop works msg exclude (active_connections m) [] out = (dead, out')"
  shows "registered (connect new d name ip ua now m) d = Some new \<and>
    registered (broadcast_end dead (connect new d name ip ua now m)) d = None"
proof -
  have "(d, old) \<in> set (active_connections m)" using assms(2) by (rule map_of_SomeD)
  then have "d \<in> set dead" using assms(3-5) by (force simp: broadcast_loop_eq)
  then show ?thesis by (simp add: connect_registered broadcast_end_registered)
qed

end
