(* ===== verification/File_System.thy ===== *)
theory File_System
  imports Prelude
begin

text \<open>
  The part of a POSIX file system that \<open>server/app/services/file_service.py\<close> works on, as Python's
  \<open>pathlib\<close> and \<open>os\<close> show it: regular files, directories and symbolic links, addressed by absolute
  paths. A file system is a table from paths to nodes; a path is its list of components.

  \<open>realpath\<close> is \<open>Path.resolve()\<close>: links are followed component by component, \<open>..\<close> takes the parent
  of what has been resolved so far, components that do not exist are kept, and a link met while it
  is itself being resolved is a loop (\<open>None\<close>). Permissions, devices and concurrent changes are not
  modelled.
\<close>

section \<open>Nodes and lookups\<close>

type_synonym path = "str list"

datatype node = FileNode bytes | DirNode | LinkNode bool path

type_synonym fs = "(path \<times> node) list"

definition lstat :: "fs \<Rightarrow> path \<Rightarrow> node option" where
  "lstat fs p = map_of fs p"

definition is_link :: "fs \<Rightarrow> path \<Rightarrow> bool" where
  "is_link fs p = (case lstat fs p of Some (LinkNode a t) \<Rightarrow> True | _ \<Rightarrow> False)"

definition link_paths :: "fs \<Rightarrow> path set" where
  "link_paths fs = {p \<in> fst ` set fs. is_link fs p}"

lemma finite_link_paths [simp]: "finite (link_paths fs)"
  by (simp add: link_paths_def)

lemma link_pathsI: "lstat fs p = Some (LinkNode a t) \<Longrightarrow> p \<in> link_paths fs"
  by (auto simp: link_paths_def is_link_def lstat_def dest: map_of_SomeD intro: rev_image_eqI)

function realpath :: "fs \<Rightarrow> path list \<Rightarrow> path \<Rightarrow> path \<Rightarrow> path option" where
  "realpath fs busy cur [] = Some cur"
| "realpath fs busy cur (name # rest) =
     (if name = [] \<or> name = ''.'' then realpath fs busy cur rest
      else if name = ''..'' then realpath fs busy (butlast cur) rest
      else (case lstat fs (cur @ [name]) of
          Some (LinkNode absolute target) \<Rightarrow>
            if cur @ [name] \<in> set busy then None
            else (case realpath fs ((cur @ [name]) # busy) (if absolute then [] else cur) target of
                None \<Rightarrow> None
              | Some q \<Rightarrow> realpath fs busy q rest)
        | _ \<Rightarrow> realpath fs busy (cur @ [name]) rest))"
  by pat_completeness auto
termination
proof (relation "measures [\<lambda>(fs, busy, cur, rest). card (link_paths fs - set busy), \<lambda>(fs, busy, cur, rest). length rest]")
  fix fs busy cur name rest x absolute target
  assume "lstat fs (cur @ [name]) = Some x" "x = LinkNode absolute target" "cur @ [name] \<notin> set busy"
  then have "cur @ [name] \<in> link_paths fs - set busy" by (simp add: link_pathsI)
  then have "card (link_paths fs - set ((cur @ [name]) # busy)) < card (link_paths fs - set busy)"
    by (intro psubset_card_mono) auto
  then show "((fs, (cur @ [name]) # busy, if absolute then [] else cur, target), fs, busy, cur, name # rest) \<in>
      measures [\<lambda>(fs, busy, cur, rest). card (link_paths fs - set busy), \<lambda>(fs, busy, cur, rest). length rest]"
    by simp
qed auto

text \<open>\<open>stat\<close> follows links.\<close>

definition stat :: "fs \<Rightarrow> path \<Rightarrow> node option" where
  "stat fs p = (case realpath fs [] [] p of None \<Rightarrow> None | Some q \<Rightarrow> lstat fs q)"

definition path_exists :: "fs \<Rightarrow> path \<Rightarrow> bool" where
  "path_exists fs p = (stat fs p \<noteq> None)"

definition is_dir :: "fs \<Rightarrow> path \<Rightarrow> bool" where
  "is_dir fs p = (stat fs p = Some DirNode)"

definition is_file :: "fs \<Rightarrow> path \<Rightarrow> bool" where
  "is_file fs p = (case stat fs p of Some (FileNode b) \<Rightarrow> True | _ \<Rightarrow> False)"

section \<open>Changes\<close>

datatype os_exn =
    OsFileNotFound
  | OsNotADirectory
  | OsIsADirectory
  | OsSymlinkLoop
  | OsFileExists

text \<open>\<open>open(p, "wb")\<close> and writing: the file behind links is created or truncated.\<close>

definition write_file :: "path \<Rightarrow> bytes \<Rightarrow> fs \<Rightarrow> (os_exn, fs) result" where
  "write_file p content fs = (case realpath fs [] [] p of
     None \<Rightarrow> Inl OsSymlinkLoop
   | Some q \<Rightarrow>
       if lstat fs q = Some DirNode then Inl OsIsADirectory
       else if lstat fs (butlast q) = None then Inl OsFileNotFound
       else if lstat fs (butlast q) \<noteq> Some DirNode then Inl OsNotADirectory
       else Inr (AList.update q (FileNode content) fs))"

definition remove_file :: "path \<Rightarrow> fs \<Rightarrow> fs" where
  "remove_file p fs = AList.delete p fs"

definition rmtree :: "path \<Rightarrow> fs \<Rightarrow> fs" where
  "rmtree p fs = filter (\<lambda>(q, n). \<not> prefix p q) fs"

definition make_dir :: "path \<Rightarrow> fs \<Rightarrow> fs" where
  "make_dir p fs = AList.update p DirNode fs"

text \<open>\<open>rename\<close> moves an entry with everything below it and replaces what the new name held.\<close>

definition move_tree :: "path \<Rightarrow> path \<Rightarrow> fs \<Rightarrow> fs" where
  "move_tree old new fs = map (\<lambda>(q, n). (if prefix old q then new @ drop (length old) q else q, n))
     (filter (\<lambda>(q, n). \<not> prefix new q) fs)"

definition os_replace :: "path \<Rightarrow> path \<Rightarrow> fs \<Rightarrow> (os_exn, fs) result" where
  "os_replace src dst fs =
     (if lstat fs dst = Some DirNode \<and> lstat fs src \<noteq> Some DirNode then Inl OsIsADirectory
      else Inr (move_tree src dst fs))"

section \<open>Well-formed file systems\<close>

definition plain_name :: "str \<Rightarrow> bool" where
  "plain_name n \<longleftrightarrow> n \<noteq> [] \<and> n \<noteq> ''.'' \<and> n \<noteq> ''..''"

definition plain_path :: "path \<Rightarrow> bool" where
  "plain_path p \<longleftrightarrow> (\<forall>n \<in> set p. plain_name n)"

text \<open>No component of the path is a link: what \<open>realpath\<close> returns.\<close>

definition link_free :: "fs \<Rightarrow> path \<Rightarrow> bool" where
  "link_free fs p \<longleftrightarrow> plain_path p \<and> (\<forall>r. prefix r p \<and> r \<noteq> [] \<longrightarrow> \<not> is_link fs r)"

definition fs_ok :: "fs \<Rightarrow> bool" where
  "fs_ok fs \<longleftrightarrow> dict_ok fs \<and> lstat fs [] = Some DirNode \<and>
     (\<forall>p n. lstat fs (p @ [n]) \<noteq> None \<longrightarrow> lstat fs p = Some DirNode \<and> plain_name n)"

section \<open>Lemmas\<close>

lemma link_free_Nil [simp]: "link_free fs []"
  by (simp add: link_free_def plain_path_def)

lemma link_free_snoc:
  "link_free fs (p @ [n]) \<longleftrightarrow> link_free fs p \<and> plain_name n \<and> \<not> is_link fs (p @ [n])"
  by (auto simp: link_free_def plain_path_def prefix_snoc)

lemma link_free_prefix: "link_free fs p \<Longrightarrow> prefix r p \<Longrightarrow> link_free fs r"
  by (auto simp: link_free_def plain_path_def dest: set_mono_prefix intro: prefix_order.trans)

lemma link_free_butlast: "link_free fs p \<Longrightarrow> link_free fs (butlast p)"
  by (erule link_free_prefix) (rule prefixeq_butlast)

lemma realpath_link_free:
  "realpath fs busy cur rest = Some q \<Longrightarrow> link_free fs cur \<Longrightarrow> link_free fs q"
proof (induction fs busy cur rest arbitrary: q rule: realpath.induct)
  case (2 fs busy cur name rest)
  show ?case
  proof (cases "name = [] \<or> name = ''.'' \<or> name = ''..''")
    case True
    then show ?thesis using 2 link_free_butlast by (auto split: if_splits)
  next
    case False
    then have n: "plain_name name" by (simp add: plain_name_def)
    show ?thesis
    proof (cases "is_link fs (cur @ [name])")
      case True
      then obtain a t where l: "lstat fs (cur @ [name]) = Some (LinkNode a t)"
        by (auto simp: is_link_def split: option.splits node.splits)
      then obtain q' where q': "realpath fs ((cur @ [name]) # busy) (if a then [] else cur) t = Some q'"
        "realpath fs busy q' rest = Some q" "cur @ [name] \<notin> set busy"
        using 2(8) False by (auto split: if_splits option.splits)
      have "link_free fs (if a then [] else cur)" using 2(9) by simp
      then have "link_free fs q'" using 2(6) [OF _ _ l refl q'(3,1)] False by auto
      then show ?thesis using 2(7) [OF _ _ l refl q'(3,1,2)] False by auto
    next
      case nl: False
      then have "link_free fs (cur @ [name])" using 2(9) n by (simp add: link_free_snoc)
      with nl False 2 show ?thesis
        by (auto simp: is_link_def split: option.splits node.splits)
    qed
  qed
qed simp

lemma realpath_plain:
  "link_free fs (cur @ rest) \<Longrightarrow> realpath fs busy cur rest = Some (cur @ rest)"
proof (induction rest arbitrary: cur)
  case (Cons n rest)
  have f: "link_free fs (cur @ [n])" by (rule link_free_prefix [OF Cons.prems]) simp
  then have "plain_name n" "\<not> is_link fs (cur @ [n])" by (simp_all add: link_free_snoc)
  then have "realpath fs busy cur (n # rest) = realpath fs busy (cur @ [n]) rest"
    by (auto simp: plain_name_def is_link_def split: option.split node.split)
  with Cons.IH [of "cur @ [n]"] Cons.prems show ?case by simp
qed simp

lemma realpath_append:
  assumes "link_free fs (cur @ p)"
  shows "realpath fs busy cur (p @ rest) = realpath fs busy (cur @ p) rest"
  using assms
proof (induction p arbitrary: cur)
  case (Cons n p)
  have f: "link_free fs (cur @ [n])" by (rule link_free_prefix [OF Cons.prems]) simp
  then have "plain_name n" "\<not> is_link fs (cur @ [n])" by (simp_all add: link_free_snoc)
  then have "realpath fs busy cur (n # p @ rest) = realpath fs busy (cur @ [n]) (p @ rest)"
    by (auto simp: plain_name_def is_link_def split: option.split node.split)
  with Cons.IH [of "cur @ [n]"] Cons.prems show ?case by simp
qed simp

lemma stat_link_free: "link_free fs p \<Longrightarrow> stat fs p = lstat fs p"
  using realpath_plain [of fs "[]" p] by (simp add: stat_def)

lemma realpath_resolved: "realpath fs [] [] p = Some q \<Longrightarrow> link_free fs q"
  using realpath_link_free [of fs "[]" "[]" p q] by simp

text \<open>A name looked up in a resolved directory: the entry itself, or what a link there leads to.\<close>

lemma stat_child:
  assumes "link_free fs d" and "plain_name n" and "path_exists fs (d @ [n])"
  shows "lstat fs (d @ [n]) \<noteq> None"
proof (rule ccontr)
  assume "\<not> ?thesis"
  then have no: "lstat fs (d @ [n]) = None" by simp
  then have "link_free fs (d @ [n])" using assms by (simp add: link_free_snoc is_link_def)
  with no assms(3) show False by (simp add: path_exists_def stat_link_free)
qed

end
