(* ===== verification/File_Service.thy ===== *)
theory File_Service
  imports File_System
begin

text \<open>
  \<open>server/app/services/file_service.py\<close>: the operations on the shared folder, over the file system of
  \<open>File_System\<close>. An operation returns its result or exception together with the file system it
  leaves, since several change it before they fail. Sizes are byte counts; modification times and
  the display form of sizes are left out, and so is the size of a directory.
\<close>

section \<open>Paths (resolve_safe_path)\<close>

datatype file_exn =
    PathTraversalError str
  | FileNotFoundError str
  | FileConflictError str
  | InvalidFileNameError str
  | InvalidFileRequestError
  | FileValueError
  | OsFailure os_exn

definition sep :: char where "sep = CHR ''/''"
definition nul :: char where "nul = CHR 0x00"

text \<open>\<open>base / user_path\<close>; \<open>realpath\<close> drops empty and \<open>.\<close> components as \<open>pathlib\<close> does. A path with a NUL
  character makes the system call raise \<open>ValueError\<close>.\<close>

definition join_resolve :: "fs \<Rightarrow> path \<Rightarrow> str \<Rightarrow> (file_exn, path) result" where
  "join_resolve fs base user_path =
     (if nul \<in> set user_path then Inl FileValueError
      else (case realpath fs [] [] (base @ py_split sep user_path) of
          None \<Rightarrow> Inl (OsFailure OsSymlinkLoop) | Some q \<Rightarrow> Inr q))"

definition resolve_base :: "fs \<Rightarrow> path \<Rightarrow> (file_exn, path) result" where
  "resolve_base fs base = (case realpath fs [] [] base of
     None \<Rightarrow> Inl (OsFailure OsSymlinkLoop) | Some q \<Rightarrow> Inr q)"

definition resolve_safe_path_for_new :: "path \<Rightarrow> str \<Rightarrow> fs \<Rightarrow> (file_exn, path) result" where
  "resolve_safe_path_for_new base_dir user_path fs =
     res_bind (resolve_base fs base_dir) (\<lambda>base.
       if user_path = [] then Inr base
       else if py_startswith user_path [sep] then Inl (PathTraversalError user_path)
       else res_bind (join_resolve fs base user_path) (\<lambda>candidate.
         if \<not> prefix base candidate then Inl (PathTraversalError user_path) else Inr candidate))"

definition resolve_safe_path :: "path \<Rightarrow> str \<Rightarrow> fs \<Rightarrow> (file_exn, path) result" where
  "resolve_safe_path base_dir user_path fs =
     res_bind (resolve_base fs base_dir) (\<lambda>base.
       if user_path = [] then Inr base
       else if py_startswith user_path [sep] then Inl (PathTraversalError user_path)
       else res_bind (join_resolve fs base user_path) (\<lambda>candidate.
         if \<not> prefix base candidate then Inl (PathTraversalError user_path)
         else if \<not> path_exists fs candidate then Inl (FileNotFoundError user_path)
         else Inr candidate))"

section \<open>Names\<close>

definition validate_name :: "str \<Rightarrow> (file_exn, unit) result" where
  "validate_name name =
     (if name = [] then Inl (InvalidFileNameError name)
      else if sep \<in> set name then Inl (InvalidFileNameError name)
      else if name = ''..'' then Inl (InvalidFileNameError name)
      else if ''..'' \<in> set (py_split sep name) then Inl (InvalidFileNameError name)
      else if nul \<in> set name then Inl (InvalidFileNameError name)
      else Inr ())"

text \<open>A Windows-absolute name contains a slash or a backslash, so that check only changes the reason
  given.\<close>

definition validate_upload_filename :: "str \<Rightarrow> (file_exn, str) result" where
  "validate_upload_filename name =
     (if name = [] then Inl (InvalidFileNameError name)
      else if nul \<in> set name then Inl (InvalidFileNameError name)
      else if py_startswith name [sep] then Inl (InvalidFileNameError name)
      else if sep \<in> set name then Inl (InvalidFileNameError name)
      else if CHR 0x5C \<in> set name then Inl (InvalidFileNameError name)
      else if name \<in> {''.'', ''..''} then Inl (InvalidFileNameError name)
      else Inr name)"

text \<open>\<open>PurePath.stem\<close> and \<open>PurePath.suffix\<close>: split at the last dot unless it is the first or the last
  character.\<close>

definition after_dot :: "str \<Rightarrow> str" where
  "after_dot name = rev (takeWhile (\<lambda>c. c \<noteq> CHR ''.'') (rev name))"

definition has_suffix :: "str \<Rightarrow> bool" where
  "has_suffix name \<longleftrightarrow> after_dot name \<noteq> [] \<and> length (after_dot name) + 1 < length name"

definition stem_of :: "str \<Rightarrow> str" where
  "stem_of name = (if has_suffix name then take (length name - length (after_dot name) - 1) name else name)"

definition suffix_of :: "str \<Rightarrow> str" where
  "suffix_of name = (if has_suffix name then CHR ''.'' # after_dot name else [])"

definition numbered :: "str \<Rightarrow> nat \<Rightarrow> str" where
  "numbered name counter = stem_of name @ ''_'' @ nat_digits counter @ suffix_of name"

section \<open>Listing, searching, downloading\<close>

record FileEntry =
  entry_name :: str
  entry_is_dir :: bool
  entry_size :: "nat option"

definition entry_of :: "fs \<Rightarrow> path \<Rightarrow> str \<Rightarrow> (file_exn, FileEntry) result" where
  "entry_of fs p name = (case stat fs p of
     None \<Rightarrow> Inl (if realpath fs [] [] p = None then OsFailure OsSymlinkLoop else FileNotFoundError name)
   | Some DirNode \<Rightarrow> Inr \<lparr>entry_name = name, entry_is_dir = True, entry_size = None\<rparr>
   | Some (FileNode b) \<Rightarrow> Inr \<lparr>entry_name = name, entry_is_dir = False, entry_size = Some (length b)\<rparr>
   | Some (LinkNode a t) \<Rightarrow> Inl (OsFailure OsSymlinkLoop))"

fun collect_results :: "(file_exn, 'a) result list \<Rightarrow> (file_exn, 'a list) result" where
  "collect_results [] = Inr []"
| "collect_results (r # rs) = res_bind r (\<lambda>a. res_bind (collect_results rs) (\<lambda>as. Inr (a # as)))"

definition children :: "fs \<Rightarrow> path \<Rightarrow> path list" where
  "children fs d = filter (\<lambda>p. p \<noteq> [] \<and> butlast p = d) (map fst fs)"

definition list_directory :: "path \<Rightarrow> str \<Rightarrow> fs \<Rightarrow> (file_exn, FileEntry list) result" where
  "list_directory base_dir rel fs = res_bind (resolve_safe_path base_dir rel fs) (\<lambda>target.
     if lstat fs target \<noteq> Some DirNode then Inl (OsFailure OsNotADirectory)
     else collect_results (map (\<lambda>p. entry_of fs p (last p)) (children fs target)))"

definition path_str :: "path \<Rightarrow> str" where
  "path_str p = (case p of [] \<Rightarrow> ''.'' | n # ns \<Rightarrow> n @ concat (map (\<lambda>x. sep # x) ns))"

definition search_hit :: "fs \<Rightarrow> path \<Rightarrow> str \<Rightarrow> path \<Rightarrow> bool" where
  "search_hit fs base query item \<longleftrightarrow>
     (is_file fs item \<or> is_dir fs item) \<and>
     (case realpath fs [] [] item of None \<Rightarrow> False | Some r \<Rightarrow> prefix base r) \<and>
     py_contains (py_lower (last item)) (py_lower query)"

definition search_files :: "path \<Rightarrow> str \<Rightarrow> str \<Rightarrow> fs \<Rightarrow> (file_exn, FileEntry list) result" where
  "search_files base_dir search_root query fs =
     (if query = [] then Inl InvalidFileRequestError
      else res_bind (resolve_base fs base_dir) (\<lambda>base.
        res_bind (resolve_safe_path base_dir search_root fs) (\<lambda>root.
          collect_results (map (\<lambda>p. entry_of fs p (path_str (drop (length root) p)))
            (filter (\<lambda>p. strict_prefix root p \<and> search_hit fs base query p) (map fst fs))))))"

definition download_file :: "path \<Rightarrow> str \<Rightarrow> fs \<Rightarrow> (file_exn, path) result" where
  "download_file base_dir rel fs = res_bind (resolve_safe_path base_dir rel fs) (\<lambda>resolved.
     if is_dir fs resolved then Inl InvalidFileRequestError else Inr resolved)"

text \<open>The archive's members: the path read from disk and the name it has in the archive.\<close>

definition zip_stream :: "path \<Rightarrow> path list \<Rightarrow> (path \<times> str) list" where
  "zip_stream base resolved_paths = map (\<lambda>p. (p, path_str (drop (length base) p))) resolved_paths"

definition download_as_zip :: "path \<Rightarrow> str list \<Rightarrow> fs \<Rightarrow> (file_exn, (path \<times> str) list) result" where
  "download_as_zip base_dir paths fs = res_bind (resolve_base fs base_dir) (\<lambda>base.
     res_bind (collect_results (map (\<lambda>p. resolve_safe_path base_dir p fs) paths)) (\<lambda>resolved_paths.
       Inr (zip_stream base resolved_paths)))"

text \<open>\<open>format_file_size\<close>: the size is the quotient of two integers. Below \<open>2 ^ 53\<close> bytes the float division
  by 1024 is exact, and the format \<open>.1f\<close> rounds the exact value, ties to even.\<close>

definition round_half_even :: "nat \<Rightarrow> nat \<Rightarrow> nat" where
  "round_half_even a b = (let q = a div b; r = a mod b in
     if 2 * r < b then q else if 2 * r > b then q + 1 else if even q then q else q + 1)"

definition one_decimal :: "nat \<Rightarrow> nat \<Rightarrow> str" where
  "one_decimal a b = (let t = round_half_even (10 * a) b in nat_digits (t div 10) @ ''.'' @ nat_digits (t mod 10))"

fun format_loop :: "str list \<Rightarrow> nat \<Rightarrow> nat \<Rightarrow> str" where
  "format_loop [] a b = one_decimal a b @ '' TB''"
| "format_loop (u # us) a b = (if a < 1024 * b then one_decimal a b @ '' '' @ u else format_loop us a (1024 * b))"

definition format_file_size :: "nat \<Rightarrow> str" where
  "format_file_size size_bytes = format_loop [''B'', ''KB'', ''MB'', ''GB''] size_bytes 1"

section \<open>Uploading\<close>

datatype ConflictResolution = OVERWRITE | RENAME | SKIP

record UploadResult =
  up_name :: str
  up_size :: "nat option"
  up_skipped :: bool

definition UPLOAD_CHUNK_SIZE :: nat where "UPLOAD_CHUNK_SIZE = 1024 * 1024"

text \<open>The loop of \<open>_write_upload_chunks\<close>: the rest of the upload, what has been written, the count.\<close>

function write_loop :: "bytes \<Rightarrow> bytes \<Rightarrow> nat \<Rightarrow> bytes \<times> nat" where
  "write_loop rest out written =
     (let chunk = take UPLOAD_CHUNK_SIZE rest in
      if chunk = [] then (out, written)
      else write_loop (drop UPLOAD_CHUNK_SIZE rest) (out @ chunk) (written + length chunk))"
  by pat_completeness auto
termination
  by (relation "measure (\<lambda>(rest, out, written). length rest)") (auto simp: UPLOAD_CHUNK_SIZE_def)

definition write_upload_chunks :: "bytes \<Rightarrow> path \<Rightarrow> fs \<Rightarrow> (file_exn, nat) result \<times> fs" where
  "write_upload_chunks upload destination fs =
     (case write_loop upload [] 0 of (out, written) \<Rightarrow>
        (case write_file destination out fs of
           Inl e \<Rightarrow> (Inl (OsFailure e), fs)
         | Inr fs' \<Rightarrow> (Inr written, fs')))"

definition taken :: "fs \<Rightarrow> path \<Rightarrow> str \<Rightarrow> nat \<Rightarrow> bool" where
  "taken fs dir name counter = path_exists fs (dir @ [numbered name counter])"

lemma realpath_comp:
  "realpath fs busy cur (p @ rest) = (case realpath fs busy cur p of None \<Rightarrow> None | Some q \<Rightarrow> realpath fs busy q rest)"
proof (induction fs busy cur p rule: realpath.induct)
  case (2 fs busy cur name p)
  show ?case
  proof (cases "name = [] \<or> name = ''.'' \<or> name = ''..''")
    case True
    then show ?thesis using 2(1,2) by (auto split: option.split)
  next
    case False
    then show ?thesis using 2(3-7) by (auto split: option.split node.split)
  qed
qed simp

lemma taken_entry:
  assumes "path_exists fs (d @ [n])" and "plain_name n"
  shows "\<exists>q. lstat fs (q @ [n]) \<noteq> None"
proof -
  obtain q r where q: "realpath fs [] [] d = Some q" "realpath fs [] q [n] = Some r" "lstat fs r \<noteq> None"
    using assms(1) by (auto simp: path_exists_def stat_def realpath_comp split: option.splits)
  have "lstat fs (q @ [n]) \<noteq> None"
  proof
    assume no: "lstat fs (q @ [n]) = None"
    then have "r = q @ [n]" using q(2) assms(2) by (auto simp: plain_name_def)
    with no q(3) show False by simp
  qed
  then show ?thesis ..
qed

lemma numbered_plain: "plain_name (numbered name k)"
proof -
  have "CHR ''_'' \<in> set (numbered name k)" by (simp add: numbered_def)
  then show ?thesis by (auto simp: plain_name_def)
qed

lemma numbered_inject: "numbered name j = numbered name k \<Longrightarrow> j = k"
  by (simp add: numbered_def nat_digits_inject)

lemma taken_names: "numbered name ` {k. taken fs dir name k} \<subseteq> last ` fst ` set fs"
proof
  fix n assume "n \<in> numbered name ` {k. taken fs dir name k}"
  then obtain k where k: "n = numbered name k" "path_exists fs (dir @ [n])" by (auto simp: taken_def)
  then obtain q where "lstat fs (q @ [n]) \<noteq> None" using taken_entry numbered_plain by blast
  then have "q @ [n] \<in> fst ` set fs" by (auto simp: lstat_def dom_map_of_conv_image_fst [symmetric])
  then show "n \<in> last ` fst ` set fs" by (metis image_eqI last_snoc)
qed

lemma inj_numbered: "inj_on (numbered name) A"
  by (rule inj_onI) (rule numbered_inject)

lemma finite_taken: "finite {k. taken fs dir name k}"
  by (rule finite_imageD [OF finite_subset [OF taken_names] inj_numbered]) simp

lemma card_taken: "card {k. taken fs dir name k} \<le> length fs"
proof -
  have "card {k. taken fs dir name k} = card (numbered name ` {k. taken fs dir name k})"
    by (rule card_image [OF inj_numbered, symmetric])
  also have "\<dots> \<le> card (last ` fst ` set fs)" by (rule card_mono [OF _ taken_names]) simp
  also have "\<dots> \<le> length fs" by (metis card_image_le card_length finite_imageI finite_set le_trans)
  finally show ?thesis .
qed

text \<open>The loop that looks for a free name.\<close>

function free_counter :: "fs \<Rightarrow> path \<Rightarrow> str \<Rightarrow> nat \<Rightarrow> nat" where
  "free_counter fs dir name counter =
     (if \<not> taken fs dir name counter then counter else free_counter fs dir name (counter + 1))"
  by pat_completeness auto
termination
proof (relation "measure (\<lambda>(fs, dir, name, counter). card {k. counter \<le> k \<and> taken fs dir name k})")
  fix fs dir name counter
  assume "\<not> \<not> taken fs dir name counter"
  then have "{k. counter + 1 \<le> k \<and> taken fs dir name k} \<subset> {k. counter \<le> k \<and> taken fs dir name k}"
    by (intro psubsetI notI subsetI) (auto simp: set_eq_iff dest!: spec [of _ counter])
  moreover have "finite {k. counter \<le> k \<and> taken fs dir name k}"
    by (rule finite_subset [OF _ finite_taken]) auto
  ultimately show "((fs, dir, name, counter + 1), fs, dir, name, counter) \<in>
      measure (\<lambda>(fs, dir, name, counter). card {k. counter \<le> k \<and> taken fs dir name k})"
    by (simp add: psubset_card_mono)
qed simp

declare free_counter.simps [simp del]
declare write_loop.simps [simp del]

text \<open>\<open>destination.with_suffix(destination.suffix + ".tmp")\<close> appends to the name.\<close>

definition temp_name :: "str \<Rightarrow> str" where
  "temp_name name = stem_of name @ suffix_of name @ ''.tmp''"

definition write_upload ::
  "bytes \<Rightarrow> path \<Rightarrow> str \<Rightarrow> ConflictResolution option \<Rightarrow> fs \<Rightarrow> (file_exn, UploadResult) result \<times> fs" where
  "write_upload upload target_dir filename resolution fs =
     (if resolution = Some OVERWRITE \<and> path_exists fs (target_dir @ [filename]) then
        (case write_upload_chunks upload (target_dir @ [temp_name filename]) fs of
           (Inl e, fs1) \<Rightarrow> (Inl e, fs1)
         | (Inr n, fs1) \<Rightarrow>
             (case os_replace (target_dir @ [temp_name filename]) (target_dir @ [filename]) fs1 of
                Inl e \<Rightarrow> (Inl (OsFailure e), fs1)
              | Inr fs2 \<Rightarrow> (Inr \<lparr>up_name = filename, up_size = Some n, up_skipped = False\<rparr>, fs2)))
      else
        (case write_upload_chunks upload (target_dir @ [filename]) fs of
           (Inl e, fs1) \<Rightarrow> (Inl e, fs1)
         | (Inr n, fs1) \<Rightarrow> (Inr \<lparr>up_name = filename, up_size = Some n, up_skipped = False\<rparr>, fs1)))"

definition upload_file ::
  "path \<Rightarrow> str \<Rightarrow> str \<Rightarrow> bytes \<Rightarrow> ConflictResolution option \<Rightarrow> fs \<Rightarrow> (file_exn, UploadResult) result \<times> fs" where
  "upload_file base_dir rel_dir upload_name upload resolution fs =
     (case resolve_safe_path base_dir rel_dir fs of
        Inl e \<Rightarrow> (Inl e, fs)
      | Inr target_dir \<Rightarrow>
        (case validate_upload_filename upload_name of
           Inl e \<Rightarrow> (Inl e, fs)
         | Inr filename \<Rightarrow>
           if path_exists fs (target_dir @ [filename]) then
             (case resolution of
                None \<Rightarrow> (Inl (FileConflictError filename), fs)
              | Some SKIP \<Rightarrow>
                  (case entry_of fs (target_dir @ [filename]) filename of
                     Inl e \<Rightarrow> (Inl e, fs)
                   | Inr en \<Rightarrow> (Inr \<lparr>up_name = filename,
                       up_size = entry_size en, up_skipped = True\<rparr>, fs))
              | Some RENAME \<Rightarrow>
                  write_upload upload target_dir
                    (numbered filename (free_counter fs target_dir filename 1)) resolution fs
              | Some OVERWRITE \<Rightarrow> write_upload upload target_dir filename resolution fs)
           else write_upload upload target_dir filename resolution fs))"

section \<open>Deleting, renaming, creating folders\<close>

definition delete_resolved :: "path \<Rightarrow> fs \<Rightarrow> fs" where
  "delete_resolved p fs = (if is_dir fs p then rmtree p fs else remove_file p fs)"

fun delete_paths :: "path \<Rightarrow> str list \<Rightarrow> str list \<Rightarrow> fs \<Rightarrow> (file_exn, str list) result \<times> fs" where
  "delete_paths base_dir [] deleted fs = (Inr deleted, fs)"
| "delete_paths base_dir (p # ps) deleted fs =
     (case resolve_safe_path base_dir p fs of
        Inl e \<Rightarrow> (Inl e, fs)
      | Inr resolved \<Rightarrow> delete_paths base_dir ps (deleted @ [p]) (delete_resolved resolved fs))"

definition rename_path :: "path \<Rightarrow> str \<Rightarrow> str \<Rightarrow> fs \<Rightarrow> (file_exn, str) result \<times> fs" where
  "rename_path base_dir old_relative new_name fs =
     (case validate_name new_name of
        Inl e \<Rightarrow> (Inl e, fs)
      | Inr _ \<Rightarrow>
        (case (resolve_safe_path base_dir old_relative fs, resolve_base fs base_dir) of
           (Inr resolved, Inr base) \<Rightarrow>
             (let new_path = butlast resolved @ (if new_name = ''.'' then [] else [new_name]) in
              if path_exists fs new_path then
                (Inl (if prefix base new_path then FileConflictError new_name else FileValueError), fs)
              else
                (let fs' = move_tree resolved new_path fs in
                 (if prefix base new_path then Inr (path_str (drop (length base) new_path)) else Inl FileValueError, fs')))
         | (Inl e, _) \<Rightarrow> (Inl e, fs)
         | (_, Inl e) \<Rightarrow> (Inl e, fs)))"

definition create_folder :: "path \<Rightarrow> str \<Rightarrow> str \<Rightarrow> fs \<Rightarrow> (file_exn, str) result \<times> fs" where
  "create_folder base_dir parent_relative folder_name fs =
     (case validate_name folder_name of
        Inl e \<Rightarrow> (Inl e, fs)
      | Inr _ \<Rightarrow>
        (case (resolve_safe_path base_dir parent_relative fs, resolve_base fs base_dir) of
           (Inr parent, Inr base) \<Rightarrow>
             (let new_dir = parent @ (if folder_name = ''.'' then [] else [folder_name]) in
              if path_exists fs new_dir then (Inl (FileConflictError folder_name), fs)
              else if lstat fs parent \<noteq> Some DirNode then (Inl (OsFailure OsNotADirectory), fs)
              else if lstat fs new_dir \<noteq> None then (Inl (OsFailure OsFileExists), fs)
              else (Inr (path_str (drop (length base) new_dir)), make_dir new_dir fs))
         | (Inl e, _) \<Rightarrow> (Inl e, fs)
         | (_, Inl e) \<Rightarrow> (Inl e, fs)))"

section \<open>Lemmas\<close>

lemma write_loop_all: "write_loop rest out n = (out @ rest, n + length rest)"
proof (induction rest out n rule: write_loop.induct)
  case (1 rest out n)
  show ?case
  proof (cases "take UPLOAD_CHUNK_SIZE rest = []")
    case True
    then have "rest = []" by (simp add: UPLOAD_CHUNK_SIZE_def)
    then show ?thesis by (simp add: write_loop.simps)
  next
    case False
    from 1 [OF refl False] show ?thesis
      using False by (simp add: write_loop.simps [of rest] Let_def del: take_eq_Nil)
  qed
qed

lemma write_upload_chunks_eq:
  "write_upload_chunks upload p fs = (case write_file p upload fs of
     Inl e \<Rightarrow> (Inl (OsFailure e), fs) | Inr fs' \<Rightarrow> (Inr (length upload), fs'))"
  by (simp add: write_upload_chunks_def write_loop_all)

lemma free_counter_least: "c \<le> free_counter fs dir name c \<and> (\<forall>k \<in> {c..<free_counter fs dir name c}. taken fs dir name k)"
proof (induction fs dir name c rule: free_counter.induct)
  case (1 fs dir name c)
  show ?case
  proof (cases "taken fs dir name c")
    case True
    then have "free_counter fs dir name c = free_counter fs dir name (c + 1)" by (simp add: free_counter.simps [of fs dir name c])
    moreover have "{c..<m} \<subseteq> insert c {c + 1..<m}" for m by auto
    ultimately show ?thesis using 1 True by fastforce
  qed (simp add: free_counter.simps [of fs dir name c])
qed

lemma free_counter_free: "\<not> taken fs dir name (free_counter fs dir name k)"
  by (induction fs dir name k rule: free_counter.induct) (subst free_counter.simps, simp)

lemma resolve_base_link_free: "link_free fs base \<Longrightarrow> resolve_base fs base = Inr base"
  using realpath_plain [of fs "[]" base "[]"] by (simp add: resolve_base_def)

lemma resolve_safe_path_eq:
  assumes "resolve_safe_path base_dir user_path fs = Inr q" and "resolve_base fs base_dir = Inr base"
  shows "prefix base q \<and> link_free fs q \<and> (user_path \<noteq> [] \<longrightarrow> lstat fs q \<noteq> None)"
proof -
  have b: "link_free fs base"
    using assms(2) realpath_resolved by (auto simp: resolve_base_def split: option.splits)
  show ?thesis
  proof (cases "user_path = []")
    case True
    then show ?thesis using assms b by (simp add: resolve_safe_path_def)
  next
    case False
    then have q: "realpath fs [] [] (base @ py_split sep user_path) = Some q" "prefix base q" "path_exists fs q"
      using assms by (auto simp: resolve_safe_path_def join_resolve_def split: if_splits option.splits)
    then have "link_free fs q" using realpath_resolved by blast
    with q show ?thesis by (simp add: path_exists_def stat_link_free)
  qed
qed

lemma validate_upload_plain: "validate_upload_filename n = Inr m \<Longrightarrow> m = n \<and> plain_name n \<and> sep \<notin> set n \<and> nul \<notin> set n"
  by (auto simp: validate_upload_filename_def plain_name_def split: if_splits)

lemma temp_name_plain: "plain_name (temp_name n)"
proof -
  have "CHR ''t'' \<in> set (temp_name n)" by (simp add: temp_name_def)
  then show ?thesis by (auto simp: plain_name_def)
qed

lemma after_dot_suffix:
  assumes "has_suffix n"
  shows "take (length n - length (after_dot n) - 1) n @ CHR ''.'' # after_dot n = n"
proof -
  let ?P = "\<lambda>c. c \<noteq> CHR ''.''"
  let ?t = "takeWhile ?P (rev n)"
  have lt: "length ?t < length (rev n)" using assms by (simp add: has_suffix_def after_dot_def)
  have dot: "rev n ! length ?t = CHR ''.''" using nth_length_takeWhile [OF lt] by simp
  have "rev n = ?t @ drop (length ?t) (rev n)" by (metis dropWhile_eq_drop takeWhile_dropWhile_id)
  also have "drop (length ?t) (rev n) = CHR ''.'' # drop (Suc (length ?t)) (rev n)"
    using Cons_nth_drop_Suc [OF lt] dot by simp
  finally have "rev (rev n) = rev (?t @ CHR ''.'' # drop (Suc (length ?t)) (rev n))" by (rule arg_cong)
  then have n: "n = rev (drop (Suc (length ?t)) (rev n)) @ CHR ''.'' # after_dot n" by (simp add: after_dot_def)
  have "rev (drop (Suc (length ?t)) (rev n)) = take (length n - length (after_dot n) - 1) n"
    by (simp add: rev_drop after_dot_def)
  with n show ?thesis by simp
qed

lemma stem_suffix: "stem_of n @ suffix_of n = n"
  using after_dot_suffix [of n] by (simp add: stem_of_def suffix_of_def)

lemma temp_name_eq: "temp_name n = n @ ''.tmp''"
  using stem_suffix [of n] by (simp add: temp_name_def flip: append_assoc)

subsection \<open>What changes leave alone\<close>

lemma lstat_update: "lstat (AList.update p n fs) = (lstat fs)(p \<mapsto> n)"
  by (auto simp: lstat_def update_conv')

lemma lstat_delete: "lstat (AList.delete p fs) = (lstat fs)(p := None)"
  by (auto simp: lstat_def delete_conv')

lemma lstat_rmtree: "lstat (rmtree p fs) q = (if prefix p q then None else lstat fs q)"
  unfolding lstat_def rmtree_def by (induction fs) auto

lemma lstat_move_outside:
  "\<not> prefix old x \<Longrightarrow> \<not> prefix new x \<Longrightarrow> lstat (move_tree old new fs) x = lstat fs x"
  unfolding lstat_def move_tree_def by (induction fs) auto

lemma prefix_drop: "prefix p q \<Longrightarrow> p @ drop (length p) q = q"
  by (auto simp: prefix_def)

lemma lstat_move_new:
  assumes "\<not> prefix old new" and "\<not> prefix new old"
  shows "lstat (move_tree old new fs) (new @ s) = lstat fs (old @ s)"
proof -
  have p: "\<not> prefix new (old @ s)" using assms prefix_same_cases [of new "old @ s" old] by auto
  have "\<not> prefix old (new @ s)" using assms prefix_same_cases [of old "new @ s" new] by auto
  then have e: "(if prefix old q then new @ drop (length old) q else q) = new @ s \<longleftrightarrow> q = old @ s"
    if "\<not> prefix new q" for q
    using that by (auto simp: prefix_def)
  show ?thesis
    unfolding lstat_def move_tree_def using p
    by (induction fs) (auto simp: e prefix_drop split: if_splits)
qed

lemma lstat_move_old:
  assumes "\<not> prefix old new" and "\<not> prefix new old"
  shows "lstat (move_tree old new fs) (old @ s) = None"
proof -
  have "\<not> prefix new (old @ s)" using assms prefix_same_cases [of new "old @ s" old] by auto
  then have "new @ u \<noteq> old @ s" for u by (metis prefixI)
  then have e: "(if prefix old q then new @ drop (length old) q else q) \<noteq> old @ s" for q
    by (auto simp: prefix_def)
  show ?thesis unfolding lstat_def move_tree_def 
  proof (induction fs)
    case (Cons a fs)
    obtain q n where "a = (q, n)" by (cases a)
    with Cons e [of q] show ?case by (auto split: if_splits)
  qed simp
qed

lemma write_file_eq:
  assumes "write_file p content fs = Inr fs'"
  obtains q where "realpath fs [] [] p = Some q" "fs' = AList.update q (FileNode content) fs" "lstat fs q \<noteq> Some DirNode"
  using assms by (auto simp: write_file_def split: option.splits if_splits)

lemma write_upload_chunks_cases:
  obtains (fail) e where "write_upload_chunks upload p fs = (Inl e, fs)"
    | (ok) q where "realpath fs [] [] p = Some q" "lstat fs q \<noteq> Some DirNode"
      "write_upload_chunks upload p fs = (Inr (length upload), AList.update q (FileNode upload) fs)"
proof (cases "write_file p upload fs")
  case (Inl e)
  then show ?thesis using fail by (simp add: write_upload_chunks_eq)
next
  case (Inr fs')
  then show ?thesis using write_file_eq [OF Inr] ok by (metis write_upload_chunks_eq sum.case(2))
qed

lemma not_link_real:
  assumes "link_free fs d" and "plain_name n" and "\<not> is_link fs (d @ [n])"
  shows "realpath fs [] [] (d @ [n]) = Some (d @ [n])"
  using realpath_plain [of fs "[]" "d @ [n]" "[]"] assms by (simp add: link_free_snoc)

lemma outside_child: "prefix base d \<Longrightarrow> \<not> prefix base x \<Longrightarrow> \<not> prefix (d @ [n]) x"
  by (metis append_prefixD prefix_order.trans)

text \<open>Where an upload can leave the folder: a link of that name in the directory leads to \<open>x\<close>.\<close>

definition link_exit :: "fs \<Rightarrow> path \<Rightarrow> path \<Rightarrow> bool" where
  "link_exit fs d x \<longleftrightarrow> (\<exists>n. is_link fs (d @ [n]) \<and> realpath fs [] [] (d @ [n]) = Some x)"

lemma write_chunks_outside:
  assumes "link_free fs d" and "prefix base d" and "plain_name n" and "\<not> prefix base x" and "\<not> link_exit fs d x"
  shows "lstat (snd (write_upload_chunks upload (d @ [n]) fs)) x = lstat fs x"
proof (cases rule: write_upload_chunks_cases [of upload "d @ [n]" fs])
  case (ok q)
  have "q \<noteq> x"
  proof (cases "is_link fs (d @ [n])")
    case True
    then show ?thesis using ok(1) assms(5) by (auto simp: link_exit_def)
  next
    case False
    then show ?thesis using not_link_real [OF assms(1,3)] ok(1) assms(2,4) by auto
  qed
  with ok show ?thesis by (auto simp: lstat_update)
qed simp

lemma write_upload_outside:
  assumes "link_free fs d" and "prefix base d" and "plain_name n" and "\<not> prefix base x" and "\<not> link_exit fs d x"
  shows "lstat (snd (write_upload upload d n res fs)) x = lstat fs x"
proof -
  have o: "\<not> prefix (d @ [n]) x" "\<not> prefix (d @ [temp_name n]) x"
    using outside_child [OF assms(2,4)] by blast+
  note w = write_chunks_outside [OF assms(1,2) _ assms(4,5), of _ upload]
  show ?thesis
    using w [OF assms(3)] w [OF temp_name_plain, of n]
    by (auto simp: write_upload_def os_replace_def lstat_move_outside o split: prod.splits sum.splits if_splits)
qed

lemma upload_outside:
  assumes "link_free fs base" and "\<not> prefix base x"
    and "\<And>d. resolve_safe_path base rel fs = Inr d \<Longrightarrow> \<not> link_exit fs d x"
  shows "lstat (snd (upload_file base rel name upload res fs)) x = lstat fs x"
proof (cases "resolve_safe_path base rel fs")
  case (Inr d)
  have d: "prefix base d" "link_free fs d"
    using resolve_safe_path_eq [OF Inr resolve_base_link_free [OF assms(1)]] by auto
  note w = write_upload_outside [OF d(2,1) _ assms(2) assms(3) [OF Inr]]
  show ?thesis
  proof (cases "validate_upload_filename name")
    case v: (Inr n)
    then have n: "n = name" "plain_name n" using validate_upload_plain by auto
    show ?thesis using Inr v w [OF n(2)] w [OF numbered_plain]
      by (auto simp: upload_file_def split: option.split ConflictResolution.split sum.split)
  qed (simp add: upload_file_def Inr)
qed (simp add: upload_file_def)

lemma link_free_mono:
  assumes "link_free fs p" and "\<And>q. is_link fs' q \<Longrightarrow> is_link fs q"
  shows "link_free fs' p"
  using assms by (auto simp: link_free_def)

lemma delete_resolved_links: "is_link (delete_resolved p fs) q \<Longrightarrow> is_link fs q"
  by (auto simp: is_link_def delete_resolved_def remove_file_def lstat_rmtree lstat_delete split: if_splits)

lemma delete_outside:
  assumes "link_free fs base" and "\<not> prefix base x"
  shows "lstat (snd (delete_paths base ps deleted fs)) x = lstat fs x"
  using assms(1)
proof (induction ps arbitrary: deleted fs)
  case (Cons p ps)
  show ?case
  proof (cases "resolve_safe_path base p fs")
    case (Inr q)
    have "prefix base q" using resolve_safe_path_eq [OF Inr resolve_base_link_free [OF Cons.prems]] by simp
    then have "\<not> prefix q x" "q \<noteq> x" using assms(2) prefix_order.trans by auto
    then have "lstat (delete_resolved q fs) x = lstat fs x"
      by (simp add: delete_resolved_def remove_file_def lstat_rmtree lstat_delete)
    moreover have "link_free (delete_resolved q fs) base"
      using link_free_mono [OF Cons.prems delete_resolved_links] .
    ultimately show ?thesis using Inr Cons.IH by simp
  qed simp
qed simp

lemma rename_outside:
  assumes "link_free fs base" and "resolve_safe_path base old fs \<noteq> Inr base" and "\<not> prefix base x"
  shows "lstat (snd (rename_path base old new fs)) x = lstat fs x"
proof (cases "resolve_safe_path base old fs")
  case (Inr q)
  note b = resolve_base_link_free [OF assms(1)]
  have q: "prefix base q" "q \<noteq> base" using resolve_safe_path_eq [OF Inr b] assms(2) Inr by auto
  then have pb: "prefix base (butlast q)" by (auto simp: prefix_def butlast_append)
  have "\<not> prefix q x" using q assms(3) prefix_order.trans by blast
  moreover have "\<not> prefix (butlast q @ n) x" for n using pb assms(3) by (metis append_prefixD prefix_order.trans)
  moreover have "\<not> prefix (butlast q) x" using pb assms(3) prefix_order.trans by blast
  ultimately show ?thesis
    by (auto simp: rename_path_def b Inr Let_def lstat_move_outside split: sum.split)
qed (simp add: rename_path_def split: sum.split)

text \<open>Renaming the folder itself only creates entries under the new name next to it.\<close>

lemma rename_root_outside:
  assumes "fs_ok fs" and "link_free fs base" and "lstat fs base = Some DirNode" and "\<not> prefix base x"
    and "resolve_safe_path base old fs = Inr base"
    and "lstat (snd (rename_path base old new fs)) x \<noteq> lstat fs x"
  shows "\<not> path_exists fs (butlast base @ [new]) \<and> prefix (butlast base @ [new]) x"
proof -
  have b: "base \<noteq> []" using assms(4) by auto
  have f: "link_free fs (butlast base)" by (rule link_free_prefix [OF assms(2)]) (simp add: b prefixeq_butlast)
  have "lstat fs (butlast base) = Some DirNode"
    using assms(1,3) b by (metis append_butlast_last_id fs_ok_def option.distinct(1))
  then have "path_exists fs (butlast base)" using stat_link_free [OF f] by (simp add: path_exists_def)
  then show ?thesis
    using assms(4-6) lstat_move_outside [of base x "butlast base @ [new]" fs]
    by (auto simp: rename_path_def resolve_base_link_free [OF assms(2)] Let_def split: sum.splits if_splits)
qed

subsection \<open>What is read\<close>

lemma collect_results_eq:
  "collect_results rs = Inr as \<longleftrightarrow> rs = map Inr as"
  by (induction rs arbitrary: as) (auto simp: res_bind_eq_Inr)

lemma entry_of_name: "entry_of fs p n = Inr en \<Longrightarrow> entry_name en = n"
  by (auto simp: entry_of_def split: option.splits node.splits)

lemma entries_names:
  assumes "collect_results (map (\<lambda>p. entry_of fs p (f p)) ps) = Inr es"
  shows "map entry_name es = map f ps"
  using assms unfolding collect_results_eq
  by (induction ps arbitrary: es) (auto dest: entry_of_name)

lemma zip_members:
  assumes "link_free fs base" and "download_as_zip base users fs = Inr ms" and "(q, n) \<in> set ms"
  shows "prefix base q \<and> link_free fs q"
proof -
  note b = resolve_base_link_free [OF assms(1)]
  obtain qs where qs: "map (\<lambda>u. resolve_safe_path base u fs) users = map Inr qs" "q \<in> set qs"
    using assms(2,3) by (auto simp: download_as_zip_def b zip_stream_def res_bind_eq_Inr collect_results_eq)
  then have "Inr q \<in> (\<lambda>u. resolve_safe_path base u fs) ` set users" by (metis image_eqI list.set_map)
  then show ?thesis using resolve_safe_path_eq [OF _ b] by auto
qed

lemma listed_entries:
  assumes "link_free fs base" and "list_directory base user fs = Inr es"
  shows "\<exists>q. prefix base q \<and> link_free fs q \<and> map entry_name es = map last (children fs q)"
proof -
  obtain q where q: "resolve_safe_path base user fs = Inr q"
    "collect_results (map (\<lambda>p. entry_of fs p (last p)) (children fs q)) = Inr es"
    using assms(2) by (auto simp: list_directory_def res_bind_eq_Inr split: if_splits)
  then show ?thesis
    using resolve_safe_path_eq [OF q(1) resolve_base_link_free [OF assms(1)]] entries_names [OF q(2)] by blast
qed

lemma found_entries:
  assumes "link_free fs base" and "search_files base user query fs = Inr es"
  shows "\<exists>q ps. prefix base q \<and> link_free fs q \<and> map entry_name es = map (\<lambda>p. path_str (drop (length q) p)) ps \<and>
    (\<forall>p \<in> set ps. strict_prefix q p \<and> (\<exists>r. realpath fs [] [] p = Some r \<and> prefix base r))"
proof -
  note b = resolve_base_link_free [OF assms(1)]
  obtain q where q: "resolve_safe_path base user fs = Inr q"
    "collect_results (map (\<lambda>p. entry_of fs p (path_str (drop (length q) p)))
       (filter (\<lambda>p. strict_prefix q p \<and> search_hit fs base query p) (map fst fs))) = Inr es"
    using assms(2) by (auto simp: search_files_def b res_bind_eq_Inr split: if_splits)
  show ?thesis
    using resolve_safe_path_eq [OF q(1) b] entries_names [OF q(2)]
    by (intro exI [of _ q] exI [of _ "filter (\<lambda>p. strict_prefix q p \<and> search_hit fs base query p) (map fst fs)"])
      (auto simp: search_hit_def split: option.splits)
qed

lemma create_folder_outside:
  assumes "link_free fs base" and "\<not> prefix base x"
  shows "lstat (snd (create_folder base parent name fs)) x = lstat fs x"
proof (cases "resolve_safe_path base parent fs")
  case (Inr q)
  note b = resolve_base_link_free [OF assms(1)]
  have "prefix base q" using resolve_safe_path_eq [OF Inr b] by simp
  then have "q @ n \<noteq> x" for n using assms(2) by auto
  then show ?thesis
    by (auto simp: create_folder_def b Inr Let_def make_dir_def lstat_update split: sum.split)
qed (simp add: create_folder_def split: sum.split)

subsection \<open>What an upload leaves\<close>

lemma fs_ok_leaf:
  assumes "fs_ok fs" and "lstat fs p \<noteq> Some DirNode" and "s \<noteq> []"
  shows "lstat fs (p @ s) = None"
  using assms(3)
proof (induction s rule: rev_induct)
  case (snoc n s)
  have "lstat fs (p @ s) \<noteq> Some DirNode" using snoc.IH assms(2) by (cases "s = []") auto
  then show ?case using assms(1) unfolding fs_ok_def by (metis append_assoc)
qed simp

text \<open>Writing under a name that is not a link.\<close>

lemma write_upload_plain:
  assumes "fs_ok fs" and "link_free fs d" and "plain_name n"
    and "\<not> is_link fs (d @ [n]) \<or> res = Some OVERWRITE \<and> path_exists fs (d @ [n])"
    and "\<not> is_link fs (d @ [temp_name n])"
    and "write_upload upload d n res fs = (Inr r, fs')"
  shows "r = \<lparr>up_name = n, up_size = Some (length upload), up_skipped = False\<rparr> \<and>
    lstat fs' (d @ [n]) = Some (FileNode upload) \<and>
    (\<forall>x. x \<noteq> d @ [n] \<longrightarrow> lstat fs' x =
      (if res = Some OVERWRITE \<and> path_exists fs (d @ [n]) \<and> x = d @ [temp_name n] then None else lstat fs x))"
proof (cases "res = Some OVERWRITE \<and> path_exists fs (d @ [n])")
  case True
  let ?t = "d @ [temp_name n]" and ?p = "d @ [n]"
  have ne: "temp_name n \<noteq> n" by (simp add: temp_name_eq)
  have inc: "\<not> prefix ?t ?p" "\<not> prefix ?p ?t" using ne by (simp_all add: prefix_def)
  let ?fs1 = "AList.update ?t (FileNode upload) fs"
  have r: "realpath fs [] [] ?t = Some ?t" by (rule not_link_real [OF assms(2) temp_name_plain assms(5)])
  have w: "lstat fs ?t \<noteq> Some DirNode" "lstat ?fs1 ?p \<noteq> Some DirNode"
    "r = \<lparr>up_name = n, up_size = Some (length upload), up_skipped = False\<rparr>" "fs' = move_tree ?t ?p ?fs1"
    using assms(6) True r
    by (auto simp: write_upload_def write_upload_chunks_eq write_file_def os_replace_def lstat_update
        split: sum.splits if_splits prod.splits)
  have new: "lstat fs' ?p = Some (FileNode upload)"
    using lstat_move_new [OF inc, of ?fs1 "[]"] w(4) by (simp add: lstat_update)
  have old: "lstat fs' x = lstat fs x" if x: "x \<noteq> ?p" "x \<noteq> ?t" for x
  proof (cases "prefix ?p x")
    case True
    then obtain s where s: "x = ?p @ s" "s \<noteq> []" using x by (auto simp: prefix_def)
    have "lstat fs' (?p @ s) = lstat ?fs1 (?t @ s)" using lstat_move_new [OF inc] w(4) by simp
    also have "\<dots> = None" using fs_ok_leaf [OF assms(1) w(1) s(2)] s(2) by (simp add: lstat_update)
    finally show ?thesis using fs_ok_leaf [OF assms(1) _ s(2), of ?p] w(2) s ne by (simp add: lstat_update split: if_splits)
  next
    case np: False
    show ?thesis
    proof (cases "prefix ?t x")
      case True
      then obtain s where s: "x = ?t @ s" "s \<noteq> []" using x by (auto simp: prefix_def)
      have "lstat fs' x = None" using lstat_move_old [OF inc] w(4) s(1) by simp
      with s fs_ok_leaf [OF assms(1) w(1)] show ?thesis by simp
    next
      case False
      with np x w(4) show ?thesis by (simp add: lstat_move_outside lstat_update)
    qed
  qed
  have "lstat fs' ?t = None" using lstat_move_old [OF inc, of ?fs1 "[]"] w(4) by simp
  then show ?thesis using w(3) new old True by simp
next
  case False
  then have nl: "\<not> is_link fs (d @ [n])" using assms(4) by blast
  have r: "realpath fs [] [] (d @ [n]) = Some (d @ [n])" by (rule not_link_real [OF assms(2,3) nl])
  show ?thesis using assms(6) False r
    by (auto simp: write_upload_def write_upload_chunks_eq write_file_def lstat_update split: sum.splits if_splits)
qed

text \<open>A path below the folder, as the client writes it.\<close>

definition user_path :: "path \<Rightarrow> str" where
  "user_path p = (case p of [] \<Rightarrow> [] | n # ns \<Rightarrow> n @ concat (map (\<lambda>x. sep # x) ns))"

definition good_names :: "path \<Rightarrow> bool" where
  "good_names p \<longleftrightarrow> (\<forall>n \<in> set p. sep \<notin> set n \<and> nul \<notin> set n)"

lemma split_user_path:
  assumes "p \<noteq> []" and "good_names p"
  shows "py_split sep (user_path p) = p"
proof -
  obtain n ns where p: "p = n # ns" using assms(1) by (cases p) auto
  have "py_split sep (n @ concat (map (\<lambda>x. sep # x) ns)) = n # ns" if "good_names (n # ns)"
    using that
  proof (induction ns arbitrary: n)
    case (Cons m ns)
    have "py_split sep (n @ sep # (m @ concat (map (\<lambda>x. sep # x) ns))) = n # py_split sep (m @ concat (map (\<lambda>x. sep # x) ns))"
      using Cons.prems by (intro py_split_append) (simp add: good_names_def)
    with Cons show ?case by (simp add: good_names_def)
  qed (simp add: py_split_single good_names_def)
  with p assms(2) show ?thesis by (simp add: user_path_def)
qed

lemma user_path_chars: "good_names p \<Longrightarrow> nul \<notin> set (user_path p)"
proof (cases p)
  case (Cons n ns)
  assume "good_names p"
  moreover have "nul \<noteq> sep" by (simp add: nul_def sep_def)
  ultimately show ?thesis using Cons by (auto simp: user_path_def good_names_def)
qed (simp add: user_path_def)

lemma resolve_plain:
  assumes "link_free fs base" and "link_free fs (base @ p)" and "p \<noteq> []" and "good_names p" and "lstat fs (base @ p) \<noteq> None"
  shows "resolve_safe_path base (user_path p) fs = Inr (base @ p)"
proof -
  obtain n ns where p: "p = n # ns" using assms(3) by (cases p) auto
  have "plain_name n" using assms(2) p by (auto simp: link_free_def plain_path_def)
  then have "user_path p \<noteq> []" "\<not> py_startswith (user_path p) [sep]"
    using p assms(4) by (cases n; auto simp: user_path_def plain_name_def py_startswith_def good_names_def)+
  moreover have "join_resolve fs base (user_path p) = Inr (base @ p)"
    using realpath_plain [of fs "[]" "base @ p" "[]"] assms(2) user_path_chars [OF assms(4)]
    by (simp add: join_resolve_def split_user_path [OF assms(3,4)])
  ultimately show ?thesis using assms(5)
    by (simp add: resolve_safe_path_def resolve_base_link_free [OF assms(1)] path_exists_def stat_link_free [OF assms(2)])
qed

lemma numbered_chars:
  assumes "sep \<notin> set name" and "nul \<notin> set name"
  shows "sep \<notin> set (numbered name k) \<and> nul \<notin> set (numbered name k)"
proof -
  have "sep \<notin> set (stem_of name)" "nul \<notin> set (stem_of name)" "sep \<notin> set (suffix_of name)" "nul \<notin> set (suffix_of name)"
    using assms stem_suffix [of name] by (metis Un_iff set_append)+
  moreover have "sep \<notin> set (nat_digits k)" "nul \<notin> set (nat_digits k)"
    using nat_digits_only [of sep k] nat_digits_only [of nul k] by (auto simp: sep_def nul_def)
  ultimately show ?thesis by (simp add: numbered_def) (simp add: sep_def nul_def)
qed

subsection \<open>A concrete folder\<close>

subsection \<open>What an upload reports and leaves\<close>

lemma resolve_directory:
  assumes "link_free fs base" and "link_free fs (base @ dir)" and "good_names dir" and "lstat fs (base @ dir) = Some DirNode"
  shows "resolve_safe_path base (user_path dir) fs = Inr (base @ dir)"
  using resolve_plain [OF assms(1,2) _ assms(3)] assms(4) resolve_base_link_free [OF assms(1)]
  by (cases "dir = []") (simp_all add: user_path_def resolve_safe_path_def)

lemma upload_file_cases:
  assumes "upload_file base rel name upload res fs = (Inr r, fs')" and "resolve_safe_path base rel fs = Inr d"
  obtains (skipped) "up_skipped r" "res = Some SKIP" "up_name r = name" "path_exists fs (d @ [name])" "fs' = fs"
  | (written) "\<not> up_skipped r" "write_upload upload d (up_name r) res fs = (Inr r, fs')" "plain_name (up_name r)"
      "sep \<notin> set (up_name r)" "nul \<notin> set (up_name r)" "res \<noteq> Some OVERWRITE \<longrightarrow> \<not> path_exists fs (d @ [up_name r])"
proof -
  obtain v where v: "validate_upload_filename name = Inr v"
    using assms by (cases "validate_upload_filename name") (auto simp: upload_file_def)
  have n: "v = name" "plain_name name" "sep \<notin> set name" "nul \<notin> set name" using validate_upload_plain [OF v] by auto
  let ?num = "numbered name (free_counter fs d name 1)"
  have free: "\<not> path_exists fs (d @ [?num])" using free_counter_free [of fs d name 1] by (simp add: taken_def)
  have num: "plain_name ?num" "sep \<notin> set ?num" "nul \<notin> set ?num" using numbered_plain numbered_chars [of name] n(3,4) by auto
  have w: "up_name r = m \<and> \<not> up_skipped r" if "write_upload upload d m res fs = (Inr r, fs')" for m
    using that by (auto simp: write_upload_def split: prod.splits sum.splits if_splits)
  show thesis
  proof (cases "up_skipped r")
    case True
    then show thesis using assms v n(1) w skipped
      by (auto simp: upload_file_def split: if_splits option.splits ConflictResolution.splits sum.splits)
  next
    case False
    obtain m where "write_upload upload d m res fs = (Inr r, fs')" "m = name \<or> m = ?num" "res \<noteq> Some OVERWRITE \<longrightarrow> \<not> path_exists fs (d @ [m])"
      using False assms v n(1) free
      by (auto simp: upload_file_def split: if_splits option.splits ConflictResolution.splits sum.splits)
    then show thesis using written [OF False] w [of m] n num by auto
  qed
qed

definition demo_fs :: fs where
  "demo_fs = [([], DirNode), ([''srv''], DirNode), ([''srv'', ''a.txt''], FileNode [1, 2]),
     ([''srv'', ''a.txt.tmp''], FileNode [3]), ([''key''], FileNode [9])]"

lemma demo_no_links: "\<not> is_link demo_fs p"
  by (auto simp: is_link_def lstat_def demo_fs_def)

lemma demo_link_free: "plain_path p \<Longrightarrow> link_free demo_fs p"
  by (simp add: link_free_def demo_no_links)

lemma demo_fs_ok: "fs_ok demo_fs"
proof -
  have "lstat demo_fs (p @ [n]) \<noteq> None \<Longrightarrow> lstat demo_fs p = Some DirNode \<and> plain_name n" for p n
    by (auto simp: lstat_def demo_fs_def plain_name_def append_eq_Cons_conv split: if_splits)
  then show ?thesis by (auto simp: fs_ok_def) (simp_all add: demo_fs_def lstat_def)
qed

section \<open>Properties\<close>



text \<open>C17: what is uploaded is what is downloaded. A successful upload into an existing directory of the folder,
  where neither the name it reports nor that name with \<open>.tmp\<close> appended is a link, is either
  skipped, which only happens when asked for and when the name exists, and then nothing changes; or it stores exactly the
  uploaded bytes, whatever their number of chunks, under the name it reports, and downloading that path
  yields the file. Then the rest of the file system is as before, with one exception: replacing
  an existing file removes an entry that had the name with \<open>.tmp\<close> appended, so no temporary file stays behind.
  Unless asked to overwrite, no existing entry changes.\<close>

theorem upload_download_roundtrip:
  assumes "fs_ok fs" and "link_free fs base" and "link_free fs (base @ dir)" and "good_names dir"
    and "lstat fs (base @ dir) = Some DirNode"
    and "upload_file base (user_path dir) name upload res fs = (Inr r, fs')"
    and "\<not> is_link fs (base @ dir @ [up_name r])" and "\<not> is_link fs (base @ dir @ [temp_name (up_name r)])"
  shows "if up_skipped r then res = Some SKIP \<and> up_name r = name \<and> lstat fs (base @ dir @ [name]) \<noteq> None \<and> fs' = fs
    else download_file base (user_path (dir @ [up_name r])) fs' = Inr (base @ dir @ [up_name r]) \<and>
      lstat fs' (base @ dir @ [up_name r]) = Some (FileNode upload) \<and> up_size r = Some (length upload) \<and>
      (\<forall>x. x \<noteq> base @ dir @ [up_name r] \<longrightarrow> lstat fs' x =
        (if res = Some OVERWRITE \<and> lstat fs (base @ dir @ [up_name r]) \<noteq> None \<and> x = base @ dir @ [temp_name (up_name r)]
         then None else lstat fs x)) \<and>
      (res \<noteq> Some OVERWRITE \<longrightarrow> lstat fs (base @ dir @ [up_name r]) = None)"
proof -
  let ?d = "base @ dir" and ?m = "up_name r"
  from assms(6) resolve_directory [OF assms(2-5)] show ?thesis
  proof (cases rule: upload_file_cases)
    case skipped
    then have "\<not> is_link fs (?d @ [name])" "plain_name name"
      using assms(6,7) resolve_directory [OF assms(2-5)] validate_upload_plain [of name]
      by (auto simp: upload_file_def split: sum.splits)
    then have "lstat fs (?d @ [name]) \<noteq> None"
      using skipped(4) stat_link_free [of fs "?d @ [name]"] assms(3) unfolding link_free_snoc by (auto simp: path_exists_def)
    then show ?thesis using skipped by simp
  next
    case written
    have nl: "\<not> is_link fs (?d @ [?m])" "\<not> is_link fs (?d @ [temp_name ?m])" using assms(7,8) by simp_all
    note w = write_upload_plain [OF assms(1,3) written(3) disjI1 [OF nl(1)] nl(2) written(2)]
    have lfm: "link_free fs (?d @ [?m])" unfolding link_free_snoc using assms(3) written(3) nl by blast
    have ex: "path_exists fs (?d @ [?m]) \<longleftrightarrow> lstat fs (?d @ [?m]) \<noteq> None" using stat_link_free [OF lfm] by (simp add: path_exists_def)
    have "lstat fs' q = lstat fs q" if "prefix q ?d" for q
    proof -
      have "length q \<le> length ?d" using that by (rule prefix_length_le)
      then have "q \<noteq> base @ dir @ [k]" for k by auto
      then show ?thesis using w by simp
    qed
    then have "link_free fs' ?d" using assms(3) by (auto simp: link_free_def is_link_def)
    moreover have "\<not> is_link fs' (?d @ [?m])" using w by (simp add: is_link_def)
    ultimately have lf: "link_free fs' (?d @ [?m])" using written(3) unfolding link_free_snoc by blast
    have b: "link_free fs' base" by (rule link_free_prefix [OF lf]) simp
    have "resolve_safe_path base (user_path (dir @ [?m])) fs' = Inr (?d @ [?m])"
      using resolve_plain [OF b, of "dir @ [?m]"] lf assms(4) written(4,5) w by (simp add: good_names_def)
    moreover have "\<not> is_dir fs' (?d @ [?m])" using w stat_link_free [OF lf] by (simp add: is_dir_def)
    moreover have "up_size r = Some (length upload)" using w by (metis UploadResult.select_convs(2))
    ultimately show ?thesis using w written(1,6) ex by (simp add: download_file_def)
  qed
qed

theorem upload_download_roundtrip_witness:
  "\<exists>r fs'. upload_file [''srv''] [] ''a.txt'' [7] (Some RENAME) demo_fs = (Inr r, fs') \<and>
     lstat fs' ([''srv''] @ [] @ [up_name r]) = Some (FileNode [7]) \<and>
     lstat fs' [''srv'', ''a.txt''] = Some (FileNode [1, 2])"
proof -
  let ?d = "[''srv'']"
  have f: "link_free demo_fs ?d" by (rule demo_link_free) (simp add: plain_path_def plain_name_def)
  have d: "lstat demo_fs ?d = Some DirNode" by (simp add: lstat_def demo_fs_def)
  have e: "path_exists demo_fs [''srv'', ''a.txt'']"
    using stat_link_free [OF demo_link_free [of "[''srv'', ''a.txt'']"]]
    by (simp add: path_exists_def plain_path_def plain_name_def lstat_def demo_fs_def)
  let ?num = "numbered ''a.txt'' (free_counter demo_fs ?d ''a.txt'' 1)"
  have "plain_name ''srv''" by (simp add: plain_name_def)
  then have lf: "link_free demo_fs (?d @ [?num])"
    by (intro demo_link_free) (simp add: plain_path_def numbered_plain)
  have fr: "\<not> path_exists demo_fs (?d @ [?num])"
    using free_counter_free [of demo_fs ?d "''a.txt''" 1] by (simp add: taken_def)
  then have no: "lstat demo_fs (?d @ [?num]) = None" using stat_link_free [OF lf] by (simp add: path_exists_def)
  have up: "upload_file ?d [] ''a.txt'' [7] (Some RENAME) demo_fs =
      (Inr \<lparr>up_name = ?num, up_size = Some 1, up_skipped = False\<rparr>, AList.update (?d @ [?num]) (FileNode [7]) demo_fs)"
    using e no d realpath_plain [of demo_fs "[]" "?d @ [?num]" "[]"] lf
    by (simp add: upload_file_def resolve_safe_path_def resolve_base_link_free [OF f] validate_upload_filename_def
        nul_def sep_def py_startswith_def write_upload_def write_upload_chunks_eq write_file_def)
  have ne: "?num \<noteq> ''a.txt''" using e fr by auto
  from upload_download_roundtrip [OF demo_fs_ok f, of "[]" "''a.txt''" "[7]" "Some RENAME"] up f d ne show ?thesis
    by (auto simp: good_names_def user_path_def demo_no_links lstat_update) (simp add: lstat_def demo_fs_def)
qed

text \<open>C34: the search for a free name always ends. Uploading with the resolution \<open>rename\<close> takes the first
  number whose name is free, after at most as many tries as the file system has entries.\<close>

theorem rename_search_terminates:
  "\<not> path_exists fs (dir @ [numbered name (free_counter fs dir name 1)]) \<and>
   (\<forall>k \<in> {1..<free_counter fs dir name 1}. path_exists fs (dir @ [numbered name k])) \<and>
   1 \<le> free_counter fs dir name 1 \<and> free_counter fs dir name 1 \<le> length fs + 1"
proof -
  let ?k = "free_counter fs dir name 1"
  have least: "\<forall>k \<in> {1..<?k}. taken fs dir name k" and ge: "1 \<le> ?k" using free_counter_least [of 1 fs dir name] by auto
  then have "card {1..<?k} \<le> card {k. taken fs dir name k}" by (intro card_mono finite_taken) auto
  then have "?k - 1 \<le> length fs" using card_taken [of fs dir name] by simp
  then show ?thesis using least ge free_counter_free [of fs dir name 1] by (simp add: taken_def)
qed

theorem rename_search_terminates_witness:
  "path_exists demo_fs [''srv'', ''a.txt''] \<and> free_counter demo_fs [''srv''] ''a.txt'' 1 \<le> 6"
proof -
  have "path_exists demo_fs [''srv'', ''a.txt'']"
    using stat_link_free [OF demo_link_free [of "[''srv'', ''a.txt'']"]]
    by (simp add: path_exists_def plain_path_def plain_name_def lstat_def demo_fs_def)
  then show ?thesis using rename_search_terminates [of demo_fs "[''srv'']" "''a.txt''"] by (simp add: demo_fs_def)
qed

text \<open>The shared folder itself is not protected. An empty path names it: renaming it moves the folder
  with all its contents to a sibling, outside of what is served, and then fails; deleting it
  removes everything that is served.\<close>

lemma share_root_not_protected:
  assumes "link_free fs base" and "base \<noteq> []" and "lstat fs base = Some DirNode"
    and "validate_name new = Inr ()" and "new \<noteq> ''.''" and "\<not> path_exists fs (butlast base @ [new])"
  shows "fst (rename_path base [] new fs) = Inl FileValueError \<and>
    lstat (snd (rename_path base [] new fs)) (base @ s) = None \<and>
    lstat (snd (rename_path base [] new fs)) (butlast base @ new # s) = lstat fs (base @ s) \<and>
    fst (delete_paths base [[]] [] fs) = Inr [[]] \<and> lstat (snd (delete_paths base [[]] [] fs)) (base @ s) = None"
proof -
  let ?new = "butlast base @ [new]"
  have r: "resolve_safe_path base [] fs = Inr base" by (simp add: resolve_safe_path_def resolve_base_link_free [OF assms(1)])
  have "path_exists fs base" using assms(3) stat_link_free [OF assms(1)] by (simp add: path_exists_def)
  then have ne: "?new \<noteq> base" using assms(6) by auto
  have len: "length ?new = length base" using assms(2) by simp
  have inc: "\<not> prefix base ?new" "\<not> prefix ?new base" using ne len by (metis append_eq_conv_conj prefix_def take_all_iff order_refl)+
  have rn: "rename_path base [] new fs = (Inl FileValueError, move_tree base ?new fs)"
    using assms(4-6) inc by (simp add: rename_path_def r resolve_base_link_free [OF assms(1)] Let_def)
  have dl: "delete_paths base [[]] [] fs = (Inr [[]], rmtree base fs)"
    using assms(3) stat_link_free [OF assms(1)] by (simp add: r delete_resolved_def is_dir_def)
  show ?thesis
    using lstat_move_old [OF inc, of fs s] lstat_move_new [OF inc, of fs s] rn dl by (simp add: lstat_rmtree)
qed

lemma share_root_not_protected_witness:
  "lstat (snd (rename_path [''srv''] [] ''old'' demo_fs)) [''srv'', ''a.txt''] = None \<and>
   lstat (snd (rename_path [''srv''] [] ''old'' demo_fs)) [''old'', ''a.txt''] = Some (FileNode [1, 2])"
proof -
  have f: "link_free demo_fs [''srv'']" by (rule demo_link_free) (simp add: plain_path_def plain_name_def)
  have d: "lstat demo_fs [''srv''] = Some DirNode" by (simp add: lstat_def demo_fs_def)
  have n: "\<not> path_exists demo_fs (butlast [''srv''] @ [''old''])"
    using stat_link_free [OF demo_link_free [of "[''old'']"]]
    by (simp add: path_exists_def plain_path_def plain_name_def lstat_def demo_fs_def)
  have v: "validate_name ''old'' = Inr ()" by (simp add: validate_name_def sep_def nul_def)
  from share_root_not_protected [OF f _ d v _ n, of "[''a.txt'']"] show ?thesis by (simp add: lstat_def demo_fs_def)
qed

text \<open>Overwriting a file goes through its name with \<open>.tmp\<close> appended: a file that already has that name
  is lost.\<close>

lemma overwrite_loses_tmp_sibling:
  assumes "link_free fs d" and "lstat fs (d @ [n]) = Some (FileNode old)" and "plain_name n"
    and "lstat fs (d @ [temp_name n]) = Some (FileNode other)" and "lstat fs d = Some DirNode"
  shows "\<exists>r fs'. write_upload upload d n (Some OVERWRITE) fs = (Inr r, fs') \<and> up_name r = n \<and>
    lstat fs' (d @ [n]) = Some (FileNode upload) \<and> lstat fs' (d @ [temp_name n]) = None"
proof -
  let ?t = "d @ [temp_name n]" and ?p = "d @ [n]"
  have inc: "\<not> prefix ?t ?p" "\<not> prefix ?p ?t" by (simp_all add: prefix_def temp_name_eq)
  have "\<not> is_link fs ?p" "\<not> is_link fs ?t" using assms(2,4) by (simp_all add: is_link_def)
  then have "link_free fs ?p" and r: "realpath fs [] [] ?t = Some ?t"
    using assms(1,3) not_link_real temp_name_plain by (simp_all add: link_free_snoc)
  then have "path_exists fs ?p" using assms(2) by (simp add: path_exists_def stat_link_free)
  then have "write_upload upload d n (Some OVERWRITE) fs = (Inr \<lparr>up_name = n, up_size = Some (length upload), up_skipped = False\<rparr>,
      move_tree ?t ?p (AList.update ?t (FileNode upload) fs))"
    using r assms(2,4,5) by (simp add: write_upload_def write_upload_chunks_eq write_file_def os_replace_def lstat_update temp_name_eq)
  then show ?thesis
    using lstat_move_new [OF inc, of _ "[]"] lstat_move_old [OF inc, of _ "[]"] by (simp add: lstat_update)
qed

text \<open>The exception for links is real: an upload under the name of a dangling link that leads out of the
  folder creates the file it points to.\<close>

lemma upload_through_dangling_link:
  "lstat (snd (upload_file [''srv''] [] ''x'' [5] None (demo_fs @ [([''srv'', ''x''], LinkNode True [''out''])]))) [''out''] =
     Some (FileNode [5])"
  by (simp add: upload_file_def resolve_safe_path_def resolve_base_def validate_upload_filename_def nul_def sep_def
      py_startswith_def path_exists_def stat_def lstat_def demo_fs_def write_upload_def write_upload_chunks_def
      write_loop.simps UPLOAD_CHUNK_SIZE_def write_file_def)

end
