(* ===== verification/Relay_Ttl.thy ===== *)
theory Relay_Ttl
  imports Mount_Registry
begin

text \<open>
  The relay's two expiry mechanisms: the sweep over mounts (\<open>ttl_sweep.py\<close>) and the per-file expiry
  records with their sweep (\<open>file_ttl_db.py\<close>, \<open>file_ttl_sweep.py\<close>).

  A sweep reads a snapshot of the mounts and then works through it. What it does to the tunnels is
  recorded as a list of effects; \<open>send_fails\<close> says which tunnels raise when a control message is
  sent. An exception while one mount is processed is caught and leaves what was done before it.
  The drop box directory is a list of the paths that exist and of those that cannot be removed.
\<close>

section \<open>The mount sweep\<close>

datatype tunnel_effect = CloseTunnel conn_ref | TtlWarning conn_ref int

definition sweep_mount ::
  "(conn_ref \<Rightarrow> bool) \<Rightarrow> real \<Rightarrow> timestamp \<Rightarrow> MountRecord \<Rightarrow> registry \<times> tunnel_effect list \<Rightarrow>
   registry \<times> tunnel_effect list" where
  "sweep_mount send_fails warning_before now mount st = (case st of (reg, effs) \<Rightarrow>
     (case rec_expires_at mount of
        None \<Rightarrow> (reg, effs)
      | Some t \<Rightarrow>
          if rec_status mount \<noteq> ONLINE then (reg, effs)
          else let remaining = t - now in
            if remaining \<le> 0 then
              (case expire (rec_code mount) reg of
                 Inl e \<Rightarrow> (reg, effs)
               | Inr reg' \<Rightarrow> (reg', case rec_connection mount of
                   None \<Rightarrow> effs | Some k \<Rightarrow> effs @ [CloseTunnel k]))
            else if remaining \<le> warning_before \<and> \<not> rec_ttl_warned mount then
              (case rec_connection mount of
                 Some k \<Rightarrow>
                   if send_fails k then (reg, effs)
                   else (or_keep (mark_ttl_warned (rec_code mount) reg) reg,
                         effs @ [TtlWarning k (py_int remaining)])
               | None \<Rightarrow> (or_keep (mark_ttl_warned (rec_code mount) reg) reg, effs))
            else (reg, effs)))"

definition sweep_once ::
  "(conn_ref \<Rightarrow> bool) \<Rightarrow> real \<Rightarrow> timestamp \<Rightarrow> registry \<Rightarrow> registry \<times> tunnel_effect list" where
  "sweep_once send_fails warning_before now reg =
     (case fold (sweep_mount send_fails warning_before now) (active_mounts reg) (reg, []) of
        (reg', effs) \<Rightarrow> (delete_expired_before (now - 6 * 3600) reg', effs))"

section \<open>File expiry records\<close>

record file_ttl_row =
  ttl_id :: int
  ttl_mount :: str
  ttl_path :: str
  ttl_expires_at :: timestamp
  ttl_created_at :: timestamp

record file_ttl_db =
  ttl_rows :: "file_ttl_row list"
  ttl_seq :: int

definition ttl_key :: "file_ttl_row \<Rightarrow> str \<times> str" where
  "ttl_key r = (ttl_mount r, ttl_path r)"

definition init_table :: file_ttl_db where
  "init_table = \<lparr>ttl_rows = [], ttl_seq = 0\<rparr>"

definition record_file_ttl ::
  "str \<Rightarrow> str \<Rightarrow> int \<Rightarrow> timestamp \<Rightarrow> file_ttl_db \<Rightarrow> file_ttl_db" where
  "record_file_ttl mount path ttl_seconds now db =
     db\<lparr>ttl_rows := insert_or_replace ttl_key \<lparr>ttl_id = ttl_seq db + 1, ttl_mount = mount,
          ttl_path = path, ttl_expires_at = now + of_int ttl_seconds, ttl_created_at = now\<rparr> (ttl_rows db),
        ttl_seq := ttl_seq db + 1\<rparr>"

definition get_expired :: "timestamp \<Rightarrow> file_ttl_db \<Rightarrow> (str \<times> str \<times> timestamp) list" where
  "get_expired now db = map (\<lambda>r. (ttl_mount r, ttl_path r, ttl_expires_at r))
     (filter (\<lambda>r. ttl_expires_at r \<le> now) (ttl_rows db))"

definition get_expired_for_mount :: "str \<Rightarrow> timestamp \<Rightarrow> file_ttl_db \<Rightarrow> (str \<times> timestamp) list" where
  "get_expired_for_mount mount now db = map (\<lambda>r. (ttl_path r, ttl_expires_at r))
     (filter (\<lambda>r. ttl_mount r = mount \<and> ttl_expires_at r \<le> now) (ttl_rows db))"

definition delete_record :: "str \<Rightarrow> str \<Rightarrow> file_ttl_db \<Rightarrow> file_ttl_db" where
  "delete_record mount path db =
     db\<lparr>ttl_rows := delete_where (\<lambda>r. ttl_mount r = mount \<and> ttl_path r = path) (ttl_rows db)\<rparr>"

definition get_ttl_for_mount :: "str \<Rightarrow> file_ttl_db \<Rightarrow> (str \<times> timestamp) list" where
  "get_ttl_for_mount mount db =
     map (\<lambda>r. (ttl_path r, ttl_expires_at r)) (filter (\<lambda>r. ttl_mount r = mount) (ttl_rows db))"

definition delete_expired_for_mount :: "str \<Rightarrow> timestamp \<Rightarrow> file_ttl_db \<Rightarrow> str list \<times> file_ttl_db" where
  "delete_expired_for_mount mount now db =
     (let sel = (\<lambda>r. ttl_mount r = mount \<and> ttl_expires_at r \<le> now);
          paths = map ttl_path (filter sel (ttl_rows db))
      in (paths, if paths \<noteq> [] then db\<lparr>ttl_rows := delete_where sel (ttl_rows db)\<rparr> else db))"

section \<open>The file sweep\<close>

record dropbox_fs =
  fs_files :: "str list"
  fs_locked :: "str list"

definition sweep_file ::
  "str \<Rightarrow> str \<times> str \<times> timestamp \<Rightarrow> file_ttl_db \<times> dropbox_fs \<times> str list \<Rightarrow>
   file_ttl_db \<times> dropbox_fs \<times> str list" where
  "sweep_file dropbox_code row st = (case row of (mount_code, file_path, expiry) \<Rightarrow>
     (case st of (db, fs, deleted) \<Rightarrow>
       let full_path = py_lstrip_char (CHR ''/'') file_path;
           removed = (mount_code = dropbox_code \<and> full_path \<in> set (fs_files fs) \<and>
                      full_path \<notin> set (fs_locked fs))
       in (delete_record mount_code file_path db,
           if removed then fs\<lparr>fs_files := filter (\<lambda>p. p \<noteq> full_path) (fs_files fs)\<rparr> else fs,
           if removed then deleted @ [file_path] else deleted)))"

definition file_ttl_sweep_once ::
  "str \<Rightarrow> timestamp \<Rightarrow> file_ttl_db \<times> dropbox_fs \<Rightarrow> str list \<times> file_ttl_db \<times> dropbox_fs" where
  "file_ttl_sweep_once dropbox_code now st = (case st of (db, fs) \<Rightarrow>
     (case fold (sweep_file dropbox_code) (get_expired now db) (db, fs, []) of
        (db', fs', deleted) \<Rightarrow> (deleted, db', fs')))"

section \<open>Lemmas: the mount sweep\<close>

definition sweep_row :: "(conn_ref \<Rightarrow> bool) \<Rightarrow> real \<Rightarrow> timestamp \<Rightarrow> conn_ref option \<Rightarrow> mount_row \<Rightarrow> mount_row" where
  "sweep_row send_fails w now k m = (case expires_at m of
     None \<Rightarrow> m
   | Some t \<Rightarrow>
       if status m \<noteq> ONLINE then m
       else if t \<le> now then m\<lparr>status := EXPIRED\<rparr>
       else if t - now \<le> w \<and> \<not> ttl_warned m \<and> (\<forall>c. k = Some c \<longrightarrow> \<not> send_fails c)
       then m\<lparr>ttl_warned := True\<rparr> else m)"

definition swept :: "timestamp \<Rightarrow> mount_row \<Rightarrow> bool" where
  "swept now m \<longleftrightarrow> status m = ONLINE \<and> expired_at now m"

lemma mark_ttl_warned_find:
  assumes "find_mount c reg \<noteq> None"
  shows "find_mount c' (or_keep (mark_ttl_warned c reg) reg) =
    (if c' = c then map_option (\<lambda>m. m\<lparr>ttl_warned := True\<rparr>) (find_mount c' reg) else find_mount c' reg)"
    and "connections (or_keep (mark_ttl_warned c reg) reg) = connections reg"
  using assms by (simp_all add: mark_ttl_warned_def rowcount_mount or_keep_def find_mount_update)

lemma expire_find:
  assumes "find_mount c reg = Some m"
  obtains reg' where "expire c reg = Inr reg'"
    "\<And>c'. find_mount c' reg' = (if c' = c then Some (m\<lparr>status := EXPIRED\<rparr>) else find_mount c' reg)"
    "\<And>c'. map_of (connections reg') c' = (if c' = c then None else map_of (connections reg) c')"
  using assms by (simp add: expire_def reg_simps forget_live_def map_of_delete)

lemma sweep_mount_find:
  assumes "find_mount (mcode m) reg = Some m"
    and "sweep_mount sf w now (row_record reg0 m) (reg, effs) = (reg', effs')"
  shows "find_mount c reg' = (if c = mcode m
      then Some (sweep_row sf w now (map_of (connections reg0) (mcode m)) m) else find_mount c reg)"
    and "map_of (connections reg') c =
      (if c = mcode m \<and> swept now m then None else map_of (connections reg) c)"
    and "effs' = effs \<or> (\<exists>e. effs' = effs @ [e])"
    and "swept now m \<Longrightarrow> map_of (connections reg0) (mcode m) = Some k \<Longrightarrow> CloseTunnel k \<in> set effs'"
proof -
  obtain reg1 where e: "expire (mcode m) reg = Inr reg1"
    "\<And>c'. find_mount c' reg1 = (if c' = mcode m then Some (m\<lparr>status := EXPIRED\<rparr>) else find_mount c' reg)"
    "\<And>c'. map_of (connections reg1) c' = (if c' = mcode m then None else map_of (connections reg) c')"
    using expire_find [OF assms(1)] by metis
  have some: "find_mount (mcode m) reg \<noteq> None" using assms(1) by simp
  note w = mark_ttl_warned_find [OF some]
  show "find_mount c reg' = (if c = mcode m
      then Some (sweep_row sf w now (map_of (connections reg0) (mcode m)) m) else find_mount c reg)"
    "map_of (connections reg') c = (if c = mcode m \<and> swept now m then None else map_of (connections reg) c)"
    "effs' = effs \<or> (\<exists>e. effs' = effs @ [e])"
    "swept now m \<Longrightarrow> map_of (connections reg0) (mcode m) = Some k \<Longrightarrow> CloseTunnel k \<in> set effs'"
    using assms e w
    by (auto simp: sweep_mount_def row_record_def sweep_row_def swept_def expired_at_def Let_def
        split: option.splits if_splits)
qed

lemma sweep_fold:
  assumes "\<forall>m \<in> set ms. find_mount (mcode m) reg = Some m" and "distinct (map mcode ms)"
    and "fold (sweep_mount sf w now) (map (row_record reg0) ms) (reg, effs) = (reg', effs')"
  shows "find_mount c reg' = (case find_mount c reg of None \<Rightarrow> None
      | Some m \<Rightarrow> Some (if m \<in> set ms then sweep_row sf w now (map_of (connections reg0) c) m else m)) \<and>
    map_of (connections reg') c =
      (if \<exists>m \<in> set ms. mcode m = c \<and> swept now m then None else map_of (connections reg) c) \<and>
    set effs \<subseteq> set effs' \<and>
    (\<forall>m \<in> set ms. \<forall>k. swept now m \<and> map_of (connections reg0) (mcode m) = Some k \<longrightarrow>
      CloseTunnel k \<in> set effs')"
  using assms
proof (induction ms arbitrary: reg effs)
  case Nil
  then show ?case by (simp split: option.split)
next
  case (Cons m ms)
  obtain reg1 effs1 where s1: "sweep_mount sf w now (row_record reg0 m) (reg, effs) = (reg1, effs1)"
    by (cases "sweep_mount sf w now (row_record reg0 m) (reg, effs)")
  have fm: "find_mount (mcode m) reg = Some m" using Cons.prems(1) by simp
  note f = sweep_mount_find [OF fm s1]
  have "find_mount (mcode x) reg1 = Some x" if "x \<in> set ms" for x
  proof -
    have "mcode x \<noteq> mcode m" using that Cons.prems(2) by (auto simp: image_iff)
    then show ?thesis using f(1) [of "mcode x"] Cons.prems(1) that by simp
  qed
  then have ih: "find_mount c reg' = (case find_mount c reg1 of None \<Rightarrow> None
      | Some m \<Rightarrow> Some (if m \<in> set ms then sweep_row sf w now (map_of (connections reg0) c) m else m)) \<and>
    map_of (connections reg') c =
      (if \<exists>m \<in> set ms. mcode m = c \<and> swept now m then None else map_of (connections reg1) c) \<and>
    set effs1 \<subseteq> set effs' \<and>
    (\<forall>m \<in> set ms. \<forall>k. swept now m \<and> map_of (connections reg0) (mcode m) = Some k \<longrightarrow>
      CloseTunnel k \<in> set effs')"
    using Cons.IH [of reg1 effs1] Cons.prems(2,3) s1 by simp
  have code_row: "mcode (sweep_row sf w now k r) = mcode r" for k r
    by (simp add: sweep_row_def split: option.split)
  have fresh: "mcode m \<notin> mcode ` set ms" using Cons.prems(2) by simp
  have "find_mount c reg' = (case find_mount c reg of None \<Rightarrow> None
      | Some x \<Rightarrow> Some (if x \<in> set (m # ms) then sweep_row sf w now (map_of (connections reg0) c) x else x))"
  proof (cases "c = mcode m")
    case True
    have "sweep_row sf w now (map_of (connections reg0) c) m \<notin> set ms"
      using fresh code_row by (metis image_eqI)
    with True ih f(1) fm show ?thesis by simp
  next
    case False
    then have "find_mount c reg \<noteq> Some m" using find_mount_code [of c reg m] by auto
    with False ih f(1) show ?thesis by (auto split: option.split)
  qed
  moreover have "map_of (connections reg') c =
      (if \<exists>x \<in> set (m # ms). mcode x = c \<and> swept now x then None else map_of (connections reg) c)"
    using ih f(2) by auto
  moreover have "set effs \<subseteq> set effs1" using f(3) by auto
  moreover have "CloseTunnel k \<in> set effs1" if "swept now m" "map_of (connections reg0) (mcode m) = Some k" for k
    using f(4) that by blast
  ultimately show ?case using ih by auto
qed

lemma sweep_fold_ok:
  assumes "registry_ok (fst st)"
  shows "registry_ok (fst (fold (sweep_mount sf w now) rs st))"
proof -
  have step: "registry_ok (fst (sweep_mount sf w now r st))" if "registry_ok (fst st)" for r st
  proof -
    obtain g es where st: "st = (g, es)" by (cases st)
    have g: "registry_ok g" using that st by simp
    have "registry_ok (or_keep (mark_ttl_warned c g) g)" for c
      using registry_misc_ok(2) [OF g] g by (cases "mark_ttl_warned c g") (auto simp: or_keep_def)
    moreover have "registry_ok g'" if "expire c g = Inr g'" for c g'
      using expire_ok [OF g that] .
    ultimately show ?thesis
      using g unfolding st sweep_mount_def prod.case Let_def
      by (simp split: option.split sum.split)
  qed
  show ?thesis using assms
  proof (induction rs arbitrary: st)
    case (Cons r rs)
    then show ?case using step [of st r] by simp
  qed simp
qed

lemma sweep_once_eq:
  assumes "registry_ok reg" and "sweep_once sf w now reg = (reg', effs)"
  obtains reg1 where "reg' = delete_expired_before (now - 6 * 3600) reg1" "registry_ok reg1"
    "\<And>c. find_mount c reg1 = map_option (sweep_row sf w now (map_of (connections reg) c)) (find_mount c reg)"
    "\<And>c. map_of (connections reg1) c = (case find_mount c reg of
       None \<Rightarrow> map_of (connections reg) c
     | Some m \<Rightarrow> if swept now m then None else map_of (connections reg) c)"
    "\<And>c m k. find_mount c reg = Some m \<Longrightarrow> swept now m \<Longrightarrow> map_of (connections reg) c = Some k \<Longrightarrow>
      CloseTunnel k \<in> set effs"
proof -
  let ?ms = "filter (\<lambda>m. status m \<noteq> EXPIRED) (mounts reg)"
  have dist: "distinct (map mcode (mounts reg))" using assms(1) by (simp add: registry_ok_def)
  have find: "find_mount c reg = Some m \<longleftrightarrow> m \<in> set (mounts reg) \<and> mcode m = c" for c m
    unfolding find_mount_def using dist by (rule fetchone_key_iff)
  obtain reg1 where r: "fold (sweep_mount sf w now) (map (row_record reg) ?ms) (reg, []) = (reg1, effs)"
    "reg' = delete_expired_before (now - 6 * 3600) reg1"
    using assms(2) by (auto simp: sweep_once_def active_mounts_def split: prod.splits)
  have "\<forall>m \<in> set ?ms. find_mount (mcode m) reg = Some m" using find by auto
  note f = sweep_fold [OF this distinct_map_filter [OF dist] r(1)]
  have expired: "sweep_row sf w now k m = m" "\<not> swept now m" if "status m = EXPIRED" for k m
    using that by (auto simp: sweep_row_def swept_def split: option.split)
  have "registry_ok reg1"
    using sweep_fold_ok [of "(reg, [])" sf w now "map (row_record reg) ?ms"] assms(1) r(1) by simp
  then show thesis
  proof (rule that [OF r(2)])
    fix c
    show "find_mount c reg1 = map_option (sweep_row sf w now (map_of (connections reg) c)) (find_mount c reg)"
    proof (cases "find_mount c reg")
      case None
      then show ?thesis using f [of c] by simp
    next
      case (Some m)
      then have "m \<in> set (mounts reg)" using find by blast
      then show ?thesis using f [of c] Some expired(1) by (cases "status m = EXPIRED") auto
    qed
    show "map_of (connections reg1) c = (case find_mount c reg of
       None \<Rightarrow> map_of (connections reg) c
     | Some m \<Rightarrow> if swept now m then None else map_of (connections reg) c)"
    proof (cases "find_mount c reg")
      case None
      then have "\<not> (\<exists>x \<in> set ?ms. mcode x = c \<and> swept now x)" by (auto simp: find_mount_None)
      with None f [of c] show ?thesis by (auto simp del: set_filter)
    next
      case (Some m)
      have "(\<exists>x \<in> set ?ms. mcode x = c \<and> swept now x) \<longleftrightarrow> swept now m"
      proof
        assume "\<exists>x \<in> set ?ms. mcode x = c \<and> swept now x"
        then obtain x where "find_mount c reg = Some x" "swept now x" using find by auto
        with Some show "swept now m" by simp
      next
        assume "swept now m"
        moreover have "m \<in> set (mounts reg)" "mcode m = c" using Some find by blast+
        ultimately show "\<exists>x \<in> set ?ms. mcode x = c \<and> swept now x" by (auto simp: swept_def)
      qed
      with Some f [of c] show ?thesis by simp
    qed
    fix m k
    assume "find_mount c reg = Some m" "swept now m" "map_of (connections reg) c = Some k"
    then show "CloseTunnel k \<in> set effs" using f [of c] find expired(2) by auto
  qed
qed

lemma find_delete_expired:
  assumes "registry_ok reg" and "find_mount c reg = Some m"
  shows "find_mount c (delete_expired_before t reg) = (if expired_before t m then None else Some m)"
proof -
  have dist: "distinct (map mcode (mounts reg))" using assms(1) by (simp add: registry_ok_def)
  have m: "m \<in> set (mounts reg)" "mcode m = c" using assms(2) find_mount_code by auto
  have uniq: "x = m" if "x \<in> set (mounts reg)" "mcode x = c" for x
    using that m dist by (metis distinct_map inj_onD)
  show ?thesis
  proof (cases "expired_before t m")
    case True
    then have "c \<notin> mcode ` set (mounts (delete_expired_before t reg))"
      using uniq by (auto simp: delete_expired_before_def table_simps)
    with True show ?thesis by (simp add: find_mount_None)
  next
    case False
    then have "m \<in> set (mounts (delete_expired_before t reg))"
      using m(1) by (simp add: delete_expired_before_def table_simps)
    moreover have "distinct (map mcode (mounts (delete_expired_before t reg)))"
      using dist by (auto simp: delete_expired_before_def intro: key_intros)
    ultimately show ?thesis using False m(2) unfolding find_mount_def by (simp add: fetchone_key_iff)
  qed
qed

lemma delete_expired_before_conn: "connections (delete_expired_before t reg) = connections reg"
  by (simp add: delete_expired_before_def)

section \<open>Lemmas: the file sweep\<close>

abbreviation dropbox_path :: "str \<Rightarrow> str" where
  "dropbox_path p \<equiv> py_lstrip_char (CHR ''/'') p"

definition targets :: "str \<Rightarrow> (str \<times> str \<times> timestamp) list \<Rightarrow> str set" where
  "targets dropbox_code rows = {dropbox_path p | p e. (dropbox_code, p, e) \<in> set rows}"

lemma targets_Cons:
  "targets dc ((m, p, e) # rows) = (if m = dc then insert (dropbox_path p) (targets dc rows) else targets dc rows)"
  by (auto simp: targets_def)

lemma sweep_files_fold:
  assumes "fold (sweep_file dc) rows (db, fs, del) = (db', fs', del')"
  shows "set (ttl_rows db') = {r \<in> set (ttl_rows db). \<forall>e. (ttl_mount r, ttl_path r, e) \<notin> set rows} \<and>
    fs_locked fs' = fs_locked fs \<and>
    set (fs_files fs') = {f \<in> set (fs_files fs). f \<in> set (fs_locked fs) \<or> f \<notin> targets dc rows}"
  using assms
proof (induction rows arbitrary: db fs del)
  case Nil
  then show ?case by (auto simp: targets_def)
next
  case (Cons row rows)
  obtain m p e where row: "row = (m, p, e)" by (cases row)
  obtain db1 fs1 del1 where s: "sweep_file dc row (db, fs, del) = (db1, fs1, del1)"
    by (cases "sweep_file dc row (db, fs, del)")
  have ih: "set (ttl_rows db') = {r \<in> set (ttl_rows db1). \<forall>e. (ttl_mount r, ttl_path r, e) \<notin> set rows}"
    "fs_locked fs' = fs_locked fs1"
    "set (fs_files fs') = {f \<in> set (fs_files fs1). f \<in> set (fs_locked fs1) \<or> f \<notin> targets dc rows}"
    using Cons.IH [of db1 fs1 del1] Cons.prems s by simp_all
  have rows1: "set (ttl_rows db1) = {r \<in> set (ttl_rows db). \<not> (ttl_mount r = m \<and> ttl_path r = p)}"
    using s by (auto simp: row sweep_file_def Let_def delete_record_def table_simps)
  have fs1: "fs_locked fs1 = fs_locked fs"
    "set (fs_files fs1) = {f \<in> set (fs_files fs). f \<in> set (fs_locked fs) \<or> m \<noteq> dc \<or> f \<noteq> dropbox_path p}"
    using s by (auto simp: row sweep_file_def Let_def split: if_splits)
  show ?case unfolding ih rows1 fs1 row targets_Cons by auto
qed

section \<open>Properties\<close>

text \<open>After a sweep no mount that was online is online past its expiry: it is expired or already
  deleted, its tunnel has been closed and is no longer recorded. A live mount that has not expired
  keeps its connection. A mount that was offline is left exactly as it was, expired or not.\<close>

lemma sweep_expires:
  assumes "registry_ok reg" and "sweep_once send_fails warning_before now reg = (reg', effs)"
    and "find_mount c reg = Some m"
  shows "(status m = ONLINE \<and> expired_at now m \<longrightarrow>
      (\<forall>dead. get_connection dead c reg' = Inl (MountExpiredError c) \<or>
        get_connection dead c reg' = Inl (MountNotFoundError c)) \<and>
      (\<forall>k. map_of (connections reg) c = Some k \<longrightarrow> CloseTunnel k \<in> set effs)) \<and>
    (status m = ONLINE \<and> \<not> expired_at now m \<longrightarrow>
      (\<forall>dead. get_connection dead c reg' = get_connection dead c reg)) \<and>
    (status m = OFFLINE \<longrightarrow> find_mount c reg' = Some m)"
proof -
  obtain reg1 where r: "reg' = delete_expired_before (now - 6 * 3600) reg1"
    and ok: "registry_ok reg1" and r': "\<And>c. find_mount c reg1 = map_option (sweep_row send_fails warning_before now (map_of (connections reg) c)) (find_mount c reg)"
    "\<And>c. map_of (connections reg1) c = (case find_mount c reg of
       None \<Rightarrow> map_of (connections reg) c
     | Some m \<Rightarrow> if swept now m then None else map_of (connections reg) c)"
    "\<And>c m k. find_mount c reg = Some m \<Longrightarrow> swept now m \<Longrightarrow> map_of (connections reg) c = Some k \<Longrightarrow>
      CloseTunnel k \<in> set effs"
    using sweep_once_eq [OF assms(1,2)] by metis
  let ?m = "sweep_row send_fails warning_before now (map_of (connections reg) c) m"
  have m1: "find_mount c reg1 = Some ?m" using r'(1) assms(3) by simp
  have st: "status ?m = (if swept now m then EXPIRED else status m)"
    by (auto simp: sweep_row_def swept_def expired_at_def split: option.split)
  have c1: "map_of (connections reg') c = (if swept now m then None else map_of (connections reg) c)"
    using r r'(2) assms(3) by (simp add: delete_expired_before_conn)
  have gone: "find_mount c reg' = Some ?m \<or> find_mount c reg' = None"
    using find_delete_expired [OF ok m1] r by simp
  show ?thesis
  proof (intro conjI impI allI)
    fix dead
    assume "status m = ONLINE \<and> expired_at now m"
    then have "status ?m = EXPIRED" using st by (simp add: swept_def)
    then show "get_connection dead c reg' = Inl (MountExpiredError c) \<or>
        get_connection dead c reg' = Inl (MountNotFoundError c)"
      using gone by (auto simp: get_connection_def)
  next
    fix k
    assume "status m = ONLINE \<and> expired_at now m" "map_of (connections reg) c = Some k"
    then show "CloseTunnel k \<in> set effs" using r'(3) assms(3) by (simp add: swept_def)
  next
    fix dead
    assume on: "status m = ONLINE \<and> \<not> expired_at now m"
    then have ns: "\<not> swept now m" by (simp add: swept_def)
    have "find_mount c reg' = Some ?m"
      using find_delete_expired [OF ok m1] st ns on r by (simp add: expired_before_def)
    then show "get_connection dead c reg' = get_connection dead c reg"
      using assms(3) st ns c1 by (simp add: get_connection_def)
  next
    assume off: "status m = OFFLINE"
    then have "?m = m" by (simp add: sweep_row_def split: option.split)
    then show "find_mount c reg' = Some m"
      using find_delete_expired [OF ok m1] off r by (simp add: expired_before_def)
  qed
qed

lemma sweep_expires_witness:
  "\<exists>reg' effs. sweep_once (\<lambda>_. False) 300 100 demo_registry = (reg', effs) \<and> CloseTunnel 1 \<in> set effs"
proof -
  obtain reg' effs where s: "sweep_once (\<lambda>_. False) 300 100 demo_registry = (reg', effs)"
    by (cases "sweep_once (\<lambda>_. False) 300 100 demo_registry")
  obtain m where m: "find_mount ''a'' demo_registry = Some m" "status m = ONLINE" "expired_at 100 m"
    "map_of (connections demo_registry) ''a'' = Some 1"
    by (simp add: find_mount_def fetchone_def demo_registry_eq expired_at_def)
  from sweep_expires [OF demo_registry_ok s m(1)] m s show ?thesis by blast
qed

text \<open>A file sweep clears exactly the records that have expired, removes every drop box file that
  has an expired record and can be removed, and touches no other file. The record of a file that
  could not be removed is cleared as well, so that file is never tried again.\<close>

lemma file_sweep_spec:
  assumes "file_ttl_sweep_once dropbox_code now (db, fs) = (deleted, db', fs')"
    and "distinct (map ttl_key (ttl_rows db))"
  shows "set (ttl_rows db') = {r \<in> set (ttl_rows db). now < ttl_expires_at r} \<and>
    set (fs_files fs') = {f \<in> set (fs_files fs). f \<in> set (fs_locked fs) \<or>
      \<not> (\<exists>r \<in> set (ttl_rows db). ttl_mount r = dropbox_code \<and> ttl_expires_at r \<le> now \<and>
           dropbox_path (ttl_path r) = f)}"
proof -
  have f: "fold (sweep_file dropbox_code) (get_expired now db) (db, fs, []) = (db', fs', deleted)"
    using assms(1) by (auto simp: file_ttl_sweep_once_def split: prod.splits)
  have key: "(ttl_mount r, ttl_path r, e) \<in> set (get_expired now db) \<longleftrightarrow> ttl_expires_at r \<le> now \<and> e = ttl_expires_at r"
    if "r \<in> set (ttl_rows db)" for r e
  proof
    assume "(ttl_mount r, ttl_path r, e) \<in> set (get_expired now db)"
    then obtain r' where r': "r' \<in> set (ttl_rows db)" "ttl_key r' = ttl_key r" "ttl_expires_at r' \<le> now"
      "e = ttl_expires_at r'"
      by (auto simp: get_expired_def ttl_key_def)
    moreover have "r' = r" using r' that assms(2) by (metis distinct_map inj_onD)
    ultimately show "ttl_expires_at r \<le> now \<and> e = ttl_expires_at r" by simp
  qed (use that in \<open>auto simp: get_expired_def\<close>)
  have "targets dropbox_code (get_expired now db) = dropbox_path ` ttl_path `
      {r \<in> set (ttl_rows db). ttl_mount r = dropbox_code \<and> ttl_expires_at r \<le> now}"
    by (auto simp: targets_def get_expired_def)
  with sweep_files_fold [OF f] key show ?thesis by (auto simp: not_le)
qed

lemma file_sweep_spec_witness:
  "\<exists>deleted db' fs'. file_ttl_sweep_once ''dbx'' 10 (record_file_ttl ''dbx'' ''/a'' 5 0 init_table,
       \<lparr>fs_files = [''a'', ''b''], fs_locked = []\<rparr>) = (deleted, db', fs') \<and> set (fs_files fs') = {''b''}"
proof -
  let ?db = "record_file_ttl ''dbx'' ''/a'' 5 0 init_table" and ?fs = "\<lparr>fs_files = [''a'', ''b''], fs_locked = []\<rparr>"
  have rows: "ttl_rows ?db = [\<lparr>ttl_id = 1, ttl_mount = ''dbx'', ttl_path = ''/a'', ttl_expires_at = 5, ttl_created_at = 0\<rparr>]"
    by (simp add: record_file_ttl_def init_table_def insert_or_replace_def delete_where_def)
  obtain d db' fs' where s: "file_ttl_sweep_once ''dbx'' 10 (?db, ?fs) = (d, db', fs')"
    by (cases "file_ttl_sweep_once ''dbx'' 10 (?db, ?fs)")
  have "set (fs_files fs') = {f \<in> {''a'', ''b''}. f \<noteq> ''a''}"
    using file_sweep_spec [OF s] by (auto simp: rows py_lstrip_char_def)
  with s show ?thesis by auto
qed

end
