(* ===== verification/Server_Routes.thy ===== *)
theory Server_Routes
  imports Devices File_Service Relay_Ttl
begin

text \<open>
  The HTTP handlers of the server: \<open>server/app/routers/files.py\<close>, \<open>share_target.py\<close>, \<open>clipboard.py\<close>,
  \<open>file_requests.py\<close>, \<open>share.py\<close> and \<open>auth.py\<close>, over the services they call, and the status codes of
  \<open>server/app/error_handlers.py\<close>.

  A handler runs the guards of its route, then its body; it returns its result or the exception that
  leaves it, with the state it leaves behind. What all handlers of one request see (the key of the
  identity signature, the configuration, which sockets work, the clock) is the record \<open>app_env\<close>;
  \<open>get\<close> is the lookup of a request header. Replies carry the data of the response body; dates are
  timestamps. The MIME type of a preview is a function given as an argument.
\<close>

section \<open>The application\<close>

record app_env =
  env_mac :: mac_fn
  env_cfg :: server_config
  env_works :: "ws_ref \<Rightarrow> bool"
  env_now :: timestamp

record app_state =
  app_fs :: fs
  app_share :: share_service
  app_hub :: hub
  app_ttl :: "file_ttl_db option"

datatype route_exn =
    RGuard guard_exn
  | RSig sig_exn
  | RFile file_exn
  | RStore store_exn
  | RSend send_exn
  | RValueError
  | RNotAFile

type_synonym 'a reply = "(route_exn, 'a) result \<times> app_state"

definition app_store :: "app_state \<Rightarrow> server_state" where
  "app_store app = link_store (app_share app)"

definition set_store :: "server_state \<Rightarrow> app_state \<Rightarrow> app_state" where
  "set_store s app = app\<lparr>app_share := (app_share app)\<lparr>link_store := s\<rparr>\<rparr>"

definition shared_folder :: "app_env \<Rightarrow> path" where
  "shared_folder env = filter (\<lambda>n. n \<noteq> []) (py_split sep (cfg_shared_folder (env_cfg env)))"

definition guarded :: "app_env \<Rightarrow> lookup \<Rightarrow> route \<Rightarrow> app_state \<Rightarrow> 'a reply \<Rightarrow> 'a reply" where
  "guarded env get r app body = (case run_guards (env_mac env) (env_cfg env) get (route_guards r) of
     Inl e \<Rightarrow> (Inl (RGuard e), app) | Inr _ \<Rightarrow> body)"

definition on_fs :: "app_state \<Rightarrow> (file_exn, 'a) result \<times> fs \<Rightarrow> 'a reply" where
  "on_fs app r = (map_sum RFile id (fst r), app\<lparr>app_fs := snd r\<rparr>)"

definition notify :: "app_env \<Rightarrow> ws_msg \<Rightarrow> str option \<Rightarrow> app_state \<Rightarrow> app_state" where
  "notify env msg exclude app = app\<lparr>app_hub := broadcast_gen (env_works env) msg exclude (app_hub app)\<rparr>"

section \<open>Status codes (error_handlers.py)\<close>

text \<open>Exceptions without a handler end as 500. \<open>OsFileNotFound\<close> is the built-in \<open>FileNotFoundError\<close>.\<close>

fun file_status :: "file_exn \<Rightarrow> nat" where
  "file_status (PathTraversalError p) = 403"
| "file_status (FileNotFoundError p) = 404"
| "file_status (FileConflictError p) = 409"
| "file_status (InvalidFileNameError n) = 400"
| "file_status InvalidFileRequestError = 400"
| "file_status FileValueError = 500"
| "file_status (OsFailure e) = (if e = OsFileNotFound then 404 else 500)"

fun store_status :: "store_exn \<Rightarrow> nat" where
  "store_status (SnippetNotFoundError k) = 404"
| "store_status (SnippetValidationError r) = 400"
| "store_status (ShareLinkNotFoundError t) = 404"
| "store_status _ = 500"

fun error_status :: "route_exn \<Rightarrow> nat" where
  "error_status (RGuard ReadOnlyError) = 403"
| "error_status (RGuard ReceiveDenied) = 403"
| "error_status (RGuard (GuardSignature e)) = 500"
| "error_status (RFile e) = file_status e"
| "error_status (RStore e) = store_status e"
| "error_status _ = 500"

section \<open>Files (routers/files.py)\<close>

definition rel_key :: "str \<Rightarrow> str \<Rightarrow> str" where
  "rel_key path name = (if path \<noteq> [] then py_lstrip_char sep (path @ sep # name) else name)"

definition scope_user :: "app_env \<Rightarrow> lookup \<Rightarrow> (route_exn, str option) result" where
  "scope_user env get = map_sum RSig id (receive_scope_user (env_mac env) (env_cfg env) get)"

fun check_owned :: "str \<Rightarrow> str list \<Rightarrow> server_state \<Rightarrow> (route_exn, unit) result" where
  "check_owned user [] s = Inr ()"
| "check_owned user (p # ps) s = res_bind (map_sum RStore id (is_owned_by p user s)) (\<lambda>owned.
     if owned then check_owned user ps s else Inl (RFile (FileNotFoundError ''Not found'')))"

definition scope_check :: "app_env \<Rightarrow> lookup \<Rightarrow> str list \<Rightarrow> app_state \<Rightarrow> (route_exn, unit) result" where
  "scope_check env get paths app = res_bind (scope_user env get) (\<lambda>scope.
     case scope of None \<Rightarrow> Inr () | Some user \<Rightarrow> check_owned user paths (app_store app))"

definition entry_expiry :: "server_config \<Rightarrow> app_state \<Rightarrow> str \<Rightarrow> FileEntry \<Rightarrow> timestamp option" where
  "entry_expiry cfg app path entry = (case (cfg_mount_code cfg, app_ttl app) of
     (Some code, Some db) \<Rightarrow> map_of (rev (get_ttl_for_mount code db)) (rel_key path (entry_name entry))
   | _ \<Rightarrow> None)"

definition get_files :: "app_env \<Rightarrow> lookup \<Rightarrow> str \<Rightarrow> app_state \<Rightarrow> (FileEntry \<times> timestamp option) list reply" where
  "get_files env get path app = guarded env get (Files GetFiles) app
     (res_bind (map_sum RFile id (list_directory (shared_folder env) path (app_fs app))) (\<lambda>listing.
        res_bind (scope_user env get) (\<lambda>scope.
          let entries = (case scope of None \<Rightarrow> listing
             | Some user \<Rightarrow> filter (\<lambda>e. \<not> entry_is_dir e \<and>
                 rel_key path (entry_name e) \<in> owned_paths user (app_store app)) listing)
          in Inr (map (\<lambda>e. (e, entry_expiry (env_cfg env) app path e)) entries))), app)"

fun upload_all ::
  "path \<Rightarrow> str \<Rightarrow> ConflictResolution option \<Rightarrow> (str \<times> bytes) list \<Rightarrow> fs \<Rightarrow> (file_exn, UploadResult list) result \<times> fs" where
  "upload_all base path resolution [] fs = (Inr [], fs)"
| "upload_all base path resolution ((name, content) # files) fs =
     (case upload_file base path name content resolution fs of
        (Inl e, fs1) \<Rightarrow> (Inl e, fs1)
      | (Inr r, fs1) \<Rightarrow>
          (case upload_all base path resolution files fs1 of
             (Inl e, fs2) \<Rightarrow> (Inl e, fs2)
           | (Inr rs, fs2) \<Rightarrow> (Inr (r # rs), fs2)))"

fun record_owners :: "str \<Rightarrow> str \<Rightarrow> UploadResult list \<Rightarrow> server_state \<Rightarrow> (store_exn, unit) result \<times> server_state" where
  "record_owners path uploader [] s = (Inr (), s)"
| "record_owners path uploader (r # rs) s =
     (if up_name r = [] then record_owners path uploader rs s
      else (case record_upload (rel_key path (up_name r)) uploader s of
          Inl e \<Rightarrow> (Inl e, s)
        | Inr s' \<Rightarrow> record_owners path uploader rs s'))"

definition record_ttls ::
  "server_config \<Rightarrow> int option \<Rightarrow> str \<Rightarrow> UploadResult list \<Rightarrow> timestamp \<Rightarrow> file_ttl_db option \<Rightarrow> file_ttl_db option" where
  "record_ttls cfg ttl path results now ttl_provider =
     (let effective_ttl = (case ttl of Some t \<Rightarrow> t | None \<Rightarrow> 86400) in
      case (cfg_mount_code cfg, ttl_provider) of
        (Some code, Some db) \<Rightarrow>
          if effective_ttl > 0 then
            Some (fold (\<lambda>r db. if up_name r = [] then db
              else record_file_ttl code (rel_key path (up_name r)) effective_ttl now db) results db)
          else ttl_provider
      | _ \<Rightarrow> ttl_provider)"

definition upload_toast :: "nat \<Rightarrow> str option \<Rightarrow> timestamp \<Rightarrow> ws_msg" where
  "upload_toast count x_device_name now =
     (let name = (case x_device_name of Some n \<Rightarrow> n | None \<Rightarrow> ''Someone'') in
      Toast FILE_UPLOADED (nat_digits count @ '' '' @ (if count = 1 then ''file'' else ''files'') @ '' uploaded by '' @ name)
        name now NoExtra)"

definition upload_files ::
  "app_env \<Rightarrow> lookup \<Rightarrow> (str \<times> bytes) list \<Rightarrow> str \<Rightarrow> ConflictResolution option \<Rightarrow> int option \<Rightarrow> str option \<Rightarrow> str option \<Rightarrow>
     app_state \<Rightarrow> UploadResult list reply" where
  "upload_files env get files path resolution ttl x_device_id x_device_name app = guarded env get (Files UploadFiles) app
     (case upload_all (shared_folder env) path resolution files (app_fs app) of
        (Inl e, fs) \<Rightarrow> (Inl (RFile e), app\<lparr>app_fs := fs\<rparr>)
      | (Inr results, fs) \<Rightarrow>
          (let app1 = app\<lparr>app_fs := fs\<rparr> in
           case trusted_user (env_mac env) (env_cfg env) get of
             Inl e \<Rightarrow> (Inl (RSig e), app1)
           | Inr uploader \<Rightarrow>
               (case (case uploader of None \<Rightarrow> (Inr (), app_store app1)
                   | Some u \<Rightarrow> record_owners path u results (app_store app1)) of
                  (Inl e, s) \<Rightarrow> (Inl (RStore e), set_store s app1)
                | (Inr _, s) \<Rightarrow>
                    (let app2 = (set_store s app1)\<lparr>app_ttl :=
                           record_ttls (env_cfg env) ttl path results (env_now env) (app_ttl app1)\<rparr>
                     in (Inr results, notify env (upload_toast (length results) x_device_name (env_now env)) x_device_id app2)))))"

definition content_disposition :: "str \<Rightarrow> path \<Rightarrow> str" where
  "content_disposition kind file_path = kind @ ''; filename*=UTF-8'' @ [CHR 39, CHR 39] @ quote (last file_path)"

definition download_single_file :: "app_env \<Rightarrow> lookup \<Rightarrow> str \<Rightarrow> app_state \<Rightarrow> (path \<times> str) reply" where
  "download_single_file env get path app = guarded env get (Files DownloadSingleFile) app
     (res_bind (scope_check env get [path] app) (\<lambda>_.
        res_bind (map_sum RFile id (download_file (shared_folder env) path (app_fs app))) (\<lambda>file_path.
          Inr (file_path, content_disposition ''attachment'' file_path))), app)"

definition download_zip :: "app_env \<Rightarrow> lookup \<Rightarrow> str list \<Rightarrow> app_state \<Rightarrow> (path \<times> str) list reply" where
  "download_zip env get paths app = guarded env get (Files DownloadZip) app
     (res_bind (scope_check env get paths app) (\<lambda>_.
        map_sum RFile id (download_as_zip (shared_folder env) paths (app_fs app))), app)"

definition rename_file :: "app_env \<Rightarrow> lookup \<Rightarrow> str \<Rightarrow> str \<Rightarrow> app_state \<Rightarrow> str reply" where
  "rename_file env get path new_name app = guarded env get (Files RenameFile) app
     (on_fs app (rename_path (shared_folder env) path new_name (app_fs app)))"

definition delete_files :: "app_env \<Rightarrow> lookup \<Rightarrow> str list \<Rightarrow> app_state \<Rightarrow> str list reply" where
  "delete_files env get paths app = guarded env get (Files DeleteFiles) app
     (on_fs app (delete_paths (shared_folder env) paths [] (app_fs app)))"

definition create_new_folder :: "app_env \<Rightarrow> lookup \<Rightarrow> str \<Rightarrow> str \<Rightarrow> app_state \<Rightarrow> str reply" where
  "create_new_folder env get parent_path name app = guarded env get (Files CreateNewFolder) app
     (on_fs app (create_folder (shared_folder env) parent_path name (app_fs app)))"

definition search_files_endpoint :: "app_env \<Rightarrow> lookup \<Rightarrow> str \<Rightarrow> str \<Rightarrow> app_state \<Rightarrow> FileEntry list reply" where
  "search_files_endpoint env get q path app = guarded env get (Files SearchFiles) app
     (res_bind (scope_user env get) (\<lambda>scope. case scope of
        Some user \<Rightarrow> Inr []
      | None \<Rightarrow> map_sum RFile id (search_files (shared_folder env) path q (app_fs app))), app)"

definition preview_file :: "(str \<Rightarrow> str option) \<Rightarrow> app_env \<Rightarrow> lookup \<Rightarrow> str \<Rightarrow> app_state \<Rightarrow> (path \<times> str \<times> str) reply" where
  "preview_file guess_type env get path app = guarded env get (Files PreviewFile) app
     (res_bind (scope_check env get [path] app) (\<lambda>_.
        res_bind (map_sum RFile id (download_file (shared_folder env) path (app_fs app))) (\<lambda>file_path.
          let mime_type = (case guess_type (last file_path) of None \<Rightarrow> ''application/octet-stream'' | Some m \<Rightarrow> m)
          in Inr (file_path, mime_type, content_disposition ''inline'' file_path))), app)"

text \<open>The share sheet (\<open>routers/share_target.py\<close>): uploads to the root, renaming on conflict; the reply is
  the redirect's target.\<close>

definition share_upload :: "app_env \<Rightarrow> lookup \<Rightarrow> (str \<times> bytes) list \<Rightarrow> app_state \<Rightarrow> str reply" where
  "share_upload env get files app = guarded env get ShareUpload app
     (if files = [] then (Inl RValueError, app)
      else on_fs app (case upload_all (shared_folder env) [] (Some RENAME) files (app_fs app) of
          (Inl e, fs) \<Rightarrow> (Inl e, fs) | (Inr rs, fs) \<Rightarrow> (Inr ''../'', fs)))"

section \<open>Clipboard (routers/clipboard.py)\<close>

definition list_snippets_route :: "app_env \<Rightarrow> lookup \<Rightarrow> app_state \<Rightarrow> ClipboardRow list reply" where
  "list_snippets_route env get app = guarded env get (Clipboard ListSnippets) app
     (Inr (list_clipboard_snippets (app_store app)), app)"

definition create_snippet_route :: "app_env \<Rightarrow> lookup \<Rightarrow> str \<Rightarrow> str \<Rightarrow> app_state \<Rightarrow> ClipboardRow reply" where
  "create_snippet_route env get new_id title app = guarded env get (Clipboard CreateSnippet) app
     (case create_snippet new_id title (env_now env) (app_store app) of
        Inl e \<Rightarrow> (Inl (RStore e), app)
      | Inr (snippet, s) \<Rightarrow> (Inr snippet, notify env (SnippetCreated snippet) None (set_store s app)))"

definition update_title_route :: "app_env \<Rightarrow> lookup \<Rightarrow> str \<Rightarrow> str \<Rightarrow> app_state \<Rightarrow> ClipboardRow reply" where
  "update_title_route env get snippet_id title app = guarded env get (Clipboard UpdateSnippetTitle) app
     (case update_title snippet_id title (env_now env) (app_store app) of
        Inl e \<Rightarrow> (Inl (RStore e), app)
      | Inr (snippet, s) \<Rightarrow> (Inr snippet, notify env (SnippetUpdated snippet) None (set_store s app)))"

definition delete_snippet_route :: "app_env \<Rightarrow> lookup \<Rightarrow> str \<Rightarrow> app_state \<Rightarrow> unit reply" where
  "delete_snippet_route env get snippet_id app = guarded env get (Clipboard DeleteSnippet) app
     (case delete_snippet snippet_id (app_store app) of
        Inl e \<Rightarrow> (Inl (RStore e), app)
      | Inr s \<Rightarrow> (Inr (), notify env (SnippetDeleted snippet_id) None (set_store s app)))"

section \<open>File requests (routers/file_requests.py)\<close>

definition list_requests_route :: "app_env \<Rightarrow> lookup \<Rightarrow> app_state \<Rightarrow> FileRequestRow list reply" where
  "list_requests_route env get app = guarded env get (Requests ListFileRequests) app
     (Inr (list_file_requests (app_store app)), app)"

definition create_request_route :: "app_env \<Rightarrow> lookup \<Rightarrow> str \<Rightarrow> str \<Rightarrow> str \<Rightarrow> str \<Rightarrow> app_state \<Rightarrow> FileRequestRow reply" where
  "create_request_route env get new_id description x_device_id x_device_name app = guarded env get (Requests CreateFileRequest) app
     (case create_file_request new_id description x_device_id x_device_name (env_now env) (app_store app) of
        Inl e \<Rightarrow> (Inl (RStore e), app)
      | Inr (request, s) \<Rightarrow>
          (Inr request,
           notify env (Toast TOAST_REQUEST_CREATED (x_device_name @ '' is requesting: '' @ fr_description request) x_device_name
               (env_now env) NoExtra) (Some x_device_id)
             (notify env (RequestCreated request) (Some x_device_id) (set_store s app))))"

text \<open>The file is uploaded before the request is looked up.\<close>

definition fulfill_request_route :: "app_env \<Rightarrow> lookup \<Rightarrow> str \<Rightarrow> str \<Rightarrow> bytes \<Rightarrow> str \<Rightarrow> app_state \<Rightarrow> FileRequestRow reply" where
  "fulfill_request_route env get request_id file_name content x_device_name app =
     guarded env get (Requests FulfillFileRequest) app
     (case upload_file (shared_folder env) [] file_name content None (app_fs app) of
        (Inl e, fs) \<Rightarrow> (Inl (RFile e), app\<lparr>app_fs := fs\<rparr>)
      | (Inr r, fs) \<Rightarrow>
          (let app1 = app\<lparr>app_fs := fs\<rparr> in
           case fulfill_request request_id x_device_name (up_name r) (up_name r) (env_now env) (app_store app1) of
             Inl e \<Rightarrow> (Inl (RStore e), app1)
           | Inr (fulfilled, s) \<Rightarrow>
               (let app2 = notify env (RequestFulfilled fulfilled) None (set_store s app1);
                    toast = Toast TOAST_REQUEST_FULFILLED (x_device_name @ '' fulfilled your request with '' @ up_name r)
                      x_device_name (env_now env) NoExtra
                in case send_to (env_works env) (fr_requester_device_id fulfilled) toast (app_hub app2) of
                     Inr h \<Rightarrow> (Inr fulfilled, app2\<lparr>app_hub := h\<rparr>)
                   | Inl SendKeyError \<Rightarrow> (Inr fulfilled, app2)
                   | Inl SendFailed \<Rightarrow> (Inl (RSend SendFailed), app2))))"

definition dismiss_request_route :: "app_env \<Rightarrow> lookup \<Rightarrow> str \<Rightarrow> str \<Rightarrow> app_state \<Rightarrow> unit reply" where
  "dismiss_request_route env get request_id x_device_id app = guarded env get (Requests DismissFileRequest) app
     (case dismiss_request request_id x_device_id (app_store app) of
        Inl e \<Rightarrow> (Inl (RStore e), app)
      | Inr s \<Rightarrow> (Inr (), notify env (RequestDismissed request_id) None (set_store s app)))"

section \<open>Share links (routers/share.py)\<close>

definition create_share_link :: "share_dumps \<Rightarrow> app_env \<Rightarrow> lookup \<Rightarrow> str \<Rightarrow> ShareTTL \<Rightarrow> app_state \<Rightarrow> ShareLinkRow reply" where
  "create_share_link dumps env get file_path ttl app = guarded env get (Share CreateShareLink) app
     (case resolve_safe_path (shared_folder env) file_path (app_fs app) of
        Inl e \<Rightarrow> (Inl (RFile e), app)
      | Inr _ \<Rightarrow> (case create_link dumps file_path ttl (env_now env) (app_share app) of
          (rec, svc) \<Rightarrow> (Inr rec, app\<lparr>app_share := svc\<rparr>)))"

definition list_share_links_route :: "share_loads \<Rightarrow> app_env \<Rightarrow> lookup \<Rightarrow> app_state \<Rightarrow> ShareLinkRow list reply" where
  "list_share_links_route loads env get app = guarded env get (Share ListShareLinks) app
     (case list_active_links loads (env_now env) (app_share app) of (recs, svc) \<Rightarrow> (Inr recs, app\<lparr>app_share := svc\<rparr>))"

definition revoke_share_link :: "app_env \<Rightarrow> lookup \<Rightarrow> str \<Rightarrow> app_state \<Rightarrow> unit reply" where
  "revoke_share_link env get token app = guarded env get (Share RevokeShareLink) app
     (case revoke_link token (app_share app) of (r, svc) \<Rightarrow> (map_sum RStore id r, app\<lparr>app_share := svc\<rparr>))"

datatype 'a share_reply = ShareExpired | ShareUnavailable | ShareServed 'a

text \<open>The two pages behind a link have no guard: the token is the only thing asked for.\<close>

definition share_resolve :: "share_loads \<Rightarrow> app_env \<Rightarrow> str \<Rightarrow> app_state \<Rightarrow> path share_reply reply" where
  "share_resolve loads env token app = (case validate_link loads token (env_now env) (app_share app) of
     (Inl (ShareLinkExpiredError t), svc) \<Rightarrow> (Inr ShareExpired, app\<lparr>app_share := svc\<rparr>)
   | (Inl (ShareLinkRevokedError t), svc) \<Rightarrow> (Inr ShareExpired, app\<lparr>app_share := svc\<rparr>)
   | (Inl ShareBadSignature, svc) \<Rightarrow> (Inr ShareExpired, app\<lparr>app_share := svc\<rparr>)
   | (Inl e, svc) \<Rightarrow> (Inl (RStore e), app\<lparr>app_share := svc\<rparr>)
   | (Inr file_path, svc) \<Rightarrow>
       (case resolve_safe_path (shared_folder env) file_path (app_fs app) of
          Inl (FileNotFoundError p) \<Rightarrow> Inr ShareUnavailable
        | Inl e \<Rightarrow> Inl (RFile e)
        | Inr resolved \<Rightarrow> Inr (ShareServed resolved), app\<lparr>app_share := svc\<rparr>))"

definition share_page :: "share_loads \<Rightarrow> app_env \<Rightarrow> str \<Rightarrow> app_state \<Rightarrow> (str \<times> str option) share_reply reply" where
  "share_page loads env token app = (case share_resolve loads env token app of
     (Inl e, app') \<Rightarrow> (Inl e, app')
   | (Inr (ShareServed resolved), app') \<Rightarrow>
       (Inr (ShareServed (last resolved, case lstat (app_fs app) resolved of
          Some (FileNode b) \<Rightarrow> Some (format_file_size (length b)) | _ \<Rightarrow> None)), app')
   | (Inr ShareExpired, app') \<Rightarrow> (Inr ShareExpired, app')
   | (Inr ShareUnavailable, app') \<Rightarrow> (Inr ShareUnavailable, app'))"

text \<open>\<open>FileResponse\<close> raises when the path is not a regular file.\<close>

definition share_download :: "share_loads \<Rightarrow> app_env \<Rightarrow> str \<Rightarrow> app_state \<Rightarrow> (path \<times> bytes) share_reply reply" where
  "share_download loads env token app = (case share_resolve loads env token app of
     (Inl e, app') \<Rightarrow> (Inl e, app')
   | (Inr (ShareServed resolved), app') \<Rightarrow>
       (case lstat (app_fs app) resolved of
          Some (FileNode b) \<Rightarrow> Inr (ShareServed (resolved, b)) | _ \<Rightarrow> Inl RNotAFile, app')
   | (Inr ShareExpired, app') \<Rightarrow> (Inr ShareExpired, app')
   | (Inr ShareUnavailable, app') \<Rightarrow> (Inr ShareUnavailable, app'))"

section \<open>Login (routers/auth.py, services/auth_service.py)\<close>

definition cookie_path :: "server_config \<Rightarrow> str" where
  "cookie_path cfg = (case cfg_mount_code cfg of Some code \<Rightarrow> ''/m/'' @ code @ ''/'' | None \<Rightarrow> ''/'')"

text \<open>Status, and on success the value and path of the session cookie. \<open>checkpw\<close> is bcrypt's check,
  \<open>create_token\<close> the signed token.\<close>

definition server_login ::
  "(bytes \<Rightarrow> bytes \<Rightarrow> bool) \<Rightarrow> str \<Rightarrow> server_config \<Rightarrow> str \<Rightarrow> nat \<times> (str \<times> str) option" where
  "server_login checkpw create_token cfg password = (case cfg_password_hash cfg of
     None \<Rightarrow> (400, None)
   | Some hash \<Rightarrow>
       if length password = 0 then (401, None)
       else (case verify_password checkpw password hash of
           Inl e \<Rightarrow> (500, None)
         | Inr ok \<Rightarrow> if ok then (200, Some (create_token, cookie_path cfg)) else (401, None)))"

definition server_logout :: "server_config \<Rightarrow> nat \<times> (str \<times> str) option" where
  "server_logout cfg = (200, Some ([], cookie_path cfg))"

section \<open>Requests as steps\<close>

text \<open>What an HTTP client can ask of the server. The signer of share links and the ids of new rows are part
  of the request.\<close>

datatype app_request =
    QGetFiles str
  | QUpload "(str \<times> bytes) list" str "ConflictResolution option" "int option" "str option" "str option"
  | QDownload str
  | QZip "str list"
  | QRename str str
  | QDelete "str list"
  | QFolder str str
  | QSearch str str
  | QPreview str
  | QShareUpload "(str \<times> bytes) list"
  | QListSnippets
  | QCreateSnippet str str
  | QUpdateTitle str str
  | QDeleteSnippet str
  | QListRequests
  | QCreateRequest str str str str
  | QFulfill str str bytes str
  | QDismiss str str
  | QCreateLink str ShareTTL
  | QListLinks
  | QRevokeLink str
  | QSharePage str
  | QShareDownload str

record signer =
  sg_dumps :: share_dumps
  sg_loads :: share_loads

fun handle :: "signer \<Rightarrow> app_env \<Rightarrow> lookup \<Rightarrow> app_request \<Rightarrow> app_state \<Rightarrow> app_state" where
  "handle sg env get (QGetFiles path) app = snd (get_files env get path app)"
| "handle sg env get (QUpload files path res ttl dev name) app = snd (upload_files env get files path res ttl dev name app)"
| "handle sg env get (QDownload path) app = snd (download_single_file env get path app)"
| "handle sg env get (QZip paths) app = snd (download_zip env get paths app)"
| "handle sg env get (QRename path new) app = snd (rename_file env get path new app)"
| "handle sg env get (QDelete paths) app = snd (delete_files env get paths app)"
| "handle sg env get (QFolder parent name) app = snd (create_new_folder env get parent name app)"
| "handle sg env get (QSearch q path) app = snd (search_files_endpoint env get q path app)"
| "handle sg env get (QPreview path) app = snd (preview_file (\<lambda>_. None) env get path app)"
| "handle sg env get (QShareUpload files) app = snd (share_upload env get files app)"
| "handle sg env get QListSnippets app = snd (list_snippets_route env get app)"
| "handle sg env get (QCreateSnippet i title) app = snd (create_snippet_route env get i title app)"
| "handle sg env get (QUpdateTitle i title) app = snd (update_title_route env get i title app)"
| "handle sg env get (QDeleteSnippet i) app = snd (delete_snippet_route env get i app)"
| "handle sg env get QListRequests app = snd (list_requests_route env get app)"
| "handle sg env get (QCreateRequest i d dev name) app = snd (create_request_route env get i d dev name app)"
| "handle sg env get (QFulfill i file content name) app = snd (fulfill_request_route env get i file content name app)"
| "handle sg env get (QDismiss i dev) app = snd (dismiss_request_route env get i dev app)"
| "handle sg env get (QCreateLink path ttl) app = snd (create_share_link (sg_dumps sg) env get path ttl app)"
| "handle sg env get QListLinks app = snd (list_share_links_route (sg_loads sg) env get app)"
| "handle sg env get (QRevokeLink token) app = snd (revoke_share_link env get token app)"
| "handle sg env get (QSharePage token) app = snd (share_page (sg_loads sg) env token app)"
| "handle sg env get (QShareDownload token) app = snd (share_download (sg_loads sg) env token app)"

text \<open>The route of a request, when it has guards.\<close>

fun route_of :: "app_request \<Rightarrow> route option" where
  "route_of (QGetFiles path) = Some (Files GetFiles)"
| "route_of (QUpload files path res ttl dev name) = Some (Files UploadFiles)"
| "route_of (QDownload path) = Some (Files DownloadSingleFile)"
| "route_of (QZip paths) = Some (Files DownloadZip)"
| "route_of (QRename path new) = Some (Files RenameFile)"
| "route_of (QDelete paths) = Some (Files DeleteFiles)"
| "route_of (QFolder parent name) = Some (Files CreateNewFolder)"
| "route_of (QSearch q path) = Some (Files SearchFiles)"
| "route_of (QPreview path) = Some (Files PreviewFile)"
| "route_of (QShareUpload files) = Some ShareUpload"
| "route_of QListSnippets = Some (Clipboard ListSnippets)"
| "route_of (QCreateSnippet i title) = Some (Clipboard CreateSnippet)"
| "route_of (QUpdateTitle i title) = Some (Clipboard UpdateSnippetTitle)"
| "route_of (QDeleteSnippet i) = Some (Clipboard DeleteSnippet)"
| "route_of QListRequests = Some (Requests ListFileRequests)"
| "route_of (QCreateRequest i d dev name) = Some (Requests CreateFileRequest)"
| "route_of (QFulfill i file content name) = Some (Requests FulfillFileRequest)"
| "route_of (QDismiss i dev) = Some (Requests DismissFileRequest)"
| "route_of (QCreateLink path ttl) = Some (Share CreateShareLink)"
| "route_of QListLinks = Some (Share ListShareLinks)"
| "route_of (QRevokeLink token) = Some (Share RevokeShareLink)"
| "route_of (QSharePage token) = None"
| "route_of (QShareDownload token) = None"

section \<open>Lemmas\<close>

lemmas handler_defs = get_files_def upload_files_def download_single_file_def download_zip_def rename_file_def
  delete_files_def create_new_folder_def search_files_endpoint_def preview_file_def share_upload_def
  list_snippets_route_def create_snippet_route_def update_title_route_def delete_snippet_route_def
  list_requests_route_def create_request_route_def fulfill_request_route_def dismiss_request_route_def
  create_share_link_def list_share_links_route_def revoke_share_link_def

lemma guarded_denied: "\<not> route_allowed (env_mac env) (env_cfg env) get r \<Longrightarrow> snd (guarded env get r app body) = app"
  by (auto simp: guarded_def route_allowed_def split: sum.split)

lemma guarded_snd: "snd (guarded env get r app body) = (if route_allowed (env_mac env) (env_cfg env) get r then snd body else app)"
  by (auto simp: guarded_def route_allowed_def split: sum.split)

lemma handle_denied:
  "route_of q = Some r \<Longrightarrow> \<not> route_allowed (env_mac env) (env_cfg env) get r \<Longrightarrow> handle sg env get q app = app"
  by (cases q) (auto simp: handler_defs guarded_denied)

subsection \<open>The state of the application\<close>

definition app_ok :: "app_state \<Rightarrow> bool" where
  "app_ok app \<longleftrightarrow> svc_ok (app_share app) \<and> server_ok (app_store app) \<and> manager_ok (manager (app_hub app))"

lemma app_ok_simps [simp]:
  "app_ok (app\<lparr>app_fs := f\<rparr>) = app_ok app" "app_ok (app\<lparr>app_ttl := t\<rparr>) = app_ok app"
  "app_store (app\<lparr>app_fs := f\<rparr>) = app_store app"
  by (simp_all add: app_ok_def app_store_def)

lemma app_ok_notify: "app_ok app \<Longrightarrow> app_ok (notify env msg exclude app)"
  using prunes_ok [OF prunes_broadcast] by (auto simp: app_ok_def notify_def app_store_def)

lemma app_ok_store:
  assumes "app_ok app" and "server_ok s" and "share_links s = share_links (app_store app)"
  shows "app_ok (set_store s app)"
  using assms by (simp add: app_ok_def set_store_def app_store_def svc_ok_def links_def get_share_link_def)

lemma app_ok_hub_sent: "app_ok app \<Longrightarrow> send_to works d msg (app_hub app) = Inr h \<Longrightarrow> app_ok (app\<lparr>app_hub := h\<rparr>)"
  by (auto simp: app_ok_def app_store_def send_to_def split: option.splits if_splits)

text \<open>The other services do not touch the share links, and the share service touches nothing else.\<close>

lemma frame_links:
  "create_snippet i t now s = Inr (row, s') \<Longrightarrow> share_links s' = share_links s"
  "update_title i t now s = Inr (row, s') \<Longrightarrow> share_links s' = share_links s"
  "delete_snippet i s = Inr s' \<Longrightarrow> share_links s' = share_links s"
  "create_file_request i d dev n now s = Inr (req, s') \<Longrightarrow> share_links s' = share_links s"
  "fulfill_request i b n p now s = Inr (req, s') \<Longrightarrow> share_links s' = share_links s"
  "dismiss_request i c s = Inr s' \<Longrightarrow> share_links s' = share_links s"
  "record_upload p u s = Inr s' \<Longrightarrow> share_links s' = share_links s"
  by (auto simp: create_snippet_def create_snippet_check_def create_snippet_insert_def insert_clipboard_snippet_def
      update_title_def delete_snippet_def delete_clipboard_snippet_def create_file_request_def insert_file_request_def
      fulfill_request_def fulfill_update_def update_file_request_def record_upload_def record_upload_owner_def res_bind_eq_Inr
      Let_def dest: update_clipboard_frame(4) dest!: dismiss_eq split: if_splits option.splits)

definition other_tables :: "server_state \<Rightarrow> ClipboardRow list \<times> FileRequestRow list \<times> (str \<times> str) list \<times> (str \<times> str) list" where
  "other_tables s = (clipboard_snippets s, file_requests s, upload_owners s, meta s)"

lemma server_ok_tables: "other_tables s = other_tables s' \<Longrightarrow> server_ok s = server_ok s'"
  by (simp add: other_tables_def server_ok_def)

lemma drop_link_tables [simp]: "other_tables (link_store (drop_link t svc)) = other_tables (link_store svc)"
  by (simp add: drop_link_def delete_share_link_def other_tables_def)

lemma drops_tables: "other_tables (link_store (fold drop_link ts svc)) = other_tables (link_store svc)"
  by (induction ts arbitrary: svc) simp_all

lemma share_tables:
  "other_tables (link_store (snd (create_link dumps p ttl now svc))) = other_tables (link_store svc)"
  "other_tables (link_store (snd (validate_link loads t now svc))) = other_tables (link_store svc)"
  "other_tables (link_store (snd (revoke_link t svc))) = other_tables (link_store svc)"
  "other_tables (link_store (snd (list_active_links loads now svc))) = other_tables (link_store svc)"
  by (simp_all add: create_link_def upsert_share_link_def validate_link_def revoke_link_def list_active_links_def Let_def drops_tables
      split: option.split loads_result.split json.split)
    (simp add: other_tables_def)

lemma app_ok_share:
  assumes "app_ok app" and "svc_ok svc" and "other_tables (link_store svc) = other_tables (app_store app)"
  shows "app_ok (app\<lparr>app_share := svc\<rparr>)"
  using assms server_ok_tables [OF assms(3)] by (simp add: app_ok_def app_store_def)

lemma validate_svc_ok: "svc_ok svc \<Longrightarrow> svc_ok (snd (validate_link loads t now svc))"
  by (auto simp: validate_link_def drop_svc_ok split: option.split loads_result.split json.split)

lemma record_owners_frame:
  "server_ok s \<Longrightarrow> record_owners path u rs s = (r, s') \<Longrightarrow> server_ok s' \<and> share_links s' = share_links s"
proof (induction path u rs s rule: record_owners.induct)
  case (2 path u x rs s)
  then show ?case using record_upload_ok frame_links(7)
    by (auto split: if_splits sum.splits)
qed simp

lemma share_resolve_app:
  "snd (share_resolve loads env t app) = app\<lparr>app_share := snd (validate_link loads t (env_now env) (app_share app))\<rparr>"
  by (auto simp: share_resolve_def split: prod.split sum.split store_exn.split)

lemma share_pages_app:
  "snd (share_page loads env t app) = snd (share_resolve loads env t app)"
  "snd (share_download loads env t app) = snd (share_resolve loads env t app)"
  by (auto simp: share_page_def share_download_def split: prod.split sum.split share_reply.split)

lemma upload_files_ok:
  assumes "app_ok app"
  shows "app_ok (snd (upload_files env get files path res ttl dev name app))"
proof -
  obtain r fs where u: "upload_all (shared_folder env) path res files (app_fs app) = (r, fs)"
    by (cases "upload_all (shared_folder env) path res files (app_fs app)")
  have so: "server_ok (app_store app)" using assms by (simp add: app_ok_def)
  have "app_ok (set_store s' (app\<lparr>app_fs := fs\<rparr>))" if "record_owners path w rs (app_store app) = (x, s')" for w rs x s'
    using app_ok_store [of "app\<lparr>app_fs := fs\<rparr>" s'] record_owners_frame [OF so that] assms by simp
  moreover have "app_ok (set_store (app_store app) (app\<lparr>app_fs := fs\<rparr>))"
    using app_ok_store [of "app\<lparr>app_fs := fs\<rparr>" "app_store app"] assms so by simp
  ultimately show ?thesis using assms
    by (auto simp: upload_files_def guarded_snd u Let_def intro!: app_ok_notify split: sum.split option.split prod.split)
qed

lemma fulfill_route_ok:
  assumes "app_ok app"
  shows "app_ok (snd (fulfill_request_route env get i file content name app))"
proof -
  obtain r fs where u: "upload_file (shared_folder env) [] file content None (app_fs app) = (r, fs)"
    by (cases "upload_file (shared_folder env) [] file content None (app_fs app)")
  have "app_ok (set_store s (app\<lparr>app_fs := fs\<rparr>))"
    if "fulfill_request i name n n (env_now env) (app_store app) = Inr (row, s)" for n row s
    using app_ok_store [of "app\<lparr>app_fs := fs\<rparr>" s] fulfill_ok [OF _ that] frame_links(5) [OF that] assms by (simp add: app_ok_def)
  then show ?thesis using assms
    by (auto simp: fulfill_request_route_def guarded_snd u Let_def intro!: app_ok_notify app_ok_hub_sent
        split: sum.split send_exn.split prod.split)
qed

lemma handle_ok:
  assumes "app_ok app"
  shows "app_ok (handle sg env get q app)"
proof -
  have so: "server_ok (app_store app)" and vo: "svc_ok (app_share app)" using assms by (simp_all add: app_ok_def)
  have store: "app_ok (set_store s app)" if "server_ok s" "share_links s = share_links (app_store app)" for s
    using app_ok_store [OF assms that] .
  have share: "app_ok (app\<lparr>app_share := svc\<rparr>)" if "svc_ok svc" "other_tables (link_store svc) = other_tables (link_store (app_share app))" for svc
    using app_ok_share [OF assms that(1)] that(2) by (simp add: app_store_def)
  show ?thesis
  proof (cases q)
    case QUpload
    then show ?thesis using upload_files_ok [OF assms] by simp
  next
    case QFulfill
    then show ?thesis using fulfill_route_ok [OF assms] by simp
  next
    case (QCreateSnippet i title)
    then show ?thesis using assms create_snippet_ok [OF so] frame_links(1)
      by (auto simp: create_snippet_route_def guarded_snd intro!: app_ok_notify store split: sum.split)
  next
    case (QUpdateTitle i title)
    then show ?thesis using assms update_title_ok [OF so] frame_links(2)
      by (auto simp: update_title_route_def guarded_snd intro!: app_ok_notify store split: sum.split)
  next
    case (QDeleteSnippet i)
    then show ?thesis using assms delete_snippet_ok [OF so] frame_links(3)
      by (auto simp: delete_snippet_route_def guarded_snd intro!: app_ok_notify store split: sum.split)
  next
    case (QCreateRequest i d dev name)
    then show ?thesis using assms create_request_ok [OF so] frame_links(4)
      by (auto simp: create_request_route_def guarded_snd intro!: app_ok_notify store split: sum.split)
  next
    case (QDismiss i dev)
    then show ?thesis using assms dismiss_ok [OF so] frame_links(6)
      by (auto simp: dismiss_request_route_def guarded_snd intro!: app_ok_notify store split: sum.split)
  next
    case (QCreateLink path ttl)
    then show ?thesis using assms create_svc_ok [OF vo, of "sg_dumps sg" path ttl "env_now env"]
        share_tables(1) [of "sg_dumps sg" path ttl "env_now env" "app_share app"]
      by (auto simp: create_share_link_def guarded_snd intro!: share split: sum.split prod.split)
  next
    case QListLinks
    then show ?thesis using assms drops_svc_ok [OF vo] drops_tables [of _ "app_share app"]
      by (auto simp: list_share_links_route_def guarded_snd list_active_links_def Let_def intro!: share split: prod.split)
  next
    case (QRevokeLink token)
    then show ?thesis using assms vo drop_svc_ok [OF vo, of token]
      by (auto simp: revoke_share_link_def guarded_snd revoke_link_def intro!: share split: prod.split)
  next
    case (QSharePage token)
    then show ?thesis using share [OF validate_svc_ok [OF vo] share_tables(2)] by (simp add: share_pages_app share_resolve_app)
  next
    case (QShareDownload token)
    then show ?thesis using share [OF validate_svc_ok [OF vo] share_tables(2)] by (simp add: share_pages_app share_resolve_app)
  qed (use assms in \<open>simp_all add: handler_defs guarded_snd on_fs_def\<close>)
qed

interpretation app: inv_machine "\<lambda>(sg, env, get, q). handle sg env get q" app_ok
  by unfold_locales (auto intro: handle_ok)

subsection \<open>Roles\<close>

lemma denied_trusted:
  assumes "trusted_role mac cfg get = Inr (Some r)"
    and "r = READ \<and> WriteAccess \<in> set (route_guards rt) \<or> r = RECEIVE \<and> FullAccess \<in> set (route_guards rt)"
  shows "\<not> route_allowed mac cfg get rt"
  using assms(2) guard_trusted [OF assms(1), of WriteAccess] guard_trusted [OF assms(1), of FullAccess]
  unfolding route_allowed_def run_guards_iff by (auto simp del: run_guard.simps)

lemma scope_of_receiver:
  assumes "trusted_role (env_mac env) (env_cfg env) get = Inr (Some RECEIVE)" and "trusted_user (env_mac env) (env_cfg env) get = Inr u"
  shows "scope_user env get = Inr u"
  using assms by (simp add: scope_user_def receive_scope_user_def)

lemma check_owned_iff: "check_owned u ps s = Inr () \<longleftrightarrow> (\<forall>p \<in> set ps. is_owned_by p u s = Inr True)"
proof (induction ps)
  case (Cons p ps)
  then show ?case by (cases "is_owned_by p u s") auto
qed simp

lemma guarded_Inr: "guarded env get r app (x, app) = (Inr y, app') \<Longrightarrow> x = Inr y \<and> app' = app"
  by (auto simp: guarded_def split: sum.splits)

lemma scope_checkD:
  assumes "scope_user env get = Inr (Some u)" and "res_bind (scope_check env get ps app) f = Inr y"
  shows "(\<forall>p \<in> set ps. is_owned_by p u (app_store app) = Inr True) \<and> f () = Inr y"
  using assms check_owned_iff [of u ps "app_store app"] by (auto simp: scope_check_def res_bind_eq_Inr)

subsection \<open>Served files\<close>

lemma map_sum_file: "map_sum RFile id r = Inr x \<longleftrightarrow> r = Inr x"
  by (cases r) auto

lemma download_resolved: "download_file base p fs = Inr q \<Longrightarrow> resolve_safe_path base p fs = Inr q"
  by (auto simp: download_file_def res_bind_eq_Inr split: if_splits)

lemma zip_member:
  assumes "download_as_zip base ps fs = Inr ms" and "(q, n) \<in> set ms"
  shows "\<exists>p \<in> set ps. resolve_safe_path base p fs = Inr q"
proof -
  obtain qs where qs: "map (\<lambda>p. resolve_safe_path base p fs) ps = map Inr qs" "q \<in> set qs"
    using assms by (auto simp: download_as_zip_def zip_stream_def res_bind_eq_Inr collect_results_eq)
  then have "Inr q \<in> (\<lambda>p. resolve_safe_path base p fs) ` set ps" by (metis image_eqI list.set_map)
  then show ?thesis by auto
qed

lemma listed_in:
  assumes "list_directory base p fs = Inr es"
  shows "\<exists>d. resolve_safe_path base p fs = Inr d \<and> (\<forall>e \<in> set es. entry_name e \<in> last ` set (children fs d))"
proof -
  obtain d where d: "resolve_safe_path base p fs = Inr d"
    "collect_results (map (\<lambda>c. entry_of fs c (last c)) (children fs d)) = Inr es"
    using assms by (auto simp: list_directory_def res_bind_eq_Inr split: if_splits)
  from entries_names [OF d(2)] have "entry_name ` set es = last ` set (children fs d)" by (metis list.set_map)
  then have "\<forall>e \<in> set es. entry_name e \<in> last ` set (children fs d)" by blast
  with d(1) show ?thesis by blast
qed

text \<open>A path that is owned and leads to a file is recorded as it is, but for the spaces around it.\<close>

lemma owned_path:
  assumes "resolve_safe_path base p fs = Inr q" and "is_owned_by p u s = Inr True"
  shows "py_lstrip_char sep (py_strip p) \<in> owned_paths u s \<and> (py_strip p = p \<longrightarrow> p \<in> owned_paths u s)"
proof -
  have "py_lstrip_char sep (py_strip p) \<in> owned_paths u s" "py_strip p \<noteq> []"
    using assms(2) by (auto simp: is_owned_by_def norm_path_def is_upload_owned_by_def owned_paths_def owned_upload_paths_def sep_def
        image_iff split: option.splits if_splits dest: fetchone_Some_mem)
  moreover have "py_strip p = p \<Longrightarrow> py_lstrip_char sep p = p"
    using assms(1) calculation(2)
    by (cases p) (auto simp: resolve_safe_path_def py_startswith_def py_lstrip_char_def res_bind_eq_Inr split: if_splits)
  ultimately show ?thesis by auto
qed

subsection \<open>A file in the root of the folder\<close>

lemma guarded_allowed: "route_allowed (env_mac env) (env_cfg env) get r \<Longrightarrow> guarded env get r app body = body"
  by (auto simp: guarded_def route_allowed_def split: sum.split)

lemma allowed_trusted:
  assumes "trusted_role mac cfg get = Inr (Some r)"
  shows "route_guards rt = [BrowseAccess] \<Longrightarrow> route_allowed mac cfg get rt"
    and "route_guards rt = [WriteAccess] \<Longrightarrow> r \<noteq> READ \<Longrightarrow> route_allowed mac cfg get rt"
  using guard_trusted [OF assms, of BrowseAccess] guard_trusted [OF assms, of WriteAccess]
  unfolding route_allowed_def run_guards_iff by (auto simp del: run_guard.simps)

lemma norm_plain:
  assumes "py_strip n = n" and "n \<noteq> []" and "sep \<notin> set n"
  shows "norm_path n = Inr n"
  using assms by (cases n) (auto simp: norm_path_def py_lstrip_char_def sep_def)

lemma skip_upload:
  assumes "link_free fs base" and "link_free fs (base @ [n])" and "lstat fs (base @ [n]) = Some (FileNode b)"
    and "validate_upload_filename n = Inr n"
  shows "\<exists>r. upload_file base [] n content (Some SKIP) fs = (Inr r, fs) \<and> up_name r = n \<and> up_skipped r"
  using assms(3,4) stat_link_free [OF assms(2)]
  by (simp add: upload_file_def resolve_safe_path_def resolve_base_link_free [OF assms(1)] path_exists_def entry_of_def)

lemma download_existing:
  assumes "link_free fs base" and "link_free fs (base @ [n])" and "lstat fs (base @ [n]) = Some (FileNode b)"
    and "validate_upload_filename n = Inr n"
  shows "download_file base n fs = Inr (base @ [n])"
  using resolve_plain [OF assms(1,2)] assms(3) stat_link_free [OF assms(2)] validate_upload_plain [OF assms(4)]
  by (simp add: download_file_def is_dir_def good_names_def user_path_def path_str_def)

subsection \<open>A concrete server\<close>

definition demo_env :: app_env where
  "demo_env = \<lparr>env_mac = demo_mac, env_cfg = demo_server, env_works = (\<lambda>_. True), env_now = 7\<rparr>"

definition demo_get :: "Role \<Rightarrow> lookup" where
  "demo_get r h = (if h = ''x-wfs-user'' then Some ''bob'' else if h = ''x-wfs-role'' then Some (role_value r)
     else if h = IDENTITY_SIG_HEADER then Some (demo_mac (utf8_encode ''k'') (canonical ''bob'' (role_value r) False)) else None)"

definition demo_app :: app_state where
  "demo_app = \<lparr>app_fs = demo_fs, app_share = ShareLinkService_init open_state_store,
     app_hub = \<lparr>manager = ConnectionManager_init, sent = []\<rparr>, app_ttl = None\<rparr>"

definition demo_signer :: signer where
  "demo_signer = \<lparr>sg_dumps = plain_dumps, sg_loads = plain_loads\<rparr>"

lemma demo_env_simps [simp]:
  "env_mac demo_env = demo_mac" "env_cfg demo_env = demo_server" "env_now demo_env = 7" "shared_folder demo_env = [''srv'']"
  by (simp_all add: demo_env_def shared_folder_def demo_server_def sep_def)

lemma demo_trusted:
  "trusted_role demo_mac demo_server (demo_get r) = Inr (Some r)" "trusted_user demo_mac demo_server (demo_get r) = Inr (Some ''bob'')"
proof -
  have "verified_identity demo_mac demo_server (demo_get r) = Inr (Some (''bob'', role_value r, False))"
    using demo_mac_ascii [of "utf8_encode ''k''" "canonical ''bob'' (role_value r) False"]
    by (simp add: verified_identity_def is_relay_served_def demo_server_def demo_get_def IDENTITY_SIG_HEADER_def
        verify_identity_def sign_identity_def compare_digest_def)
  then show "trusted_role demo_mac demo_server (demo_get r) = Inr (Some r)"
    "trusted_user demo_mac demo_server (demo_get r) = Inr (Some ''bob'')" by (simp_all add: trusted_role_def trusted_user_def)
qed

lemma demo_app_ok: "app_ok demo_app"
  using empty_service_ok
  by (simp add: app_ok_def demo_app_def app_store_def ShareLinkService_init_def open_state_store_ok manager_ok_def ConnectionManager_init_def)

lemma demo_file:
  "link_free demo_fs [''srv'', ''a.txt'']" "lstat demo_fs [''srv'', ''a.txt''] = Some (FileNode [1, 2])"
  "validate_upload_filename ''a.txt'' = Inr ''a.txt''" "py_strip ''a.txt'' = ''a.txt''"
proof -
  show "link_free demo_fs [''srv'', ''a.txt'']" by (rule demo_link_free) (simp add: plain_path_def plain_name_def)
qed (simp_all add: lstat_def demo_fs_def validate_upload_filename_def nul_def sep_def py_startswith_def py_strip_def py_space_def)

section \<open>Properties\<close>

text \<open>C14: the state of the whole server stays consistent. Whatever HTTP requests arrive in sequence, from
  whomever, with whatever headers, and however they fail, the tables stay well-formed and within
  their limits, the share links in memory and in the database agree, and the two dicts of
  connected devices agree.\<close>

theorem server_app_invariant:
  assumes "app_ok app"
  shows "app_ok (fold (\<lambda>(sg, env, get, q). handle sg env get q) requests app)"
  using assms by (rule app.run_inv)

theorem server_app_invariant_witness:
  "app_ok (fold (\<lambda>(sg, env, get, q). handle sg env get q)
     [(demo_signer, demo_env, demo_get WRITE, QCreateSnippet ''i'' ''t''),
      (demo_signer, demo_env, demo_get RECEIVE, QUpload [(''b.txt'', [3])] [] None None None None),
      (demo_signer, demo_env, demo_get WRITE, QCreateLink ''b.txt'' ONE_HOUR)] demo_app)"
  using server_app_invariant [OF demo_app_ok] .

text \<open>A user to whom the relay gives the role READ changes nothing over HTTP. Whatever they request, the
  shared folder, the snippets, requests, owners, expiry records and connected devices stay as they
  are, no message is sent, and the only share links that go are expired ones.\<close>

lemma read_role_changes_nothing:
  assumes "trusted_role (env_mac env) (env_cfg env) get = Inr (Some READ)"
  shows "app_fs (handle sg env get q app) = app_fs app \<and>
    other_tables (app_store (handle sg env get q app)) = other_tables (app_store app) \<and>
    app_hub (handle sg env get q app) = app_hub app \<and> app_ttl (handle sg env get q app) = app_ttl app \<and>
    (\<forall>t. links (app_share (handle sg env get q app)) t = links (app_share app) t \<or>
      (\<exists>r. links (app_share app) t = Some r \<and> sg_loads sg (env_now env) t (link_ttl_seconds r) = SignatureExpired))"
proof -
  have denied: "handle sg env get q app = app" if "route_of q = Some r" "WriteAccess \<in> set (route_guards r)" for r
    using handle_denied [OF that(1)] denied_trusted [OF assms] that(2) by blast
  have page: ?thesis if "handle sg env get q app = app\<lparr>app_share := snd (validate_link (sg_loads sg) t (env_now env) (app_share app))\<rparr>" for t
    unfolding that using share_tables(2) [of "sg_loads sg" t "env_now env" "app_share app"]
    by (auto simp: app_store_def validate_link_def links_drop links_def [symmetric]
        split: option.split loads_result.split json.split)
  show ?thesis
  proof (cases q)
    case (QSharePage t)
    then show ?thesis using page [of t] by (simp add: share_pages_app share_resolve_app)
  next
    case (QShareDownload t)
    then show ?thesis using page [of t] by (simp add: share_pages_app share_resolve_app)
  qed (use denied in \<open>simp_all add: handler_defs guarded_snd\<close>)
qed

lemma read_role_changes_nothing_witness:
  "app_fs (handle demo_signer demo_env (demo_get READ) (QDelete [''a.txt'']) demo_app) = demo_fs"
  using read_role_changes_nothing [of demo_env "demo_get READ" demo_signer "QDelete [''a.txt'']" demo_app] demo_trusted
  by (simp add: demo_app_def)



text \<open>The spaces matter: the owner of a name is served the file whose name has a space in front, whoever
  owns that one.\<close>

lemma padded_name_escapes_scope:
  assumes "trusted_role (env_mac env) (env_cfg env) get = Inr (Some RECEIVE)"
    and "trusted_user (env_mac env) (env_cfg env) get = Inr (Some u)" and "is_owned_by n u (app_store app) = Inr True"
    and "link_free (app_fs app) (shared_folder env @ ['' '' @ n])" and "lstat (app_fs app) (shared_folder env @ ['' '' @ n]) = Some (FileNode b)"
    and "validate_upload_filename ('' '' @ n) = Inr ('' '' @ n)"
  shows "fst (download_single_file env get ('' '' @ n) app) =
    Inr (shared_folder env @ ['' '' @ n], content_disposition ''attachment'' ['' '' @ n])"
proof -
  have lb: "link_free (app_fs app) (shared_folder env)" by (rule link_free_prefix [OF assms(4)]) simp
  have "py_strip ('' '' @ n) = py_strip n" by (simp add: py_strip_def py_space_def)
  then have "is_owned_by ('' '' @ n) u (app_store app) = Inr True" using assms(3)
    by (auto simp: is_owned_by_def norm_path_def split: if_splits)
  then have "scope_check env get ['' '' @ n] app = Inr ()" using scope_of_receiver [OF assms(1,2)] by (simp add: scope_check_def)
  then show ?thesis
    using allowed_trusted(1) [OF assms(1), of "Files DownloadSingleFile"] download_existing [OF lb assms(4-6)]
    by (simp add: download_single_file_def guarded_allowed content_disposition_def)
qed

text \<open>A RECEIVE user can make any file of the folder their own. Uploading under the name of an existing
  file with the conflict resolution \<open>skip\<close> leaves the file as it is but records the uploader as its
  owner: the user then downloads it, and nobody else counts as its owner any more. The name is one
  that does not begin or end with a space.\<close>

lemma receive_scope_escape:
  assumes "trusted_role (env_mac env) (env_cfg env) get = Inr (Some RECEIVE)"
    and "trusted_user (env_mac env) (env_cfg env) get = Inr (Some u)" and "u \<noteq> []"
    and "link_free (app_fs app) (shared_folder env @ [n])" and "lstat (app_fs app) (shared_folder env @ [n]) = Some (FileNode b)"
    and "validate_upload_filename n = Inr n" and "py_strip n = n"
  shows "\<exists>results app1. upload_files env get [(n, [])] [] (Some SKIP) ttl dev name app = (Inr results, app1) \<and>
    app_fs app1 = app_fs app \<and>
    download_single_file env get n app1 = (Inr (shared_folder env @ [n], content_disposition ''attachment'' [n]), app1) \<and>
    (\<forall>v. v \<noteq> u \<longrightarrow> is_owned_by n v (app_store app1) = Inr False)"
proof -
  let ?base = "shared_folder env" and ?fs = "app_fs app"
  have lb: "link_free ?fs ?base" by (rule link_free_prefix [OF assms(4)]) simp
  obtain r where r: "upload_file ?base [] n [] (Some SKIP) ?fs = (Inr r, ?fs)" "up_name r = n"
    using skip_upload [OF lb assms(4-6)] by blast
  have n: "n \<noteq> []" "norm_path n = Inr n" "rel_key [] n = n"
    using norm_plain [OF assms(7)] validate_upload_plain [OF assms(6)] by (auto simp: rel_key_def plain_name_def)
  let ?s = "record_upload_owner n u (app_store app)"
  have rec: "record_upload n u (app_store app) = Inr ?s" using assms(3) n by (simp add: record_upload_def)
  obtain app1 where up: "upload_files env get [(n, [])] [] (Some SKIP) ttl dev name app = (Inr [r], app1)"
      and st: "app_fs app1 = ?fs" "app_store app1 = ?s"
    using assms(2) r n rec allowed_trusted(2) [OF assms(1), of "Files UploadFiles"]
    by (simp add: upload_files_def guarded_allowed Let_def notify_def set_store_def app_store_def)
  have own: "is_owned_by n v (app_store app1) = Inr (v = u)" for v
    using n(2) by (auto simp: st(2) is_owned_by_def is_upload_owned_by_def record_upload_owner_def fetchone_upsert_row)
  then have "scope_check env get [n] app1 = Inr ()" using scope_of_receiver [OF assms(1,2)] by (simp add: scope_check_def)
  then have "download_single_file env get n app1 = (Inr (?base @ [n], content_disposition ''attachment'' [n]), app1)"
    using allowed_trusted(1) [OF assms(1), of "Files DownloadSingleFile"] download_existing [OF lb assms(4-6)] st(1)
    by (simp add: download_single_file_def guarded_allowed content_disposition_def)
  with up st(1) own show ?thesis by auto
qed

lemma receive_scope_escape_witness:
  "\<exists>results app1. upload_files demo_env (demo_get RECEIVE) [(''a.txt'', [])] [] (Some SKIP) None None None demo_app = (Inr results, app1) \<and>
     download_single_file demo_env (demo_get RECEIVE) ''a.txt'' app1 =
       (Inr ([''srv'', ''a.txt''], content_disposition ''attachment'' [''a.txt'']), app1)"
  using receive_scope_escape [of demo_env "demo_get RECEIVE" "''bob''" demo_app "''a.txt''" "[1, 2]" None None None] demo_trusted demo_file
  by (auto simp: demo_app_def)

text \<open>C28: a share link serves its file to anyone who has it, for as long as it lives. After a link was
  created for a path, and through any later operations on links and restarts that do not create the
  same token again, whoever presents the token, without a session or a role, gets the bytes the
  path has at that moment, as long as the link was neither revoked nor found expired and its age
  is within its TTL; past its TTL, and once it was revoked, both pages say that it expired.\<close>

theorem share_link_serves:
  assumes "timed_signer dumps loads" and "svc_ok (app_share app)"
    and "create_share_link dumps env get path ttl app = (Inr rec, app1)"
    and "\<forall>op \<in> set ops. \<not> creates dumps (link_token rec) op"
    and "app_share app2 = fold (share_step dumps loads) ops (app_share app1)"
  shows "((\<forall>op \<in> set ops. \<not> ends (link_token rec) (alive (env_now env) (ttl_value ttl)) op) \<and>
      alive (env_now env) (ttl_value ttl) (env_now env2) \<and>
      resolve_safe_path (shared_folder env2) path (app_fs app2) = Inr q \<and> lstat (app_fs app2) q = Some (FileNode b) \<longrightarrow>
      fst (share_download loads env2 (link_token rec) app2) = Inr (ShareServed (q, b))) \<and>
    (\<not> alive (env_now env) (ttl_value ttl) (env_now env2) \<or> ShRevoke (link_token rec) \<in> set ops \<longrightarrow>
      fst (share_download loads env2 (link_token rec) app2) = Inr ShareExpired \<and>
      fst (share_page loads env2 (link_token rec) app2) = Inr ShareExpired)"
proof -
  have c: "create_link dumps path ttl (env_now env) (app_share app) = (rec, app_share app1)"
    using assms(3) by (auto simp: create_share_link_def guarded_def split: sum.splits prod.splits)
  let ?v = "validate_link loads (link_token rec) (env_now env2) (app_share app2)"
  have ok: "fst ?v = Inr path \<Longrightarrow> resolve_safe_path (shared_folder env2) path (app_fs app2) = Inr q \<Longrightarrow>
      fst (share_resolve loads env2 (link_token rec) app2) = Inr (ShareServed q)"
    by (cases ?v) (simp add: share_resolve_def)
  have bad: "fst (share_resolve loads env2 (link_token rec) app2) = Inr ShareExpired"
    if "fst ?v \<in> {Inl (ShareLinkRevokedError (link_token rec)), Inl (ShareLinkExpiredError (link_token rec))}"
    using that by (cases ?v) (auto simp: share_resolve_def)
  have served: "fst (share_resolve loads env2 t app2) = Inr (ShareServed q) \<Longrightarrow> lstat (app_fs app2) q = Some (FileNode b) \<Longrightarrow>
      fst (share_download loads env2 t app2) = Inr (ShareServed (q, b))" for t
    by (cases "share_resolve loads env2 t app2") (simp add: share_download_def)
  have expired: "fst (share_resolve loads env2 t app2) = Inr ShareExpired \<Longrightarrow>
      fst (share_download loads env2 t app2) = Inr ShareExpired \<and> fst (share_page loads env2 t app2) = Inr ShareExpired" for t
    by (cases "share_resolve loads env2 t app2") (simp add: share_download_def share_page_def)
  show ?thesis
    using link_valid [OF assms(1,2) c assms(4), of "env_now env2"] link_expired [OF assms(1,2) c assms(4), of "env_now env2"]
      link_revoked [OF assms(1,2) c assms(4), of "env_now env2"] ok bad served expired unfolding assms(5) by blast
qed

theorem share_link_serves_witness:
  "\<exists>rec app1. create_share_link plain_dumps demo_env (demo_get WRITE) ''a.txt'' ONE_HOUR demo_app = (Inr rec, app1) \<and>
     fst (share_download plain_loads (demo_env\<lparr>env_now := 100\<rparr>) (link_token rec)
       (app1\<lparr>app_share := fold (share_step plain_dumps plain_loads) [ShRestart] (app_share app1)\<rparr>)) =
       Inr (ShareServed ([''srv'', ''a.txt''], [1, 2])) \<and>
     fst (share_download plain_loads (demo_env\<lparr>env_now := 9000\<rparr>) (link_token rec)
       (app1\<lparr>app_share := fold (share_step plain_dumps plain_loads) [ShRestart] (app_share app1)\<rparr>)) = Inr ShareExpired"
proof -
  have res: "resolve_safe_path [''srv''] ''a.txt'' demo_fs = Inr [''srv'', ''a.txt'']"
    using resolve_plain [of demo_fs "[''srv'']" "[''a.txt'']"] demo_file link_free_prefix [OF demo_file(1), of "[''srv'']"]
    by (simp add: good_names_def user_path_def sep_def nul_def)
  obtain rec svc where l: "create_link plain_dumps ''a.txt'' ONE_HOUR 7 (app_share demo_app) = (rec, svc)"
    by (cases "create_link plain_dumps ''a.txt'' ONE_HOUR 7 (app_share demo_app)")
  have al: "route_allowed demo_mac demo_server (demo_get WRITE) (Share CreateShareLink)"
    unfolding route_allowed_def run_guards_iff by (simp add: guard_trusted [OF demo_trusted(1)] del: run_guard.simps)
  have c: "create_share_link plain_dumps demo_env (demo_get WRITE) ''a.txt'' ONE_HOUR demo_app = (Inr rec, demo_app\<lparr>app_share := svc\<rparr>)"
    using al res l by (simp add: create_share_link_def guarded_allowed) (simp add: demo_app_def)
  have i: "py_int 7 = 7" "py_int 100 = 100" "py_int 9000 = 9000"
    using py_int_of_int [of 7] py_int_of_int [of 100] py_int_of_int [of 9000] by simp_all
  have v: "svc_ok (app_share demo_app)" using demo_app_ok by (simp add: app_ok_def)
  have sf: "shared_folder (demo_env\<lparr>env_now := t\<rparr>) = [''srv'']" for t using demo_env_simps(4) by (simp add: shared_folder_def)
  note serves = share_link_serves [OF plain_signer v c, where ops = "[ShRestart]" and ?app2.0 = "demo_app\<lparr>app_share := share_step plain_dumps plain_loads ShRestart svc\<rparr>"]
  show ?thesis
    using serves [where ?env2.0 = "demo_env\<lparr>env_now := 100\<rparr>" and q = "[''srv'', ''a.txt'']" and b = "[1, 2]"]
      serves [where ?env2.0 = "demo_env\<lparr>env_now := 9000\<rparr>"] c res demo_file(2)
    by (simp add: sf alive_def i) (simp add: demo_app_def)
qed

text \<open>Nothing keeps a RECEIVE user from overwriting a file of someone else.\<close>

lemma receive_overwrites:
  "\<exists>results app1. upload_files demo_env (demo_get RECEIVE) [(''a.txt'', [9])] [] (Some OVERWRITE) None None None demo_app =
     (Inr results, app1) \<and> lstat (app_fs app1) [''srv'', ''a.txt''] = Some (FileNode [9])"
proof -
  have lb: "link_free demo_fs [''srv'']" by (rule link_free_prefix [OF demo_file(1)]) simp
  obtain r fs where w: "write_upload [9] [''srv''] ''a.txt'' (Some OVERWRITE) demo_fs = (Inr r, fs)" "lstat fs [''srv'', ''a.txt''] = Some (FileNode [9])"
      "up_name r = ''a.txt''"
    using overwrite_loses_tmp_sibling [OF lb, of "''a.txt''" "[1, 2]" "[3]" "[9]"]
    by (auto simp: lstat_def demo_fs_def plain_name_def temp_name_def stem_of_def suffix_of_def has_suffix_def after_dot_def)
  have "path_exists demo_fs [''srv'', ''a.txt'']" using stat_link_free [OF demo_file(1)] demo_file(2) by (simp add: path_exists_def)
  then have "upload_file [''srv''] [] ''a.txt'' [9] (Some OVERWRITE) demo_fs = (Inr r, fs)" using w(1) demo_file(3)
    by (simp add: upload_file_def resolve_safe_path_def resolve_base_link_free [OF lb])
  moreover have "norm_path ''a.txt'' = Inr ''a.txt''" by (rule norm_plain [OF demo_file(4)]) (simp_all add: sep_def)
  ultimately show ?thesis using w(2,3) demo_trusted allowed_trusted(2) [OF demo_trusted(1), of "Files UploadFiles" RECEIVE]
    by (auto simp: upload_files_def guarded_allowed Let_def notify_def set_store_def record_upload_def rel_key_def demo_app_def)
qed

text \<open>Fulfilling a request stores the file before the request is looked up: for an unknown request, or
  one that is not pending, the file stays in the folder and the reply is 500.\<close>

lemma fulfill_uploads_first:
  assumes "route_allowed (env_mac env) (env_cfg env) get (Requests FulfillFileRequest)"
    and "upload_file (shared_folder env) [] file content None (app_fs app) = (Inr r, fs')"
    and "fulfill_check rid (app_store app) = Inl e"
  shows "\<exists>e. fulfill_request_route env get rid file content name app = (Inl e, app\<lparr>app_fs := fs'\<rparr>) \<and> error_status e = 500"
proof -
  have "store_status e = 500" using assms(3)
    by (auto simp: fulfill_check_def get_file_request_def res_bind_eq_Inl split: option.splits if_splits)
  then show ?thesis using assms by (simp add: fulfill_request_route_def guarded_allowed fulfill_request_def Let_def)
qed

text \<open>The owner of a path is recorded without the spaces around it: who uploads a file whose name has a space
  appended is recorded as the owner of the file without it.\<close>

lemma ownership_ignores_spaces:
  assumes "py_strip n \<noteq> []"
  shows "record_upload (n @ '' '') u s = record_upload n u s"
proof -
  have sp: "py_space (CHR '' '')" by (simp add: py_space_def)
  have "\<exists>c \<in> set n. \<not> py_space c" using assms unfolding py_strip_def by (metis dropWhile_eq_Nil_conv rev_is_Nil_conv dropWhile.simps(1))
  then have "dropWhile py_space (n @ '' '') = dropWhile py_space n @ '' ''" by (metis dropWhile_append1)
  with sp have "py_strip (n @ '' '') = py_strip n" by (simp add: py_strip_def)
  then show ?thesis by (simp add: record_upload_def norm_path_def)
qed

end
