(* ===== verification/Relay_Agent.thy ===== *)
theory Relay_Agent
  imports Relay_Session Relay_Ttl
begin

text \<open>
  The endpoint an agent connects to, \<open>relay/app/routers/agent_ws.py\<close>: the checks before the WebSocket
  is accepted, the \<open>agent_auth\<close> handshake, the choice of a mount code (reclaim by owner, reclaim by
  IP, the preferred code, a generated code), registration and the stored policy, and the control
  messages about expired files.

  The rate limiter and the generator of codes are outside the source: whether the limiter lets the
  client through and the generated code are arguments. The handler awaits the registry between
  registering a mount and storing its policy; the two halves are separate definitions.
\<close>

section \<open>The handshake\<close>

record agent_auth =
  auth_owner :: "int option"
  auth_owner_name :: "str option"
  auth_mode :: AccessMode
  auth_has_password :: bool
  auth_entries :: "PolicyEntry list"
  auth_secret :: "str option"

datatype agent_reject =
    HandshakeFailed
  | ExpectedAgentAuth
  | VersionMismatch
  | InvalidAccessMode
  | InvalidOwnerToken
  | RestrictedNeedsLogin
  | MalformedAllowlist
  | UnknownSubject SubjectType str
  | HandlerError

text \<open>Python's truth value of a decoded JSON value.\<close>

fun json_true :: "json \<Rightarrow> bool" where
  "json_true JNull = False"
| "json_true (JBool b) = b"
| "json_true (JInt i) = (i \<noteq> 0)"
| "json_true (JStr s) = (s \<noteq> [])"
| "json_true (JList xs) = (xs \<noteq> [])"
| "json_true (JObj kvs) = (kvs \<noteq> [])"

definition get_or :: "(str \<times> json) list \<Rightarrow> str \<Rightarrow> json \<Rightarrow> json" where
  "get_or kvs k d = (case map_of kvs k of None \<Rightarrow> d | Some v \<Rightarrow> v)"

definition parse_AccessMode :: "json \<Rightarrow> AccessMode option" where
  "parse_AccessMode j = (if j = JStr ''open'' then Some OPEN_MODE
     else if j = JStr ''restricted'' then Some RESTRICTED
     else if j = JStr ''legacy'' then Some LEGACY else None)"

definition parse_SubjectType :: "json \<Rightarrow> SubjectType option" where
  "parse_SubjectType j = (if j = JStr ''user'' then Some USER
     else if j = JStr ''group'' then Some GROUP else None)"

definition parse_Role :: "json \<Rightarrow> Role option" where
  "parse_Role j = (if j = JStr ''read'' then Some READ else if j = JStr ''write'' then Some WRITE
     else if j = JStr ''receive'' then Some RECEIVE else None)"

text \<open>One item of the allowlist: \<open>KeyError\<close>, \<open>ValueError\<close> and \<open>TypeError\<close> make it malformed, an
  unknown subject is refused by name.\<close>

definition read_entry ::
  "(json \<Rightarrow> str) \<Rightarrow> accounts_db \<Rightarrow> json \<Rightarrow> (agent_reject, PolicyEntry) result" where
  "read_entry str_of db item =
     (case (Option.bind (json_item item ''subject_type'') parse_SubjectType,
            map_option (json_str str_of) (json_item item ''subject_ref''),
            Option.bind (json_item item ''role'') parse_Role) of
        (Some st, Some ref, Some rl) \<Rightarrow>
          (case (if st = USER then map_ok uid (get_user_by_username ref db)
                 else map_ok gid (get_group_by_name ref db)) of
             Inl e \<Rightarrow> Inl (UnknownSubject st ref)
           | Inr sid \<Rightarrow> Inr \<lparr>subject_type = st, subject_id = sid, entry_role = rl\<rparr>)
      | _ \<Rightarrow> Inl MalformedAllowlist)"

fun read_entries ::
  "(json \<Rightarrow> str) \<Rightarrow> accounts_db \<Rightarrow> json list \<Rightarrow> (agent_reject, PolicyEntry list) result" where
  "read_entries str_of db [] = Inr []"
| "read_entries str_of db (x # xs) =
     res_bind (read_entry str_of db x) (\<lambda>e.
     res_bind (read_entries str_of db xs) (\<lambda>es. Inr (e # es)))"

text \<open>The owner named by the token. A token that is not a string makes \<open>len(token) == 0\<close> or the
  type check of \<open>_loads_or_raise\<close> fail, which is the same \<open>InvalidSessionError\<close>.\<close>

definition read_owner ::
  "loads_fn \<Rightarrow> accounts_db \<Rightarrow> json \<Rightarrow> (agent_reject, int option \<times> str option) result" where
  "read_owner loads db token =
     (if \<not> json_true token then Inr (None, None)
      else case token of
          JStr t \<Rightarrow> (case verify_agent_owner_token loads t of
              Inl (InvalidSessionError e) \<Rightarrow> Inl InvalidOwnerToken
            | Inl e \<Rightarrow> Inl HandlerError
            | Inr i \<Rightarrow> (case get_user_by_id i db of
                Inl e \<Rightarrow> Inl InvalidOwnerToken | Inr u \<Rightarrow> Inr (Some i, Some (username u))))
        | _ \<Rightarrow> Inl InvalidOwnerToken)"

text \<open>Python's \<open>==\<close> with the integer version: \<open>True\<close> equals 1.\<close>

definition version_matches :: "json option \<Rightarrow> bool" where
  "version_matches v = (case v of
     Some (JInt i) \<Rightarrow> i = PROTOCOL_VERSION
   | Some (JBool b) \<Rightarrow> (if b then 1 else 0) = PROTOCOL_VERSION
   | _ \<Rightarrow> False)"

definition read_agent_auth ::
  "loads_fn \<Rightarrow> (json \<Rightarrow> str) \<Rightarrow> accounts_db \<Rightarrow> json_text \<Rightarrow> (agent_reject, agent_auth) result" where
  "read_agent_auth loads str_of db text =
     (case receive_control text of
        Inl e \<Rightarrow> Inl HandshakeFailed
      | Inr msg \<Rightarrow> (case msg of
          JObj kvs \<Rightarrow>
            if map_of kvs ''type'' \<noteq> Some (JStr ''agent_auth'') then Inl ExpectedAgentAuth
            else if \<not> version_matches (map_of kvs ''protocol_version'') then Inl VersionMismatch
            else (case parse_AccessMode (get_or kvs ''access_mode'' (JStr ''open'')) of
                None \<Rightarrow> Inl InvalidAccessMode
              | Some mode \<Rightarrow>
                  res_bind (read_owner loads db (get_or kvs ''token'' JNull)) (\<lambda>(owner, owner_name).
                    if mode = RESTRICTED \<and> owner = None then Inl RestrictedNeedsLogin
                    else let raw_allow = get_or kvs ''allowlist'' (JList []) in
                      res_bind (if \<not> json_true raw_allow then Inr []
                                else case raw_allow of
                                    JList items \<Rightarrow> read_entries str_of db items
                                  | JObj items \<Rightarrow> Inl MalformedAllowlist
                                  | JStr s \<Rightarrow> Inl MalformedAllowlist
                                  | _ \<Rightarrow> Inl HandlerError) (\<lambda>entries.
                        Inr \<lparr>auth_owner = owner, auth_owner_name = owner_name, auth_mode = mode,
                          auth_has_password = json_true (get_or kvs ''has_password'' (JBool False)),
                          auth_entries = entries,
                          auth_secret = (case get_or kvs ''identity_secret'' JNull of
                            JStr s \<Rightarrow> if s \<noteq> [] then Some s else None | _ \<Rightarrow> None)\<rparr>)))
        | _ \<Rightarrow> Inl HandlerError))"

section \<open>Registration\<close>

record relay_config =
  max_mounts_per_ip :: nat
  max_ttl_seconds :: int
  dropbox_code :: str

datatype ws_refusal =
    ReservedCode | RateLimited | TooManyMounts | Rejected agent_reject | BadMountCode

definition admit ::
  "relay_config \<Rightarrow> bool \<Rightarrow> str \<Rightarrow> str option \<Rightarrow> registry \<Rightarrow> (ws_refusal, unit) result" where
  "admit config limiter_allows client_ip code reg =
     (if code = Some (dropbox_code config) then Inl ReservedCode
      else if \<not> limiter_allows then Inl RateLimited
      else if count_mounts_by_ip client_ip reg \<ge> max_mounts_per_ip config then Inl TooManyMounts
      else Inr ())"

datatype assignment = Reclaimed str int | Fresh str

definition assign_code ::
  "str \<Rightarrow> conn_ref \<Rightarrow> str \<Rightarrow> timestamp \<Rightarrow> int option \<Rightarrow> str option \<Rightarrow> registry \<Rightarrow> assignment \<times> registry" where
  "assign_code generated tun client_ip now owner code reg = (case code of
     None \<Rightarrow> (Fresh generated, reg)
   | Some c \<Rightarrow>
       (let first = (case owner of
            None \<Rightarrow> (None, reg) | Some o' \<Rightarrow> try_reclaim_as_owner c tun o' now reg);
            second = (case first of
              (Some ttl, reg1) \<Rightarrow> (Some ttl, reg1)
            | (None, reg1) \<Rightarrow> try_reclaim c tun client_ip now reg1)
        in case second of
             (Some ttl, reg2) \<Rightarrow> (Reclaimed c ttl, reg2)
           | (None, reg2) \<Rightarrow> if \<not> has_mount c reg2 then (Fresh c, reg2) else (Fresh generated, reg2)))"

definition effective_ttl :: "relay_config \<Rightarrow> int option \<Rightarrow> int" where
  "effective_ttl config ttl = (case ttl of
     None \<Rightarrow> max_ttl_seconds config | Some t \<Rightarrow> min t (max_ttl_seconds config))"

definition register_assigned ::
  "relay_config \<Rightarrow> conn_ref \<Rightarrow> str \<Rightarrow> timestamp \<Rightarrow> int option \<Rightarrow> assignment \<Rightarrow> registry \<Rightarrow>
   (ws_refusal, str \<times> int \<times> registry) result" where
  "register_assigned config tun client_ip now ttl a reg = (case a of
     Reclaimed c remaining \<Rightarrow> Inr (c, remaining, reg)
   | Fresh c \<Rightarrow>
       (case register c (Some tun) client_ip now (Some (now + of_int (effective_ttl config ttl))) reg of
          Inl e \<Rightarrow> Inl BadMountCode
        | Inr reg' \<Rightarrow> Inr (c, effective_ttl config ttl, reg')))"

definition store_policy :: "agent_auth \<Rightarrow> str \<Rightarrow> registry \<Rightarrow> registry" where
  "store_policy auth code reg =
     (let reg1 = or_keep (set_owner_policy code (auth_owner auth) (auth_mode auth)
                   (auth_has_password auth) (auth_entries auth) reg) reg
      in case auth_secret auth of
           None \<Rightarrow> reg1 | Some s \<Rightarrow> or_keep (set_identity_secret code s reg1) reg1)"

text \<open>The handler up to the receive loop: the code and TTL it reports to the agent.\<close>

definition agent_connect ::
  "relay_config \<Rightarrow> loads_fn \<Rightarrow> (json \<Rightarrow> str) \<Rightarrow> accounts_db \<Rightarrow> bool \<Rightarrow> str \<Rightarrow> conn_ref \<Rightarrow> str \<Rightarrow>
   timestamp \<Rightarrow> str option \<Rightarrow> int option \<Rightarrow> json_text \<Rightarrow> registry \<Rightarrow>
   (ws_refusal, str \<times> int \<times> registry) result" where
  "agent_connect config loads str_of db limiter_allows generated tun client_ip now code ttl text reg =
     res_bind (admit config limiter_allows client_ip code reg) (\<lambda>_.
     case read_agent_auth loads str_of db text of
       Inl e \<Rightarrow> Inl (Rejected e)
     | Inr auth \<Rightarrow>
         (case assign_code generated tun client_ip now (auth_owner auth) code reg of (a, reg1) \<Rightarrow>
            res_bind (register_assigned config tun client_ip now ttl a reg1) (\<lambda>(c, t, reg2).
              Inr (c, t, store_policy auth c reg2))))"

text \<open>When the receive loop has ended. \<open>close_raises\<close> is the outcome of \<open>conn.close()\<close>; if it raises,
  the exception leaves the \<open>finally\<close> block before the mount is marked offline.\<close>

definition agent_disconnect :: "bool \<Rightarrow> str \<Rightarrow> registry \<Rightarrow> registry" where
  "agent_disconnect close_raises code reg =
     (if close_raises then reg else or_keep (mark_offline code reg) reg)"

section \<open>Control messages\<close>

definition handle_agent_control_for_mount ::
  "json \<Rightarrow> str \<Rightarrow> timestamp \<Rightarrow> file_ttl_db option \<Rightarrow> file_ttl_db option" where
  "handle_agent_control_for_mount msg mount_code now ttl_db =
     (case msg of
        JObj kvs \<Rightarrow>
          if map_of kvs ''type'' \<in> {Some (JStr ''delete_expired_files''), Some (JStr ''keep_expired_files'')}
          then (case ttl_db of
              None \<Rightarrow> None
            | Some db \<Rightarrow> (case get_or kvs ''code'' (JStr mount_code) of
                JStr c \<Rightarrow> Some (snd (delete_expired_for_mount c now db))
              | _ \<Rightarrow> Some db))
          else ttl_db
      | _ \<Rightarrow> ttl_db)"

section \<open>Lemmas\<close>

lemma count_register:
  assumes "register c k ip t e reg = Inr reg'"
  shows "count_mounts_by_ip x reg' \<le> count_mounts_by_ip x reg + (if x = ip then 1 else 0)"
proof -
  have le: "length (filter P (delete_where Q xs)) \<le> length (filter P xs)" for P Q and xs :: "mount_row list"
    by (induction xs) (auto simp: delete_where_def)
  obtain row where "mounts reg' = insert_or_replace mcode row (mounts reg)" "agent_ip row = ip"
    using assms by (auto simp: register_def Let_def split: if_splits option.splits)
  with le [of "\<lambda>m. agent_ip m = x \<and> status m \<noteq> EXPIRED" "\<lambda>y. mcode y = mcode row" "mounts reg"]
  show ?thesis by (auto simp: count_mounts_by_ip_def rowcount_def insert_or_replace_def)
qed

lemma rowcount_update_where:
  "(\<And>r. r \<in> set t \<Longrightarrow> p r \<Longrightarrow> q (f r) = q r) \<Longrightarrow> rowcount q (update_where p f t) = rowcount q t"
  by (induction t) (auto simp: rowcount_def update_where_def)

lemma count_take_over:
  assumes "registry_ok reg" and "find_mount c reg = Some m" and "status m = OFFLINE"
  shows "count_mounts_by_ip x (take_over c k reg) = count_mounts_by_ip x reg"
proof -
  have dist: "distinct (map mcode (mounts reg))" using assms(1) by (simp add: registry_ok_def)
  have "r = m" if "r \<in> set (mounts reg)" "mcode r = c" for r
    using that find_mount_code [OF assms(2)] dist by (metis distinct_map inj_onD)
  note uniq = this
  have "rowcount (\<lambda>m. agent_ip m = x \<and> status m \<noteq> EXPIRED)
      (update_where (\<lambda>m. mcode m = c) (\<lambda>m. m\<lparr>status := ONLINE\<rparr>) (mounts reg)) =
    rowcount (\<lambda>m. agent_ip m = x \<and> status m \<noteq> EXPIRED) (mounts reg)"
  proof (rule rowcount_update_where)
    fix r
    assume "r \<in> set (mounts reg)" "mcode r = c"
    then have "r = m" by (rule uniq)
    then show "(agent_ip (r\<lparr>status := ONLINE\<rparr>) = x \<and> status (r\<lparr>status := ONLINE\<rparr>) \<noteq> EXPIRED) =
        (agent_ip r = x \<and> status r \<noteq> EXPIRED)" using assms(3) by simp
  qed
  then show ?thesis by (simp add: count_mounts_by_ip_def take_over_def set_status_def)
qed

lemma store_policy_frame:
  assumes "find_mount c reg \<noteq> None"
  shows "get_policy c (store_policy auth c reg) = Inr \<lparr>policy_code = c, policy_owner = auth_owner auth,
      policy_mode = auth_mode auth, policy_has_password = auth_has_password auth,
      policy_entries = fold (insert_or_replace subject_of) (auth_entries auth) []\<rparr>"
    and "connections (store_policy auth c reg) = connections reg"
    and "map_option status (find_mount c (store_policy auth c reg)) = map_option status (find_mount c reg)"
    and "count_mounts_by_ip x (store_policy auth c reg) = count_mounts_by_ip x reg"
    and "registry_ok reg \<Longrightarrow> registry_ok (store_policy auth c reg)"
    and "access_requests (store_policy auth c reg) = access_requests reg"
proof -
  obtain reg1 where r1: "set_owner_policy c (auth_owner auth) (auth_mode auth) (auth_has_password auth)
      (auth_entries auth) reg = Inr reg1"
    using assms by (auto simp: set_owner_policy_def rowcount_mount)
  define reg2 where "reg2 = (case auth_secret auth of None \<Rightarrow> reg1
    | Some s \<Rightarrow> or_keep (set_identity_secret c s reg1) reg1)"
  have st: "store_policy auth c reg = reg2" by (simp add: store_policy_def r1 or_keep_def [of "Inr reg1"] reg2_def)
  have sec: "reg2 = reg1 \<or> (\<exists>d. reg2 = reg1\<lparr>identity_secrets := d\<rparr>)"
    by (auto simp: reg2_def or_keep_def set_identity_secret_def split: option.splits)
  then have same: "mounts reg2 = mounts reg1" "mount_policy reg2 = mount_policy reg1"
    "connections reg2 = connections reg1" "access_requests reg2 = access_requests reg1" by auto
  then have f: "find_mount c reg2 = find_mount c reg1" "get_policy c reg2 = get_policy c reg1"
    unfolding find_mount_def get_policy_def same(1,2) by simp_all
  show "get_policy c (store_policy auth c reg) = Inr \<lparr>policy_code = c, policy_owner = auth_owner auth,
      policy_mode = auth_mode auth, policy_has_password = auth_has_password auth,
      policy_entries = fold (insert_or_replace subject_of) (auth_entries auth) []\<rparr>"
    using set_owner_policy_get(1) [OF r1] f st by simp
  show "connections (store_policy auth c reg) = connections reg"
    using set_owner_policy_get(3) [OF r1] same st by simp
  have "find_mount c reg1 = map_option (\<lambda>m. m\<lparr>owner_user_id := auth_owner auth, access_mode := auth_mode auth,
      has_password := auth_has_password auth\<rparr>) (find_mount c reg)"
    using set_owner_policy_get(4) [OF r1] by simp
  then show "map_option status (find_mount c (store_policy auth c reg)) = map_option status (find_mount c reg)"
    using f st by (simp add: option.map_comp comp_def)
  have r: "reg1 = reg\<lparr>mounts := update_where (\<lambda>m. mcode m = c)
        (\<lambda>m. m\<lparr>owner_user_id := auth_owner auth, access_mode := auth_mode auth, has_password := auth_has_password auth\<rparr>) (mounts reg),
      mount_policy := fold (put_entry c) (auth_entries auth) (delete_where (\<lambda>r. pcode r = c) (mount_policy reg))\<rparr>"
    using r1 by (auto simp: set_owner_policy_def split: if_splits)
  then show "count_mounts_by_ip x (store_policy auth c reg) = count_mounts_by_ip x reg"
    "access_requests (store_policy auth c reg) = access_requests reg"
    using same st by (simp_all add: count_mounts_by_ip_def rowcount_update_where)
  show "registry_ok (store_policy auth c reg)" if ok: "registry_ok reg"
  proof -
    have "registry_ok reg1" using set_owner_policy_ok [OF ok r1] .
    then show ?thesis using sec st by (auto simp: registry_ok_def live_ok_def reg_simps)
  qed
qed

text \<open>What an assignment leaves in the registry.\<close>

lemma assign_code_cases:
  assumes "registry_ok reg" and "assign_code generated k ip now owner code reg = (a, reg1)"
  obtains (fresh) c where "a = Fresh c" "reg1 = reg"
  | (reclaimed) c ttl m where "a = Reclaimed c ttl" "code = Some c" "reg1 = take_over c k reg"
      "find_mount c reg = Some m" "status m = OFFLINE" "\<not> expired_at now m"
      "agent_ip m = ip \<or> owner \<noteq> None \<and> owner_user_id m = owner" "ttl = remaining_ttl now m"
proof -
  have byip: "try_reclaim c k ip now reg = (None, reg) \<or> (\<exists>m. find_mount c reg = Some m \<and> status m = OFFLINE \<and>
      \<not> expired_at now m \<and> agent_ip m = ip \<and>
      try_reclaim c k ip now reg = (Some (remaining_ttl now m), take_over c k reg))" for c
    by (auto simp: try_reclaim_def split: option.split)
  have byowner: "try_reclaim_as_owner c k ow now reg = (None, reg) \<or> (\<exists>m. find_mount c reg = Some m \<and>
      status m = OFFLINE \<and> \<not> expired_at now m \<and> owner_user_id m = Some ow \<and>
      try_reclaim_as_owner c k ow now reg = (Some (remaining_ttl now m), take_over c k reg))" for c ow
    by (auto simp: try_reclaim_as_owner_def split: option.split)
  show thesis
  proof (cases code)
    case None
    then show ?thesis using assms(2) fresh [of generated] by (auto simp: assign_code_def)
  next
    case (Some c)
    let ?first = "case owner of None \<Rightarrow> (None, reg) | Some o' \<Rightarrow> try_reclaim_as_owner c k o' now reg"
    consider (none) "?first = (None, reg)"
      | (got) m where "?first = (Some (remaining_ttl now m), take_over c k reg)" "find_mount c reg = Some m"
        "status m = OFFLINE" "\<not> expired_at now m" "owner \<noteq> None" "owner_user_id m = owner"
      using byowner [of c] by (cases owner) auto
    then show ?thesis
    proof cases
      case none
      with byip [of c] assms(2) Some fresh reclaimed show ?thesis
        by (auto simp: assign_code_def Let_def split: if_splits)
    next
      case got
      then have "a = Reclaimed c (remaining_ttl now m)" "reg1 = take_over c k reg"
        using assms(2) Some by (simp_all add: assign_code_def Let_def)
      with got Some reclaimed show ?thesis by blast
    qed
  qed
qed

lemma agent_connect_steps:
  assumes "agent_connect config loads str_of db allowed gen k ip now code ttl text reg = Inr (c, t, reg')"
  obtains auth a reg1 reg2 where "admit config allowed ip code reg = Inr ()"
    "read_agent_auth loads str_of db text = Inr auth"
    "assign_code gen k ip now (auth_owner auth) code reg = (a, reg1)"
    "register_assigned config k ip now ttl a reg1 = Inr (c, t, reg2)" "reg' = store_policy auth c reg2"
  using assms
  by (auto simp: agent_connect_def res_bind_eq_Inr split: sum.splits prod.splits)

lemma registered_live:
  assumes "registry_ok reg" and "assign_code gen k ip now owner code reg = (a, reg1)"
    and "register_assigned config k ip now ttl a reg1 = Inr (c, t, reg2)"
  shows "registry_ok reg2" "is_live c k reg2"
    "count_mounts_by_ip x reg2 \<le> count_mounts_by_ip x reg + (if x = ip then 1 else 0)"
    "case a of Fresh c' \<Rightarrow> t \<le> max_ttl_seconds config | Reclaimed c' r \<Rightarrow> code = Some c"
proof -
  have "registry_ok reg2 \<and> is_live c k reg2 \<and>
      count_mounts_by_ip x reg2 \<le> count_mounts_by_ip x reg + (if x = ip then 1 else 0) \<and>
      (case a of Fresh c' \<Rightarrow> t \<le> max_ttl_seconds config | Reclaimed c' r \<Rightarrow> code = Some c)"
  proof (cases rule: assign_code_cases [OF assms(1,2)])
    case (1 c')
    obtain e where r: "register c' (Some k) ip now e reg = Inr reg2" "c' = c" "t = effective_ttl config ttl"
      using assms(3) 1 by (auto simp: register_assigned_def split: sum.splits)
    then show ?thesis
      using register_ok [OF assms(1) r(1)] register_frame(1,2) [OF r(1), of c] count_register [OF r(1), of x] 1
      by (simp add: is_live_def effective_ttl_def split: option.split)
  next
    case (2 c' rem m)
    have r: "reg2 = take_over c k reg" "c' = c" using assms(3) 2 by (auto simp: register_assigned_def)
    have "find_mount c (take_over c k reg) = Some (m\<lparr>status := ONLINE\<rparr>)"
      "map_of (connections (take_over c k reg)) c = Some k"
      using 2 r by (simp_all add: take_over_def reg_simps map_of_update)
    then show ?thesis
      using 2 r take_over_ok [OF assms(1), of c k] count_take_over [OF assms(1), of c m x k]
      by (simp add: is_live_def)
  qed
  then show "registry_ok reg2" "is_live c k reg2"
    "count_mounts_by_ip x reg2 \<le> count_mounts_by_ip x reg + (if x = ip then 1 else 0)"
    "case a of Fresh c' \<Rightarrow> t \<le> max_ttl_seconds config | Reclaimed c' r \<Rightarrow> code = Some c" by auto
qed

lemma read_owner_exists:
  "read_owner loads db tok = Inr (Some i, n) \<Longrightarrow> i \<in> user_ids db"
  using user_exists_iff [of i db]
  by (auto simp: read_owner_def split: if_splits json.splits sum.splits session_exn.splits)

lemma read_agent_auth_owner:
  assumes "read_agent_auth loads str_of db text = Inr auth"
  shows "(auth_mode auth = RESTRICTED \<longrightarrow> auth_owner auth \<noteq> None) \<and>
    (\<forall>i. auth_owner auth = Some i \<longrightarrow> i \<in> user_ids db)"
proof -
  obtain msg where msg: "receive_control text = Inr msg"
    using assms by (cases "receive_control text") (simp_all add: read_agent_auth_def)
  obtain kvs where kvs: "msg = JObj kvs"
    using assms msg by (cases msg) (simp_all add: read_agent_auth_def)
  obtain mode where mode: "parse_AccessMode (get_or kvs ''access_mode'' (JStr ''open'')) = Some mode"
    using assms msg kvs
    by (cases "parse_AccessMode (get_or kvs ''access_mode'' (JStr ''open''))")
      (simp_all add: read_agent_auth_def split: if_splits)
  obtain ow n where o: "read_owner loads db (get_or kvs ''token'' JNull) = Inr (ow, n)"
    using assms msg kvs mode
    by (cases "read_owner loads db (get_or kvs ''token'' JNull)")
      (auto simp: read_agent_auth_def split: if_splits)
  have "\<not> (mode = RESTRICTED \<and> ow = None) \<and> auth_mode auth = mode \<and> auth_owner auth = ow"
    using assms by (simp add: read_agent_auth_def msg kvs mode o Let_def res_bind_eq_Inr split: if_splits)
      auto
  with read_owner_exists [of loads db "get_or kvs ''token'' JNull"] o show ?thesis by auto
qed

section \<open>Properties\<close>

text \<open>A successful connection leaves a consistent registry in which the assigned code leads to the
  agent's tunnel, the stored policy is the one the agent announced (the last entry of a subject
  wins), a restricted mount has an existing account as its owner, a fresh mount's TTL does not
  exceed the configured maximum, a reclaimed code is the one the agent asked for, and the number
  of mounts of the agent's IP does not exceed the cap.\<close>

lemma agent_connect_ok:
  assumes "registry_ok reg"
    and "agent_connect config loads str_of db allowed gen tun ip now code ttl text reg = Inr (c, t, reg')"
  shows "\<exists>auth. read_agent_auth loads str_of db text = Inr auth \<and> registry_ok reg' \<and>
    (\<not> dead tun \<longrightarrow> get_connection dead c reg' = Inr tun) \<and>
    get_policy c reg' = Inr \<lparr>policy_code = c, policy_owner = auth_owner auth, policy_mode = auth_mode auth,
      policy_has_password = auth_has_password auth,
      policy_entries = fold (insert_or_replace subject_of) (auth_entries auth) []\<rparr> \<and>
    (auth_mode auth = RESTRICTED \<longrightarrow> (\<exists>i. auth_owner auth = Some i \<and> i \<in> uid ` set (users db))) \<and>
    (code = Some c \<or> t \<le> max_ttl_seconds config) \<and>
    count_mounts_by_ip ip reg' \<le> max_mounts_per_ip config"
proof -
  obtain auth a reg1 reg2 where s: "admit config allowed ip code reg = Inr ()"
    "read_agent_auth loads str_of db text = Inr auth"
    "assign_code gen tun ip now (auth_owner auth) code reg = (a, reg1)"
    "register_assigned config tun ip now ttl a reg1 = Inr (c, t, reg2)" "reg' = store_policy auth c reg2"
    using agent_connect_steps [OF assms(2)] .
  note l = registered_live [OF assms(1) s(3,4)]
  have some: "find_mount c reg2 \<noteq> None" using l(2) by (auto simp: is_live_def)
  note f = store_policy_frame [OF some, where auth = auth]
  have live: "is_live c tun reg'" using l(2) f(2,3) by (auto simp: s(5) is_live_def)
  have ok: "registry_ok reg'" using f(5) l(1) s(5) by simp
  have cap: "count_mounts_by_ip ip reg' \<le> max_mounts_per_ip config"
    using s(1) l(3) [of ip] f(4) s(5) by (auto simp: admit_def split: if_splits)
  have ttl: "code = Some c \<or> t \<le> max_ttl_seconds config" using l(4) by (auto split: assignment.splits)
  have own: "auth_mode auth = RESTRICTED \<longrightarrow> (\<exists>i. auth_owner auth = Some i \<and> i \<in> uid ` set (users db))"
    using read_agent_auth_owner [OF s(2)] by (auto simp: user_ids_def)
  have "\<not> dead tun \<longrightarrow> get_connection dead c reg' = Inr tun"
    using get_connection_live [OF ok] live by simp
  then show ?thesis using s(2) ok f(1) own ttl cap s(5) by blast
qed

definition demo_auth :: json where
  "demo_auth = JObj [(''type'', JStr ''agent_auth''), (''protocol_version'', JInt 1)]"

definition demo_config :: relay_config where
  "demo_config = \<lparr>max_mounts_per_ip = 3, max_ttl_seconds = 3600, dropbox_code = ''drop''\<rparr>"

lemma demo_auth_read:
  "read_agent_auth loads str_of db (Json demo_auth) = Inr \<lparr>auth_owner = None, auth_owner_name = None,
     auth_mode = OPEN_MODE, auth_has_password = False, auth_entries = [], auth_secret = None\<rparr>"
  by (simp add: read_agent_auth_def demo_auth_def receive_control_def version_matches_def PROTOCOL_VERSION_def
      get_or_def parse_AccessMode_def read_owner_def Let_def)

lemma agent_connect_ok_witness:
  "\<exists>c t reg'. agent_connect demo_config demo_loads (\<lambda>_. []) two_groups True ''gen'' 4 ''ip2'' 10 None None
       (Json demo_auth) fresh_registry = Inr (c, t, reg') \<and>
     get_connection (\<lambda>_. False) c reg' = Inr 4 \<and> count_mounts_by_ip ''ip2'' reg' \<le> 3"
proof -
  obtain c t reg' where r: "agent_connect demo_config demo_loads (\<lambda>_. []) two_groups True ''gen'' 4 ''ip2'' 10
      None None (Json demo_auth) fresh_registry = Inr (c, t, reg')"
    by (simp add: agent_connect_def admit_def demo_config_def count_mounts_by_ip_def rowcount_def
        fresh_registry_def demo_auth_read assign_code_def register_assigned_def register_def Let_def)
  from agent_connect_ok [OF fresh_registry_ok r, of "\<lambda>_. False"] r show ?thesis
    by (auto simp: demo_config_def)
qed

text \<open>Reclaiming by IP ignores ownership. An agent without any login that connects from the IP of
  a restricted, account-owned mount which is offline, and asks for its code, takes the mount over:
  the mount then has no owner, is open, and every anonymous request for it is let through.\<close>

lemma reclaim_by_ip_takes_owned_mount:
  assumes "find_mount c reg = Some m" and "status m = OFFLINE" and "agent_ip m = ip"
    and "\<not> expired_at now m" and "owner_user_id m = Some victim" and "access_mode m = RESTRICTED"
    and "admit config True ip (Some c) reg = Inr ()"
  shows "\<exists>t reg'. agent_connect config loads str_of db True gen tun ip now (Some c) ttl (Json demo_auth) reg
      = Inr (c, t, reg') \<and>
    get_policy c reg' = Inr \<lparr>policy_code = c, policy_owner = None, policy_mode = OPEN_MODE,
      policy_has_password = False, policy_entries = []\<rparr> \<and>
    authorize reg' store c None = Some (Inr (passthrough None))"
proof -
  let ?auth = "\<lparr>auth_owner = None, auth_owner_name = None, auth_mode = OPEN_MODE,
    auth_has_password = False, auth_entries = [], auth_secret = None\<rparr>"
  have "try_reclaim c tun ip now reg = (Some (remaining_ttl now m), take_over c tun reg)"
    using assms(1-4) by (simp add: try_reclaim_def)
  then have con: "agent_connect config loads str_of db True gen tun ip now (Some c) ttl (Json demo_auth) reg =
      Inr (c, remaining_ttl now m, store_policy ?auth c (take_over c tun reg))"
    using assms(7) by (simp add: agent_connect_def demo_auth_read assign_code_def register_assigned_def Let_def)
  have "find_mount c (take_over c tun reg) \<noteq> None" using assms(1) by (simp add: take_over_def reg_simps)
  from store_policy_frame(1) [OF this, where auth = ?auth] con show ?thesis
    by (auto simp: authorize_def fallback_decision_def)
qed

definition demo_offline :: registry where
  "demo_offline = registry_step (MarkOffline ''a'') demo_registry"

lemma demo_offline_find:
  "find_mount ''a'' demo_offline = Some \<lparr>mcode = ''a'', status = OFFLINE, agent_ip = ''ip'', created_at = 0,
     expires_at = Some 100, ttl_warned = False, owner_user_id = Some 5, access_mode = RESTRICTED,
     has_password = False\<rparr>"
  by (simp add: demo_offline_def registry_step_def or_keep_def mark_offline_def find_mount_def fetchone_def
      demo_registry_eq set_status_def update_where_def Let_def)

lemma reclaim_by_ip_takes_owned_mount_witness:
  "\<exists>t reg'. agent_connect demo_config demo_loads (\<lambda>_. []) two_groups True ''gen'' 4 ''ip'' 10 (Some ''a'') None
       (Json demo_auth) demo_offline = Inr (''a'', t, reg') \<and>
     authorize reg' None ''a'' None = Some (Inr (passthrough None))"
proof -
  have adm: "admit demo_config True ''ip'' (Some ''a'') demo_offline = Inr ()"
    by (simp add: admit_def demo_config_def count_mounts_by_ip_def rowcount_def demo_offline_def
        registry_step_def or_keep_def mark_offline_def find_mount_def fetchone_def demo_registry_eq
        set_status_def update_where_def Let_def)
  show ?thesis
    using reclaim_by_ip_takes_owned_mount [OF demo_offline_find _ _ _ _ _ adm, where now = 10 and victim = 5
        and loads = demo_loads and str_of = "\<lambda>_. []" and db = two_groups and gen = "''gen''" and tun = 4
        and ttl = None and store = None]
    by (simp add: expired_at_def) blast
qed

text \<open>Between registering a mount and storing its policy the handler awaits the database. In that
  window a fresh mount is reachable and open to everybody, whatever policy the agent announced:
  the registered row has the schema's default mode.\<close>

lemma registration_window_open:
  assumes "register_assigned config tun ip now ttl (Fresh c) reg = Inr (c, t, reg2)"
    and "mode_default reg \<noteq> RESTRICTED" and "\<not> dead tun"
  shows "get_connection dead c reg2 = Inr tun \<and>
    authorize reg2 store c None = Some (Inr (passthrough None))"
proof -
  obtain e where r: "register c (Some tun) ip now e reg = Inr reg2"
    using assms(1) by (auto simp: register_assigned_def split: sum.splits)
  have "get_connection dead c reg2 = Inr tun" using r assms(3) by (rule sql.get_registered)
  moreover have "find_mount c reg2 \<noteq> None \<and> access_mode (the (find_mount c reg2)) = mode_default reg"
    using register_frame(1) [OF r, of c] by simp
  then have "authorize reg2 store c None = Some (Inr (passthrough None))"
    using assms(2) by (cases "mode_default reg")
      (auto simp: authorize_def get_policy_def fallback_decision_def)
  ultimately show ?thesis by blast
qed

lemma registration_window_open_witness:
  "\<exists>t reg2. register_assigned demo_config 4 ''ip'' 0 None (Fresh ''x'') fresh_registry = Inr (''x'', t, reg2) \<and>
     authorize reg2 None ''x'' None = Some (Inr (passthrough None))"
proof -
  obtain t reg2 where r: "register_assigned demo_config 4 ''ip'' 0 None (Fresh ''x'') fresh_registry = Inr (''x'', t, reg2)"
    by (simp add: register_assigned_def register_def Let_def)
  from registration_window_open [OF r, of "\<lambda>_. False" None] r show ?thesis
    by (auto simp: fresh_registry_def)
qed

text \<open>Approvals do not survive a reconnect. When the agent of a mount reconnects with its own
  allowlist, a user whose access request had been approved and who is not on that list loses the
  entry; the request is still recorded as approved, and asking again changes nothing.\<close>

lemma approval_lost_on_reconnect:
  assumes "find_mount c reg \<noteq> None" and "find_request c u reg = Some req"
    and "(USER, u) \<notin> subject_of ` set (auth_entries auth)"
    and "get_policy c (store_policy auth c reg) = Inr p"
  shows "(USER, u) \<notin> subject_of ` set (policy_entries p) \<and>
    create_access_request c u now (store_policy auth c reg) = (Some req, store_policy auth c reg)"
proof -
  note f = store_policy_frame [OF assms(1), where auth = auth]
  have "set (fold (insert_or_replace subject_of) es acc) \<subseteq> set es \<union> set acc" for es acc
    by (induction es arbitrary: acc) (auto simp: table_simps, fastforce simp: table_simps)
  from this [of "auth_entries auth" "[]"] have "set (policy_entries p) \<subseteq> set (auth_entries auth)"
    using f(1) assms(4) by auto
  moreover have "find_request c u (store_policy auth c reg) = Some req"
    using assms(2) f(6) by (simp add: find_request_def)
  ultimately show ?thesis using assms(3) by (auto simp: create_access_request_def)
qed

lemma approval_lost_on_reconnect_witness:
  "\<exists>p. get_policy ''a'' (store_policy \<lparr>auth_owner = Some 5, auth_owner_name = None, auth_mode = RESTRICTED,
       auth_has_password = False, auth_entries = [], auth_secret = None\<rparr> ''a'' demo_request) = Inr p \<and>
     (USER, 1) \<notin> subject_of ` set (policy_entries p)"
proof -
  let ?auth = "\<lparr>auth_owner = Some 5, auth_owner_name = None, auth_mode = RESTRICTED,
    auth_has_password = False, auth_entries = [], auth_secret = None\<rparr>"
  have f: "find_mount ''a'' demo_request \<noteq> None"
    by (simp add: find_mount_def fetchone_def demo_request_def demo_registry_eq)
  have r: "\<exists>req. find_request ''a'' 1 demo_request = Some req"
    by (simp add: find_request_def fetchone_def demo_request_def)
  obtain p where p: "get_policy ''a'' (store_policy ?auth ''a'' demo_request) = Inr p"
    using store_policy_frame(1) [OF f, where auth = ?auth] by blast
  from r obtain req where "find_request ''a'' 1 demo_request = Some req" ..
  from approval_lost_on_reconnect [OF f this _ p] p show ?thesis by auto
qed

text \<open>A heartbeat that failed with an exception keeps the mount from being reclaimed. \<open>close()\<close>
  re-raises the heartbeat's exception, so the handler leaves before it marks the mount offline:
  the row stays \<open>ONLINE\<close>, and when the agent reconnects and asks for its code, from any IP and as
  any owner, it is given the freshly generated one instead.\<close>

lemma failed_heartbeat_blocks_reclaim:
  assumes "hb_task t = HbFailed e" and "\<not> is_closed t" and "find_mount c reg = Some m" and "status m = ONLINE"
  shows "assign_code generated tun' ip' now owner (Some c)
    (agent_disconnect (\<not> is_ok (fst (close_conn t))) c reg) = (Fresh generated, reg)"
proof -
  have "fst (close_conn t) = Inl (Ws e)"
    using assms(1,2) by (simp add: close_conn_def Let_def conn_frame)
  then have d: "agent_disconnect (\<not> is_ok (fst (close_conn t))) c reg = reg"
    by (simp add: agent_disconnect_def)
  have "try_reclaim c tun' ip' now reg = (None, reg)"
    "\<And>w. try_reclaim_as_owner c tun' w now reg = (None, reg)"
    using assms(3,4) by (simp_all add: try_reclaim_def try_reclaim_as_owner_def)
  with d assms(3) show ?thesis by (simp add: assign_code_def has_mount_def Let_def split: option.split)
qed

lemma failed_heartbeat_blocks_reclaim_witness:
  "assign_code ''gen'' 9 ''ip'' 10 (Some 5) (Some ''a'')
     (agent_disconnect (\<not> is_ok (fst (close_conn (TunnelConnection_init\<lparr>hb_task := HbFailed RuntimeError\<rparr>)))) ''a'' demo_registry)
   = (Fresh ''gen'', demo_registry)"
proof -
  obtain m where "find_mount ''a'' demo_registry = Some m" "status m = ONLINE"
    by (simp add: find_mount_def fetchone_def demo_registry_eq)
  then show ?thesis
    using failed_heartbeat_blocks_reclaim [of "TunnelConnection_init\<lparr>hb_task := HbFailed RuntimeError\<rparr>" RuntimeError]
    by (simp add: TunnelConnection_init_def)
qed

text \<open>The control message about expired files names the mount it is for, and the relay does not
  check that it is the sender's. An agent registered under any code can clear the expired records
  of the drop box; the file sweep that follows then removes none of its files.\<close>

lemma agent_control_crosses_mounts:
  assumes "handle_agent_control_for_mount
      (JObj [(''type'', JStr ''keep_expired_files''), (''code'', JStr dropbox)]) mount_code now (Some db) = Some db'"
  shows "ttl_rows db' = filter (\<lambda>r. \<not> (ttl_mount r = dropbox \<and> ttl_expires_at r \<le> now)) (ttl_rows db) \<and>
    (case file_ttl_sweep_once dropbox now (db', fs) of (deleted, db'', fs') \<Rightarrow> set (fs_files fs') = set (fs_files fs))"
proof -
  have "db' = snd (delete_expired_for_mount dropbox now db)"
    using assms by (simp add: handle_agent_control_for_mount_def get_or_def)
  then have rows: "ttl_rows db' = filter (\<lambda>r. \<not> (ttl_mount r = dropbox \<and> ttl_expires_at r \<le> now)) (ttl_rows db)"
    by (auto simp: delete_expired_for_mount_def Let_def delete_where_def filter_empty_conv intro: filter_True [symmetric])
  obtain deleted db'' fs' where s: "fold (sweep_file dropbox) (get_expired now db') (db', fs, []) = (db'', fs', deleted)"
    by (cases "fold (sweep_file dropbox) (get_expired now db') (db', fs, [])")
  have "targets dropbox (get_expired now db') = {}" by (auto simp: targets_def get_expired_def rows)
  with sweep_files_fold [OF s] s rows show ?thesis by (simp add: file_ttl_sweep_once_def)
qed

lemma agent_control_crosses_mounts_witness:
  "\<exists>db'. handle_agent_control_for_mount
      (JObj [(''type'', JStr ''keep_expired_files''), (''code'', JStr ''drop'')]) ''mine'' 10
      (Some (record_file_ttl ''drop'' ''/a'' 5 0 init_table)) = Some db' \<and> ttl_rows db' = []"
proof -
  let ?db = "record_file_ttl ''drop'' ''/a'' 5 0 init_table"
  have rows: "ttl_rows ?db = [\<lparr>ttl_id = 1, ttl_mount = ''drop'', ttl_path = ''/a'', ttl_expires_at = 5, ttl_created_at = 0\<rparr>]"
    by (simp add: record_file_ttl_def init_table_def insert_or_replace_def delete_where_def)
  obtain db' where h: "handle_agent_control_for_mount
      (JObj [(''type'', JStr ''keep_expired_files''), (''code'', JStr ''drop'')]) ''mine'' 10 (Some ?db) = Some db'"
    by (simp add: handle_agent_control_for_mount_def get_or_def)
  from agent_control_crosses_mounts [OF h, of "\<lparr>fs_files = [], fs_locked = []\<rparr>"] h rows show ?thesis by auto
qed

end
