(* ===== verification/Mount_Transport.thy ===== *)
theory Mount_Transport
  imports Proxy_Identity
begin

text \<open>
  One HTTP exchange through a mount, at both ends of the tunnel: the metadata of a request
  (\<open>tunnel/metadata.py\<close>, \<open>send_open\<close> of \<open>tunnel/connection.py\<close>), what the relay does after a request was
  admitted (\<open>relay/app/routers/mount_proxy.py\<close>: opening the stream, sending the body, reading the
  response), the agent's side (\<open>agent/proxy.py\<close>, \<open>on_open\<close> of \<open>agent/connection.py\<close>), and the
  rewriting of HTML (\<open>relay/app/services/html_rewriter.py\<close>).

  The application behind the agent is a function from requests to responses or an exception, and
  the codec of a charset is an argument. The outcome of each send is an argument, as in
  \<open>Tunnel\<close>. A response or a request body is the list of its chunks.
\<close>

section \<open>Metadata (tunnel/metadata.py)\<close>

definition METADATA_MAX_BYTES :: nat where "METADATA_MAX_BYTES = 16384"

record RequestMetadata =
  rm_method :: str
  rm_path :: str
  rm_query :: str
  rm_headers :: headers
  rm_content_length :: int

record WsOpenMetadata =
  wm_path :: str
  wm_query :: str
  wm_headers :: headers

definition headers_json :: "headers \<Rightarrow> json" where
  "headers_json hs = JObj (map (\<lambda>(k, v). (k, JStr v)) hs)"

definition cap_payload :: "bytes \<Rightarrow> (tunnel_exn, bytes) result" where
  "cap_payload payload = (if length payload > METADATA_MAX_BYTES then Inl MetadataTooLargeError else Inr payload)"

definition to_payload :: "RequestMetadata \<Rightarrow> (tunnel_exn, bytes) result" where
  "to_payload m = cap_payload (json_dumps (JObj [(''method'', JStr (rm_method m)), (''path'', JStr (rm_path m)),
     (''query'', JStr (rm_query m)), (''headers'', headers_json (rm_headers m)), (''content_length'', JInt (rm_content_length m))]))"

definition ws_to_payload :: "WsOpenMetadata \<Rightarrow> (tunnel_exn, bytes) result" where
  "ws_to_payload m = cap_payload (json_dumps (JObj [(''path'', JStr (wm_path m)), (''query'', JStr (wm_query m)),
     (''headers'', headers_json (wm_headers m))]))"

definition require_str :: "(str \<times> json) list \<Rightarrow> str \<Rightarrow> (tunnel_exn, str) result" where
  "require_str obj key = (case map_of obj key of Some (JStr s) \<Rightarrow> Inr s | _ \<Rightarrow> Inl MetadataError)"

fun str_values :: "(str \<times> json) list \<Rightarrow> headers option" where
  "str_values [] = Some []"
| "str_values ((k, JStr v) # kvs) = map_option (\<lambda>hs. (k, v) # hs) (str_values kvs)"
| "str_values ((k, _) # kvs) = None"

definition require_headers :: "(str \<times> json) list \<Rightarrow> (tunnel_exn, headers) result" where
  "require_headers obj = (case map_of obj ''headers'' of
     Some (JObj kvs) \<Rightarrow> (case str_values kvs of Some hs \<Rightarrow> Inr hs | None \<Rightarrow> Inl MetadataError)
   | _ \<Rightarrow> Inl MetadataError)"

definition parse_json :: "bytes \<Rightarrow> (tunnel_exn, (str \<times> json) list) result" where
  "parse_json raw = (case json_loads raw of Some (JObj kvs) \<Rightarrow> Inr kvs | _ \<Rightarrow> Inl MetadataError)"

definition from_payload :: "bytes \<Rightarrow> (tunnel_exn, RequestMetadata) result" where
  "from_payload raw =
     (if length raw > METADATA_MAX_BYTES then Inl MetadataTooLargeError
      else res_bind (parse_json raw) (\<lambda>obj.
        res_bind (case map_of obj ''content_length'' of None \<Rightarrow> Inr 0 | Some (JInt i) \<Rightarrow> Inr i | _ \<Rightarrow> Inl MetadataError) (\<lambda>content_length.
        res_bind (require_str obj ''method'') (\<lambda>mth.
        res_bind (require_str obj ''path'') (\<lambda>pth.
        res_bind (require_str obj ''query'') (\<lambda>qry.
        res_bind (require_headers obj) (\<lambda>hs.
          Inr \<lparr>rm_method = mth, rm_path = pth, rm_query = qry, rm_headers = hs, rm_content_length = content_length\<rparr>)))))))"

definition ws_from_payload :: "bytes \<Rightarrow> (tunnel_exn, WsOpenMetadata) result" where
  "ws_from_payload raw =
     (if length raw > METADATA_MAX_BYTES then Inl MetadataTooLargeError
      else res_bind (parse_json raw) (\<lambda>obj.
        res_bind (require_str obj ''path'') (\<lambda>pth.
        res_bind (require_str obj ''query'') (\<lambda>qry.
        res_bind (require_headers obj) (\<lambda>hs.
          Inr \<lparr>wm_path = pth, wm_query = qry, wm_headers = hs\<rparr>)))))"

definition send_open :: "uuid \<Rightarrow> RequestMetadata \<Rightarrow> ws_exn option \<Rightarrow> tunnel \<Rightarrow> (conn_exn, tunnel) result" where
  "send_open request_id metadata out c =
     res_bind (lift_tun (res_bind (to_payload metadata) (serialize_frame OPEN request_id))) (\<lambda>frame. guarded_send frame out c)"

definition send_ws_open :: "uuid \<Rightarrow> WsOpenMetadata \<Rightarrow> ws_exn option \<Rightarrow> tunnel \<Rightarrow> (conn_exn, tunnel) result" where
  "send_ws_open ws_id metadata out c =
     res_bind (lift_tun (res_bind (ws_to_payload metadata) (serialize_frame WS_OPEN ws_id))) (\<lambda>frame. guarded_send frame out c)"

section \<open>The relay sends a request (mount_proxy.py)\<close>

text \<open>The chunks of at most \<open>MAX_PAYLOAD_BYTES\<close> a chunk of the body is sent in.\<close>

function split_chunk :: "bytes \<Rightarrow> bytes list" where
  "split_chunk chunk = (if chunk = [] then []
     else take MAX_PAYLOAD_BYTES chunk # split_chunk (drop MAX_PAYLOAD_BYTES chunk))"
  by pat_completeness auto
termination
  by (relation "measure length") (auto simp: MAX_PAYLOAD_BYTES_def)

declare split_chunk.simps [simp del]

text \<open>The outcome of the \<open>i\<close>-th send of a handler is \<open>out i\<close>; the second result is the tunnel with what was
  sent before a send raised.\<close>

fun send_parts :: "(nat \<Rightarrow> ws_exn option) \<Rightarrow> nat \<Rightarrow> uuid \<Rightarrow> bytes list \<Rightarrow> tunnel \<Rightarrow> (conn_exn, nat) result \<times> tunnel" where
  "send_parts out i rid [] c = (Inr i, c)"
| "send_parts out i rid (p # ps) c = (case send_data rid p (out i) c of
     Inl e \<Rightarrow> (Inl e, c) | Inr c' \<Rightarrow> send_parts out (i + 1) rid ps c')"

datatype body_end = BodyEnd | ClientDisconnect

datatype sent_request = RequestSent | TooLarge431 | ConnectionLost503 | RaisedConn conn_exn | RaisedDisconnect

definition proxy_failed :: "uuid \<Rightarrow> conn_exn \<Rightarrow> tunnel \<Rightarrow> sent_request \<times> tunnel" where
  "proxy_failed rid e c =
     (if e = Tun MetadataTooLargeError then (TooLarge431, remove_stream rid c)
      else if e = Tun TunnelSendError then (ConnectionLost503, remove_stream rid c)
      else (RaisedConn e, c))"

definition proxy_send ::
  "(nat \<Rightarrow> ws_exn option) \<Rightarrow> uuid \<Rightarrow> RequestMetadata \<Rightarrow> bytes list \<Rightarrow> body_end \<Rightarrow> tunnel \<Rightarrow> sent_request \<times> tunnel" where
  "proxy_send out rid metadata chunks body_result c = (case open_stream rid c of
     Inl e \<Rightarrow> (RaisedConn (Tun e), c)
   | Inr (ref, c1) \<Rightarrow> (case send_open rid metadata (out 0) c1 of
       Inl e \<Rightarrow> proxy_failed rid e c1
     | Inr c2 \<Rightarrow> (case send_parts out 1 rid (concat (map split_chunk chunks)) c2 of
         (Inl e, c3) \<Rightarrow> proxy_failed rid e c3
       | (Inr i, c3) \<Rightarrow> (case body_result of
           ClientDisconnect \<Rightarrow> (RaisedDisconnect, c3)
         | BodyEnd \<Rightarrow> (case send_data rid [] (out i) c3 of
             Inl e \<Rightarrow> proxy_failed rid e c3
           | Inr c4 \<Rightarrow> (RequestSent, c4))))))"

section \<open>The agent (agent/connection.py, agent/proxy.py)\<close>

record asgi_request =
  aq_method :: str
  aq_url :: str
  aq_headers :: headers
  aq_body :: bytes

record asgi_response =
  ar_status :: int
  ar_headers :: headers
  ar_body :: bytes

text \<open>\<open>None\<close> is an exception of the application, which \<open>httpx\<close>'s ASGI transport raises in the caller.
  The headers are \<open>dict(response.headers)\<close>, the body is what \<open>aiter_bytes\<close> yields in all.\<close>

type_synonym asgi_app = "asgi_request \<Rightarrow> asgi_response option"

definition status_payload :: "int \<Rightarrow> headers \<Rightarrow> bytes" where
  "status_payload st hs = json_dumps (JObj [(''status'', JInt st), (''headers'', headers_json hs)])"

text \<open>\<open>_reject_open\<close>: every exception is swallowed.\<close>

definition reject_open :: "(nat \<Rightarrow> ws_exn option) \<Rightarrow> uuid \<Rightarrow> tunnel \<Rightarrow> tunnel" where
  "reject_open out rid c = (case send_data rid (status_payload 400 []) (out 0) c of
     Inl e \<Rightarrow> c | Inr c1 \<Rightarrow> (case send_close rid (out 1) c1 of Inl e \<Rightarrow> c1 | Inr c2 \<Rightarrow> c2))"

text \<open>A handler that was spawned, by how far it is: not started, waiting for the next frame of the body
  (with the stream object it holds and the parts so far), or ended.\<close>

datatype agent_outcome = AgentDone | AgentQuiet | AgentRaised

datatype agent_task =
    TaskNew uuid RequestMetadata
  | TaskReading uuid RequestMetadata nat "bytes list"
  | TaskEnded agent_outcome

datatype on_open_result = OpenRejected tunnel | OpenSpawned agent_task tunnel | OpenRaised tunnel_exn

definition on_open :: "(nat \<Rightarrow> ws_exn option) \<Rightarrow> uuid \<Rightarrow> bytes \<Rightarrow> tunnel \<Rightarrow> on_open_result" where
  "on_open out rid payload c = (case from_payload payload of
     Inl e \<Rightarrow> OpenRejected (reject_open out rid c)
   | Inr metadata \<Rightarrow> (case open_stream rid c of
       Inl e \<Rightarrow> OpenRaised e
     | Inr (ref, c') \<Rightarrow> OpenSpawned (TaskNew rid metadata) c'))"

definition agent_request :: "RequestMetadata \<Rightarrow> bytes \<Rightarrow> asgi_request" where
  "agent_request metadata content = \<lparr>aq_method = rm_method metadata,
     aq_url = ''http://local'' @ rm_path metadata @ (if rm_query metadata \<noteq> [] then CHR ''?'' # rm_query metadata else []),
     aq_headers = rm_headers metadata, aq_body = content\<rparr>"

text \<open>The loop that collects the body: it takes frames from the queue until an empty one, or until it has to
  wait for the next (\<open>Inl\<close>, with the parts so far).\<close>

fun read_body :: "bytes list \<Rightarrow> bytes list \<Rightarrow> (bytes list + bytes) \<times> bytes list" where
  "read_body parts [] = (Inl parts, [])"
| "read_body parts (chunk # q) =
     (if chunk = [] then (Inr (concat parts), q) else read_body (parts @ [chunk]) q)"

text \<open>\<open>StreamNotFoundError\<close> ends the handler quietly.\<close>

definition agent_failed :: "conn_exn \<Rightarrow> agent_outcome" where
  "agent_failed e = (if e = Tun StreamNotFoundError then AgentQuiet else AgentRaised)"

definition agent_respond ::
  "asgi_app \<Rightarrow> (nat \<Rightarrow> ws_exn option) \<Rightarrow> uuid \<Rightarrow> RequestMetadata \<Rightarrow> bytes \<Rightarrow> tunnel \<Rightarrow> agent_outcome \<times> tunnel" where
  "agent_respond app out rid metadata content c =
     (let c1 = remove_stream rid c in
      case app (agent_request metadata content) of
        None \<Rightarrow> (AgentRaised, c1)
      | Some response \<Rightarrow>
          (case send_data rid (status_payload (ar_status response) (ar_headers response)) (out 0) c1 of
             Inl e \<Rightarrow> (agent_failed e, c1)
           | Inr c2 \<Rightarrow> (case send_parts out 1 rid (split_chunk (ar_body response)) c2 of
               (Inl e, c3) \<Rightarrow> (agent_failed e, c3)
             | (Inr i, c3) \<Rightarrow> (case send_close rid (out i) c3 of
                 Inl e \<Rightarrow> (agent_failed e, c3)
               | Inr c4 \<Rightarrow> (AgentDone, c4)))))"

definition handler_read ::
  "asgi_app \<Rightarrow> (nat \<Rightarrow> ws_exn option) \<Rightarrow> uuid \<Rightarrow> RequestMetadata \<Rightarrow> nat \<Rightarrow> bytes list \<Rightarrow> tunnel \<Rightarrow> agent_task \<times> tunnel" where
  "handler_read app out rid metadata ref parts c =
     (let (r, q) = read_body parts (queue (objs c ! ref));
          c' = c\<lparr>objs := (objs c)[ref := (objs c ! ref)\<lparr>queue := q\<rparr>]\<rparr>
      in case r of
           Inl parts' \<Rightarrow> (TaskReading rid metadata ref parts', c')
         | Inr content \<Rightarrow> (case agent_respond app out rid metadata content c' of (o', c'') \<Rightarrow> (TaskEnded o', c'')))"

text \<open>\<open>handle_open_frame\<close>, from where it is to its next wait or its end.\<close>

fun handle_open_frame ::
  "asgi_app \<Rightarrow> (nat \<Rightarrow> ws_exn option) \<Rightarrow> agent_task \<Rightarrow> tunnel \<Rightarrow> agent_task \<times> tunnel" where
  "handle_open_frame app out (TaskNew rid metadata) c = (case get_stream rid c of
     Inl e \<Rightarrow> (TaskEnded AgentRaised, c)
   | Inr ref \<Rightarrow> handler_read app out rid metadata ref [] c)"
| "handle_open_frame app out (TaskReading rid metadata ref parts) c = handler_read app out rid metadata ref parts c"
| "handle_open_frame app out (TaskEnded o') c = (TaskEnded o', c)"

text \<open>One frame at the agent: its receive loop, then every handler. \<open>None\<close> is the end of the loop (an
  exception out of \<open>on_open\<close> ends it too) or its wait for a full queue.\<close>

fun resume_all ::
  "asgi_app \<Rightarrow> (nat \<Rightarrow> ws_exn option) \<Rightarrow> agent_task list \<Rightarrow> tunnel \<Rightarrow> agent_task list \<times> tunnel" where
  "resume_all app out [] c = ([], c)"
| "resume_all app out (t # ts) c = (case handle_open_frame app out t c of (t', c') \<Rightarrow>
     (case resume_all app out ts c' of (ts', c'') \<Rightarrow> (t' # ts', c'')))"

definition agent_loop_once :: "(nat \<Rightarrow> ws_exn option) \<Rightarrow> bytes \<Rightarrow> agent_task list \<times> tunnel \<Rightarrow> (agent_task list \<times> tunnel) option" where
  "agent_loop_once out raw a = (case run_receive_loop_once True (out 0) (FBytes raw) (snd a) of
     RxContinue c' \<Rightarrow> Some (fst a, c')
   | RxOnOpen rid payload \<Rightarrow> (case on_open out rid payload (snd a) of
       OpenRejected c' \<Rightarrow> Some (fst a, c')
     | OpenSpawned t c' \<Rightarrow> Some (fst a @ [t], c')
     | OpenRaised e \<Rightarrow> None)
   | _ \<Rightarrow> None)"

fun agent_serve :: "asgi_app \<Rightarrow> (nat \<Rightarrow> ws_exn option) \<Rightarrow> ws_frame list \<Rightarrow> agent_task list \<times> tunnel \<Rightarrow> (agent_task list \<times> tunnel) option" where
  "agent_serve app out [] a = Some a"
| "agent_serve app out (WsBytes raw # fs) a = (case agent_loop_once out raw a of
     None \<Rightarrow> None | Some a' \<Rightarrow> agent_serve app out fs (resume_all app out (fst a') (snd a')))"
| "agent_serve app out (WsText m # fs) a = agent_serve app out fs a"

section \<open>HTML rewriting (services/html_rewriter.py)\<close>

definition HTML_REWRITE_MAX_BYTES :: nat where "HTML_REWRITE_MAX_BYTES = 5 * 1024 * 1024"

text \<open>The attribute at the start of the text when \<open>_ASSET_PATH_RE\<close> matches there: the group the pattern
  captures, which a slash follows that is not that of \<open>/m/\<close>.\<close>

definition attributes :: "str list" where
  "attributes = [''src='' @ [CHR 0x22], ''src='' @ [CHR 0x27], ''href='' @ [CHR 0x22], ''href='' @ [CHR 0x27]]"

definition asset_attribute :: "str \<Rightarrow> str option" where
  "asset_attribute s =
     List.find (\<lambda>a. prefix (a @ ''/'') s \<and> \<not> prefix (a @ ''/m/'') s) attributes"

lemma find_SomeD: "List.find P xs = Some x \<Longrightarrow> x \<in> set xs \<and> P x"
  by (induction xs) (auto split: if_splits)

lemma asset_attribute_SomeD:
  "asset_attribute s = Some a \<Longrightarrow> a \<in> set attributes \<and> prefix (a @ ''/'') s \<and> \<not> prefix (a @ ''/m/'') s"
  unfolding asset_attribute_def by (drule find_SomeD) simp

function rewrite_html_asset_paths :: "str \<Rightarrow> str \<Rightarrow> str" where
  "rewrite_html_asset_paths html mount_prefix = (case html of
     [] \<Rightarrow> []
   | c # cs \<Rightarrow> (case asset_attribute html of
       Some a \<Rightarrow> a @ mount_prefix @ ''/'' @ rewrite_html_asset_paths (drop (Suc (length a)) html) mount_prefix
     | None \<Rightarrow> c # rewrite_html_asset_paths cs mount_prefix))"
  by pat_completeness auto
termination
  by (relation "measure (length \<circ> fst)") simp_all

declare rewrite_html_asset_paths.simps [simp del]

text \<open>\<open>_CHARSET_RE.search\<close>: the first place where the name, in any case, is followed by a value.\<close>

fun charset_search :: "str \<Rightarrow> str option" where
  "charset_search [] = None"
| "charset_search (c # cs) =
     (let v = takeWhile (\<lambda>x. \<not> py_space x \<and> x \<noteq> CHR '';'') (drop 8 (c # cs))
      in if map py_lower_char (take 8 (c # cs)) = ''charset='' \<and> v \<noteq> [] then Some v else charset_search cs)"

definition strip_quotes :: "str \<Rightarrow> str" where
  "strip_quotes s = (let q = (\<lambda>c. c \<in> {CHR 0x22, CHR 0x27}) in rev (dropWhile q (rev (dropWhile q s))))"

definition charset_from_content_type :: "str \<Rightarrow> str" where
  "charset_from_content_type content_type = (case charset_search content_type of
     None \<Rightarrow> ''utf-8'' | Some v \<Rightarrow> py_lower (strip_quotes v))"

text \<open>A codec: the decoder by the charset's name (\<open>None\<close> for an unknown charset or for bytes it does not
  accept) and the encoder.\<close>

type_synonym codec = "(str \<Rightarrow> bytes \<Rightarrow> str option) \<times> (str \<Rightarrow> str \<Rightarrow> bytes)"

definition rewrite_html_body :: "codec \<Rightarrow> bytes \<Rightarrow> str \<Rightarrow> str \<Rightarrow> bytes" where
  "rewrite_html_body codec body content_type mount_prefix =
     (if length body > HTML_REWRITE_MAX_BYTES then body
      else let charset = charset_from_content_type content_type in
        case fst codec charset body of
          None \<Rightarrow> body
        | Some t \<Rightarrow> snd codec charset (rewrite_html_asset_paths t mount_prefix))"

section \<open>The relay reads the response (mount_proxy.py)\<close>

record response_meta =
  rs_status :: int
  rs_headers :: headers
  rs_content_type :: str

text \<open>The first chunk. \<open>None\<close> is an exception: a chunk that is not a JSON object, \<open>headers\<close> that are none,
  or a value of a kept header or of \<open>status\<close> that the response class does not accept.\<close>

definition first_chunk_meta :: "bytes \<Rightarrow> response_meta option" where
  "first_chunk_meta first_chunk = (case json_loads first_chunk of
     Some (JObj kvs) \<Rightarrow>
       (case (case map_of kvs ''status'' of None \<Rightarrow> Some 200 | Some (JInt i) \<Rightarrow> Some i | _ \<Rightarrow> None) of
          None \<Rightarrow> None
        | Some st \<Rightarrow>
            (case (case map_of kvs ''headers'' of
                     None \<Rightarrow> Some []
                   | Some (JObj hs) \<Rightarrow> str_values (filter (\<lambda>(k, v). py_lower k \<notin> set HOP_BY_HOP) hs)
                   | _ \<Rightarrow> None) of
               None \<Rightarrow> None
             | Some hs \<Rightarrow> Some \<lparr>rs_status = st, rs_headers = AList.delete ''content-type'' hs,
                 rs_content_type = (case map_of hs ''content-type'' of
                   None \<Rightarrow> ''application/octet-stream'' | Some t \<Rightarrow> t)\<rparr>))
   | _ \<Rightarrow> None)"

text \<open>The loop that buffers an HTML body: what it took, what it left to the generator, and whether it went
  over the cap.\<close>

fun buffer_html :: "nat \<Rightarrow> bytes list \<Rightarrow> bytes list \<times> bytes list \<times> bool" where
  "buffer_html buffered [] = ([], [], False)"
| "buffer_html buffered (chunk # rest) =
     (if buffered + length chunk > HTML_REWRITE_MAX_BYTES then ([chunk], rest, True)
      else case buffer_html (buffered + length chunk) rest of (parts, left, over) \<Rightarrow> (chunk # parts, left, over))"

record http_reply =
  hr_status :: int
  hr_headers :: headers
  hr_media_type :: str
  hr_body :: bytes

definition tunnel_reply :: "codec \<Rightarrow> str \<Rightarrow> response_meta \<Rightarrow> bytes list \<Rightarrow> http_reply" where
  "tunnel_reply codec code m chunks =
     (if py_startswith (rs_content_type m) ''text/html'' then
        (case buffer_html 0 chunks of (body_parts, rest, over_cap) \<Rightarrow>
           if \<not> over_cap then
             \<lparr>hr_status = rs_status m, hr_headers = AList.delete ''content-length'' (rs_headers m),
              hr_media_type = rs_content_type m,
              hr_body = rewrite_html_body codec (concat body_parts) (rs_content_type m) (''/m/'' @ code)\<rparr>
           else \<lparr>hr_status = rs_status m, hr_headers = rs_headers m, hr_media_type = rs_content_type m,
                 hr_body = concat (body_parts @ rest)\<rparr>)
      else \<lparr>hr_status = rs_status m, hr_headers = rs_headers m, hr_media_type = rs_content_type m,
            hr_body = concat chunks\<rparr>)"

text \<open>A response of a local mount, which is forwarded in the process.\<close>

definition local_reply :: "codec \<Rightarrow> str \<Rightarrow> asgi_response \<Rightarrow> http_reply" where
  "local_reply codec code resp =
     (let ct = (case map_of (ar_headers resp) ''content-type'' of None \<Rightarrow> ''application/octet-stream'' | Some t \<Rightarrow> t) in
      if py_startswith ct ''text/html'' then
        \<lparr>hr_status = ar_status resp,
         hr_headers = filter (\<lambda>(k, v). py_lower k \<notin> set HOP_BY_HOP \<and> py_lower k \<noteq> ''content-length'') (ar_headers resp),
         hr_media_type = ct, hr_body = rewrite_html_body codec (ar_body resp) ct (''/m/'' @ code)\<rparr>
      else
        \<lparr>hr_status = ar_status resp, hr_headers = filter (\<lambda>(k, v). py_lower k \<notin> set HOP_BY_HOP) (ar_headers resp),
         hr_media_type = ct, hr_body = ar_body resp\<rparr>)"

text \<open>The handler of the relay after the request was sent: it waits for the first chunk, then the reply's
  body is what the generator over the stream yields. \<open>gone\<close> is \<open>request.is_disconnected()\<close>, which only the
  generators ask, not the loop that buffers HTML.\<close>

datatype relay_reader =
    FirstWait
  | BodyWait response_meta nat iter_pc "bytes list"
  | ReplyDone response_meta "bytes list"
  | ReplyCancelled
  | Gateway504
  | ReaderRaised

definition first_byte_timeout :: "ws_exn option \<Rightarrow> uuid \<Rightarrow> tunnel \<Rightarrow> relay_reader \<times> tunnel" where
  "first_byte_timeout out rid c = (Gateway504,
     remove_stream rid (case send_cancel rid out c of Inl e \<Rightarrow> c | Inr c' \<Rightarrow> c'))"

definition generator_asks :: "response_meta \<Rightarrow> bytes list \<Rightarrow> bool" where
  "generator_asks m got \<longleftrightarrow>
     \<not> prefix ''text/html'' (rs_content_type m) \<or> length (concat got) > HTML_REWRITE_MAX_BYTES"

fun pump :: "nat \<Rightarrow> bool \<Rightarrow> ws_exn option \<Rightarrow> uuid \<Rightarrow> response_meta \<Rightarrow> nat \<Rightarrow> iter_pc \<Rightarrow> bytes list \<Rightarrow> tunnel \<Rightarrow> relay_reader \<times> tunnel" where
  "pump 0 gone out rid m ref pc got c = (BodyWait m ref pc got, c)"
| "pump (Suc n) gone out rid m ref pc got c = (case iter_resume True rid ref pc c of
     (Yield x, pc', c') \<Rightarrow>
       if gone \<and> generator_asks m got then
         (case send_cancel rid out c' of
            Inl e \<Rightarrow> (ReaderRaised, remove_stream rid c')
          | Inr c'' \<Rightarrow> (ReplyCancelled, remove_stream rid c''))
       else pump n gone out rid m ref pc' (got @ [x]) c'
   | (Suspended, pc', c') \<Rightarrow> (BodyWait m ref pc' got, c')
   | (Stop, pc', c') \<Rightarrow> (ReplyDone m got, remove_stream rid c'))"

definition queue_len :: "nat \<Rightarrow> tunnel \<Rightarrow> nat" where
  "queue_len ref c = length (queue (objs c ! ref))"

fun relay_resume :: "bool \<Rightarrow> ws_exn option \<Rightarrow> uuid \<Rightarrow> relay_reader \<Rightarrow> tunnel \<Rightarrow> relay_reader \<times> tunnel" where
  "relay_resume gone out rid FirstWait c = (case read_stream False rid c of
     ReadRaise e \<Rightarrow> (ReaderRaised, c)
   | WaitingForData \<Rightarrow> (FirstWait, c)
   | Got x c' \<Rightarrow> (case first_chunk_meta x of
       None \<Rightarrow> (ReaderRaised, c')
     | Some m \<Rightarrow> (case get_stream rid c' of
         Inl e \<Rightarrow> (ReaderRaised, c')
       | Inr ref \<Rightarrow> pump (Suc (Suc (queue_len ref c'))) gone out rid m ref IterLoop [] c')))"
| "relay_resume gone out rid (BodyWait m ref pc got) c =
     pump (Suc (Suc (queue_len ref c))) gone out rid m ref pc got c"
| "relay_resume gone out rid r c = (r, c)"

fun relay_receive :: "uuid \<Rightarrow> ws_frame list \<Rightarrow> relay_reader \<times> tunnel \<Rightarrow> (relay_reader \<times> tunnel) option" where
  "relay_receive rid [] a = Some a"
| "relay_receive rid (WsBytes raw # fs) a =
     (case run_receive_loop_once False None (FBytes raw) (snd a) of
        RxContinue c' \<Rightarrow> relay_receive rid fs (relay_resume False None rid (fst a) c')
      | _ \<Rightarrow> None)"
| "relay_receive rid (WsText m # fs) a = relay_receive rid fs a"

section \<open>Lemmas\<close>

subsection \<open>Metadata\<close>

lemma str_values_headers: "str_values (map (\<lambda>(k, v). (k, JStr v)) hs) = Some hs"
  by (induction hs) auto

lemma headers_json_plain: "distinct (map fst hs) \<Longrightarrow> json_plain (headers_json hs)"
  by (auto simp: headers_json_def comp_def case_prod_beta)

lemma cap_payload_Inr: "cap_payload p = Inr q \<longleftrightarrow> q = p \<and> length p \<le> METADATA_MAX_BYTES"
  by (auto simp: cap_payload_def)

lemma parse_json_dumps: "json_plain (JObj kvs) \<Longrightarrow> parse_json (json_dumps (JObj kvs)) = Inr kvs"
  by (simp add: parse_json_def json_roundtrip)

lemma require_headers_json: "map_of obj ''headers'' = Some (headers_json hs) \<Longrightarrow> require_headers obj = Inr hs"
  by (simp add: require_headers_def headers_json_def str_values_headers)

lemma from_to_payload:
  assumes "to_payload m = Inr p" and "distinct (map fst (rm_headers m))"
  shows "from_payload p = Inr m" and "length p \<le> METADATA_MAX_BYTES"
  using assms parse_json_dumps headers_json_plain [OF assms(2)]
  by (auto simp: to_payload_def from_payload_def cap_payload_Inr res_bind_def require_str_def require_headers_json)

lemma ws_from_to_payload:
  assumes "ws_to_payload m = Inr p" and "distinct (map fst (wm_headers m))"
  shows "ws_from_payload p = Inr m" and "length p \<le> METADATA_MAX_BYTES"
  using assms parse_json_dumps headers_json_plain [OF assms(2)]
  by (auto simp: ws_to_payload_def ws_from_payload_def cap_payload_Inr res_bind_def require_str_def require_headers_json)

lemma utf8_encode_length: "length (utf8_encode s) \<le> 2 * length s"
proof (induction s)
  case (Cons c s)
  have "length (utf8_char c) \<le> 2" by (simp add: utf8_char_def Let_def)
  with Cons show ?case by (simp add: utf8_encode_def)
qed (simp add: utf8_encode_def)

lemma quoted_length: "length (quoted s) \<le> 6 * length s + 2"
proof (induction s)
  case (Cons c s)
  have "length (esc_char c) \<le> 6" by (simp add: esc_char_def Let_def)
  with Cons show ?case by (simp add: quoted_def)
qed (simp add: quoted_def)

lemma json_dumps_length: "length (dumps_text v) \<le> n \<Longrightarrow> length (json_dumps v) \<le> 2 * n"
  using utf8_encode_length [of "dumps_text v"] by (simp add: json_dumps_def)

subsection \<open>Chunks and sends\<close>

lemma split_chunk_concat: "concat (split_chunk b) = b"
  by (induction b rule: split_chunk.induct) (subst split_chunk.simps, simp)

lemma split_chunk_parts: "p \<in> set (split_chunk b) \<Longrightarrow> p \<noteq> [] \<and> length p \<le> MAX_PAYLOAD_BYTES"
proof (induction b rule: split_chunk.induct)
  case (1 b)
  then show ?case
    by (subst (asm) (2) split_chunk.simps) (auto simp: MAX_PAYLOAD_BYTES_def split: if_splits)
qed

abbreviation no_failure :: "nat \<Rightarrow> ws_exn option" where "no_failure \<equiv> (\<lambda>_. None)"

lemma send_data_ok:
  "length p \<le> MAX_PAYLOAD_BYTES \<Longrightarrow> send_data rid p None c = Inr (c\<lparr>sent := sent c @ [WsBytes (packed DATA rid p)]\<rparr>)"
  by (simp add: send_data_def guarded_send_def transport_send_def lift_tun_def serialize_frame_def packed_def res_bind_def)

lemma send_close_ok: "send_close rid None c = Inr (c\<lparr>sent := sent c @ [WsBytes (packed CLOSE rid [])]\<rparr>)"
  by (simp add: send_close_def send_unguarded_def transport_send_def lift_tun_def serialize_frame_def packed_def res_bind_def)

lemma send_open_ok:
  "to_payload m = Inr p \<Longrightarrow> length p \<le> METADATA_MAX_BYTES \<Longrightarrow>
   send_open rid m None c = Inr (c\<lparr>sent := sent c @ [WsBytes (packed OPEN rid p)]\<rparr>)"
  by (simp add: send_open_def guarded_send_def transport_send_def lift_tun_def serialize_frame_def packed_def
      res_bind_def METADATA_MAX_BYTES_def MAX_PAYLOAD_BYTES_def)

lemma send_parts_ok:
  "\<forall>p \<in> set ps. length p \<le> MAX_PAYLOAD_BYTES \<Longrightarrow>
   send_parts no_failure i rid ps c =
     (Inr (i + length ps), c\<lparr>sent := sent c @ map (\<lambda>p. WsBytes (packed DATA rid p)) ps\<rparr>)"
  by (induction ps arbitrary: i c) (simp_all add: send_data_ok)

definition body_frames :: "uuid \<Rightarrow> bytes list \<Rightarrow> ws_frame list" where
  "body_frames rid ps = map (\<lambda>p. WsBytes (packed DATA rid p)) ps"

lemma proxy_send_ok:
  assumes "open_stream rid c = Inr (ref, c1)" and "to_payload m = Inr p" and "length p \<le> METADATA_MAX_BYTES"
  shows "proxy_send no_failure rid m chunks BodyEnd c = (RequestSent, c1\<lparr>sent := sent c1 @
    WsBytes (packed OPEN rid p) # body_frames rid (concat (map split_chunk chunks) @ [[]])\<rparr>)"
proof -
  have "\<forall>q \<in> set (concat (map split_chunk chunks)). length q \<le> MAX_PAYLOAD_BYTES"
    using split_chunk_parts by auto
  then show ?thesis using assms
    by (simp add: proxy_send_def send_open_ok send_parts_ok send_data_ok body_frames_def)
qed

lemma agent_respond_ok:
  assumes "app (agent_request m content) = Some r"
    and "length (status_payload (ar_status r) (ar_headers r)) \<le> MAX_PAYLOAD_BYTES"
  shows "agent_respond app no_failure rid m content c = (AgentDone, (remove_stream rid c)\<lparr>sent := sent c @
    body_frames rid (status_payload (ar_status r) (ar_headers r) # split_chunk (ar_body r)) @ [WsBytes (packed CLOSE rid [])]\<rparr>)"
proof -
  have "\<forall>q \<in> set (split_chunk (ar_body r)). length q \<le> MAX_PAYLOAD_BYTES" using split_chunk_parts by auto
  then show ?thesis using assms
    by (simp add: agent_respond_def send_data_ok send_parts_ok send_close_ok body_frames_def remove_stream_def)
qed

subsection \<open>The agent serves a request\<close>

lemma deserialize_DATA: "length p \<le> MAX_PAYLOAD_BYTES \<Longrightarrow> deserialize_frame (packed DATA rid p) = Inr (DATA, rid, p)"
  unfolding packed_def by (intro deserialize_packed) (simp add: MAX_PAYLOAD_BYTES_def)

lemma deserialize_OPEN: "length p \<le> METADATA_MAX_BYTES \<Longrightarrow> deserialize_frame (packed OPEN rid p) = Inr (OPEN, rid, p)"
  unfolding packed_def by (intro deserialize_packed) (simp add: METADATA_MAX_BYTES_def)

lemma deserialize_CLOSE: "deserialize_frame (packed CLOSE rid []) = Inr (CLOSE, rid, [])"
  unfolding packed_def by (intro deserialize_packed) simp

text \<open>A stream that a reader emptied and that is still open, as its object \<open>ref\<close>.\<close>

definition idle_stream :: "uuid \<Rightarrow> nat \<Rightarrow> tunnel \<Rightarrow> bool" where
  "idle_stream rid ref c \<longleftrightarrow> map_of (streams c) rid = Some ref \<and> ref < length (objs c) \<and> objs c ! ref = StreamState_new"

definition with_queue :: "nat \<Rightarrow> bytes list \<Rightarrow> tunnel \<Rightarrow> tunnel" where
  "with_queue ref q c = c\<lparr>objs := (objs c)[ref := (objs c ! ref)\<lparr>queue := q\<rparr>]\<rparr>"

lemma with_queue_idle: "idle_stream rid ref c \<Longrightarrow> with_queue ref [] c = c"
  by (cases c) (auto simp: with_queue_def idle_stream_def StreamState_new_def list_update_same_conv)

lemma with_queue_twice [simp]: "ref < length (objs c) \<Longrightarrow> with_queue ref q (with_queue ref q' c) = with_queue ref q c"
  by (simp add: with_queue_def)

lemma opened_idle: "open_stream rid c = Inr (ref, c1) \<Longrightarrow> idle_stream rid ref c1"
  using open_stream_frame [of rid c ref c1] by (auto simp: idle_stream_def update_conv')

lemma receive_idle_data:
  assumes "idle_stream rid ref c" and "length p \<le> MAX_PAYLOAD_BYTES"
  shows "run_receive_loop_once h out (FBytes (packed DATA rid p)) c = RxContinue (with_queue ref [p] c)"
  using assms by (simp add: run_receive_loop_once_def deserialize_DATA dispatch_frame_def get_stream_def queue_put_def
      idle_stream_def StreamState_new_def QUEUE_DEPTH_def with_queue_def)

lemma with_queue_objs: "ref < length (objs c) \<Longrightarrow> queue (objs (with_queue ref q c) ! ref) = q"
  by (simp add: with_queue_def)

lemma handler_takes_part:
  assumes "idle_stream rid ref c" and "p \<noteq> []"
  shows "handler_read app out rid m ref parts (with_queue ref [p] c) = (TaskReading rid m ref (parts @ [p]), c)"
  using assms with_queue_idle [OF assms(1)]
  by (simp add: handler_read_def idle_stream_def with_queue_objs flip: with_queue_def)

lemma handler_takes_end:
  assumes "idle_stream rid ref c"
  shows "handler_read app out rid m ref parts (with_queue ref [[]] c) =
    (TaskEnded (fst (agent_respond app out rid m (concat parts) c)), snd (agent_respond app out rid m (concat parts) c))"
  using assms with_queue_idle [OF assms(1)]
  by (simp add: handler_read_def idle_stream_def with_queue_objs case_prod_beta flip: with_queue_def)

lemma handler_waits:
  assumes "idle_stream rid ref c"
  shows "handler_read app out rid m ref parts c = (TaskReading rid m ref parts, c)"
  using assms with_queue_idle [OF assms(1)] by (simp add: handler_read_def idle_stream_def StreamState_new_def with_queue_def)

lemma serve_body:
  assumes "idle_stream rid ref c" and "\<forall>p \<in> set ps. p \<noteq> [] \<and> length p \<le> MAX_PAYLOAD_BYTES"
  shows "agent_serve app out (body_frames rid (ps @ [[]])) ([TaskReading rid m ref parts], c) =
    (case agent_respond app out rid m (concat (parts @ ps)) c of (o', c') \<Rightarrow> Some ([TaskEnded o'], c'))"
  using assms(2)
proof (induction ps arbitrary: parts)
  case Nil
  then show ?case using assms(1)
    by (simp add: body_frames_def agent_loop_once_def receive_idle_data handler_takes_end case_prod_beta)
next
  case (Cons p ps)
  then show ?case using assms(1)
    by (simp add: body_frames_def agent_loop_once_def receive_idle_data handler_takes_part)
qed

lemma serve_open:
  assumes "open_stream rid c = Inr (ref, c1)" and "from_payload p = Inr m" and "length p \<le> METADATA_MAX_BYTES"
  shows "agent_serve app out (WsBytes (packed OPEN rid p) # fs) ([], c) =
    agent_serve app out fs ([TaskReading rid m ref []], c1)"
proof -
  have "get_stream rid c1 = Inr ref" using opened_idle [OF assms(1)] by (simp add: idle_stream_def get_stream_def)
  then show ?thesis using assms opened_idle [OF assms(1)]
    by (simp add: agent_loop_once_def run_receive_loop_once_def deserialize_OPEN on_open_def handler_waits)
qed

lemma agent_serves:
  assumes "open_stream rid c = Inr (ref, c1)" and "from_payload p = Inr m" and "length p \<le> METADATA_MAX_BYTES"
  shows "agent_serve app out (WsBytes (packed OPEN rid p) # body_frames rid (concat (map split_chunk chunks) @ [[]])) ([], c) =
    (case agent_respond app out rid m (concat chunks) c1 of (o', c') \<Rightarrow> Some ([TaskEnded o'], c'))"
proof -
  have "\<forall>q \<in> set (concat (map split_chunk chunks)). q \<noteq> [] \<and> length q \<le> MAX_PAYLOAD_BYTES"
    using split_chunk_parts by auto
  moreover have "concat (concat (map split_chunk chunks)) = concat chunks"
    by (induction chunks) (simp_all add: split_chunk_concat)
  ultimately show ?thesis unfolding serve_open [OF assms]
    using serve_body [OF opened_idle [OF assms(1)], of "concat (map split_chunk chunks)" app out m "[]"] by simp
qed

subsection \<open>The relay reads the response\<close>

definition kept_headers :: "headers \<Rightarrow> headers" where
  "kept_headers = filter (\<lambda>(k, v). py_lower k \<notin> set HOP_BY_HOP)"

definition content_type_of :: "headers \<Rightarrow> str" where
  "content_type_of hs = (case map_of hs ''content-type'' of None \<Rightarrow> ''application/octet-stream'' | Some t \<Rightarrow> t)"

lemma str_values_kept:
  "str_values (filter (\<lambda>(k, v). P k) (map (\<lambda>(k, v). (k, JStr v)) hs)) = Some (filter (\<lambda>(k, v). P k) hs)"
  by (induction hs) auto

lemma first_chunk_status:
  assumes "distinct (map fst hs)"
  shows "first_chunk_meta (status_payload st hs) = Some \<lparr>rs_status = st,
    rs_headers = AList.delete ''content-type'' (kept_headers hs), rs_content_type = content_type_of (kept_headers hs)\<rparr>"
proof -
  have "json_plain (JObj [(''status'', JInt st), (''headers'', headers_json hs)])"
    using headers_json_plain [OF assms] by simp
  then have l: "json_loads (status_payload st hs) = Some (JObj [(''status'', JInt st), (''headers'', headers_json hs)])"
    unfolding status_payload_def by (rule json_roundtrip)
  show ?thesis
    by (simp add: first_chunk_meta_def l headers_json_def str_values_kept kept_headers_def content_type_of_def)
qed

lemma idle_resume:
  assumes "idle_stream rid ref c"
  shows "iter_resume True rid ref IterLoop c = (Suspended, IterLoop, c)"
    and "iter_resume True rid ref IterYielded c = (Suspended, IterLoop, c)"
    and "iter_resume True rid ref IterLoop (with_queue ref [p] c) = (Yield p, IterYielded, c)"
proof -
  have "queue_get ref (with_queue ref [p] c) = Some (p, c)"
    using assms with_queue_idle [OF assms] by (simp add: queue_get_def idle_stream_def with_queue_objs flip: with_queue_def)
  then show "iter_resume True rid ref IterLoop (with_queue ref [p] c) = (Yield p, IterYielded, c)"
    by (simp add: iter_loop_def)
qed (use assms in \<open>simp_all add: iter_loop_def queue_get_def idle_stream_def StreamState_new_def\<close>)

lemma relay_takes_chunk:
  assumes "idle_stream rid ref c" and "length p \<le> MAX_PAYLOAD_BYTES"
  shows "relay_receive rid (WsBytes (packed DATA rid p) # fs) (BodyWait m ref IterLoop got, c) =
    relay_receive rid fs (BodyWait m ref IterLoop (got @ [p]), c)"
proof -
  have "queue_len ref (with_queue ref [p] c) = 1"
    using assms(1) by (simp add: queue_len_def idle_stream_def with_queue_objs)
  then show ?thesis using assms by (simp add: receive_idle_data idle_resume del: iter_resume.simps)
qed

lemma relay_takes_body:
  assumes "idle_stream rid ref c" and "\<forall>p \<in> set ps. length p \<le> MAX_PAYLOAD_BYTES"
  shows "relay_receive rid (body_frames rid ps @ fs) (BodyWait m ref IterLoop got, c) =
    relay_receive rid fs (BodyWait m ref IterLoop (got @ ps), c)"
  using assms(2)
proof (induction ps arbitrary: got)
  case (Cons p ps)
  then show ?case using assms(1) by (simp add: body_frames_def relay_takes_chunk del: relay_receive.simps)
qed (simp add: body_frames_def)

lemma relay_takes_first:
  assumes "idle_stream rid ref c" and "length p \<le> MAX_PAYLOAD_BYTES" and "first_chunk_meta p = Some m"
  shows "relay_receive rid (WsBytes (packed DATA rid p) # fs) (FirstWait, c) = relay_receive rid fs (BodyWait m ref IterLoop [], c)"
proof -
  have s: "streams (with_queue ref [p] c) = streams c" by (simp add: with_queue_def)
  have "queue_get ref (with_queue ref [p] c) = Some (p, c)"
    using assms(1) with_queue_idle [OF assms(1)] by (simp add: queue_get_def idle_stream_def with_queue_objs flip: with_queue_def)
  moreover have "map_of (streams c) rid = Some ref" using assms(1) by (simp add: idle_stream_def)
  ultimately show ?thesis using assms
    by (simp add: receive_idle_data read_stream_def get_stream_def s idle_resume del: iter_resume.simps)
qed

lemma relay_takes_close:
  assumes "idle_stream rid ref c"
  shows "relay_receive rid [WsBytes (packed CLOSE rid [])] (BodyWait m ref IterLoop got, c) =
    Some (ReplyDone m got, remove_stream rid (set_closed ref c))"
proof -
  have d: "run_receive_loop_once False None (FBytes (packed CLOSE rid [])) c = RxContinue (set_closed ref c)"
    using assms by (simp add: run_receive_loop_once_def deserialize_CLOSE dispatch_frame_def close_stream_def get_stream_def
        idle_stream_def)
  have "objs (set_closed ref c) ! ref = \<lparr>queue = [], closed_event = True\<rparr>"
    using assms by (simp add: set_closed_def idle_stream_def StreamState_new_def)
  then show ?thesis
    by (simp add: d iter_loop_def queue_get_def iter_drain_def iter_stop_def remove_stream_def delete_filter)
qed

lemma relay_reads_response:
  assumes "idle_stream rid ref c" and "distinct (map fst hs)" and "length (status_payload st hs) \<le> MAX_PAYLOAD_BYTES"
    and "\<forall>p \<in> set ps. length p \<le> MAX_PAYLOAD_BYTES"
  shows "relay_receive rid (body_frames rid (status_payload st hs # ps) @ [WsBytes (packed CLOSE rid [])]) (FirstWait, c) =
    Some (ReplyDone \<lparr>rs_status = st, rs_headers = AList.delete ''content-type'' (kept_headers hs),
        rs_content_type = content_type_of (kept_headers hs)\<rparr> ps, remove_stream rid (set_closed ref c))"
  using relay_takes_first [OF assms(1,3) first_chunk_status [OF assms(2)]] relay_takes_body [OF assms(1,4)]
    relay_takes_close [OF assms(1)]
  by (simp add: body_frames_def del: relay_receive.simps)

lemma buffer_html_spec:
  assumes "buffer_html n chunks = (parts, rest, over)" and "n \<le> HTML_REWRITE_MAX_BYTES"
  shows "parts @ rest = chunks \<and> (over \<longleftrightarrow> n + length (concat chunks) > HTML_REWRITE_MAX_BYTES) \<and> (over \<or> rest = [])"
  using assms
proof (induction chunks arbitrary: n parts)
  case (Cons x chunks)
  then show ?case by (cases "n + length x > HTML_REWRITE_MAX_BYTES") (fastforce split: prod.splits)+
qed simp

text \<open>What a reply is meant to be: the application's, without hop-by-hop headers; HTML is rewritten when it
  is small enough, and then has no length header of its own.\<close>

definition proxied_reply :: "codec \<Rightarrow> str \<Rightarrow> int \<Rightarrow> headers \<Rightarrow> bytes \<Rightarrow> http_reply" where
  "proxied_reply codec code st hs body =
     (let ct = content_type_of (kept_headers hs); html = py_startswith ct ''text/html'';
          kept = AList.delete ''content-type'' (kept_headers hs)
      in \<lparr>hr_status = st,
          hr_headers = (if html \<and> length body \<le> HTML_REWRITE_MAX_BYTES then AList.delete ''content-length'' kept else kept),
          hr_media_type = ct, hr_body = (if html then rewrite_html_body codec body ct (''/m/'' @ code) else body)\<rparr>)"

lemma tunnel_reply_spec:
  "tunnel_reply codec code \<lparr>rs_status = st, rs_headers = AList.delete ''content-type'' (kept_headers hs),
     rs_content_type = content_type_of (kept_headers hs)\<rparr> chunks = proxied_reply codec code st hs (concat chunks)"
proof (cases "buffer_html 0 chunks")
  case (fields parts rest over)
  from buffer_html_spec [OF this] have "concat parts @ concat rest = concat chunks"
    "over \<longleftrightarrow> length (concat chunks) > HTML_REWRITE_MAX_BYTES" "over \<or> rest = []"
    by (auto simp flip: concat_append)
  then show ?thesis by (auto simp: tunnel_reply_def proxied_reply_def Let_def fields rewrite_html_body_def split: option.split)
qed

subsection \<open>Rewriting twice\<close>

lemmas rewrite_simps = rewrite_html_asset_paths.simps

lemma rewrite_Nil [simp]: "rewrite_html_asset_paths [] P = []"
  by (subst rewrite_simps) simp

lemma rewrite_None: "asset_attribute (c # cs) = None \<Longrightarrow> rewrite_html_asset_paths (c # cs) P = c # rewrite_html_asset_paths cs P"
  by (subst rewrite_simps) simp

lemma rewrite_Some:
  assumes "asset_attribute s = Some a"
  obtains r where "s = a @ ''/'' @ r" and "rewrite_html_asset_paths s P = a @ P @ ''/'' @ rewrite_html_asset_paths r P"
proof -
  from asset_attribute_SomeD [OF assms] obtain r where r: "s = a @ ''/'' @ r" by (auto simp: prefix_def)
  then have "s \<noteq> []" by simp
  then have "rewrite_html_asset_paths s P = a @ P @ ''/'' @ rewrite_html_asset_paths (drop (Suc (length a)) s) P"
    using assms by (subst rewrite_simps) (auto split: list.split)
  with r show ?thesis by (intro that) simp_all
qed

text \<open>An attribute starts with a letter that does not occur again in what the pattern looks at.\<close>

lemma attribute_parts:
  "a \<in> set attributes \<Longrightarrow> a \<noteq> [] \<and> hd a \<in> set ''sh'' \<and> set (tl a) \<inter> set ''sh'' = {} \<and> CHR ''='' \<in> set (tl a) \<and> CHR ''/'' \<notin> set (tl a)"
  by (auto simp: attributes_def)

lemma attribute_shape:
  assumes "a \<in> set attributes"
  obtains x w where "a = x # w" and "x \<in> set ''sh''" and "set w \<inter> set ''sh'' = {}" and "CHR ''='' \<in> set w" and "CHR ''/'' \<notin> set w"
  using attribute_parts [OF assms] that [of "hd a" "tl a"] by simp

lemma rewrite_head:
  "set w \<inter> set ''sh'' = {} \<Longrightarrow> prefix w (rewrite_html_asset_paths s P) \<longleftrightarrow> prefix w s"
proof (induction w arbitrary: s)
  case (Cons x w)
  show ?case
  proof (cases "asset_attribute s")
    case None
    show ?thesis
    proof (cases s)
      case (Cons y ys)
      with None have "rewrite_html_asset_paths s P = y # rewrite_html_asset_paths ys P" by (simp add: rewrite_None)
      with Cons Cons.IH [of ys] Cons.prems show ?thesis by simp
    qed simp
  next
    case (Some a)
    from rewrite_Some [OF Some, of P] obtain r where
      r: "s = a @ ''/'' @ r" "rewrite_html_asset_paths s P = a @ P @ ''/'' @ rewrite_html_asset_paths r P" .
    obtain z u where "a = z # u" "z \<in> set ''sh''"
      using attribute_shape asset_attribute_SomeD [OF Some] by metis
    with r Cons.prems show ?thesis by auto
  qed
qed simp

lemma asset_attribute_rewrite:
  assumes "asset_attribute (c # cs) = None"
  shows "asset_attribute (c # rewrite_html_asset_paths cs P) = None"
proof -
  have "prefix (a @ ''/'') (c # rewrite_html_asset_paths cs P) = prefix (a @ ''/'') (c # cs) \<and>
      prefix (a @ ''/m/'') (c # rewrite_html_asset_paths cs P) = prefix (a @ ''/m/'') (c # cs)" if a: "a \<in> set attributes" for a
  proof -
    obtain x w where w: "a = x # w" "set w \<inter> set ''sh'' = {}" using attribute_shape [OF a] by metis
    then have "set (w @ ''/'') \<inter> set ''sh'' = {}" "set (w @ ''/m/'') \<inter> set ''sh'' = {}" by auto
    with w rewrite_head [of "w @ ''/''" cs P] rewrite_head [of "w @ ''/m/''" cs P] show ?thesis by simp
  qed
  with assms show ?thesis unfolding asset_attribute_def by (auto simp: find_None_iff)
qed

lemma no_attribute_in_path:
  assumes "CHR ''='' \<notin> set w"
  shows "rewrite_html_asset_paths (w @ ''/'' @ r) P = w @ ''/'' @ rewrite_html_asset_paths r P"
  using assms
proof (induction w)
  case Nil
  have "asset_attribute (''/'' @ r) = None" by (auto simp: asset_attribute_def attributes_def)
  then show ?case by (simp add: rewrite_None)
next
  case (Cons x w)
  have "\<not> prefix (a @ ''/'') (x # w @ ''/'' @ r)" if a: "a \<in> set attributes" for a
  proof
    assume p: "prefix (a @ ''/'') (x # w @ ''/'' @ r)"
    obtain y u where u: "a = y # u" "CHR ''='' \<in> set u" "CHR ''/'' \<notin> set u" using attribute_shape [OF a] by metis
    with p have "prefix u (w @ ''/'' @ r)" by (auto dest: append_prefixD)
    then consider "prefix u w" | v where "u = w @ v" "prefix v (''/'' @ r)" by (auto simp: prefix_append)
    then show False
    proof cases
      case 1
      with u(2) Cons.prems set_mono_prefix show False by fastforce
    next
      case 2
      with u Cons.prems show False by (cases v) auto
    qed
  qed
  then have "asset_attribute (x # w @ ''/'' @ r) = None" by (auto simp: asset_attribute_def find_None_iff)
  with Cons show ?case by (simp add: rewrite_None)
qed

lemma no_attribute_in_attribute:
  assumes "set w \<inter> set ''sh'' = {}"
  shows "rewrite_html_asset_paths (w @ r) P = w @ rewrite_html_asset_paths r P"
  using assms
proof (induction w)
  case (Cons x w)
  have "asset_attribute (x # w @ r) = None"
    using Cons.prems by (auto simp: asset_attribute_def attributes_def)
  with Cons show ?case by (simp add: rewrite_None)
qed simp

lemma rewritten_attribute:
  assumes "a \<in> set attributes" and "CHR ''='' \<notin> set code"
  shows "rewrite_html_asset_paths (a @ (''/m/'' @ code) @ ''/'' @ r) P = a @ (''/m/'' @ code) @ ''/'' @ rewrite_html_asset_paths r P"
proof -
  obtain x w where w: "a = x # w" "set w \<inter> set ''sh'' = {}" using attribute_shape [OF assms(1)] by metis
  have "asset_attribute (a @ (''/m/'' @ code) @ ''/'' @ r) = None"
    using assms(1) by (auto simp: asset_attribute_def attributes_def)
  then have "rewrite_html_asset_paths (a @ (''/m/'' @ code) @ ''/'' @ r) P
      = x # rewrite_html_asset_paths (w @ (''/m/'' @ code) @ ''/'' @ r) P" using w by (simp add: rewrite_None)
  with w no_attribute_in_attribute [OF w(2)] no_attribute_in_path [of "''/m/'' @ code" r P] assms(2) show ?thesis by simp
qed

lemma rewrite_twice:
  assumes "CHR ''='' \<notin> set code"
  shows "rewrite_html_asset_paths (rewrite_html_asset_paths html (''/m/'' @ code)) P = rewrite_html_asset_paths html (''/m/'' @ code)"
proof (induction "length html" arbitrary: html rule: less_induct)
  case less
  show ?case
  proof (cases "asset_attribute html")
    case None
    show ?thesis
    proof (cases html)
      case (Cons c cs)
      with None less [of cs] show ?thesis by (simp add: rewrite_None asset_attribute_rewrite)
    qed simp
  next
    case (Some a)
    from rewrite_Some [OF Some, of "''/m/'' @ code"] obtain r where r: "html = a @ ''/'' @ r"
      "rewrite_html_asset_paths html (''/m/'' @ code) = a @ (''/m/'' @ code) @ ''/'' @ rewrite_html_asset_paths r (''/m/'' @ code)" .
    have "a \<in> set attributes" using asset_attribute_SomeD [OF Some] by simp
    from rewritten_attribute [OF this assms] less [of r] r(1) show ?thesis unfolding r(2) by simp
  qed
qed

section \<open>Properties\<close>

text \<open>C7: an exchange through a mount is transparent. When a stream can be opened at both ends, the
  metadata of the request fits its cap and no send fails, then what the relay sends makes the agent
  call the application once, with the method, the path and query, the headers and the whole body of
  the request, however its chunks were cut; what the agent sends back makes the relay's reply: status,
  headers and body of the application's response, without hop-by-hop headers, HTML with its asset
  paths rewritten unless it is over the cap. Both ends forget the stream. The bodies have any
  length.\<close>

theorem exchange_transparent:
  assumes "open_stream rid relay = Inr (ref, relay1)" and "open_stream rid agent = Inr (ref', agent1)"
    and "to_payload m = Inr p" and "distinct (map fst (rm_headers m))"
    and "app \<lparr>aq_method = rm_method m,
        aq_url = ''http://local'' @ rm_path m @ (if rm_query m = [] then [] else CHR ''?'' # rm_query m),
        aq_headers = rm_headers m, aq_body = concat chunks\<rparr> = Some r" and "distinct (map fst (ar_headers r))"
    and "length (status_payload (ar_status r) (ar_headers r)) \<le> MAX_PAYLOAD_BYTES"
  shows "\<exists>relay2 request agent2 response meta parts relay3.
    proxy_send no_failure rid m chunks BodyEnd relay = (RequestSent, relay2) \<and> sent relay2 = sent relay @ request \<and>
    agent_serve app no_failure request ([], agent) = Some ([TaskEnded AgentDone], agent2) \<and>
    sent agent2 = sent agent @ response \<and>
    relay_receive rid response (FirstWait, relay2) = Some (ReplyDone meta parts, relay3) \<and>
    tunnel_reply codec code meta parts = proxied_reply codec code (ar_status r) (ar_headers r) (ar_body r) \<and>
    map_of (streams agent2) rid = None \<and> map_of (streams relay3) rid = None"
proof -
  note p = from_to_payload [OF assms(3,4)]
  have a: "app (agent_request m (concat chunks)) = Some r" using assms(5) by (cases "rm_query m") (simp_all add: agent_request_def)
  let ?req = "WsBytes (packed OPEN rid p) # body_frames rid (concat (map split_chunk chunks) @ [[]])"
  let ?relay2 = "relay1\<lparr>sent := sent relay1 @ ?req\<rparr>"
  let ?resp = "body_frames rid (status_payload (ar_status r) (ar_headers r) # split_chunk (ar_body r)) @ [WsBytes (packed CLOSE rid [])]"
  let ?agent2 = "(remove_stream rid agent1)\<lparr>sent := sent agent1 @ ?resp\<rparr>"
  have sent: "sent relay1 = sent relay" "sent agent1 = sent agent"
    using assms(1,2) by (auto simp: open_stream_def Let_def split: if_splits)
  have "proxy_send no_failure rid m chunks BodyEnd relay = (RequestSent, ?relay2)"
    by (rule proxy_send_ok [OF assms(1,3) p(2)])
  moreover have "agent_serve app no_failure ?req ([], agent) = Some ([TaskEnded AgentDone], ?agent2)"
    unfolding agent_serves [OF assms(2) p(1,2)] agent_respond_ok [where app = app, OF a assms(7)] by simp
  moreover have "idle_stream rid ref ?relay2" using opened_idle [OF assms(1)] by (simp add: idle_stream_def)
  then have "relay_receive rid ?resp (FirstWait, ?relay2) = Some (ReplyDone \<lparr>rs_status = ar_status r,
      rs_headers = AList.delete ''content-type'' (kept_headers (ar_headers r)),
      rs_content_type = content_type_of (kept_headers (ar_headers r))\<rparr> (split_chunk (ar_body r)),
      remove_stream rid (set_closed ref ?relay2))"
    using assms(6,7) split_chunk_parts by (intro relay_reads_response) auto
  moreover have "map_of (streams ?agent2) rid = None" "map_of (streams (remove_stream rid (set_closed ref ?relay2))) rid = None"
    by (simp_all add: remove_stream_def delete_conv')
  ultimately show ?thesis
    using sent tunnel_reply_spec [of codec code "ar_status r" "ar_headers r" "split_chunk (ar_body r)"]
    by (auto simp: split_chunk_concat intro!: exI)
qed

definition demo_metadata :: RequestMetadata where
  "demo_metadata = \<lparr>rm_method = ''GET'', rm_path = ''/x'', rm_query = [], rm_headers = [(''host'', ''h'')], rm_content_length = 0\<rparr>"

definition demo_opened :: tunnel where
  "demo_opened = TunnelConnection_init\<lparr>objs := [StreamState_new], streams := [(7, 0)]\<rparr>"

definition demo_ok :: asgi_response where
  "demo_ok = \<lparr>ar_status = 200, ar_headers = [(''content-type'', ''text/plain'')], ar_body = [104, 105]\<rparr>"

lemma demo_open: "open_stream 7 TunnelConnection_init = Inr (0, demo_opened)"
  by (simp add: open_stream_def MAX_STREAMS_def TunnelConnection_init_def demo_opened_def)


lemma demo_payload: obtains p where "to_payload demo_metadata = Inr p" and "distinct (map fst (rm_headers demo_metadata))"
proof -
  have "length (int_str 0) = 1" by (simp add: int_str_def nat_digits.simps)
  then have "length (dumps_text (JObj [(''method'', JStr ''GET''), (''path'', JStr ''/x''), (''query'', JStr []),
      (''headers'', headers_json [(''host'', ''h'')]), (''content_length'', JInt 0)])) \<le> 1000"
    using quoted_length [of "''method''"] quoted_length [of "''GET''"] quoted_length [of "''path''"] quoted_length [of "''/x''"]
      quoted_length [of "''query''"] quoted_length [of "[]"] quoted_length [of "''headers''"] quoted_length [of "''host''"]
      quoted_length [of "''h''"] quoted_length [of "''content_length''"] by (simp add: headers_json_def)
  from json_dumps_length [OF this] show ?thesis
    by (intro that) (simp_all add: to_payload_def demo_metadata_def cap_payload_def METADATA_MAX_BYTES_def)
qed

lemma demo_status_fits: "length (status_payload (ar_status demo_ok) (ar_headers demo_ok)) \<le> MAX_PAYLOAD_BYTES"
proof -
  have "length (int_str 200) = 3" by (simp add: int_str_def nat_digits.simps)
  then have "length (dumps_text (JObj [(''status'', JInt 200), (''headers'', headers_json [(''content-type'', ''text/plain'')])])) \<le> 1000"
    using quoted_length [of "''status''"] quoted_length [of "''headers''"] quoted_length [of "''content-type''"]
      quoted_length [of "''text/plain''"] by (simp add: headers_json_def)
  from json_dumps_length [OF this] show ?thesis by (simp add: status_payload_def demo_ok_def MAX_PAYLOAD_BYTES_def)
qed

theorem exchange_transparent_witness:
  "\<exists>relay2 request agent2 response meta parts relay3.
    proxy_send no_failure 7 demo_metadata [[1], [], [2, 3]] BodyEnd TunnelConnection_init = (RequestSent, relay2) \<and>
    agent_serve (\<lambda>q. if aq_body q = [1, 2, 3] then Some demo_ok else None) no_failure request ([], TunnelConnection_init)
      = Some ([TaskEnded AgentDone], agent2) \<and>
    relay_receive 7 response (FirstWait, relay2) = Some (ReplyDone meta parts, relay3) \<and>
    hr_body (tunnel_reply (\<lambda>_ _. None, \<lambda>_ _. []) ''abc'' meta parts) = [104, 105] \<and> map_of (streams relay3) 7 = None"
proof -
  obtain p where p: "to_payload demo_metadata = Inr p" "distinct (map fst (rm_headers demo_metadata))" by (rule demo_payload)
  have b: "hr_body (proxied_reply (\<lambda>_ _. None, \<lambda>_ _. []) ''abc'' (ar_status demo_ok) (ar_headers demo_ok) (ar_body demo_ok)) = [104, 105]"
    by code_simp
  let ?app = "\<lambda>q. if aq_body q = [1, 2, 3] then Some demo_ok else None"
  have d: "distinct (map fst (ar_headers demo_ok))" by (simp add: demo_ok_def)
  show ?thesis
    using exchange_transparent [OF demo_open demo_open p, of ?app "[[1], [], [2, 3]]" demo_ok "(\<lambda>_ _. None, \<lambda>_ _. [])" "''abc''",
        OF _ d demo_status_fits] b by simp metis
qed

text \<open>C40: an application that raises is not answered for. The agent's handler ends with the exception and
  sends nothing, so the relay's handler waits until its timeout, then sends CANCEL and replies 504;
  both ends have forgotten the stream by then.\<close>

theorem app_exception_times_out:
  assumes "open_stream rid relay = Inr (ref, relay1)" and "open_stream rid agent = Inr (ref', agent1)"
    and "to_payload m = Inr p" and "distinct (map fst (rm_headers m))"
    and "app (agent_request m (concat chunks)) = None"
  shows "\<exists>relay2 request agent2 relay3.
    proxy_send no_failure rid m chunks BodyEnd relay = (RequestSent, relay2) \<and> sent relay2 = sent relay @ request \<and>
    agent_serve app no_failure request ([], agent) = Some ([TaskEnded AgentRaised], agent2) \<and> sent agent2 = sent agent \<and>
    relay_resume gone out rid FirstWait relay2 = (FirstWait, relay2) \<and>
    read_stream True rid relay2 = ReadRaise FirstByteTimeoutError \<and>
    first_byte_timeout out rid relay2 = (Gateway504, relay3) \<and>
    map_of (streams agent2) rid = None \<and> map_of (streams relay3) rid = None"
proof -
  note p = from_to_payload [OF assms(3,4)]
  let ?req = "WsBytes (packed OPEN rid p) # body_frames rid (concat (map split_chunk chunks) @ [[]])"
  let ?relay2 = "relay1\<lparr>sent := sent relay1 @ ?req\<rparr>"
  have sent: "sent relay1 = sent relay" "sent agent1 = sent agent"
    using assms(1,2) by (auto simp: open_stream_def Let_def split: if_splits)
  have "proxy_send no_failure rid m chunks BodyEnd relay = (RequestSent, ?relay2)"
    by (rule proxy_send_ok [OF assms(1,3) p(2)])
  moreover have "agent_serve app no_failure ?req ([], agent) = Some ([TaskEnded AgentRaised], remove_stream rid agent1)"
    unfolding agent_serves [OF assms(2) p(1,2)] using assms(5) by (simp add: agent_respond_def)
  moreover have "read_stream b rid ?relay2 = (if b then ReadRaise FirstByteTimeoutError else WaitingForData)" for b
    using opened_idle [OF assms(1)] by (simp add: idle_stream_def read_stream_def get_stream_def queue_get_def StreamState_new_def)
  moreover have "map_of (streams (remove_stream rid c)) rid = None" for c by (simp add: remove_stream_def delete_conv')
  ultimately show ?thesis using sent by (auto simp: first_byte_timeout_def remove_stream_def intro!: exI)
qed

theorem app_exception_times_out_witness:
  "\<exists>relay2 request agent2. proxy_send no_failure 7 demo_metadata [] BodyEnd TunnelConnection_init = (RequestSent, relay2) \<and>
    agent_serve (\<lambda>q. None) no_failure request ([], TunnelConnection_init) = Some ([TaskEnded AgentRaised], agent2) \<and>
    sent agent2 = [] \<and> read_stream True 7 relay2 = ReadRaise FirstByteTimeoutError"
proof -
  obtain p where p: "to_payload demo_metadata = Inr p" "distinct (map fst (rm_headers demo_metadata))" by (rule demo_payload)
  have "sent TunnelConnection_init = []" by (simp add: TunnelConnection_init_def)
  then show ?thesis
    using app_exception_times_out [OF demo_open demo_open p, of "\<lambda>q. None" "[]" False None] by auto
qed

subsection \<open>Uploads that the browser aborts\<close>

lemma send_parts_streams: "streams (snd (send_parts out i rid ps c)) = streams c"
proof (induction ps arbitrary: i c)
  case (Cons p ps)
  have "streams c' = streams c" if "send_data rid p o' c = Inr c'" for o' c'
    using that by (auto simp: send_data_def res_bind_def lift_tun_def guarded_send_def transport_send_def
        split: sum.splits option.splits conn_exn.splits if_splits)
  with Cons.IH show ?case by (auto split: sum.split)
qed simp

lemma aborted_keeps_stream:
  assumes "to_payload m = Inr p" and "length (streams c) < MAX_STREAMS" and "rid \<notin> fst ` set (streams c)"
  shows "fst (proxy_send no_failure rid m chunks ClientDisconnect c) = RaisedDisconnect"
    and "streams (snd (proxy_send no_failure rid m chunks ClientDisconnect c)) = streams c @ [(rid, length (objs c))]"
proof -
  have "map_of (streams c) rid = None" using assms(3) by (simp add: map_of_eq_None_iff)
  then have o: "open_stream rid c = Inr (length (objs c), c\<lparr>objs := objs c @ [StreamState_new], streams := streams c @ [(rid, length (objs c))]\<rparr>)"
    using assms(2) by (simp add: open_stream_def update_fresh Let_def)
  have l: "length p \<le> METADATA_MAX_BYTES" using assms(1) by (auto simp: to_payload_def cap_payload_Inr)
  have "\<forall>q \<in> set (concat (map split_chunk chunks)). length q \<le> MAX_PAYLOAD_BYTES" using split_chunk_parts by auto
  then show "fst (proxy_send no_failure rid m chunks ClientDisconnect c) = RaisedDisconnect"
    "streams (snd (proxy_send no_failure rid m chunks ClientDisconnect c)) = streams c @ [(rid, length (objs c))]"
    by (simp_all add: proxy_send_def o send_open_ok [OF assms(1) l] send_parts_ok)
qed

definition aborted_uploads :: "RequestMetadata \<Rightarrow> bytes list \<Rightarrow> uuid list \<Rightarrow> tunnel \<Rightarrow> tunnel" where
  "aborted_uploads m chunks rids c = fold (\<lambda>rid c. snd (proxy_send no_failure rid m chunks ClientDisconnect c)) rids c"

lemma aborted_uploads_streams:
  assumes "to_payload m = Inr p" and "distinct rids" and "set rids \<inter> fst ` set (streams c) = {}"
    and "length (streams c) + length rids \<le> MAX_STREAMS"
  shows "map fst (streams (aborted_uploads m chunks rids c)) = map fst (streams c) @ rids"
  using assms(2-4)
proof (induction rids arbitrary: c)
  case (Cons rid rids)
  let ?d = "snd (proxy_send no_failure rid m chunks ClientDisconnect c)"
  have d: "streams ?d = streams c @ [(rid, length (objs c))]" using Cons.prems by (intro aborted_keeps_stream [OF assms(1)]) auto
  from Cons.IH [of ?d] Cons.prems show ?case by (auto simp: aborted_uploads_def d)
qed (simp add: aborted_uploads_def)

text \<open>A request whose body the browser does not finish leaves its stream registered for good: the
  exception of \<open>request.stream()\<close> passes the handler's two \<open>except\<close> clauses. After as many aborted
  uploads as there may be streams, every further request of the mount raises \<open>StreamLimitError\<close>.\<close>

lemma aborted_uploads_exhaust_mount:
  assumes "to_payload m = Inr p" and "distinct rids" and "length rids = MAX_STREAMS" and "streams c = []"
  shows "proxy_send out rid m' chunks' b (aborted_uploads m chunks rids c) =
    (RaisedConn (Tun StreamLimitError), aborted_uploads m chunks rids c)"
proof -
  have "map fst (streams (aborted_uploads m chunks rids c)) = rids"
    using assms aborted_uploads_streams [OF assms(1,2), of c] by simp
  then have "length (streams (aborted_uploads m chunks rids c)) = MAX_STREAMS"
    using assms(3) by (metis length_map)
  then show ?thesis by (simp add: proxy_send_def open_stream_def)
qed

lemma aborted_uploads_exhaust_mount_witness:
  "\<exists>c. proxy_send no_failure 1000 demo_metadata [] BodyEnd c = (RaisedConn (Tun StreamLimitError), c) \<and>
     c = aborted_uploads demo_metadata [[1, 2]] (map of_nat [0 ..< 100]) TunnelConnection_init"
proof -
  obtain p where p: "to_payload demo_metadata = Inr p" by (rule demo_payload)
  have "distinct (map (of_nat :: nat \<Rightarrow> uuid) [0 ..< 100])"
    by (auto simp: distinct_map inj_on_def unat_of_nat dest!: arg_cong [where f = unat])
  from aborted_uploads_exhaust_mount [OF p this, of TunnelConnection_init] show ?thesis
    by (simp add: TunnelConnection_init_def MAX_STREAMS_def)
qed

subsection \<open>Metadata and HTML\<close>

text \<open>The metadata of OPEN and WS_OPEN frames arrives as it was sent. What \<open>to_payload\<close> accepts fits
  a frame of either type, and \<open>from_payload\<close> gives the same method, path, query, headers and length
  back, whatever characters they hold.\<close>

lemma metadata_roundtrip:
  assumes "distinct (map fst (rm_headers m))" and "distinct (map fst (wm_headers w))"
    and "to_payload m = Inr p" and "ws_to_payload w = Inr q"
  shows "from_payload p = Inr m \<and> ws_from_payload q = Inr w \<and>
    serialize_frame OPEN rid p \<noteq> Inl FrameTooLargeError \<and> serialize_frame WS_OPEN rid q \<noteq> Inl FrameTooLargeError"
  using from_to_payload [OF assms(3,1)] ws_from_to_payload [OF assms(4,2)]
  by (simp add: serialize_frame_def METADATA_MAX_BYTES_def MAX_PAYLOAD_BYTES_def)

lemma metadata_roundtrip_witness:
  "\<exists>p q. from_payload p = Inr demo_metadata \<and> ws_from_payload q = Inr \<lparr>wm_path = [CHR 0x22], wm_query = [CHR 10], wm_headers = []\<rparr>"
proof -
  have "length (dumps_text (JObj [(''path'', JStr [CHR 0x22]), (''query'', JStr [CHR 10]), (''headers'', headers_json [])])) \<le> 1000"
    using quoted_length [of "''path''"] quoted_length [of "''query''"] quoted_length [of "''headers''"] quoted_length [of "[CHR 0x22]"]
      quoted_length [of "[CHR 10]"] by (simp add: headers_json_def)
  from json_dumps_length [OF this] obtain q where
    "ws_to_payload \<lparr>wm_path = [CHR 0x22], wm_query = [CHR 10], wm_headers = []\<rparr> = Inr q"
    by (simp add: ws_to_payload_def cap_payload_def METADATA_MAX_BYTES_def)
  moreover obtain p where "to_payload demo_metadata = Inr p" "distinct (map fst (rm_headers demo_metadata))" by (rule demo_payload)
  ultimately show ?thesis
    using metadata_roundtrip [of demo_metadata "\<lparr>wm_path = [CHR 0x22], wm_query = [CHR 10], wm_headers = []\<rparr>" p q] by auto
qed

text \<open>Rewriting HTML for a mount leaves no absolute asset path outside of \<open>/m/\<close>: rewriting the result
  again, for whatever mount, changes nothing.\<close>

lemma rewriting_complete:
  assumes "CHR ''='' \<notin> set code"
  shows "rewrite_html_asset_paths (rewrite_html_asset_paths html (''/m/'' @ code)) P =
    rewrite_html_asset_paths html (''/m/'' @ code)"
  using assms by (rule rewrite_twice)

lemma rewriting_complete_witness:
  "rewrite_html_asset_paths (rewrite_html_asset_paths (''a src='' @ [CHR 0x22] @ ''/x href='' @ [CHR 0x27] @ ''/y'') ''/m/c1'') ''/z'' =
     ''a src='' @ [CHR 0x22] @ ''/m/c1/x href='' @ [CHR 0x27] @ ''/m/c1/y''"
proof -
  have "rewrite_html_asset_paths (''a src='' @ [CHR 0x22] @ ''/x href='' @ [CHR 0x27] @ ''/y'') ''/m/c1'' =
      ''a src='' @ [CHR 0x22] @ ''/m/c1/x href='' @ [CHR 0x27] @ ''/m/c1/y''" by code_simp
  then show ?thesis using rewriting_complete [of "''c1''" "''a src='' @ [CHR 0x22] @ ''/x href='' @ [CHR 0x27] @ ''/y''" "''/z''"]
    by simp
qed

text \<open>A protocol-relative address is taken for a path of the mount.\<close>

lemma protocol_relative_rewritten:
  "rewrite_html_asset_paths (''src='' @ [CHR 0x22] @ ''//cdn/x'') ''/m/c1'' = ''src='' @ [CHR 0x22] @ ''/m/c1//cdn/x''"
  by code_simp

text \<open>An OPEN frame that the agent cannot read is answered, and the relay replies 400.\<close>

lemma malformed_open_answered:
  assumes "open_stream rid relay = Inr (ref, relay1)" and "from_payload p = Inl e"
  shows "\<exists>response relay2. reject_open no_failure rid agent = agent\<lparr>sent := sent agent @ response\<rparr> \<and>
    on_open no_failure rid p agent = OpenRejected (agent\<lparr>sent := sent agent @ response\<rparr>) \<and>
    relay_receive rid response (FirstWait, relay1) =
      Some (ReplyDone \<lparr>rs_status = 400, rs_headers = [], rs_content_type = ''application/octet-stream''\<rparr> [], relay2)"
proof -
  have "length (int_str 400) = 3" by (simp add: int_str_def nat_digits.simps)
  then have "length (dumps_text (JObj [(''status'', JInt 400), (''headers'', headers_json [])])) \<le> 1000"
    using quoted_length [of "''status''"] quoted_length [of "''headers''"] by (simp add: headers_json_def)
  from json_dumps_length [OF this] have l: "length (status_payload 400 []) \<le> MAX_PAYLOAD_BYTES"
    by (simp add: status_payload_def MAX_PAYLOAD_BYTES_def)
  let ?r = "body_frames rid [status_payload 400 []] @ [WsBytes (packed CLOSE rid [])]"
  have "reject_open no_failure rid agent = agent\<lparr>sent := sent agent @ ?r\<rparr>"
    using l by (simp add: reject_open_def send_data_ok send_close_ok body_frames_def)
  with relay_reads_response [OF opened_idle [OF assms(1)] _ l, of "[]"] assms(2) show ?thesis
    by (auto simp: on_open_def kept_headers_def content_type_of_def intro!: exI)
qed

text \<open>The router hands over the decoded path, and the agent puts it into an address as it is: a question
  mark in a name is taken for the start of the query.\<close>

lemma decoded_path_ambiguous:
  "rm_path m = ''/a?b'' \<Longrightarrow> rm_query m = [] \<Longrightarrow> agent_request m body = agent_request (m\<lparr>rm_path := ''/a'', rm_query := ''b''\<rparr>) body"
  by (simp add: agent_request_def)

end
