(* ===== verification/Mount_Bridge.thy ===== *)
theory Mount_Bridge
  imports Mount_Transport
begin

text \<open>
  WebSockets through a mount: \<open>proxy_websocket\<close> of \<open>relay/app/routers/mount_proxy.py\<close> after the
  request was admitted, \<open>on_ws_open\<close> of \<open>agent/connection.py\<close> and \<open>handle_ws_open_frame\<close> of
  \<open>agent/proxy.py\<close>.

  Each end runs two loops: one turns the messages of its own socket into frames, the other turns the
  frames of the stream into messages. Both are modelled over the list of events that arrive. Whether
  the application accepts the agent's connection is an argument.
\<close>

section \<open>Messages\<close>

datatype ws_event = EvText str | EvBytes bytes | EvOther | EvEnd

datatype bridge_end = BridgeWaiting | BridgeReturned | BridgeRaised conn_exn

text \<open>\<open>browser_to_agent\<close>, until it waits, the socket ends or a send raises; the \<open>i\<close>-th send has the
  outcome \<open>out i\<close>.\<close>

fun browser_to_agent ::
  "(nat \<Rightarrow> ws_exn option) \<Rightarrow> nat \<Rightarrow> uuid \<Rightarrow> ws_event list \<Rightarrow> tunnel \<Rightarrow> bridge_end \<times> tunnel" where
  "browser_to_agent out i ws_id [] c = (BridgeWaiting, c)"
| "browser_to_agent out i ws_id (EvEnd # es) c = (BridgeReturned, c)"
| "browser_to_agent out i ws_id (EvText t # es) c =
     (case send_ws_data ws_id (encode_text_message t) (out i) c of
        Inl e \<Rightarrow> (BridgeRaised e, c) | Inr c' \<Rightarrow> browser_to_agent out (i + 1) ws_id es c')"
| "browser_to_agent out i ws_id (EvBytes d # es) c =
     (case send_ws_data ws_id (encode_binary_message d) (out i) c of
        Inl e \<Rightarrow> (BridgeRaised e, c) | Inr c' \<Rightarrow> browser_to_agent out (i + 1) ws_id es c')"
| "browser_to_agent out i ws_id (EvOther # es) c = browser_to_agent out i ws_id es c"

text \<open>\<open>local_to_relay\<close>, the agent's loop over the events of the local socket: a \<open>TextMessage\<close>, a \<open>BytesMessage\<close>,
  a \<open>CloseConnection\<close> or another event.\<close>

fun local_to_relay ::
  "(nat \<Rightarrow> ws_exn option) \<Rightarrow> nat \<Rightarrow> uuid \<Rightarrow> ws_event list \<Rightarrow> tunnel \<Rightarrow> bridge_end \<times> tunnel" where
  "local_to_relay out i ws_id [] c = (BridgeWaiting, c)"
| "local_to_relay out i ws_id (event # es) c = (case event of
     EvText t \<Rightarrow> (case send_ws_data ws_id (encode_text_message t) (out i) c of
        Inl e \<Rightarrow> (BridgeRaised e, c) | Inr c' \<Rightarrow> local_to_relay out (i + 1) ws_id es c')
   | EvBytes d \<Rightarrow> (case send_ws_data ws_id (encode_binary_message d) (out i) c of
        Inl e \<Rightarrow> (BridgeRaised e, c) | Inr c' \<Rightarrow> local_to_relay out (i + 1) ws_id es c')
   | EvEnd \<Rightarrow> (BridgeReturned, c)
   | EvOther \<Rightarrow> local_to_relay out i ws_id es c)"

datatype bridge_message = MText str | MBinary bytes

text \<open>One chunk of \<open>agent_to_browser\<close> and of \<open>relay_to_local\<close>; \<open>None\<close> is an exception of a decoder.\<close>

definition mirror_chunk :: "bytes \<Rightarrow> bridge_message option" where
  "mirror_chunk chunk = (case decode_ws_message chunk of
     Inl e \<Rightarrow> None
   | Inr (TEXT, d) \<Rightarrow> map_option MText (utf8_decode d)
   | Inr (BINARY, d) \<Rightarrow> Some (MBinary d))"

fun agent_to_browser :: "bytes list \<Rightarrow> bridge_message list \<times> bool" where
  "agent_to_browser [] = ([], True)"
| "agent_to_browser (chunk # rest) = (case mirror_chunk chunk of
     None \<Rightarrow> ([], False)
   | Some m \<Rightarrow> (case agent_to_browser rest of (ms, ok) \<Rightarrow> (m # ms, ok)))"

section \<open>The relay's end\<close>

datatype bridge_opened = WsBridging nat tunnel | WsRefused nat tunnel | WsOpenRaised conn_exn tunnel

definition proxy_websocket_open ::
  "ws_exn option \<Rightarrow> uuid \<Rightarrow> WsOpenMetadata \<Rightarrow> tunnel \<Rightarrow> bridge_opened" where
  "proxy_websocket_open out ws_id metadata c = (case open_stream ws_id c of
     Inl e \<Rightarrow> WsOpenRaised (Tun e) c
   | Inr (ref, c1) \<Rightarrow> (case send_ws_open ws_id metadata out c1 of
       Inl e \<Rightarrow>
         if e \<in> {Tun MetadataTooLargeError, Tun TunnelSendError} then WsRefused 1011 (remove_stream ws_id c1)
         else WsOpenRaised e c1
     | Inr c2 \<Rightarrow> WsBridging ref c2))"

text \<open>The end of the bridge, however its two tasks ended.\<close>

definition proxy_websocket_end :: "ws_exn option \<Rightarrow> uuid \<Rightarrow> tunnel \<Rightarrow> tunnel" where
  "proxy_websocket_end out ws_id c =
     remove_stream ws_id (case send_ws_close ws_id out c of Inl e \<Rightarrow> c | Inr c' \<Rightarrow> c')"

section \<open>The agent's end\<close>

datatype ws_accepted = AwsRejected tunnel | AwsSpawned WsOpenMetadata tunnel | AwsRaised conn_exn

definition on_ws_open :: "ws_exn option \<Rightarrow> uuid \<Rightarrow> bytes \<Rightarrow> tunnel \<Rightarrow> ws_accepted" where
  "on_ws_open out ws_id payload c = (case ws_from_payload payload of
     Inl e \<Rightarrow> (case send_ws_close ws_id out c of Inl e' \<Rightarrow> AwsRaised e' | Inr c' \<Rightarrow> AwsRejected c')
   | Inr metadata \<Rightarrow> (case open_stream ws_id c of
       Inl e \<Rightarrow> AwsRaised (Tun e) | Inr (ref, c') \<Rightarrow> AwsSpawned metadata c'))"

definition local_ws_url :: "WsOpenMetadata \<Rightarrow> str" where
  "local_ws_url metadata = ''ws://local'' @ wm_path metadata @
     (if wm_query metadata \<noteq> [] then CHR ''?'' # wm_query metadata else [])"

definition say_ws_close :: "ws_exn option \<Rightarrow> uuid \<Rightarrow> tunnel \<Rightarrow> tunnel" where
  "say_ws_close out ws_id c = (case send_ws_close ws_id out c of Inl e \<Rightarrow> c | Inr c' \<Rightarrow> c')"

text \<open>\<open>handle_ws_open_frame\<close> up to the bridge: a connection that the application refuses ends it.\<close>

definition handle_ws_open_frame ::
  "(str \<Rightarrow> headers \<Rightarrow> bool) \<Rightarrow> ws_exn option \<Rightarrow> uuid \<Rightarrow> WsOpenMetadata \<Rightarrow> tunnel \<Rightarrow> bool \<times> tunnel" where
  "handle_ws_open_frame accepts out ws_id metadata c =
     (if accepts (local_ws_url metadata) (wm_headers metadata) then (True, c)
      else (False, say_ws_close out ws_id c))"

definition handle_ws_end :: "ws_exn option \<Rightarrow> uuid \<Rightarrow> tunnel \<Rightarrow> tunnel" where
  "handle_ws_end out ws_id c = say_ws_close out ws_id (remove_stream ws_id c)"

section \<open>Local mounts (services/local_mount.py)\<close>

text \<open>A local mount needs a code. Its requests go to the application in the process, and the bridge moves
  messages without frames: the messages until the end of the socket, and whether it ended.\<close>

definition LocalAsgiMount :: "str \<Rightarrow> 'a option \<Rightarrow> (str \<times> 'a) option" where
  "LocalAsgiMount code app = (if code = [] then None else map_option (Pair code) app)"

definition forward_request :: "str \<Rightarrow> str \<Rightarrow> str \<Rightarrow> headers \<Rightarrow> bytes \<Rightarrow> str \<Rightarrow> asgi_request" where
  "forward_request code mth p hs content qry = \<lparr>aq_method = mth,
     aq_url = ''http://'' @ code @ ''/'' @ p @ (if qry \<noteq> [] then CHR ''?'' # qry else []), aq_headers = hs, aq_body = content\<rparr>"

definition bridge_url :: "str \<Rightarrow> str \<Rightarrow> str \<Rightarrow> str" where
  "bridge_url code p qry = ''ws://'' @ code @ ''/'' @ p @ (if qry \<noteq> [] then CHR ''?'' # qry else [])"

fun browser_to_local :: "ws_event list \<Rightarrow> bridge_message list \<times> bool" where
  "browser_to_local [] = ([], False)"
| "browser_to_local (EvEnd # es) = ([], True)"
| "browser_to_local (EvText t # es) = (case browser_to_local es of (ms, ended) \<Rightarrow> (MText t # ms, ended))"
| "browser_to_local (EvBytes d # es) = (case browser_to_local es of (ms, ended) \<Rightarrow> (MBinary d # ms, ended))"
| "browser_to_local (EvOther # es) = browser_to_local es"

fun local_to_browser :: "ws_event list \<Rightarrow> bridge_message list \<times> bool" where
  "local_to_browser [] = ([], False)"
| "local_to_browser (event # es) = (case event of
     EvText t \<Rightarrow> (case local_to_browser es of (ms, ended) \<Rightarrow> (MText t # ms, ended))
   | EvBytes d \<Rightarrow> (case local_to_browser es of (ms, ended) \<Rightarrow> (MBinary d # ms, ended))
   | EvEnd \<Rightarrow> ([], True)
   | EvOther \<Rightarrow> local_to_browser es)"

section \<open>A bridge at work\<close>

text \<open>The generator of a stream runs after every frame, until it waits or stops.\<close>

fun iter_pump :: "nat \<Rightarrow> uuid \<Rightarrow> nat \<Rightarrow> iter_pc \<Rightarrow> tunnel \<Rightarrow> bytes list \<times> iter_pc \<times> tunnel" where
  "iter_pump 0 rid ref pc c = ([], pc, c)"
| "iter_pump (Suc n) rid ref pc c = (case iter_resume True rid ref pc c of
     (Yield x, pc', c') \<Rightarrow> (case iter_pump n rid ref pc' c' of (xs, r) \<Rightarrow> (x # xs, r))
   | (Suspended, pc', c') \<Rightarrow> ([], pc', c')
   | (Stop, pc', c') \<Rightarrow> ([], pc', c'))"

fun bridge_receive :: "bool \<Rightarrow> uuid \<Rightarrow> nat \<Rightarrow> ws_frame list \<Rightarrow> iter_pc \<Rightarrow> tunnel \<Rightarrow> (bytes list \<times> iter_pc \<times> tunnel) option" where
  "bridge_receive h rid ref [] pc c = Some ([], pc, c)"
| "bridge_receive h rid ref (WsBytes raw # fs) pc c =
     (case run_receive_loop_once h None (FBytes raw) c of
        RxContinue c' \<Rightarrow> (case iter_pump (Suc (Suc (queue_len ref c'))) rid ref pc c' of (xs, pc', c'') \<Rightarrow>
          map_option (\<lambda>(ys, r). (xs @ ys, r)) (bridge_receive h rid ref fs pc' c''))
      | _ \<Rightarrow> None)"
| "bridge_receive h rid ref (WsText m # fs) pc c = bridge_receive h rid ref fs pc c"

text \<open>The messages among the events, and the payload that carries each.\<close>

fun event_message :: "ws_event \<Rightarrow> bridge_message list" where
  "event_message (EvText t) = [MText t]"
| "event_message (EvBytes d) = [MBinary d]"
| "event_message EvOther = []"
| "event_message EvEnd = []"

fun message_payload :: "bridge_message \<Rightarrow> bytes" where
  "message_payload (MText t) = encode_text_message t"
| "message_payload (MBinary d) = encode_binary_message d"

definition messages :: "ws_event list \<Rightarrow> bridge_message list" where
  "messages es = concat (map event_message es)"

definition ws_frames :: "uuid \<Rightarrow> bridge_message list \<Rightarrow> ws_frame list" where
  "ws_frames rid ms = map (\<lambda>m. WsBytes (packed WS_DATA rid (message_payload m))) ms"

section \<open>Lemmas\<close>

lemma mirror_payload [simp]: "mirror_chunk (message_payload m) = Some m"
  by (cases m) (simp_all add: mirror_chunk_def decode_ws_message_def encode_text_message_def encode_binary_message_def
      utf8_roundtrip)

lemma mirror_all: "agent_to_browser (map message_payload ms) = (ms, True)"
  by (induction ms) simp_all

lemma send_ws_data_ok:
  "length p \<le> MAX_PAYLOAD_BYTES \<Longrightarrow> send_ws_data rid p None c = Inr (c\<lparr>sent := sent c @ [WsBytes (packed WS_DATA rid p)]\<rparr>)"
  by (simp add: send_ws_data_def send_unguarded_def transport_send_def lift_tun_def serialize_frame_def packed_def res_bind_def)

lemma send_ws_close_ok: "send_ws_close rid None c = Inr (c\<lparr>sent := sent c @ [WsBytes (packed WS_CLOSE rid [])]\<rparr>)"
  by (simp add: send_ws_close_def send_unguarded_def transport_send_def lift_tun_def serialize_frame_def packed_def res_bind_def)

text \<open>The loops of the two ends behave alike.\<close>

lemma local_to_relay_eq: "local_to_relay out i ws_id es c = browser_to_agent out i ws_id es c"
  by (induction out i ws_id es c rule: browser_to_agent.induct) (simp_all split: sum.split)

text \<open>The messages that are sent: those before the first one that does not fit a frame with its marker.\<close>

definition fits :: "bridge_message \<Rightarrow> bool" where
  "fits m \<longleftrightarrow> length (message_payload m) \<le> MAX_PAYLOAD_BYTES"

lemma send_ws_data_large:
  "\<not> length p \<le> MAX_PAYLOAD_BYTES \<Longrightarrow> send_ws_data rid p out c = Inl (Tun FrameTooLargeError)"
  by (simp add: send_ws_data_def send_unguarded_def lift_tun_def serialize_frame_def res_bind_def)

lemma forward_all:
  assumes "EvEnd \<notin> set es"
  shows "browser_to_agent no_failure i rid (es @ [EvEnd]) c =
    (if \<forall>m \<in> set (messages es). fits m then BridgeReturned else BridgeRaised (Tun FrameTooLargeError),
     c\<lparr>sent := sent c @ ws_frames rid (takeWhile fits (messages es))\<rparr>)"
  using assms
proof (induction es arbitrary: i c)
  case (Cons e es)
  then show ?case by (cases e) (simp_all add: messages_def ws_frames_def send_ws_data_ok send_ws_data_large fits_def)
qed (simp add: messages_def ws_frames_def)

lemma deserialize_WS_DATA: "length p \<le> MAX_PAYLOAD_BYTES \<Longrightarrow> deserialize_frame (packed WS_DATA rid p) = Inr (WS_DATA, rid, p)"
  unfolding packed_def by (intro deserialize_packed) (simp add: MAX_PAYLOAD_BYTES_def)

lemma deserialize_WS_CLOSE: "deserialize_frame (packed WS_CLOSE rid []) = Inr (WS_CLOSE, rid, [])"
  unfolding packed_def by (intro deserialize_packed) simp

lemma receive_idle_ws_data:
  assumes "idle_stream rid ref c" and "length p \<le> MAX_PAYLOAD_BYTES"
  shows "run_receive_loop_once h out (FBytes (packed WS_DATA rid p)) c = RxContinue (with_queue ref [p] c)"
  using assms by (simp add: run_receive_loop_once_def deserialize_WS_DATA dispatch_frame_def get_stream_def queue_put_def
      idle_stream_def StreamState_new_def QUEUE_DEPTH_def with_queue_def)

lemma bridge_takes:
  assumes "idle_stream rid ref c" and "length p \<le> MAX_PAYLOAD_BYTES"
  shows "bridge_receive h rid ref (WsBytes (packed WS_DATA rid p) # fs) IterLoop c =
    map_option (\<lambda>(ys, r). (p # ys, r)) (bridge_receive h rid ref fs IterLoop c)"
proof -
  have "queue_len ref (with_queue ref [p] c) = 1"
    using assms(1) by (simp add: queue_len_def idle_stream_def with_queue_objs)
  then show ?thesis using assms by (simp add: receive_idle_ws_data idle_resume del: iter_resume.simps)
qed

lemma bridge_ends:
  assumes "idle_stream rid ref c"
  shows "bridge_receive h rid ref [WsBytes (packed WS_CLOSE rid [])] IterLoop c =
    Some ([], IterDone, remove_stream rid (set_closed ref c))"
proof -
  have d: "run_receive_loop_once h None (FBytes (packed WS_CLOSE rid [])) c = RxContinue (set_closed ref c)"
    using assms by (simp add: run_receive_loop_once_def deserialize_WS_CLOSE dispatch_frame_def close_stream_def get_stream_def
        idle_stream_def)
  have "objs (set_closed ref c) ! ref = \<lparr>queue = [], closed_event = True\<rparr>"
    using assms by (simp add: set_closed_def idle_stream_def StreamState_new_def)
  then show ?thesis by (simp add: d iter_loop_def queue_get_def iter_drain_def iter_stop_def)
qed

lemma bridge_reads:
  assumes "idle_stream rid ref c" and "\<forall>m \<in> set ms. length (message_payload m) \<le> MAX_PAYLOAD_BYTES"
  shows "bridge_receive h rid ref (ws_frames rid ms @ [WsBytes (packed WS_CLOSE rid [])]) IterLoop c =
    Some (map message_payload ms, IterDone, remove_stream rid (set_closed ref c))"
  using assms(2)
proof (induction ms)
  case Nil
  then show ?case using bridge_ends [OF assms(1)] by (simp add: ws_frames_def)
next
  case (Cons m ms)
  then show ?case using bridge_takes [OF assms(1), of "message_payload m"] by (simp add: ws_frames_def del: bridge_receive.simps)
qed

lemma frames_sent: "sent (say_ws_close None rid c) = sent c @ [WsBytes (packed WS_CLOSE rid [])]"
  by (simp add: say_ws_close_def send_ws_close_ok)

section \<open>Properties\<close>

text \<open>C19: a WebSocket bridge mirrors messages, in both directions, over a tunnel that transports its frames. The text
  and binary messages before the first one that does not fit a frame with its marker reach the
  other side in order, with their kind and content; their number is not bounded. The bridge
  then ends, by the disconnect when all messages fit, and otherwise because the first message that does not
  fit raises \<open>FrameTooLargeError\<close>; either way the close frame ends the other side, and both ends
  forget the stream.\<close>

theorem bridge_mirrors_messages:
  assumes "idle_stream ws_id ref peer" and "EvEnd \<notin> set es"
  shows "\<exists>c1 fs chunks peer1.
    browser_to_agent no_failure 0 ws_id (es @ [EvEnd]) c =
      (if \<forall>m \<in> set (messages es). length (message_payload m) \<le> MAX_PAYLOAD_BYTES then BridgeReturned
       else BridgeRaised (Tun FrameTooLargeError), c1) \<and>
    local_to_relay no_failure 0 ws_id (es @ [EvEnd]) c = browser_to_agent no_failure 0 ws_id (es @ [EvEnd]) c \<and>
    sent (proxy_websocket_end None ws_id c1) = sent c @ fs \<and> sent (handle_ws_end None ws_id c1) = sent c @ fs \<and>
    bridge_receive h ws_id ref fs IterLoop peer = Some (chunks, IterDone, peer1) \<and>
    agent_to_browser chunks = (takeWhile (\<lambda>m. length (message_payload m) \<le> MAX_PAYLOAD_BYTES) (messages es), True) \<and>
    map_of (streams peer1) ws_id = None \<and> map_of (streams (proxy_websocket_end None ws_id c1)) ws_id = None \<and>
    map_of (streams (handle_ws_end None ws_id c1)) ws_id = None"
proof -
  let ?ms = "takeWhile fits (messages es)"
  note f = forward_all [OF assms(2), of 0 ws_id c]
  have ms: "\<forall>m \<in> set ?ms. length (message_payload m) \<le> MAX_PAYLOAD_BYTES" by (auto simp: fits_def dest: set_takeWhileD)
  have "map_of (streams (remove_stream ws_id d)) ws_id = None" for d by (simp add: remove_stream_def delete_conv')
  moreover have "sent (remove_stream ws_id d) = sent d" for d by (simp add: remove_stream_def)
  moreover have "streams (say_ws_close None ws_id d) = streams d" for d by (simp add: say_ws_close_def send_ws_close_ok)
  ultimately show ?thesis
    using f bridge_reads [OF assms(1) ms] mirror_all [of ?ms]
    by (auto simp: fits_def [abs_def] local_to_relay_eq proxy_websocket_end_def handle_ws_end_def frames_sent send_ws_close_ok intro!: exI)
qed

theorem bridge_mirrors_messages_witness:
  "\<exists>c1 fs chunks peer1.
    browser_to_agent no_failure 0 7 ([EvText ''hi'', EvOther, EvBytes [0, 255]] @ [EvEnd]) TunnelConnection_init = (BridgeReturned, c1) \<and>
    bridge_receive True 7 0 fs IterLoop demo_opened = Some (chunks, IterDone, peer1) \<and>
    agent_to_browser chunks = ([MText ''hi'', MBinary [0, 255]], True)"
proof -
  have "\<forall>m \<in> set (messages [EvText ''hi'', EvOther, EvBytes [0, 255]]). length (message_payload m) \<le> MAX_PAYLOAD_BYTES"
    using utf8_encode_length [of "''hi''"]
    by (auto simp: messages_def encode_text_message_def encode_binary_message_def MAX_PAYLOAD_BYTES_def)
  with bridge_mirrors_messages [OF opened_idle [OF demo_open], of "[EvText ''hi'', EvOther, EvBytes [0, 255]]" TunnelConnection_init True]
  show ?thesis by (auto simp: messages_def)
qed

text \<open>A local mount and a mount behind a tunnel deliver the same messages.\<close>

lemma local_bridge_equivalent:
  assumes "EvEnd \<notin> set es"
  shows "browser_to_local (es @ [EvEnd]) = (messages es, True) \<and> local_to_browser (es @ [EvEnd]) = (messages es, True)"
  using assms
proof (induction es)
  case (Cons e es)
  then show ?case by (cases e) (simp_all add: messages_def)
qed (simp add: messages_def)

text \<open>The relay forgets the stream of a bridge however it ends, or was refused.\<close>

lemma relay_bridge_released:
  "map_of (streams (proxy_websocket_end out ws_id c)) ws_id = None"
  "proxy_websocket_open out ws_id m c = WsRefused n c' \<Longrightarrow> n = 1011 \<and> map_of (streams c') ws_id = None"
  by (auto simp: proxy_websocket_end_def proxy_websocket_open_def remove_stream_def delete_conv'
      split: sum.splits if_splits)

subsection \<open>WebSockets that the application refuses\<close>

text \<open>A WS_OPEN that the application refuses, and the relay's WS_CLOSE in answer.\<close>

definition refused_ws :: "(str \<Rightarrow> headers \<Rightarrow> bool) \<Rightarrow> bytes \<Rightarrow> uuid \<Rightarrow> tunnel \<Rightarrow> tunnel" where
  "refused_ws accepts payload ws_id c = (case on_ws_open None ws_id payload c of
     AwsSpawned metadata c1 \<Rightarrow>
       (case run_receive_loop_once True None (FBytes (packed WS_CLOSE ws_id []))
               (snd (handle_ws_open_frame accepts None ws_id metadata c1)) of
          RxContinue c2 \<Rightarrow> c2 | _ \<Rightarrow> c1)
   | AwsRejected c1 \<Rightarrow> c1
   | AwsRaised e \<Rightarrow> c)"

lemma refused_ws_streams:
  assumes "ws_from_payload q = Inr w" and "\<not> accepts (local_ws_url w) (wm_headers w)"
    and "length (streams c) < MAX_STREAMS" and "rid \<notin> fst ` set (streams c)"
  shows "streams (refused_ws accepts q rid c) = streams c @ [(rid, length (objs c))]"
proof -
  have "map_of (streams c) rid = None" using assms(4) by (simp add: map_of_eq_None_iff)
  then have "open_stream rid c = Inr (length (objs c), c\<lparr>objs := objs c @ [StreamState_new], streams := streams c @ [(rid, length (objs c))]\<rparr>)"
    using assms(3) by (simp add: open_stream_def update_fresh Let_def)
  then show ?thesis using assms(1,2)
    by (auto simp: refused_ws_def on_ws_open_def handle_ws_open_frame_def say_ws_close_def send_ws_close_ok
        run_receive_loop_once_def deserialize_WS_CLOSE dispatch_frame_def close_stream_def get_stream_def res_bind_def set_closed_frame
        split: sum.split option.split)
qed

lemma refused_ws_all:
  assumes "ws_from_payload q = Inr w" and "\<not> accepts (local_ws_url w) (wm_headers w)"
    and "distinct rids" and "set rids \<inter> fst ` set (streams c) = {}" and "length (streams c) + length rids \<le> MAX_STREAMS"
  shows "map fst (streams (fold (refused_ws accepts q) rids c)) = map fst (streams c) @ rids"
  using assms(3-5)
proof (induction rids arbitrary: c)
  case (Cons rid rids)
  have d: "streams (refused_ws accepts q rid c) = streams c @ [(rid, length (objs c))]"
    using Cons.prems by (intro refused_ws_streams [where w = w] assms(1,2)) auto
  from Cons.IH [of "refused_ws accepts q rid c"] Cons.prems show ?case by (auto simp: d)
qed simp

text \<open>A WebSocket that the application refuses leaves its stream registered at the agent: only the end
  of a bridge removes it. After as many refused WebSockets as there may be streams, the next OPEN frame
  ends the agent's receive loop with \<open>StreamLimitError\<close>, and with it every other request of the mount.\<close>

lemma refused_websockets_stop_agent:
  assumes "ws_from_payload q = Inr w" and "\<not> accepts (local_ws_url w) (wm_headers w)"
    and "distinct rids" and "length rids = MAX_STREAMS" and "streams c = []"
    and "from_payload p = Inr m" and "length p \<le> METADATA_MAX_BYTES"
  shows "on_open out rid p (fold (refused_ws accepts q) rids c) = OpenRaised StreamLimitError \<and>
    agent_loop_once out (packed OPEN rid p) (ts, fold (refused_ws accepts q) rids c) = None"
proof -
  have "map fst (streams (fold (refused_ws accepts q) rids c)) = rids"
    using assms refused_ws_all [where accepts = accepts and q = q and rids = rids and c = c, OF assms(1,2,3)] by simp
  then have "length (streams (fold (refused_ws accepts q) rids c)) = MAX_STREAMS" using assms(4) by (metis length_map)
  then have o: "on_open out rid p (fold (refused_ws accepts q) rids c) = OpenRaised StreamLimitError"
    using assms(6) by (simp add: on_open_def open_stream_def)
  then show ?thesis
    by (simp add: agent_loop_once_def run_receive_loop_once_def deserialize_OPEN [OF assms(7)] o)
qed

lemma refused_websockets_stop_agent_witness:
  "\<exists>p q. agent_loop_once no_failure (packed OPEN 1000 p)
     ([], fold (refused_ws (\<lambda>_ _. False) q) (map of_nat [0 ..< 100]) TunnelConnection_init) = None"
proof -
  obtain p where p: "to_payload demo_metadata = Inr p" "distinct (map fst (rm_headers demo_metadata))" by (rule demo_payload)
  let ?w = "\<lparr>wm_path = [], wm_query = [], wm_headers = []\<rparr>"
  have "length (dumps_text (JObj [(''path'', JStr []), (''query'', JStr []), (''headers'', headers_json [])])) \<le> 1000"
    using quoted_length [of "''path''"] quoted_length [of "''query''"] quoted_length [of "''headers''"] quoted_length [of "[]"]
    by (simp add: headers_json_def)
  from json_dumps_length [OF this] obtain q where "ws_to_payload ?w = Inr q"
    by (simp add: ws_to_payload_def cap_payload_def METADATA_MAX_BYTES_def)
  from ws_from_to_payload(1) [OF this] have q: "ws_from_payload q = Inr ?w" by simp
  have "distinct (map (of_nat :: nat \<Rightarrow> uuid) [0 ..< 100])"
    by (auto simp: distinct_map inj_on_def unat_of_nat dest!: arg_cong [where f = unat])
  from refused_websockets_stop_agent [where accepts = "\<lambda>_ _. False" and c = TunnelConnection_init, OF q _ this _ _ from_to_payload [OF p]]
  show ?thesis by (intro exI [of _ p] exI [of _ q]) (simp add: TunnelConnection_init_def MAX_STREAMS_def)
qed

end
