(* ===== verification/Agent.thy ===== *)
theory Agent
  imports Relay_Agent Mount_Bridge
begin

text \<open>
  The agent's own side of a mount (\<open>agent/auth.py\<close>, \<open>agent/cli.py\<close>, \<open>agent/connection.py\<close>,
  \<open>shared/backoff.py\<close>, \<open>shared/duration.py\<close>): the \<open>--allow\<close> entries and the owner, the token, the
  \<open>agent_auth\<close> message, one connection from the handshake to its end, the messages about expired
  files, and the loop that reconnects.

  What the network and the user do is an argument: whether the WebSocket connects, the reply of
  the token endpoint, the relay's first message, how the receive loop ends and whether the
  countdown fired. Floating-point numbers are reals; the one conversion that fails for numbers
  in reach, of an integer of \<open>2\<^sup>1\<^sup>0\<^sup>2\<^sup>4\<close> or more, is modelled.
\<close>

section \<open>Allowlist entries and owners (agent/auth.py, agent/cli.py)\<close>

record AgentAllowEntry =
  allow_type :: SubjectType
  allow_ref :: str
  allow_role :: Role

record AgentOwner =
  owner_username :: str
  owner_password :: str
  owner_mode :: AccessMode
  owner_allowlist :: "AgentAllowEntry list"

text \<open>\<open>str.partition\<close> and \<open>str.rpartition\<close> by one character: the part before, whether it was found, the
  part after.\<close>

definition py_partition :: "char \<Rightarrow> str \<Rightarrow> str \<times> bool \<times> str" where
  "py_partition c s = (takeWhile (\<lambda>x. x \<noteq> c) s, c \<in> set s, drop 1 (dropWhile (\<lambda>x. x \<noteq> c) s))"

definition py_rpartition :: "char \<Rightarrow> str \<Rightarrow> str \<times> bool \<times> str" where
  "py_rpartition c s =
     (rev (drop 1 (dropWhile (\<lambda>x. x \<noteq> c) (rev s))), c \<in> set s, rev (takeWhile (\<lambda>x. x \<noteq> c) (rev s)))"

datatype allow_exn = AllowShape | AllowEmptyRef | AllowType | AllowRole

definition parse_allow_entry :: "str \<Rightarrow> (allow_exn, AgentAllowEntry) result" where
  "parse_allow_entry spec =
     (case py_partition CHR '':'' spec of (type_str, sep_head, rest) \<Rightarrow>
      case py_rpartition CHR '':'' rest of (ref, sep_tail, role_str) \<Rightarrow>
        if \<not> sep_head \<or> \<not> sep_tail then Inl AllowShape
        else if py_strip ref = [] then Inl AllowEmptyRef
        else (case parse_SubjectType (JStr (py_strip type_str)) of
            None \<Rightarrow> Inl AllowType
          | Some st \<Rightarrow> (case parse_Role (JStr (py_strip role_str)) of
              None \<Rightarrow> Inl AllowRole
            | Some rl \<Rightarrow> Inr \<lparr>allow_type = st, allow_ref = py_strip ref, allow_role = rl\<rparr>)))"

fun parse_allow_entries :: "str list \<Rightarrow> (allow_exn, AgentAllowEntry list) result" where
  "parse_allow_entries [] = Inr []"
| "parse_allow_entries (spec # specs) =
     res_bind (parse_allow_entry spec) (\<lambda>e. res_bind (parse_allow_entries specs) (\<lambda>es. Inr (e # es)))"

text \<open>\<open>_build_owner\<close>: \<open>Inl\<close> is \<open>sys.exit(1)\<close>. The password was read from the terminal, or is a line of the
  standard input without its line ends.\<close>

datatype owner_exit = RestrictedWithoutLogin | NoOwnerPassword | BadAllow allow_exn | BadMode

definition py_rstrip_char :: "char \<Rightarrow> str \<Rightarrow> str" where
  "py_rstrip_char c s = rev (dropWhile (\<lambda>x. x = c) (rev s))"

definition build_owner ::
  "str option \<Rightarrow> str option \<Rightarrow> bool \<Rightarrow> str \<Rightarrow> str list \<Rightarrow> (owner_exit, AgentOwner option) result" where
  "build_owner login_arg access_mode_arg password_stdin line allow = (case login_arg of
     None \<Rightarrow> if access_mode_arg = Some ''restricted'' then Inl RestrictedWithoutLogin else Inr None
   | Some name \<Rightarrow>
       (let pw = (if password_stdin then py_rstrip_char CHR 0x0A line else line) in
        if pw = [] then Inl NoOwnerPassword
        else (case (case access_mode_arg of None \<Rightarrow> Some RESTRICTED | Some a \<Rightarrow> parse_AccessMode (JStr a)) of
            None \<Rightarrow> Inl BadMode
          | Some mode \<Rightarrow> (case parse_allow_entries allow of
              Inl e \<Rightarrow> Inl (BadAllow e)
            | Inr es \<Rightarrow> Inr (Some \<lparr>owner_username = name, owner_password = pw, owner_mode = mode,
                owner_allowlist = es\<rparr>)))))"

datatype mount_exit = FolderMissing | FolderNotDirectory | PasswordTooLong | PasswordWeak | OwnerExit owner_exit

text \<open>\<open>run_mount\<close> up to the loop; \<open>folder\<close> is what the resolved path is: \<open>None\<close> for nothing, \<open>Some\<close> with
  whether it is a directory.\<close>

definition run_mount ::
  "(bytes \<Rightarrow> bytes \<Rightarrow> bytes) \<Rightarrow> bytes \<Rightarrow> bool option \<Rightarrow> str option \<Rightarrow> (owner_exit, AgentOwner option) result \<Rightarrow>
   (mount_exit, bytes option \<times> AgentOwner option) result" where
  "run_mount hashpw salt folder password owner = (case folder of
     None \<Rightarrow> Inl FolderMissing
   | Some False \<Rightarrow> Inl FolderNotDirectory
   | Some True \<Rightarrow>
       (case (case password of
          None \<Rightarrow> Inr None
        | Some p \<Rightarrow>
            if length (utf8_encode p) > 72 then Inl PasswordTooLong
            else (case hash_password hashpw salt p of Inl e \<Rightarrow> Inl PasswordWeak | Inr h \<Rightarrow> Inr (Some h))) of
          Inl e \<Rightarrow> Inl e
        | Inr pw_hash \<Rightarrow> (case owner of
            Inl e \<Rightarrow> Inl (OwnerExit e) | Inr o' \<Rightarrow> Inr (pw_hash, o'))))"

section \<open>The token and the handshake\<close>

datatype agent_exn = AgentExpiredError | AgentAuthError | KeyboardInterrupt | OtherException

text \<open>The reply of the token endpoint: \<open>None\<close> when the request failed.\<close>

definition fetch_agent_token :: "(nat \<times> json_text) option \<Rightarrow> (agent_exn, json) result" where
  "fetch_agent_token resp = (case resp of
     None \<Rightarrow> Inl AgentAuthError
   | Some (st, body) \<Rightarrow>
       if st \<noteq> 200 then Inl AgentAuthError
       else (case body of
           Json (JObj kvs) \<Rightarrow> (case map_of kvs ''token'' of
               None \<Rightarrow> Inl AgentAuthError
             | Some t \<Rightarrow> if json_true t then Inr t else Inl AgentAuthError)
         | _ \<Rightarrow> Inl OtherException))"

definition token_url :: "str \<Rightarrow> str" where
  "token_url relay_url = py_rstrip_char CHR ''/'' relay_url @ ''/auth/agent-token''"

text \<open>The address of the relay's endpoint. A code is the JSON value the relay assigned, \<open>JNull\<close> is
  \<open>None\<close>.\<close>

definition agent_ws_url :: "(json \<Rightarrow> str) \<Rightarrow> str \<Rightarrow> json \<Rightarrow> str" where
  "agent_ws_url str_of relay_url preferred_code =
     (let base = py_rstrip_char CHR ''/'' relay_url;
          base' = (if py_startswith base ''https://'' then ''wss://'' @ drop (length ''https://'') base
                   else if py_startswith base ''http://'' then ''ws://'' @ drop (length ''http://'') base
                   else base)
      in base' @ ''/agent/ws'' @
         (if preferred_code \<noteq> JNull then ''?code='' @ json_str str_of preferred_code else []))"

fun subject_value :: "SubjectType \<Rightarrow> str" where
  "subject_value USER = ''user''"
| "subject_value GROUP = ''group''"

fun mode_value :: "AccessMode \<Rightarrow> str" where
  "mode_value OPEN_MODE = ''open''"
| "mode_value RESTRICTED = ''restricted''"
| "mode_value LEGACY = ''legacy''"

definition allow_json :: "AgentAllowEntry \<Rightarrow> json" where
  "allow_json e = JObj [(''subject_type'', JStr (subject_value (allow_type e))),
     (''subject_ref'', JStr (allow_ref e)), (''role'', JStr (role_value (allow_role e)))]"

definition agent_auth_message :: "str \<Rightarrow> json \<Rightarrow> AgentOwner option \<Rightarrow> bytes option \<Rightarrow> json" where
  "agent_auth_message identity_secret token owner pw_hash = JObj [
     (''type'', JStr ''agent_auth''),
     (''protocol_version'', JInt PROTOCOL_VERSION),
     (''identity_secret'', JStr identity_secret),
     (''token'', token),
     (''access_mode'', JStr (mode_value (case owner of None \<Rightarrow> OPEN_MODE | Some o' \<Rightarrow> owner_mode o'))),
     (''has_password'', JBool (pw_hash \<noteq> None)),
     (''allowlist'', JList (map allow_json (case owner of None \<Rightarrow> [] | Some o' \<Rightarrow> owner_allowlist o')))]"

text \<open>The relay's first message: anything but \<open>mount_registered\<close> with a code raises.\<close>

definition registered_code :: "json_text \<Rightarrow> (agent_exn, json) result" where
  "registered_code text = (case receive_control text of
     Inr (JObj kvs) \<Rightarrow>
       if map_of kvs ''type'' \<noteq> Some (JStr ''mount_registered'') then Inl OtherException
       else (case map_of kvs ''code'' of None \<Rightarrow> Inl OtherException | Some c \<Rightarrow> Inr c)
   | _ \<Rightarrow> Inl OtherException)"

section \<open>Expired files\<close>

text \<open>The control handler of the agent: what it sends for the user's answer, \<open>None\<close> when nothing.\<close>

definition expired_files_reply :: "(str \<times> json) list \<Rightarrow> str \<Rightarrow> json" where
  "expired_files_reply kvs answer = JObj [
     (''type'', JStr (if py_lower (py_strip answer) = ''y'' then ''delete_expired_files'' else ''keep_expired_files'')),
     (''code'', get_or kvs ''code'' (JStr []))]"

definition handle_expired_files :: "(str \<times> json) list \<Rightarrow> str \<Rightarrow> (agent_exn, json option) result" where
  "handle_expired_files kvs answer = (let files = get_or kvs ''files'' (JList []) in
     if \<not> json_true files then Inr None
     else (case files of
         JList fs \<Rightarrow>
           if \<forall>f \<in> set fs. json_item f ''path'' \<noteq> None then Inr (Some (expired_files_reply kvs answer))
           else Inl OtherException
       | _ \<Rightarrow> Inl OtherException))"

definition agent_control_handler :: "json \<Rightarrow> str \<Rightarrow> (agent_exn, json option) result" where
  "agent_control_handler message answer = (case message of
     JObj kvs \<Rightarrow> if map_of kvs ''type'' = Some (JStr ''expired_files'') then handle_expired_files kvs answer else Inr None
   | _ \<Rightarrow> Inl OtherException)"

section \<open>The countdown\<close>

definition format_remaining :: "int \<Rightarrow> str" where
  "format_remaining seconds =
     (let hours = seconds div 3600; rem = seconds mod 3600; minutes = rem div 60; secs = rem mod 60 in
      if hours > 0 then int_str hours @ ''h '' @ int_str minutes @ ''m''
      else if minutes > 0 then
        (if secs > 0 then int_str minutes @ ''m '' @ int_str secs @ ''s'' else int_str minutes @ ''m'')
      else int_str secs @ ''s'')"

definition countdown_interval :: "int \<Rightarrow> int" where
  "countdown_interval ttl_seconds = (if ttl_seconds \<le> 300 then 10 else 60)"

text \<open>\<open>_print_ttl_countdown\<close>: the times it prints, for the whole seconds elapsed at each wake-up.\<close>

fun countdown_loop :: "int \<Rightarrow> int list \<Rightarrow> str list" where
  "countdown_loop ttl_seconds [] = []"
| "countdown_loop ttl_seconds (elapsed # es) =
     (if ttl_seconds - elapsed \<le> 0 then []
      else format_remaining (ttl_seconds - elapsed) # countdown_loop ttl_seconds es)"

definition print_ttl_countdown :: "int \<Rightarrow> int list \<Rightarrow> str list" where
  "print_ttl_countdown ttl_seconds es = format_remaining ttl_seconds # countdown_loop ttl_seconds es"

section \<open>One connection\<close>

text \<open>How the receive loop ended: by itself or with an exception that the agent takes for a
  disconnect, or with another one.\<close>

datatype loop_end = LoopDisconnected | LoopRaised agent_exn

text \<open>\<open>drain\<close> waits for the handlers, cancelled or not. Nothing puts frames into their queues any more:
  one that waits for its body and was not cancelled never ends, and \<open>gather\<close> never returns.\<close>

fun task_waiting :: "agent_task \<Rightarrow> bool" where
  "task_waiting (TaskReading rid m ref parts) = True"
| "task_waiting _ = False"

definition drain_returns :: "bool \<Rightarrow> agent_task list \<Rightarrow> bool" where
  "drain_returns cancelling pending \<longleftrightarrow> cancelling \<or> (\<forall>t \<in> set pending. \<not> task_waiting t)"

record connection_env =
  ce_connects :: bool
  ce_token :: "(nat \<times> json_text) option"
  ce_send :: "ws_exn option"
  ce_reply :: json_text
  ce_factory_ok :: bool
  ce_end :: loop_end
  ce_cancelling :: bool
  ce_pending :: "agent_task list"
  ce_tunnel :: tunnel
  ce_ttl_fired :: bool

text \<open>From \<open>mount_registered\<close> to the end of the connection, \<open>None\<close> when it never ends.\<close>

definition serve_registered :: "connection_env \<Rightarrow> json \<Rightarrow> (agent_exn, json) result option" where
  "serve_registered env code =
     (if \<not> ce_factory_ok env then Some (Inl OtherException)
      else if \<not> drain_returns (ce_cancelling env) (ce_pending env) then None
      else (case close_conn (ce_tunnel env) of
          (Inl e, c) \<Rightarrow> Some (Inl OtherException)
        | (Inr _, c) \<Rightarrow> (case ce_end env of
            LoopRaised e \<Rightarrow> Some (Inl e)
          | LoopDisconnected \<Rightarrow> Some (if ce_ttl_fired env then Inl AgentExpiredError else Inr code))))"

definition connect_and_serve ::
  "str \<Rightarrow> bytes option \<Rightarrow> AgentOwner option \<Rightarrow> connection_env \<Rightarrow> (agent_exn, json) result option" where
  "connect_and_serve identity_secret pw_hash owner env =
     (if \<not> ce_connects env then Some (Inl OtherException)
      else (case (case owner of None \<Rightarrow> Inr JNull | Some o' \<Rightarrow> fetch_agent_token (ce_token env)) of
          Inl e \<Rightarrow> Some (Inl e)
        | Inr token \<Rightarrow>
            (case send_control (agent_auth_message identity_secret token owner pw_hash) (ce_send env) TunnelConnection_init of
               Inl e \<Rightarrow> Some (Inl OtherException)
             | Inr c \<Rightarrow> (case registered_code (ce_reply env) of
                 Inl e \<Rightarrow> Some (Inl e) | Inr code \<Rightarrow> serve_registered env code))))"

section \<open>Reconnection (run_agent_loop, shared/backoff.py)\<close>

datatype backoff_exn = BackoffValueError | BackoffOverflow

text \<open>\<open>uniform\<close> is \<open>random.uniform\<close>. The product of a float and an integer converts the integer, which
  fails from \<open>2\<^sup>1\<^sup>0\<^sup>2\<^sup>4\<close> on.\<close>

definition compute_backoff ::
  "(real \<Rightarrow> real \<Rightarrow> real) \<Rightarrow> int \<Rightarrow> real \<Rightarrow> real \<Rightarrow> real \<Rightarrow> (backoff_exn, real) result" where
  "compute_backoff uniform attempt base cap jitter_factor =
     (if attempt < 1 then Inl BackoffValueError
      else if base \<le> 0 then Inl BackoffValueError
      else if cap < base then Inl BackoffValueError
      else if \<not> (0 \<le> jitter_factor \<and> jitter_factor \<le> 1) then Inl BackoffValueError
      else if attempt - 1 \<ge> 1024 then Inl BackoffOverflow
      else let exp_delay = min (base * 2 ^ nat (attempt - 1)) cap;
               jitter = uniform (- jitter_factor) jitter_factor * exp_delay
           in Inr (max 0 (exp_delay + jitter)))"

record agent_loop =
  loop_attempt :: int
  loop_last_code :: json
  loop_delays :: "real list"

datatype loop_result = LoopRunning agent_loop | LoopHangs | LoopStopped agent_exn | LoopCrashed

definition loop_init :: agent_loop where
  "loop_init = \<lparr>loop_attempt = 0, loop_last_code = JNull, loop_delays = []\<rparr>"

definition run_agent_loop_once ::
  "(real \<Rightarrow> real \<Rightarrow> real) \<Rightarrow> (json \<Rightarrow> (agent_exn, json) result option) \<Rightarrow> agent_loop \<Rightarrow> loop_result" where
  "run_agent_loop_once uniform connect s = (case connect (loop_last_code s) of
     None \<Rightarrow> LoopHangs
   | Some (Inr code) \<Rightarrow> LoopRunning (s\<lparr>loop_last_code := code, loop_attempt := 0\<rparr>)
   | Some (Inl OtherException) \<Rightarrow>
       (let attempt = loop_attempt s + 1 in
        case compute_backoff uniform attempt 1 60 (1 / 2) of
          Inl e \<Rightarrow> LoopCrashed
        | Inr delay \<Rightarrow> LoopRunning (s\<lparr>loop_attempt := attempt, loop_delays := loop_delays s @ [delay]\<rparr>))
   | Some (Inl e) \<Rightarrow> LoopStopped e)"

text \<open>The loop over the outcomes of its connections, as far as they are given.\<close>

fun run_agent_loop ::
  "(real \<Rightarrow> real \<Rightarrow> real) \<Rightarrow> (json \<Rightarrow> (agent_exn, json) result option) list \<Rightarrow> agent_loop \<Rightarrow> loop_result" where
  "run_agent_loop uniform [] s = LoopRunning s"
| "run_agent_loop uniform (connect # cs) s = (case run_agent_loop_once uniform connect s of
     LoopRunning s' \<Rightarrow> run_agent_loop uniform cs s' | r \<Rightarrow> r)"

section \<open>Durations (shared/duration.py)\<close>

definition unit_seconds :: "char \<Rightarrow> nat option" where
  "unit_seconds c = (if c = CHR ''s'' then Some 1 else if c = CHR ''m'' then Some 60
     else if c = CHR ''h'' then Some 3600 else if c = CHR ''d'' then Some 86400 else None)"

text \<open>The pattern's \<open>$\<close> also matches before a line end at the end of the text.\<close>

definition parse_duration :: "str \<Rightarrow> nat option" where
  "parse_duration s =
     (let ds = takeWhile is_digit s in
      if ds = [] then None
      else (case dropWhile is_digit s of
          u # r \<Rightarrow> if r \<in> {[], [CHR 0x0A]} then map_option (\<lambda>k. Json.digits_value ds * k) (unit_seconds u) else None
        | [] \<Rightarrow> None))"


section \<open>Lemmas\<close>

subsection \<open>Command line\<close>

lemma cut_at:
  assumes "c \<notin> set a"
  shows "takeWhile (\<lambda>x. x \<noteq> c) (a @ c # b) = a" and "dropWhile (\<lambda>x. x \<noteq> c) (a @ c # b) = c # b"
  using assms by (induction a) auto

lemma partition_append: "c \<notin> set a \<Longrightarrow> py_partition c (a @ c # b) = (a, True, b)"
  by (simp add: py_partition_def cut_at)

lemma rpartition_append: "c \<notin> set b \<Longrightarrow> py_rpartition c (a @ c # b) = (a, True, b)"
  using cut_at [of c "rev b" "rev a"] by (simp add: py_rpartition_def)

lemma subject_value_simps [simp]:
  "CHR '':'' \<notin> set (subject_value st)" "py_strip (subject_value st) = subject_value st"
  "parse_SubjectType (JStr (subject_value st)) = Some st"
  by (cases st; simp add: py_strip_def py_space_def parse_SubjectType_def)+

lemma role_value_simps [simp]:
  "CHR '':'' \<notin> set (role_value rl)" "py_strip (role_value rl) = role_value rl"
  "parse_Role (JStr (role_value rl)) = Some rl"
  by (cases rl; simp add: py_strip_def py_space_def parse_Role_def)+

lemma mode_value_simps [simp]: "parse_AccessMode (JStr (mode_value m)) = Some m"
  by (cases m) (simp_all add: parse_AccessMode_def)

lemma parse_allow_spec:
  assumes "py_strip ref = ref" and "ref \<noteq> []"
  shows "parse_allow_entry (subject_value st @ '':'' @ ref @ '':'' @ role_value rl) =
    Inr \<lparr>allow_type = st, allow_ref = ref, allow_role = rl\<rparr>"
proof -
  have p: "py_partition CHR '':'' (subject_value st @ '':'' @ ref @ '':'' @ role_value rl) =
      (subject_value st, True, ref @ CHR '':'' # role_value rl)"
    using partition_append [of "CHR '':''" "subject_value st" "ref @ CHR '':'' # role_value rl"] by simp
  show ?thesis unfolding parse_allow_entry_def p using assms by (simp add: rpartition_append)
qed

lemma parse_duration_digits:
  assumes "unit_seconds u = Some k"
  shows "parse_duration (nat_digits n @ [u]) = Some (n * k)"
proof -
  have d: "\<forall>c \<in> set (nat_digits n). is_digit c" by (simp add: nat_digits_digit)
  have u: "\<not> is_digit u" using assms by (auto simp: unit_seconds_def is_digit_def split: if_splits)
  have "takeWhile is_digit (nat_digits n @ [u]) = nat_digits n" "dropWhile is_digit (nat_digits n @ [u]) = [u]"
    using d u by (auto simp: takeWhile_append2 dropWhile_append2)
  then show ?thesis using assms by (simp add: parse_duration_def digits_value_nat)
qed

subsection \<open>The handshake\<close>

definition resolve_entry :: "accounts_db \<Rightarrow> AgentAllowEntry \<Rightarrow> (agent_reject, PolicyEntry) result" where
  "resolve_entry db e = (case (if allow_type e = USER then map_ok uid (get_user_by_username (allow_ref e) db)
       else map_ok gid (get_group_by_name (allow_ref e) db)) of
     Inl x \<Rightarrow> Inl (UnknownSubject (allow_type e) (allow_ref e))
   | Inr sid \<Rightarrow> Inr \<lparr>subject_type = allow_type e, subject_id = sid, entry_role = allow_role e\<rparr>)"

fun resolve_entries :: "accounts_db \<Rightarrow> AgentAllowEntry list \<Rightarrow> (agent_reject, PolicyEntry list) result" where
  "resolve_entries db [] = Inr []"
| "resolve_entries db (e # es) =
     res_bind (resolve_entry db e) (\<lambda>p. res_bind (resolve_entries db es) (\<lambda>ps. Inr (p # ps)))"

lemma read_entry_allow: "read_entry str_of db (allow_json e) = resolve_entry db e"
  by (simp add: read_entry_def allow_json_def resolve_entry_def)

lemma read_entries_allow: "read_entries str_of db (map allow_json es) = resolve_entries db es"
  by (induction es) (simp_all add: read_entry_allow)

definition declared_mode :: "AgentOwner option \<Rightarrow> AccessMode" where
  "declared_mode owner = (case owner of None \<Rightarrow> OPEN_MODE | Some o' \<Rightarrow> owner_mode o')"

definition declared_allowlist :: "AgentOwner option \<Rightarrow> AgentAllowEntry list" where
  "declared_allowlist owner = (case owner of None \<Rightarrow> [] | Some o' \<Rightarrow> owner_allowlist o')"

text \<open>What the relay makes of the agent's message.\<close>

lemma read_agent_message:
  assumes "s \<noteq> []"
  shows "read_agent_auth loads str_of db (Json (agent_auth_message s token owner h)) =
    res_bind (read_owner loads db token) (\<lambda>(i, n).
      if declared_mode owner = RESTRICTED \<and> i = None then Inl RestrictedNeedsLogin
      else res_bind (resolve_entries db (declared_allowlist owner)) (\<lambda>es.
        Inr \<lparr>auth_owner = i, auth_owner_name = n, auth_mode = declared_mode owner, auth_has_password = (h \<noteq> None),
          auth_entries = es, auth_secret = Some s\<rparr>))"
  unfolding read_agent_auth_def agent_auth_message_def declared_mode_def [symmetric] declared_allowlist_def [symmetric]
  using assms
  by (cases "read_owner loads db token")
    (auto simp: receive_control_def version_matches_def get_or_def Let_def read_entries_allow)

subsection \<open>Reconnection\<close>

lemma store_policy_row:
  assumes "find_mount c reg = Some m"
  obtains m' where "find_mount c (store_policy auth c reg) = Some m'" "status m' = status m" "agent_ip m' = agent_ip m"
    "expires_at m' = expires_at m"
proof -
  obtain reg1 where r1: "set_owner_policy c (auth_owner auth) (auth_mode auth) (auth_has_password auth)
      (auth_entries auth) reg = Inr reg1"
    using assms by (auto simp: set_owner_policy_def rowcount_mount)
  have "find_mount c (store_policy auth c reg) = find_mount c reg1"
    by (auto simp: store_policy_def r1 or_keep_def set_identity_secret_def find_mount_def split: option.splits sum.splits)
  then show ?thesis using set_owner_policy_get(4) [OF r1] assms that by simp
qed

text \<open>A mount that is offline and waits for its agent.\<close>

definition resumable :: "str \<Rightarrow> timestamp option \<Rightarrow> str \<Rightarrow> registry \<Rightarrow> bool" where
  "resumable ip e c reg \<longleftrightarrow> registry_ok reg \<and>
     (\<exists>m. find_mount c reg = Some m \<and> status m = OFFLINE \<and> agent_ip m = ip \<and> expires_at m = e)"

definition mount_online :: "str \<Rightarrow> timestamp option \<Rightarrow> str \<Rightarrow> registry \<Rightarrow> bool" where
  "mount_online ip e c reg \<longleftrightarrow> registry_ok reg \<and>
     (\<exists>m. find_mount c reg = Some m \<and> status m = ONLINE \<and> agent_ip m = ip \<and> expires_at m = e)"

lemma disconnect_resumable:
  assumes "mount_online ip e c reg"
  shows "resumable ip e c (agent_disconnect False c reg)"
    and "count_mounts_by_ip x (agent_disconnect False c reg) = count_mounts_by_ip x reg"
proof -
  obtain m where ok: "registry_ok reg" and m: "find_mount c reg = Some m" "status m = ONLINE" "agent_ip m = ip" "expires_at m = e"
    using assms by (auto simp: mount_online_def)
  obtain reg' where r: "mark_offline c reg = Inr reg'" using m by (simp add: mark_offline_def Let_def)
  then have d: "agent_disconnect False c reg = reg'" by (simp add: agent_disconnect_def or_keep_def)
  have mm: "mounts reg' = mounts (set_status c OFFLINE reg)" using r m by (auto simp: mark_offline_def Let_def)
  have "find_mount c reg' = Some (m\<lparr>status := OFFLINE\<rparr>)"
    using r m by (auto simp: mark_offline_def Let_def reg_simps)
  then show "resumable ip e c (agent_disconnect False c reg)"
    using mark_offline_ok [OF ok r] m by (auto simp: resumable_def d)
  have dist: "distinct (map mcode (mounts reg))" using ok by (simp add: registry_ok_def)
  have "r = m" if "r \<in> set (mounts reg)" "mcode r = c" for r
    using that find_mount_code [OF m(1)] dist by (metis distinct_map inj_onD)
  then have "rowcount (\<lambda>m. agent_ip m = x \<and> status m \<noteq> EXPIRED) (mounts reg') =
      rowcount (\<lambda>m. agent_ip m = x \<and> status m \<noteq> EXPIRED) (mounts reg)"
    unfolding mm set_status_def using m(2) by (auto intro!: rowcount_update_where)
  then show "count_mounts_by_ip x (agent_disconnect False c reg) = count_mounts_by_ip x reg"
    by (simp add: count_mounts_by_ip_def d)
qed


lemma connect_connected:
  assumes "registry_ok reg" and "agent_connect config loads str_of db allowed gen k ip now None ttl text reg = Inr (c, t, reg1)"
  shows "mount_online ip (Some (now + of_int (effective_ttl config ttl))) c reg1"
proof -
  obtain auth a rg rg2 where s: "assign_code gen k ip now (auth_owner auth) None reg = (a, rg)"
    "register_assigned config k ip now ttl a rg = Inr (c, t, rg2)" "reg1 = store_policy auth c rg2"
    using agent_connect_steps [OF assms(2)] by metis
  then have a: "a = Fresh gen" "rg = reg" by (auto simp: assign_code_def)
  with s(2) obtain r: "register c (Some k) ip now (Some (now + of_int (effective_ttl config ttl))) reg = Inr rg2"
    by (auto simp: register_assigned_def split: sum.splits)
  then obtain m where m: "find_mount c rg2 = Some m" "status m = ONLINE" "agent_ip m = ip"
    "expires_at m = Some (now + of_int (effective_ttl config ttl))"
    by (auto simp: register_def Let_def reg_simps find_mount_insert split: if_splits)
  have "registry_ok rg2" using register_ok [OF assms(1) r] .
  then have "registry_ok reg1" using store_policy_frame(5) m(1) s(3) by simp
  moreover obtain m' where "find_mount c reg1 = Some m'" "status m' = status m" "agent_ip m' = agent_ip m" "expires_at m' = expires_at m"
    using store_policy_row [OF m(1)] s(3) by metis
  ultimately show ?thesis using m by (auto simp: mount_online_def)
qed

lemma reclaim_any_owner:
  assumes "find_mount c reg = Some m" and "status m = OFFLINE" and "agent_ip m = ip" and "\<not> expired_at now m"
  shows "assign_code gen k ip now owner (Some c) reg = (Reclaimed c (remaining_ttl now m), take_over c k reg)"
  using assms by (cases owner) (simp_all add: assign_code_def try_reclaim_def try_reclaim_as_owner_def Let_def)

lemma reconnect_step:
  assumes "resumable ip e c reg" and "case e of None \<Rightarrow> True | Some t \<Rightarrow> now < t"
    and "read_agent_auth loads str_of db text = Inr auth" and "c \<noteq> dropbox_code config"
    and "count_mounts_by_ip ip reg < max_mounts_per_ip config"
  obtains t reg' where "agent_connect config loads str_of db True gen k ip now (Some c) ttl text reg = Inr (c, t, reg')"
    "mount_online ip e c reg'" "get_connection (\<lambda>_. False) c reg' = Inr k"
    "count_mounts_by_ip ip reg' = count_mounts_by_ip ip reg"
proof -
  obtain m where ok: "registry_ok reg" and m: "find_mount c reg = Some m" "status m = OFFLINE" "agent_ip m = ip" "expires_at m = e"
    using assms(1) by (auto simp: resumable_def)
  have ne: "\<not> expired_at now m" using assms(2) m(4) by (auto simp: expired_at_def split: option.splits)
  define reg2 where "reg2 = take_over c k reg"
  have m2: "find_mount c reg2 = Some (m\<lparr>status := ONLINE\<rparr>)" using m by (simp add: reg2_def take_over_def reg_simps)
  have con: "agent_connect config loads str_of db True gen k ip now (Some c) ttl text reg =
      Inr (c, remaining_ttl now m, store_policy auth c reg2)"
    using assms(3-5) reclaim_any_owner [OF m(1-3) ne, of gen k "auth_owner auth"]
    by (simp add: agent_connect_def admit_def register_assigned_def reg2_def)
  have ok2: "registry_ok reg2" using take_over_ok [OF ok] m(1) by (simp add: reg2_def)
  have f: "find_mount c reg2 \<noteq> None" using m2 by simp
  have ok3: "registry_ok (store_policy auth c reg2)" using store_policy_frame(5) [OF f ok2] .
  obtain m' where m': "find_mount c (store_policy auth c reg2) = Some m'" "status m' = ONLINE" "agent_ip m' = ip" "expires_at m' = e"
    using store_policy_row [OF m2] m by (metis mount_row.select_convs(2,3,5) mount_row.surjective mount_row.update_convs(2))
  have "is_live c k (store_policy auth c reg2)"
    using m' store_policy_frame(2) [OF f] by (simp add: is_live_def reg2_def take_over_def map_of_update)
  then have g: "get_connection (\<lambda>_. False) c (store_policy auth c reg2) = Inr k"
    using get_connection_live [OF ok3] by simp
  have n: "count_mounts_by_ip ip (store_policy auth c reg2) = count_mounts_by_ip ip reg"
    using store_policy_frame(4) [OF f] count_take_over [OF ok m(1,2)] by (simp add: reg2_def)
  show thesis using that [OF con] m' ok3 g n by (auto simp: mount_online_def)
qed

text \<open>The answer to an agent that asks for its offline mount, from the mount's address and before it expires.\<close>

lemma reconnect_outcome:
  assumes "resumable ip e c reg" and "case e of None \<Rightarrow> True | Some t \<Rightarrow> now < t" and "c \<noteq> dropbox_code config"
  shows "if \<not> allowed then agent_connect config loads str_of db allowed gen k ip now (Some c) ttl text reg = Inl RateLimited
    else if count_mounts_by_ip ip reg \<ge> max_mounts_per_ip config
      then agent_connect config loads str_of db allowed gen k ip now (Some c) ttl text reg = Inl TooManyMounts
    else case read_agent_auth loads str_of db text of
      Inl x \<Rightarrow> agent_connect config loads str_of db allowed gen k ip now (Some c) ttl text reg = Inl (Rejected x)
    | Inr auth \<Rightarrow> \<exists>t reg'. agent_connect config loads str_of db allowed gen k ip now (Some c) ttl text reg = Inr (c, t, reg') \<and>
        mount_online ip e c reg' \<and> get_connection (\<lambda>_. False) c reg' = Inr k"
proof (cases "\<not> allowed \<or> count_mounts_by_ip ip reg \<ge> max_mounts_per_ip config")
  case True
  then show ?thesis using assms(3) by (auto simp: agent_connect_def admit_def)
next
  case False
  show ?thesis
  proof (cases "read_agent_auth loads str_of db text")
    case (Inl x)
    then show ?thesis using False assms(3) by (simp add: agent_connect_def admit_def)
  next
    case (Inr auth)
    have n: "count_mounts_by_ip ip reg < max_mounts_per_ip config" and al: "allowed = True" using False by auto
    show ?thesis using False Inr unfolding al by (auto intro: reconnect_step [OF assms(1,2) Inr assms(3) n])
  qed
qed

text \<open>The agent's attempts to reconnect, each with the answer of the rate limiter, the accounts at the time, what else
  happens in the registry before it, and whether closing the connection raises when it is lost again.
  The result says of each the registry it met, and the refusal, or the code it was assigned and the
  tunnel that browsers then reach under it.\<close>

record attempt =
  at_others :: "registry_op list"
  at_allowed :: bool
  at_db :: accounts_db
  at_tun :: conn_ref
  at_now :: timestamp
  at_text :: json_text
  at_close_raises :: bool

fun reconnects ::
  "relay_config \<Rightarrow> loads_fn \<Rightarrow> (json \<Rightarrow> str) \<Rightarrow> str \<Rightarrow> str \<Rightarrow> str \<Rightarrow> attempt list \<Rightarrow> registry \<Rightarrow>
   (registry \<times> attempt \<times> (ws_refusal, str \<times> (registry_exn, conn_ref) result) result) list" where
  "reconnects config loads str_of gen ip c [] reg = []"
| "reconnects config loads str_of gen ip c (a # as) reg =
     (let met = fold registry_step (at_others a) reg in
      case agent_connect config loads str_of (at_db a) (at_allowed a) gen (at_tun a) ip (at_now a) (Some c) None (at_text a) met of
        Inl e \<Rightarrow> (met, a, Inl e) # reconnects config loads str_of gen ip c as met
      | Inr (c', t, reg') \<Rightarrow> (met, a, Inr (c', get_connection (\<lambda>_. False) c' reg')) #
          reconnects config loads str_of gen ip c' as (agent_disconnect (at_close_raises a) c' reg'))"

text \<open>Calls of the registry that change the state of a mount.\<close>

fun touches :: "str \<Rightarrow> registry_op \<Rightarrow> bool" where
  "touches c (Register d k ip t e) = (d = c)"
| "touches c (Deregister d) = (d = c)"
| "touches c (MarkOffline d) = (d = c)"
| "touches c (Expire d) = (d = c)"
| "touches c (TryReclaim d k ip now) = (d = c)"
| "touches c (TryReclaimAsOwner d k ow now) = (d = c)"
| "touches c _ = False"

lemma resumable_step:
  assumes "resumable ip e c reg" and "\<not> touches c op"
  shows "resumable ip e c (registry_step op reg)"
proof (cases "registry_result op reg")
  case (Inl x)
  then show ?thesis using assms(1) by (simp add: registry_step_def or_keep_def)
next
  case (Inr reg')
  obtain m where ok: "registry_ok reg" and m: "find_mount c reg = Some m" "status m = OFFLINE" "agent_ip m = ip" "expires_at m = e"
    using assms(1) by (auto simp: resumable_def)
  have "\<exists>m'. find_mount c reg' = Some m' \<and> status m' = status m \<and> agent_ip m' = agent_ip m \<and> expires_at m' = expires_at m"
    using Inr assms(2) m
  proof (cases op)
    case (DeleteExpiredBefore x)
    have "find_mount c reg' = Some m"
      using m Inr DeleteExpiredBefore ok find_mount_code [OF m(1)] fetchone_key_iff [of mcode "delete_where (expired_before x) (mounts reg)" c m]
      by (auto simp: find_mount_def delete_expired_before_def registry_ok_def table_simps expired_before_def distinct_delete_where)
    then show ?thesis by simp
  qed (auto simp: set_identity_secret_def register_def deregister_def mark_offline_def expire_def mark_ttl_warned_def try_reclaim_def
      try_reclaim_as_owner_def take_over_def create_access_request_def resolve_access_request_def Let_def reg_simps add_policy_entry_def
      set_owner_policy_def find_mount_update find_mount_insert find_mount_delete forget_live_def split: if_splits option.splits)
  then have "resumable ip e c reg'"
    using m registry.step_inv [OF ok, of op] Inr by (auto simp: resumable_def registry_step_def or_keep_def)
  then show ?thesis using Inr by (simp add: registry_step_def or_keep_def)
qed

lemma resumable_run:
  "resumable ip e c reg \<Longrightarrow> \<forall>op \<in> set ops. \<not> touches c op \<Longrightarrow> resumable ip e c (fold registry_step ops reg)"
  by (induction ops arbitrary: reg) (simp_all add: resumable_step)

lemma reconnects_exact:
  assumes "resumable ip e c reg" and "c \<noteq> dropbox_code config"
    and "\<forall>a \<in> set as. (case e of None \<Rightarrow> True | Some t \<Rightarrow> at_now a < t) \<and> \<not> at_close_raises a \<and>
      (\<forall>op \<in> set (at_others a). \<not> touches c op)"
  shows "map (fst \<circ> snd) (reconnects config loads str_of gen ip c as reg) = as \<and>
    (\<forall>(met, a, out) \<in> set (reconnects config loads str_of gen ip c as reg). out =
      (if \<not> at_allowed a then Inl RateLimited
       else if count_mounts_by_ip ip met \<ge> max_mounts_per_ip config then Inl TooManyMounts
       else case read_agent_auth loads str_of (at_db a) (at_text a) of Inl x \<Rightarrow> Inl (Rejected x) | Inr auth \<Rightarrow> Inr (c, Inr (at_tun a))))"
  using assms
proof (induction as arbitrary: reg)
  case (Cons a as)
  define met where "met = fold registry_step (at_others a) reg"
  have m: "resumable ip e c met" using resumable_run [OF Cons.prems(1)] Cons.prems(3) by (simp add: met_def)
  note out = reconnect_outcome [OF m _ Cons.prems(2), of "at_now a" "at_allowed a" loads str_of "at_db a" gen "at_tun a" None "at_text a"]
  note ih = Cons.IH [OF _ Cons.prems(2)]
  show ?case
  proof (cases "agent_connect config loads str_of (at_db a) (at_allowed a) gen (at_tun a) ip (at_now a) (Some c) None (at_text a) met")
    case (Inl x)
    then show ?thesis using out ih [OF m] Cons.prems(3) by (auto simp: met_def [symmetric] Let_def split: if_splits sum.splits)
  next
    case (Inr r)
    then obtain t reg' where r: "r = (c, t, reg')" "mount_online ip e c reg'" "get_connection (\<lambda>_. False) c reg' = Inr (at_tun a)"
      "at_allowed a" "\<not> count_mounts_by_ip ip met \<ge> max_mounts_per_ip config" "\<exists>auth. read_agent_auth loads str_of (at_db a) (at_text a) = Inr auth"
      using out Cons.prems(3) by (auto split: if_splits sum.splits)
    then show ?thesis using Inr ih [OF disconnect_resumable(1) [OF r(2)]] Cons.prems(3) by (auto simp: met_def [symmetric] Let_def)
  qed
qed simp

subsection \<open>The loop\<close>

lemma backoff_bounds:
  assumes "\<And>a b. a \<le> b \<Longrightarrow> a \<le> uniform a b \<and> uniform a b \<le> b"
    and "1 \<le> attempt" and "attempt \<le> 1024" and "0 < b" and "b \<le> cap" and "0 \<le> j" and "j \<le> 1"
  obtains d where "compute_backoff uniform attempt b cap j = Inr d"
    "(1 - j) * min (b * 2 ^ nat (attempt - 1)) cap \<le> d" "d \<le> (1 + j) * min (b * 2 ^ nat (attempt - 1)) cap"
proof -
  define e where "e = min (b * 2 ^ nat (attempt - 1)) cap"
  define u where "u = uniform (- j) j"
  have e: "0 \<le> e" using assms(4,5) by (simp add: e_def)
  have u: "- j \<le> u" "u \<le> j" using assms(1) [of "- j" j] assms(6) by (simp_all add: u_def)
  have "- j * e \<le> u * e" "u * e \<le> j * e" using u e by (simp_all only: mult_right_mono)
  then have lo: "(1 - j) * e \<le> e + u * e" and hi: "e + u * e \<le> (1 + j) * e" by (simp_all add: algebra_simps)
  have "0 \<le> (1 - j) * e" using assms(7) e by simp
  then have m: "max 0 (e + u * e) = e + u * e" using lo by simp
  have "compute_backoff uniform attempt b cap j = Inr (e + u * e)"
    using assms(2-7) m by (simp add: compute_backoff_def e_def [symmetric] u_def [symmetric] Let_def)
  then show thesis using that lo hi by (simp add: e_def)
qed

lemma agent_backoff:
  assumes "\<And>a b. a \<le> b \<Longrightarrow> a \<le> uniform a b \<and> uniform a b \<le> b" and "1 \<le> attempt" and "attempt \<le> 1024"
  obtains d where "compute_backoff uniform attempt 1 60 (1 / 2) = Inr d" "1 / 2 \<le> d" "d \<le> 90"
proof -
  obtain d where d: "compute_backoff uniform attempt 1 60 (1 / 2) = Inr d"
    "(1 - 1 / 2) * min (1 * 2 ^ nat (attempt - 1)) 60 \<le> d" "d \<le> (1 + 1 / 2) * min (1 * 2 ^ nat (attempt - 1)) (60 :: real)"
    by (rule backoff_bounds [OF assms(1-3), of 1 60 "1 / 2"]) simp_all
  define x where "x = min (1 * 2 ^ nat (attempt - 1)) (60 :: real)"
  have "(1 :: real) \<le> 2 ^ nat (attempt - 1)" by simp
  then have "1 \<le> x" "x \<le> 60" by (simp_all add: x_def)
  then have "1 / 2 \<le> d \<and> d \<le> 90" using d(2,3) unfolding x_def [symmetric] by (simp add: field_simps)
  with d(1) show thesis using that by blast
qed

lemma backoff_overflow: "1025 \<le> attempt \<Longrightarrow> compute_backoff uniform attempt 1 60 (1 / 2) = Inl BackoffOverflow"
  by (simp add: compute_backoff_def)

definition loop_ok :: "agent_loop \<Rightarrow> bool" where
  "loop_ok s \<longleftrightarrow> 0 \<le> loop_attempt s \<and> loop_attempt s \<le> 1024 \<and> (\<forall>d \<in> set (loop_delays s). 1 / 2 \<le> d \<and> d \<le> 90)"

abbreviation failed :: "(agent_exn, json) result" where "failed \<equiv> Inl OtherException"

abbreviation outcomes :: "(agent_exn, json) result list \<Rightarrow> (json \<Rightarrow> (agent_exn, json) result option) list" where
  "outcomes outs \<equiv> map (\<lambda>out _. Some out) outs"

lemma sublist_through:
  assumes "x \<notin> set r" and "r \<noteq> []" and "\<not> sublist r a"
  shows "sublist r (a @ x # b) \<longleftrightarrow> sublist r b"
proof
  assume "sublist r (a @ x # b)"
  then consider "sublist r (x # b)" | ys zs where "r = ys @ zs" "suffix ys a" "prefix zs (x # b)"
    using assms(3) by (auto simp: sublist_append)
  then show "sublist r b"
  proof cases
    case 1
    then show ?thesis using assms(1,2) by (auto simp: sublist_Cons_right prefix_Cons)
  next
    case 2
    then have "zs = []" using assms(1) by (auto simp: prefix_Cons)
    then show ?thesis using 2 assms(3) by (simp add: suffix_imp_sublist)
  qed
next
  assume "sublist r b"
  then show "sublist r (a @ x # b)" by (simp add: sublist_append sublist_Cons_right)
qed

text \<open>The loop runs on exactly as long as no 1025 connections in a row failed.\<close>

lemma loop_runs_exactly:
  assumes "\<And>a b. a \<le> b \<Longrightarrow> a \<le> uniform a b \<and> uniform a b \<le> b" and "\<forall>out \<in> set outs. out = failed \<or> (\<exists>c. out = Inr c)"
    and "loop_ok s"
  shows "if sublist (replicate 1025 failed) (replicate (nat (loop_attempt s)) failed @ outs)
    then run_agent_loop uniform (outcomes outs) s = LoopCrashed
    else \<exists>s'. run_agent_loop uniform (outcomes outs) s = LoopRunning s' \<and> loop_ok s'"
  using assms(2,3)
proof (induction outs arbitrary: s)
  case Nil
  have "\<not> sublist (replicate 1025 failed) (replicate (nat (loop_attempt s)) failed)"
    using Nil(2) sublist_length_le by (fastforce simp: loop_ok_def)
  with Nil show ?case by simp
next
  case (Cons out outs)
  show ?case
  proof (cases out)
    case (Inr c)
    let ?s = "s\<lparr>loop_last_code := c, loop_attempt := 0\<rparr>"
    have "\<not> sublist (replicate 1025 failed) (replicate (nat (loop_attempt s)) failed)"
      using Cons.prems(2) sublist_length_le by (fastforce simp: loop_ok_def)
    then have "sublist (replicate 1025 failed) (replicate (nat (loop_attempt s)) failed @ out # outs) =
        sublist (replicate 1025 failed) outs"
      by (intro sublist_through) (auto simp: Inr)
    moreover have "loop_ok ?s" using Cons.prems(2) by (simp add: loop_ok_def)
    ultimately show ?thesis using Cons.IH [of ?s] Cons.prems(1) by (simp add: Inr run_agent_loop_once_def)
  next
    case (Inl e)
    with Cons.prems(1) have out: "out = failed" by auto
    define k where "k = nat (loop_attempt s)"
    have k: "loop_attempt s = int k" "k \<le> 1024" using Cons.prems(2) by (auto simp: k_def loop_ok_def)
    have rep: "replicate k failed @ out # outs = replicate (Suc k) failed @ outs"
      by (simp add: out replicate_app_Cons_same)
    show ?thesis
    proof (cases "k = 1024")
      case True
      then have "sublist (replicate 1025 failed) (replicate k failed @ out # outs)"
        unfolding rep by (simp add: sublist_append)
      moreover have "run_agent_loop uniform (outcomes (out # outs)) s = LoopCrashed"
        using True k by (simp add: out run_agent_loop_once_def backoff_overflow Let_def)
      ultimately show ?thesis unfolding k_def [symmetric] by simp
    next
      case False
      then obtain d where d: "compute_backoff uniform (loop_attempt s + 1) 1 60 (1 / 2) = Inr d" "1 / 2 \<le> d" "d \<le> 90"
        using agent_backoff [OF assms(1), of "loop_attempt s + 1"] k by auto
      let ?s = "s\<lparr>loop_attempt := loop_attempt s + 1, loop_delays := loop_delays s @ [d]\<rparr>"
      have ok: "loop_ok ?s" using Cons.prems(2) d False k by (auto simp: loop_ok_def)
      have n: "nat (loop_attempt ?s) = Suc k" using k by simp
      show ?thesis using Cons.IH [OF _ ok] Cons.prems(1) d(1) unfolding n k_def [symmetric] rep
        by (simp add: out run_agent_loop_once_def Let_def)
    qed
  qed
qed


subsection \<open>Stored policies\<close>

lemma fold_replace_subset: "set (fold (insert_or_replace key) es acc) \<subseteq> set es \<union> set acc"
  by (induction es arbitrary: acc) (auto simp: table_simps, fastforce simp: table_simps)

lemma fold_replace_keys: "key ` set (fold (insert_or_replace key) es acc) = key ` set es \<union> key ` set acc"
proof (induction es arbitrary: acc)
  case (Cons e es)
  have "key ` set (insert_or_replace key e acc) = insert (key e) (key ` set acc)" by (auto simp: table_simps)
  then show ?case using Cons by auto
qed simp

lemma parse_allow_entries_set:
  assumes "parse_allow_entries specs = Inr es"
  shows "e \<in> set es \<longleftrightarrow> (\<exists>spec \<in> set specs. parse_allow_entry spec = Inr e)"
    and "spec \<in> set specs \<Longrightarrow> \<exists>e \<in> set es. parse_allow_entry spec = Inr e"
  using assms by (induction specs arbitrary: es) (auto simp: res_bind_eq_Inr)

lemma resolve_entries_set:
  assumes "resolve_entries db es = Inr ps"
  shows "p \<in> set ps \<longleftrightarrow> (\<exists>e \<in> set es. resolve_entry db e = Inr p)"
    and "e \<in> set es \<Longrightarrow> \<exists>p \<in> set ps. resolve_entry db e = Inr p"
  using assms by (induction es arbitrary: ps) (auto simp: res_bind_eq_Inr)

lemma build_owner_parts:
  assumes "build_owner (Some name) arg stdin line specs = Inr (Some o')"
  shows "parse_allow_entries specs = Inr (owner_allowlist o')"
    and "mode_value (owner_mode o') = (case arg of None \<Rightarrow> ''restricted'' | Some a \<Rightarrow> a)"
  using assms
  by (auto simp: build_owner_def Let_def parse_AccessMode_def split: if_splits option.splits sum.splits)

lemma store_policy_secret:
  assumes "find_mount c reg \<noteq> None" and "c \<noteq> []" and "auth_secret auth = Some s" and "s \<noteq> []"
  shows "get_identity_secret c (store_policy auth c reg) = Some s"
proof -
  obtain reg1 where r1: "set_owner_policy c (auth_owner auth) (auth_mode auth) (auth_has_password auth)
      (auth_entries auth) reg = Inr reg1"
    using assms by (auto simp: set_owner_policy_def rowcount_mount)
  then show ?thesis
    using assms by (simp add: store_policy_def or_keep_def set_identity_secret_def get_identity_secret_def map_of_update)
qed

lemma agent_policy:
  assumes "registry_ok reg" and "s \<noteq> []" and "parse_allow_entries specs = Inr (owner_allowlist o')"
    and "agent_connect config loads str_of db allowed gen tun ip now code ttl (Json (agent_auth_message s token (Some o') h)) reg = Inr (c, t, reg')"
  obtains p where "get_policy c reg' = Inr p" "policy_mode p = owner_mode o'" "policy_has_password p = (h \<noteq> None)"
    "get_identity_secret c reg' = Some s"
    "owner_mode o' = RESTRICTED \<longrightarrow> (\<exists>tok i. token = JStr tok \<and> verify_agent_owner_token loads tok = Inr i \<and> policy_owner p = Some i)"
    "\<forall>entry \<in> set (policy_entries p). \<exists>spec \<in> set specs. \<exists>e. parse_allow_entry spec = Inr e \<and> resolve_entry db e = Inr entry"
    "\<forall>spec \<in> set specs. \<exists>e entry. parse_allow_entry spec = Inr e \<and> resolve_entry db e = Inr entry \<and>
      subject_of entry \<in> subject_of ` set (policy_entries p)"
proof -
  obtain auth a reg1 reg2 where k: "read_agent_auth loads str_of db (Json (agent_auth_message s token (Some o') h)) = Inr auth"
    "assign_code gen tun ip now (auth_owner auth) code reg = (a, reg1)"
    "register_assigned config tun ip now ttl a reg1 = Inr (c, t, reg2)" "reg' = store_policy auth c reg2"
    using agent_connect_steps [OF assms(4)] by metis
  obtain i n es where r: "read_owner loads db token = Inr (i, n)" "owner_mode o' = RESTRICTED \<longrightarrow> i \<noteq> None"
    "resolve_entries db (owner_allowlist o') = Inr es"
    "auth = \<lparr>auth_owner = i, auth_owner_name = n, auth_mode = owner_mode o', auth_has_password = (h \<noteq> None),
       auth_entries = es, auth_secret = Some s\<rparr>"
    using k(1) unfolding read_agent_message [OF assms(2)] declared_mode_def declared_allowlist_def
    by (auto simp: res_bind_eq_Inr split: prod.splits if_splits)
  have f: "find_mount c reg2 \<noteq> None" using registered_live(2) [OF assms(1) k(2,3)] by (auto simp: is_live_def)
  have c: "c \<noteq> []" using f registered_live(1) [OF assms(1) k(2,3)] by (force simp: registry_ok_def dest: find_mount_code)
  have es: "\<exists>spec \<in> set specs. \<exists>e. parse_allow_entry spec = Inr e \<and> resolve_entry db e = Inr entry"
    if "entry \<in> set (fold (insert_or_replace subject_of) es [])" for entry
    using that fold_replace_subset [of subject_of es "[]"] resolve_entries_set(1) [OF r(3)] parse_allow_entries_set(1) [OF assms(3)]
    by fastforce
  have sp: "\<exists>e entry. parse_allow_entry spec = Inr e \<and> resolve_entry db e = Inr entry \<and>
      subject_of entry \<in> subject_of ` set (fold (insert_or_replace subject_of) es [])" if "spec \<in> set specs" for spec
    using that parse_allow_entries_set(2) [OF assms(3)] resolve_entries_set(2) [OF r(3)] fold_replace_keys [of subject_of es "[]"]
    by fastforce
  have own: "owner_mode o' = RESTRICTED \<longrightarrow> (\<exists>tok i'. token = JStr tok \<and> verify_agent_owner_token loads tok = Inr i' \<and> i = Some i')"
    using r(1,2) by (auto simp: read_owner_def split: if_splits json.splits sum.splits session_exn.splits)
  show thesis
    using that store_policy_frame(1) [OF f, of auth] store_policy_secret [OF f c _ assms(2), of auth] es sp own k(4) r(4) by simp
qed

section \<open>Properties\<close>

text \<open>What the owner types is what the relay stores. When an agent that was started with \<open>--login\<close> is
  connected, the policy of its mount has the access mode of the command line, restricted without
  one, and says whether there is a password; every entry comes from an \<open>--allow\<close> argument, with the
  role given there and the user or group of that name, and every such argument has an entry for its
  subject. A restricted mount has the account of a valid token as its owner, and the relay signs
  identities with the secret that the agent chose.\<close>

lemma declared_policy_stored:
  assumes "registry_ok reg" and "s \<noteq> []" and "build_owner (Some name) arg stdin line specs = Inr (Some o')"
    and "agent_connect config loads str_of db allowed gen tun ip now code ttl
      (Json (agent_auth_message s token (Some o') h)) reg = Inr (c, t, reg')"
  shows "\<exists>p. get_policy c reg' = Inr p \<and> mode_value (policy_mode p) = (case arg of None \<Rightarrow> ''restricted'' | Some a \<Rightarrow> a) \<and>
    policy_has_password p = (h \<noteq> None) \<and> get_identity_secret c reg' = Some s \<and>
    (policy_mode p = RESTRICTED \<longrightarrow> (\<exists>tok i. token = JStr tok \<and> verify_agent_owner_token loads tok = Inr i \<and> policy_owner p = Some i)) \<and>
    (\<forall>entry \<in> set (policy_entries p). \<exists>spec \<in> set specs. \<exists>e. parse_allow_entry spec = Inr e \<and> resolve_entry db e = Inr entry) \<and>
    (\<forall>spec \<in> set specs. \<exists>e entry. parse_allow_entry spec = Inr e \<and> resolve_entry db e = Inr entry \<and>
      subject_of entry \<in> subject_of ` set (policy_entries p))"
proof -
  note b = build_owner_parts [OF assms(3)]
  show ?thesis by (rule agent_policy [OF assms(1,2) b(1) assms(4)]) (use b(2) in auto)
qed


definition demo_owner :: AgentOwner where
  "demo_owner = \<lparr>owner_username = ''ann'', owner_password = ''pw'', owner_mode = RESTRICTED, owner_allowlist =
     [\<lparr>allow_type = GROUP, allow_ref = ''dev'', allow_role = READ\<rparr>, \<lparr>allow_type = USER, allow_ref = ''ann'', allow_role = WRITE\<rparr>]\<rparr>"

lemma demo_owner_built:
  "build_owner (Some ''ann'') None False ''pw'' [''group:dev:read'', ''user:ann:write''] = Inr (Some demo_owner)"
proof -
  have "parse_allow_entry ''group:dev:read'' = Inr \<lparr>allow_type = GROUP, allow_ref = ''dev'', allow_role = READ\<rparr>"
    using parse_allow_spec [of "''dev''" GROUP READ] by (simp add: py_strip_def py_space_def)
  moreover have "parse_allow_entry ''user:ann:write'' = Inr \<lparr>allow_type = USER, allow_ref = ''ann'', allow_role = WRITE\<rparr>"
    using parse_allow_spec [of "''ann''" USER WRITE] by (simp add: py_strip_def py_space_def)
  ultimately show ?thesis by (simp add: build_owner_def demo_owner_def)
qed

lemma demo_owner_connects:
  "\<exists>t reg'. agent_connect demo_config demo_loads (\<lambda>_. []) two_groups True ''gen'' 4 ''ip2'' 10 None None
     (Json (agent_auth_message ''key'' (JStr (AGENT_SALT @ ''.a'')) (Some demo_owner) None)) fresh_registry = Inr (''gen'', t, reg')"
proof -
  have o: "read_owner demo_loads two_groups (JStr (AGENT_SALT @ ''.a'')) = Inr (Some 1, Some ''ann'')"
    by (simp add: read_owner_def verify_agent_owner_token_def loads_or_raise_def demo_loads_def agent_payload_def
        get_user_by_id_def fetchone_def two_groups_eq)
  have e: "\<exists>es. resolve_entries two_groups (owner_allowlist demo_owner) = Inr es"
    by (simp add: demo_owner_def resolve_entry_def get_user_by_username_def get_group_by_name_def fetchone_def two_groups_eq map_ok_def)
  from o e show ?thesis
    by (auto simp: agent_connect_def read_agent_message declared_mode_def declared_allowlist_def admit_def demo_config_def
        count_mounts_by_ip_def rowcount_def fresh_registry_def assign_code_def register_assigned_def register_def Let_def)
qed

lemma demo_owner_registered:
  "\<exists>t reg'. agent_connect demo_config demo_loads (\<lambda>_. []) two_groups True ''gen'' 4 ''ip2'' 10 None None
     (Json (agent_auth_message ''key'' (JStr (AGENT_SALT @ ''.a'')) (Some demo_owner) None)) fresh_registry = Inr (''gen'', t, reg') \<and>
   get_connection (\<lambda>_. False) ''gen'' reg' = Inr 4 \<and> get_identity_secret ''gen'' reg' = Some ''key'' \<and>
   get_policy ''gen'' reg' = Inr \<lparr>policy_code = ''gen'', policy_owner = Some 1, policy_mode = RESTRICTED, policy_has_password = False,
     policy_entries = [\<lparr>subject_type = GROUP, subject_id = 1, entry_role = READ\<rparr>, \<lparr>subject_type = USER, subject_id = 1, entry_role = WRITE\<rparr>]\<rparr>"
proof -
  let ?msg = "Json (agent_auth_message ''key'' (JStr (AGENT_SALT @ ''.a'')) (Some demo_owner) None)"
  let ?es = "[\<lparr>subject_type = GROUP, subject_id = 1, entry_role = READ\<rparr>, \<lparr>subject_type = USER, subject_id = 1, entry_role = WRITE\<rparr>]"
  obtain t reg' where c: "agent_connect demo_config demo_loads (\<lambda>_. []) two_groups True ''gen'' 4 ''ip2'' 10 None None ?msg
      fresh_registry = Inr (''gen'', t, reg')"
    using demo_owner_connects by blast
  obtain auth a reg1 reg2 where s: "read_agent_auth demo_loads (\<lambda>_. []) two_groups ?msg = Inr auth"
    "assign_code ''gen'' 4 ''ip2'' 10 (auth_owner auth) None fresh_registry = (a, reg1)"
    "register_assigned demo_config 4 ''ip2'' 10 None a reg1 = Inr (''gen'', t, reg2)" "reg' = store_policy auth ''gen'' reg2"
    using agent_connect_steps [OF c] by metis
  have o: "read_owner demo_loads two_groups (JStr (AGENT_SALT @ ''.a'')) = Inr (Some 1, Some ''ann'')"
    by (simp add: read_owner_def verify_agent_owner_token_def loads_or_raise_def demo_loads_def agent_payload_def
        get_user_by_id_def fetchone_def two_groups_eq)
  have e: "resolve_entries two_groups (owner_allowlist demo_owner) = Inr ?es"
    by (simp add: demo_owner_def resolve_entry_def get_user_by_username_def get_group_by_name_def fetchone_def two_groups_eq map_ok_def)
  have m: "owner_mode demo_owner = RESTRICTED" by (simp add: demo_owner_def)
  have auth: "auth_owner auth = Some 1 \<and> auth_mode auth = RESTRICTED \<and> \<not> auth_has_password auth \<and> auth_entries auth = ?es \<and>
      auth_secret auth = Some ''key''"
    using s(1) o e m by (auto simp: read_agent_message declared_mode_def declared_allowlist_def)
  have f: "find_mount ''gen'' reg2 \<noteq> None" "is_live ''gen'' 4 reg2"
    using registered_live(2) [OF fresh_registry_ok s(2,3)] by (auto simp: is_live_def)
  note fr = store_policy_frame(1-3) [OF f(1), of auth]
  have "fold (insert_or_replace subject_of) ?es [] = ?es"
    by (simp add: insert_or_replace_def delete_where_def)
  moreover have "get_connection (\<lambda>_. False) ''gen'' reg' = Inr 4"
    using f(2) fr(2,3) s(4) by (auto simp: get_connection_def is_live_def split: option.splits)
  ultimately show ?thesis
    using c fr(1) auth store_policy_secret [OF f(1), of auth "''key''"] s(4) by auto
qed

lemma demo_owner_reached:
  "\<exists>t reg' hdrs. agent_connect demo_config demo_loads (\<lambda>_. []) two_groups True ''gen'' 4 ''ip2'' 10 None None
     (Json (agent_auth_message ''key'' (JStr (AGENT_SALT @ ''.a'')) (Some demo_owner) None)) fresh_registry = Inr (''gen'', t, reg') \<and>
   proxy_admit demo_mac (\<lambda>_. False) [] reg' (Some two_groups) (Some demo_ann) ''gen'' demo_forged = Some (Inr (ToTunnel 4 hdrs))"
proof -
  obtain t reg' where c: "agent_connect demo_config demo_loads (\<lambda>_. []) two_groups True ''gen'' 4 ''ip2'' 10 None None
     (Json (agent_auth_message ''key'' (JStr (AGENT_SALT @ ''.a'')) (Some demo_owner) None)) fresh_registry = Inr (''gen'', t, reg')"
    and g: "get_connection (\<lambda>_. False) ''gen'' reg' = Inr 4" "get_identity_secret ''gen'' reg' = Some ''key''"
    and p: "get_policy ''gen'' reg' = Inr \<lparr>policy_code = ''gen'', policy_owner = Some 1, policy_mode = RESTRICTED, policy_has_password = False,
     policy_entries = [\<lparr>subject_type = GROUP, subject_id = 1, entry_role = READ\<rparr>, \<lparr>subject_type = USER, subject_id = 1, entry_role = WRITE\<rparr>]\<rparr>"
    using demo_owner_registered by blast
  have u: "ident_user_id demo_ann \<in> user_ids two_groups" by (simp add: user_ids_def two_groups_eq demo_ann_def)
  have r: "resolve_user_group_ids (ident_user_id demo_ann) two_groups = Some (Inr (user_groups 1 two_groups))"
    using resolve_ok [OF two_groups_ok u] by (simp add: demo_ann_def)
  have "\<exists>r. authorize reg' (Some two_groups) ''gen'' (Some demo_ann) =
      Some (Inr \<lparr>identified = True, decision_username = Some ''ann'', decision_role = Some r\<rparr>)"
    by (cases "1 \<in> user_groups 1 two_groups")
      (simp_all add: authorize_def p matched_role_def r entry_matches_def, simp_all add: demo_ann_def)
  then obtain r where a: "authorize reg' (Some two_groups) ''gen'' (Some demo_ann) =
      Some (Inr \<lparr>identified = True, decision_username = Some ''ann'', decision_role = Some r\<rparr>)" by blast
  show ?thesis using c by (simp add: proxy_admit_def a g identity_headers_def inject_identity_def Let_def sign_identity_def)
qed

lemma declared_policy_stored_witness:
  "\<exists>t reg' p. agent_connect demo_config demo_loads (\<lambda>_. []) two_groups True ''gen'' 4 ''ip2'' 10 None None
     (Json (agent_auth_message ''key'' (JStr (AGENT_SALT @ ''.a'')) (Some demo_owner) None)) fresh_registry = Inr (''gen'', t, reg') \<and>
   get_policy ''gen'' reg' = Inr p \<and> mode_value (policy_mode p) = ''restricted'' \<and> get_identity_secret ''gen'' reg' = Some ''key''"
proof -
  obtain t reg' where c: "agent_connect demo_config demo_loads (\<lambda>_. []) two_groups True ''gen'' 4 ''ip2'' 10 None None
     (Json (agent_auth_message ''key'' (JStr (AGENT_SALT @ ''.a'')) (Some demo_owner) None)) fresh_registry = Inr (''gen'', t, reg')"
    using demo_owner_connects by blast
  from declared_policy_stored [OF fresh_registry_ok _ demo_owner_built c] obtain p where
    "get_policy ''gen'' reg' = Inr p" "mode_value (policy_mode p) = ''restricted''" "get_identity_secret ''gen'' reg' = Some ''key''"
    by auto
  with c show ?thesis by blast
qed

text \<open>C26: a mount keeps its code. An agent that was given a code on its first connection asks for it again, any number
  of times, from the same address and before the mount expires, each time after the relay has marked the
  mount offline; between the attempts anything may happen in the registry but a call that registers,
  removes, expires or reclaims this mount. Each attempt is refused only by the rate limiter, because the address has
  as many mounts as allowed at that moment (its own offline mount counts), or because its message is
  rejected; a refused attempt costs nothing, and every other one is given the same code, under which browsers
  reach its new tunnel.\<close>

theorem reconnects_keep_code:
  assumes "registry_ok reg"
    and "agent_connect config loads str_of db allowed gen tun ip now None ttl text reg = Inr (c, t, reg1)"
    and "c \<noteq> dropbox_code config"
    and "\<forall>a \<in> set as. at_now a < now + of_int (effective_ttl config ttl) \<and> \<not> at_close_raises a \<and>
      (\<forall>op \<in> set (at_others a). \<not> touches c op)"
  shows "map (fst \<circ> snd) (reconnects config loads str_of gen' ip c as (agent_disconnect False c reg1)) = as \<and>
    (\<forall>(met, a, out) \<in> set (reconnects config loads str_of gen' ip c as (agent_disconnect False c reg1)). out =
      (if \<not> at_allowed a then Inl RateLimited
       else if count_mounts_by_ip ip met \<ge> max_mounts_per_ip config then Inl TooManyMounts
       else case read_agent_auth loads str_of (at_db a) (at_text a) of Inl x \<Rightarrow> Inl (Rejected x) | Inr auth \<Rightarrow> Inr (c, Inr (at_tun a))))"
  using assms(3,4) disconnect_resumable [OF connect_connected [OF assms(1,2)]]
  by (intro reconnects_exact [where e = "Some (now + of_int (effective_ttl config ttl))"]) auto

definition demo_attempt :: "bool \<Rightarrow> conn_ref \<Rightarrow> timestamp \<Rightarrow> attempt" where
  "demo_attempt ok k t = \<lparr>at_others = [], at_allowed = ok, at_db = two_groups, at_tun = k, at_now = t, at_text = Json demo_auth,
     at_close_raises = False\<rparr>"

theorem reconnects_keep_code_witness:
  "\<exists>c t reg1. agent_connect demo_config demo_loads (\<lambda>_. []) two_groups True ''gen'' 4 ''ip2'' 10 None None
      (Json demo_auth) fresh_registry = Inr (c, t, reg1) \<and>
    map (snd \<circ> snd) (reconnects demo_config demo_loads (\<lambda>_. []) ''new'' ''ip2'' c [demo_attempt False 5 20, demo_attempt True 6 30]
      (agent_disconnect False c reg1)) = [Inl RateLimited, Inr (c, Inr 6)]"
proof -
  obtain t reg1 where r: "agent_connect demo_config demo_loads (\<lambda>_. []) two_groups True ''gen'' 4 ''ip2'' 10
      None None (Json demo_auth) fresh_registry = Inr (''gen'', t, reg1)" and n: "count_mounts_by_ip ''ip2'' reg1 = 1"
    by (simp add: agent_connect_def admit_def demo_config_def count_mounts_by_ip_def rowcount_def insert_or_replace_def delete_where_def
        fresh_registry_def demo_auth_read assign_code_def register_assigned_def register_def Let_def store_policy_def
        set_owner_policy_def or_keep_def update_where_def)
  let ?off = "agent_disconnect False ''gen'' reg1" and ?a = "demo_attempt False 5 20" and ?b = "demo_attempt True 6 30"
  let ?run = "reconnects demo_config demo_loads (\<lambda>_. []) ''new'' ''ip2'' ''gen'' [?a, ?b] ?off"
  have "\<forall>a \<in> set [?a, ?b]. at_now a < 10 + of_int (effective_ttl demo_config None) \<and>
      \<not> at_close_raises a \<and> (\<forall>op \<in> set (at_others a). \<not> touches ''gen'' op)"
    by (simp add: demo_attempt_def demo_config_def effective_ttl_def)
  note t = reconnects_keep_code [OF fresh_registry_ok r _ this, of "''new''"]
  have cnt: "count_mounts_by_ip ''ip2'' ?off = 1" using disconnect_resumable(2) [OF connect_connected [OF fresh_registry_ok r]] n by simp
  have at: "at_others (demo_attempt x k t) = []" "at_allowed (demo_attempt x k t) = x" for x k t by (simp_all add: demo_attempt_def)
  have one: "\<exists>out. reconnects demo_config demo_loads (\<lambda>_. []) ''new'' ''ip2'' ''gen'' [?b] ?off = [(?off, ?b, out)]"
    by (auto simp: at Let_def split: sum.split)
  have "agent_connect demo_config loads str_of db False gen k ip now (Some ''gen'') ttl msg reg = Inl RateLimited"
    for loads str_of db gen k ip now ttl msg reg by (simp add: agent_connect_def admit_def demo_config_def)
  then have "?run = (?off, ?a, Inl RateLimited) # reconnects demo_config demo_loads (\<lambda>_. []) ''new'' ''ip2'' ''gen'' [?b] ?off"
    by (subst reconnects.simps(2)) (simp add: at Let_def del: reconnects.simps)
  then obtain out where run: "?run = [(?off, ?a, Inl RateLimited), (?off, ?b, out)]" using one by auto
  have "out = Inr (''gen'', Inr 6)"
    using t cnt unfolding run by (auto simp: demo_attempt_def demo_config_def demo_auth_read)
  with run r show ?thesis by auto
qed

text \<open>C36: the agent reconnects for as long as no 1025 connections in a row have failed, and waits between
  half a second and 90 seconds after each failure, whatever the random source gives within its
  bounds. After 1025 failures in a row the loop ends with an exception: the number of the attempt is
  the exponent of an integer that no longer fits a float.\<close>

theorem agent_loop_runs:
  assumes "\<forall>a b. a \<le> b \<longrightarrow> a \<le> uniform a b \<and> uniform a b \<le> b"
    and "\<forall>out \<in> set outs. out = Inl OtherException \<or> (\<exists>c. out = Inr c)"
  shows "if sublist (replicate 1025 (Inl OtherException)) outs
    then run_agent_loop uniform (map (\<lambda>out _. Some out) outs) loop_init = LoopCrashed
    else \<exists>s. run_agent_loop uniform (map (\<lambda>out _. Some out) outs) loop_init = LoopRunning s \<and>
      (\<forall>d \<in> set (loop_delays s). 1 / 2 \<le> d \<and> d \<le> 90)"
proof -
  have "loop_ok loop_init" by (simp add: loop_ok_def loop_init_def)
  from loop_runs_exactly [OF _ assms(2) this, of uniform] assms(1) show ?thesis
    by (auto simp: loop_init_def loop_ok_def)
qed

theorem agent_loop_runs_witness:
  "(\<exists>s. run_agent_loop (\<lambda>a b. a) [\<lambda>_. Some (Inl OtherException), \<lambda>_. Some (Inr (JStr ''abc'')), \<lambda>_. Some (Inl OtherException)] loop_init =
      LoopRunning s) \<and>
    run_agent_loop (\<lambda>a b. a) (map (\<lambda>out _. Some out) (replicate 1025 (Inl OtherException))) loop_init = LoopCrashed"
proof -
  have "\<not> sublist (replicate 1025 (Inl OtherException)) [Inl OtherException, Inr (JStr ''abc''), Inl OtherException]"
    by (auto dest: sublist_length_le)
  then show ?thesis
    using agent_loop_runs [of "\<lambda>a b. a" "[Inl OtherException, Inr (JStr ''abc''), Inl OtherException]"]
      agent_loop_runs [of "\<lambda>a b. a" "replicate 1025 (Inl OtherException)"]
    by (simp add: Ball_def) blast
qed

section \<open>Further results\<close>

text \<open>The reference of an \<open>--allow\<close> argument may itself contain colons: every entry can be written.\<close>

lemma allow_entry_roundtrip:
  assumes "py_strip (allow_ref e) = allow_ref e" and "allow_ref e \<noteq> []"
  shows "parse_allow_entry (subject_value (allow_type e) @ '':'' @ allow_ref e @ '':'' @ role_value (allow_role e)) = Inr e"
  using parse_allow_spec [OF assms, of "allow_type e" "allow_role e"] by simp

text \<open>An agent that fills the quota of mounts of its address cannot come back: its own mount, offline,
  still counts.\<close>

lemma reconnect_refused_at_cap:
  assumes "registry_ok reg"
    and "agent_connect config loads str_of db allowed gen tun ip now None ttl text reg = Inr (c, t, reg1)"
    and "count_mounts_by_ip ip reg1 = max_mounts_per_ip config" and "c \<noteq> dropbox_code config"
  shows "agent_connect config loads str_of db True gen' tun' ip now' (Some c) ttl' text' (agent_disconnect False c reg1) =
    Inl TooManyMounts"
  using assms(3,4) disconnect_resumable(2) [OF connect_connected [OF assms(1,2)], of ip]
  by (simp add: agent_connect_def admit_def)

text \<open>A handler that waits for the rest of a body waits on after the connection was torn down, because it
  reads its queue without looking at the stream's end: \<open>drain\<close> does not return, the connection is
  never closed and the agent never reconnects, unless it is being cancelled.\<close>

lemma tear_down_queue: "map queue (objs (tear_down c)) = map queue (objs c)"
proof -
  have "map queue (objs (fold (\<lambda>rid c'. case map_of (streams c') rid of None \<Rightarrow> c' | Some ref \<Rightarrow> set_closed ref c') rids c)) =
      map queue (objs c)" for rids c
  proof (induction rids arbitrary: c)
    case (Cons rid rids)
    have "map queue (objs (set_closed ref c)) = map queue (objs c)" for ref c
      by (cases "ref < length (objs c)") (simp_all add: set_closed_def map_update list_update_same_conv list_update_beyond)
    with Cons show ?case by (simp split: option.split)
  qed simp
  from this [of _ "c\<lparr>is_closed := True\<rparr>"] show ?thesis by (simp add: tear_down_def Let_def)
qed

lemma lost_upload_hangs_agent:
  assumes "ref < length (objs c)" and "queue (objs c ! ref) = []" and "TaskReading rid m ref parts \<in> set (ce_pending env)"
    and "\<not> ce_cancelling env" and "ce_factory_ok env"
  shows "handle_open_frame app out (TaskReading rid m ref parts) (tear_down c) = (TaskReading rid m ref parts, tear_down c) \<and>
    serve_registered env code = None"
proof -
  have len: "length (objs (tear_down c)) = length (objs c)" using tear_down_queue [of c] by (metis length_map)
  have "queue (objs (tear_down c) ! ref) = []"
    using assms(1,2) tear_down_queue [of c] len by (metis nth_map)
  moreover from this have u: "(objs (tear_down c) ! ref)\<lparr>queue := []\<rparr> = objs (tear_down c) ! ref" by (cases "objs (tear_down c) ! ref") simp
  have "(tear_down c)\<lparr>objs := (objs (tear_down c))[ref := (objs (tear_down c) ! ref)\<lparr>queue := []\<rparr>]\<rparr> = tear_down c"
    unfolding u by simp
  ultimately have "handle_open_frame app out (TaskReading rid m ref parts) (tear_down c) = (TaskReading rid m ref parts, tear_down c)"
    by (simp add: handler_read_def)
  moreover have "serve_registered env code = None"
    using assms(3-5) by (force simp: serve_registered_def drain_returns_def)
  ultimately show ?thesis by blast
qed

text \<open>The answer to the question whether to delete expired files makes no difference: the relay clears the
  records either way, and nothing deletes the files.\<close>

lemma expired_answer_ignored:
  "handle_agent_control_for_mount (expired_files_reply kvs answer) code now db =
   handle_agent_control_for_mount (expired_files_reply kvs answer') code now db"
  by (cases db) (simp_all add: handle_agent_control_for_mount_def expired_files_reply_def get_or_def)

text \<open>A refusal of the relay is no \<open>AgentAuthError\<close>: an agent whose allowlist names an unknown user tries
  again for ever.\<close>

lemma refusal_retried:
  assumes "compute_backoff uniform (loop_attempt s + 1) 1 60 (1 / 2) = Inr d" and "ce_connects env" and "ce_send env = None"
    and "ce_reply env = Json (JObj [(''type'', JStr ''error''), (''error'', reason)])"
  shows "run_agent_loop_once uniform (\<lambda>_. connect_and_serve key h None env) s =
    LoopRunning (s\<lparr>loop_attempt := loop_attempt s + 1, loop_delays := loop_delays s @ [d]\<rparr>)"
  using assms
  by (simp add: run_agent_loop_once_def connect_and_serve_def registered_code_def receive_control_def send_control_def
      agent_auth_message_def transport_send_def TunnelConnection_init_def Let_def)

end
