(* ===== verification/Server_Startup.thy ===== *)
theory Server_Startup
  imports Server_Routes Agent
begin

text \<open>
  A server before its first request, and the route that answers what no other route does:
  \<open>server/app/cli.py\<close>, \<open>bootstrap.py\<close>, \<open>config.py\<close> and \<open>main.py\<close>. The command line has been split into
  options by \<open>argparse\<close>; the folder is resolved in the file system, and the databases are found by
  the directory they lie in.
\<close>

section \<open>Configuration (config.py, bootstrap.py)\<close>

text \<open>The text of an absolute path.\<close>

definition path_text :: "path \<Rightarrow> str" where
  "path_text p = (if p = [] then [sep] else concat (map (\<lambda>n. sep # n) p))"

datatype start_exn =
    FolderDoesNotExist | FolderNoDirectory | FolderLoop | ModesExclusive | PasswordOverCap | StartWeakPassword

definition ServerConfig_init ::
  "fs \<Rightarrow> path \<Rightarrow> bytes option \<Rightarrow> bool \<Rightarrow> bool \<Rightarrow> str option \<Rightarrow> str option \<Rightarrow> (start_exn, server_config) result" where
  "ServerConfig_init fs folder pw_hash ro rc code secret =
     (if \<not> path_exists fs folder then Inl FolderDoesNotExist
      else if \<not> is_dir fs folder then Inl FolderNoDirectory
      else (case realpath fs [] [] folder of
          None \<Rightarrow> Inl FolderLoop
        | Some q \<Rightarrow> Inr \<lparr>cfg_shared_folder = path_text q, cfg_password_hash = pw_hash, cfg_read_only = ro,
            cfg_receive = rc, cfg_mount_code = code, cfg_identity_secret = secret\<rparr>))"

definition create_default_config :: "fs \<Rightarrow> path \<Rightarrow> (start_exn, server_config) result" where
  "create_default_config fs folder = ServerConfig_init fs folder None False False None None"

record MountAppContext =
  ctx_folder :: path
  ctx_password_hash :: "bytes option"
  ctx_mount_code :: str
  ctx_relay_url :: str
  ctx_identity_secret :: str

definition build_mount_app :: "fs \<Rightarrow> MountAppContext \<Rightarrow> (start_exn, server_config) result" where
  "build_mount_app fs ctx = ServerConfig_init fs (ctx_folder ctx) (ctx_password_hash ctx) False False
     (Some (ctx_mount_code ctx)) (Some (ctx_identity_secret ctx))"

record lan_args =
  la_folder :: path
  la_port :: "int option"
  la_host :: "str option"
  la_password :: "str option"
  la_read_only :: bool
  la_receive :: bool

text \<open>\<open>run_lan_server\<close> up to serving: host, port and configuration, or the exit with a message. An empty
  password leaves as the \<open>ValueError\<close> of \<open>hash_password\<close>, outside of the \<open>try\<close>.\<close>

definition run_lan_server ::
  "(bytes \<Rightarrow> bytes \<Rightarrow> bytes) \<Rightarrow> bytes \<Rightarrow> fs \<Rightarrow> lan_args \<Rightarrow> (start_exn, str \<times> int \<times> server_config) result" where
  "run_lan_server hashpw salt fs a =
     (if la_read_only a \<and> la_receive a then Inl ModesExclusive
      else if (case la_password a of None \<Rightarrow> False | Some p \<Rightarrow> length (utf8_encode p) > 72) then Inl PasswordOverCap
      else (case (case la_password a of None \<Rightarrow> Inr None | Some p \<Rightarrow> map_sum id Some (hash_password hashpw salt p)) of
          Inl e \<Rightarrow> Inl StartWeakPassword
        | Inr h \<Rightarrow>
            res_bind (ServerConfig_init fs (la_folder a) h (la_read_only a) (la_receive a) None None) (\<lambda>cfg.
              Inr (case la_host a of None \<Rightarrow> ''0.0.0.0'' | Some x \<Rightarrow> x, case la_port a of None \<Rightarrow> 8000 | Some p \<Rightarrow> p, cfg))))"

datatype command = MountCommand "str list" | LanCommand "str list"

text \<open>The choice of the subcommand by the first argument.\<close>

definition parse_command :: "str list \<Rightarrow> command" where
  "parse_command args_list = (case args_list of
     a # as \<Rightarrow> if a \<in> {''mount''} then MountCommand as else LanCommand (a # as)
   | [] \<Rightarrow> LanCommand [])"

section \<open>The application (main.py)\<close>

definition folder_path :: "server_config \<Rightarrow> path" where
  "folder_path cfg = filter (\<lambda>n. n \<noteq> []) (py_split sep (cfg_shared_folder cfg))"

definition data_dir :: "server_config \<Rightarrow> path" where
  "data_dir cfg = butlast (folder_path cfg) @ [''.wfs_data'']"

text \<open>The state of a new application over the databases on disk, and whether requests need a session.
  \<open>fresh\<close> is the generated key for share links.\<close>

definition create_app ::
  "str \<Rightarrow> fs \<Rightarrow> (path \<Rightarrow> server_state option) \<Rightarrow> server_config \<Rightarrow> app_state \<times> bool" where
  "create_app fresh fs disk cfg =
     (let store = (case disk (data_dir cfg) of None \<Rightarrow> open_state_store | Some s \<Rightarrow> s);
          store' = snd (get_or_create_share_secret fresh store)
      in (\<lparr>app_fs = fs, app_share = ShareLinkService_init store',
           app_hub = \<lparr>manager = ConnectionManager_init, sent = []\<rparr>, app_ttl = None\<rparr>,
          cfg_password_hash cfg \<noteq> None))"

text \<open>The catch-all route. \<open>client_dist / path\<close> is the path itself when it is absolute; it is followed by
  the system call as it stands, so a component that does not exist is not followed by another.\<close>

fun walkable :: "fs \<Rightarrow> path \<Rightarrow> path \<Rightarrow> bool" where
  "walkable fs cur [] = True"
| "walkable fs cur (n # ns) = (is_dir fs cur \<and> walkable fs (cur @ [n]) ns)"

datatype spa_reply = SpaFile bytes | SpaShell

definition spa_catch_all :: "path \<Rightarrow> str \<Rightarrow> fs \<Rightarrow> spa_reply" where
  "spa_catch_all client_dist p fs =
     (let static_file = (if py_startswith p [sep] then py_split sep p else client_dist @ py_split sep p) in
      if nul \<in> set p then SpaShell
      else (case (if walkable fs [] (filter (\<lambda>n. n \<noteq> [] \<and> n \<noteq> ''.'') static_file) then stat fs static_file else None) of
          Some (FileNode b) \<Rightarrow> SpaFile b | _ \<Rightarrow> SpaShell))"


section \<open>Lemmas\<close>

definition named_path :: "path \<Rightarrow> bool" where
  "named_path p \<longleftrightarrow> (\<forall>n \<in> set p. n \<noteq> [] \<and> sep \<notin> set n)"

lemma split_path_text:
  assumes "named_path p"
  shows "py_split sep (concat (map (\<lambda>n. sep # n) p)) = [] # p"
  using assms
proof (induction p)
  case (Cons n p)
  then have "py_split sep (n @ concat (map (\<lambda>n. sep # n) p)) = n # p"
    by (cases p) (auto simp: named_path_def py_split_single py_split_append)
  then show ?case by simp
qed simp

lemma folder_of_text:
  assumes "named_path p"
  shows "filter (\<lambda>n. n \<noteq> []) (py_split sep (path_text p)) = p"
proof (cases p)
  case (Cons n ns)
  then have "path_text p = concat (map (\<lambda>n. sep # n) p)" by (simp add: path_text_def)
  moreover have "filter (\<lambda>n. n \<noteq> []) p = p" using assms by (auto simp: named_path_def intro: filter_True)
  ultimately show ?thesis using split_path_text [OF assms] by simp
qed (simp add: path_text_def)

text \<open>The folder that a server serves is the directory that was named, with links resolved.\<close>

lemma config_folder:
  assumes "ServerConfig_init fs folder h ro rc code secret = Inr cfg" and "realpath fs [] [] folder = Some q" and "named_path q"
  shows "folder_path cfg = q" and "lstat fs q = Some DirNode"
  using assms folder_of_text [OF assms(3)]
  by (auto simp: ServerConfig_init_def folder_path_def is_dir_def stat_def split: if_splits)

text \<open>A new application satisfies the invariant of the server's state.\<close>

lemma create_app_ok:
  assumes "\<And>s. disk (data_dir cfg) = Some s \<Longrightarrow> server_ok s \<and> distinct (map link_token (share_links s))"
  shows "app_ok (fst (create_app fresh fs disk cfg))"
proof -
  define s where "s = (case disk (data_dir cfg) of None \<Rightarrow> open_state_store | Some s \<Rightarrow> s)"
  have s: "server_ok s" "distinct (map link_token (share_links s))"
    using assms open_state_store_ok by (auto simp: s_def open_state_store_def split: option.split)
  have l: "share_links (snd (get_or_create_share_secret fresh s)) = share_links s"
    by (simp add: get_or_create_share_secret_def set_meta_def split: option.split)
  have "svc_ok (ShareLinkService_init (snd (get_or_create_share_secret fresh s)))"
    by (rule init_svc_ok) (simp add: l s(2))
  moreover have "server_ok (snd (get_or_create_share_secret fresh s))" by (rule share_secret_ok [OF s(1)])
  ultimately show ?thesis
    by (simp add: create_app_def app_ok_def app_store_def s_def [symmetric] Let_def ShareLinkService_init_def
        manager_ok_def ConnectionManager_init_def)
qed

section \<open>Results\<close>

text \<open>A server on the local network believes no identity headers, and is never read-only and receiving at
  once.\<close>

lemma lan_server_trusts_nobody:
  assumes "run_lan_server hashpw salt fs a = Inr (host, port, cfg)"
  shows "trusted_role mac cfg get = Inr None" and "is_auth_bypassed mac cfg get = Inr False"
    and "\<not> (cfg_read_only cfg \<and> cfg_receive cfg)" and "cfg_password_hash cfg = None \<longleftrightarrow> la_password a = None"
proof -
  have h: "map_sum id Some r = Inr x \<Longrightarrow> \<exists>y. x = Some y" for r :: "(account_exn, bytes) result" and x by (cases r) auto
  have c: "cfg_identity_secret cfg = None" "cfg_mount_code cfg = None" "\<not> (cfg_read_only cfg \<and> cfg_receive cfg)"
    "cfg_password_hash cfg = None \<longleftrightarrow> la_password a = None"
    using assms by (auto simp: run_lan_server_def ServerConfig_init_def res_bind_eq_Inr split: if_splits option.splits sum.splits dest: h)
  then show "trusted_role mac cfg get = Inr None" "is_auth_bypassed mac cfg get = Inr False"
    by (simp_all add: trusted_role_def is_auth_bypassed_def verified_identity_def is_relay_served_def)
  show "\<not> (cfg_read_only cfg \<and> cfg_receive cfg)" "cfg_password_hash cfg = None \<longleftrightarrow> la_password a = None" using c by simp_all
qed

text \<open>The catch-all route serves every file of the machine: an absolute path replaces the directory of the
  bundle. The password gate does not look at paths outside of \<open>/api/\<close>.\<close>

lemma catch_all_serves_any_file:
  assumes "named_path q" and "q \<noteq> []" and "nul \<notin> set (path_text q)" and "walkable fs [] (filter (\<lambda>n. n \<noteq> ''.'') q)"
    and "stat fs q = Some (FileNode b)"
  shows "spa_catch_all client_dist (path_text q) fs = SpaFile b \<and>
    auth_gate mac loads cfg ''http'' (sep # path_text q) get cookie = Inr True"
proof -
  have t: "path_text q = concat (map (\<lambda>n. sep # n) q)" using assms(2) by (simp add: path_text_def)
  have sp: "py_split sep (path_text q) = [] # q" using split_path_text [OF assms(1)] by (simp add: t)
  have st: "py_startswith (path_text q) [sep]" using assms(2) unfolding t by (cases q) (simp_all add: py_startswith_def)
  have "filter (\<lambda>n. n \<noteq> [] \<and> n \<noteq> ''.'') ([] # q) = filter (\<lambda>n. n \<noteq> ''.'') q"
    using assms(1) by (auto simp: named_path_def intro: filter_cong)
  moreover have "stat fs ([] # q) = stat fs q" by (simp add: stat_def)
  ultimately have "spa_catch_all client_dist (path_text q) fs = SpaFile b"
    using assms(3-5) st sp by (simp add: spa_catch_all_def Let_def)
  moreover have "\<not> py_startswith (sep # path_text q) ''/api/''" using st by (auto simp: py_startswith_def prefix_def sep_def)
  ultimately show ?thesis by (simp add: auth_gate_def)
qed

text \<open>Folders next to each other share one database: the share links, upload owners, snippets and requests
  of one server are those of the other.\<close>

lemma sibling_folders_share_state:
  assumes "folder_path cfg = d @ [a]" and "folder_path cfg' = d @ [b]"
  shows "app_share (fst (create_app fresh fs disk cfg)) = app_share (fst (create_app fresh fs disk cfg'))"
  using assms by (simp add: create_app_def data_dir_def Let_def)


section \<open>From the command line to the server's guards\<close>

lemma matched_role_entry:
  assumes "matched_role p i (Some db) = Some (Inr (Some r))"
  obtains entry gs where "entry \<in> set (policy_entries p)" "entry_role entry = r"
    "resolve_user_group_ids (ident_user_id i) db = Some (Inr gs)" "entry_matches i gs entry"
proof -
  obtain gs where gs: "resolve_user_group_ids (ident_user_id i) db = Some (Inr gs)"
    using assms by (auto simp: matched_role_def split: option.splits sum.splits account_exn.splits)
  obtain a as where l: "map entry_role (filter (entry_matches i gs) (policy_entries p)) = a # as" "r = highest_role a as"
    using assms gs by (auto simp: matched_role_def split: list.splits)
  have "r \<in> set (map entry_role (filter (entry_matches i gs) (policy_entries p)))"
    using highest_role_max [of a as] l by simp
  then show thesis using that gs by auto
qed

text \<open>\<open>names_user\<close> says that an \<open>--allow\<close> argument is about a user: its name was the user's when the agent
  connected, or it was that of a group the user belongs to at the time of the request.\<close>

definition names_user :: "accounts_db \<Rightarrow> accounts_db \<Rightarrow> AgentAllowEntry \<Rightarrow> SessionIdentity \<Rightarrow> bool" where
  "names_user db db' e i \<longleftrightarrow> (case allow_type e of
     USER \<Rightarrow> \<exists>u. get_user_by_username (allow_ref e) db = Inr u \<and> uid u = ident_user_id i
   | GROUP \<Rightarrow> \<exists>g gs. get_group_by_name (allow_ref e) db = Inr g \<and>
       resolve_user_group_ids (ident_user_id i) db' = Some (Inr gs) \<and> gid g \<in> gs)"

lemma resolved_names:
  assumes "resolve_entry db e = Inr entry" and "resolve_user_group_ids (ident_user_id i) db' = Some (Inr gs)"
    and "entry_matches i gs entry"
  shows "names_user db db' e i" and "allow_role e = entry_role entry"
  using assms
  by (cases "allow_type e"; force simp: resolve_entry_def entry_matches_def names_user_def map_ok_def split: sum.splits if_splits)+

text \<open>A request is let through for a user whom an entry of the allowlist matches, or without an identity;
  a restricted mount lets nobody through without an identity unless it has a password.\<close>

lemma listed_decision:
  assumes "get_policy code reg = Inr p" and "authorize reg (Some db) code ident = Some (Inr d)"
  obtains (listed) i r where "ident = Some i" "identified d" "decision_username d = Some (ident_username i)" "decision_role d = Some r"
    "matched_role p i (Some db) = Some (Inr (Some r))"
  | (unlisted) "\<not> identified d" "policy_mode p = RESTRICTED \<longrightarrow> policy_has_password p"
  using assms by (auto simp: authorize_def fallback_decision_def passthrough_def split: option.splits sum.splits if_splits)

subsection \<open>A mount between two connections of its agent\<close>

text \<open>The calls of the registry by which a code gets a new agent, policy or secret, and the entries that
  approved access requests add.\<close>

fun renews :: "str \<Rightarrow> registry_op \<Rightarrow> bool" where
  "renews c (Register d k ip t e) = (d = c)"
| "renews c (TryReclaim d k ip now) = (d = c)"
| "renews c (TryReclaimAsOwner d k ow now) = (d = c)"
| "renews c (SetOwnerPolicy d ow md pw es) = (d = c)"
| "renews c (SetIdentitySecret d sec) = (d = c)"
| "renews c _ = False"

definition approved :: "str \<Rightarrow> registry_op list \<Rightarrow> PolicyEntry set" where
  "approved c ops = {\<lparr>subject_type = st, subject_id = sid, entry_role = rl\<rparr> |st sid rl. AddPolicyEntry c st sid rl \<in> set ops}"

definition policy_kept :: "str \<Rightarrow> str \<Rightarrow> MountPolicy \<Rightarrow> PolicyEntry set \<Rightarrow> registry \<Rightarrow> bool" where
  "policy_kept c s p added reg \<longleftrightarrow> (map_of (connections reg) c \<noteq> None \<longrightarrow> get_identity_secret c reg = Some s \<and>
     (\<exists>q. get_policy c reg = Inr q \<and> policy_mode q = policy_mode p \<and> policy_has_password q = policy_has_password p \<and>
       set (policy_entries q) \<subseteq> set (policy_entries p) \<union> added))"

lemma put_entry_rows: "set (put_entry d e rows) \<subseteq> insert \<lparr>pcode = d, pentry = e\<rparr> (set rows)"
  by (auto simp: put_entry_def table_simps)

lemma put_entries_rows:
  "set (fold (put_entry d) es rows) \<subseteq> set rows \<union> (\<lambda>e. \<lparr>pcode = d, pentry = e\<rparr>) ` set es"
proof (induction es arbitrary: rows)
  case (Cons e es)
  then show ?case using Cons.IH [of "put_entry d e rows"] put_entry_rows [of d e rows] by auto
qed simp

lemma policy_kept_weaken: "policy_kept c s p A reg \<Longrightarrow> A \<subseteq> B \<Longrightarrow> policy_kept c s p B reg"
  unfolding policy_kept_def by blast

lemma policy_keptI:
  assumes "policy_kept c s p A reg"
    and "map_of (connections reg') c \<noteq> None \<Longrightarrow> map_of (connections reg) c \<noteq> None \<and> get_identity_secret c reg' = get_identity_secret c reg \<and>
      (\<forall>m. find_mount c reg = Some m \<longrightarrow> (\<exists>m'. find_mount c reg' = Some m' \<and> access_mode m' = access_mode m \<and> has_password m' = has_password m)) \<and>
      (\<forall>r \<in> set (mount_policy reg'). pcode r = c \<longrightarrow> r \<in> set (mount_policy reg) \<or> pentry r \<in> B)"
  shows "policy_kept c s p (A \<union> B) reg'"
proof (cases "map_of (connections reg') c")
  case (Some k)
  note f = assms(2) [OF not_None_eq [THEN iffD2, OF exI, OF Some]]
  obtain q where q: "get_policy c reg = Inr q" "policy_mode q = policy_mode p" "policy_has_password q = policy_has_password p"
    "set (policy_entries q) \<subseteq> set (policy_entries p) \<union> A" "get_identity_secret c reg = Some s"
    using assms(1) f unfolding policy_kept_def by blast
  then obtain m m' where "find_mount c reg = Some m" "find_mount c reg' = Some m'" "access_mode m' = access_mode m" "has_password m' = has_password m"
    using f by (auto simp: get_policy_def split: option.splits)
  moreover have "set (map pentry (filter (\<lambda>r. pcode r = c) (mount_policy reg'))) \<subseteq> set (policy_entries q) \<union> B"
    using f q(1) calculation(1) by (fastforce simp: get_policy_def)
  ultimately show ?thesis using q f unfolding policy_kept_def by (auto simp: get_policy_def)
qed (simp add: policy_kept_def)

lemma policy_kept_step:
  assumes "registry_ok reg" and "policy_kept c s p A reg" and "\<not> renews c op"
  shows "policy_kept c s p (A \<union> approved c [op]) (registry_step op reg)"
proof (cases "registry_result op reg")
  case (Inl e)
  then show ?thesis using assms(2) by (auto simp: registry_step_def or_keep_def intro: policy_kept_weaken)
next
  case (Inr reg')
  have live: "\<exists>m. find_mount c reg = Some m \<and> status m = ONLINE" if "map_of (connections reg) c \<noteq> None"
    using assms(1) that by (auto simp: registry_ok_def live_ok_def)
  have "map_of (connections reg') c \<noteq> None \<Longrightarrow> map_of (connections reg) c \<noteq> None \<and> get_identity_secret c reg' = get_identity_secret c reg \<and>
      (\<forall>m. find_mount c reg = Some m \<longrightarrow> (\<exists>m'. find_mount c reg' = Some m' \<and> access_mode m' = access_mode m \<and> has_password m' = has_password m)) \<and>
      (\<forall>r \<in> set (mount_policy reg'). pcode r = c \<longrightarrow> r \<in> set (mount_policy reg) \<or> pentry r \<in> approved c [op])"
    using Inr assms(3)
  proof (cases op)
    case (DeleteExpiredBefore x)
    then show ?thesis if "map_of (connections reg') c \<noteq> None"
    proof -
      have c: "map_of (connections reg) c \<noteq> None" using that Inr DeleteExpiredBefore by (auto simp: delete_expired_before_def)
      obtain m where m: "find_mount c reg = Some m" "status m = ONLINE" using live [OF c] by blast
      have "find_mount c reg' = Some m"
        using m Inr DeleteExpiredBefore assms(1) find_mount_code [OF m(1)] fetchone_key_iff [of mcode "delete_where (expired_before x) (mounts reg)" c m]
        by (auto simp: find_mount_def delete_expired_before_def registry_ok_def table_simps expired_before_def distinct_delete_where)
      then show ?thesis using c m Inr DeleteExpiredBefore by (auto simp: delete_expired_before_def get_identity_secret_def)
    qed
  next
    case (MarkOffline d)
    then show ?thesis if "map_of (connections reg') c \<noteq> None"
      using that Inr live
      by (cases "d = c") (auto simp: mark_offline_def Let_def get_identity_secret_def reg_simps find_mount_update forget_live_def map_of_delete
          split: if_splits option.splits)
  next
    case (AddPolicyEntry d st i rl)
    then show ?thesis if "map_of (connections reg') c \<noteq> None"
      using that Inr put_entry_rows [of d "\<lparr>subject_type = st, subject_id = i, entry_role = rl\<rparr>" "mount_policy reg"]
      by (auto simp: add_policy_entry_def reg_simps get_identity_secret_def approved_def split: if_splits)
  next
    case (SetOwnerPolicy d ow md pw es)
    then show ?thesis if "map_of (connections reg') c \<noteq> None"
      using that Inr assms(3) put_entries_rows [of d es "delete_where (\<lambda>r. pcode r = d) (mount_policy reg)"]
      by (auto simp: set_owner_policy_def reg_simps find_mount_update get_identity_secret_def table_simps split: if_splits)
  qed (auto simp: set_identity_secret_def register_def deregister_def mark_offline_def expire_def mark_ttl_warned_def try_reclaim_def
      try_reclaim_as_owner_def take_over_def create_access_request_def resolve_access_request_def Let_def get_identity_secret_def reg_simps
      find_mount_update find_mount_insert find_mount_delete forget_live_def map_of_delete map_of_update split: if_splits option.splits)
  from policy_keptI [OF assms(2) this] show ?thesis using Inr by (simp add: registry_step_def or_keep_def)
qed

lemma policy_kept_run:
  assumes "registry_ok reg" and "policy_kept c s p A reg" and "\<forall>op \<in> set ops. \<not> renews c op"
  shows "policy_kept c s p (A \<union> approved c ops) (fold registry_step ops reg)"
  using assms
proof (induction ops arbitrary: A reg)
  case Nil
  then show ?case by (auto intro: policy_kept_weaken)
next
  case (Cons op ops)
  have "approved c [op] \<union> approved c ops \<subseteq> approved c (op # ops)" by (auto simp: approved_def)
  then show ?case
    using Cons.IH [OF registry.step_inv [OF Cons.prems(1)] policy_kept_step [OF Cons.prems(1,2), of op]] Cons.prems(3)
    by (auto elim!: policy_kept_weaken)
qed

end
