(* ===== verification/Server_Info.thy ===== *)
theory Server_Info
  imports Server_Startup
begin

text \<open>
  The addresses that are shown to users: the route \<open>/api/server-info\<close> (\<open>server/app/routers/server_info.py\<close>),
  the addresses that the agent prints (\<open>agent/display.py\<close>), and the detection of the machine's addresses
  (\<open>shared/network.py\<close>), over the parsing of addresses by \<open>urllib.parse\<close>.

  What the operating system says about the network is an argument, and so is the check of an address in
  brackets (\<open>bracketed_ok\<close>), which the library does with its \<open>ipaddress\<close> module. Names in Latin-1 pass the
  library's check of normalised host names.
\<close>

section \<open>Addresses (urllib.parse)\<close>

definition py_rpartition_last :: "char \<Rightarrow> str \<Rightarrow> str" where
  "py_rpartition_last c s = rev (takeWhile (\<lambda>x. x \<noteq> c) (rev s))"

record url_parts =
  up_scheme :: str
  up_netloc :: str
  up_path :: str
  up_params :: str
  up_query :: str
  up_fragment :: str

datatype url_exn = InvalidIPv6 | InvalidBracketedHost | InvalidPort

definition ascii_alpha :: "char \<Rightarrow> bool" where
  "ascii_alpha c = (let n = of_char c :: nat in (65 \<le> n \<and> n \<le> 90) \<or> (97 \<le> n \<and> n \<le> 122))"

definition scheme_char :: "char \<Rightarrow> bool" where
  "scheme_char c = (ascii_alpha c \<or> is_digit c \<or> c \<in> set ''+-.'')"

text \<open>Leading control characters and blanks, and tabs and line ends anywhere, are dropped.\<close>

definition clean_url :: "str \<Rightarrow> str" where
  "clean_url url = filter (\<lambda>c. of_char c \<notin> {9 :: nat, 10, 13}) (dropWhile (\<lambda>c. of_char c \<le> (32 :: nat)) url)"

definition split_scheme :: "str \<Rightarrow> str \<times> str" where
  "split_scheme url = (case py_partition CHR '':'' url of (front, found, rest) \<Rightarrow>
     if found \<and> front \<noteq> [] \<and> ascii_alpha (hd front) \<and> list_all scheme_char front then (py_lower front, rest) else ([], url))"

definition netloc_char :: "char \<Rightarrow> bool" where
  "netloc_char c = (c \<notin> set ''/?#'')"

definition uses_params :: "str list" where
  "uses_params = [[], ''ftp'', ''hdl'', ''prospero'', ''http'', ''imap'', ''https'', ''shttp'', ''rtsp'', ''rtsps'', ''rtspu'',
     ''sip'', ''sips'', ''mms'', ''sftp'', ''tel'']"

definition uses_netloc :: "str list" where
  "uses_netloc = [[], ''ftp'', ''http'', ''gopher'', ''nntp'', ''telnet'', ''imap'', ''wais'', ''file'', ''mms'', ''https'', ''shttp'',
     ''snews'', ''prospero'', ''rtsp'', ''rtsps'', ''rtspu'', ''rsync'', ''svn'', ''svn+ssh'', ''sftp'', ''nfs'', ''git'', ''git+ssh'', ''ws'', ''wss'']"

text \<open>The parameters are those of the last segment of the path.\<close>

definition split_params :: "str \<Rightarrow> str \<times> str" where
  "split_params path =
     (let n = length (py_rpartition_last CHR ''/'' path); front = take (length path - n) path; segment = drop (length path - n) path in
      case py_partition CHR '';'' segment of (a, found, b) \<Rightarrow> (front @ a, b))"

definition urlparse :: "(str \<Rightarrow> bool) \<Rightarrow> str \<Rightarrow> (url_exn, url_parts) result" where
  "urlparse bracketed_ok url =
     (case split_scheme (clean_url url) of (scheme, rest) \<Rightarrow>
      let has_netloc = (take 2 rest = ''//'');
          netloc = (if has_netloc then takeWhile netloc_char (drop 2 rest) else []);
          rest1 = (if has_netloc then dropWhile netloc_char (drop 2 rest) else rest)
      in if (CHR ''['' \<in> set netloc) \<noteq> (CHR '']'' \<in> set netloc) then Inl InvalidIPv6
         else if CHR ''['' \<in> set netloc \<and> \<not> bracketed_ok (fst (py_partition CHR '']'' (snd (snd (py_partition CHR ''['' netloc)))))
           then Inl InvalidBracketedHost
         else case py_partition CHR ''#'' rest1 of (rest2, _, fragment) \<Rightarrow>
              case py_partition CHR ''?'' rest2 of (path, _, query) \<Rightarrow>
              case (if scheme \<in> set uses_params then split_params path else (path, [])) of (path1, params) \<Rightarrow>
              Inr \<lparr>up_scheme = scheme, up_netloc = netloc, up_path = path1, up_params = params, up_query = query, up_fragment = fragment\<rparr>)"

definition hostinfo :: "url_parts \<Rightarrow> str \<times> str option" where
  "hostinfo u =
     (let info = py_rpartition_last CHR ''@'' (up_netloc u) in
      case py_partition CHR ''['' info of (_, bracket, bracketed) \<Rightarrow>
      case (if bracket then (case py_partition CHR '']'' bracketed of (h, _, r) \<Rightarrow> (h, snd (snd (py_partition CHR '':'' r))))
            else (case py_partition CHR '':'' info of (h, _, r) \<Rightarrow> (h, r))) of
        (host, port) \<Rightarrow> (host, if port = [] then None else Some port))"

definition url_hostname :: "url_parts \<Rightarrow> str option" where
  "url_hostname u = (let host = fst (hostinfo u) in
     if host = [] then None
     else case py_partition CHR ''%'' host of (h, found, zone) \<Rightarrow> Some (py_lower h @ (if found then CHR ''%'' # zone else [])))"

definition url_port :: "url_parts \<Rightarrow> (url_exn, nat option) result" where
  "url_port u = (case snd (hostinfo u) of
     None \<Rightarrow> Inr None
   | Some p \<Rightarrow> if list_all is_digit p \<and> Json.digits_value p \<le> 65535 then Inr (Some (Json.digits_value p)) else Inl InvalidPort)"

definition urlunparse :: "url_parts \<Rightarrow> str" where
  "urlunparse u =
     (let url = (if up_params u \<noteq> [] then up_path u @ CHR '';'' # up_params u else up_path u);
          url1 = (if up_netloc u \<noteq> [] \<or> (up_scheme u \<noteq> [] \<and> up_scheme u \<in> set uses_netloc) \<or> take 2 url = ''//''
                  then ''//'' @ up_netloc u @ (if url \<noteq> [] \<and> hd url \<noteq> CHR ''/'' then CHR ''/'' # url else url) else url);
          url2 = (if up_scheme u \<noteq> [] then up_scheme u @ CHR '':'' # url1 else url1);
          url3 = (if up_query u \<noteq> [] then url2 @ CHR ''?'' # up_query u else url2)
      in if up_fragment u \<noteq> [] then url3 @ CHR ''#'' # up_fragment u else url3)"

section \<open>The network (shared/network.py)\<close>

datatype network_exn = NoNetwork

text \<open>\<open>local_address\<close> is the address of a socket towards a public address, \<open>None\<close> for an \<open>OSError\<close>; an adapter
  has IPv4 addresses, which are texts, and IPv6 addresses, which are not.\<close>

datatype adapter_ip = IPv4 str | IPv6

definition detect_primary_lan_ip :: "str option \<Rightarrow> (network_exn, str) result" where
  "detect_primary_lan_ip local_address = (case local_address of None \<Rightarrow> Inl NoNetwork | Some ip \<Rightarrow> Inr ip)"

fun lan_ips :: "adapter_ip list \<Rightarrow> str list" where
  "lan_ips [] = []"
| "lan_ips (IPv4 ip # rest) = (if py_startswith ip ''127.'' then lan_ips rest else ip # lan_ips rest)"
| "lan_ips (IPv6 # rest) = lan_ips rest"

definition detect_all_lan_ips :: "adapter_ip list list \<Rightarrow> (network_exn, str list) result" where
  "detect_all_lan_ips adapters = (let ips = concat (map lan_ips adapters) in if ips = [] then Inl NoNetwork else Inr ips)"

section \<open>The agent's display (agent/display.py)\<close>

definition display_local_hosts :: "str list" where
  "display_local_hosts = [''localhost'', ''127.0.0.1'', ''::1'', ''0.0.0.0'']"

definition with_host :: "url_parts \<Rightarrow> str \<Rightarrow> nat option \<Rightarrow> str" where
  "with_host u ip port = urlunparse (u\<lparr>up_netloc := (case port of
     Some p \<Rightarrow> if p \<noteq> 0 then ip @ CHR '':'' # nat_digits p else ip | None \<Rightarrow> ip)\<rparr>)"

definition resolve_lan_url :: "(str \<Rightarrow> bool) \<Rightarrow> str option \<Rightarrow> str \<Rightarrow> (url_exn, str) result" where
  "resolve_lan_url bracketed_ok local_address url = res_bind (urlparse bracketed_ok url) (\<lambda>parsed.
     case url_hostname parsed of
       None \<Rightarrow> Inr url
     | Some h \<Rightarrow> if h \<notin> set display_local_hosts then Inr url
         else (case detect_primary_lan_ip local_address of
             Inl e \<Rightarrow> Inr url
           | Inr ip \<Rightarrow> res_bind (url_port parsed) (\<lambda>port. Inr (with_host parsed ip port))))"

definition display_mount_url :: "str \<Rightarrow> str \<Rightarrow> str" where
  "display_mount_url relay_url code = py_rstrip_char CHR ''/'' relay_url @ ''/m/'' @ code"

text \<open>The address of the QR code and of the line \<open>Mount URL\<close>, and the line \<open>Local URL\<close> where it differs.\<close>

definition print_mounted :: "(str \<Rightarrow> bool) \<Rightarrow> str option \<Rightarrow> str \<Rightarrow> str \<Rightarrow> (url_exn, str \<times> str option) result" where
  "print_mounted bracketed_ok local_address relay_url code =
     (let mount_url = display_mount_url relay_url code in
      res_bind (resolve_lan_url bracketed_ok local_address relay_url) (\<lambda>lan.
        let lan_mount_url = display_mount_url lan code in
        Inr (lan_mount_url, if lan_mount_url \<noteq> mount_url then Some mount_url else None)))"

section \<open>The route (server_info.py)\<close>

definition server_local_hosts :: "str list" where
  "server_local_hosts = [''localhost'', ''127.0.0.1'', ''::1'']"

definition build_mount_url :: "(str \<Rightarrow> bool) \<Rightarrow> str \<Rightarrow> str \<Rightarrow> str \<Rightarrow> (url_exn, str) result" where
  "build_mount_url bracketed_ok relay_url mount_code lan_ip = res_bind (urlparse bracketed_ok relay_url) (\<lambda>parsed.
     res_bind (case url_hostname parsed of
         Some h \<Rightarrow> if h \<in> set server_local_hosts
           then res_bind (url_port parsed) (\<lambda>port. Inr (with_host parsed lan_ip port)) else Inr relay_url
       | None \<Rightarrow> Inr relay_url) (\<lambda>base. Inr (py_rstrip_char CHR ''/'' base @ ''/m/'' @ mount_code)))"

record ServerInfo =
  si_ip :: str
  si_port :: nat
  si_url :: str
  si_qr_text :: "str option"
  si_all_ips :: "str list"
  si_read_only :: bool
  si_receive :: bool
  si_password_required :: bool
  si_hostname :: str
  si_current_user :: "str option"
  si_current_role :: "str option"
  si_access_mode :: "str option"

datatype info_exn = InfoSignature sig_exn | InfoUrl url_exn

text \<open>The settings \<open>port\<close> and \<open>relay_url\<close> of the configuration are arguments, and the text of the QR code stands
  for its picture. \<open>shown_address\<close> is the part of the route after the detection of the network.\<close>

definition shown_address ::
  "(str \<Rightarrow> bool) \<Rightarrow> server_config \<Rightarrow> nat \<Rightarrow> str option \<Rightarrow> str \<Rightarrow> (url_exn, str \<times> nat) result" where
  "shown_address bracketed_ok cfg port relay_url ip = (case (cfg_mount_code cfg, relay_url) of
     (Some code, Some r) \<Rightarrow>
       res_bind (build_mount_url bracketed_ok r code ip) (\<lambda>url.
       res_bind (urlparse bracketed_ok r) (\<lambda>parsed.
       res_bind (url_port parsed) (\<lambda>p.
         let default = (case url_hostname parsed of Some h \<Rightarrow> if h \<in> set server_local_hosts then 80 else 443 | None \<Rightarrow> 443)
         in Inr (url, case p of Some x \<Rightarrow> if x \<noteq> 0 then x else default | None \<Rightarrow> default))))
   | _ \<Rightarrow> Inr (''http://'' @ ip @ CHR '':'' # nat_digits port, port))"

definition get_server_info ::
  "mac_fn \<Rightarrow> (str \<Rightarrow> bool) \<Rightarrow> str option \<Rightarrow> adapter_ip list list \<Rightarrow> str \<Rightarrow> server_config \<Rightarrow> nat \<Rightarrow> str option \<Rightarrow> lookup \<Rightarrow>
   (info_exn, ServerInfo) result" where
  "get_server_info mac bracketed_ok local_address adapters machine cfg port relay_url get =
     res_bind (map_sum InfoSignature id (trusted_role mac cfg get)) (\<lambda>role.
     res_bind (map_sum InfoSignature id (trusted_user mac cfg get)) (\<lambda>user.
     let mode = (if user \<noteq> None \<or> role \<noteq> None then get ''x-wfs-access-mode'' else None);
         info = \<lparr>si_ip = ''unknown'', si_port = port, si_url = ''unknown'', si_qr_text = None, si_all_ips = [],
           si_read_only = cfg_read_only cfg, si_receive = cfg_receive cfg, si_password_required = cfg_password_hash cfg \<noteq> None,
           si_hostname = machine, si_current_user = user, si_current_role = map_option role_value role, si_access_mode = mode\<rparr>
     in case (detect_primary_lan_ip local_address, detect_all_lan_ips adapters) of
          (Inr ip, Inr ips) \<Rightarrow>
            res_bind (map_sum InfoUrl id (shown_address bracketed_ok cfg port relay_url ip)) (\<lambda>(url, shown_port).
            Inr (info\<lparr>si_ip := ip, si_port := shown_port, si_url := url, si_qr_text := Some url, si_all_ips := ips\<rparr>))
        | _ \<Rightarrow> Inr info))"

section \<open>Lemmas\<close>

lemma partition_absent: "c \<notin> set s \<Longrightarrow> py_partition c s = (s, False, [])"
  by (induction s) (auto simp: py_partition_def)

lemma rpartition_absent: "c \<notin> set s \<Longrightarrow> py_rpartition_last c s = s"
proof -
  assume "c \<notin> set s"
  then have "takeWhile (\<lambda>x. x \<noteq> c) (rev s) = rev s" by (auto simp: takeWhile_eq_all_conv)
  then show ?thesis by (simp only: py_rpartition_last_def rev_rev_ident)
qed

text \<open>The addresses a relay is given by: a scheme, a host name or IPv4 address, perhaps a port, and a path.\<close>

definition host_char :: "char \<Rightarrow> bool" where
  "host_char c = (c \<notin> set ''/?#@:[]%'' \<and> (32 :: nat) < of_char c)"

definition path_char :: "char \<Rightarrow> bool" where
  "path_char c = (c \<notin> set ''?#;'' \<and> (32 :: nat) < of_char c)"

definition port_text :: "nat option \<Rightarrow> str" where
  "port_text port = (case port of None \<Rightarrow> [] | Some p \<Rightarrow> CHR '':'' # nat_digits p)"

definition plain_url :: "str \<Rightarrow> str \<Rightarrow> nat option \<Rightarrow> str \<Rightarrow> bool" where
  "plain_url scheme host port path \<longleftrightarrow> scheme \<in> {''http'', ''https''} \<and> host \<noteq> [] \<and> list_all host_char host \<and>
     (case port of None \<Rightarrow> True | Some p \<Rightarrow> 0 < p \<and> p \<le> 65535) \<and> list_all path_char path \<and> (path = [] \<or> hd path = CHR ''/'')"

definition url_text :: "str \<Rightarrow> str \<Rightarrow> nat option \<Rightarrow> str \<Rightarrow> str" where
  "url_text scheme host port path = scheme @ ''://'' @ host @ port_text port @ path"

lemma port_text_chars: "c \<in> set (port_text port) \<Longrightarrow> c = CHR '':'' \<or> is_digit c"
  by (auto simp: port_text_def dest: nat_digits_digit split: option.splits)

lemma netloc_chars:
  assumes "plain_url scheme host port path" and "c \<in> set (host @ port_text port)"
  shows "c \<notin> set ''/?#@[]%''" and "(32 :: nat) < of_char c" and "c = CHR '':'' \<longrightarrow> c \<notin> set host"
proof -
  have h: "host_char c" if "c \<in> set host" using assms(1) that by (auto simp: plain_url_def list_all_iff)
  have "(c = CHR '':'' \<or> is_digit c) \<or> host_char c" using assms(2) h port_text_chars by auto
  then show "c \<notin> set ''/?#@[]%''" "(32 :: nat) < of_char c" by (auto simp: host_char_def is_digit_def Let_def)
  show "c = CHR '':'' \<longrightarrow> c \<notin> set host" using h by (auto simp: host_char_def)
qed

lemma url_text_clean:
  assumes "plain_url scheme host port path"
  shows "clean_url (url_text scheme host port path) = url_text scheme host port path"
proof -
  have p: "scheme \<in> {''http'', ''https''}" "\<forall>c \<in> set path. path_char c" using assms by (auto simp: plain_url_def list_all_iff)
  have all: "(32 :: nat) < of_char c" if "c \<in> set (url_text scheme host port path)" for c
  proof -
    from that consider "c \<in> set scheme \<union> set ''://''" | "c \<in> set (host @ port_text port)" | "c \<in> set path"
      by (auto simp: url_text_def)
    then show ?thesis
    proof cases
      case 1
      then show ?thesis using p(1) by auto
    next
      case 2
      then show ?thesis by (rule netloc_chars(2) [OF assms])
    next
      case 3
      then show ?thesis using p(2) by (simp add: path_char_def)
    qed
  qed
  have "of_char c \<notin> {9 :: nat, 10, 13}" if "c \<in> set (url_text scheme host port path)" for c using all [OF that] by auto
  moreover have "dropWhile (\<lambda>c. of_char c \<le> (32 :: nat)) (url_text scheme host port path) = url_text scheme host port path"
    using assms by (auto simp: url_text_def plain_url_def)
  ultimately show ?thesis unfolding clean_url_def by (simp add: filter_True)
qed

lemma parse_url_text:
  assumes "plain_url scheme host port path"
  shows "urlparse bok (url_text scheme host port path) = Inr \<lparr>up_scheme = scheme, up_netloc = host @ port_text port,
    up_path = path, up_params = [], up_query = [], up_fragment = []\<rparr>"
proof -
  let ?n = "host @ port_text port"
  have pl: "scheme \<in> {''http'', ''https''}" "list_all path_char path" "path = [] \<or> hd path = CHR ''/''"
    using assms by (auto simp: plain_url_def)
  have sp: "split_scheme (url_text scheme host port path) = (scheme, ''//'' @ ?n @ path)"
  proof -
    have "CHR '':'' \<notin> set scheme" using pl(1) by auto
    from partition_append [OF this, of "''//'' @ ?n @ path"]
    show ?thesis using pl(1) by (auto simp: split_scheme_def url_text_def scheme_char_def ascii_alpha_def py_lower_def py_lower_char_def)
  qed
  have nl: "list_all netloc_char ?n" using netloc_chars(1) [OF assms] by (fastforce simp: list_all_iff netloc_char_def)
  have "path = [] \<or> \<not> netloc_char (hd path)" using pl(3) by (auto simp: netloc_char_def)
  then have tw: "takeWhile netloc_char (?n @ path) = ?n" "dropWhile netloc_char (?n @ path) = path"
    using nl by (cases path; force simp: list_all_iff takeWhile_append dropWhile_append)+
  have br: "CHR ''['' \<notin> set ?n" "CHR '']'' \<notin> set ?n" using netloc_chars(1) [OF assms] by auto
  have pc: "CHR ''#'' \<notin> set path" "CHR ''?'' \<notin> set path" "CHR '';'' \<notin> set path" using pl(2) by (auto simp: list_all_iff path_char_def)
  have "split_params path = (path, [])"
  proof -
    have "CHR '';'' \<notin> set (drop n path)" for n using pc(3) by (meson in_set_dropD)
    then show ?thesis by (simp add: split_params_def partition_absent Let_def)
  qed
  then show ?thesis using sp tw br pc pl(1)
    by (auto simp: urlparse_def url_text_clean [OF assms] partition_absent uses_params_def)
qed

lemma url_text_host:
  assumes "plain_url scheme host port path"
  shows "urlparse bok (url_text scheme host port path) = Inr u \<Longrightarrow> url_hostname u = Some (py_lower host)"
    and "urlparse bok (url_text scheme host port path) = Inr u \<Longrightarrow> url_port u = Inr port"
proof -
  have n: "CHR ''@'' \<notin> set (host @ port_text port)" "CHR ''['' \<notin> set (host @ port_text port)"
    using netloc_chars(1) [OF assms] by auto
  have h: "CHR '':'' \<notin> set host" "CHR ''%'' \<notin> set host" "host \<noteq> []"
    using assms by (auto simp: plain_url_def list_all_iff host_char_def)
  have info: "hostinfo v = (host, map_option nat_digits port)" if "up_netloc v = host @ port_text port" for v
  proof (cases port)
    case None
    then show ?thesis using n h that by (simp add: hostinfo_def rpartition_absent partition_absent port_text_def)
  next
    case (Some p)
    have "nat_digits p \<noteq> []" by simp
    then show ?thesis using n h that Some partition_append [OF h(1), of "nat_digits p"]
      by (simp add: hostinfo_def rpartition_absent partition_absent port_text_def)
  qed
  assume u: "urlparse bok (url_text scheme host port path) = Inr u"
  then have nl: "up_netloc u = host @ port_text port" using parse_url_text [OF assms] by auto
  show "url_hostname u = Some (py_lower host)" using info [OF nl] h by (simp add: url_hostname_def partition_absent)
  have "list_all is_digit (nat_digits p)" for p by (auto simp: list_all_iff dest: nat_digits_digit)
  then show "url_port u = Inr port" using info [OF nl] assms
    by (auto simp: url_port_def plain_url_def digits_value_nat split: option.splits)
qed

definition shown_host :: "str list \<Rightarrow> str \<Rightarrow> str \<Rightarrow> str" where
  "shown_host local ip host = (if py_lower host \<in> set local then ip else host)"

lemma with_host_text:
  assumes "plain_url scheme host port path" and "urlparse bok (url_text scheme host port path) = Inr u"
  shows "with_host u ip port = url_text scheme ip port path"
proof -
  have u: "u = \<lparr>up_scheme = scheme, up_netloc = host @ port_text port, up_path = path, up_params = [], up_query = [], up_fragment = []\<rparr>"
    using assms parse_url_text [OF assms(1)] by auto
  have "scheme \<in> {''http'', ''https''}" "path = [] \<or> hd path = CHR ''/''" "case port of None \<Rightarrow> True | Some p \<Rightarrow> 0 < p \<and> p \<le> 65535"
    using assms(1) by (auto simp: plain_url_def)
  then show ?thesis unfolding u
    by (auto simp: with_host_def urlunparse_def url_text_def port_text_def uses_netloc_def split: option.splits)
qed

text \<open>The route and the terminal of the agent show the same address, with a local host name replaced by the
  machine's address, unless the relay is given as \<open>0.0.0.0\<close>, which only the terminal replaces.\<close>

lemma mount_url_shown:
  assumes "plain_url scheme host port path"
  shows "build_mount_url bok (url_text scheme host port path) code ip =
      Inr (py_rstrip_char CHR ''/'' (url_text scheme (shown_host server_local_hosts ip host) port path) @ ''/m/'' @ code)"
    and "resolve_lan_url bok (Some ip) (url_text scheme host port path) =
      Inr (url_text scheme (shown_host display_local_hosts ip host) port path)"
    and "resolve_lan_url bok None (url_text scheme host port path) = Inr (url_text scheme host port path)"
proof -
  obtain u where u: "urlparse bok (url_text scheme host port path) = Inr u" using parse_url_text [OF assms] by blast
  note facts = u url_text_host(1) [OF assms u] url_text_host(2) [OF assms u] with_host_text [OF assms u]
  show "build_mount_url bok (url_text scheme host port path) code ip =
      Inr (py_rstrip_char CHR ''/'' (url_text scheme (shown_host server_local_hosts ip host) port path) @ ''/m/'' @ code)"
    using facts by (simp add: build_mount_url_def shown_host_def res_bind_def)
  show "resolve_lan_url bok (Some ip) (url_text scheme host port path) =
      Inr (url_text scheme (shown_host display_local_hosts ip host) port path)"
    using facts by (simp add: resolve_lan_url_def shown_host_def detect_primary_lan_ip_def res_bind_def)
  show "resolve_lan_url bok None (url_text scheme host port path) = Inr (url_text scheme host port path)"
    using facts by (simp add: resolve_lan_url_def detect_primary_lan_ip_def res_bind_def)
qed

lemma lan_ips_usable: "ip \<in> set (lan_ips adapter) \<longleftrightarrow> IPv4 ip \<in> set adapter \<and> \<not> py_startswith ip ''127.''"
  by (induction adapter rule: lan_ips.induct) auto

text \<open>No loopback address is listed, and an empty list is an error.\<close>

lemma detected_addresses:
  "detect_all_lan_ips adapters = Inr ips \<Longrightarrow>
     ips \<noteq> [] \<and> set ips = {ip. (\<exists>adapter \<in> set adapters. IPv4 ip \<in> set adapter) \<and> \<not> py_startswith ip ''127.''}"
  by (auto simp: detect_all_lan_ips_def Let_def lan_ips_usable split: if_splits)

lemma map_sum_Inr: "map_sum f id r = Inr x \<longleftrightarrow> r = Inr x"
  by (cases r) auto

text \<open>The user and the role that the route reports are those that the guards of the other routes decide with,
  whatever the state of the network; a request whose identity is not verified is reported without either.\<close>

lemma info_reports_trusted:
  assumes "get_server_info mac bok addr adapters machine cfg port relay_url get = Inr info"
  shows "trusted_user mac cfg get = Inr (si_current_user info)"
    and "map_sum id (map_option role_value) (trusted_role mac cfg get) = Inr (si_current_role info)"
    and "si_password_required info \<longleftrightarrow> cfg_password_hash cfg \<noteq> None"
    and "si_access_mode info = (if si_current_user info = None \<and> si_current_role info = None then None
      else get ''x-wfs-access-mode'')"
proof -
  obtain role user where r: "trusted_role mac cfg get = Inr role" "trusted_user mac cfg get = Inr user"
    using assms by (auto simp: get_server_info_def res_bind_eq_Inr map_sum_Inr)
  have i: "si_current_user info = user \<and> si_current_role info = map_option role_value role \<and>
      (si_password_required info \<longleftrightarrow> cfg_password_hash cfg \<noteq> None) \<and>
      si_access_mode info = (if user \<noteq> None \<or> role \<noteq> None then get ''x-wfs-access-mode'' else None)"
    using assms r
    by (auto simp: get_server_info_def Let_def res_bind_eq_Inr map_sum_Inr simp del: not_None_eq split: sum.splits)
  show "trusted_user mac cfg get = Inr (si_current_user info)" using r i by simp
  show "map_sum id (map_option role_value) (trusted_role mac cfg get) = Inr (si_current_role info)" using r i by simp
  show "si_password_required info \<longleftrightarrow> cfg_password_hash cfg \<noteq> None" using i by blast
  show "si_access_mode info = (if si_current_user info = None \<and> si_current_role info = None then None
      else get ''x-wfs-access-mode'')" using i by auto
qed

text \<open>The relay signs no access mode and forwards none, so that the field \<open>access_mode\<close> is empty on every request
  that comes through it: the header is dropped from the client's request and no code of the relay adds it.\<close>

lemma access_mode_never_forwarded:
  assumes "identity_headers mac reg code d (forward_headers host items) = Inr hdrs"
    and "get ''x-wfs-access-mode'' = look hdrs ''x-wfs-access-mode''"
    and "get_server_info mac bok addr adapters machine cfg port relay_url get = Inr info"
  shows "si_access_mode info = None"
proof -
  have w: "wfs_header ''x-wfs-access-mode''" "py_lower ''x-wfs-access-mode'' = ''x-wfs-access-mode''"
    by (simp_all add: wfs_header_def py_startswith_def py_lower_def py_lower_char_def)
  have "look hdrs ''x-wfs-access-mode'' = None"
  proof (cases "identified d")
    case False
    then have "hdrs = forward_headers host items" using assms(1) by (simp add: identity_headers_def)
    then show ?thesis using w by (simp add: forward_look)
  next
    case True
    then obtain name r where
      i: "inject_identity mac (forward_headers host items) name (role_value r) (get_identity_secret code reg) = Inr hdrs"
      using assms(1) by (auto simp: identity_headers_def split: option.splits sum.splits)
    have n: "''x-wfs-access-mode'' \<noteq> IDENTITY_SIG_HEADER" by (simp add: IDENTITY_SIG_HEADER_def)
    then show ?thesis using forward_look [OF w, of host items] w i forward_no_wfs [of host items]
      by (auto simp: inject_identity_def Let_def res_bind_eq_Inr look_None wfs_header_def update_conv' split: option.splits)
  qed
  then show ?thesis using info_reports_trusted(4) [OF assms(3)] assms(2) by simp
qed

text \<open>The port that is shown for a relay whose address has none depends on its host and not on its scheme: 443 for
  a relay at \<open>http\<close> (which listens on 80), and 80 for one at \<open>https\<close> on the same machine.\<close>

lemma default_port_ignores_scheme:
  assumes "plain_url scheme host None path" and "cfg_mount_code cfg = Some code"
    and "shown_address bok cfg port (Some (url_text scheme host None path)) ip = Inr (url, shown)"
  shows "shown = (if py_lower host \<in> set server_local_hosts then 80 else 443)"
proof -
  obtain u where u: "urlparse bok (url_text scheme host None path) = Inr u" using parse_url_text [OF assms(1)] by blast
  note facts = u url_text_host(1) [OF assms(1) u] url_text_host(2) [OF assms(1) u]
  show ?thesis using assms(2,3) facts by (auto simp: shown_address_def Let_def res_bind_eq_Inr split: if_splits)
qed

end
