(* ===== verification/Relay_Startup.thy ===== *)
theory Relay_Startup
  imports Agent
begin

text \<open>
  The relay before its first request (\<open>relay/app/config.py\<close>, \<open>main.py\<close>, \<open>services/dropbox.py\<close>) and what
  surrounds every request (\<open>rate_limit.py\<close>, \<open>middleware/secure_cookies.py\<close>, \<open>error_handlers.py\<close>): the
  configuration from YAML and environment variables, the start of the application over the databases of
  the last run, the address a client is counted under, and the flag on cookies.

  A YAML document is a JSON value. The generated secret and the text of YAML lists and mappings
  (\<open>str_of\<close>) are arguments. Settings that the code keeps without looking at them stay JSON values.
\<close>

section \<open>Configuration (config.py)\<close>

datatype config_exn = ConfigValueError | ConfigTypeError

datatype RelayEnv = DEVELOPMENT | PRODUCTION

definition parse_env :: "json \<Rightarrow> (config_exn, RelayEnv) result" where
  "parse_env j = (if j = JStr ''development'' then Inr DEVELOPMENT
     else if j = JStr ''production'' then Inr PRODUCTION else Inl ConfigValueError)"

record RelayConfig =
  rc_env :: RelayEnv
  rc_allowed_origins :: json
  rc_public_url :: "str option"
  rc_mount_reg_rate :: json
  rc_proxy_request_rate :: json
  rc_max_ttl_seconds :: int
  rc_max_mounts_per_ip :: int
  rc_ttl_sweep_interval :: int
  rc_warning_before :: int
  rc_db_path :: str
  rc_data_dir :: json
  rc_dropbox_code :: json
  rc_session_secret :: json
  rc_admin_users :: "str list"
  rc_accounts_db_path :: json
  rc_default_quota :: int
  rc_signup_rate :: json
  rc_login_rate :: json
  rc_agent_token_rate :: json
  rc_oidc_issuer :: "str option"
  rc_oidc_client_id :: "str option"
  rc_oidc_client_secret :: "str option"
  rc_oidc_redirect_path :: str
  rc_oidc_scopes :: str
  rc_oidc_group_prefix :: "str option"

type_synonym environ = "str \<Rightarrow> str option"

text \<open>\<open>os.environ.get(name, default)\<close>, and its forms with \<open>int(...)\<close> and with \<open>.strip() or None\<close>. The text
  of a YAML value other than an integer or a string is no integer.\<close>

definition env_or :: "environ \<Rightarrow> str \<Rightarrow> json \<Rightarrow> json" where
  "env_or env name d = (case env name of None \<Rightarrow> d | Some s \<Rightarrow> JStr s)"

fun int_text :: "json \<Rightarrow> (config_exn, int) result" where
  "int_text (JInt i) = Inr i"
| "int_text (JStr s) = (case json_int (JStr s) of None \<Rightarrow> Inl ConfigValueError | Some i \<Rightarrow> Inr i)"
| "int_text _ = Inl ConfigValueError"

definition env_int :: "environ \<Rightarrow> str \<Rightarrow> (str \<times> json) list \<Rightarrow> str \<Rightarrow> int \<Rightarrow> (config_exn, int) result" where
  "env_int env name section k d = int_text (env_or env name (get_or section k (JInt d)))"

definition env_text :: "environ \<Rightarrow> str \<Rightarrow> str option" where
  "env_text env name = (case env name of None \<Rightarrow> None
   | Some s \<Rightarrow> if py_strip s = [] then None else Some (py_strip s))"

definition env_list :: "str \<Rightarrow> str list" where
  "env_list s = filter (\<lambda>x. x \<noteq> []) (map py_strip (py_split CHR '','' s))"

definition require_dict :: "json \<Rightarrow> (config_exn, (str \<times> json) list) result" where
  "require_dict j = (case j of JObj kvs \<Rightarrow> Inr kvs | _ \<Rightarrow> Inl ConfigTypeError)"

definition allowed_origins :: "environ \<Rightarrow> (str \<times> json) list \<Rightarrow> json" where
  "allowed_origins env raw = (case env ''RELAY_ALLOWED_ORIGINS'' of
     Some s \<Rightarrow> JList (map JStr (env_list s)) | None \<Rightarrow> get_or raw ''allowed_origins'' (JList []))"

text \<open>\<open>allowed_origins[0]\<close>, which has to be a text for the \<open>rstrip\<close> that follows.\<close>

fun first_origin :: "json \<Rightarrow> (config_exn, str) result" where
  "first_origin (JList (JStr s # xs)) = Inr s"
| "first_origin (JStr (c # cs)) = Inr [c]"
| "first_origin _ = Inl ConfigTypeError"

definition public_url :: "environ \<Rightarrow> (str \<times> json) list \<Rightarrow> json \<Rightarrow> (config_exn, str option) result" where
  "public_url env raw origins =
     (let dflt = get_or raw ''public_url'' JNull in
      case env_or env ''RELAY_PUBLIC_URL'' (if json_true dflt then dflt else JStr []) of
        JStr s \<Rightarrow>
          res_bind (if py_strip s = [] \<and> json_true origins then first_origin origins else Inr (py_strip s)) (\<lambda>u.
            let v = py_rstrip_char CHR ''/'' u in Inr (if v = [] then None else Some v))
      | _ \<Rightarrow> Inl ConfigTypeError)"

definition session_secret :: "str \<Rightarrow> environ \<Rightarrow> (str \<times> json) list \<Rightarrow> json" where
  "session_secret generated env raw =
     (let s = env_or env ''RELAY_SESSION_SECRET'' (get_or raw ''session_secret'' JNull)
      in if json_true s then s else JStr generated)"

text \<open>What a \<open>for\<close> loop makes of a value.\<close>

fun json_iter :: "json \<Rightarrow> (config_exn, json list) result" where
  "json_iter (JList xs) = Inr xs"
| "json_iter (JStr s) = Inr (map (\<lambda>c. JStr [c]) s)"
| "json_iter (JObj kvs) = Inr (map (JStr \<circ> fst) kvs)"
| "json_iter _ = Inl ConfigTypeError"

definition admin_users :: "(json \<Rightarrow> str) \<Rightarrow> environ \<Rightarrow> (str \<times> json) list \<Rightarrow> (config_exn, str list) result" where
  "admin_users str_of env raw = (case env ''RELAY_ADMIN_USERS'' of
     Some s \<Rightarrow> Inr (map py_lower (env_list s))
   | None \<Rightarrow> res_bind (json_iter (get_or raw ''admin_users'' (JList []))) (\<lambda>us.
       Inr (map py_lower (filter (\<lambda>x. x \<noteq> []) (map (\<lambda>u. py_strip (json_str str_of u)) us)))))"

text \<open>\<open>str(Path(db_path).parent / "accounts.db")\<close>: empty components and dots vanish, a path with exactly
  two slashes in front keeps both.\<close>

definition sibling_path :: "str \<Rightarrow> str \<Rightarrow> str" where
  "sibling_path p name =
     (let comps = filter (\<lambda>c. c \<noteq> [] \<and> c \<noteq> ''.'') (py_split CHR ''/'' p);
          front = (if py_startswith p ''//'' \<and> \<not> py_startswith p ''///'' then ''//''
                   else if py_startswith p ''/'' then ''/'' else [])
      in front @ join ''/'' (butlast comps @ [name]))"

definition accounts_db_path :: "environ \<Rightarrow> (str \<times> json) list \<Rightarrow> str \<Rightarrow> json" where
  "accounts_db_path env raw db_path =
     (let dflt = (if db_path = '':memory:'' then '':memory:'' else sibling_path db_path ''accounts.db'');
          given = get_or raw ''accounts_db_path'' JNull
      in env_or env ''RELAY_ACCOUNTS_DB_PATH'' (if json_true given then given else JStr dflt))"

definition load_config ::
  "(json \<Rightarrow> str) \<Rightarrow> str \<Rightarrow> environ \<Rightarrow> json \<Rightarrow> (config_exn, RelayConfig) result" where
  "load_config str_of generated env yaml =
     res_bind (require_dict yaml) (\<lambda>raw.
     res_bind (parse_env (env_or env ''RELAY_ENV'' (get_or raw ''env'' (JStr ''development'')))) (\<lambda>e.
     res_bind (public_url env raw (allowed_origins env raw)) (\<lambda>url.
     res_bind (require_dict (get_or raw ''rate_limits'' (JObj []))) (\<lambda>rate_limits.
     res_bind (require_dict (get_or raw ''ttl'' (JObj []))) (\<lambda>ttl.
     res_bind (env_int env ''RELAY_MAX_TTL_SECONDS'' ttl ''max_seconds'' 86400) (\<lambda>max_ttl.
     res_bind (env_int env ''RELAY_MAX_MOUNTS_PER_IP'' rate_limits ''max_mounts_per_ip'' 5) (\<lambda>max_mounts.
     res_bind (env_int env ''RELAY_TTL_SWEEP_INTERVAL'' ttl ''sweep_interval_seconds'' 45) (\<lambda>sweep.
     res_bind (env_int env ''RELAY_WARNING_BEFORE_SECONDS'' ttl ''warning_before_seconds'' 300) (\<lambda>warn.
     res_bind (admin_users str_of env raw) (\<lambda>admins.
     res_bind (case env_or env ''RELAY_DB_PATH'' (get_or raw ''db_path'' (JStr ''/tmp/mounts.db'')) of
         JStr p \<Rightarrow> Inr p | _ \<Rightarrow> Inl ConfigTypeError) (\<lambda>db_path.
     res_bind (env_int env ''RELAY_DEFAULT_USER_QUOTA_BYTES'' raw ''default_user_quota_bytes'' 1073741824) (\<lambda>quota.
       if e = PRODUCTION \<and> \<not> json_true (allowed_origins env raw) then Inl ConfigValueError
       else Inr \<lparr>
         rc_env = e,
         rc_allowed_origins = allowed_origins env raw,
         rc_public_url = url,
         rc_mount_reg_rate = env_or env ''RELAY_MOUNT_REG_RATE'' (get_or rate_limits ''mount_registration'' (JStr ''5/hour'')),
         rc_proxy_request_rate = env_or env ''RELAY_PROXY_REQUEST_RATE'' (get_or rate_limits ''proxy_requests'' (JStr ''300/minute'')),
         rc_max_ttl_seconds = max_ttl,
         rc_max_mounts_per_ip = max_mounts,
         rc_ttl_sweep_interval = sweep,
         rc_warning_before = warn,
         rc_db_path = db_path,
         rc_data_dir = env_or env ''RELAY_DATA_DIR'' (get_or raw ''data_dir'' (JStr ''/data/'')),
         rc_dropbox_code = env_or env ''RELAY_DROPBOX_CODE'' (get_or raw ''dropbox_code'' (JStr ''dropbox'')),
         rc_session_secret = session_secret generated env raw,
         rc_admin_users = admins,
         rc_accounts_db_path = accounts_db_path env raw db_path,
         rc_default_quota = quota,
         rc_signup_rate = env_or env ''RELAY_AUTH_SIGNUP_RATE'' (get_or rate_limits ''auth_signup'' (JStr ''5/hour'')),
         rc_login_rate = env_or env ''RELAY_AUTH_LOGIN_RATE'' (get_or rate_limits ''auth_login'' (JStr ''10/minute'')),
         rc_agent_token_rate = env_or env ''RELAY_AUTH_AGENT_TOKEN_RATE'' (get_or rate_limits ''auth_agent_token'' (JStr ''10/minute'')),
         rc_oidc_issuer = env_text env ''RELAY_OIDC_ISSUER'',
         rc_oidc_client_id = env_text env ''RELAY_OIDC_CLIENT_ID'',
         rc_oidc_client_secret = env_text env ''RELAY_OIDC_CLIENT_SECRET'',
         rc_oidc_redirect_path = (case env_text env ''RELAY_OIDC_REDIRECT_PATH'' of None \<Rightarrow> ''/auth/oidc/callback'' | Some s \<Rightarrow> s),
         rc_oidc_scopes = (case env_text env ''RELAY_OIDC_SCOPES'' of None \<Rightarrow> ''openid profile email'' | Some s \<Rightarrow> s),
         rc_oidc_group_prefix = env_text env ''RELAY_OIDC_GROUP_PREFIX''\<rparr>))))))))))))"

definition oidc_enabled :: "RelayConfig \<Rightarrow> bool" where
  "oidc_enabled cfg \<longleftrightarrow> rc_oidc_issuer cfg \<noteq> None \<and> rc_oidc_client_id cfg \<noteq> None \<and>
     rc_oidc_client_secret cfg \<noteq> None \<and> rc_public_url cfg \<noteq> None"

definition oidc_redirect_uri :: "RelayConfig \<Rightarrow> str option" where
  "oidc_redirect_uri cfg = (case rc_public_url cfg of
     None \<Rightarrow> None | Some u \<Rightarrow> Some (py_rstrip_char CHR ''/'' u @ rc_oidc_redirect_path cfg))"

section \<open>Requests (rate_limit.py, secure_cookies.py, error_handlers.py)\<close>

text \<open>\<open>get_client_ip\<close>: the first address of \<open>X-Forwarded-For\<close>, else that of the socket; \<open>None\<close> is the
  \<open>ValueError\<close>. The agent's endpoint takes its address the same way, or \<open>unknown\<close>.\<close>

definition get_client_ip :: "str option \<Rightarrow> str option \<Rightarrow> str option" where
  "get_client_ip forwarded client = (case forwarded of
     Some (c # cs) \<Rightarrow> Some (py_strip (hd (py_split CHR '','' (c # cs))))
   | _ \<Rightarrow> client)"

definition agent_client_ip :: "str option \<Rightarrow> str option \<Rightarrow> str" where
  "agent_client_ip forwarded client = (case get_client_ip forwarded client of None \<Rightarrow> ''unknown'' | Some ip \<Rightarrow> ip)"

definition TIME_UNIT_SECONDS :: "(str \<times> nat) list" where
  "TIME_UNIT_SECONDS = [(''second'', 1), (''minute'', 60), (''hour'', 3600), (''day'', 86400)]"

definition parse_retry_after :: "str \<Rightarrow> nat" where
  "parse_retry_after detail = (case List.find (\<lambda>(u, n). py_contains (py_lower detail) u) TIME_UNIT_SECONDS of
     Some (u, n) \<Rightarrow> n | None \<Rightarrow> 60)"

datatype limited_reply = LimitedPage nat | LimitedJson nat

definition rate_limit_exceeded_handler :: "str \<Rightarrow> str \<Rightarrow> limited_reply" where
  "rate_limit_exceeded_handler detail accept =
     (if py_contains accept ''text/html'' then LimitedPage (parse_retry_after detail)
      else LimitedJson (parse_retry_after detail))"

record auth_rates =
  rate_signup :: str
  rate_login :: str
  rate_agent_token :: str
  rate_proxy_request :: str

definition AUTH_RATE_DEFAULTS :: auth_rates where
  "AUTH_RATE_DEFAULTS = \<lparr>rate_signup = ''5/hour'', rate_login = ''10/minute'', rate_agent_token = ''10/minute'',
     rate_proxy_request = ''300/minute''\<rparr>"

fun rate_text :: "json \<Rightarrow> str option" where
  "rate_text (JStr s) = (if CHR ''/'' \<in> set s then Some s else None)"
| "rate_text _ = None"

text \<open>\<open>set_auth_rates\<close>: the new rates, or the \<open>ValueError\<close>, which leaves the old ones.\<close>

definition set_auth_rates :: "json \<Rightarrow> json \<Rightarrow> json \<Rightarrow> json \<Rightarrow> (config_exn, auth_rates) result" where
  "set_auth_rates signup_rate login_rate agent_token_rate proxy_request =
     (case (rate_text signup_rate, rate_text login_rate, rate_text agent_token_rate, rate_text proxy_request) of
        (Some a, Some b, Some c, Some d) \<Rightarrow>
          Inr \<lparr>rate_signup = a, rate_login = b, rate_agent_token = c, rate_proxy_request = d\<rparr>
      | _ \<Rightarrow> Inl ConfigValueError)"

definition is_forwarded_https :: "headers \<Rightarrow> bool" where
  "is_forwarded_https hs \<longleftrightarrow> (\<exists>(k, v) \<in> set hs. py_lower k = ''x-forwarded-proto'' \<and> py_lower v = ''https'')"

definition stamp_cookie :: "str \<times> str \<Rightarrow> str \<times> str" where
  "stamp_cookie h = (case h of (k, v) \<Rightarrow>
     if py_lower k = ''set-cookie'' \<and> \<not> py_contains (py_lower v) ''secure'' then (k, v @ ''; Secure'') else (k, v))"

text \<open>The middleware: the response's headers for a request's headers; WebSockets pass unchanged.\<close>

definition secure_cookies :: "bool \<Rightarrow> headers \<Rightarrow> headers \<Rightarrow> headers" where
  "secure_cookies is_http request response =
     (if is_http \<and> is_forwarded_https request then map stamp_cookie response else response)"

fun registry_status :: "registry_exn \<Rightarrow> nat" where
  "registry_status (MountNotFoundError c) = 404"
| "registry_status (MountOfflineError c) = 503"
| "registry_status (MountExpiredError c) = 410"
| "registry_status (AccessRequestNotFoundError i) = 404"
| "registry_status _ = 500"

fun access_status :: "access_exn \<Rightarrow> nat" where
  "access_status (AuthenticationRequiredError c) = 401"
| "access_status (AccessDeniedError c u) = 403"
| "access_status (AccountFailure e) = 500"

section \<open>Start-up (main.py, dropbox.py)\<close>

record relay_state =
  rs_registry :: registry
  rs_accounts :: accounts_db
  rs_file_ttl :: file_ttl_db
  rs_local_mounts :: "str list"
  rs_dropbox :: dropbox_fs

text \<open>The deletion of expired files of the drop box: \<open>os.remove\<close> of an entry that cannot be removed, such
  as a directory, raises and nothing catches it.\<close>

fun boot_cleanup :: "str list \<Rightarrow> dropbox_fs \<Rightarrow> bool \<times> dropbox_fs" where
  "boot_cleanup [] fs = (True, fs)"
| "boot_cleanup (fp # fps) fs =
     (let full_path = py_lstrip_char CHR ''/'' fp in
      if full_path \<notin> set (fs_files fs) then boot_cleanup fps fs
      else if full_path \<in> set (fs_locked fs) then (False, fs)
      else boot_cleanup fps (fs\<lparr>fs_files := filter (\<lambda>p. p \<noteq> full_path) (fs_files fs)\<rparr>))"

text \<open>The start over what the last run left on disk. The flag says whether the application starts; the
  databases keep what was done in either case.\<close>

definition lifespan_start ::
  "str set \<Rightarrow> str \<Rightarrow> timestamp \<Rightarrow> relay_state \<Rightarrow> bool \<times> relay_state" where
  "lifespan_start cols code now st =
     (let reg = create_registry cols now (rs_registry st) in
      case register code None ''127.0.0.1'' now None reg of
        Inl e \<Rightarrow> (False, st\<lparr>rs_registry := reg\<rparr>)
      | Inr reg' \<Rightarrow>
          (case delete_expired_for_mount code now (rs_file_ttl st) of (paths, ttl_db) \<Rightarrow>
           case boot_cleanup paths (rs_dropbox st) of (ok, fs) \<Rightarrow>
             (ok, st\<lparr>rs_registry := reg', rs_file_ttl := ttl_db, rs_local_mounts := [code], rs_dropbox := fs\<rparr>)))"


section \<open>Lemmas\<close>

subsection \<open>The registry after a restart\<close>

lemma migrate_frame:
  "map mcode (mounts (migrate cols reg)) = map mcode (mounts reg)" "mount_policy (migrate cols reg) = mount_policy reg"
  "access_requests (migrate cols reg) = access_requests reg" "requests_seq (migrate cols reg) = requests_seq reg"
  by (simp_all add: migrate_def Let_def comp_def)

lemma create_registry_ok:
  assumes "registry_ok reg"
  shows "registry_ok (create_registry cols now reg)"
proof -
  let ?r = "create_registry cols now reg"
  have d: "distinct (map mcode (mounts (migrate cols reg)))" and e: "[] \<notin> mcode ` set (mounts (migrate cols reg))"
    using assms migrate_frame(1) [of cols reg] by (simp_all add: registry_ok_def flip: set_map)
  have "map mcode (mounts ?r) = map mcode (delete_where (expired_before (now - RETENTION_SECONDS)) (mounts (migrate cols reg)))"
    by (simp add: create_registry_def startup_cleanup_def Let_def map_key_update_where)
  moreover have "mcode ` set (delete_where p ms) \<subseteq> mcode ` set ms" for p ms by (auto simp: table_simps)
  ultimately have "distinct (map mcode (mounts ?r))" "mcode ` set (mounts ?r) \<subseteq> mcode ` set (mounts (migrate cols reg))"
    using distinct_delete_where [OF d] by (simp_all flip: set_map)
  moreover have "connections ?r = []" "identity_secrets ?r = []" "mount_policy ?r = mount_policy reg"
    "access_requests ?r = access_requests reg" "requests_seq ?r = requests_seq reg"
    by (simp_all add: create_registry_def startup_cleanup_def Let_def migrate_frame)
  ultimately show ?thesis using assms e by (auto simp: registry_ok_def live_ok_def)
qed

lemma create_registry_keeps:
  assumes "registry_ok reg" and "find_mount c reg = Some m" and "status m \<noteq> EXPIRED"
    and "\<forall>t. expires_at m = Some t \<longrightarrow> now \<le> t" and "cols = {''owner_user_id'', ''access_mode'', ''has_password''}"
  shows "find_mount c (create_registry cols now reg) = Some (m\<lparr>status := OFFLINE\<rparr>)"
proof -
  have m: "m \<in> set (mounts reg)" "mcode m = c" using find_mount_code [OF assms(2)] by simp_all
  have "m\<lparr>status := OFFLINE\<rparr> \<in> set (mounts (create_registry cols now reg))"
    using startup_cleanup_spec [of cols now reg] m assms(3-5) by blast
  moreover have "distinct (map mcode (mounts (create_registry cols now reg)))"
    using create_registry_ok [OF assms(1)] by (simp add: registry_ok_def)
  ultimately show ?thesis using fetchone_unique m(2) by (fastforce simp: find_mount_def)
qed

lemma lifespan_started:
  assumes "lifespan_start cols code now st = (True, st')"
  obtains reg' where "register code None ''127.0.0.1'' now None (create_registry cols now (rs_registry st)) = Inr reg'"
    "rs_registry st' = reg'" "rs_file_ttl st' = snd (delete_expired_for_mount code now (rs_file_ttl st))"
    "boot_cleanup (fst (delete_expired_for_mount code now (rs_file_ttl st))) (rs_dropbox st) = (True, rs_dropbox st')"
    "rs_local_mounts st' = [code]" "rs_accounts st' = rs_accounts st"
  using assms by (auto simp: lifespan_start_def Let_def split: sum.splits prod.splits)

lemma restart_resumable:
  assumes "registry_ok (rs_registry st)" and "lifespan_start cols code now st = (True, st')"
    and "find_mount c (rs_registry st) = Some m" and "status m \<noteq> EXPIRED" and "\<forall>t. expires_at m = Some t \<longrightarrow> now \<le> t"
    and "cols = {''owner_user_id'', ''access_mode'', ''has_password''}" and "c \<noteq> code"
  shows "resumable (agent_ip m) (expires_at m) c (rs_registry st')"
proof -
  obtain reg' where r: "register code None ''127.0.0.1'' now None (create_registry cols now (rs_registry st)) = Inr reg'"
    "rs_registry st' = reg'" using lifespan_started [OF assms(2)] by metis
  have "find_mount c reg' = Some (m\<lparr>status := OFFLINE\<rparr>)"
    using r(1) assms(7) create_registry_keeps [OF assms(1,3-6)]
    by (auto simp: register_def Let_def find_mount_insert split: if_splits)
  then show ?thesis
    using register_ok [OF create_registry_ok [OF assms(1)] r(1)] r(2) by (simp add: resumable_def)
qed

text \<open>Starting adds at most one mount.\<close>

lemma lifespan_count:
  assumes "lifespan_start cols code now st = (True, st')"
  shows "count_mounts_by_ip ip (rs_registry st') \<le> Suc (length (mounts (rs_registry st)))"
proof -
  obtain reg' where r: "register code None ''127.0.0.1'' now None (create_registry cols now (rs_registry st)) = Inr reg'"
    "rs_registry st' = reg'" using lifespan_started [OF assms] by metis
  have del: "length (delete_where p xs) \<le> length xs" for p and xs :: "mount_row list" by (simp add: delete_where_def)
  have "length (mounts (create_registry cols now (rs_registry st))) \<le> length (mounts (rs_registry st))"
    using del [of _ "mounts (migrate cols (rs_registry st))"] migrate_frame(1) [of cols "rs_registry st"]
    by (simp add: create_registry_def startup_cleanup_def Let_def) (metis length_map)
  moreover have "length (mounts reg') \<le> Suc (length (mounts (create_registry cols now (rs_registry st))))"
    using r(1) del by (auto simp: register_def Let_def insert_or_replace_def split: if_splits)
  moreover have "count_mounts_by_ip ip reg' \<le> length (mounts reg')" by (simp add: count_mounts_by_ip_def rowcount_def)
  ultimately show ?thesis using r(2) by simp
qed

subsection \<open>Files\<close>

lemma boot_cleanup_files:
  assumes "boot_cleanup fps fs = (True, fs')"
  shows "set (fs_files fs') = set (fs_files fs) - py_lstrip_char CHR ''/'' ` set fps" and "fs_locked fs' = fs_locked fs"
  using assms by (induction fps arbitrary: fs) (auto simp: Let_def split: if_splits)

lemma delete_expired_rows:
  "set (ttl_rows (snd (delete_expired_for_mount code now db))) =
     {r \<in> set (ttl_rows db). \<not> (ttl_mount r = code \<and> ttl_expires_at r \<le> now)}"
  "set (fst (delete_expired_for_mount code now db)) =
     ttl_path ` {r \<in> set (ttl_rows db). ttl_mount r = code \<and> ttl_expires_at r \<le> now}"
  by (auto simp: delete_expired_for_mount_def Let_def table_simps filter_empty_conv)

subsection \<open>Headers\<close>

lemma contains_secure: "py_contains (py_lower (v @ ''; Secure'')) ''secure''"
proof -
  have "py_lower ''; Secure'' = ''; secure''" by code_simp
  then have "py_lower (v @ ''; Secure'') = (py_lower v @ ''; '') @ ''secure'' @ []" by (simp add: py_lower_def)
  then show ?thesis unfolding py_contains_def by (metis sublist_appendI)
qed

section \<open>Properties\<close>

text \<open>The state after a start. Whatever the last run left behind, the registry is consistent, has no
  tunnels, and no mount is online except the drop box, which is local and does not expire; every
  file of the drop box whose time has passed is gone and every other file is there; the records of
  expired files of the drop box are cleared and all others are kept.\<close>

lemma relay_start_state:
  assumes "registry_ok (rs_registry st)" and "lifespan_start cols code now st = (True, st')"
  shows "registry_ok (rs_registry st') \<and> connections (rs_registry st') = [] \<and> rs_local_mounts st' = [code] \<and>
    (\<exists>m. find_mount code (rs_registry st') = Some m \<and> status m = ONLINE \<and> expires_at m = None) \<and>
    (\<forall>m \<in> set (mounts (rs_registry st')). mcode m \<noteq> code \<longrightarrow> status m \<noteq> ONLINE) \<and>
    set (fs_files (rs_dropbox st')) = set (fs_files (rs_dropbox st)) -
      (\<lambda>r. py_lstrip_char CHR ''/'' (ttl_path r)) ` {r \<in> set (ttl_rows (rs_file_ttl st)). ttl_mount r = code \<and> ttl_expires_at r \<le> now} \<and>
    set (ttl_rows (rs_file_ttl st')) = {r \<in> set (ttl_rows (rs_file_ttl st)). \<not> (ttl_mount r = code \<and> ttl_expires_at r \<le> now)}"
proof -
  obtain reg' where r: "register code None ''127.0.0.1'' now None (create_registry cols now (rs_registry st)) = Inr reg'"
    "rs_registry st' = reg'" "rs_file_ttl st' = snd (delete_expired_for_mount code now (rs_file_ttl st))"
    "boot_cleanup (fst (delete_expired_for_mount code now (rs_file_ttl st))) (rs_dropbox st) = (True, rs_dropbox st')"
    "rs_local_mounts st' = [code]" using lifespan_started [OF assms(2)] by metis
  note sp = startup_cleanup_spec [of cols now "rs_registry st"]
  have "registry_ok reg'" using register_ok [OF create_registry_ok [OF assms(1)] r(1)] .
  moreover have "connections reg' = []" using r(1) sp by (auto simp: register_def Let_def split: if_splits)
  moreover have "\<exists>m. find_mount code reg' = Some m \<and> status m = ONLINE \<and> expires_at m = None"
    using r(1) by (auto simp: register_def Let_def find_mount_insert split: if_splits)
  moreover have "\<forall>m \<in> set (mounts reg'). mcode m \<noteq> code \<longrightarrow> status m \<noteq> ONLINE"
    using r(1) sp by (auto simp: register_def Let_def table_simps split: if_splits)
  moreover have "set (fs_files (rs_dropbox st')) = set (fs_files (rs_dropbox st)) -
      (\<lambda>r. py_lstrip_char CHR ''/'' (ttl_path r)) ` {r \<in> set (ttl_rows (rs_file_ttl st)). ttl_mount r = code \<and> ttl_expires_at r \<le> now}"
    using boot_cleanup_files(1) [OF r(4)] by (simp add: delete_expired_rows(2) image_image)
  ultimately show ?thesis using r(2,3,5) delete_expired_rows(1) by simp
qed

definition demo_relay_state :: relay_state where
  "demo_relay_state = \<lparr>rs_registry = demo_registry, rs_accounts = two_groups,
     rs_file_ttl = record_file_ttl ''drop'' ''old.txt'' 5 0 (record_file_ttl ''drop'' ''new.txt'' 50 0 init_table),
     rs_local_mounts = [], rs_dropbox = \<lparr>fs_files = [''old.txt'', ''new.txt''], fs_locked = []\<rparr>\<rparr>"

lemma demo_rows: "ttl_rows (rs_file_ttl demo_relay_state) =
    [\<lparr>ttl_id = 1, ttl_mount = ''drop'', ttl_path = ''new.txt'', ttl_expires_at = 50, ttl_created_at = 0\<rparr>,
     \<lparr>ttl_id = 2, ttl_mount = ''drop'', ttl_path = ''old.txt'', ttl_expires_at = 5, ttl_created_at = 0\<rparr>]"
  by (simp add: demo_relay_state_def record_file_ttl_def init_table_def insert_or_replace_def delete_where_def ttl_key_def)

lemma demo_starts:
  obtains st' where "lifespan_start {''owner_user_id'', ''access_mode'', ''has_password''} ''drop'' 20 demo_relay_state = (True, st')"
proof -
  obtain db where "delete_expired_for_mount ''drop'' 20 (rs_file_ttl demo_relay_state) = ([''old.txt''], db)"
    unfolding delete_expired_for_mount_def demo_rows by simp
  moreover obtain fs where "boot_cleanup [''old.txt''] (rs_dropbox demo_relay_state) = (True, fs)"
    by (simp add: demo_relay_state_def py_lstrip_char_def)
  moreover obtain reg' where "register ''drop'' None ''127.0.0.1'' 20 None
      (create_registry {''owner_user_id'', ''access_mode'', ''has_password''} 20 (rs_registry demo_relay_state)) = Inr reg'"
    by (simp add: register_def Let_def)
  ultimately show ?thesis using that by (simp add: lifespan_start_def Let_def del: boot_cleanup.simps)
qed

lemma relay_start_state_witness:
  "set (fs_files (rs_dropbox (snd (lifespan_start {''owner_user_id'', ''access_mode'', ''has_password''} ''drop'' 20 demo_relay_state)))) =
     {''new.txt''} \<and>
   connections (rs_registry (snd (lifespan_start {''owner_user_id'', ''access_mode'', ''has_password''} ''drop'' 20 demo_relay_state))) = []"
proof -
  obtain st' where s: "lifespan_start {''owner_user_id'', ''access_mode'', ''has_password''} ''drop'' 20 demo_relay_state = (True, st')"
    by (rule demo_starts)
  have ok: "registry_ok (rs_registry demo_relay_state)" by (simp add: demo_relay_state_def demo_registry_ok)
  have e: "{r \<in> set (ttl_rows (rs_file_ttl demo_relay_state)). ttl_mount r = ''drop'' \<and> ttl_expires_at r \<le> 20} =
      {\<lparr>ttl_id = 2, ttl_mount = ''drop'', ttl_path = ''old.txt'', ttl_expires_at = 5, ttl_created_at = 0\<rparr>}"
    unfolding demo_rows by auto
  have f: "set (fs_files (rs_dropbox demo_relay_state)) = {''old.txt'', ''new.txt''}" by (simp add: demo_relay_state_def)
  have "set (fs_files (rs_dropbox st')) = {''old.txt'', ''new.txt''} - {''old.txt''}" "connections (rs_registry st') = []"
    using relay_start_state [OF ok s] unfolding e f by (simp_all add: py_lstrip_char_def)
  then show ?thesis unfolding s by auto
qed

text \<open>C27: a restart of the relay does not cost an agent its code. Every mount that had not expired when the
  relay started again, online or offline before, is kept for an agent that asks for it from the mount's
  address before it expires: the agent is refused only by the rate limiter, because the address
  has as many mounts as allowed after the restart (this one counts), or because its message is rejected,
  and otherwise it is given the code, and browsers reach its new tunnel under it. The drop box is
  not such a mount.\<close>

theorem restart_resumes_mounts:
  assumes "registry_ok (rs_registry st)"
    and "lifespan_start {''owner_user_id'', ''access_mode'', ''has_password''} (dropbox_code config) now st = (True, st')"
    and "find_mount c (rs_registry st) = Some m" and "status m \<noteq> EXPIRED" and "c \<noteq> dropbox_code config"
    and "\<forall>t. expires_at m = Some t \<longrightarrow> now \<le> t \<and> now' < t"
  shows "if \<not> allowed
      then agent_connect config loads str_of db allowed gen k (agent_ip m) now' (Some c) ttl text (rs_registry st') = Inl RateLimited
    else if count_mounts_by_ip (agent_ip m) (rs_registry st') \<ge> max_mounts_per_ip config
      then agent_connect config loads str_of db allowed gen k (agent_ip m) now' (Some c) ttl text (rs_registry st') = Inl TooManyMounts
    else case read_agent_auth loads str_of db text of
      Inl x \<Rightarrow> agent_connect config loads str_of db allowed gen k (agent_ip m) now' (Some c) ttl text (rs_registry st') = Inl (Rejected x)
    | Inr auth \<Rightarrow> \<exists>t reg'.
        agent_connect config loads str_of db allowed gen k (agent_ip m) now' (Some c) ttl text (rs_registry st') = Inr (c, t, reg') \<and>
        get_connection (\<lambda>_. False) c reg' = Inr k"
proof -
  have r: "resumable (agent_ip m) (expires_at m) c (rs_registry st')"
    using restart_resumable [OF assms(1,2,3,4) _ refl assms(5)] assms(6) by blast
  have e: "case expires_at m of None \<Rightarrow> True | Some t \<Rightarrow> now' < t" using assms(6) by (simp split: option.split)
  show ?thesis using reconnect_outcome [OF r e assms(5), of allowed loads str_of db gen k ttl "text"] by (auto split: sum.splits if_splits)
qed

theorem restart_resumes_mounts_witness:
  "\<exists>t reg'. agent_connect demo_config demo_loads (\<lambda>_. []) two_groups True ''gen'' 7 ''ip'' 30 (Some ''a'') None (Json demo_auth)
      (rs_registry (snd (lifespan_start {''owner_user_id'', ''access_mode'', ''has_password''} ''drop'' 20 demo_relay_state))) = Inr (''a'', t, reg') \<and>
    get_connection (\<lambda>_. False) ''a'' reg' = Inr 7"
proof -
  obtain st' where s: "lifespan_start {''owner_user_id'', ''access_mode'', ''has_password''} ''drop'' 20 demo_relay_state = (True, st')"
    by (rule demo_starts)
  have ok: "registry_ok (rs_registry demo_relay_state)" by (simp add: demo_relay_state_def demo_registry_ok)
  obtain m where m: "find_mount ''a'' (rs_registry demo_relay_state) = Some m" "status m \<noteq> EXPIRED" "agent_ip m = ''ip''" "expires_at m = Some 100"
    by (simp add: demo_relay_state_def demo_registry_eq find_mount_def fetchone_def)
  have n: "count_mounts_by_ip ''ip'' (rs_registry st') < max_mounts_per_ip demo_config"
    using lifespan_count [OF s, of "''ip''"] by (simp add: demo_relay_state_def demo_registry_eq demo_config_def)
  have d: "dropbox_code demo_config = ''drop''" by (simp add: demo_config_def)
  show ?thesis
    using restart_resumes_mounts [of demo_relay_state demo_config 20 st' "''a''" m 30 True demo_loads "\<lambda>_. []" two_groups "''gen''" 7 None "Json demo_auth"]
      ok s m n d demo_auth_read by (simp add: s)
qed


section \<open>Further results\<close>

text \<open>A relay in production has allowed origins, and names its administrators in lower case, as the
  comparison with a user's name needs it.\<close>

lemma py_lower_char_idem [simp]: "py_lower_char (py_lower_char c) = py_lower_char c"
proof -
  have "of_char c < (256 :: nat)" by (rule nat_of_char_less_256)
  then show ?thesis by (auto simp: py_lower_char_def Let_def)
qed

lemma py_lower_idem [simp]: "py_lower (py_lower s) = py_lower s"
  by (simp add: py_lower_def)

lemma config_sound:
  assumes "load_config str_of generated env yaml = Inr cfg"
  shows "rc_env cfg = PRODUCTION \<Longrightarrow> json_true (rc_allowed_origins cfg)"
    and "u \<in> set (rc_admin_users cfg) \<Longrightarrow> py_lower u = u"
    and "generated \<noteq> [] \<Longrightarrow> json_true (rc_session_secret cfg)"
proof -
  show "json_true (rc_allowed_origins cfg)" if "rc_env cfg = PRODUCTION"
    using assms that by (auto simp: load_config_def res_bind_eq_Inr split: if_splits)
  obtain raw where a: "admin_users str_of env raw = Inr (rc_admin_users cfg)" "rc_session_secret cfg = session_secret generated env raw"
    using assms by (auto simp: load_config_def res_bind_eq_Inr split: if_splits)
  obtain xs where "rc_admin_users cfg = map py_lower xs"
    using a(1) by (auto simp: admin_users_def res_bind_eq_Inr split: option.splits dest: sym)
  then show "py_lower u = u" if "u \<in> set (rc_admin_users cfg)" using that by auto
  show "json_true (rc_session_secret cfg)" if "generated \<noteq> []"
    using a(2) that by (simp add: session_secret_def Let_def)
qed

text \<open>The address of the redirect has no slash doubled.\<close>

lemma redirect_uri_joined:
  assumes "oidc_enabled cfg" and "rc_public_url cfg = Some (u @ ''/'')"
  shows "oidc_redirect_uri cfg = oidc_redirect_uri (cfg\<lparr>rc_public_url := Some u\<rparr>)"
  using assms by (simp add: oidc_redirect_uri_def py_rstrip_char_def)

text \<open>The configuration shipped with the relay holds a session secret that everybody can read, and a relay
  in production takes it when no other is set: only the origins are checked.\<close>

definition shipped_config :: json where
  "shipped_config = JObj [(''env'', JStr ''development''), (''allowed_origins'', JList []), (''public_url'', JStr []),
     (''session_secret'', JStr ''dev-insecure-relay-session-secret''), (''admin_users'', JList [])]"

lemma public_secret_in_production:
  assumes "env = (\<lambda>n. if n = ''RELAY_ENV'' then Some ''production''
     else if n = ''RELAY_ALLOWED_ORIGINS'' then Some ''https://relay.example'' else None)"
  shows "\<exists>cfg. load_config str_of generated env shipped_config = Inr cfg \<and> rc_env cfg = PRODUCTION \<and>
    rc_session_secret cfg = JStr ''dev-insecure-relay-session-secret''"
proof -
  have l: "env_list ''https://relay.example'' = [''https://relay.example'']" by code_simp
  have s: "py_strip [] = []" by (simp add: py_strip_def)
  show ?thesis
    unfolding assms shipped_config_def
    by (simp add: load_config_def require_dict_def get_or_def env_or_def parse_env_def allowed_origins_def l public_url_def s
        env_int_def admin_users_def session_secret_def Let_def)
qed

text \<open>A client chooses the address it is counted under: behind a proxy that appends the real one, what the
  client wrote comes first. Together with the reclaim by address this hands over a mount to
  everybody who knows its code and the address of its agent.\<close>

lemma client_chooses_address:
  assumes "CHR '','' \<notin> set ip" and "py_strip ip = ip" and "ip \<noteq> []"
  shows "get_client_ip (Some (ip @ '', '' @ real_ip)) client = Some ip"
proof -
  have "py_split CHR '','' (ip @ CHR '','' # '' '' @ real_ip) = ip # py_split CHR '','' ('' '' @ real_ip)"
    using py_split_append [OF assms(1)] .
  then have "hd (py_split CHR '','' (ip @ '', '' @ real_ip)) = ip" by simp
  then show ?thesis using assms by (cases ip) (simp_all add: get_client_ip_def)
qed

lemma spoofed_address_takes_mount:
  assumes "find_mount c reg = Some m" and "status m = OFFLINE" and "agent_ip m = ip" and "\<not> expired_at now m"
    and "owner_user_id m = Some victim" and "access_mode m = RESTRICTED" and "admit config True ip (Some c) reg = Inr ()"
    and "CHR '','' \<notin> set ip" and "py_strip ip = ip" and "ip \<noteq> []"
  shows "\<exists>t reg'. agent_connect config loads str_of db True gen tun (agent_client_ip (Some (ip @ '', '' @ real_ip)) client)
      now (Some c) ttl (Json demo_auth) reg = Inr (c, t, reg') \<and>
    authorize reg' store c None = Some (Inr (passthrough None))"
  using reclaim_by_ip_takes_owned_mount [OF assms(1-7)] client_chooses_address [OF assms(8-10)]
  by (simp add: agent_client_ip_def) blast

text \<open>Behind HTTPS every cookie carries the flag or already mentions it, other headers are untouched, and
  doing it twice changes nothing.\<close>

lemma cookies_stamped:
  assumes "is_forwarded_https request"
  shows "(k, v) \<in> set (secure_cookies True request response) \<Longrightarrow> py_lower k = ''set-cookie'' \<Longrightarrow> py_contains (py_lower v) ''secure''"
    and "filter (\<lambda>(k, v). py_lower k \<noteq> ''set-cookie'') (secure_cookies True request response) =
      filter (\<lambda>(k, v). py_lower k \<noteq> ''set-cookie'') response"
    and "secure_cookies True request (secure_cookies True request response) = secure_cookies True request response"
proof -
  have s: "secure_cookies True request response = map stamp_cookie response" for response
    using assms by (simp add: secure_cookies_def)
  show "(k, v) \<in> set (secure_cookies True request response) \<Longrightarrow> py_lower k = ''set-cookie'' \<Longrightarrow> py_contains (py_lower v) ''secure''"
    unfolding s by (auto simp: stamp_cookie_def contains_secure split: if_splits)
  show "filter (\<lambda>(k, v). py_lower k \<noteq> ''set-cookie'') (secure_cookies True request response) =
      filter (\<lambda>(k, v). py_lower k \<noteq> ''set-cookie'') response"
    unfolding s by (induction response) (auto simp: stamp_cookie_def split: if_splits)
  show "secure_cookies True request (secure_cookies True request response) = secure_cookies True request response"
    unfolding s by (auto simp: stamp_cookie_def contains_secure)
qed

text \<open>A cookie whose value happens to contain the word is taken to have the flag.\<close>

lemma unstamped_cookie:
  "secure_cookies True [(''x-forwarded-proto'', ''https'')] [(''set-cookie'', ''theme=insecure; Path=/'')] =
     [(''set-cookie'', ''theme=insecure; Path=/'')]"
proof -
  have "stamp_cookie (''set-cookie'', ''theme=insecure; Path=/'') = (''set-cookie'', ''theme=insecure; Path=/'')" by code_simp
  then show ?thesis by (simp add: secure_cookies_def)
qed

text \<open>An expired entry that cannot be removed keeps the relay from starting, and its record is gone all
  the same.\<close>

lemma locked_entry_blocks_start:
  assumes "code \<noteq> []" and "fst (delete_expired_for_mount code now (rs_file_ttl st)) = [fp]"
    and "py_lstrip_char CHR ''/'' fp \<in> set (fs_files (rs_dropbox st))" and "py_lstrip_char CHR ''/'' fp \<in> set (fs_locked (rs_dropbox st))"
  shows "\<exists>st'. lifespan_start cols code now st = (False, st') \<and>
    (\<forall>r \<in> set (ttl_rows (rs_file_ttl st')). ttl_mount r = code \<longrightarrow> now < ttl_expires_at r)"
proof -
  obtain db where d: "delete_expired_for_mount code now (rs_file_ttl st) = ([fp], db)" using assms(2) by (metis prod.collapse)
  have "\<forall>r \<in> set (ttl_rows db). ttl_mount r = code \<longrightarrow> now < ttl_expires_at r"
    using delete_expired_rows(1) [of code now "rs_file_ttl st"] d by auto
  then show ?thesis using assms by (auto simp: lifespan_start_def d register_def Let_def)
qed

end
