(* ===== verification/Relay_System.thy ===== *)
theory Relay_System
  imports Relay_Startup
begin

text \<open>
  The relay as one system: the handlers of all agents (\<open>routers/agent_ws.py\<close>), the sweep, the access
  requests and restarts, interleaved between any two of their calls of the registry. An agent's
  connection is a number, and the handler that serves it is in one of the phases below; what the
  theories of the single components show of their operations is put together here into what holds in
  every state the relay can reach. The accounts may change between any two steps.
\<close>

section \<open>The handler of an agent, step by step\<close>

text \<open>The phases lie between the awaited calls of \<open>agent_websocket\<close>: waiting for the handshake, before the
  reclaim as owner, before the reclaim by address, before \<open>has_mount\<close>, before the registration, before the
  policy is stored, in the receive loop, and after the \<open>finally\<close> block.\<close>

datatype agent_phase =
    Idle
  | Admitted str "str option"
  | Authenticated str "str option" agent_auth
  | OwnerTried str str agent_auth
  | IpTried str str agent_auth
  | Assigned str agent_auth assignment
  | Registered str agent_auth
  | Serving str
  | Gone "str option"

record relay_system =
  sy_registry :: registry
  sy_accounts :: accounts_db
  sy_agents :: "conn_ref \<Rightarrow> agent_phase"

definition set_phase :: "conn_ref \<Rightarrow> agent_phase \<Rightarrow> relay_system \<Rightarrow> relay_system" where
  "set_phase k p s = s\<lparr>sy_agents := (sy_agents s)(k := p)\<rparr>"

text \<open>The code that a handler works for, once it is the mount's tunnel.\<close>

fun phase_code :: "agent_phase \<Rightarrow> str option" where
  "phase_code (Assigned ip auth (Reclaimed c t)) = Some c"
| "phase_code (Registered c auth) = Some c"
| "phase_code (Serving c) = Some c"
| "phase_code (Gone c) = c"
| "phase_code _ = None"

definition reclaim_phase :: "str \<Rightarrow> agent_auth \<Rightarrow> str \<Rightarrow> int option \<Rightarrow> agent_phase \<Rightarrow> agent_phase" where
  "reclaim_phase ip auth c r otherwise = (case r of None \<Rightarrow> otherwise | Some t \<Rightarrow> Assigned ip auth (Reclaimed c t))"

text \<open>The operations of the sweep's retention and of the access requests.\<close>

fun request_op :: "registry_op \<Rightarrow> bool" where
  "request_op (DeleteExpiredBefore t) = True"
| "request_op (AddPolicyEntry c st i rl) = True"
| "request_op (CreateAccessRequest c u now) = True"
| "request_op (ResolveAccessRequest i st) = True"
| "request_op _ = False"

inductive relay_step :: "relay_config \<Rightarrow> loads_fn \<Rightarrow> (json \<Rightarrow> str) \<Rightarrow> relay_system \<Rightarrow> relay_system \<Rightarrow> bool"
  for config loads str_of where
  accept: "sy_agents s k = Idle \<Longrightarrow> admit config allowed ip code (sy_registry s) = Inr () \<Longrightarrow>
    relay_step config loads str_of s (set_phase k (Admitted ip code) s)"
| handshake: "sy_agents s k = Admitted ip code \<Longrightarrow> read_agent_auth loads str_of (sy_accounts s) text = Inr auth \<Longrightarrow>
    relay_step config loads str_of s (set_phase k (Authenticated ip code auth) s)"
| rejected: "sy_agents s k = Admitted ip code \<Longrightarrow> relay_step config loads str_of s (set_phase k (Gone None) s)"
| owner_reclaim: "sy_agents s k = Authenticated ip (Some c) auth \<Longrightarrow> auth_owner auth = Some owner \<Longrightarrow>
    try_reclaim_as_owner c k owner now (sy_registry s) = (r, reg) \<Longrightarrow>
    relay_step config loads str_of s (set_phase k (reclaim_phase ip auth c r (OwnerTried ip c auth)) (s\<lparr>sy_registry := reg\<rparr>))"
| no_owner: "sy_agents s k = Authenticated ip (Some c) auth \<Longrightarrow> auth_owner auth = None \<Longrightarrow>
    relay_step config loads str_of s (set_phase k (OwnerTried ip c auth) s)"
| ip_reclaim: "sy_agents s k = OwnerTried ip c auth \<Longrightarrow> try_reclaim c k ip now (sy_registry s) = (r, reg) \<Longrightarrow>
    relay_step config loads str_of s (set_phase k (reclaim_phase ip auth c r (IpTried ip c auth)) (s\<lparr>sy_registry := reg\<rparr>))"
| choose: "sy_agents s k = IpTried ip c auth \<Longrightarrow>
    relay_step config loads str_of s
      (set_phase k (Assigned ip auth (Fresh (if \<not> has_mount c (sy_registry s) then c else generated))) s)"
| generate: "sy_agents s k = Authenticated ip None auth \<Longrightarrow>
    relay_step config loads str_of s (set_phase k (Assigned ip auth (Fresh generated)) s)"
| registration: "sy_agents s k = Assigned ip auth a \<Longrightarrow>
    register_assigned config k ip now ttl a (sy_registry s) = Inr (c, t, reg) \<Longrightarrow>
    relay_step config loads str_of s (set_phase k (Registered c auth) (s\<lparr>sy_registry := reg\<rparr>))"
| bad_code: "sy_agents s k = Assigned ip auth (Fresh c) \<Longrightarrow>
    register_assigned config k ip now ttl (Fresh c) (sy_registry s) = Inl e \<Longrightarrow>
    relay_step config loads str_of s (set_phase k (Gone None) s)"
| policy: "sy_agents s k = Registered c auth \<Longrightarrow>
    relay_step config loads str_of s (set_phase k (Serving c) (s\<lparr>sy_registry := store_policy auth c (sy_registry s)\<rparr>))"
| disconnected: "sy_agents s k = Serving c \<Longrightarrow>
    relay_step config loads str_of s
      (set_phase k (Gone (Some c)) (s\<lparr>sy_registry := agent_disconnect close_raises c (sy_registry s)\<rparr>))"
| sweep: "relay_step config loads str_of s
    (s\<lparr>sy_registry := fst (sweep_mount send_fails warning_before now mount (sy_registry s, []))\<rparr>)"
| request: "request_op op \<Longrightarrow> relay_step config loads str_of s (s\<lparr>sy_registry := registry_step op (sy_registry s)\<rparr>)"
| accounts: "relay_step config loads str_of s (s\<lparr>sy_accounts := db\<rparr>)"
| restart: "register (dropbox_code config) None ''127.0.0.1'' now None (create_registry cols now (sy_registry s)) = Inr reg \<Longrightarrow>
    relay_step config loads str_of s
      (s\<lparr>sy_registry := reg, sy_agents := (\<lambda>k. if sy_agents s k = Idle then Idle else Gone None)\<rparr>)"

definition system_init :: relay_system where
  "system_init = \<lparr>sy_registry = fresh_registry, sy_accounts = create_store, sy_agents = (\<lambda>_. Idle)\<rparr>"

section \<open>The invariant\<close>

definition tunnels_ok :: "relay_system \<Rightarrow> bool" where
  "tunnels_ok s \<longleftrightarrow> registry_ok (sy_registry s) \<and>
     (\<forall>c k. map_of (connections (sy_registry s)) c = Some k \<longrightarrow> phase_code (sy_agents s k) = Some c)"

text \<open>Which operations put a tunnel into the table of the registry.\<close>

fun sets_tunnel :: "registry_op \<Rightarrow> str \<Rightarrow> conn_ref \<Rightarrow> bool" where
  "sets_tunnel (Register c' k' ip t e) c k = (c' = c \<and> k' = Some k)"
| "sets_tunnel (TryReclaim c' k' ip now) c k = (c' = c \<and> k' = k)"
| "sets_tunnel (TryReclaimAsOwner c' k' ow now) c k = (c' = c \<and> k' = k)"
| "sets_tunnel _ c k = False"

lemma result_connections:
  assumes "registry_result op reg = Inr reg'" and "map_of (connections reg') c = Some k"
  shows "map_of (connections reg) c = Some k \<or> sets_tunnel op c k"
  using assms
  by (cases op)
    (auto simp: set_identity_secret_def register_def deregister_def mark_offline_def expire_def mark_ttl_warned_def
      try_reclaim_def try_reclaim_as_owner_def delete_expired_before_def set_owner_policy_def add_policy_entry_def
      create_access_request_def resolve_access_request_def take_over_def forget_live_def set_status_def Let_def
      map_of_update map_of_delete split: if_splits option.splits)

text \<open>A step of one handler that may take a tunnel for its code.\<close>

lemma handler_step:
  assumes "tunnels_ok s" and "registry_ok reg"
    and "\<And>c k'. map_of (connections reg) c = Some k' \<Longrightarrow>
      map_of (connections (sy_registry s)) c = Some k' \<or> k' = k \<and> phase_code p = Some c"
    and "phase_code (sy_agents s k) \<in> {None, phase_code p}"
  shows "tunnels_ok (set_phase k p (s\<lparr>sy_registry := reg\<rparr>))"
  unfolding tunnels_ok_def set_phase_def
proof (intro conjI allI impI)
  fix c k'
  assume "map_of (connections (sy_registry (s\<lparr>sy_registry := reg, sy_agents := (sy_agents (s\<lparr>sy_registry := reg\<rparr>))(k := p)\<rparr>))) c = Some k'"
  then have c: "map_of (connections reg) c = Some k'" by simp
  have inv: "map_of (connections (sy_registry s)) c = Some k' \<Longrightarrow> phase_code (sy_agents s k') = Some c"
    using assms(1) by (simp add: tunnels_ok_def)
  from assms(3) [OF c] inv assms(4)
  show "phase_code (sy_agents (s\<lparr>sy_registry := reg, sy_agents := (sy_agents (s\<lparr>sy_registry := reg\<rparr>))(k := p)\<rparr>) k') = Some c"
    by (cases "k' = k") auto
qed (simp add: assms(2))

lemma quiet_step:
  assumes "tunnels_ok s" and "phase_code (sy_agents s k) \<in> {None, phase_code p}"
  shows "tunnels_ok (set_phase k p s)"
proof -
  have "registry_ok (sy_registry s)" using assms(1) by (simp add: tunnels_ok_def)
  from handler_step [OF assms(1) this _ assms(2)] show ?thesis by simp
qed

lemma background_step:
  assumes "tunnels_ok s" and "registry_ok reg"
    and "\<And>c k. map_of (connections reg) c = Some k \<Longrightarrow> map_of (connections (sy_registry s)) c = Some k"
  shows "tunnels_ok (s\<lparr>sy_registry := reg\<rparr>)"
  using assms by (simp add: tunnels_ok_def)

lemma reclaim_step:
  assumes "tunnels_ok s" and "registry_result op (sy_registry s) = Inr reg" and "\<And>c' k'. sets_tunnel op c' k' \<Longrightarrow> c' = c \<and> k' = k"
    and "r = None \<Longrightarrow> reg = sy_registry s" and "phase_code (sy_agents s k) = None" and "phase_code p = None"
  shows "tunnels_ok (set_phase k (reclaim_phase ip auth c r p) (s\<lparr>sy_registry := reg\<rparr>))"
proof (rule handler_step [OF assms(1)])
  show "registry_ok reg" using registry_result_ok [OF _ assms(2)] assms(1) by (simp add: tunnels_ok_def)
  show "map_of (connections (sy_registry s)) c' = Some k' \<or> k' = k \<and> phase_code (reclaim_phase ip auth c r p) = Some c'"
    if "map_of (connections reg) c' = Some k'" for c' k'
    using result_connections [OF assms(2) that] assms(3,4) that by (cases r) (auto simp: reclaim_phase_def)
qed (simp add: assms(5))

lemma registration_step:
  assumes "tunnels_ok s" and "sy_agents s k = Assigned ip auth a"
    and "register_assigned config k ip now ttl a (sy_registry s) = Inr (c, t, reg)"
  shows "tunnels_ok (set_phase k (Registered c auth) (s\<lparr>sy_registry := reg\<rparr>))"
proof (cases a)
  case (Reclaimed c' t')
  then have "c' = c" "reg = sy_registry s" using assms(3) by (simp_all add: register_assigned_def)
  with assms Reclaimed show ?thesis by (intro handler_step) (auto simp: tunnels_ok_def)
next
  case (Fresh c')
  then obtain e where r: "registry_result (Register c (Some k) ip now e) (sy_registry s) = Inr reg"
    using assms(3) by (auto simp: register_assigned_def split: sum.splits)
  show ?thesis
  proof (rule handler_step [OF assms(1)])
    show "registry_ok reg" using registry_result_ok [OF _ r] assms(1) by (simp add: tunnels_ok_def)
    show "map_of (connections (sy_registry s)) x = Some k' \<or> k' = k \<and> phase_code (Registered c auth) = Some x"
      if "map_of (connections reg) x = Some k'" for x k' using result_connections [OF r that] by auto
  qed (simp add: assms(2) Fresh)
qed

lemma store_policy_step:
  assumes "registry_ok reg"
  shows "registry_ok (store_policy auth c reg)" and "connections (store_policy auth c reg) = connections reg"
proof -
  have k: "registry_ok (or_keep r reg') \<and> connections (or_keep r reg') = connections reg'"
    if "\<And>x. r = Inr x \<Longrightarrow> registry_ok x \<and> connections x = connections reg'" "registry_ok reg'" for r :: "(registry_exn, registry) result" and reg'
    using that by (cases r) (auto simp: or_keep_def)
  define reg1 where "reg1 = or_keep (set_owner_policy c (auth_owner auth) (auth_mode auth) (auth_has_password auth) (auth_entries auth) reg) reg"
  have 1: "registry_ok reg1 \<and> connections reg1 = connections reg" unfolding reg1_def
    by (rule k) (use assms set_owner_policy_ok [OF assms] in \<open>auto simp: set_owner_policy_def split: if_splits\<close>)
  have "registry_ok (store_policy auth c reg) \<and> connections (store_policy auth c reg) = connections reg"
  proof (cases "auth_secret auth")
    case (Some sec)
    have "registry_ok (or_keep (set_identity_secret c sec reg1) reg1) \<and> connections (or_keep (set_identity_secret c sec reg1) reg1) = connections reg1"
      by (rule k) (use 1 registry_misc_ok(1) [of reg1] in \<open>auto simp: set_identity_secret_def split: if_splits\<close>)
    with 1 Some show ?thesis by (simp add: store_policy_def reg1_def Let_def)
  qed (use 1 in \<open>simp add: store_policy_def reg1_def Let_def\<close>)
  then show "registry_ok (store_policy auth c reg)" "connections (store_policy auth c reg) = connections reg" by simp_all
qed

lemma step_connections:
  "map_of (connections (registry_step op reg)) c = Some k \<Longrightarrow> map_of (connections reg) c = Some k \<or> sets_tunnel op c k"
  using result_connections [of op reg] by (cases "registry_result op reg") (auto simp: registry_step_def or_keep_def)

lemma sweep_connections:
  "map_of (connections (fst (sweep_mount sf w now m (reg, [])))) c = Some k \<Longrightarrow> map_of (connections reg) c = Some k"
  using result_connections [of "Expire (rec_code m)" reg] result_connections [of "MarkTtlWarned (rec_code m)" reg]
  by (auto simp: sweep_mount_def or_keep_def Let_def split: option.splits sum.splits if_splits)

lemma disconnect_step:
  assumes "tunnels_ok s" and "sy_agents s k = Serving c"
  shows "tunnels_ok (set_phase k (Gone (Some c)) (s\<lparr>sy_registry := agent_disconnect raises c (sy_registry s)\<rparr>))"
proof -
  have "agent_disconnect raises c (sy_registry s) \<in> {sy_registry s, registry_step (MarkOffline c) (sy_registry s)}"
    by (simp add: agent_disconnect_def registry_step_def)
  then show ?thesis
    using assms step_connections [of "MarkOffline c" "sy_registry s"] registry.step_inv [of "sy_registry s" "MarkOffline c"]
    by (intro handler_step) (auto simp: tunnels_ok_def)
qed

lemma relay_step_ok:
  assumes "relay_step config loads str_of s t" and "tunnels_ok s"
  shows "tunnels_ok t"
  using assms
proof (cases rule: relay_step.cases)
  case (owner_reclaim k ip c auth owner now r reg)
  then show ?thesis using assms(2)
    by (auto intro!: reclaim_step [where op = "TryReclaimAsOwner c k owner now"]
        simp: try_reclaim_as_owner_def split: option.splits if_splits)
next
  case (ip_reclaim k ip c auth now r reg)
  then show ?thesis using assms(2)
    by (auto intro!: reclaim_step [where op = "TryReclaim c k ip now"] simp: try_reclaim_def split: option.splits if_splits)
next
  case (registration k ip auth a now ttl c t reg)
  then show ?thesis using registration_step [OF assms(2)] by simp
next
  case (policy k c auth)
  have "registry_ok (sy_registry s)" using assms(2) by (simp add: tunnels_ok_def)
  with policy store_policy_step [OF this] assms(2) show ?thesis by (auto intro!: handler_step)
next
  case (disconnected k c close_raises)
  then show ?thesis using disconnect_step [OF assms(2)] by simp
next
  case (sweep send_fails warning_before now mount)
  have "registry_ok (fst (sweep_mount send_fails warning_before now mount (sy_registry s, [])))"
    using sweep_fold_ok [of "(sy_registry s, [])" send_fails warning_before now "[mount]"] assms(2) by (simp add: tunnels_ok_def)
  then show ?thesis unfolding sweep by (rule background_step [OF assms(2)]) (rule sweep_connections)
next
  case (request op)
  have "\<not> sets_tunnel op c k" for c k using request(2) by (cases op) auto
  then show ?thesis unfolding request using assms(2) registry.step_inv [of "sy_registry s" op] step_connections [of op "sy_registry s"]
    by (intro background_step) (auto simp: tunnels_ok_def)
next
  case (restart now cols reg)
  then have "connections reg = []" "registry_ok reg"
    using register_ok [OF create_registry_ok restart(2)] assms(2)
    by (auto simp: tunnels_ok_def register_def create_registry_def startup_cleanup_def Let_def split: if_splits)
  then show ?thesis unfolding restart by (simp add: tunnels_ok_def)
next
  case (accounts db)
  then show ?thesis using assms(2) by (simp add: tunnels_ok_def)
qed (use assms(2) in \<open>auto intro!: quiet_step\<close>)

interpretation relay_sys: transition_system system_init "relay_step config loads str_of" tunnels_ok for config loads str_of
proof
  show "tunnels_ok system_init" using fresh_registry_ok by (simp add: tunnels_ok_def system_init_def fresh_registry_def)
qed (rule relay_step_ok)

text \<open>The handler without interruption is \<open>agent_connect\<close>.\<close>

lemma assign_path:
  assumes "sy_agents s k = Authenticated ip code auth" and "assign_code gen k ip now (auth_owner auth) code (sy_registry s) = (a, reg)"
  shows "(relay_step config loads str_of)\<^sup>*\<^sup>* s (set_phase k (Assigned ip auth a) (s\<lparr>sy_registry := reg\<rparr>))"
proof (cases code)
  case None
  then have "a = Fresh gen" "reg = sy_registry s" using assms(2) by (simp_all add: assign_code_def)
  then show ?thesis using relay_step.generate [of s k ip auth config loads str_of gen] assms(1) None by auto
next
  case (Some c)
  let ?R = "relay_step config loads str_of"
  define first where "first = (case auth_owner auth of None \<Rightarrow> (None, sy_registry s) | Some ow \<Rightarrow> try_reclaim_as_owner c k ow now (sy_registry s))"
  let ?s1 = "set_phase k (reclaim_phase ip auth c (fst first) (OwnerTried ip c auth)) (s\<lparr>sy_registry := snd first\<rparr>)"
  have s1: "?R s ?s1"
  proof (cases "auth_owner auth")
    case None
    then show ?thesis using relay_step.no_owner [of s k ip c auth config loads str_of] assms(1) Some
      by (simp add: first_def reclaim_phase_def)
  next
    case (Some ow)
    then show ?thesis using relay_step.owner_reclaim [of s k ip c auth ow now "fst first" "snd first" config loads str_of] assms(1) \<open>code = Some c\<close>
      by (simp add: first_def)
  qed
  show ?thesis
  proof (cases "fst first")
    case (Some t)
    then have "a = Reclaimed c t" "reg = snd first" using assms(2) \<open>code = Some c\<close>
      by (auto simp: assign_code_def first_def [symmetric] Let_def split: prod.splits)
    then show ?thesis using s1 Some by (simp add: reclaim_phase_def r_into_rtranclp)
  next
    case None
    then have f: "snd first = sy_registry s"
      by (auto simp: first_def try_reclaim_as_owner_def split: option.splits if_splits)
    obtain r reg2 where tr: "try_reclaim c k ip now (sy_registry s) = (r, reg2)" by (cases "try_reclaim c k ip now (sy_registry s)")
    let ?s2 = "set_phase k (reclaim_phase ip auth c r (IpTried ip c auth)) (?s1\<lparr>sy_registry := reg2\<rparr>)"
    have s2: "?R ?s1 ?s2"
      using relay_step.ip_reclaim [of ?s1 k ip c auth now r reg2 config loads str_of] None f tr
      by (simp add: set_phase_def reclaim_phase_def)
    show ?thesis
    proof (cases r)
      case (Some t)
      then have "a = Reclaimed c t" "reg = reg2" using assms(2) None f tr \<open>code = Some c\<close>
        by (auto simp: assign_code_def first_def [symmetric] Let_def split: prod.splits)
      then show ?thesis using s1 s2 Some by (simp add: set_phase_def reclaim_phase_def)
    next
      case None': None
      then have r2: "reg2 = sy_registry s" using tr by (auto simp: try_reclaim_def split: option.splits if_splits)
      have "a = Fresh (if \<not> has_mount c (sy_registry s) then c else gen)" "reg = sy_registry s"
        using assms(2) None None' f tr r2 \<open>code = Some c\<close>
        by (auto simp: assign_code_def first_def [symmetric] Let_def split: prod.splits if_splits)
      moreover have "?R ?s2 (set_phase k (Assigned ip auth (Fresh (if \<not> has_mount c (sy_registry s) then c else gen))) ?s2)"
        using relay_step.choose [of ?s2 k ip c auth config loads str_of gen] None' r2 by (simp add: set_phase_def reclaim_phase_def)
      ultimately show ?thesis using s1 s2 r2 by (simp add: set_phase_def)
    qed
  qed
qed

lemma connect_path:
  assumes "sy_agents s k = Idle"
    and "agent_connect config loads str_of (sy_accounts s) allowed gen k ip now code ttl text (sy_registry s) = Inr (c, t, reg)"
  shows "(relay_step config loads str_of)\<^sup>*\<^sup>* s (set_phase k (Serving c) (s\<lparr>sy_registry := reg\<rparr>))"
proof -
  let ?R = "relay_step config loads str_of"
  obtain auth a reg1 reg2 where h: "admit config allowed ip code (sy_registry s) = Inr ()"
    "read_agent_auth loads str_of (sy_accounts s) text = Inr auth"
    "assign_code gen k ip now (auth_owner auth) code (sy_registry s) = (a, reg1)"
    "register_assigned config k ip now ttl a reg1 = Inr (c, t, reg2)" "reg = store_policy auth c reg2"
    using agent_connect_steps [OF assms(2)] by metis
  have 1: "?R s (set_phase k (Admitted ip code) s)" using relay_step.accept [OF assms(1) h(1)] .
  have 2: "?R (set_phase k (Admitted ip code) s) (set_phase k (Authenticated ip code auth) s)"
    using relay_step.handshake [of "set_phase k (Admitted ip code) s" k ip code loads str_of "text" auth config] h(2)
    by (simp add: set_phase_def)
  have 3: "?R\<^sup>*\<^sup>* (set_phase k (Authenticated ip code auth) s) (set_phase k (Assigned ip auth a) (s\<lparr>sy_registry := reg1\<rparr>))"
    using assign_path [of "set_phase k (Authenticated ip code auth) s" k ip code auth gen now a reg1 config loads str_of] h(3)
    by (simp add: set_phase_def)
  have 4: "?R (set_phase k (Assigned ip auth a) (s\<lparr>sy_registry := reg1\<rparr>)) (set_phase k (Registered c auth) (s\<lparr>sy_registry := reg2\<rparr>))"
    using relay_step.registration [of "set_phase k (Assigned ip auth a) (s\<lparr>sy_registry := reg1\<rparr>)" k ip auth a config now ttl c t reg2 loads str_of] h(4)
    by (simp add: set_phase_def)
  have 5: "?R (set_phase k (Registered c auth) (s\<lparr>sy_registry := reg2\<rparr>)) (set_phase k (Serving c) (s\<lparr>sy_registry := reg\<rparr>))"
    using relay_step.policy [of "set_phase k (Registered c auth) (s\<lparr>sy_registry := reg2\<rparr>)" k c auth config loads str_of] h(5)
    by (simp add: set_phase_def)
  from 1 2 3 4 5 show ?thesis by (meson converse_rtranclp_into_rtranclp rtranclp.rtrancl_into_rtrancl)
qed

section \<open>Properties\<close>

text \<open>C8: requests for a mount only ever reach the agent that was given its code. In every state that the
  relay reaches, through any interleaving of the handlers of any number of agents, of sweeps, access
  requests, changes of the accounts and restarts, the registry is consistent, and a request or
  WebSocket that is forwarded for a code goes to a connection whose handler works for that very code;
  no other code's requests go there.\<close>

theorem relay_no_crosstalk:
  assumes "(relay_step config loads str_of)\<^sup>*\<^sup>* system_init s"
    and "proxy_admit mac dead locals (sy_registry s) store ident c rq = Some (Inr (ToTunnel k hdrs)) \<or>
      ws_admit mac dead locals (sy_registry s) store ident c rq = Some (Inr (WsTunnel k hdrs))"
  shows "registry_ok (sy_registry s) \<and> phase_code (sy_agents s k) = Some c \<and>
    (\<forall>c' store' ident' rq' hdrs'. c' \<noteq> c \<longrightarrow>
      proxy_admit mac dead locals (sy_registry s) store' ident' c' rq' \<noteq> Some (Inr (ToTunnel k hdrs')) \<and>
      ws_admit mac dead locals (sy_registry s) store' ident' c' rq' \<noteq> Some (Inr (WsTunnel k hdrs')))"
proof -
  have t: "tunnels_ok s" by (rule relay_sys.reach_inv [OF assms(1)])
  then have ok: "registry_ok (sy_registry s)" by (simp add: tunnels_ok_def)
  have code: "phase_code (sy_agents s k) = Some x"
    if "proxy_admit mac dead locals (sy_registry s) st i x q = Some (Inr (ToTunnel k hd)) \<or>
      ws_admit mac dead locals (sy_registry s) st i x q = Some (Inr (WsTunnel k hd))" for st i x q hd
  proof -
    have "get_connection dead x (sy_registry s) = Inr k" using that by (metis proxy_admit_tunnel ws_admit_tunnel)
    then have "map_of (connections (sy_registry s)) x = Some k" by (simp add: get_connection_live [OF ok] is_live_def)
    then show ?thesis using t by (simp add: tunnels_ok_def)
  qed
  from code [OF assms(2)] code show ?thesis using ok by (metis option.inject)
qed

theorem relay_no_crosstalk_witness:
  "\<exists>s hdrs. (relay_step demo_config demo_loads (\<lambda>_. []))\<^sup>*\<^sup>* system_init s \<and>
   proxy_admit demo_mac (\<lambda>_. False) [] (sy_registry s) (Some two_groups) (Some demo_ann) ''gen'' demo_forged = Some (Inr (ToTunnel 4 hdrs)) \<and>
   phase_code (sy_agents s 4) = Some ''gen''"
proof -
  let ?R = "relay_step demo_config demo_loads (\<lambda>_. [])"
  obtain t reg hdrs where c: "agent_connect demo_config demo_loads (\<lambda>_. []) two_groups True ''gen'' 4 ''ip2'' 10 None None
     (Json (agent_auth_message ''key'' (JStr (AGENT_SALT @ ''.a'')) (Some demo_owner) None)) fresh_registry = Inr (''gen'', t, reg)"
    and h: "proxy_admit demo_mac (\<lambda>_. False) [] reg (Some two_groups) (Some demo_ann) ''gen'' demo_forged = Some (Inr (ToTunnel 4 hdrs))"
    using demo_owner_reached by blast
  let ?s1 = "system_init\<lparr>sy_accounts := two_groups\<rparr>"
  let ?s = "set_phase 4 (Serving ''gen'') (?s1\<lparr>sy_registry := reg\<rparr>)"
  have "?R system_init ?s1" by (rule relay_step.accounts)
  moreover have "?R\<^sup>*\<^sup>* ?s1 ?s" by (rule connect_path) (use c in \<open>simp_all add: system_init_def\<close>)
  ultimately have r: "?R\<^sup>*\<^sup>* system_init ?s" by (rule converse_rtranclp_into_rtranclp)
  have "sy_registry ?s = reg" by (simp add: set_phase_def)
  with relay_no_crosstalk [OF r, of demo_mac "\<lambda>_. False" "[]" "Some two_groups" "Some demo_ann" "''gen''" demo_forged 4 hdrs] h r
  show ?thesis by metis
qed

section \<open>Races\<close>

lemma register_path:
  assumes "sy_agents s k = Assigned ip auth (Fresh c)" and "c \<noteq> []"
  obtains e reg where "register c (Some k) ip now e (sy_registry s) = Inr reg"
    "relay_step config loads str_of s (set_phase k (Registered c auth) (s\<lparr>sy_registry := reg\<rparr>))"
proof -
  let ?e = "Some (now + of_int (effective_ttl config None))"
  obtain reg where r: "register c (Some k) ip now ?e (sy_registry s) = Inr reg" using assms(2) by (auto simp: register_def Let_def)
  then have "register_assigned config k ip now None (Fresh c) (sy_registry s) = Inr (c, effective_ttl config None, reg)"
    by (simp add: register_assigned_def)
  from that [OF r relay_step.registration [OF assms(1) this]] show thesis .
qed

text \<open>Two agents that ask for one free code at the same time both get it, since \<open>has_mount\<close> and \<open>register\<close>
  are separate calls. The mount is then the second agent's, and when the first one leaves, its
  \<open>mark_offline\<close> takes the second one's mount offline, which keeps on serving without being reached.\<close>

lemma same_code_race:
  assumes "sy_agents s k1 = IpTried ip1 c auth1" and "sy_agents s k2 = IpTried ip2 c auth2" and "k1 \<noteq> k2" and "c \<noteq> []"
    and "\<not> has_mount c (sy_registry s)"
  shows "\<exists>s'. (relay_step config loads str_of)\<^sup>*\<^sup>* s s' \<and> sy_agents s' k2 = Serving c \<and> sy_agents s' k1 = Gone (Some c) \<and>
    get_connection dead c (sy_registry s') = Inl (MountOfflineError c)"
proof -
  let ?R = "relay_step config loads str_of"
  define s1 where "s1 = set_phase k1 (Assigned ip1 auth1 (Fresh c)) s"
  define s2 where "s2 = set_phase k2 (Assigned ip2 auth2 (Fresh c)) s1"
  have 1: "?R s s1" using relay_step.choose [OF assms(1), of config loads str_of] assms(5) by (simp add: s1_def)
  have 2: "?R s1 s2" using relay_step.choose [of s1 k2 ip2 c auth2 config loads str_of] assms by (simp add: s1_def s2_def set_phase_def)
  have "sy_agents s2 k1 = Assigned ip1 auth1 (Fresh c)" using assms(3) by (simp add: s1_def s2_def set_phase_def)
  then obtain e1 reg1 where 3: "?R s2 (set_phase k1 (Registered c auth1) (s2\<lparr>sy_registry := reg1\<rparr>))" (is "relay_step _ _ _ _ ?s3")
    using register_path [OF _ assms(4)] by blast
  define s4 where "s4 = set_phase k1 (Serving c) (?s3\<lparr>sy_registry := store_policy auth1 c (sy_registry ?s3)\<rparr>)"
  have 4: "?R ?s3 s4" using relay_step.policy [of ?s3 k1 c auth1 config loads str_of] by (simp add: s4_def set_phase_def)
  have "sy_agents s4 k2 = Assigned ip2 auth2 (Fresh c)" using assms(3) by (simp add: s4_def s2_def set_phase_def)
  then obtain e2 now reg2 where r2: "register c (Some k2) ip2 now e2 (sy_registry s4) = Inr reg2"
    and 5: "?R s4 (set_phase k2 (Registered c auth2) (s4\<lparr>sy_registry := reg2\<rparr>))" (is "relay_step _ _ _ _ ?s5")
    using register_path [OF _ assms(4)] by metis
  define s6 where "s6 = set_phase k2 (Serving c) (?s5\<lparr>sy_registry := store_policy auth2 c reg2\<rparr>)"
  have 6: "?R ?s5 s6" using relay_step.policy [of ?s5 k2 c auth2 config loads str_of] by (simp add: s6_def set_phase_def)
  define s7 where "s7 = set_phase k1 (Gone (Some c)) (s6\<lparr>sy_registry := agent_disconnect False c (sy_registry s6)\<rparr>)"
  have "sy_agents s6 k1 = Serving c" using assms(3) by (simp add: s6_def s4_def set_phase_def)
  then have 7: "?R s6 s7" using relay_step.disconnected [of s6 k1 c config loads str_of False] by (simp add: s7_def)
  have m: "find_mount c reg2 \<noteq> None" "map_option status (find_mount c reg2) = Some ONLINE" using register_frame(1) [OF r2, of c] by simp_all
  then have "map_option status (find_mount c (sy_registry s6)) = Some ONLINE"
    using store_policy_frame(3) [OF m(1), of auth2] by (simp add: s6_def set_phase_def)
  then obtain m6 where m6: "find_mount c (sy_registry s6) = Some m6" "status m6 = ONLINE" by auto
  then obtain reg7 where "mark_offline c (sy_registry s6) = Inr reg7" by (simp add: mark_offline_def)
  with m6 mark_offline_frame(3) [OF this] have "get_connection dead c (sy_registry s7) = Inl (MountOfflineError c)"
    by (simp add: s7_def set_phase_def agent_disconnect_def or_keep_def get_connection_def)
  moreover have "?R\<^sup>*\<^sup>* s s7" using 1 2 3 4 5 6 7 by (meson converse_rtranclp_into_rtranclp rtranclp.rtrancl_refl)
  moreover have "sy_agents s7 k2 = Serving c" "sy_agents s7 k1 = Gone (Some c)"
    using assms(3) by (simp_all add: s7_def s6_def set_phase_def)
  ultimately show ?thesis by blast
qed

lemma count_fresh:
  assumes "register c k ip t e reg = Inr reg'" and "\<not> has_mount c reg"
  shows "count_mounts_by_ip ip reg' = Suc (count_mounts_by_ip ip reg)"
proof -
  have "delete_where (\<lambda>m. mcode m = c) (mounts reg) = mounts reg"
    using assms(2) by (auto simp: has_mount_def find_mount_def fetchone_None delete_where_def intro!: filter_True)
  then show ?thesis using assms(1)
    by (auto simp: register_def Let_def count_mounts_by_ip_def rowcount_def insert_or_replace_def split: if_splits option.splits)
qed

text \<open>The mount cap is checked before the handshake: two agents of one address that are admitted together
  are both registered, and the address has one mount too many.\<close>

lemma mount_cap_race:
  assumes "sy_agents s k1 = Assigned ip auth1 (Fresh c1)" and "sy_agents s k2 = Assigned ip auth2 (Fresh c2)" and "k1 \<noteq> k2"
    and "c1 \<noteq> c2" and "c1 \<noteq> []" and "c2 \<noteq> []" and "\<not> has_mount c1 (sy_registry s)" and "\<not> has_mount c2 (sy_registry s)"
    and "Suc (count_mounts_by_ip ip (sy_registry s)) = max_mounts_per_ip config"
  shows "\<exists>s'. (relay_step config loads str_of)\<^sup>*\<^sup>* s s' \<and> count_mounts_by_ip ip (sy_registry s') > max_mounts_per_ip config"
proof -
  let ?R = "relay_step config loads str_of"
  obtain e1 now reg1 where r1: "register c1 (Some k1) ip now e1 (sy_registry s) = Inr reg1"
    and 1: "?R s (set_phase k1 (Registered c1 auth1) (s\<lparr>sy_registry := reg1\<rparr>))" (is "relay_step _ _ _ _ ?s1")
    using register_path [OF assms(1,5)] by metis
  have a2: "sy_agents ?s1 k2 = Assigned ip auth2 (Fresh c2)" and g1: "sy_registry ?s1 = reg1"
    using assms(2,3) by (simp_all add: set_phase_def)
  obtain e2 now' reg2 where r2: "register c2 (Some k2) ip now' e2 reg1 = Inr reg2"
    and 2: "?R ?s1 (set_phase k2 (Registered c2 auth2) (?s1\<lparr>sy_registry := reg2\<rparr>))" (is "relay_step _ _ _ _ ?s2")
    using register_path [OF a2 assms(6)] g1 by metis
  have n2: "\<not> has_mount c2 reg1" using assms(4,8) register_frame(1) [OF r1, of c2] by (simp add: has_mount_def)
  have "count_mounts_by_ip ip reg2 = Suc (Suc (count_mounts_by_ip ip (sy_registry s)))"
    using count_fresh [OF r1 assms(7)] count_fresh [OF r2 n2] by simp
  moreover have "?R\<^sup>*\<^sup>* s ?s2" using 1 2 by (meson converse_rtranclp_into_rtranclp rtranclp.rtrancl_refl)
  moreover have "sy_registry ?s2 = reg2" by (simp add: set_phase_def)
  ultimately show ?thesis using assms(9) by (metis lessI)
qed

end
