(* ===== verification/Relay_Lifecycle.thy ===== *)
theory Relay_Lifecycle
  imports Relay_Startup
begin

text \<open>
  The life of a relay between start and shutdown: the background task that sweeps the mounts
  (\<open>services/ttl_sweep.py\<close>) among everything else that works on the registry, with the clock; the container
  of services and its accessors (\<open>state.py\<close>); the shutdown (\<open>main.py\<close>); the command line (\<open>relay/cli.py\<close>); and
  the routes that only read (\<open>routers/health.py\<close>, \<open>landing.py\<close>, \<open>pages.py\<close>).
\<close>

section \<open>The sweep task (ttl_sweep.py)\<close>

text \<open>The task sleeps until \<open>due\<close>, or works through the snapshot of the mounts that it took at \<open>start\<close>; \<open>done\<close>
  is the start of the last finished sweep. Between any two of its calls of the registry other tasks
  call it too. The clock is the one of \<open>time.time()\<close>.\<close>

record relay_life =
  lc_registry :: registry
  lc_now :: timestamp
  lc_due :: timestamp
  lc_start :: timestamp
  lc_done :: timestamp
  lc_pending :: "MountRecord list option"

text \<open>Other tasks register mounts that expire in the future, and decide about reclaims, by a clock that they
  read at most \<open>lag\<close> before the call takes effect.\<close>

fun timely :: "real \<Rightarrow> timestamp \<Rightarrow> registry_op \<Rightarrow> bool" where
  "timely lag t (Register c k ip created e) = (case e of None \<Rightarrow> True | Some x \<Rightarrow> t - lag < x)"
| "timely lag t (TryReclaim c k ip now) = (t - lag \<le> now)"
| "timely lag t (TryReclaimAsOwner c k ow now) = (t - lag \<le> now)"
| "timely lag t _ = True"

text \<open>The loop of \<open>run_ttl_sweep\<close>: sleep for the interval, then \<open>sweep_once\<close>, call by call. The event loop
  resumes the task at most \<open>lag\<close> after its timer, and a sweep takes at most \<open>lag\<close>.\<close>

inductive lifecycle_step ::
  "real \<Rightarrow> real \<Rightarrow> (conn_ref \<Rightarrow> bool) \<Rightarrow> real \<Rightarrow> relay_life \<Rightarrow> relay_life \<Rightarrow> bool" for interval lag send_fails warning_before where
  other: "lc_now s \<le> t \<Longrightarrow> t \<le> (if lc_pending s = None then lc_due s else lc_start s) + lag \<Longrightarrow> timely lag t op \<Longrightarrow>
    lifecycle_step interval lag send_fails warning_before s (s\<lparr>lc_now := t, lc_registry := registry_step op (lc_registry s)\<rparr>)"
| wake: "lc_pending s = None \<Longrightarrow> lc_now s \<le> t \<Longrightarrow> lc_due s \<le> t \<Longrightarrow> t \<le> lc_due s + lag \<Longrightarrow>
    lifecycle_step interval lag send_fails warning_before s
      (s\<lparr>lc_now := t, lc_start := t, lc_pending := Some (active_mounts (lc_registry s))\<rparr>)"
| mount: "lc_pending s = Some (r # rs) \<Longrightarrow> lc_now s \<le> t \<Longrightarrow> t \<le> lc_start s + lag \<Longrightarrow>
    lifecycle_step interval lag send_fails warning_before s (s\<lparr>lc_now := t, lc_pending := Some rs,
      lc_registry := fst (sweep_mount send_fails warning_before (lc_start s) r (lc_registry s, []))\<rparr>)"
| sleep: "lc_pending s = Some [] \<Longrightarrow> lc_now s \<le> t \<Longrightarrow> t \<le> lc_start s + lag \<Longrightarrow>
    lifecycle_step interval lag send_fails warning_before s (s\<lparr>lc_now := t, lc_pending := None, lc_due := t + interval,
      lc_done := lc_start s, lc_registry := delete_expired_before (lc_start s - 6 * 3600) (lc_registry s)\<rparr>)"

text \<open>The task is created at the end of the start-up.\<close>

definition lifecycle_init :: "real \<Rightarrow> timestamp \<Rightarrow> relay_state \<Rightarrow> relay_life" where
  "lifecycle_init interval now st = \<lparr>lc_registry = rs_registry st, lc_now = now, lc_due = now + interval, lc_start = now,
     lc_done = now, lc_pending = None\<rparr>"

section \<open>The container of services (state.py)\<close>

record relay_services =
  sv_registry :: "registry option"
  sv_session :: "str option"
  sv_account_store :: "accounts_db option"
  sv_file_ttl_db :: "file_ttl_db option"
  sv_oidc :: "str option"
  sv_local_mounts :: "str list"

datatype wiring_exn = NotWired str

definition RelayState_init :: relay_services where
  "RelayState_init = \<lparr>sv_registry = None, sv_session = None, sv_account_store = None, sv_file_ttl_db = None, sv_oidc = None,
     sv_local_mounts = []\<rparr>"

definition wired :: "str \<Rightarrow> 'a option \<Rightarrow> (wiring_exn, 'a) result" where
  "wired name x = (case x of None \<Rightarrow> Inl (NotWired name) | Some a \<Rightarrow> Inr a)"

definition require_registry :: "relay_services \<Rightarrow> (wiring_exn, registry) result" where
  "require_registry sv = wired ''registry'' (sv_registry sv)"

definition require_session :: "relay_services \<Rightarrow> (wiring_exn, str) result" where
  "require_session sv = wired ''session'' (sv_session sv)"

definition require_account_store :: "relay_services \<Rightarrow> (wiring_exn, accounts_db) result" where
  "require_account_store sv = wired ''account_store'' (sv_account_store sv)"

definition require_oidc :: "relay_services \<Rightarrow> (wiring_exn, str) result" where
  "require_oidc sv = wired ''oidc'' (sv_oidc sv)"

definition require_file_ttl_db :: "relay_services \<Rightarrow> (wiring_exn, file_ttl_db) result" where
  "require_file_ttl_db sv = wired ''file_ttl_db'' (sv_file_ttl_db sv)"

section \<open>Start and shutdown (main.py)\<close>

text \<open>What \<open>lifespan\<close> stores before it yields: the databases of \<open>lifespan_start\<close>, the signer of sessions (its
  secret), and the client of the identity provider (its issuer) when single sign-on is configured.\<close>

definition lifespan_wire :: "str \<Rightarrow> str option \<Rightarrow> relay_state \<Rightarrow> relay_services \<Rightarrow> relay_services" where
  "lifespan_wire secret issuer st sv = sv\<lparr>sv_registry := Some (rs_registry st), sv_account_store := Some (rs_accounts st),
     sv_session := Some secret, sv_oidc := (case issuer of None \<Rightarrow> sv_oidc sv | Some i \<Rightarrow> Some i),
     sv_file_ttl_db := Some (rs_file_ttl st), sv_local_mounts := rs_local_mounts st @ sv_local_mounts sv\<rparr>"

text \<open>The code after the \<open>yield\<close>. Both sweep tasks are cancelled; waiting for a task that has died of an
  exception raises that exception, which only \<open>CancelledError\<close> is caught for. The flag says whether
  the shutdown raises.\<close>

definition lifespan_stop :: "bool \<Rightarrow> bool \<Rightarrow> str \<Rightarrow> relay_services \<Rightarrow> bool \<times> relay_services" where
  "lifespan_stop sweep_died file_sweep_died code sv =
     (if sweep_died then (True, sv)
      else if file_sweep_died then (True, sv)
      else (False, sv\<lparr>sv_local_mounts := filter (\<lambda>c. c \<noteq> code) (sv_local_mounts sv), sv_file_ttl_db := None,
        sv_account_store := None, sv_session := None, sv_oidc := None, sv_registry := None\<rparr>))"

section \<open>The command line (relay/cli.py)\<close>

definition relay_main :: "str option \<Rightarrow> int option \<Rightarrow> environ \<Rightarrow> (config_exn, str \<times> int \<times> RelayEnv) result" where
  "relay_main host_arg port_arg env =
     (let host = (case host_arg of None \<Rightarrow> ''0.0.0.0'' | Some h \<Rightarrow> h) in
      res_bind (int_text (env_or env ''PORT'' (JStr ''8001''))) (\<lambda>port_default.
        let port = (case port_arg of None \<Rightarrow> port_default | Some p \<Rightarrow> p) in
        res_bind (parse_env (env_or env ''RELAY_ENV'' (JStr ''development''))) (\<lambda>relay_env.
          Inr (host, port, relay_env))))"

section \<open>Pages (health.py, landing.py, pages.py, spa.py)\<close>

definition health :: "relay_services \<Rightarrow> (wiring_exn, json) result" where
  "health sv = res_bind (require_registry sv) (\<lambda>reg.
     Inr (JObj [(''status'', JStr ''ok''), (''mounts'', JInt (int (mount_count reg)))]))"

datatype landing_reply = LandingRedirect str | LandingPage str

definition landing_page :: "str \<Rightarrow> str \<Rightarrow> landing_reply" where
  "landing_page dropbox code = (if code \<noteq> [] then LandingRedirect (''/m/'' @ code @ ''/'')
     else LandingPage (''/m/'' @ dropbox @ ''/''))"

datatype shell_reply = IndexFile bytes | PlaceholderShell

definition spa_shell_response :: "bytes option \<Rightarrow> shell_reply" where
  "spa_shell_response index_html = (case index_html of Some b \<Rightarrow> IndexFile b | None \<Rightarrow> PlaceholderShell)"

section \<open>The invariant\<close>

definition online_until :: "str \<Rightarrow> timestamp \<Rightarrow> registry \<Rightarrow> bool" where
  "online_until c e reg \<longleftrightarrow> (\<exists>m. find_mount c reg = Some m \<and> status m = ONLINE \<and> expires_at m = Some e)"

definition awaited :: "str \<Rightarrow> timestamp \<Rightarrow> MountRecord list \<Rightarrow> bool" where
  "awaited c e rs \<longleftrightarrow> (\<exists>r \<in> set rs. rec_code r = c \<and> rec_status r = ONLINE \<and> rec_expires_at r = Some e)"

definition punctual :: "real \<Rightarrow> real \<Rightarrow> relay_life \<Rightarrow> bool" where
  "punctual interval lag s \<longleftrightarrow> registry_ok (lc_registry s) \<and>
     (\<forall>c e. online_until c e (lc_registry s) \<longrightarrow> lc_done s - lag < e) \<and> lc_due s \<le> lc_done s + lag + interval \<and>
     lc_done s \<le> lc_now s \<and>
     (case lc_pending s of
        None \<Rightarrow> lc_now s \<le> lc_due s + lag
      | Some rs \<Rightarrow> lc_start s \<le> lc_now s \<and> lc_now s \<le> lc_start s + lag \<and> lc_start s \<le> lc_due s + lag \<and>
          (\<forall>c e. online_until c e (lc_registry s) \<longrightarrow> lc_start s - lag < e \<or> awaited c e rs))"

section \<open>Lemmas\<close>

lemma deleted_online:
  assumes "registry_ok reg" and "online_until c e (delete_expired_before x reg)"
  shows "online_until c e reg"
proof -
  obtain m where m: "find_mount c (delete_expired_before x reg) = Some m" "status m = ONLINE" "expires_at m = Some e"
    using assms(2) by (auto simp: online_until_def)
  then have "m \<in> set (mounts reg)" "mcode m = c" using find_mount_code [OF m(1)] by (auto simp: delete_expired_before_def table_simps)
  then have "find_mount c reg = Some m"
    using assms(1) fetchone_key_iff [of mcode "mounts reg" c m] by (simp add: registry_ok_def find_mount_def)
  with m show ?thesis by (auto simp: online_until_def)
qed

lemma op_online:
  assumes "registry_result op reg = Inr reg'" and "timely lag t op" and "online_until c e reg'" and "registry_ok reg"
  shows "online_until c e reg \<or> t - lag < e"
proof (cases op)
  case (DeleteExpiredBefore x)
  then show ?thesis using assms deleted_online [OF assms(4)] by auto
next
  case (Register d k' ip t e)
  then show ?thesis using assms register_frame [of d k' ip t e reg reg'] by (auto simp: online_until_def split: if_splits)
next
  case (Deregister d)
  then show ?thesis using assms deregister_frame [of d reg reg'] by (auto simp: online_until_def split: if_splits)
next
  case (MarkOffline d)
  then show ?thesis using assms mark_offline_frame [of d reg reg']
    by (cases "c = d") (auto simp: online_until_def split: if_splits)
next
  case (SetOwnerPolicy d ow md pw es)
  then show ?thesis using assms
    by (auto simp: online_until_def set_owner_policy_def Let_def find_mount_update reg_simps split: if_splits)
next
  case (TryReclaim d k' ip now)
  then show ?thesis using assms
    by (cases "c = d") (auto simp: online_until_def try_reclaim_def take_over_def expired_at_def reg_simps split: option.splits if_splits)
next
  case (TryReclaimAsOwner d k' ow now)
  then show ?thesis using assms
    by (cases "c = d") (auto simp: online_until_def try_reclaim_as_owner_def take_over_def expired_at_def reg_simps split: option.splits if_splits)
next
  case (MarkTtlWarned d)
  then show ?thesis using assms by (auto simp: online_until_def mark_ttl_warned_def find_mount_update split: if_splits)
qed (use assms in \<open>auto simp: online_until_def set_identity_secret_def expire_def
      add_policy_entry_def create_access_request_def resolve_access_request_def Let_def reg_simps split: if_splits option.splits\<close>)

lemma step_online:
  assumes "timely lag t op" and "online_until c e (registry_step op reg)" and "registry_ok reg"
  shows "online_until c e reg \<or> t - lag < e"
  using assms op_online [of op reg _ lag t c e] by (cases "registry_result op reg") (auto simp: registry_step_def or_keep_def)

text \<open>A call of the sweep makes no mount online, and takes the one it was called for off when its record says
  that it has expired.\<close>

lemma sweep_mount_online:
  assumes "online_until c e (fst (sweep_mount sf w now r (reg, [])))"
  shows "online_until c e reg" and "rec_code r = c \<Longrightarrow> rec_status r = ONLINE \<Longrightarrow> rec_expires_at r = Some e \<Longrightarrow> now < e"
proof -
  have warned: "online_until c e (or_keep (mark_ttl_warned d reg) reg) \<Longrightarrow> online_until c e reg" for d
    by (auto simp: online_until_def mark_ttl_warned_def or_keep_def find_mount_update split: if_splits)
  have expired: "online_until c e reg \<and> c \<noteq> d" if "expire d reg = Inr reg'" "online_until c e reg'" for d reg'
    using that by (auto simp: online_until_def expire_def reg_simps split: if_splits option.splits)
  have missing: "\<not> online_until d e reg" if "expire d reg = Inl x" for d x
    using that by (auto simp: online_until_def expire_def rowcount_mount split: if_splits option.splits)
  show on: "online_until c e reg"
    using assms warned expired by (auto simp: sweep_mount_def Let_def split: option.splits if_splits sum.splits)
  assume r: "rec_code r = c" "rec_status r = ONLINE" "rec_expires_at r = Some e"
  show "now < e"
    using assms r expired missing on by (force simp: sweep_mount_def Let_def split: option.splits if_splits sum.splits)
qed

lemma active_awaited:
  assumes "registry_ok reg" and "online_until c e reg"
  shows "awaited c e (active_mounts reg)"
  using assms by (force simp: online_until_def awaited_def active_mounts_def row_record_def dest: find_mount_code)

lemma sweep_mount_ok: "registry_ok reg \<Longrightarrow> registry_ok (fst (sweep_mount sf w now r (reg, [])))"
  using sweep_fold_ok [of "(reg, [])" sf w now "[r]"] by simp

lemma punctual_other:
  assumes "punctual interval lag s" and "lc_now s \<le> t" and "t \<le> (if lc_pending s = None then lc_due s else lc_start s) + lag"
    and "timely lag t op"
  shows "punctual interval lag (s\<lparr>lc_now := t, lc_registry := registry_step op (lc_registry s)\<rparr>)"
proof -
  have ok: "registry_ok (lc_registry s)" using assms(1) by (simp add: punctual_def)
  have new: "online_until c e (registry_step op (lc_registry s)) \<Longrightarrow> online_until c e (lc_registry s) \<or> t - lag < e" for c e
    by (rule step_online [OF assms(4) _ ok])
  show ?thesis using assms(1-3) registry.step_inv [OF ok] by (fastforce simp: punctual_def dest!: new split: option.splits)
qed

lemma lifecycle_punctual:
  assumes "lifecycle_step interval lag sf w s s'" and "punctual interval lag s" and "0 \<le> lag" and "0 \<le> interval"
  shows "punctual interval lag s'"
  using assms(1)
proof cases
  case (other t op)
  then show ?thesis using punctual_other [OF assms(2)] by simp
next
  case (wake t)
  have "registry_ok (lc_registry s)" using assms(2) by (simp add: punctual_def)
  then show ?thesis using wake assms(2,3) active_awaited [of "lc_registry s"] by (auto simp: punctual_def)
next
  case (mount r rs t)
  have ok: "registry_ok (lc_registry s)" using assms(2) by (simp add: punctual_def)
  let ?reg = "fst (sweep_mount sf w (lc_start s) r (lc_registry s, []))"
  have "lc_start s - lag < e \<or> awaited c e rs" if "online_until c e ?reg" for c e
  proof -
    have "lc_start s - lag < e \<or> awaited c e (r # rs)"
      using sweep_mount_online(1) [OF that] assms(2) mount(2) by (auto simp: punctual_def)
    moreover have "lc_start s - lag < e" if "rec_code r = c" "rec_status r = ONLINE" "rec_expires_at r = Some e"
      using sweep_mount_online(2) [OF \<open>online_until c e ?reg\<close> that] assms(3) by simp
    ultimately show ?thesis by (auto simp: awaited_def)
  qed
  moreover have "lc_done s - lag < e" if "online_until c e ?reg" for c e
    using sweep_mount_online(1) [OF that] assms(2) by (auto simp: punctual_def)
  ultimately show ?thesis using assms(2) mount sweep_mount_ok [OF ok] by (auto simp: punctual_def)
next
  case (sleep t)
  have ok: "registry_ok (lc_registry s)" using assms(2) by (simp add: punctual_def)
  have "lc_start s - lag < e" if "online_until c e (delete_expired_before (lc_start s - 6 * 3600) (lc_registry s))" for c e
    using deleted_online [OF ok that] assms(2) sleep(2) by (auto simp: punctual_def awaited_def)
  then show ?thesis using assms(2-4) sleep delete_expired_ok [OF ok] by (auto simp: punctual_def)
qed

lemma punctual_path:
  assumes "(lifecycle_step interval lag sf w)\<^sup>*\<^sup>* s s'" and "punctual interval lag s" and "0 \<le> lag" and "0 \<le> interval"
  shows "punctual interval lag s'"
  using assms(1,2) by (induction rule: rtranclp_induct) (auto intro: lifecycle_punctual [OF _ _ assms(3,4)])

text \<open>After the start no mount with an expiry is online.\<close>

lemma start_punctual:
  assumes "registry_ok (rs_registry st)" and "lifespan_start cols code now st = (True, st')" and "0 \<le> lag" and "0 \<le> interval"
  shows "punctual interval lag (lifecycle_init interval now st')"
proof -
  let ?r = "create_registry cols now (rs_registry st)"
  obtain reg' where r: "register code None ''127.0.0.1'' now None ?r = Inr reg'" "rs_registry st' = reg'"
    using lifespan_started [OF assms(2)] by blast
  have "status m \<noteq> ONLINE" if "m \<in> set (mounts ?r)" for m
    using that by (auto simp: create_registry_def startup_cleanup_def Let_def update_where_def split: if_splits)
  then have "\<not> online_until c e reg'" for c e
    using register_frame(1) [OF r(1), of c] by (auto simp: online_until_def dest: find_mount_code split: if_splits)
  moreover have "registry_ok reg'" by (rule register_ok [OF create_registry_ok [OF assms(1)] r(1)])
  ultimately show ?thesis using assms(3,4) r(2) by (simp add: punctual_def lifecycle_init_def)
qed

section \<open>Results\<close>

text \<open>C24: a mount is not reached for long after its expiry. From the start of the relay on, with the sweep task
  interleaved with whatever agents, requests and other tasks do to the registry, a mount that has an
  expiry and is reached through its tunnel is so before the sweep interval and four times the largest
  delay have passed since that expiry. The delay bounds the time the event loop takes to resume the
  task, the length of a sweep, and the age of the clock readings that reclaims are decided by.\<close>

theorem expired_mount_unreachable:
  assumes "registry_ok (rs_registry st)" and "lifespan_start cols code now st = (True, st')" and "0 \<le> lag" and "0 \<le> interval"
    and "(lifecycle_step interval lag sf w)\<^sup>*\<^sup>* (lifecycle_init interval now st') s"
    and "get_connection dead c (lc_registry s) = Inr k" and "find_mount c (lc_registry s) = Some m" and "expires_at m = Some e"
  shows "lc_now s < e + interval + 4 * lag"
proof -
  have p: "punctual interval lag s" by (rule punctual_path [OF assms(5) start_punctual [OF assms(1-4)] assms(3,4)])
  have "status m = ONLINE" using assms(6,7) by (cases "status m") (auto simp: get_connection_def split: if_splits)
  then have "lc_done s - lag < e" using p assms(7,8) by (auto simp: punctual_def online_until_def)
  then show ?thesis using p assms(3) by (auto simp: punctual_def split: option.splits)
qed

theorem expired_mount_unreachable_witness:
  "\<exists>st' s. lifespan_start {''owner_user_id'', ''access_mode'', ''has_password''} ''drop'' 20 demo_relay_state = (True, st') \<and>
     (lifecycle_step 60 5 (\<lambda>_. False) 10)\<^sup>*\<^sup>* (lifecycle_init 60 20 st') s \<and>
     get_connection (\<lambda>_. False) ''m'' (lc_registry s) = Inr 4 \<and> lc_now s < 30 + 60 + 4 * 5"
proof -
  obtain st' where st: "lifespan_start {''owner_user_id'', ''access_mode'', ''has_password''} ''drop'' 20 demo_relay_state = (True, st')"
    by (rule demo_starts)
  let ?op = "Register ''m'' (Some 4) ''ip'' 20 (Some 30)"
  let ?i = "lifecycle_init 60 20 st'"
  let ?s = "?i\<lparr>lc_now := 25, lc_registry := registry_step ?op (lc_registry ?i)\<rparr>"
  have ok: "registry_ok (rs_registry demo_relay_state)" using demo_registry_ok by (simp add: demo_relay_state_def)
  obtain reg' where reg: "register ''m'' (Some 4) ''ip'' 20 (Some 30) (lc_registry ?i) = Inr reg'" by (simp add: register_def Let_def)
  then have r: "registry_step ?op (lc_registry ?i) = reg'" by (simp add: registry_step_def or_keep_def)
  have "lifecycle_step 60 5 (\<lambda>_. False) 10 ?i ?s" by (intro lifecycle_step.other) (simp_all add: lifecycle_init_def)
  then have path: "(lifecycle_step 60 5 (\<lambda>_. False) 10)\<^sup>*\<^sup>* ?i ?s" by simp
  note f = register_frame(1,2) [OF reg, of "''m''"]
  have c: "get_connection (\<lambda>_. False) ''m'' (lc_registry ?s) = Inr 4" using f r by (simp add: get_connection_def)
  obtain m where m: "find_mount ''m'' (lc_registry ?s) = Some m" "expires_at m = Some 30" using f r by simp
  have "lc_now ?s < 30 + 60 + 4 * 5" using expired_mount_unreachable [OF ok st _ _ path c m] by simp
  with st path c show ?thesis by blast
qed

text \<open>Between start and shutdown every accessor gives its service, the one of the identity provider where it is
  configured; after the shutdown none does.\<close>

lemma services_lifetime:
  shows "lifespan_start cols code now st = (True, st') \<Longrightarrow> sv = lifespan_wire secret issuer st' RelayState_init \<Longrightarrow>
      require_registry sv = Inr (rs_registry st') \<and> require_account_store sv = Inr (rs_accounts st') \<and>
      require_session sv = Inr secret \<and> require_file_ttl_db sv = Inr (rs_file_ttl st') \<and>
      (is_ok (require_oidc sv) \<longleftrightarrow> issuer \<noteq> None) \<and> sv_local_mounts sv = [code] \<and>
      lifespan_stop False False code sv = (False, RelayState_init)"
    and "health RelayState_init = Inl (NotWired ''registry'')"
  by (auto simp: lifespan_wire_def lifespan_stop_def RelayState_init_def require_registry_def require_account_store_def require_session_def
      require_file_ttl_db_def require_oidc_def wired_def health_def is_ok_iff elim: lifespan_started split: option.splits)

text \<open>A sweep task that has died of an exception makes the shutdown raise before anything is closed.\<close>

lemma dead_sweep_blocks_shutdown:
  assumes "sweep_died \<or> file_sweep_died"
  shows "lifespan_stop sweep_died file_sweep_died code sv = (True, sv)"
  using assms by (auto simp: lifespan_stop_def)

text \<open>A \<open>PORT\<close> that is not a number stops the relay although a port is given on the command line.\<close>

lemma bad_port_variable_blocks_start:
  assumes "env ''PORT'' = Some s" and "int_text (JStr s) = Inl e"
  shows "relay_main host_arg (Some p) env = Inl e"
  using assms by (simp add: relay_main_def env_or_def)

end
