(* ===== verification/Command_Line.thy ===== *)
theory Command_Line
  imports Server_Startup Relay_Lifecycle
begin

text \<open>
  The command lines: the parsers that \<open>server/app/cli.py\<close> and \<open>relay/cli.py\<close> build, the choice of the
  subcommand, and the parsing of the arguments by \<open>argparse\<close> as far as these parsers use it: options with one
  value, appending options, flags, one positional argument, abbreviations, values joined with an equals
  sign, joined single-letter options, negative numbers and the separator of two dashes. The version is
  the one of Python 3.11. Messages are left out: an exit is a value that names its reason.
\<close>

section \<open>argparse: actions\<close>

datatype arg_kind = StoreText | StoreInt | StoreDuration | StoreChoice "str list" | AppendText | StoreTrue | ShowHelp

record arg_action =
  act_dest :: str
  act_flags :: "str list"
  act_kind :: arg_kind
  act_required :: bool

datatype arg_value = NoValue | BoolValue bool | TextValue str | IntValue int | ListValue "str list"

type_synonym namespace = "(str \<times> arg_value) list"

datatype arg_exit =
    HelpShown
  | AmbiguousOption str
  | ExpectedOneArgument str
  | IgnoredExplicitArgument str
  | InvalidArgument str str
  | RequiredArguments "str list"
  | UnrecognizedArguments "str list"

definition takes_value :: "arg_kind \<Rightarrow> bool" where
  "takes_value k = (case k of StoreTrue \<Rightarrow> False | ShowHelp \<Rightarrow> False | _ \<Rightarrow> True)"

type_synonym flag_table = "(str \<times> arg_action) list"

definition option_string_actions :: "arg_action list \<Rightarrow> flag_table" where
  "option_string_actions actions = concat (map (\<lambda>a. map (\<lambda>f. (f, a)) (act_flags a)) actions)"

text \<open>\<open>_get_value\<close> and \<open>_check_value\<close>.\<close>

definition get_value :: "arg_action \<Rightarrow> str \<Rightarrow> (arg_exit, arg_value) result" where
  "get_value a s = (case act_kind a of
     StoreInt \<Rightarrow> (case json_int (JStr s) of None \<Rightarrow> Inl (InvalidArgument (act_dest a) s) | Some i \<Rightarrow> Inr (IntValue i))
   | StoreDuration \<Rightarrow> (case parse_duration s of None \<Rightarrow> Inl (InvalidArgument (act_dest a) s) | Some n \<Rightarrow> Inr (IntValue (int n)))
   | StoreChoice cs \<Rightarrow> if s \<in> set cs then Inr (TextValue s) else Inl (InvalidArgument (act_dest a) s)
   | _ \<Rightarrow> Inr (TextValue s))"

definition append_item :: "arg_value option \<Rightarrow> str \<Rightarrow> arg_value" where
  "append_item old s = (case old of Some (ListValue xs) \<Rightarrow> ListValue (xs @ [s]) | _ \<Rightarrow> ListValue [s])"

text \<open>\<open>take_action\<close>: the namespace, and the actions that were seen.\<close>

definition take_action :: "arg_action \<times> str option \<Rightarrow> namespace \<times> str list \<Rightarrow> (arg_exit, namespace \<times> str list) result" where
  "take_action call st = (case call of (a, arg) \<Rightarrow> case st of (ns, seen) \<Rightarrow>
     let seen' = act_dest a # seen in
     case act_kind a of
       ShowHelp \<Rightarrow> Inl HelpShown
     | StoreTrue \<Rightarrow> Inr (AList.update (act_dest a) (BoolValue True) ns, seen')
     | AppendText \<Rightarrow> Inr (AList.update (act_dest a) (append_item (map_of ns (act_dest a)) (the arg)) ns, seen')
     | _ \<Rightarrow> res_bind (get_value a (the arg)) (\<lambda>v. Inr (AList.update (act_dest a) v ns, seen')))"

fun take_actions :: "(arg_action \<times> str option) list \<Rightarrow> namespace \<times> str list \<Rightarrow> (arg_exit, namespace \<times> str list) result" where
  "take_actions [] st = Inr st"
| "take_actions (c # cs) st = res_bind (take_action c st) (take_actions cs)"

section \<open>argparse: options\<close>

text \<open>An option found in an argument: its action, its full name, the separator and the value in the same
  argument.\<close>

type_synonym option_tuple = "arg_action option \<times> str \<times> str option \<times> str option"

definition get_option_tuples :: "flag_table \<Rightarrow> str \<Rightarrow> option_tuple list" where
  "get_option_tuples flags s =
     (if take 2 s = ''--'' then
        (case py_partition CHR ''='' s of (front, found, rest) \<Rightarrow>
         map (\<lambda>(f, a). (Some a, f, if found then Some ''='' else None, if found then Some rest else None))
           (filter (\<lambda>(f, a). py_startswith f front) flags))
      else concat (map (\<lambda>(f, a).
         if f = take 2 s then [(Some a, f, Some [], Some (drop 2 s))]
         else if py_startswith f s then [(Some a, f, None, None)] else []) flags))"

text \<open>The pattern of negative numbers, whose end also matches before a line end.\<close>

definition negative_number :: "str \<Rightarrow> bool" where
  "negative_number s =
     (let t = (if s \<noteq> [] \<and> last s = CHR 0x0A then butlast s else s) in
      t \<noteq> [] \<and> hd t = CHR ''-'' \<and>
      ((tl t \<noteq> [] \<and> list_all is_digit (tl t)) \<or>
       (case py_partition CHR ''.'' (tl t) of (a, found, b) \<Rightarrow> found \<and> list_all is_digit a \<and> b \<noteq> [] \<and> list_all is_digit b)))"

definition parse_optional :: "flag_table \<Rightarrow> str \<Rightarrow> (arg_exit, option_tuple option) result" where
  "parse_optional flags s =
     (if s = [] \<or> hd s \<noteq> CHR ''-'' then Inr None
      else case map_of flags s of
        Some a \<Rightarrow> Inr (Some (Some a, s, None, None))
      | None \<Rightarrow>
          if length s = 1 then Inr None
          else (case py_partition CHR ''='' s of (front, found, rest) \<Rightarrow>
            (case (if found then map_of flags front else None) of
               Some a \<Rightarrow> Inr (Some (Some a, front, Some ''='', Some rest))
             | None \<Rightarrow> (case get_option_tuples flags s of
                 _ # _ # _ \<Rightarrow> Inl (AmbiguousOption s)
               | [t] \<Rightarrow> Inr (Some t)
               | [] \<Rightarrow> if negative_number s then Inr None
                   else if CHR '' '' \<in> set s then Inr None
                   else Inr (Some (None, s, None, None))))))"

datatype token = OptionToken str option_tuple | ArgToken str | DashesToken

fun token_text :: "token \<Rightarrow> str" where
  "token_text (OptionToken s t) = s"
| "token_text (ArgToken s) = s"
| "token_text DashesToken = ''--''"

fun is_option :: "token \<Rightarrow> bool" where
  "is_option (OptionToken s t) = True"
| "is_option _ = False"

text \<open>The first loop of \<open>_parse_known_args\<close>.\<close>

fun tokenize :: "flag_table \<Rightarrow> str list \<Rightarrow> (arg_exit, token list) result" where
  "tokenize flags [] = Inr []"
| "tokenize flags (s # ss) =
     (if s = ''--'' then Inr (DashesToken # map ArgToken ss)
      else res_bind (parse_optional flags s) (\<lambda>t.
           res_bind (tokenize flags ss) (\<lambda>ts.
             Inr ((case t of None \<Rightarrow> ArgToken s | Some x \<Rightarrow> OptionToken s x) # ts))))"

section \<open>argparse: consuming\<close>

text \<open>The loop of \<open>consume_optional\<close> over the single-letter flags of one argument: the flags, and how the
  argument ends: with letters that are no option, with a value, or with an option whose value follows.\<close>

datatype chain_end = ChainExtra str | ChainValue arg_action str | ChainOpen arg_action

definition chain_start :: "arg_action \<Rightarrow> str \<Rightarrow> str option \<Rightarrow> str \<Rightarrow> (arg_exit, bool) result" where
  "chain_start a opt separator e =
     (if takes_value (act_kind a) then Inr True
      else if take 2 opt \<noteq> ''--'' \<and> e \<noteq> [] \<and> separator \<in> {None, Some []} \<and> hd e \<noteq> CHR ''-'' then Inr False
      else Inl (IgnoredExplicitArgument e))"

fun option_chain :: "flag_table \<Rightarrow> arg_action \<Rightarrow> str \<Rightarrow> str option \<Rightarrow> str \<Rightarrow> (arg_exit, arg_action list \<times> chain_end) result" where
  "option_chain flags a opt separator e = (case chain_start a opt separator e of
     Inl x \<Rightarrow> Inl x
   | Inr True \<Rightarrow> Inr ([], ChainValue a e)
   | Inr False \<Rightarrow> (case e of
       [] \<Rightarrow> Inl (IgnoredExplicitArgument e)
     | c # r \<Rightarrow> (case map_of flags [hd opt, c] of
         None \<Rightarrow> Inr ([a], ChainExtra (hd opt # e))
       | Some a' \<Rightarrow> (case r of
           [] \<Rightarrow> Inr ([a], ChainOpen a')
         | d # r' \<Rightarrow> map_sum id (\<lambda>(as, x). (a # as, x))
             (if d = CHR ''='' then option_chain flags a' [hd opt, c] (Some ''='') r'
              else option_chain flags a' [hd opt, c] (Some []) r)))))"

declare option_chain.simps [simp del]

text \<open>The namespace with the seen actions, the positional argument that is still expected, and the arguments
  that are not understood.\<close>

record parse_state =
  ps_taken :: "namespace \<times> str list"
  ps_positional :: "arg_action option"
  ps_extras :: "str list"

definition take_calls :: "(arg_action \<times> str option) list \<Rightarrow> parse_state \<Rightarrow> (arg_exit, parse_state) result" where
  "take_calls calls st = map_sum id (\<lambda>x. st\<lparr>ps_taken := x\<rparr>) (take_actions calls (ps_taken st))"

definition add_extras :: "str list \<Rightarrow> parse_state \<Rightarrow> parse_state" where
  "add_extras xs st = st\<lparr>ps_extras := ps_extras st @ xs\<rparr>"

text \<open>An option with its value in the next argument.\<close>

definition open_call :: "arg_action \<Rightarrow> token list \<Rightarrow> (arg_exit, (arg_action \<times> str option) \<times> token list) result" where
  "open_call a ts =
     (if \<not> takes_value (act_kind a) then Inr ((a, None), ts)
      else case ts of ArgToken s # r \<Rightarrow> Inr ((a, Some s), r) | _ \<Rightarrow> Inl (ExpectedOneArgument (act_dest a)))"

definition finish_chain ::
  "arg_action list \<times> chain_end \<Rightarrow> token list \<Rightarrow> parse_state \<Rightarrow> (arg_exit, token list \<times> parse_state) result" where
  "finish_chain chain rest st = (case chain of (as, x) \<Rightarrow>
     let front = map (\<lambda>b. (b, None)) as in
     case x of
       ChainExtra y \<Rightarrow> res_bind (take_calls front (add_extras [y] st)) (\<lambda>st'. Inr (rest, st'))
     | ChainValue b v \<Rightarrow> res_bind (take_calls (front @ [(b, Some v)]) st) (\<lambda>st'. Inr (rest, st'))
     | ChainOpen b \<Rightarrow> res_bind (open_call b rest) (\<lambda>(c, rest').
         res_bind (take_calls (front @ [c]) st) (\<lambda>st'. Inr (rest', st'))))"

definition consume_optional ::
  "flag_table \<Rightarrow> str \<Rightarrow> option_tuple \<Rightarrow> token list \<Rightarrow> parse_state \<Rightarrow> (arg_exit, token list \<times> parse_state) result" where
  "consume_optional flags s t rest st = (case t of
     (None, opt, separator, explicit) \<Rightarrow> Inr (rest, add_extras [s] st)
   | (Some a, opt, separator, None) \<Rightarrow> finish_chain ([], ChainOpen a) rest st
   | (Some a, opt, separator, Some e) \<Rightarrow> res_bind (option_chain flags a opt separator e) (\<lambda>chain. finish_chain chain rest st))"

text \<open>\<open>consume_positionals\<close> with at most one positional argument, whose pattern allows for the separator on both
  sides; its first occurrence is dropped. \<open>None\<close> where nothing is consumed.\<close>

definition match_positional :: "token list \<Rightarrow> (str list \<times> token list) option" where
  "match_positional ts = (case dropWhile (\<lambda>t. t = DashesToken) ts of
     ArgToken s # r \<Rightarrow> Some (map token_text (takeWhile (\<lambda>t. t = DashesToken) ts) @ [s] @ map token_text (takeWhile (\<lambda>t. t = DashesToken) r),
       dropWhile (\<lambda>t. t = DashesToken) r)
   | _ \<Rightarrow> None)"

definition consume_positional :: "token list \<Rightarrow> parse_state \<Rightarrow> (arg_exit, token list \<times> parse_state) result option" where
  "consume_positional ts st = (case ps_positional st of
     None \<Rightarrow> None
   | Some a \<Rightarrow> (case match_positional ts of
       None \<Rightarrow> None
     | Some (strings, rest) \<Rightarrow> Some (case remove1 ''--'' strings of
           [s] \<Rightarrow> res_bind (take_calls [(a, Some s)] st) (\<lambda>st'. Inr (rest, st'\<lparr>ps_positional := None\<rparr>))
         | ss \<Rightarrow> Inr (rest, st\<lparr>ps_positional := None, ps_taken :=
             (AList.update (act_dest a) (ListValue ss) (fst (ps_taken st)), act_dest a # snd (ps_taken st))\<rparr>))))"

lemma open_call_shorter: "open_call a ts = Inr (c, ts') \<Longrightarrow> length ts' \<le> length ts"
  by (auto simp: open_call_def split: if_splits list.splits token.splits)

lemma finish_chain_shorter: "finish_chain chain rest st = Inr (ts', st') \<Longrightarrow> length ts' \<le> length rest"
  by (cases chain; cases "snd chain") (auto simp: finish_chain_def res_bind_eq_Inr Let_def dest: open_call_shorter)

lemma consume_optional_shorter: "consume_optional flags s t rest st = Inr (ts', st') \<Longrightarrow> length ts' \<le> length rest"
  by (auto simp: consume_optional_def res_bind_eq_Inr split: prod.splits option.splits dest: finish_chain_shorter)

lemma match_positional_shorter: "match_positional ts = Some (ss, rest) \<Longrightarrow> length rest < length ts"
proof -
  assume "match_positional ts = Some (ss, rest)"
  then obtain s r where r: "dropWhile (\<lambda>t. t = DashesToken) ts = ArgToken s # r" "rest = dropWhile (\<lambda>t. t = DashesToken) r"
    by (auto simp: match_positional_def split: list.splits token.splits)
  have "length (ArgToken s # r) \<le> length ts" using length_dropWhile_le [of "\<lambda>t. t = DashesToken" ts] r(1) by simp
  then show ?thesis using r(2) length_dropWhile_le [of "\<lambda>t. t = DashesToken" r] by simp
qed

lemma consume_positional_shorter: "consume_positional ts st = Some (Inr (ts', st')) \<Longrightarrow> length ts' < length ts"
  by (auto simp: consume_positional_def res_bind_eq_Inr split: option.splits list.splits dest: match_positional_shorter)

text \<open>The main loop of \<open>_parse_known_args\<close>: while there is an option, positional arguments and options are
  consumed in turn.\<close>

function arg_loop :: "flag_table \<Rightarrow> token list \<Rightarrow> parse_state \<Rightarrow> (arg_exit, token list \<times> parse_state) result" where
  "arg_loop flags ts st =
     (if \<not> list_ex is_option ts then Inr (ts, st)
      else (case ts of
          OptionToken s t # rest \<Rightarrow> (case consume_optional flags s t rest st of
              Inl x \<Rightarrow> Inl x | Inr (ts', st') \<Rightarrow> arg_loop flags ts' st')
        | _ \<Rightarrow> (case consume_positional ts st of
              Some (Inl x) \<Rightarrow> Inl x
            | Some (Inr (ts', st')) \<Rightarrow> arg_loop flags ts' st'
            | None \<Rightarrow> arg_loop flags (dropWhile (\<lambda>t. \<not> is_option t) ts)
                (add_extras (map token_text (takeWhile (\<lambda>t. \<not> is_option t) ts)) st))))"
  by pat_completeness auto
termination
  by (relation "measure (\<lambda>(flags, ts, st). length ts)")
    (auto simp: less_Suc_eq_le length_dropWhile_le dest: consume_optional_shorter consume_positional_shorter)

declare arg_loop.simps [simp del]

text \<open>\<open>parse_args\<close>: the defaults, the loops, the positional argument after the last option, the check of the
  required arguments, and of what is left over.\<close>

definition default_namespace :: "arg_action list \<Rightarrow> namespace" where
  "default_namespace actions = concat (map (\<lambda>a. case act_kind a of
     ShowHelp \<Rightarrow> [] | StoreTrue \<Rightarrow> [(act_dest a, BoolValue False)] | _ \<Rightarrow> [(act_dest a, NoValue)]) actions)"

definition check_required :: "arg_action list \<Rightarrow> parse_state \<Rightarrow> (arg_exit, namespace) result" where
  "check_required actions st =
     (let missing = filter (\<lambda>a. act_required a \<and> act_dest a \<notin> set (snd (ps_taken st))) actions in
      if missing \<noteq> [] then Inl (RequiredArguments (map act_dest missing))
      else if ps_extras st \<noteq> [] then Inl (UnrecognizedArguments (ps_extras st))
      else Inr (fst (ps_taken st)))"

definition arg_parse :: "arg_action list \<Rightarrow> str list \<Rightarrow> (arg_exit, namespace) result" where
  "arg_parse actions argv =
     (let flags = option_string_actions actions;
          st0 = \<lparr>ps_taken = (default_namespace actions, []), ps_positional = List.find (\<lambda>a. act_flags a = []) actions, ps_extras = []\<rparr>
      in res_bind (tokenize flags argv) (\<lambda>ts.
         res_bind (arg_loop flags ts st0) (\<lambda>(ts1, st1).
         res_bind (case consume_positional ts1 st1 of None \<Rightarrow> Inr (ts1, st1) | Some r \<Rightarrow> r) (\<lambda>(ts2, st2).
           check_required actions (add_extras (map token_text ts2) st2)))))"

section \<open>The parsers (server/app/cli.py, relay/cli.py)\<close>

definition add_argument :: "str \<Rightarrow> str list \<Rightarrow> arg_kind \<Rightarrow> bool \<Rightarrow> arg_action" where
  "add_argument d flags k req = \<lparr>act_dest = d, act_flags = flags, act_kind = k, act_required = req\<rparr>"

definition help_action :: arg_action where
  "help_action = add_argument ''help'' [''-h'', ''--help''] ShowHelp False"

definition build_parser :: "arg_action list" where
  "build_parser = [help_action,
     add_argument ''folder'' [] StoreText True,
     add_argument ''port'' [''--port'', ''-p''] StoreInt False,
     add_argument ''host'' [''--host''] StoreText False,
     add_argument ''password'' [''--password''] StoreText False,
     add_argument ''read_only'' [''--read-only''] StoreTrue False,
     add_argument ''receive'' [''--receive''] StoreTrue False]"

definition build_mount_parser :: "arg_action list" where
  "build_mount_parser = [help_action,
     add_argument ''folder'' [] StoreText True,
     add_argument ''server'' [''--server''] StoreText True,
     add_argument ''name'' [''--name''] StoreText False,
     add_argument ''password'' [''--password''] StoreText False,
     add_argument ''ttl_seconds'' [''--ttl''] StoreDuration False,
     add_argument ''login'' [''--login''] StoreText False,
     add_argument ''password_stdin'' [''--password-stdin''] StoreTrue False,
     add_argument ''access_mode'' [''--access-mode''] (StoreChoice [''open'', ''restricted'']) False,
     add_argument ''allow'' [''--allow''] AppendText False]"

record lan_namespace =
  ns_folder :: str
  ns_port :: "int option"
  ns_host :: "str option"
  ns_password :: "str option"
  ns_read_only :: bool
  ns_receive :: bool

record mount_namespace =
  mn_folder :: str
  mn_server :: str
  mn_name :: "str option"
  mn_password :: "str option"
  mn_ttl_seconds :: "int option"
  mn_login :: "str option"
  mn_password_stdin :: bool
  mn_access_mode :: "str option"
  mn_allow :: "str list option"

datatype parsed_args = MountArgs mount_namespace | LanArgs lan_namespace

text \<open>Attributes of the namespace.\<close>

definition text_attr :: "namespace \<Rightarrow> str \<Rightarrow> str option" where
  "text_attr ns d = (case map_of ns d of Some (TextValue s) \<Rightarrow> Some s | _ \<Rightarrow> None)"

definition int_attr :: "namespace \<Rightarrow> str \<Rightarrow> int option" where
  "int_attr ns d = (case map_of ns d of Some (IntValue i) \<Rightarrow> Some i | _ \<Rightarrow> None)"

definition list_attr :: "namespace \<Rightarrow> str \<Rightarrow> str list option" where
  "list_attr ns d = (case map_of ns d of Some (ListValue xs) \<Rightarrow> Some xs | _ \<Rightarrow> None)"

definition bool_attr :: "namespace \<Rightarrow> str \<Rightarrow> bool" where
  "bool_attr ns d = (map_of ns d = Some (BoolValue True))"

definition lan_attrs :: "namespace \<Rightarrow> lan_namespace" where
  "lan_attrs ns = \<lparr>ns_folder = the (text_attr ns ''folder''), ns_port = int_attr ns ''port'', ns_host = text_attr ns ''host'',
     ns_password = text_attr ns ''password'', ns_read_only = bool_attr ns ''read_only'', ns_receive = bool_attr ns ''receive''\<rparr>"

definition mount_attrs :: "namespace \<Rightarrow> mount_namespace" where
  "mount_attrs ns = \<lparr>mn_folder = the (text_attr ns ''folder''), mn_server = the (text_attr ns ''server''),
     mn_name = text_attr ns ''name'', mn_password = text_attr ns ''password'', mn_ttl_seconds = int_attr ns ''ttl_seconds'',
     mn_login = text_attr ns ''login'', mn_password_stdin = bool_attr ns ''password_stdin'',
     mn_access_mode = text_attr ns ''access_mode'', mn_allow = list_attr ns ''allow''\<rparr>"

definition parse_args :: "str list \<Rightarrow> (arg_exit, parsed_args) result" where
  "parse_args argv = (case parse_command argv of
     MountCommand rest \<Rightarrow> map_sum id (\<lambda>ns. MountArgs (mount_attrs ns)) (arg_parse build_mount_parser rest)
   | LanCommand rest \<Rightarrow> map_sum id (\<lambda>ns. LanArgs (lan_attrs ns)) (arg_parse build_parser rest))"

definition run_with_defaults :: "str \<Rightarrow> (arg_exit, parsed_args) result" where
  "run_with_defaults folder = parse_args [folder]"

definition relay_parser :: "arg_action list" where
  "relay_parser = [help_action, add_argument ''host'' [''--host''] StoreText False, add_argument ''port'' [''--port''] StoreInt False]"

datatype relay_exit = RelayUsage arg_exit | RelaySettings config_exn

definition relay_cli :: "str list \<Rightarrow> environ \<Rightarrow> (relay_exit, str \<times> int \<times> RelayEnv) result" where
  "relay_cli argv env = res_bind (map_sum RelayUsage id (arg_parse relay_parser argv)) (\<lambda>ns.
     map_sum RelaySettings id (relay_main (text_attr ns ''host'') (int_attr ns ''port'') env))"

section \<open>What is typed\<close>

text \<open>An option with its value in the next argument, with its value after an equals sign, or a flag.\<close>

datatype typed = Spaced str str | Joined str str | Bare str

fun typed_text :: "typed \<Rightarrow> str list" where
  "typed_text (Spaced f v) = [f, v]"
| "typed_text (Joined f v) = [f @ CHR ''='' # v]"
| "typed_text (Bare f) = [f]"

fun typed_flag :: "typed \<Rightarrow> str" where
  "typed_flag (Spaced f v) = f"
| "typed_flag (Joined f v) = f"
| "typed_flag (Bare f) = f"

fun typed_value :: "typed \<Rightarrow> str option" where
  "typed_value (Spaced f v) = Some v"
| "typed_value (Joined f v) = Some v"
| "typed_value (Bare f) = None"

text \<open>An argument that is not taken for an option; one that does not start with a dash never is.\<close>

definition plain_arg :: "flag_table \<Rightarrow> str \<Rightarrow> bool" where
  "plain_arg flags v \<longleftrightarrow> v \<noteq> ''--'' \<and> parse_optional flags v = Inr None"

definition typed_ok :: "flag_table \<Rightarrow> typed \<Rightarrow> bool" where
  "typed_ok flags t \<longleftrightarrow> (case map_of flags (typed_flag t) of
     None \<Rightarrow> False
   | Some a \<Rightarrow> takes_value (act_kind a) = (typed_value t \<noteq> None)) \<and> (case t of Spaced f v \<Rightarrow> plain_arg flags v | _ \<Rightarrow> True)"

definition typed_call :: "flag_table \<Rightarrow> typed \<Rightarrow> arg_action \<times> str option" where
  "typed_call flags t = (the (map_of flags (typed_flag t)), typed_value t)"

definition flags_ok :: "flag_table \<Rightarrow> bool" where
  "flags_ok flags = list_all (\<lambda>(f, a). f \<noteq> [] \<and> hd f = CHR ''-'' \<and> f \<noteq> ''--'' \<and> CHR ''='' \<notin> set f) flags"

lemma plain_argI: "v = [] \<or> hd v \<noteq> CHR ''-'' \<Longrightarrow> plain_arg flags v"
  by (auto simp: plain_arg_def parse_optional_def)

fun typed_tokens :: "flag_table \<Rightarrow> typed \<Rightarrow> token list" where
  "typed_tokens flags (Spaced f v) = [OptionToken f (map_of flags f, f, None, None), ArgToken v]"
| "typed_tokens flags (Joined f v) = [OptionToken (f @ CHR ''='' # v) (map_of flags f, f, Some ''='', Some v)]"
| "typed_tokens flags (Bare f) = [OptionToken f (map_of flags f, f, None, None)]"

lemma flag_shape:
  assumes "flags_ok flags" and "map_of flags f = Some a"
  shows "f \<noteq> []" "hd f = CHR ''-''" "f \<noteq> ''--''" "CHR ''='' \<notin> set f"
  using assms(1) map_of_SomeD [OF assms(2)] by (auto simp: flags_ok_def list_all_iff)

lemma optional_exact:
  assumes "flags_ok flags" and "map_of flags f = Some a"
  shows "parse_optional flags f = Inr (Some (Some a, f, None, None))"
  using assms flag_shape [OF assms] by (simp add: parse_optional_def)

lemma optional_joined:
  assumes "flags_ok flags" and "map_of flags f = Some a"
  shows "parse_optional flags (f @ CHR ''='' # v) = Inr (Some (Some a, f, Some ''='', Some v))"
proof -
  note f = flag_shape [OF assms]
  have "map_of flags (f @ CHR ''='' # v) = None"
    using flag_shape(4) [OF assms(1), of "f @ CHR ''='' # v"] by (cases "map_of flags (f @ CHR ''='' # v)") auto
  moreover have "length (f @ CHR ''='' # v) \<noteq> 1" using f(1) by simp
  ultimately show ?thesis using f assms(2) partition_append [OF f(4), of v] by (simp add: parse_optional_def)
qed

lemma tokenize_typed:
  assumes "flags_ok flags" and "typed_ok flags t"
  shows "tokenize flags (typed_text t @ rest) = map_sum id (\<lambda>ts. typed_tokens flags t @ ts) (tokenize flags rest)"
proof -
  obtain a where a: "map_of flags (typed_flag t) = Some a" using assms(2) by (auto simp: typed_ok_def split: option.splits)
  note f = flag_shape [OF assms(1) a]
  have j: "typed_flag t @ CHR ''='' # v \<noteq> ''--''" for v
    using f(1,2) by (cases "typed_flag t"; cases "tl (typed_flag t)") auto
  show ?thesis
    using optional_exact [OF assms(1) a] optional_joined [OF assms(1) a] f(3) a j assms(2)
    by (cases t; cases "tokenize flags rest") (simp_all add: plain_arg_def typed_ok_def res_bind_def)
qed

lemma tokenize_all:
  assumes "flags_ok flags" and "\<forall>t \<in> set ts. typed_ok flags t"
  shows "tokenize flags (concat (map typed_text ts) @ rest) =
    map_sum id (\<lambda>r. concat (map (typed_tokens flags) ts) @ r) (tokenize flags rest)"
  using assms(2)
proof (induction ts)
  case (Cons t ts)
  then show ?case using tokenize_typed [OF assms(1), of t "concat (map typed_text ts) @ rest"]
    by (cases "tokenize flags rest") simp_all
qed (cases "tokenize flags rest"; simp)

lemma take_actions_append: "take_actions (cs @ ds) x = res_bind (take_actions cs x) (take_actions ds)"
  by (induction cs arbitrary: x) (simp_all add: res_bind_def split: sum.split)

lemma take_calls_append: "take_calls (cs @ ds) st = res_bind (take_calls cs st) (take_calls ds)"
  by (simp add: take_calls_def take_actions_append res_bind_def split: sum.split)

lemma take_calls_Nil [simp]: "take_calls [] st = Inr st"
  by (simp add: take_calls_def)

lemma loop_typed:
  assumes "typed_ok flags t"
  shows "arg_loop flags (typed_tokens flags t @ ts) st = res_bind (take_calls [typed_call flags t] st) (arg_loop flags ts)"
proof -
  obtain a where a: "map_of flags (typed_flag t) = Some a" "takes_value (act_kind a) = (typed_value t \<noteq> None)"
    using assms by (auto simp: typed_ok_def split: option.splits)
  then show ?thesis
    by (cases t; subst arg_loop.simps)
      (auto simp: consume_optional_def finish_chain_def open_call_def option_chain.simps chain_start_def typed_call_def res_bind_def split: sum.split)
qed

lemma loop_all:
  assumes "\<forall>t \<in> set ts. typed_ok flags t"
  shows "arg_loop flags (concat (map (typed_tokens flags) ts) @ rest) st =
    res_bind (take_calls (map (typed_call flags) ts) st) (arg_loop flags rest)"
  using assms
proof (induction ts arbitrary: st)
  case (Cons t ts)
  then show ?case using take_calls_append [of "[typed_call flags t]" "map (typed_call flags) ts" st]
    by (simp add: loop_typed res_bind_def split: sum.split)
qed (simp add: res_bind_def)

lemma loop_folder:
  assumes "ps_positional st = Some a" and "folder \<noteq> ''--''" and "is_option (hd ts)" and "ts \<noteq> []"
  shows "arg_loop flags (ArgToken folder # ts) st =
    res_bind (take_calls [(a, Some folder)] st) (\<lambda>st'. arg_loop flags ts (st'\<lparr>ps_positional := None\<rparr>))"
proof -
  obtain s t ts' where ts: "ts = OptionToken s t # ts'" using assms(3,4) by (cases ts; cases "hd ts") auto
  have "consume_positional (ArgToken folder # ts) st =
      Some (res_bind (take_calls [(a, Some folder)] st) (\<lambda>st'. Inr (ts, st'\<lparr>ps_positional := None\<rparr>)))"
    using assms(1,2) by (simp add: consume_positional_def match_positional_def ts)
  then show ?thesis by (subst arg_loop.simps) (auto simp: ts res_bind_def split: sum.split)
qed

lemma typed_tokens_option: "typed_tokens flags t \<noteq> [] \<and> is_option (hd (typed_tokens flags t))"
  by (cases t) simp_all

lemma take_calls_fields:
  assumes "take_calls cs st = Inr st'"
  shows "ps_positional st' = ps_positional st" "ps_extras st' = ps_extras st" "take_actions cs (ps_taken st) = Inr (ps_taken st')"
    "st' = st\<lparr>ps_taken := ps_taken st'\<rparr>"
  using assms by (auto simp: take_calls_def map_sum_def split: sum.splits)

lemma take_calls_positional:
  "take_calls cs (st\<lparr>ps_positional := p\<rparr>) = map_sum id (\<lambda>st'. st'\<lparr>ps_positional := p\<rparr>) (take_calls cs st)"
  by (cases "take_actions cs (ps_taken st)") (simp_all add: take_calls_def)

lemma finish_folder:
  assumes typed: "\<forall>t \<in> set ts. typed_ok flags t" and folder: "folder \<noteq> ''--''" and p: "ps_positional st = Some a"
  shows "res_bind (arg_loop flags (ArgToken folder # concat (map (typed_tokens flags) ts)) st) (\<lambda>(ts1, st1).
      case consume_positional ts1 st1 of None \<Rightarrow> Inr (ts1, st1) | Some r \<Rightarrow> r) =
    res_bind (take_calls ((a, Some folder) # map (typed_call flags) ts) st) (\<lambda>st'. Inr ([], st'\<lparr>ps_positional := None\<rparr>))"
proof (cases ts)
  case Nil
  have "consume_positional [ArgToken folder] st =
      Some (res_bind (take_calls [(a, Some folder)] st) (\<lambda>st'. Inr ([], st'\<lparr>ps_positional := None\<rparr>)))"
    using p folder by (auto simp: consume_positional_def match_positional_def)
  then show ?thesis using Nil by (subst arg_loop.simps) (auto simp: res_bind_def split: sum.split)
next
  case (Cons t ts')
  let ?tk = "concat (map (typed_tokens flags) ts)"
  have h: "is_option (hd ?tk)" "?tk \<noteq> []" using Cons typed_tokens_option [of flags t] by (cases "typed_tokens flags t"; simp)+
  have "arg_loop flags (ArgToken folder # ?tk) st =
      res_bind (take_calls [(a, Some folder)] st) (\<lambda>st'. arg_loop flags (?tk @ []) (st'\<lparr>ps_positional := None\<rparr>))"
    using loop_folder [OF p folder h] by simp
  also have "\<dots> = res_bind (take_calls ((a, Some folder) # map (typed_call flags) ts) st) (\<lambda>st'. Inr ([], st'\<lparr>ps_positional := None\<rparr>))"
    using take_calls_append [of "[(a, Some folder)]" "map (typed_call flags) ts" st]
    by (simp add: loop_all [OF typed] take_calls_positional arg_loop.simps [of _ "[]"] res_bind_def del: append_Nil2 split: sum.split)
  finally show ?thesis by (auto simp: res_bind_def consume_positional_def split: sum.split)
qed

text \<open>The parser works through what is typed from left to right, the folder wherever it stands among the
  options.\<close>

lemma arg_parse_typed:
  assumes ok: "flags_ok (option_string_actions actions)"
    and typed: "\<forall>t \<in> set (ts1 @ ts2). typed_ok (option_string_actions actions) t"
    and folder: "plain_arg (option_string_actions actions) folder"
    and pos: "List.find (\<lambda>a. act_flags a = []) actions = Some a"
  shows "arg_parse actions (concat (map typed_text ts1) @ folder # concat (map typed_text ts2)) =
    res_bind (take_actions (map (typed_call (option_string_actions actions)) ts1 @ (a, Some folder) #
        map (typed_call (option_string_actions actions)) ts2) (default_namespace actions, []))
      (\<lambda>x. check_required actions \<lparr>ps_taken = x, ps_positional = None, ps_extras = []\<rparr>)"
proof -
  let ?F = "option_string_actions actions"
  let ?tk = "\<lambda>ts. concat (map (typed_tokens ?F) ts)" and ?cs = "map (typed_call ?F)"
  let ?st = "\<lparr>ps_taken = (default_namespace actions, []), ps_positional = Some a, ps_extras = []\<rparr>"
  let ?fin = "\<lambda>(ts, st). check_required actions (add_extras (map token_text ts) st)"
  have t: "\<forall>t \<in> set ts1. typed_ok ?F t" "\<forall>t \<in> set ts2. typed_ok ?F t" using typed by auto
  have "tokenize ?F (concat (map typed_text ts2)) = Inr (?tk ts2)" using tokenize_all [OF ok t(2), of "[]"] by simp
  then have tok: "tokenize ?F (concat (map typed_text ts1) @ folder # concat (map typed_text ts2)) = Inr (?tk ts1 @ ArgToken folder # ?tk ts2)"
    using folder by (simp add: tokenize_all [OF ok t(1)] plain_arg_def res_bind_def)
  have "arg_parse actions (concat (map typed_text ts1) @ folder # concat (map typed_text ts2)) =
      res_bind (take_calls (?cs ts1) ?st) (\<lambda>st. res_bind (res_bind (arg_loop ?F (ArgToken folder # ?tk ts2) st) (\<lambda>(ts', st').
        case consume_positional ts' st' of None \<Rightarrow> Inr (ts', st') | Some r \<Rightarrow> r)) ?fin)"
    by (simp add: arg_parse_def Let_def tok pos loop_all [OF t(1)] res_bind_def split: sum.split)
  also have "\<dots> = res_bind (take_calls (?cs ts1 @ (a, Some folder) # ?cs ts2) ?st) (\<lambda>st'. ?fin ([], st'\<lparr>ps_positional := None\<rparr>))"
  proof (cases "take_calls (?cs ts1) ?st")
    case (Inr st')
    then have "ps_positional st' = Some a" using take_calls_fields(1) [OF Inr] by simp
    then show ?thesis using Inr finish_folder [OF t(2), of folder st' a] folder
      by (simp add: take_calls_append res_bind_def plain_arg_def split: sum.split)
  qed (simp add: take_calls_append res_bind_def)
  finally show ?thesis by (simp add: take_calls_def add_extras_def res_bind_def split: sum.split)
qed

section \<open>The namespace\<close>

text \<open>The values that are typed for an option, and the last one of them.\<close>

definition given_values :: "str \<Rightarrow> typed list \<Rightarrow> str list" where
  "given_values f ts = List.map_filter (\<lambda>t. if typed_flag t = f then typed_value t else None) ts"

definition latest :: "str \<Rightarrow> typed list \<Rightarrow> str option" where
  "latest f ts = (if given_values f ts = [] then None else Some (last (given_values f ts)))"

definition call_value :: "arg_action \<times> str option \<Rightarrow> arg_value option \<Rightarrow> arg_value option" where
  "call_value c old = (case c of (a, arg) \<Rightarrow> case act_kind a of
     StoreTrue \<Rightarrow> Some (BoolValue True)
   | AppendText \<Rightarrow> Some (append_item old (the arg))
   | _ \<Rightarrow> (case get_value a (the arg) of Inl e \<Rightarrow> old | Inr v \<Rightarrow> Some v))"

definition call_ok :: "arg_action \<times> str option \<Rightarrow> bool" where
  "call_ok c = (case c of (a, arg) \<Rightarrow> case act_kind a of
     ShowHelp \<Rightarrow> False | StoreTrue \<Rightarrow> True | AppendText \<Rightarrow> True | _ \<Rightarrow> \<not> isl (get_value a (the arg)))"

definition fold_value :: "str \<Rightarrow> (arg_action \<times> str option) list \<Rightarrow> arg_value option \<Rightarrow> arg_value option" where
  "fold_value d cs old = foldl (\<lambda>v c. if act_dest (fst c) = d then call_value c v else v) old cs"

lemma fold_value_append: "fold_value d (cs @ ds) old = fold_value d ds (fold_value d cs old)"
  by (simp add: fold_value_def)

lemma fold_value_Cons: "fold_value d (c # cs) old = fold_value d cs (if act_dest (fst c) = d then call_value c old else old)"
  by (simp add: fold_value_def)

lemma fold_value_Nil: "fold_value d [] old = old"
  by (simp add: fold_value_def)

lemma take_action_value:
  assumes "call_ok c"
  shows "\<exists>ns'. take_action c (ns, seen) = Inr (ns', act_dest (fst c) # seen) \<and>
    (\<forall>d. map_of ns' d = (if act_dest (fst c) = d then call_value c (map_of ns d) else map_of ns d))"
proof -
  obtain a arg where c: "c = (a, arg)" by (cases c)
  have g: "\<exists>v. get_value a (the arg) = Inr v" if "\<not> isl (get_value a (the arg))"
    using that by (cases "get_value a (the arg)") auto
  show ?thesis
    using assms g by (cases "act_kind a") (auto simp: c call_ok_def take_action_def call_value_def update_conv' res_bind_def)
qed

lemma take_actions_value:
  assumes "list_all call_ok cs"
  shows "\<exists>ns'. take_actions cs (ns, seen) = Inr (ns', rev (map (\<lambda>c. act_dest (fst c)) cs) @ seen) \<and>
    (\<forall>d. map_of ns' d = fold_value d cs (map_of ns d))"
  using assms
proof (induction cs arbitrary: ns seen)
  case (Cons c cs)
  then obtain ns1 where n: "take_action c (ns, seen) = Inr (ns1, act_dest (fst c) # seen)"
    "\<forall>d. map_of ns1 d = (if act_dest (fst c) = d then call_value c (map_of ns d) else map_of ns d)"
    using take_action_value [of c ns seen] by auto
  from Cons.IH [of ns1 "act_dest (fst c) # seen"] Cons.prems n show ?case by (auto simp: fold_value_Cons res_bind_def)
qed (simp add: fold_value_Nil)

lemma given_values_append: "given_values f (ts @ us) = given_values f ts @ given_values f us"
  by (simp add: given_values_def List.map_filter_def)

lemma given_values_single: "given_values f [t] = (if typed_flag t = f then (case typed_value t of None \<Rightarrow> [] | Some v \<Rightarrow> [v]) else [])"
  by (simp add: given_values_def map_filter_simps split: option.split)

lemma stored_value:
  assumes "\<And>t. t \<in> set ts \<Longrightarrow> act_dest (fst (call t)) = d \<longleftrightarrow> typed_flag t = f"
    and "\<And>t old. t \<in> set ts \<Longrightarrow> typed_flag t = f \<Longrightarrow> \<exists>v. typed_value t = Some v \<and> call_value (call t) old = Some (g v)"
  shows "fold_value d (map call ts) old = (case latest f ts of None \<Rightarrow> old | Some v \<Rightarrow> Some (g v))"
  using assms
proof (induction ts rule: rev_induct)
  case (snoc t ts)
  then have IH: "fold_value d (map call ts) old = (case latest f ts of None \<Rightarrow> old | Some v \<Rightarrow> Some (g v))" by simp
  have d: "act_dest (fst (call t)) = d \<longleftrightarrow> typed_flag t = f" using snoc.prems(1) by simp
  show ?case
  proof (cases "typed_flag t = f")
    case True
    obtain v where v: "typed_value t = Some v" "call_value (call t) (fold_value d (map call ts) old) = Some (g v)"
      using snoc.prems(2) [of t "fold_value d (map call ts) old"] True by auto
    then show ?thesis using True d by (simp add: fold_value_append fold_value_Cons fold_value_Nil latest_def given_values_append given_values_single)
  next
    case False
    then show ?thesis using d IH by (simp add: fold_value_append fold_value_Cons fold_value_Nil latest_def given_values_append given_values_single)
  qed
qed (simp add: fold_value_Nil latest_def given_values_def map_filter_simps)

lemma appended_values:
  assumes "\<And>t. t \<in> set ts \<Longrightarrow> act_dest (fst (call t)) = d \<longleftrightarrow> typed_flag t = f"
    and "\<And>t old. t \<in> set ts \<Longrightarrow> typed_flag t = f \<Longrightarrow> \<exists>v. typed_value t = Some v \<and> call_value (call t) old = Some (append_item old v)"
  shows "fold_value d (map call ts) (Some NoValue) = Some (if given_values f ts = [] then NoValue else ListValue (given_values f ts))"
  using assms
proof (induction ts rule: rev_induct)
  case (snoc t ts)
  then have IH: "fold_value d (map call ts) (Some NoValue) = Some (if given_values f ts = [] then NoValue else ListValue (given_values f ts))" by simp
  have d: "act_dest (fst (call t)) = d \<longleftrightarrow> typed_flag t = f" using snoc.prems(1) by simp
  show ?case
  proof (cases "typed_flag t = f")
    case True
    obtain v where v: "typed_value t = Some v"
      "call_value (call t) (fold_value d (map call ts) (Some NoValue)) = Some (append_item (fold_value d (map call ts) (Some NoValue)) v)"
      using snoc.prems(2) [of t "fold_value d (map call ts) (Some NoValue)"] True by auto
    then show ?thesis using True d IH
      by (simp add: fold_value_append fold_value_Cons fold_value_Nil given_values_append given_values_single append_item_def)
  next
    case False
    then show ?thesis using d IH by (simp add: fold_value_append fold_value_Cons fold_value_Nil given_values_append given_values_single)
  qed
qed (simp add: fold_value_Nil given_values_def map_filter_simps)

lemma raised_flag:
  assumes "\<And>t. t \<in> set ts \<Longrightarrow> act_dest (fst (call t)) = d \<longleftrightarrow> typed_flag t = f"
    and "\<And>t old. t \<in> set ts \<Longrightarrow> typed_flag t = f \<Longrightarrow> call_value (call t) old = Some (BoolValue True)"
  shows "fold_value d (map call ts) old = (if f \<in> typed_flag ` set ts then Some (BoolValue True) else old)"
  using assms
proof (induction ts rule: rev_induct)
  case (snoc t ts)
  then have "fold_value d (map call ts) old = (if f \<in> typed_flag ` set ts then Some (BoolValue True) else old)" by simp
  then show ?case using snoc.prems [of t] by (auto simp: fold_value_append fold_value_Cons fold_value_Nil)
qed (simp add: fold_value_Nil)

section \<open>The mount command\<close>

abbreviation mount_flags :: flag_table where
  "mount_flags \<equiv> option_string_actions build_mount_parser"

text \<open>An option of the mount command with a value that its type accepts.\<close>

definition mount_option :: "typed \<Rightarrow> bool" where
  "mount_option t \<longleftrightarrow> typed_ok mount_flags t \<and> typed_flag t \<noteq> ''-h'' \<and> typed_flag t \<noteq> ''--help'' \<and>
     (typed_flag t = ''--ttl'' \<longrightarrow> parse_duration (the (typed_value t)) \<noteq> None) \<and>
     (typed_flag t = ''--access-mode'' \<longrightarrow> the (typed_value t) \<in> {''open'', ''restricted''})"

lemma mount_flags_list:
  "mount_flags = [(''-h'', help_action), (''--help'', help_action),
     (''--server'', add_argument ''server'' [''--server''] StoreText True),
     (''--name'', add_argument ''name'' [''--name''] StoreText False),
     (''--password'', add_argument ''password'' [''--password''] StoreText False),
     (''--ttl'', add_argument ''ttl_seconds'' [''--ttl''] StoreDuration False),
     (''--login'', add_argument ''login'' [''--login''] StoreText False),
     (''--password-stdin'', add_argument ''password_stdin'' [''--password-stdin''] StoreTrue False),
     (''--access-mode'', add_argument ''access_mode'' [''--access-mode''] (StoreChoice [''open'', ''restricted'']) False),
     (''--allow'', add_argument ''allow'' [''--allow''] AppendText False)]"
  by (simp add: option_string_actions_def build_mount_parser_def help_action_def add_argument_def)

lemma mount_flags_ok: "flags_ok mount_flags"
  by (simp add: mount_flags_list flags_ok_def)

lemma mount_option_cases:
  assumes "mount_option t"
  obtains (server) v where "typed_flag t = ''--server''" "typed_value t = Some v" "typed_call mount_flags t = (add_argument ''server'' [''--server''] StoreText True, Some v)"
  | (name) v where "typed_flag t = ''--name''" "typed_value t = Some v" "typed_call mount_flags t = (add_argument ''name'' [''--name''] StoreText False, Some v)"
  | (password) v where "typed_flag t = ''--password''" "typed_value t = Some v" "typed_call mount_flags t = (add_argument ''password'' [''--password''] StoreText False, Some v)"
  | (ttl) v n where "typed_flag t = ''--ttl''" "typed_value t = Some v" "parse_duration v = Some n" "typed_call mount_flags t = (add_argument ''ttl_seconds'' [''--ttl''] StoreDuration False, Some v)"
  | (login) v where "typed_flag t = ''--login''" "typed_value t = Some v" "typed_call mount_flags t = (add_argument ''login'' [''--login''] StoreText False, Some v)"
  | (stdin) "typed_flag t = ''--password-stdin''" "typed_value t = None" "typed_call mount_flags t = (add_argument ''password_stdin'' [''--password-stdin''] StoreTrue False, None)"
  | (mode) v where "typed_flag t = ''--access-mode''" "typed_value t = Some v" "v \<in> {''open'', ''restricted''}"
      "typed_call mount_flags t = (add_argument ''access_mode'' [''--access-mode''] (StoreChoice [''open'', ''restricted'']) False, Some v)"
  | (allow) v where "typed_flag t = ''--allow''" "typed_value t = Some v" "typed_call mount_flags t = (add_argument ''allow'' [''--allow''] AppendText False, Some v)"
proof -
  have "\<exists>a. map_of mount_flags (typed_flag t) = Some a \<and> takes_value (act_kind a) = (typed_value t \<noteq> None)"
    using assms by (auto simp: mount_option_def typed_ok_def split: option.splits)
  then show ?thesis
    using assms that
    by (auto simp: mount_option_def mount_flags_list typed_call_def takes_value_def add_argument_def split: if_splits)
qed

lemma mount_dest:
  assumes "mount_option t"
  shows "act_dest (fst (typed_call mount_flags t)) = ''server'' \<longleftrightarrow> typed_flag t = ''--server''"
    and "act_dest (fst (typed_call mount_flags t)) = ''name'' \<longleftrightarrow> typed_flag t = ''--name''"
    and "act_dest (fst (typed_call mount_flags t)) = ''password'' \<longleftrightarrow> typed_flag t = ''--password''"
    and "act_dest (fst (typed_call mount_flags t)) = ''ttl_seconds'' \<longleftrightarrow> typed_flag t = ''--ttl''"
    and "act_dest (fst (typed_call mount_flags t)) = ''login'' \<longleftrightarrow> typed_flag t = ''--login''"
    and "act_dest (fst (typed_call mount_flags t)) = ''password_stdin'' \<longleftrightarrow> typed_flag t = ''--password-stdin''"
    and "act_dest (fst (typed_call mount_flags t)) = ''access_mode'' \<longleftrightarrow> typed_flag t = ''--access-mode''"
    and "act_dest (fst (typed_call mount_flags t)) = ''allow'' \<longleftrightarrow> typed_flag t = ''--allow''"
    and "act_dest (fst (typed_call mount_flags t)) \<noteq> ''folder''"
  using assms by (cases t rule: mount_option_cases; simp add: add_argument_def)+

lemma mount_call_ok: "mount_option t \<Longrightarrow> call_ok (typed_call mount_flags t)"
  by (cases t rule: mount_option_cases) (auto simp: call_ok_def get_value_def add_argument_def)

lemma mount_text:
  assumes "mount_option t" and "typed_flag t \<in> {''--server'', ''--name'', ''--password'', ''--login'', ''--access-mode''}"
  shows "\<exists>v. typed_value t = Some v \<and> call_value (typed_call mount_flags t) old = Some (TextValue v)"
  using assms by (cases t rule: mount_option_cases) (auto simp: call_value_def get_value_def add_argument_def)

lemma mount_ttl:
  assumes "mount_option t" and "typed_flag t = ''--ttl''"
  shows "\<exists>v. typed_value t = Some v \<and> call_value (typed_call mount_flags t) old = Some (IntValue (int (the (parse_duration v))))"
  using assms by (cases t rule: mount_option_cases) (auto simp: call_value_def get_value_def add_argument_def)

lemma mount_allow_stdin:
  assumes "mount_option t"
  shows "typed_flag t = ''--allow'' \<Longrightarrow> \<exists>v. typed_value t = Some v \<and> call_value (typed_call mount_flags t) old = Some (append_item old v)"
    and "typed_flag t = ''--password-stdin'' \<Longrightarrow> call_value (typed_call mount_flags t) old = Some (BoolValue True)"
  using assms by (cases t rule: mount_option_cases; auto simp: call_value_def add_argument_def)+

text \<open>What the user types is what the agent is started with, in whatever order: the last value of each option,
  and every \<open>--allow\<close> in order.\<close>

definition mount_settings :: "str \<Rightarrow> typed list \<Rightarrow> mount_namespace" where
  "mount_settings folder ts = \<lparr>mn_folder = folder, mn_server = the (latest ''--server'' ts), mn_name = latest ''--name'' ts,
     mn_password = latest ''--password'' ts, mn_ttl_seconds = map_option (\<lambda>v. int (the (parse_duration v))) (latest ''--ttl'' ts),
     mn_login = latest ''--login'' ts, mn_password_stdin = (''--password-stdin'' \<in> typed_flag ` set ts),
     mn_access_mode = latest ''--access-mode'' ts,
     mn_allow = (if given_values ''--allow'' ts = [] then None else Some (given_values ''--allow'' ts))\<rparr>"

lemma mount_attrs_typed:
  assumes opts: "list_all mount_option (ts1 @ ts2)"
    and ns: "\<forall>d. map_of ns d = fold_value d (map (typed_call mount_flags) ts1 @ (add_argument ''folder'' [] StoreText True, Some folder) #
      map (typed_call mount_flags) ts2) (map_of (default_namespace build_mount_parser) d)"
    and server: "latest ''--server'' (ts1 @ ts2) \<noteq> None"
  shows "mount_attrs ns = mount_settings folder (ts1 @ ts2)"
proof -
  let ?ts = "ts1 @ ts2" and ?c = "typed_call mount_flags" and ?def = "map_of (default_namespace build_mount_parser)"
  have o: "mount_option t" if "t \<in> set ?ts" for t using opts that by (auto simp: list_all_iff)
  note dest = mount_dest [OF o]
  have skip: "map_of ns d = fold_value d (map ?c ?ts) (?def d)" if "d \<noteq> ''folder''" for d
    using ns that by (simp add: fold_value_append fold_value_Cons add_argument_def)
  have none: "?def d = Some NoValue" if "d \<in> {''server'', ''name'', ''password'', ''ttl_seconds'', ''login'', ''access_mode'', ''allow''}" for d
    using that by (auto simp: default_namespace_def build_mount_parser_def help_action_def add_argument_def)
  have stdin: "?def ''password_stdin'' = Some (BoolValue False)"
    by (simp add: default_namespace_def build_mount_parser_def help_action_def add_argument_def)
  have folder: "map_of ns ''folder'' = Some (TextValue folder)"
  proof -
    have "fold_value ''folder'' (map ?c us) old = old" if "set us \<subseteq> set ?ts" for us old
      using that dest(9) by (induction us arbitrary: old) (auto simp: fold_value_Cons fold_value_Nil)
    then show ?thesis using ns by (simp add: fold_value_append fold_value_Cons add_argument_def call_value_def get_value_def)
  qed
  have tx: "text_attr ns d = latest f ?ts" if "d \<noteq> ''folder''" "?def d = Some NoValue"
    "fold_value d (map ?c ?ts) (?def d) = (case latest f ?ts of None \<Rightarrow> ?def d | Some v \<Rightarrow> Some (TextValue v))" for d f
    using that by (simp add: text_attr_def skip split: option.split)
  note st = stored_value [where call = ?c and ts = ?ts and g = TextValue]
  have texts: "text_attr ns ''server'' = latest ''--server'' ?ts" "text_attr ns ''name'' = latest ''--name'' ?ts"
    "text_attr ns ''password'' = latest ''--password'' ?ts" "text_attr ns ''login'' = latest ''--login'' ?ts"
    "text_attr ns ''access_mode'' = latest ''--access-mode'' ?ts"
    by (rule tx, simp, simp add: none, rule st, (rule dest, assumption), (rule mount_text, erule o, simp))+
  have "fold_value ''ttl_seconds'' (map ?c ?ts) old =
      (case latest ''--ttl'' ?ts of None \<Rightarrow> old | Some v \<Rightarrow> Some (IntValue (int (the (parse_duration v)))))" for old
    by (rule stored_value, (rule dest, assumption), (rule mount_ttl, erule o, assumption))
  then have ttl: "int_attr ns ''ttl_seconds'' = map_option (\<lambda>v. int (the (parse_duration v))) (latest ''--ttl'' ?ts)"
    by (simp add: int_attr_def skip none split: option.split)
  have "fold_value ''allow'' (map ?c ?ts) (Some NoValue) = Some (if given_values ''--allow'' ?ts = [] then NoValue else ListValue (given_values ''--allow'' ?ts))"
    by (rule appended_values, (rule dest, assumption), (rule mount_allow_stdin, erule o, assumption))
  then have allow: "list_attr ns ''allow'' = (if given_values ''--allow'' ?ts = [] then None else Some (given_values ''--allow'' ?ts))"
    by (simp add: list_attr_def skip none)
  have "fold_value ''password_stdin'' (map ?c ?ts) old = (if ''--password-stdin'' \<in> typed_flag ` set ?ts then Some (BoolValue True) else old)" for old
    by (rule raised_flag, (rule dest, assumption), (rule mount_allow_stdin, erule o, assumption))
  then have pin: "bool_attr ns ''password_stdin'' = (''--password-stdin'' \<in> typed_flag ` set ?ts)"
    by (simp add: bool_attr_def skip stdin)
  show ?thesis unfolding mount_attrs_def mount_settings_def texts ttl allow pin by (simp add: text_attr_def folder)
qed

section \<open>Results\<close>

lemma mount_positional:
  "List.find (\<lambda>a. act_flags a = []) build_mount_parser = Some (add_argument ''folder'' [] StoreText True)"
  by (simp add: build_mount_parser_def help_action_def add_argument_def)

lemma server_seen:
  assumes "list_all mount_option ts"
  shows "''server'' \<in> (\<lambda>t. act_dest (fst (typed_call mount_flags t))) ` set ts \<longleftrightarrow> given_values ''--server'' ts \<noteq> []"
  using assms
proof (induction ts)
  case (Cons t ts)
  have "typed_flag t = ''--server'' \<Longrightarrow> typed_value t \<noteq> None"
    using Cons.prems mount_text [of t None] by auto
  moreover have "given_values ''--server'' (t # ts) = given_values ''--server'' [t] @ given_values ''--server'' ts"
    using given_values_append [of "''--server''" "[t]" ts] by simp
  ultimately show ?case using Cons mount_dest(1) [of t] by (auto simp: given_values_single split: option.splits)
qed (simp add: given_values_def map_filter_simps)

text \<open>C35: what is typed after \<open>mount\<close> is what the agent is started with. The options may stand before and after
  the folder and in any order, with their values in the next argument or after an equals sign. The
  settings are the folder, the last value of each option (a duration in seconds), whether the flag was
  given, and all \<open>--allow\<close> entries in the order in which they were typed; without \<open>--server\<close> the command
  exits. A value in an argument of its own must not look like an option; after an equals sign it may be
  anything.\<close>

theorem mount_command_line:
  assumes opts: "list_all mount_option (ts1 @ ts2)" and folder: "plain_arg mount_flags folder"
  shows "parse_args (''mount'' # concat (map typed_text ts1) @ folder # concat (map typed_text ts2)) =
    (if given_values ''--server'' (ts1 @ ts2) = [] then Inl (RequiredArguments [''server''])
     else Inr (MountArgs (mount_settings folder (ts1 @ ts2))))"
proof -
  let ?c = "map (typed_call mount_flags)" and ?fold = "(add_argument ''folder'' [] StoreText True, Some folder)"
  have "\<forall>t \<in> set (ts1 @ ts2). typed_ok mount_flags t" using opts by (auto simp: list_all_iff mount_option_def)
  note parse = arg_parse_typed [OF mount_flags_ok this folder mount_positional]
  have "call_ok ?fold" by (simp add: call_ok_def get_value_def add_argument_def)
  then have "list_all call_ok (?c ts1 @ ?fold # ?c ts2)" using opts mount_call_ok by (auto simp: list_all_iff)
  from take_actions_value [OF this, of "default_namespace build_mount_parser" "[]"]
  obtain ns seen where t: "take_actions (?c ts1 @ ?fold # ?c ts2) (default_namespace build_mount_parser, []) = Inr (ns, seen)"
    and seen: "seen = rev (map (\<lambda>c. act_dest (fst c)) (?c ts1 @ ?fold # ?c ts2))"
    and v: "\<forall>d. map_of ns d = fold_value d (?c ts1 @ ?fold # ?c ts2) (map_of (default_namespace build_mount_parser) d)" by auto
  have s: "''folder'' \<in> set seen" "''server'' \<in> set seen \<longleftrightarrow> given_values ''--server'' (ts1 @ ts2) \<noteq> []"
    using server_seen [OF opts] by (auto simp: seen add_argument_def image_Un image_image)
  have "filter (\<lambda>a. act_required a \<and> act_dest a \<notin> set seen) build_mount_parser =
      (if ''server'' \<in> set seen then [] else [add_argument ''server'' [''--server''] StoreText True])"
    using s(1) by (simp add: build_mount_parser_def help_action_def add_argument_def)
  then have "arg_parse build_mount_parser (concat (map typed_text ts1) @ folder # concat (map typed_text ts2)) =
      (if given_values ''--server'' (ts1 @ ts2) = [] then Inl (RequiredArguments [''server'']) else Inr ns)"
    unfolding parse t using s(2) by (simp add: res_bind_def check_required_def add_argument_def)
  moreover have "mount_attrs ns = mount_settings folder (ts1 @ ts2)" if "given_values ''--server'' (ts1 @ ts2) \<noteq> []"
    using mount_attrs_typed [OF opts v] that by (simp add: latest_def)
  ultimately show ?thesis by (simp add: parse_args_def parse_command_def)
qed

definition demo_before :: "typed list" where
  "demo_before = [Spaced ''--login'' ''ann'', Joined ''--allow'' ''user:bob:read'']"

definition demo_after :: "typed list" where
  "demo_after = [Spaced ''--server'' ''http://r'', Spaced ''--allow'' ''group:eng:write'', Spaced ''--ttl'' ''2h'',
     Joined ''--password'' ''--x'', Bare ''--password-stdin'']"

theorem mount_command_line_witness:
  "parse_args [''mount'', ''--login'', ''ann'', ''--allow=user:bob:read'', ''docs'', ''--server'', ''http://r'', ''--allow'', ''group:eng:write'',
     ''--ttl'', ''2h'', ''--password=--x'', ''--password-stdin''] =
   Inr (MountArgs \<lparr>mn_folder = ''docs'', mn_server = ''http://r'', mn_name = None, mn_password = Some ''--x'', mn_ttl_seconds = Some 7200,
     mn_login = Some ''ann'', mn_password_stdin = True, mn_access_mode = None, mn_allow = Some [''user:bob:read'', ''group:eng:write'']\<rparr>)"
proof -
  have d: "parse_duration ''2h'' = Some 7200"
    by (simp add: parse_duration_def is_digit_def unit_seconds_def Json.digits_value_def)
  have p: "plain_arg mount_flags v" if "v = [] \<or> hd v \<noteq> CHR ''-''" for v by (rule plain_argI [OF that])
  have "list_all mount_option (demo_before @ demo_after)"
    by (simp add: demo_before_def demo_after_def mount_option_def typed_ok_def mount_flags_list takes_value_def add_argument_def d
        p [unfolded mount_flags_list add_argument_def])
  from mount_command_line [OF this, of "''docs''"] p [of "''docs''"] show ?thesis
    by (simp add: demo_before_def demo_after_def given_values_def map_filter_simps mount_settings_def latest_def d)
qed

text \<open>Any other folder that does not look like an option is shared with the defaults.\<close>

lemma run_with_defaults_folder:
  assumes "folder \<noteq> ''mount''" and "plain_arg (option_string_actions build_parser) folder"
  shows "run_with_defaults folder = Inr (LanArgs \<lparr>ns_folder = folder, ns_port = None, ns_host = None, ns_password = None,
    ns_read_only = False, ns_receive = False\<rparr>)"
proof -
  have f: "flags_ok (option_string_actions build_parser)"
    by (simp add: flags_ok_def option_string_actions_def build_parser_def help_action_def add_argument_def)
  have p: "List.find (\<lambda>a. act_flags a = []) build_parser = Some (add_argument ''folder'' [] StoreText True)"
    by (simp add: build_parser_def help_action_def add_argument_def)
  have t: "take_actions [(add_argument ''folder'' [] StoreText True, Some folder)] (ns, []) = Inr (AList.update ''folder'' (TextValue folder) ns, [''folder''])" for ns
    by (simp add: take_action_def get_value_def res_bind_def add_argument_def)
  have "filter (\<lambda>a. act_required a \<and> act_dest a \<notin> set [''folder'']) build_parser = []"
    by (simp add: build_parser_def help_action_def add_argument_def)
  then have "arg_parse build_parser [folder] = Inr (AList.update ''folder'' (TextValue folder) (default_namespace build_parser))"
    using arg_parse_typed [OF f _ assms(2) p, of "[]" "[]"] unfolding append_Nil list.map concat.simps t by (simp add: res_bind_def check_required_def)
  then show ?thesis using assms(1)
    by (simp add: run_with_defaults_def parse_args_def parse_command_def)
      (simp add: lan_attrs_def text_attr_def int_attr_def bool_attr_def default_namespace_def build_parser_def help_action_def add_argument_def)
qed

text \<open>A folder called \<open>mount\<close> is taken for the subcommand, by \<open>run_with_defaults\<close> too, which is meant for any folder.\<close>

lemma folder_named_mount: "run_with_defaults ''mount'' = Inl (RequiredArguments [''folder'', ''server''])"
  by (simp add: run_with_defaults_def parse_args_def parse_command_def arg_parse_def Let_def arg_loop.simps [of _ "[]"] mount_positional
      consume_positional_def match_positional_def res_bind_def check_required_def add_extras_def)
    (simp add: build_mount_parser_def help_action_def add_argument_def)

end
