(* ===== verification/User_Storage.thy ===== *)
theory User_Storage
  imports File_Service Relay_Session
begin

text \<open>
  The storage a relay keeps for its own users: \<open>relay/app/services/user_storage.py\<close> and the routes of
  \<open>relay/app/routers/user_storage.py\<close>, over the file service of the server and the quotas of the accounts.

  The directory of the relay's data is a resolved path. A handler returns its reply with the file
  system it leaves. The checks of the quota, the writes and the rollback run in separate threads with
  other requests in between; the handlers here are the undisturbed runs.
\<close>

section \<open>Directories and quotas (services/user_storage.py)\<close>

text \<open>\<open>mkdir(parents=True, exist_ok=True)\<close>, component by component.\<close>

fun ensure_dirs :: "path \<Rightarrow> path \<Rightarrow> fs \<Rightarrow> (file_exn, unit) result \<times> fs" where
  "ensure_dirs cur [] fs = (Inr (), fs)"
| "ensure_dirs cur (n # ns) fs = (case stat fs (cur @ [n]) of
     Some DirNode \<Rightarrow> ensure_dirs (cur @ [n]) ns fs
   | Some _ \<Rightarrow> (Inl (OsFailure (if ns = [] then OsFileExists else OsNotADirectory)), fs)
   | None \<Rightarrow>
       if lstat fs (cur @ [n]) \<noteq> None then (Inl (OsFailure OsFileExists), fs)
       else ensure_dirs (cur @ [n]) ns (make_dir (cur @ [n]) fs))"

definition users_dir :: "path \<Rightarrow> int \<Rightarrow> path" where
  "users_dir data_dir user_id = data_dir @ [''users'', nat_digits (nat user_id)]"

definition user_dir :: "path \<Rightarrow> int \<Rightarrow> fs \<Rightarrow> (file_exn, path) result \<times> fs" where
  "user_dir data_dir user_id fs =
     (if user_id \<le> 0 then (Inl FileValueError, fs)
      else (case ensure_dirs [] (users_dir data_dir user_id) fs of
          (Inl e, fs') \<Rightarrow> (Inl e, fs')
        | (Inr _, fs') \<Rightarrow> (Inr (users_dir data_dir user_id), fs')))"

text \<open>The walk lists what is no directory; the size of a link is that of the file it leads to, and an
  entry that cannot be read counts nothing.\<close>

definition entry_bytes :: "fs \<Rightarrow> path \<Rightarrow> nat" where
  "entry_bytes fs p = (case stat fs p of Some (FileNode b) \<Rightarrow> length b | _ \<Rightarrow> 0)"

definition tree_bytes :: "path \<Rightarrow> fs \<Rightarrow> nat" where
  "tree_bytes dir fs = sum_list (map (entry_bytes fs)
     (filter (\<lambda>p. strict_prefix dir p \<and> lstat fs p \<noteq> Some DirNode) (map fst fs)))"

definition usage_bytes :: "path \<Rightarrow> int \<Rightarrow> fs \<Rightarrow> (file_exn, int) result \<times> fs" where
  "usage_bytes data_dir user_id fs = (case user_dir data_dir user_id fs of
     (Inl e, fs') \<Rightarrow> (Inl e, fs') | (Inr dir, fs') \<Rightarrow> (Inr (int (tree_bytes dir fs')), fs'))"

definition effective_quota :: "accounts_db \<Rightarrow> int \<Rightarrow> int \<Rightarrow> (account_exn, int) result" where
  "effective_quota store default_quota_bytes user_id = (case get_user_quota user_id store of
     Inl (QuotaNotSetError i) \<Rightarrow> Inr default_quota_bytes | r \<Rightarrow> r)"

definition remaining_bytes :: "path \<Rightarrow> accounts_db \<Rightarrow> int \<Rightarrow> int \<Rightarrow> fs \<Rightarrow> (file_exn, int) result \<times> fs" where
  "remaining_bytes data_dir store default_quota_bytes user_id fs =
     (case effective_quota store default_quota_bytes user_id of
        Inl e \<Rightarrow> (Inl FileValueError, fs)
      | Inr q \<Rightarrow> (case usage_bytes data_dir user_id fs of (r, fs') \<Rightarrow> (map_sum id (\<lambda>u. max 0 (q - u)) r, fs')))"

section \<open>The routes (routers/user_storage.py)\<close>

datatype 'a storage_reply = StorageOk 'a | StorageStatus nat | StorageRaised file_exn

text \<open>What the handlers make of an exception: the statuses each one catches, 500 otherwise.\<close>

fun list_status :: "file_exn \<Rightarrow> 'a storage_reply" where
  "list_status (PathTraversalError p) = StorageStatus 403"
| "list_status (FileNotFoundError p) = StorageStatus 404"
| "list_status e = StorageRaised e"

fun upload_status :: "file_exn \<Rightarrow> 'a storage_reply" where
  "upload_status (PathTraversalError p) = StorageStatus 403"
| "upload_status (InvalidFileNameError p) = StorageStatus 400"
| "upload_status (FileConflictError p) = StorageStatus 409"
| "upload_status e = StorageRaised e"

fun download_status :: "file_exn \<Rightarrow> 'a storage_reply" where
  "download_status (PathTraversalError p) = StorageStatus 403"
| "download_status (FileNotFoundError p) = StorageStatus 404"
| "download_status FileValueError = StorageStatus 404"
| "download_status e = StorageRaised e"

definition get_quota :: "path \<Rightarrow> accounts_db \<Rightarrow> int \<Rightarrow> int \<Rightarrow> fs \<Rightarrow> (int \<times> int) storage_reply \<times> fs" where
  "get_quota data_dir store default_quota user_id fs = (case usage_bytes data_dir user_id fs of
     (Inl e, fs') \<Rightarrow> (StorageRaised e, fs')
   | (Inr u, fs') \<Rightarrow> (case effective_quota store default_quota user_id of
       Inl e \<Rightarrow> (StorageRaised FileValueError, fs') | Inr q \<Rightarrow> (StorageOk (u, q), fs')))"

definition list_files :: "path \<Rightarrow> int \<Rightarrow> str \<Rightarrow> fs \<Rightarrow> FileEntry list storage_reply \<times> fs" where
  "list_files data_dir user_id p fs = (case user_dir data_dir user_id fs of
     (Inl e, fs') \<Rightarrow> (StorageRaised e, fs')
   | (Inr base, fs') \<Rightarrow> (case list_directory base p fs' of
       Inl e \<Rightarrow> (list_status e, fs') | Inr es \<Rightarrow> (StorageOk es, fs')))"

fun store_all ::
  "path \<Rightarrow> str \<Rightarrow> ConflictResolution option \<Rightarrow> (str \<times> bytes) list \<Rightarrow> fs \<Rightarrow> (file_exn, UploadResult list) result \<times> fs" where
  "store_all base p resolution [] fs = (Inr [], fs)"
| "store_all base p resolution ((name, content) # files) fs =
     (case upload_file base p name content resolution fs of
        (Inl e, fs1) \<Rightarrow> (Inl e, fs1)
      | (Inr r, fs1) \<Rightarrow> (case store_all base p resolution files fs1 of
          (Inl e, fs2) \<Rightarrow> (Inl e, fs2) | (Inr rs, fs2) \<Rightarrow> (Inr (r # rs), fs2)))"

definition rollback_path :: "str \<Rightarrow> str \<Rightarrow> str" where
  "rollback_path p name = (if p \<noteq> [] then py_lstrip_char sep (p @ [sep] @ name) else name)"

text \<open>\<open>declared\<close> is the \<open>Content-Length\<close>, 0 without one.\<close>

definition storage_upload ::
  "path \<Rightarrow> accounts_db \<Rightarrow> int \<Rightarrow> int \<Rightarrow> str \<Rightarrow> ConflictResolution option \<Rightarrow> int \<Rightarrow> (str \<times> bytes) list \<Rightarrow> fs \<Rightarrow>
   UploadResult list storage_reply \<times> fs" where
  "storage_upload data_dir store default_quota user_id p resolution declared files fs =
     (case user_dir data_dir user_id fs of
        (Inl e, fs0) \<Rightarrow> (StorageRaised e, fs0)
      | (Inr base, fs0) \<Rightarrow> (case effective_quota store default_quota user_id of
          Inl e \<Rightarrow> (StorageRaised FileValueError, fs0)
        | Inr quota \<Rightarrow> (case usage_bytes data_dir user_id fs0 of
            (Inl e, fs1) \<Rightarrow> (StorageRaised e, fs1)
          | (Inr current, fs1) \<Rightarrow>
              if declared \<noteq> 0 \<and> current + declared > quota then (StorageStatus 413, fs1)
              else (case store_all base p resolution files fs1 of
                  (Inl e, fs2) \<Rightarrow> (upload_status e, fs2)
                | (Inr results, fs2) \<Rightarrow> (case usage_bytes data_dir user_id fs2 of
                    (Inl e, fs3) \<Rightarrow> (StorageRaised e, fs3)
                  | (Inr used, fs3) \<Rightarrow>
                      if used > quota then
                        (case delete_paths base (map (\<lambda>r. rollback_path p (up_name r)) results) [] fs3 of
                           (Inl e, fs4) \<Rightarrow> (StorageRaised e, fs4) | (Inr _, fs4) \<Rightarrow> (StorageStatus 413, fs4))
                      else (StorageOk results, fs3))))))"

definition storage_download :: "path \<Rightarrow> int \<Rightarrow> str \<Rightarrow> fs \<Rightarrow> path storage_reply \<times> fs" where
  "storage_download data_dir user_id p fs = (case user_dir data_dir user_id fs of
     (Inl e, fs') \<Rightarrow> (StorageRaised e, fs')
   | (Inr base, fs') \<Rightarrow> (case download_file base p fs' of
       Inl e \<Rightarrow> (download_status e, fs') | Inr fp \<Rightarrow> (StorageOk fp, fs')))"

definition storage_delete :: "path \<Rightarrow> int \<Rightarrow> str list \<Rightarrow> fs \<Rightarrow> str list storage_reply \<times> fs" where
  "storage_delete data_dir user_id paths fs = (case user_dir data_dir user_id fs of
     (Inl e, fs') \<Rightarrow> (StorageRaised e, fs')
   | (Inr base, fs') \<Rightarrow> (case delete_paths base paths [] fs' of
       (Inl e, fs'') \<Rightarrow> (list_status e, fs'') | (Inr d, fs'') \<Rightarrow> (StorageOk d, fs'')))"

section \<open>Lemmas\<close>

text \<open>A directory without links in it or on the way to it.\<close>

definition no_links :: "fs \<Rightarrow> path \<Rightarrow> bool" where
  "no_links fs base \<longleftrightarrow> link_free fs base \<and> (\<forall>p. prefix base p \<longrightarrow> \<not> is_link fs p)"

lemma no_links_inside: "no_links fs base \<Longrightarrow> link_free fs base \<and> (prefix base d \<longrightarrow> \<not> link_exit fs d x)"
  by (auto simp: no_links_def link_exit_def)

lemma write_chunks_links: "is_link (snd (write_upload_chunks upload p fs)) q \<Longrightarrow> is_link fs q"
  by (cases rule: write_upload_chunks_cases [of upload p fs]) (auto simp: is_link_def lstat_update split: if_splits)

lemma move_links:
  assumes "\<not> prefix old new" and "\<not> prefix new old" and "is_link (move_tree old new fs) q"
  shows "is_link fs q \<or> (\<exists>s. q = new @ s \<and> is_link fs (old @ s))"
proof (cases "prefix new q")
  case True
  then obtain s where "q = new @ s" by (auto simp: prefix_def)
  with assms show ?thesis by (auto simp: is_link_def lstat_move_new)
next
  case False
  show ?thesis
  proof (cases "prefix old q")
    case True
    then obtain s where "q = old @ s" by (auto simp: prefix_def)
    with assms show ?thesis by (auto simp: is_link_def lstat_move_old)
  next
    case n: False
    with False assms show ?thesis by (auto simp: is_link_def lstat_move_outside)
  qed
qed

lemma write_upload_links:
  assumes "\<forall>p. prefix d p \<longrightarrow> \<not> is_link fs p" and "is_link (snd (write_upload upload d n res fs)) q"
  shows "is_link fs q"
proof -
  let ?t = "d @ [temp_name n]" and ?p = "d @ [n]"
  have inc: "\<not> prefix ?t ?p" "\<not> prefix ?p ?t" by (simp_all add: prefix_def temp_name_eq)
  obtain r fs1 where 1: "write_upload_chunks upload ?t fs = (r, fs1)" by fastforce
  then have l: "is_link fs1 x \<Longrightarrow> is_link fs x" for x using write_chunks_links [of upload ?t fs x] by simp
  have m: "is_link (move_tree ?t ?p fs1) x \<Longrightarrow> is_link fs x" for x
    using move_links [OF inc, of fs1 x] l assms(1) by (auto simp: prefix_def)
  show ?thesis using assms(2) 1 l m write_chunks_links [of upload ?p fs q]
    by (auto simp: write_upload_def os_replace_def split: if_splits sum.splits prod.splits)
qed

lemma upload_file_links:
  assumes "no_links fs base" and "is_link (snd (upload_file base rel name upload res fs)) q"
  shows "is_link fs q"
proof (cases "resolve_safe_path base rel fs")
  case (Inr d)
  have "prefix base d" using resolve_safe_path_eq [OF Inr resolve_base_link_free] assms(1) by (simp add: no_links_def)
  then have "\<forall>p. prefix d p \<longrightarrow> \<not> is_link fs p" using assms(1) prefix_order.trans unfolding no_links_def by blast
  note w = write_upload_links [OF this]
  show ?thesis using assms(2) Inr w
    by (auto simp: upload_file_def split: sum.splits if_splits option.splits ConflictResolution.splits)
qed (use assms(2) in \<open>simp add: upload_file_def\<close>)

lemma no_links_mono: "no_links fs base \<Longrightarrow> (\<And>q. is_link fs' q \<Longrightarrow> is_link fs q) \<Longrightarrow> no_links fs' base"
  using link_free_mono by (fastforce simp: no_links_def)

lemma store_all_effect:
  assumes "no_links fs base"
  shows "no_links (snd (store_all base p res files fs)) base \<and>
    (\<forall>q. is_link (snd (store_all base p res files fs)) q \<longrightarrow> is_link fs q) \<and>
    (\<forall>x. \<not> prefix base x \<longrightarrow> lstat (snd (store_all base p res files fs)) x = lstat fs x)"
  using assms
proof (induction files arbitrary: fs)
  case (Cons f files)
  obtain name content where f: "f = (name, content)" by (cases f)
  obtain r fs1 where 1: "upload_file base p name content res fs = (r, fs1)" by fastforce
  have l: "is_link fs1 q \<Longrightarrow> is_link fs q" for q using upload_file_links [OF Cons.prems, of p name content res q] 1 by simp
  have o: "\<not> prefix base x \<Longrightarrow> lstat fs1 x = lstat fs x" for x
    using upload_outside [of fs base x p name content res] no_links_inside [OF Cons.prems]
      resolve_safe_path_eq [of base p fs] resolve_base_link_free [of fs base] 1 by simp
  have "no_links fs1 base" using no_links_mono [OF Cons.prems l] .
  with Cons.IH [of fs1] l o show ?case by (auto simp: f 1 split: sum.split prod.split)
qed simp

lemma delete_paths_links: "is_link (snd (delete_paths base ps del fs)) q \<Longrightarrow> is_link fs q"
  by (induction ps arbitrary: del fs) (auto split: sum.splits dest: delete_resolved_links)

lemma ensure_dirs_effect:
  "(\<forall>q. is_link (snd (ensure_dirs cur ns fs)) q \<longrightarrow> is_link fs q) \<and>
   (\<forall>x. \<not> prefix x (cur @ ns) \<longrightarrow> lstat (snd (ensure_dirs cur ns fs)) x = lstat fs x)"
proof (induction ns arbitrary: cur fs)
  case (Cons n ns)
  let ?fs1 = "make_dir (cur @ [n]) fs"
  have m: "is_link ?fs1 q \<Longrightarrow> is_link fs q" "\<not> prefix x (cur @ n # ns) \<Longrightarrow> lstat ?fs1 x = lstat fs x" for q x
    by (auto simp: is_link_def make_dir_def lstat_update prefix_def split: if_splits)
  have "snd (ensure_dirs cur (n # ns) fs) \<in> {fs, snd (ensure_dirs (cur @ [n]) ns fs), snd (ensure_dirs (cur @ [n]) ns ?fs1)}"
    by (simp split: option.split node.split)
  then consider "snd (ensure_dirs cur (n # ns) fs) = fs" | "snd (ensure_dirs cur (n # ns) fs) = snd (ensure_dirs (cur @ [n]) ns fs)"
    | "snd (ensure_dirs cur (n # ns) fs) = snd (ensure_dirs (cur @ [n]) ns ?fs1)" by blast
  then show ?case
  proof cases
    case 2
    then show ?thesis using Cons.IH [of "cur @ [n]" fs] by simp
  next
    case 3
    then show ?thesis using Cons.IH [of "cur @ [n]" ?fs1] m by simp
  qed simp
qed simp

lemma user_dir_effect:
  "(\<forall>q. is_link (snd (user_dir data u fs)) q \<longrightarrow> is_link fs q) \<and>
   (\<forall>x. \<not> prefix x (users_dir data u) \<longrightarrow> lstat (snd (user_dir data u fs)) x = lstat fs x)"
  using ensure_dirs_effect [of "[]" "users_dir data u" fs] by (auto simp: user_dir_def split: prod.splits sum.splits)

lemma user_dir_base: "user_dir data u fs = (Inr base, fs') \<Longrightarrow> base = users_dir data u \<and> u > 0"
  by (auto simp: user_dir_def split: if_splits prod.splits sum.splits)

section \<open>The storage as a machine\<close>

datatype storage_op =
    SQuota int
  | SList int str
  | SUpload int str "ConflictResolution option" int "(str \<times> bytes) list"
  | SDownload int str
  | SDelete int "str list"

fun op_user :: "storage_op \<Rightarrow> int" where
  "op_user (SQuota u) = u"
| "op_user (SList u p) = u"
| "op_user (SUpload u p r d files) = u"
| "op_user (SDownload u p) = u"
| "op_user (SDelete u ps) = u"

fun storage_step :: "path \<Rightarrow> accounts_db \<Rightarrow> int \<Rightarrow> storage_op \<Rightarrow> fs \<Rightarrow> fs" where
  "storage_step data store dq (SQuota u) fs = snd (get_quota data store dq u fs)"
| "storage_step data store dq (SList u p) fs = snd (list_files data u p fs)"
| "storage_step data store dq (SUpload u p r d files) fs = snd (storage_upload data store dq u p r d files fs)"
| "storage_step data store dq (SDownload u p) fs = snd (storage_download data u p fs)"
| "storage_step data store dq (SDelete u ps) fs = snd (storage_delete data u ps fs)"

definition storage_ok :: "path \<Rightarrow> fs \<Rightarrow> bool" where
  "storage_ok data fs \<longleftrightarrow> no_links fs (data @ [''users''])"

text \<open>What every operation of a user does: it makes no links and stays in the user's directory, but for
  making the directories on the way to it.\<close>

definition stays :: "path \<Rightarrow> int \<Rightarrow> fs \<Rightarrow> fs \<Rightarrow> bool" where
  "stays data u fs fs' \<longleftrightarrow> (\<forall>q. is_link fs' q \<longrightarrow> is_link fs q) \<and>
     (\<forall>x. \<not> prefix (users_dir data u) x \<and> \<not> prefix x (users_dir data u) \<longrightarrow> lstat fs' x = lstat fs x)"

lemma stays_refl [simp]: "stays data u fs fs"
  by (simp add: stays_def)

lemma stays_trans: "stays data u a b \<Longrightarrow> stays data u b c \<Longrightarrow> stays data u a c"
  by (simp add: stays_def)

lemma stays_ok: "stays data u fs fs' \<Longrightarrow> storage_ok data fs \<Longrightarrow> storage_ok data fs'"
  unfolding storage_ok_def stays_def by (erule no_links_mono) blast

lemma ok_user: "storage_ok data fs \<Longrightarrow> no_links fs (users_dir data u)"
proof -
  assume a: "storage_ok data fs"
  have "plain_name (nat_digits (nat u))"
    using nat_digits_only [of "CHR ''.''" "nat u"] by (auto simp: plain_name_def)
  moreover have "link_free fs (data @ [''users''])" "\<not> is_link fs (data @ [''users'', nat_digits (nat u)])"
    using a by (auto simp: storage_ok_def no_links_def)
  ultimately have "link_free fs ((data @ [''users'']) @ [nat_digits (nat u)])" unfolding link_free_snoc by simp
  moreover have "prefix (data @ [''users'']) p" if "prefix (users_dir data u) p" for p
    using that by (auto simp: users_dir_def prefix_def)
  ultimately show ?thesis using a by (auto simp: storage_ok_def no_links_def users_dir_def)
qed

lemma user_dir_stays: "stays data u fs (snd (user_dir data u fs))"
  using user_dir_effect [of data u fs] by (auto simp: stays_def)

lemma usage_stays: "stays data u fs (snd (usage_bytes data u fs))"
  using user_dir_stays [of data u fs] by (auto simp: usage_bytes_def split: prod.splits sum.splits)

lemma store_all_stays:
  assumes "storage_ok data fs"
  shows "stays data u fs (snd (store_all (users_dir data u) p res files fs))"
  using store_all_effect [OF ok_user [OF assms]] by (simp add: stays_def)

lemma delete_paths_stays:
  assumes "storage_ok data fs"
  shows "stays data u fs (snd (delete_paths (users_dir data u) ps del fs))"
  using delete_outside [of fs "users_dir data u"] delete_paths_links ok_user [OF assms, of u] by (auto simp: stays_def no_links_def)

lemma storage_upload_stays:
  assumes "storage_ok data fs"
  shows "stays data u fs (snd (storage_upload data store dq u p res d files fs))"
proof -
  obtain r0 fs0 where 0: "user_dir data u fs = (r0, fs0)" by fastforce
  obtain r1 fs1 where 1: "usage_bytes data u fs0 = (r1, fs1)" by fastforce
  obtain r2 fs2 where 2: "store_all (users_dir data u) p res files fs1 = (r2, fs2)" by fastforce
  obtain r3 fs3 where 3: "usage_bytes data u fs2 = (r3, fs3)" by fastforce
  have s0: "stays data u fs fs0" using user_dir_stays [of data u fs] 0 by simp
  have s1: "stays data u fs fs1" using usage_stays [of data u fs0] 1 s0 stays_trans by fastforce
  have s2: "stays data u fs fs2" using store_all_stays [OF stays_ok [OF s1 assms], of u p res files] 2 s1 stays_trans by fastforce
  have s3: "stays data u fs fs3" using usage_stays [of data u fs2] 3 s2 stays_trans by fastforce
  have s4: "stays data u fs (snd (delete_paths (users_dir data u) ps del fs3))" for ps del
    using delete_paths_stays [OF stays_ok [OF s3 assms]] s3 stays_trans by blast
  have "base = users_dir data u" if "r0 = Inr base" for base using user_dir_base 0 that by blast
  then show ?thesis using s0 s1 s2 s3 s4
    by (auto simp: storage_upload_def 0 1 2 3 split: sum.split prod.split) (metis snd_conv)+
qed

lemma reading_changes:
  "snd (get_quota data store dq u fs) = snd (usage_bytes data u fs)"
  "snd (list_files data u p fs) = snd (user_dir data u fs)"
  "snd (storage_download data u p fs) = snd (user_dir data u fs)"
  by (auto simp: get_quota_def list_files_def storage_download_def split: prod.split sum.split)

lemma storage_step_stays:
  assumes "storage_ok data fs"
  shows "stays data (op_user op) fs (storage_step data store dq op fs)"
proof (cases op)
  case (SUpload u p r d files)
  then show ?thesis using storage_upload_stays [OF assms] by simp
next
  case (SDelete u ps)
  obtain r0 fs0 where 0: "user_dir data u fs = (r0, fs0)" by fastforce
  have s0: "stays data u fs fs0" using user_dir_stays [of data u fs] 0 by simp
  show ?thesis
  proof (cases r0)
    case (Inl e)
    then show ?thesis using s0 by (simp add: SDelete storage_delete_def 0)
  next
    case (Inr base)
    then have "base = users_dir data u" using user_dir_base 0 by blast
    then have "stays data u fs0 (snd (delete_paths base ps [] fs0))"
      using delete_paths_stays [OF stays_ok [OF s0 assms]] by blast
    moreover have "storage_step data store dq op fs = snd (delete_paths base ps [] fs0)"
      by (simp add: SDelete storage_delete_def 0 Inr split: prod.split sum.split)
    ultimately show ?thesis using stays_trans [OF s0] by (simp add: SDelete)
  qed
qed (simp_all add: reading_changes usage_stays user_dir_stays)

interpretation storage: inv_machine "storage_step data store dq" "storage_ok data"
  for data store dq
  by unfold_locales (blast intro: stays_ok storage_step_stays)

lemma users_dirs_apart:
  assumes "0 < u" and "0 < v" and "u \<noteq> v" and "prefix (users_dir data v) x"
  shows "\<not> prefix (users_dir data u) x \<and> \<not> prefix x (users_dir data u)"
proof -
  have ne: "users_dir data u \<noteq> users_dir data v" using assms(1-3) by (simp add: users_dir_def nat_digits_inject)
  have len: "length (users_dir data u) = length (users_dir data v)" by (simp add: users_dir_def)
  have "\<not> prefix (users_dir data u) x" using assms(4) ne len by (auto simp: prefix_def)
  moreover have "\<not> prefix (users_dir data v) (users_dir data u)" using ne len by (auto simp: prefix_def)
  ultimately show ?thesis using assms(4) prefix_order.trans by blast
qed

subsection \<open>New files and their removal\<close>

lemma ensure_dirs_present:
  "link_free fs (cur @ ns) \<Longrightarrow> (\<And>r. prefix r (cur @ ns) \<Longrightarrow> lstat fs r = Some DirNode) \<Longrightarrow> ensure_dirs cur ns fs = (Inr (), fs)"
proof (induction ns arbitrary: cur)
  case (Cons n ns)
  have "link_free fs (cur @ [n])" by (rule link_free_prefix [OF Cons.prems(1)]) simp
  then have "stat fs (cur @ [n]) = Some DirNode" using Cons.prems(2) [of "cur @ [n]"] by (simp add: stat_link_free)
  with Cons.IH [of "cur @ [n]"] Cons.prems show ?case by simp
qed simp

lemma fs_ok_parents:
  assumes "fs_ok fs" and "lstat fs p = Some DirNode" and "prefix r p"
  shows "lstat fs r = Some DirNode"
proof (rule ccontr)
  assume n: "lstat fs r \<noteq> Some DirNode"
  obtain t where t: "p = r @ t" using assms(3) by (auto simp: prefix_def)
  with n assms(2) have "t \<noteq> []" by auto
  from fs_ok_leaf [OF assms(1) n this] t assms(2) show False by simp
qed

lemma user_dir_present:
  assumes "fs_ok fs" and "no_links fs (users_dir data u)" and "lstat fs (users_dir data u) = Some DirNode" and "0 < u"
  shows "user_dir data u fs = (Inr (users_dir data u), fs)"
  using assms ensure_dirs_present [of fs "[]" "users_dir data u"] fs_ok_parents [OF assms(1,3)]
  by (simp add: user_dir_def no_links_def)

definition folder_ok :: "path \<Rightarrow> path \<Rightarrow> fs \<Rightarrow> bool" where
  "folder_ok base dir fs \<longleftrightarrow> fs_ok fs \<and> no_links fs base \<and> plain_path dir \<and> good_names dir \<and>
     lstat fs base = Some DirNode \<and> lstat fs (base @ dir) = Some DirNode"

lemma no_links_below: "no_links fs base \<Longrightarrow> plain_path p \<Longrightarrow> link_free fs (base @ p)"
proof -
  assume a: "no_links fs base" "plain_path p"
  have "\<not> is_link fs r" if r: "prefix r (base @ p)" "r \<noteq> []" for r
  proof (cases "prefix r base")
    case True
    then show ?thesis using a(1) r by (auto simp: no_links_def link_free_def)
  next
    case False
    then have "prefix base r" using r(1) prefix_same_cases [of r "base @ p" base] by auto
    then show ?thesis using a(1) by (simp add: no_links_def)
  qed
  with a show ?thesis by (auto simp: link_free_def no_links_def plain_path_def)
qed

lemma folder_resolved:
  assumes "folder_ok base dir fs"
  shows "resolve_safe_path base (user_path dir) fs = Inr (base @ dir)" and "link_free fs base" and "link_free fs (base @ dir)"
proof -
  show f: "link_free fs base" "link_free fs (base @ dir)" using assms no_links_below by (auto simp: folder_ok_def no_links_def)
  show "resolve_safe_path base (user_path dir) fs = Inr (base @ dir)"
    using resolve_directory [OF f] assms by (simp add: folder_ok_def)
qed

text \<open>An upload that may not replace anything adds one file, or fails and changes nothing.\<close>

lemma upload_new:
  assumes "folder_ok base dir fs" and "upload_file base (user_path dir) name content res fs = (Inr r, fs1)"
    and "res \<in> {None, Some RENAME}"
  shows "plain_name (up_name r) \<and> sep \<notin> set (up_name r) \<and> nul \<notin> set (up_name r) \<and>
    lstat fs (base @ dir @ [up_name r]) = None \<and> fs1 = AList.update (base @ dir @ [up_name r]) (FileNode content) fs"
  using assms(2) folder_resolved(1) [OF assms(1)]
proof (cases rule: upload_file_cases)
  case skipped
  then show ?thesis using assms(3) by simp
next
  case written
  let ?d = "base @ dir" and ?n = "up_name r"
  have f: "link_free fs ?d" by (rule folder_resolved(3) [OF assms(1)])
  have nl: "\<not> is_link fs (?d @ [?n])" using assms(1) by (auto simp: folder_ok_def no_links_def)
  have lf: "link_free fs (?d @ [?n])" unfolding link_free_snoc using f written(3) nl by blast
  have "lstat fs (?d @ [?n]) = None" using written(6) assms(3) stat_link_free [OF lf] by (auto simp: path_exists_def)
  then show ?thesis using written not_link_real [OF f written(3) nl] assms(3)
    by (auto simp: write_upload_def write_upload_chunks_eq write_file_def split: sum.splits if_splits)
qed

lemma upload_failed:
  assumes "upload_file base p name content res fs = (Inl e, fs1)" and "res \<in> {None, Some RENAME}"
  shows "fs1 = fs"
proof -
  have "snd (write_upload content d n res fs) = fs" if "fst (write_upload content d n res fs) = Inl e" for d n
    using that assms(2)
    by (cases rule: write_upload_chunks_cases [of content "d @ [n]" fs]) (auto simp: write_upload_def)
  then show ?thesis using assms
    by (auto simp: upload_file_def split: sum.splits if_splits option.splits ConflictResolution.splits) (metis fst_conv snd_conv)+
qed

lemma folder_ok_new:
  assumes "folder_ok base dir fs" and "plain_name n" and "lstat fs (base @ dir @ [n]) = None"
  shows "folder_ok base dir (AList.update (base @ dir @ [n]) (FileNode content) fs)"
proof -
  let ?p = "base @ dir @ [n]" and ?fs = "AList.update (base @ dir @ [n]) (FileNode content) fs"
  have "is_link ?fs q \<Longrightarrow> is_link fs q" for q by (auto simp: is_link_def lstat_update split: if_splits)
  then have "no_links ?fs base" using assms(1) no_links_mono unfolding folder_ok_def by blast
  moreover have "lstat ?fs (p @ [m]) \<noteq> None \<longrightarrow> lstat ?fs p = Some DirNode \<and> plain_name m" for p m
  proof (intro impI)
    assume a: "lstat ?fs (p @ [m]) \<noteq> None"
    have fs: "lstat fs (q @ [k]) \<noteq> None \<Longrightarrow> lstat fs q = Some DirNode \<and> plain_name k" for q k
      using assms(1) by (simp add: folder_ok_def fs_ok_def)
    show "lstat ?fs p = Some DirNode \<and> plain_name m"
    proof (cases "p @ [m] = ?p")
      case True
      then have "p = base @ dir" "m = n" by (simp_all flip: append_assoc)
      then show ?thesis using assms(1,2) by (simp add: lstat_update folder_ok_def)
    next
      case False
      then have "lstat fs p = Some DirNode \<and> plain_name m" using a fs [of p m] by (auto simp: lstat_update split: if_splits)
      moreover have "p \<noteq> ?p" using calculation assms(3) by auto
      ultimately show ?thesis by (simp add: lstat_update)
    qed
  qed
  moreover have "dict_ok ?fs" "lstat ?fs [] = Some DirNode"
    using assms(1) distinct_update by (auto simp: folder_ok_def fs_ok_def lstat_update)
  ultimately have "fs_ok ?fs" by (simp add: fs_ok_def)
  with \<open>no_links ?fs base\<close> assms(1) show ?thesis by (auto simp: folder_ok_def lstat_update)
qed

lemma store_all_new:
  assumes "folder_ok base dir fs" and "store_all base (user_path dir) res files fs = (Inr rs, fs')" and "res \<in> {None, Some RENAME}"
  shows "folder_ok base dir fs' \<and> distinct (map up_name rs) \<and>
    (\<forall>n \<in> set (map up_name rs). plain_name n \<and> sep \<notin> set n \<and> nul \<notin> set n \<and> lstat fs (base @ dir @ [n]) = None \<and>
       (\<exists>b. lstat fs' (base @ dir @ [n]) = Some (FileNode b))) \<and>
    (\<forall>x. x \<notin> (\<lambda>n. base @ dir @ [n]) ` set (map up_name rs) \<longrightarrow> lstat fs' x = lstat fs x)"
  using assms(1,2)
proof (induction files arbitrary: fs rs)
  case (Cons f files)
  obtain name content where f: "f = (name, content)" by (cases f)
  then obtain r fs1 rs1 where 1: "upload_file base (user_path dir) name content res fs = (Inr r, fs1)"
      "store_all base (user_path dir) res files fs1 = (Inr rs1, fs')" "rs = r # rs1"
    using Cons.prems(2) by (auto split: prod.splits sum.splits)
  note n = upload_new [OF Cons.prems(1) 1(1) assms(3)]
  have ok1: "folder_ok base dir fs1" using folder_ok_new [OF Cons.prems(1), of "up_name r" content] n by simp
  note ih = Cons.IH [OF ok1 1(2)]
  have l: "lstat fs1 = (lstat fs)(base @ dir @ [up_name r] \<mapsto> FileNode content)" using n by (simp add: lstat_update)
  have "up_name r \<notin> set (map up_name rs1)" using ih l by auto
  with ih n l 1(3) show ?case by (auto split: if_splits)
qed simp

lemma store_all_keeps:
  assumes "folder_ok base dir fs" and "store_all base (user_path dir) res files fs = (r, fs')" and "res \<in> {None, Some RENAME}"
  shows "folder_ok base dir fs' \<and> (\<forall>x. lstat fs x \<noteq> None \<longrightarrow> lstat fs' x = lstat fs x)"
  using assms(1,2)
proof (induction files arbitrary: fs r fs')
  case (Cons f files)
  obtain name content where f: "f = (name, content)" by (cases f)
  obtain r1 fs1 where 1: "upload_file base (user_path dir) name content res fs = (r1, fs1)" by fastforce
  show ?case
  proof (cases r1)
    case (Inl e)
    then have "fs1 = fs" using upload_failed [OF _ assms(3)] 1 by blast
    then show ?thesis using Inl 1 Cons.prems f by auto
  next
    case (Inr r')
    note n = upload_new [OF Cons.prems(1) 1 [unfolded Inr] assms(3)]
    obtain r2 fs2 where 2: "store_all base (user_path dir) res files fs1 = (r2, fs2)" by fastforce
    have "folder_ok base dir fs1" using folder_ok_new [OF Cons.prems(1), of "up_name r'" content] n by simp
    from Cons.IH [OF this 2] have "folder_ok base dir fs2 \<and> (\<forall>x. lstat fs x \<noteq> None \<longrightarrow> lstat fs2 x = lstat fs x)"
      using n by (auto simp: lstat_update split: if_splits)
    moreover have "fs' = fs2" using Cons.prems(2) f 1 Inr 2 by (auto split: sum.splits)
    ultimately show ?thesis by simp
  qed
qed simp

lemma rollback_path_eq:
  assumes "plain_path dir" and "good_names dir" and "plain_name n" and "sep \<notin> set n"
  shows "rollback_path (user_path dir) n = user_path (dir @ [n])"
proof (cases dir)
  case (Cons m ms)
  then have m: "m \<noteq> []" "sep \<notin> set m" using assms(1,2) by (auto simp: plain_path_def plain_name_def good_names_def)
  then obtain c cs where "m = c # cs" "c \<noteq> sep" by (cases m) auto
  with Cons show ?thesis by (simp add: rollback_path_def user_path_def py_lstrip_char_def)
qed (simp add: rollback_path_def user_path_def)

lemma delete_new:
  assumes "no_links fs base" and "plain_path dir" and "good_names dir" and "distinct ns"
    and "\<forall>n \<in> set ns. plain_name n \<and> sep \<notin> set n \<and> nul \<notin> set n \<and> (\<exists>b. lstat fs (base @ dir @ [n]) = Some (FileNode b))"
  shows "\<exists>out fs'. delete_paths base (map (rollback_path (user_path dir)) ns) del fs = (Inr out, fs') \<and>
    (\<forall>x. lstat fs' x = (if x \<in> (\<lambda>n. base @ dir @ [n]) ` set ns then None else lstat fs x))"
  using assms(1,4,5)
proof (induction ns arbitrary: del fs)
  case (Cons n ns)
  let ?p = "base @ dir @ [n]"
  have pn: "plain_path (dir @ [n])" "good_names (dir @ [n])" using Cons.prems assms(2,3) by (auto simp: plain_path_def good_names_def)
  have lf: "link_free fs (base @ dir @ [n])" using no_links_below [OF Cons.prems(1) pn(1)] by simp
  have b: "link_free fs base" using Cons.prems(1) by (simp add: no_links_def)
  obtain c where c: "lstat fs ?p = Some (FileNode c)" using Cons.prems by auto
  have r: "resolve_safe_path base (rollback_path (user_path dir) n) fs = Inr ?p"
    using resolve_plain [OF b lf] pn c Cons.prems rollback_path_eq [OF assms(2,3)] by simp
  have "\<not> is_dir fs ?p" using c stat_link_free [OF lf] by (simp add: is_dir_def)
  then have d: "delete_resolved ?p fs = AList.delete ?p fs" by (simp add: delete_resolved_def remove_file_def)
  have "no_links (AList.delete ?p fs) base"
    using Cons.prems(1) delete_resolved_links [of ?p fs] no_links_mono d by metis
  moreover have "\<forall>m \<in> set ns. \<exists>b. lstat (AList.delete ?p fs) (base @ dir @ [m]) = Some (FileNode b)"
    using Cons.prems by (auto simp: lstat_delete)
  ultimately show ?case using Cons.IH [of "AList.delete ?p fs" "del @ [rollback_path (user_path dir) n]"] Cons.prems r d
    by (auto simp: lstat_delete)
qed simp

lemma rolled_back:
  assumes "folder_ok base dir fs" and "store_all base (user_path dir) res files fs = (Inr rs, fs')" and "res \<in> {None, Some RENAME}"
  obtains out fs4 where "delete_paths base (map (\<lambda>r. rollback_path (user_path dir) (up_name r)) rs) [] fs' = (Inr out, fs4)"
    "\<And>x. lstat fs4 x = lstat fs x"
proof -
  note new = store_all_new [OF assms]
  obtain out fs4 where d: "delete_paths base (map (rollback_path (user_path dir)) (map up_name rs)) [] fs' = (Inr out, fs4)"
    "\<And>x. lstat fs4 x = (if x \<in> (\<lambda>n. base @ dir @ [n]) ` set (map up_name rs) then None else lstat fs' x)"
    using delete_new [of fs' base dir "map up_name rs" "[]"] new by (auto simp: folder_ok_def)
  show thesis
  proof (rule that)
    show "delete_paths base (map (\<lambda>r. rollback_path (user_path dir) (up_name r)) rs) [] fs' = (Inr out, fs4)"
      using d(1) by (simp add: comp_def)
    show "lstat fs4 x = lstat fs x" for x using d(2) [of x] new by auto
  qed
qed

section \<open>Properties\<close>

text \<open>C10: the storage of one user is out of the reach of the others. Whatever sequence of requests other
  users make, with whatever paths and names, every entry of a user's directory stays as it was,
  and no links appear in the storage. The storage starts without links.\<close>

theorem user_storage_isolated:
  assumes "storage_ok data fs" and "0 < u" and "\<forall>op \<in> set ops. 0 < op_user op \<and> op_user op \<noteq> u"
    and "prefix (users_dir data u) x"
  shows "storage_ok data (fold (storage_step data store dq) ops fs) \<and>
    lstat (fold (storage_step data store dq) ops fs) x = lstat fs x"
  using assms(1,3)
proof (induction ops arbitrary: fs)
  case (Cons op ops)
  let ?fs1 = "storage_step data store dq op fs"
  have "lstat ?fs1 x = lstat fs x"
    using storage_step_stays [OF Cons.prems(1), of op] users_dirs_apart [OF _ assms(2) _ assms(4), of "op_user op"] Cons.prems(2)
    by (simp add: stays_def)
  moreover have "storage_ok data ?fs1" by (rule storage.step_inv [OF Cons.prems(1)])
  ultimately show ?case using Cons.IH [of ?fs1] Cons.prems(2) by simp
qed simp

definition demo_storage :: fs where
  "demo_storage = [([], DirNode), ([''d''], DirNode), ([''d'', ''users''], DirNode), ([''d'', ''users'', ''1''], DirNode),
     ([''d'', ''users'', ''1'', ''a''], FileNode [1, 2])]"

lemma demo_storage_links: "\<not> is_link demo_storage p"
  by (auto simp: is_link_def lstat_def demo_storage_def)

lemma demo_storage_no_links: "plain_path p \<Longrightarrow> no_links demo_storage p"
  by (simp add: no_links_def link_free_def demo_storage_links)

lemma demo_user: "users_dir [''d''] 1 = [''d'', ''users'', ''1'']"
proof -
  have "nat_digits 1 = ''1''" by code_simp
  then show ?thesis by (simp add: users_dir_def)
qed

lemma demo_storage_fs_ok: "fs_ok demo_storage"
proof -
  have "lstat demo_storage (p @ [n]) \<noteq> None \<Longrightarrow> lstat demo_storage p = Some DirNode \<and> plain_name n" for p n
    by (auto simp: lstat_def demo_storage_def plain_name_def append_eq_Cons_conv split: if_splits)
  then show ?thesis by (auto simp: fs_ok_def) (simp_all add: demo_storage_def lstat_def)
qed

theorem user_storage_isolated_witness:
  "lstat (fold (storage_step [''d''] create_store 10) [SDelete 2 [''../1/a''], SUpload 2 ''../1'' (Some OVERWRITE) 0 [(''a'', [9])]]
     demo_storage) [''d'', ''users'', ''1'', ''a''] = Some (FileNode [1, 2])"
proof -
  have "storage_ok [''d''] demo_storage"
    unfolding storage_ok_def by (rule demo_storage_no_links) (simp add: plain_path_def plain_name_def)
  from user_storage_isolated [OF this, of 1 "[SDelete 2 [''../1/a''], SUpload 2 ''../1'' (Some OVERWRITE) 0 [(''a'', [9])]]"
      "[''d'', ''users'', ''1'', ''a'']" create_store 10]
  show ?thesis by (simp add: demo_user) (simp add: demo_storage_def lstat_def)
qed

lemma upload_status_not_413: "upload_status e \<noteq> StorageStatus 413" "upload_status e \<noteq> StorageOk rs"
  by (cases e; simp)+

lemma usage_bytes_Inr: "usage_bytes data u fs = (Inr n, fs') \<Longrightarrow> n = int (tree_bytes (users_dir data u) fs')"
  using user_dir_base by (fastforce simp: usage_bytes_def split: prod.splits sum.splits)

text \<open>C20: the quota of uploads into an existing directory of a user's storage. An upload that is accepted
  leaves the user within the quota, whatever length the request declared and whatever is asked for on a
  conflict. It is answered 413 only when the declared length does not fit, or when the
  files were stored and exceed the quota. When existing names are refused or renamed (no conflict
  resolution, or \<open>rename\<close>), an upload changes no existing entry, whatever the reply, and after a 413 every
  entry of the file system is what it was. With \<open>skip\<close> and \<open>overwrite\<close> the roll-back of a 413
  may remove existing files, and after a 409 the files stored before the conflict stay.\<close>

theorem quota_enforced:
  assumes "fs_ok fs" and "storage_ok data fs" and "0 < u" and "lstat fs (users_dir data u) = Some DirNode"
    and "plain_path dir" and "good_names dir" and "lstat fs (users_dir data u @ dir) = Some DirNode"
    and "effective_quota store dq u = Inr quota"
    and "storage_upload data store dq u (user_path dir) res declared files fs = (reply, fs')"
  shows "(\<forall>rs. reply = StorageOk rs \<longrightarrow> int (tree_bytes (users_dir data u) fs') \<le> quota) \<and>
    (reply = StorageStatus 413 \<longrightarrow> declared \<noteq> 0 \<and> int (tree_bytes (users_dir data u) fs) + declared > quota \<or>
      (\<exists>rs fs2. store_all (users_dir data u) (user_path dir) res files fs = (Inr rs, fs2) \<and>
        quota < int (tree_bytes (users_dir data u) (snd (user_dir data u fs2))))) \<and>
    (res \<in> {None, Some RENAME} \<longrightarrow>
      (\<forall>x. lstat fs x \<noteq> None \<longrightarrow> lstat fs' x = lstat fs x) \<and>
      (reply = StorageStatus 413 \<longrightarrow> (\<forall>x. lstat fs' x = lstat fs x)))"
proof -
  let ?base = "users_dir data u" and ?p = "user_path dir"
  have ok: "folder_ok ?base dir fs" using assms(1,4-7) ok_user [OF assms(2)] by (simp add: folder_ok_def)
  have ud: "user_dir data u fs' = (Inr ?base, fs')" "usage_bytes data u fs' = (Inr (int (tree_bytes ?base fs')), fs')"
    if "folder_ok ?base dir fs'" for fs'
    using user_dir_present [of fs' data u] that assms(3) by (simp_all add: folder_ok_def usage_bytes_def)
  obtain r2 fs2 where 2: "store_all ?base ?p res files fs = (r2, fs2)" by fastforce
  obtain r3 fs3 where 3: "usage_bytes data u fs2 = (r3, fs3)" by fastforce
  note run = assms(9) [unfolded storage_upload_def ud(1) [OF ok] prod.case sum.case assms(8) ud(2) [OF ok] 2 3]
  have fs3: "fs3 = snd (user_dir data u fs2)" using 3 by (auto simp: usage_bytes_def split: prod.splits sum.splits)
  have acc: "int (tree_bytes ?base fs') \<le> quota" if "reply = StorageOk rs" for rs
    using that run 3 usage_bytes_Inr [of data u fs2] by (auto simp: upload_status_not_413 split: if_splits sum.splits prod.splits)
  have ref: "declared \<noteq> 0 \<and> int (tree_bytes ?base fs) + declared > quota \<or>
      (\<exists>rs fs2. store_all ?base ?p res files fs = (Inr rs, fs2) \<and> quota < int (tree_bytes ?base (snd (user_dir data u fs2))))"
    if "reply = StorageStatus 413"
    using that run 2 3 fs3 usage_bytes_Inr [of data u fs2] by (auto simp: upload_status_not_413 split: if_splits sum.splits prod.splits)
  have keep: "(\<forall>x. lstat fs x \<noteq> None \<longrightarrow> lstat fs' x = lstat fs x) \<and> (reply = StorageStatus 413 \<longrightarrow> (\<forall>x. lstat fs' x = lstat fs x))"
    if res: "res \<in> {None, Some RENAME}"
  proof (cases "declared \<noteq> 0 \<and> int (tree_bytes ?base fs) + declared > quota")
    case True
    then show ?thesis using run by auto
  next
    case False
    note k = store_all_keeps [OF ok 2 res]
    show ?thesis
    proof (cases r2)
      case (Inl e)
      then show ?thesis using run False k upload_status_not_413(1) [of e] by (auto split: if_splits)
    next
      case (Inr rs)
      obtain out fs4 where d: "delete_paths ?base (map (\<lambda>r. rollback_path ?p (up_name r)) rs) [] fs2 = (Inr out, fs4)"
        "\<And>x. lstat fs4 x = lstat fs x"
        using rolled_back [OF ok 2 [unfolded Inr] res] by metis
      have "r3 = Inr (int (tree_bytes ?base fs2))" "fs3 = fs2" using 3 ud(2) [of fs2] k by auto
      then show ?thesis using run False Inr d k by (auto split: if_splits)
    qed
  qed
  show ?thesis using acc ref keep by blast
qed

text \<open>Uploads whose outcome depends on one name only.\<close>

definition valid_name :: "str \<Rightarrow> bool" where
  "valid_name n \<longleftrightarrow> validate_upload_filename n = Inr n"

lemma upload_resolved:
  assumes "folder_ok base dir fs" and "valid_name n"
  shows "resolve_safe_path base (user_path dir) fs = Inr (base @ dir)" and "link_free fs (base @ dir @ [n])" and "link_free fs (base @ dir)"
    and "plain_name n \<and> sep \<notin> set n \<and> nul \<notin> set n"
proof -
  show f: "link_free fs (base @ dir)" using assms(1) no_links_below by (auto simp: folder_ok_def no_links_def)
  have b: "link_free fs base" using assms(1) by (simp add: folder_ok_def no_links_def)
  show "resolve_safe_path base (user_path dir) fs = Inr (base @ dir)"
    using resolve_plain [OF b f, of] assms(1) resolve_base_link_free [OF b]
    by (cases "dir = []") (simp_all add: folder_ok_def user_path_def resolve_safe_path_def)
  show n: "plain_name n \<and> sep \<notin> set n \<and> nul \<notin> set n" using validate_upload_plain assms(2) by (auto simp: valid_name_def)
  have "plain_path (dir @ [n])" using assms(1) n by (auto simp: folder_ok_def plain_path_def)
  then show "link_free fs (base @ dir @ [n])" using assms(1) no_links_below by (auto simp: folder_ok_def)
qed

lemma upload_existing:
  assumes "folder_ok base dir fs" and "valid_name n" and "lstat fs (base @ dir @ [n]) = Some (FileNode c)"
  shows "upload_file base (user_path dir) n content (Some SKIP) fs = (Inr \<lparr>up_name = n, up_size = Some (length c), up_skipped = True\<rparr>, fs)"
    and "upload_file base (user_path dir) n content None fs = (Inl (FileConflictError n), fs)"
  using upload_resolved [OF assms(1,2)] assms(2,3) stat_link_free [of fs "base @ dir @ [n]"]
  by (simp_all add: upload_file_def valid_name_def path_exists_def entry_of_def)

lemma upload_fresh:
  assumes "folder_ok base dir fs" and "valid_name n" and "lstat fs (base @ dir @ [n]) = None"
  shows "upload_file base (user_path dir) n content res fs =
    (Inr \<lparr>up_name = n, up_size = Some (length content), up_skipped = False\<rparr>, AList.update (base @ dir @ [n]) (FileNode content) fs)"
proof -
  note r = upload_resolved [OF assms(1,2)]
  have "realpath fs [] [] (base @ dir @ [n]) = Some (base @ dir @ [n])"
    using realpath_plain [of fs "[]" "base @ dir @ [n]" "[]"] r(2) by simp
  moreover have "butlast (base @ dir @ [n]) = base @ dir" by (simp add: butlast_append)
  moreover have "lstat fs (base @ dir) = Some DirNode" using assms(1) by (simp add: folder_ok_def)
  ultimately show ?thesis using r assms(2,3) stat_link_free [OF r(2)]
    by (simp add: upload_file_def valid_name_def path_exists_def write_upload_def write_upload_chunks_eq write_file_def)
qed

lemma storage_upload_run:
  assumes "folder_ok (users_dir data u) dir fs" and "0 < u" and "effective_quota store dq u = Inr quota"
    and "store_all (users_dir data u) (user_path dir) res files fs = (r, fs2)" and "folder_ok (users_dir data u) dir fs2"
  shows "storage_upload data store dq u (user_path dir) res 0 files fs = (case r of
     Inl e \<Rightarrow> (upload_status e, fs2)
   | Inr results \<Rightarrow>
       if int (tree_bytes (users_dir data u) fs2) > quota
       then (case delete_paths (users_dir data u) (map (\<lambda>r. rollback_path (user_path dir) (up_name r)) results) [] fs2 of
           (Inl e, fs4) \<Rightarrow> (StorageRaised e, fs4) | (Inr _, fs4) \<Rightarrow> (StorageStatus 413, fs4))
       else (StorageOk results, fs2))"
proof -
  have ud: "user_dir data u fs' = (Inr (users_dir data u), fs')"
      "usage_bytes data u fs' = (Inr (int (tree_bytes (users_dir data u) fs')), fs')"
    if "folder_ok (users_dir data u) dir fs'" for fs'
    using user_dir_present [of fs' data u] that assms(2) by (simp_all add: folder_ok_def usage_bytes_def)
  show ?thesis by (simp add: storage_upload_def ud assms split: sum.split)
qed

text \<open>The rollback deletes what the upload did not write: a file that was skipped because it existed is
  deleted with the new one that exceeds the quota.\<close>

lemma rollback_deletes_skipped:
  assumes "folder_ok (users_dir data u) dir fs" and "0 < u" and "effective_quota store dq u = Inr quota"
    and "valid_name a" and "valid_name b" and "a \<noteq> b"
    and "lstat fs (users_dir data u @ dir @ [a]) = Some (FileNode c)" and "lstat fs (users_dir data u @ dir @ [b]) = None"
    and "quota < int (tree_bytes (users_dir data u) (AList.update (users_dir data u @ dir @ [b]) (FileNode y) fs))"
  shows "\<exists>fs'. storage_upload data store dq u (user_path dir) (Some SKIP) 0 [(a, x), (b, y)] fs = (StorageStatus 413, fs') \<and>
    lstat fs' (users_dir data u @ dir @ [a]) = None"
proof -
  let ?base = "users_dir data u"
  let ?fs2 = "AList.update (?base @ dir @ [b]) (FileNode y) fs"
  note va = upload_resolved [OF assms(1,4)] and vb = upload_resolved [OF assms(1,5)]
  have ok2: "folder_ok ?base dir ?fs2" using folder_ok_new [OF assms(1) _ assms(8)] vb by simp
  have up: "store_all ?base (user_path dir) (Some SKIP) [(a, x), (b, y)] fs =
      (Inr [\<lparr>up_name = a, up_size = Some (length c), up_skipped = True\<rparr>, \<lparr>up_name = b, up_size = Some (length y), up_skipped = False\<rparr>], ?fs2)"
    using upload_existing(1) [OF assms(1,4,7)] upload_fresh [OF assms(1,5,8)] by simp
  have "\<forall>n \<in> set [a, b]. plain_name n \<and> sep \<notin> set n \<and> nul \<notin> set n \<and> (\<exists>b. lstat ?fs2 (?base @ dir @ [n]) = Some (FileNode b))"
    using va vb assms(6,7) by (simp add: lstat_update)
  then obtain out fs4 where d: "delete_paths ?base (map (rollback_path (user_path dir)) [a, b]) [] ?fs2 = (Inr out, fs4)"
    "\<forall>x. lstat fs4 x = (if x \<in> (\<lambda>n. ?base @ dir @ [n]) ` set [a, b] then None else lstat ?fs2 x)"
    using delete_new [of ?fs2 ?base dir "[a, b]" "[]"] ok2 assms(6) by (auto simp: folder_ok_def)
  then show ?thesis using storage_upload_run [OF assms(1-3) up ok2] assms(9) by auto
qed

text \<open>A conflict ends the request before the quota is looked at again: the files written before it stay,
  whatever their size, when the request declares no length.\<close>

lemma conflict_escapes_quota:
  assumes "folder_ok (users_dir data u) dir fs" and "0 < u" and "effective_quota store dq u = Inr quota"
    and "valid_name a" and "valid_name b" and "a \<noteq> b"
    and "lstat fs (users_dir data u @ dir @ [a]) = Some (FileNode c)" and "lstat fs (users_dir data u @ dir @ [b]) = None"
  shows "storage_upload data store dq u (user_path dir) None 0 [(b, y), (a, x)] fs =
    (StorageStatus 409, AList.update (users_dir data u @ dir @ [b]) (FileNode y) fs)"
proof -
  let ?base = "users_dir data u"
  let ?fs2 = "AList.update (?base @ dir @ [b]) (FileNode y) fs"
  have ok2: "folder_ok ?base dir ?fs2" using folder_ok_new [OF assms(1) _ assms(8)] upload_resolved [OF assms(1,5)] by simp
  have "store_all ?base (user_path dir) None [(b, y), (a, x)] fs = (Inl (FileConflictError a), ?fs2)"
    using upload_fresh [OF assms(1,5,8)] upload_existing(2) [OF ok2 assms(4), of c] assms(6,7) by (simp add: lstat_update)
  from storage_upload_run [OF assms(1-3) this ok2] show ?thesis by simp
qed

text \<open>Downloading a directory is not answered with 404: the handler expects \<open>ValueError\<close>, while the service
  raises an exception of its own.\<close>

lemma download_of_directory_raises:
  assumes "folder_ok (users_dir data u) dir fs" and "0 < u" and "valid_name n"
  shows "storage_download data u (user_path dir) fs = (StorageRaised InvalidFileRequestError, fs)"
  using assms user_dir_present [of fs data u] upload_resolved [OF assms(1,3)] stat_link_free [of fs "users_dir data u @ dir"]
  by (simp add: storage_download_def folder_ok_def download_file_def is_dir_def)

theorem quota_enforced_witness:
  "\<exists>fs'. storage_upload [''d''] create_store 3 1 (user_path []) None 0 [(''b'', [5, 6, 7])] demo_storage = (StorageStatus 413, fs') \<and>
     lstat fs' [''d'', ''users'', ''1'', ''b''] = None \<and> lstat fs' [''d'', ''users'', ''1'', ''a''] = Some (FileNode [1, 2])"
proof -
  let ?base = "users_dir [''d''] 1" and ?b = "[''d'', ''users'', ''1'', ''b'']"
  let ?fs2 = "AList.update (?base @ [] @ [''b'']) (FileNode [5, 6, 7]) demo_storage"
  have st: "storage_ok [''d''] demo_storage"
    unfolding storage_ok_def by (rule demo_storage_no_links) (simp add: plain_path_def plain_name_def)
  have d: "lstat demo_storage ?base = Some DirNode" unfolding demo_user by (simp add: lstat_def demo_storage_def)
  have q: "effective_quota create_store 3 1 = Inr 3" by (simp add: effective_quota_def get_user_quota_def create_store_def fetchone_def)
  have ok: "folder_ok ?base [] demo_storage"
    using demo_storage_fs_ok ok_user [OF st] d by (simp add: folder_ok_def plain_path_def good_names_def)
  have v: "valid_name ''b''" by (simp add: valid_name_def validate_upload_filename_def nul_def sep_def py_startswith_def)
  have new: "lstat demo_storage (?base @ [] @ [''b'']) = None" unfolding demo_user by (simp add: lstat_def demo_storage_def)
  have ok2: "folder_ok ?base [] ?fs2" using folder_ok_new [OF ok _ new] upload_resolved [OF ok v] by simp
  have up: "store_all ?base (user_path []) None [(''b'', [5, 6, 7])] demo_storage =
      (Inr [\<lparr>up_name = ''b'', up_size = Some 3, up_skipped = False\<rparr>], ?fs2)"
    using upload_fresh [OF ok v new, of "[5, 6, 7]" None] by simp
  have fs2: "?fs2 = demo_storage @ [(?b, FileNode [5, 6, 7])]" unfolding demo_user by (simp add: demo_storage_def)
  have st2: "stat ?fs2 p = lstat ?fs2 p" if "plain_path p" for p
  proof -
    have "\<not> is_link ?fs2 q" for q using demo_storage_links [of q] by (auto simp: is_link_def lstat_update split: if_splits)
    then show ?thesis using that by (intro stat_link_free) (simp add: link_free_def)
  qed
  have st3: "stat (demo_storage @ [(?b, FileNode [5, 6, 7])]) p = lstat (demo_storage @ [(?b, FileNode [5, 6, 7])]) p" if "plain_path p" for p
    using st2 [OF that] unfolding fs2 .
  have "tree_bytes ?base ?fs2 = 5"
    unfolding fs2 unfolding demo_user tree_bytes_def using st3 [unfolded demo_storage_def] unfolding demo_storage_def
    by (simp add: entry_bytes_def plain_path_def plain_name_def strict_prefix_def) (simp add: lstat_def)
  moreover obtain out fs4 where "delete_paths ?base (map (rollback_path (user_path [])) [''b'']) [] ?fs2 = (Inr out, fs4)"
    using delete_new [of ?fs2 ?base "[]" "[''b'']" "[]"] ok2 upload_resolved [OF ok v] by (auto simp: folder_ok_def lstat_update)
  ultimately have run: "storage_upload [''d''] create_store 3 1 (user_path []) None 0 [(''b'', [5, 6, 7])] demo_storage = (StorageStatus 413, fs4)"
    using storage_upload_run [OF ok _ q up ok2] by simp
  from quota_enforced [OF demo_storage_fs_ok st _ d _ _ _ q run] d
  show ?thesis using run by (simp add: plain_path_def good_names_def) (simp add: lstat_def demo_storage_def)
qed

end
