(* ===== verification/Relay_Web.thy ===== *)
theory Relay_Web
  imports Relay_Lifecycle Server_Startup User_Storage
begin

text \<open>
  The relay as a web application: the drop box behind it (\<open>services/dropbox.py\<close>), sessions as a browser sees
  them and the routes that only read accounts (\<open>routers/auth.py\<close>, \<open>admin.py\<close>), the assembly of the
  application from its settings (\<open>main.py\<close>) and the lines of its log (\<open>logging.py\<close>).
\<close>

section \<open>The drop box (services/dropbox.py)\<close>

datatype dropbox_exn = DropboxFolder file_exn | DropboxConfig start_exn

text \<open>The settings of the server behind the drop box, the address shown for it, and the file system with its
  folder.\<close>

definition init_dropbox ::
  "path \<Rightarrow> str \<Rightarrow> str option \<Rightarrow> fs \<Rightarrow> (dropbox_exn, server_config \<times> str option) result \<times> fs" where
  "init_dropbox dir code relay_url fs =
     (let dropbox_dir = dir @ [''dropbox''] in
      case ensure_dirs [] dropbox_dir fs of
        (Inl e, fs') \<Rightarrow> (Inl (DropboxFolder e), fs')
      | (Inr _, fs') \<Rightarrow> (map_sum DropboxConfig (\<lambda>cfg. (cfg, relay_url))
          (ServerConfig_init fs' dropbox_dir None False False (Some code) None), fs'))"

section \<open>Sessions in a browser (routers/auth.py)\<close>

type_synonym jar = "(str \<times> str) list"

text \<open>The effect of a reply on the cookies of the browser: \<open>set_cookie\<close> and \<open>delete_cookie\<close> for the path of the
  session, which is the whole site.\<close>

definition set_session_cookie :: "str \<Rightarrow> jar \<Rightarrow> jar" where
  "set_session_cookie token j = AList.update SESSION_COOKIE_NAME token j"

definition logout :: "jar \<Rightarrow> jar" where
  "logout j = AList.delete SESSION_COOKIE_NAME j"

definition me :: "loads_fn \<Rightarrow> (json \<Rightarrow> str) \<Rightarrow> str set \<Rightarrow> jar \<Rightarrow> (http_exn, json) result" where
  "me loads str_of admins cookies = res_bind (get_current_identity loads str_of cookies) (\<lambda>i.
     Inr (JObj [(''user_id'', JInt (ident_user_id i)), (''username'', JStr (ident_username i)),
       (''is_admin'', JBool (is_admin_username (ident_username i) admins))]))"

section \<open>Lists for administrators (routers/admin.py)\<close>

text \<open>The time of creation stands beside the other fields, since it is not an integer.\<close>

definition user_fields :: "user \<Rightarrow> json" where
  "user_fields u = JObj [(''id'', JInt (uid u)), (''username'', JStr (username u)),
     (''email'', case email u of None \<Rightarrow> JNull | Some e \<Rightarrow> JStr e), (''is_active'', JBool (is_active u))]"

definition admin_list_users :: "accounts_db \<Rightarrow> (json \<times> timestamp) list" where
  "admin_list_users db = map (\<lambda>u. (user_fields u, user_created_at u)) (list_users db)"

definition admin_list_groups :: "accounts_db \<Rightarrow> (json \<times> timestamp) list" where
  "admin_list_groups db =
     map (\<lambda>g. (JObj [(''id'', JInt (gid g)), (''name'', JStr (gname g))], group_created_at g)) (list_groups db)"

section \<open>The application (main.py)\<close>

datatype router = HealthRouter | LandingRouter | PagesRouter | AuthRouter | OidcRouter | AdminRouter | AccessRequestsRouter
  | UserStorageRouter | AgentWsRouter | MountProxyRouter

record relay_app =
  ra_origins :: json
  ra_credentials :: bool
  ra_rates :: auth_rates
  ra_routers :: "router list"

definition create_relay_app :: "RelayConfig \<Rightarrow> (config_exn, relay_app) result" where
  "create_relay_app cfg =
     (let production = (rc_env cfg = PRODUCTION) in
      res_bind (set_auth_rates (rc_signup_rate cfg) (rc_login_rate cfg) (rc_agent_token_rate cfg) (rc_proxy_request_rate cfg)) (\<lambda>rates.
      Inr \<lparr>ra_origins = (if production then rc_allowed_origins cfg else JList [JStr ''*'']),
        ra_credentials = production, ra_rates = rates,
        ra_routers = [HealthRouter, LandingRouter, PagesRouter, AuthRouter] @ (if oidc_enabled cfg then [OidcRouter] else []) @
          [AdminRouter, AccessRequestsRouter, UserStorageRouter, AgentWsRouter, MountProxyRouter]\<rparr>))"

section \<open>The log (logging.py)\<close>

definition SEVERITY_MAP :: "(str \<times> str) list" where
  "SEVERITY_MAP = map (\<lambda>s. (s, s)) [''DEBUG'', ''INFO'', ''WARNING'', ''ERROR'', ''CRITICAL'']"

record log_record =
  lr_level :: str
  lr_message :: str
  lr_logger :: str
  lr_trace :: "str option"

definition log_entry :: "log_record \<Rightarrow> json" where
  "log_entry r = JObj ([(''severity'', JStr (case map_of SEVERITY_MAP (lr_level r) of None \<Rightarrow> lr_level r | Some s \<Rightarrow> s)),
     (''message'', JStr (lr_message r)), (''logger'', JStr (lr_logger r))] @
     (case lr_trace r of None \<Rightarrow> [] | Some t \<Rightarrow> [(''stack_trace'', JStr t)]))"

definition cloud_format :: "log_record \<Rightarrow> str" where
  "cloud_format r = dumps_text (log_entry r)"

section \<open>Lemmas\<close>

text \<open>The drop box believes no identity header and has no mode: every visitor may use every route of it.\<close>

lemma dropbox_open:
  assumes "fst (init_dropbox dir code relay_url fs) = Inr (cfg, shown)"
  shows "shown = relay_url" and "trusted_role mac cfg get = Inr None" and "trusted_user mac cfg get = Inr None"
    and "route_allowed mac cfg get rt"
proof -
  have c: "cfg_mount_code cfg = Some code" "cfg_identity_secret cfg = None" "\<not> cfg_read_only cfg" "\<not> cfg_receive cfg" "shown = relay_url"
    using assms by (auto simp: init_dropbox_def Let_def ServerConfig_init_def map_sum_def split: prod.splits sum.splits if_splits option.splits)
  have v: "verified_identity mac cfg get = Inr None" using c by (auto simp: verified_identity_def split: option.splits)
  then show r: "trusted_role mac cfg get = Inr None" and "trusted_user mac cfg get = Inr None"
    by (simp_all add: trusted_role_def trusted_user_def res_bind_def)
  show "shown = relay_url" by (rule c(5))
  have "is_ok (run_guard mac cfg get g)" for g using c(3,4) unfolding guard_trusted [OF r] by (cases g) simp_all
  then show "route_allowed mac cfg get rt" by (simp add: route_allowed_def run_guards_iff)
qed

text \<open>A browser that has logged in is the user of the login until it logs out, and nobody afterwards; its other
  cookies stay.\<close>

lemma browser_session:
  assumes "login dumps checkpw admins name password db = Inr (n, admin, token)"
    and "\<And>u. get_user_by_username name db = Inr u \<Longrightarrow>
      loads SESSION_SALT (dumps SESSION_SALT (session_payload (uid u) n)) SESSION_MAX_AGE_SECONDS = Loaded (session_payload (uid u) n) \<and>
      dumps SESSION_SALT (session_payload (uid u) n) \<noteq> []"
  shows "\<exists>u. get_user_by_username name db = Inr u \<and> username u = n \<and> is_active u \<and>
    me loads str_of admins (set_session_cookie token j) =
      Inr (JObj [(''user_id'', JInt (uid u)), (''username'', JStr n), (''is_admin'', JBool admin)])"
    and "me loads str_of admins (logout j') = Inl (HTTPException 401 ''Authentication required'')"
    and "k \<noteq> SESSION_COOKIE_NAME \<Longrightarrow> map_of (logout (set_session_cookie token j)) k = map_of j k"
proof -
  obtain u where c: "check_credentials checkpw name password db = Inr u" using assms(1) by (auto simp: login_def res_bind_eq_Inr)
  have u: "check_credentials checkpw name password db = Inr u" "n = username u" "admin = is_admin_username n admins"
    "issue dumps (uid u) (username u) = Inr token"
    using assms(1) c by (auto simp: login_def res_bind_def split: sum.splits)
  then have g: "get_user_by_username name db = Inr u" "is_active u" by (auto simp: check_credentials_iff)
  have t: "token = dumps SESSION_SALT (session_payload (uid u) n)" using u by (auto simp: issue_def split: if_splits)
  have "verify_session_cookie loads str_of token = Inr \<lparr>ident_user_id = uid u, ident_username = n\<rparr>"
    using assms(2) [OF g(1)]
    by (simp add: t verify_session_cookie_def verify_def loads_or_raise_def to_identity_def session_payload_def res_bind_def)
  then show "\<exists>u. get_user_by_username name db = Inr u \<and> username u = n \<and> is_active u \<and>
      me loads str_of admins (set_session_cookie token j) =
        Inr (JObj [(''user_id'', JInt (uid u)), (''username'', JStr n), (''is_admin'', JBool admin)])"
    using g u(2,3) assms(2) [OF g(1)] t
    by (auto simp: me_def get_current_identity_def identity_from_cookies_def set_session_cookie_def update_conv' res_bind_def)
  show "me loads str_of admins (logout j') = Inl (HTTPException 401 ''Authentication required'')"
    by (simp add: me_def get_current_identity_def identity_from_cookies_def logout_def delete_conv' res_bind_def)
  show "k \<noteq> SESSION_COOKIE_NAME \<Longrightarrow> map_of (logout (set_session_cookie token j)) k = map_of j k"
    by (simp add: logout_def set_session_cookie_def delete_conv' update_conv')
qed

text \<open>Cookies are only sent across origins in production, and then only to the configured origins; single
  sign-on has routes exactly when it is configured.\<close>

lemma relay_app_origins:
  assumes "create_relay_app cfg = Inr app"
  shows "ra_credentials app \<Longrightarrow> rc_env cfg = PRODUCTION \<and> ra_origins app = rc_allowed_origins cfg"
    and "OidcRouter \<in> set (ra_routers app) \<longleftrightarrow> oidc_enabled cfg" and "distinct (ra_routers app)"
  using assms by (auto simp: create_relay_app_def Let_def res_bind_eq_Inr)

text \<open>A log entry is one line, whatever its message contains, and reads back as the entry: no message can
  forge another entry.\<close>

lemma quoted_one_line: "CHR 0x0A \<notin> set (quoted s) \<and> CHR 0x0D \<notin> set (quoted s)"
proof -
  have hex: "hex_lower m \<noteq> CHR 0x0A \<and> hex_lower m \<noteq> CHR 0x0D" if "m < 16" for m
    using hex_value_lower [OF that] by (auto simp: hex_value_def)
  have "CHR 0x0A \<notin> set (esc_char c) \<and> CHR 0x0D \<notin> set (esc_char c)" for c
  proof -
    have "(of_char c :: nat) < 256" by simp
    then have "(of_char c :: nat) div 16 < 16" "(of_char c :: nat) mod 16 < 16" by linarith+
    note h = hex [OF this(1)] hex [OF this(2)]
    then show ?thesis by (auto simp: esc_char_def Let_def dest: sym)
  qed
  then show ?thesis by (auto simp: quoted_def)
qed

lemma log_one_line:
  "CHR 0x0A \<notin> set (cloud_format r) \<and> CHR 0x0D \<notin> set (cloud_format r)"
  "json_loads (utf8_encode (cloud_format r)) = Some (log_entry r)"
proof -
  have j: "CHR 0x0A \<notin> set (join '', '' xs) \<and> CHR 0x0D \<notin> set (join '', '' xs)"
    if "\<forall>x \<in> set xs. CHR 0x0A \<notin> set x \<and> CHR 0x0D \<notin> set x" for xs
    using that by (induction xs rule: induct_list012) auto
  show "CHR 0x0A \<notin> set (cloud_format r) \<and> CHR 0x0D \<notin> set (cloud_format r)"
    using quoted_one_line by (auto simp: cloud_format_def log_entry_def intro!: j [THEN conjunct1] j [THEN conjunct2] split: option.splits)
  have "json_plain (log_entry r)" by (auto simp: log_entry_def split: option.splits)
  from json_roundtrip [OF this] show "json_loads (utf8_encode (cloud_format r)) = Some (log_entry r)"
    by (simp add: cloud_format_def json_dumps_def)
qed

end
