(* ===== verification/Oidc_Client.thy ===== *)
theory Oidc_Client
  imports Proxy_Identity
begin

text \<open>
  The client of the identity provider: \<open>relay/app/services/oidc.py\<close>. The provider is outside of the source:
  its answer to each of the three requests is an argument. The client keeps the discovery document of
  the first answer, so every operation returns the client with its result.
\<close>

section \<open>The client\<close>

record OidcClient =
  oc_issuer :: str
  oc_client_id :: str
  oc_client_secret :: str
  oc_redirect_uri :: str
  oc_scopes :: str
  oc_discovery :: "json option"

text \<open>\<open>OidcError\<close> is the client's own exception; the others are those of Python that pass through.\<close>

datatype oidc_exn = OidcError | OidcKeyError | OidcTypeError | OidcOther

datatype oidc_request = DiscoveryRequest str | TokenRequest str "(str \<times> str) list" | UserinfoRequest str str

text \<open>What comes of a request: an \<open>httpx.HTTPError\<close>, another exception of the package such as \<open>InvalidURL\<close>,
  or a response. \<open>reply_json\<close> is \<open>raise_for_status\<close>, which only lets statuses 200 to 299 pass, followed by
  \<open>json\<close>, under the \<open>except\<close> clause the three operations share.\<close>

datatype http_outcome = HttpError | HttpOther | HttpReply nat json_text

type_synonym provider = "oidc_request \<Rightarrow> http_outcome"

fun reply_json :: "http_outcome \<Rightarrow> (oidc_exn, json) result" where
  "reply_json HttpError = Inl OidcError"
| "reply_json HttpOther = Inl OidcOther"
| "reply_json (HttpReply code NotJson) = Inl OidcError"
| "reply_json (HttpReply code (Json j)) = (if 200 \<le> code \<and> code < 300 then Inr j else Inl OidcError)"

text \<open>Subscription of a parsed value with a string.\<close>

fun dict_item :: "json \<Rightarrow> str \<Rightarrow> (oidc_exn, json) result" where
  "dict_item (JObj d) key = (case map_of d key of None \<Rightarrow> Inl OidcKeyError | Some v \<Rightarrow> Inr v)"
| "dict_item _ key = Inl OidcTypeError"

definition OidcClient_init :: "str \<Rightarrow> str \<Rightarrow> str \<Rightarrow> str \<Rightarrow> str \<Rightarrow> OidcClient" where
  "OidcClient_init issuer client_id client_secret redirect_uri scopes =
     \<lparr>oc_issuer = issuer, oc_client_id = client_id, oc_client_secret = client_secret,
      oc_redirect_uri = redirect_uri, oc_scopes = scopes, oc_discovery = None\<rparr>"

definition discovery_url :: "OidcClient \<Rightarrow> str" where
  "discovery_url oc = rev (dropWhile (\<lambda>c. c = CHR ''/'') (rev (oc_issuer oc))) @ ''/.well-known/openid-configuration''"

text \<open>A document \<open>null\<close> is returned but does not count as kept.\<close>

definition discover :: "provider \<Rightarrow> OidcClient \<Rightarrow> (oidc_exn, json) result \<times> OidcClient" where
  "discover http oc = (case oc_discovery oc of
     Some d \<Rightarrow> (Inr d, oc)
   | None \<Rightarrow> (case reply_json (http (DiscoveryRequest (discovery_url oc))) of
       Inl e \<Rightarrow> (Inl e, oc)
     | Inr d \<Rightarrow> (Inr d, oc\<lparr>oc_discovery := (if d = JNull then None else Some d)\<rparr>)))"

text \<open>\<open>urllib.parse.urlencode\<close> of a dict of strings: a space becomes a plus sign.\<close>

definition quote_plus_byte :: "byte \<Rightarrow> str" where
  "quote_plus_byte b = (if b = 32 then ''+'' else quote_byte b)"

definition quote_plus :: "str \<Rightarrow> str" where
  "quote_plus s = concat (map quote_plus_byte (utf8_encode s))"

fun urlencode :: "(str \<times> str) list \<Rightarrow> str" where
  "urlencode [] = []"
| "urlencode [(k, v)] = quote_plus k @ ''='' @ quote_plus v"
| "urlencode ((k, v) # p # ps) = quote_plus k @ ''='' @ quote_plus v @ ''&'' @ urlencode (p # ps)"

definition authorize_params :: "OidcClient \<Rightarrow> str \<Rightarrow> (str \<times> str) list" where
  "authorize_params oc signed_state = [(''client_id'', oc_client_id oc), (''response_type'', ''code''),
     (''scope'', oc_scopes oc), (''redirect_uri'', oc_redirect_uri oc), (''state'', signed_state)]"

definition authorize_url ::
  "(json \<Rightarrow> str) \<Rightarrow> provider \<Rightarrow> str \<Rightarrow> OidcClient \<Rightarrow> (oidc_exn, str) result \<times> OidcClient" where
  "authorize_url str_of http signed_state oc = (case discover http oc of (r, oc') \<Rightarrow>
     (res_bind r (\<lambda>disc. res_bind (dict_item disc ''authorization_endpoint'') (\<lambda>endpoint.
        Inr (json_str str_of endpoint @ ''?'' @ urlencode (authorize_params oc signed_state)))), oc'))"

text \<open>An endpoint that is no string is refused by \<open>httpx\<close> with a \<open>TypeError\<close>; a token outside of ASCII
  cannot be put into a header, which is a \<open>ValueError\<close>.\<close>

fun endpoint_url :: "json \<Rightarrow> (oidc_exn, str) result" where
  "endpoint_url (JStr u) = Inr u"
| "endpoint_url _ = Inl OidcTypeError"

definition token_params :: "OidcClient \<Rightarrow> str \<Rightarrow> (str \<times> str) list" where
  "token_params oc code = [(''grant_type'', ''authorization_code''), (''code'', code),
     (''redirect_uri'', oc_redirect_uri oc), (''client_id'', oc_client_id oc), (''client_secret'', oc_client_secret oc)]"

definition exchange_code :: "provider \<Rightarrow> str \<Rightarrow> OidcClient \<Rightarrow> (oidc_exn, json) result \<times> OidcClient" where
  "exchange_code http code oc = (case discover http oc of (r, oc') \<Rightarrow>
     (res_bind r (\<lambda>disc. res_bind (res_bind (dict_item disc ''token_endpoint'') endpoint_url) (\<lambda>url.
        reply_json (http (TokenRequest url (token_params oc code))))), oc'))"

definition fetch_userinfo ::
  "(json \<Rightarrow> str) \<Rightarrow> provider \<Rightarrow> json \<Rightarrow> OidcClient \<Rightarrow> (oidc_exn, json) result \<times> OidcClient" where
  "fetch_userinfo str_of http access_token oc = (case discover http oc of (r, oc') \<Rightarrow>
     (res_bind r (\<lambda>disc. res_bind (res_bind (dict_item disc ''userinfo_endpoint'') endpoint_url) (\<lambda>url.
        if \<not> is_ascii (json_str str_of access_token) then Inl OidcError
        else reply_json (http (UserinfoRequest url (''Bearer '' @ json_str str_of access_token))))), oc'))"

text \<open>The two calls of the callback.\<close>

definition code_claims ::
  "(json \<Rightarrow> str) \<Rightarrow> provider \<Rightarrow> str \<Rightarrow> OidcClient \<Rightarrow> (oidc_exn, json) result \<times> OidcClient" where
  "code_claims str_of http code oc = (case exchange_code http code oc of
     (Inl e, oc1) \<Rightarrow> (Inl e, oc1)
   | (Inr tokens, oc1) \<Rightarrow> (case dict_item tokens ''access_token'' of
       Inl e \<Rightarrow> (Inl e, oc1)
     | Inr access_token \<Rightarrow> fetch_userinfo str_of http access_token oc1))"

section \<open>Reading a query\<close>

text \<open>The reading of a query by the provider, at byte level: \<open>unquote\<close> undoes the quoting, \<open>parse_query\<close> the
  joining.\<close>

definition hex_upper_value :: "char \<Rightarrow> nat" where
  "hex_upper_value c = (let n = of_char c :: nat in if n < 58 then n - 48 else n - 55)"

fun unquote :: "str \<Rightarrow> bytes" where
  "unquote [] = []"
| "unquote (c # s) =
     (if c = CHR ''+'' then 32 # unquote s
      else if c = CHR ''%'' then (case s of
          a # b # r \<Rightarrow> of_nat (16 * hex_upper_value a + hex_upper_value b) # unquote r
        | _ \<Rightarrow> [])
      else of_nat (of_char c) # unquote s)"

definition parse_pair :: "str \<Rightarrow> bytes \<times> bytes" where
  "parse_pair s = (unquote (takeWhile (\<lambda>c. c \<noteq> CHR ''='') s), unquote (drop 1 (dropWhile (\<lambda>c. c \<noteq> CHR ''='') s)))"

definition parse_query :: "str \<Rightarrow> (bytes \<times> bytes) list" where
  "parse_query s = map parse_pair (py_split CHR ''&'' s)"

lemma hex_upper_value_digit: "n < 16 \<Longrightarrow> hex_upper_value (hex_digit n) = n"
  by (auto simp: hex_upper_value_def hex_digit_def of_char_of Let_def)

lemma char_of_eq: "n < 256 \<Longrightarrow> (char_of n :: char) = c \<longleftrightarrow> n = of_char c" for n :: nat
  by (auto simp: of_char_of)

lemma unquote_byte: "unquote (quote_plus_byte b @ s) = b # unquote s"
proof (cases "b = 32")
  case b: False
  let ?n = "unat b"
  have n: "?n < 256" using unsigned_less [of b] by simp
  then have h: "?n div 16 < 16" "?n mod 16 < 16" by auto
  show ?thesis
  proof (cases "48 \<le> ?n \<and> ?n \<le> 57 \<or> 65 \<le> ?n \<and> ?n \<le> 90 \<or> 97 \<le> ?n \<and> ?n \<le> 122 \<or> ?n \<in> {45, 46, 95, 126}")
    case True
    then have "quote_plus_byte b = [char_of ?n]" using b by (simp add: quote_plus_byte_def quote_byte_def Let_def)
    moreover have o: "(of_char (char_of ?n :: char) :: nat) = ?n" using n by (simp add: of_char_of)
    moreover have "(char_of ?n :: char) \<noteq> CHR ''+''" "(char_of ?n :: char) \<noteq> CHR ''%''"
      using True n by (auto simp: char_of_eq)
    ultimately show ?thesis by simp
  next
    case False
    then have "quote_plus_byte b = [CHR ''%'', hex_digit (?n div 16), hex_digit (?n mod 16)]"
      using b False by (simp add: quote_plus_byte_def quote_byte_def Let_def)
    moreover have "of_nat (16 * (?n div 16) + ?n mod 16) = b" by simp
    ultimately show ?thesis using h by (simp add: hex_upper_value_digit del: of_nat_add of_nat_mult)
  qed
qed (simp add: quote_plus_byte_def)

lemma unquote_bytes: "unquote (concat (map quote_plus_byte bs)) = bs"
  by (induction bs) (simp_all add: unquote_byte)

lemma unquote_plus: "unquote (quote_plus s) = utf8_encode s"
  by (simp add: quote_plus_def unquote_bytes)

lemma hex_digit_plain: "n < 16 \<Longrightarrow> hex_digit n \<notin> {CHR ''&'', CHR ''=''}"
  by (auto simp: hex_digit_def char_of_eq)

lemma quote_plus_byte_plain: "c \<in> set (quote_plus_byte b) \<Longrightarrow> c \<notin> {CHR ''&'', CHR ''=''}"
proof -
  let ?n = "unat b"
  have n: "?n < 256" using unsigned_less [of b] by simp
  then have h: "?n div 16 < 16" "?n mod 16 < 16" by auto
  assume "c \<in> set (quote_plus_byte b)"
  then show ?thesis
    using hex_digit_plain [OF h(1)] hex_digit_plain [OF h(2)] n
    by (auto simp: quote_plus_byte_def quote_byte_def Let_def char_of_eq split: if_splits)
qed

lemma quote_plus_plain: "CHR ''&'' \<notin> set (quote_plus s)" "CHR ''='' \<notin> set (quote_plus s)"
  using quote_plus_byte_plain by (auto simp: quote_plus_def)

lemma parse_pair_quoted: "parse_pair (quote_plus k @ ''='' @ quote_plus v) = (utf8_encode k, utf8_encode v)"
proof -
  have "takeWhile (\<lambda>c. c \<noteq> CHR ''='') (quote_plus k @ CHR ''='' # quote_plus v) = quote_plus k"
    "dropWhile (\<lambda>c. c \<noteq> CHR ''='') (quote_plus k @ CHR ''='' # quote_plus v) = CHR ''='' # quote_plus v"
    using quote_plus_plain(2) [of k] by (auto simp: takeWhile_append dropWhile_append)
  then show ?thesis by (simp add: parse_pair_def unquote_plus)
qed

text \<open>Reading an encoded query gives back its pairs.\<close>

lemma parse_urlencode:
  "ps \<noteq> [] \<Longrightarrow> parse_query (urlencode ps) = map (\<lambda>(k, v). (utf8_encode k, utf8_encode v)) ps"
proof (induction ps rule: urlencode.induct)
  case (2 k v)
  have "CHR ''&'' \<notin> set (quote_plus k @ ''='' @ quote_plus v)" using quote_plus_plain(1) by auto
  then show ?case using parse_pair_quoted [of k v] by (simp add: parse_query_def py_split_single)
next
  case (3 k v p ps)
  have "CHR ''&'' \<notin> set (quote_plus k @ ''='' @ quote_plus v)" using quote_plus_plain(1) by auto
  from py_split_append [OF this, of "urlencode (p # ps)"] 3 parse_pair_quoted [of k v]
  show ?case by (simp add: parse_query_def)
qed simp

section \<open>The discovery document\<close>

lemma discover_keeps: "oc_discovery oc = Some d \<Longrightarrow> discover http oc = (Inr d, oc)"
  by (simp add: discover_def)

lemma code_claims_keeps:
  "oc_discovery oc = Some d \<Longrightarrow> snd (authorize_url str_of http st oc) = oc \<and> snd (code_claims str_of http code oc) = oc"
  by (auto simp: authorize_url_def code_claims_def exchange_code_def fetch_userinfo_def discover_keeps split: sum.splits)

text \<open>A document that is a JSON object without the endpoints is kept: every later attempt fails for as
  long as the process runs, whatever the provider answers.\<close>

lemma discovery_poisoned:
  assumes "oc_discovery oc = None" and "reply_json (http (DiscoveryRequest (discovery_url oc))) = Inr (JObj d)"
    and "map_of d ''authorization_endpoint'' = None"
  shows "\<exists>oc'. authorize_url str_of http st oc = (Inl OidcKeyError, oc') \<and>
    authorize_url str_of' http' st' oc' = (Inl OidcKeyError, oc')"
  using assms by (simp add: authorize_url_def discover_def res_bind_def)

end
