(* ===== verification/Single_Sign_On.thy ===== *)
theory Single_Sign_On
  imports Oidc_Client
begin

text \<open>
  Login through an identity provider: \<open>relay/app/routers/oidc_auth.py\<close>, over the client of
  \<open>relay/app/services/oidc.py\<close>. Claims are the JSON object of the userinfo endpoint. The handlers change the
  client and the accounts before some of their exceptions, so they return both with the outcome.
\<close>

section \<open>Names and addresses\<close>

type_synonym claims = "(str \<times> json) list"

definition PROVIDER :: str where "PROVIDER = ''authentik''"

definition safe_next :: "str option \<Rightarrow> str" where
  "safe_next raw = (case raw of
     None \<Rightarrow> ''/''
   | Some r \<Rightarrow> if r \<noteq> [] \<and> py_startswith r ''/'' \<and> \<not> py_startswith r ''//'' then r else ''/'')"

definition py_isalnum :: "char \<Rightarrow> bool" where
  "py_isalnum c = (let n = of_char c :: nat in
     (48 \<le> n \<and> n \<le> 57) \<or> (65 \<le> n \<and> n \<le> 90) \<or> (97 \<le> n \<and> n \<le> 122) \<or>
     n \<in> {170, 178, 179, 181, 185, 186, 188, 189, 190} \<or> (192 \<le> n \<and> n \<noteq> 215 \<and> n \<noteq> 247))"

definition strip_chars :: "str \<Rightarrow> str \<Rightarrow> str" where
  "strip_chars cs s = rev (dropWhile (\<lambda>c. c \<in> set cs) (rev (dropWhile (\<lambda>c. c \<in> set cs) s)))"

definition text_claim :: "str \<Rightarrow> claims \<Rightarrow> str option" where
  "text_claim key cl = (case map_of cl key of
     Some (JStr v) \<Rightarrow> if py_strip v \<noteq> [] then Some (py_strip v) else None | _ \<Rightarrow> None)"

definition email_claim :: "claims \<Rightarrow> str option" where
  "email_claim cl = (case map_of cl ''email'' of Some (JStr e) \<Rightarrow> Some e | _ \<Rightarrow> None)"

definition derive_username :: "claims \<Rightarrow> str" where
  "derive_username cl =
     (let base = (case List.find (\<lambda>k. text_claim k cl \<noteq> None) [''preferred_username'', ''nickname'', ''name''] of
            Some k \<Rightarrow> the (text_claim k cl)
          | None \<Rightarrow> (case email_claim cl of
              Some e \<Rightarrow> if CHR ''@'' \<in> set e then takeWhile (\<lambda>c. c \<noteq> CHR ''@'') e else ''user''
            | None \<Rightarrow> ''user''));
          cleaned = strip_chars ''-_.'' (filter (\<lambda>c. py_isalnum c \<or> c \<in> set ''-_.'') base)
      in if cleaned \<noteq> [] then cleaned else ''user'')"

section \<open>The account of a subject\<close>

datatype sso_exn = SsoAccount account_exn | NoUniqueName | SsoCompare sig_exn | SsoSession session_exn | SsoClient oidc_exn

definition candidate :: "str \<Rightarrow> nat \<Rightarrow> str" where
  "candidate base i = (if i = 0 then base else base @ ''-'' @ nat_digits (i + 1))"

text \<open>The loop over the candidates. \<open>create\<close> is \<open>create_external_user\<close> with its password hash, random
  token and clock, by the name and the address it is given.\<close>

type_synonym creator = "str \<Rightarrow> str option \<Rightarrow> accounts_db \<Rightarrow> (account_exn, user \<times> accounts_db) result"

fun try_candidates ::
  "creator \<Rightarrow> str \<Rightarrow> str \<Rightarrow> str option \<Rightarrow> nat list \<Rightarrow> accounts_db \<Rightarrow> (sso_exn, user \<times> accounts_db) result" where
  "try_candidates create sub base em [] db = Inl NoUniqueName"
| "try_candidates create sub base em (i # is) db =
     (case create (candidate base i) em db of
        Inr r \<Rightarrow> Inr r
      | Inl (UsernameTakenError n) \<Rightarrow>
          (case get_user_by_external_id PROVIDER sub db of
             Inr u \<Rightarrow> Inr (u, db)
           | Inl e \<Rightarrow> try_candidates create sub base em is db)
      | Inl e \<Rightarrow> Inl (SsoAccount e))"

definition resolve_or_create ::
  "(bytes \<Rightarrow> bytes \<Rightarrow> bytes) \<Rightarrow> bytes \<Rightarrow> str \<Rightarrow> timestamp \<Rightarrow> str \<Rightarrow> claims \<Rightarrow> accounts_db \<Rightarrow>
   (sso_exn, user \<times> accounts_db) result" where
  "resolve_or_create hashpw salt token now sub cl db =
     (case get_user_by_external_id PROVIDER sub db of
        Inr u \<Rightarrow> Inr (u, db)
      | Inl _ \<Rightarrow> try_candidates (\<lambda>n em. create_external_user hashpw salt token PROVIDER sub n em now)
          sub (derive_username cl) (email_claim cl) [0 ..< 50] db)"

section \<open>Groups of the provider\<close>

definition claimed_groups :: "claims \<Rightarrow> str \<Rightarrow> str list" where
  "claimed_groups cl pre = (case map_of cl ''groups'' of
     Some (JList gs) \<Rightarrow> concat (map (\<lambda>g. case g of JStr s \<Rightarrow> if py_startswith s pre then [s] else [] | _ \<Rightarrow> []) gs)
   | _ \<Rightarrow> [])"

text \<open>The group of a name, created when it does not exist.\<close>

definition find_group :: "timestamp \<Rightarrow> str \<Rightarrow> accounts_db \<Rightarrow> (account_exn, grp \<times> accounts_db) result" where
  "find_group now name db = (case get_group_by_name name db of
     Inr g \<Rightarrow> Inr (g, db)
   | Inl _ \<Rightarrow> (case create_group name now db of
       Inr r \<Rightarrow> Inr r
     | Inl (GroupNameTakenError n) \<Rightarrow> map_ok (\<lambda>g. (g, db)) (get_group_by_name name db)
     | Inl e \<Rightarrow> Inl e))"

definition ensure_member :: "timestamp \<Rightarrow> int \<Rightarrow> str \<Rightarrow> accounts_db \<Rightarrow> (account_exn, unit) result \<times> accounts_db" where
  "ensure_member now user_id name db = (case find_group now name db of
     Inl e \<Rightarrow> (Inl e, db)
   | Inr (g, db') \<Rightarrow> (case add_member (gid g) USER user_id db' of
       Inr db'' \<Rightarrow> (Inr (), db'')
     | Inl (DuplicateMembershipError a b c) \<Rightarrow> (Inr (), db')
     | Inl e \<Rightarrow> (Inl e, db')))"

fun ensure_members :: "timestamp \<Rightarrow> int \<Rightarrow> str list \<Rightarrow> accounts_db \<Rightarrow> (account_exn, unit) result \<times> accounts_db" where
  "ensure_members now user_id [] db = (Inr (), db)"
| "ensure_members now user_id (n # ns) db = (case ensure_member now user_id n db of
     (Inl e, db') \<Rightarrow> (Inl e, db') | (Inr _, db') \<Rightarrow> ensure_members now user_id ns db')"

fun revoke_members :: "str \<Rightarrow> str set \<Rightarrow> int \<Rightarrow> int list \<Rightarrow> accounts_db \<Rightarrow> (account_exn, unit) result \<times> accounts_db" where
  "revoke_members pre desired user_id [] db = (Inr (), db)"
| "revoke_members pre desired user_id (g # gs) db = (case get_group_by_id g db of
     Inl e \<Rightarrow> (Inl e, db)
   | Inr r \<Rightarrow>
       if py_startswith (gname r) pre \<and> gname r \<notin> desired then
         (case remove_member g USER user_id db of
            Inr db' \<Rightarrow> revoke_members pre desired user_id gs db'
          | Inl (MembershipNotFoundError a b c) \<Rightarrow> revoke_members pre desired user_id gs db
          | Inl e \<Rightarrow> (Inl e, db))
       else revoke_members pre desired user_id gs db)"

text \<open>\<open>names\<close> lists the set \<open>desired\<close> in the order in which Python iterates over it.\<close>

definition sync_groups :: "timestamp \<Rightarrow> int \<Rightarrow> str list \<Rightarrow> str \<Rightarrow> accounts_db \<Rightarrow> (account_exn, unit) result \<times> accounts_db" where
  "sync_groups now user_id names pre db = (case ensure_members now user_id names db of
     (Inl e, db') \<Rightarrow> (Inl e, db')
   | (Inr _, db') \<Rightarrow> revoke_members pre (set names) user_id (list_parent_group_ids USER user_id db') db')"

section \<open>The routes\<close>

datatype sso_login = SsoRedirect str str str | SsoLoginError | SsoLoginRaised sso_exn

text \<open>A redirect to the provider carries its address, the signed state and the cookie.\<close>

definition oidc_login ::
  "dumps_fn \<Rightarrow> (json \<Rightarrow> str) \<Rightarrow> provider \<Rightarrow> str \<Rightarrow> str option \<Rightarrow> OidcClient \<Rightarrow> sso_login \<times> OidcClient" where
  "oidc_login dumps str_of http csrf next_param oc = (case issue_oauth_state dumps (safe_next next_param) csrf of
     Inl e \<Rightarrow> (SsoLoginRaised (SsoSession e), oc)
   | Inr signed_state \<Rightarrow> (case authorize_url str_of http signed_state oc of
       (Inr url, oc') \<Rightarrow> (SsoRedirect url signed_state csrf, oc')
     | (Inl OidcError, oc') \<Rightarrow> (SsoLoginError, oc')
     | (Inl e, oc') \<Rightarrow> (SsoLoginRaised (SsoClient e), oc')))"

record callback_request =
  cb_error :: "str option"
  cb_code :: "str option"
  cb_state :: "str option"
  cb_cookie :: "str option"

datatype sso_reply = SsoError | SsoLoggedIn str str | SsoRaised sso_exn

definition given :: "str option \<Rightarrow> bool" where
  "given p \<longleftrightarrow> p \<noteq> None \<and> p \<noteq> Some []"

text \<open>The handler from the claims on.\<close>

definition sign_in ::
  "dumps_fn \<Rightarrow> (bytes \<Rightarrow> bytes \<Rightarrow> bytes) \<Rightarrow> bytes \<Rightarrow> str \<Rightarrow> timestamp \<Rightarrow> str \<Rightarrow> str \<Rightarrow> claims \<Rightarrow> accounts_db \<Rightarrow>
   sso_reply \<times> accounts_db" where
  "sign_in dumps hashpw salt token now pre next_url cl db = (case map_of cl ''sub'' of
     Some (JStr sub) \<Rightarrow>
       if sub = [] then (SsoError, db)
       else (case resolve_or_create hashpw salt token now sub cl db of
           Inl e \<Rightarrow> (SsoRaised e, db)
         | Inr (u, db1) \<Rightarrow>
             (case (if pre = [] then (Inr (), db1)
                    else sync_groups now (uid u) (remdups (claimed_groups cl pre)) pre db1) of
                (Inl e, db2) \<Rightarrow> (SsoRaised (SsoAccount e), db2)
              | (Inr _, db2) \<Rightarrow> (case issue dumps (uid u) (username u) of
                  Inl e \<Rightarrow> (SsoRaised (SsoSession e), db2)
                | Inr t \<Rightarrow> (SsoLoggedIn next_url t, db2))))
   | _ \<Rightarrow> (SsoError, db))"

text \<open>\<open>claims.get\<close> of a userinfo answer that is no object is an \<open>AttributeError\<close>.\<close>

definition oidc_callback ::
  "dumps_fn \<Rightarrow> loads_fn \<Rightarrow> (json \<Rightarrow> str) \<Rightarrow> provider \<Rightarrow> (bytes \<Rightarrow> bytes \<Rightarrow> bytes) \<Rightarrow> bytes \<Rightarrow> str \<Rightarrow>
   timestamp \<Rightarrow> str \<Rightarrow> callback_request \<Rightarrow> OidcClient \<Rightarrow> accounts_db \<Rightarrow> (sso_reply \<times> accounts_db) \<times> OidcClient" where
  "oidc_callback dumps loads str_of http hashpw salt token now pre rq oc db =
     (if given (cb_error rq) \<or> \<not> given (cb_code rq) \<or> \<not> given (cb_state rq) then ((SsoError, db), oc)
      else (case verify_oauth_state loads str_of (the (cb_state rq)) of
          Inl e \<Rightarrow> ((SsoError, db), oc)
        | Inr (next_url, csrf) \<Rightarrow>
            if \<not> given (cb_cookie rq) then ((SsoError, db), oc)
            else (case compare_digest (the (cb_cookie rq)) csrf of
                Inl e \<Rightarrow> ((SsoRaised (SsoCompare e), db), oc)
              | Inr False \<Rightarrow> ((SsoError, db), oc)
              | Inr True \<Rightarrow> (case code_claims str_of http (the (cb_code rq)) oc of
                  (Inl e, oc') \<Rightarrow>
                    ((if e \<in> {OidcError, OidcKeyError} then SsoError else SsoRaised (SsoClient e), db), oc')
                | (Inr (JObj cl), oc') \<Rightarrow> (sign_in dumps hashpw salt token now pre next_url cl db, oc')
                | (Inr _, oc') \<Rightarrow> ((SsoRaised (SsoClient OidcOther), db), oc')))))"

section \<open>Lemmas\<close>

subsection \<open>The account\<close>

definition linked :: "str \<Rightarrow> accounts_db \<Rightarrow> user \<Rightarrow> bool" where
  "linked sub db u \<longleftrightarrow> get_user_by_external_id PROVIDER sub db = Inr u"

lemma external_iff:
  assumes "accounts_ok db"
  shows "get_user_by_external_id p sub db = Inr u \<longleftrightarrow> u \<in> set (users db) \<and>
    (\<exists>e \<in> set (external_identities db). ext_user_id e = uid u \<and> provider e = p \<and> subject e = sub)" (is "?l \<longleftrightarrow> ?r")
proof -
  let ?t = "List.product (users db) (external_identities db)"
  let ?P = "\<lambda>(u, e). ext_user_id e = uid u \<and> provider e = p \<and> subject e = sub"
  have one: "u1 = u2" if "(u1, e1) \<in> set ?t" "?P (u1, e1)" "(u2, e2) \<in> set ?t" "?P (u2, e2)" for u1 e1 u2 e2
  proof -
    have "distinct (map uid (users db))" "distinct (map (\<lambda>e. (provider e, subject e)) (external_identities db))"
      using assms by (simp_all add: accounts_ok_def users_ok_def links_ok_def)
    then have "inj_on uid (set (users db))" "inj_on (\<lambda>e. (provider e, subject e)) (set (external_identities db))"
      by (simp_all add: distinct_map)
    with that have "e1 = e2" by (auto dest: inj_onD)
    with that \<open>inj_on uid _\<close> show ?thesis by (auto dest: inj_onD)
  qed
  show ?thesis
  proof
    assume ?l
    then obtain e where "fetchone ?P ?t = Some (u, e)"
      by (auto simp: get_user_by_external_id_def split: option.splits prod.splits)
    from fetchone_Some_mem [OF this] show ?r by auto
  next
    assume ?r
    then obtain e where e: "(u, e) \<in> set ?t" "?P (u, e)" by auto
    then have "fetchone ?P ?t \<noteq> None" unfolding fetchone_None by blast
    then obtain u' e' where f: "fetchone ?P ?t = Some (u', e')" by auto
    from fetchone_Some_mem [OF f] one [of u' e' u e] e have "u' = u" by blast
    with f show ?l by (simp add: get_user_by_external_id_def)
  qed
qed

lemma create_external_user_linked:
  assumes "create_external_user h salt tok p sub n em now db = Inr (u, db')" and "accounts_ok db"
  shows "users db' = users db @ [u]" and "uid u \<notin> user_ids db" and "username u = py_strip n"
    and "get_user_by_external_id p sub db' = Inr u" and "memberships db' = memberships db \<and> groups db' = groups db"
proof -
  obtain ph where ph: "(case insert_user (py_strip n) em ph now db of
      None \<Rightarrow> Inl (UsernameTakenError (py_strip n))
    | Some (v, d) \<Rightarrow> (case insert_external p sub (uid v) now d of
        None \<Rightarrow> Inl (UsernameTakenError (py_strip n)) | Some d' \<Rightarrow> Inr (v, d'))) = Inr (u, db')"
    using assms(1) by (auto simp: create_external_user_def Let_def res_bind_eq_Inr split: if_splits)
  then obtain d where d: "insert_user (py_strip n) em ph now db = Some (u, d)" "insert_external p sub (uid u) now d = Some db'"
    by (auto split: option.split_asm)
  then show u: "users db' = users db @ [u]" "username u = py_strip n" "memberships db' = memberships db \<and> groups db' = groups db"
    by (auto simp: insert_user_def insert_external_def Let_def split: if_splits)
  have "uid u = users_seq db + 1" using d(1) by (auto simp: insert_user_def Let_def split: if_splits)
  moreover have "i \<le> users_seq db" if "i \<in> user_ids db" for i
    using assms(2) that by (auto simp: accounts_ok_def users_ok_def user_ids_def)
  ultimately show "uid u \<notin> user_ids db" by force
  have "\<exists>e \<in> set (external_identities db'). ext_user_id e = uid u \<and> provider e = p \<and> subject e = sub"
    using d(2) by (auto simp: insert_external_def split: if_splits)
  then show "get_user_by_external_id p sub db' = Inr u"
    unfolding external_iff [OF create_external_user_ok [OF assms]] using u(1) by simp
qed

lemma try_candidates_result:
  "try_candidates create sub base em is db = Inr (u, db') \<Longrightarrow>
   (\<exists>i \<in> set is. create (candidate base i) em db = Inr (u, db')) \<or> linked sub db u \<and> db' = db"
  by (induction "is") (auto simp: linked_def split: sum.splits account_exn.splits)

lemma resolve_or_create_result:
  assumes "resolve_or_create h salt tok now sub cl db = Inr (u, db')" and "accounts_ok db"
  shows "linked sub db' u \<and> accounts_ok db' \<and> groups db' = groups db \<and> memberships db' = memberships db \<and>
    (if \<exists>v. linked sub db v then db' = db else uid u \<notin> user_ids db \<and> users db' = users db @ [u])"
proof (cases "\<exists>v. linked sub db v")
  case True
  then show ?thesis using assms by (auto simp: resolve_or_create_def linked_def)
next
  case False
  then obtain n where c: "create_external_user h salt tok PROVIDER sub n (email_claim cl) now db = Inr (u, db')"
    using assms(1) try_candidates_result by (fastforce simp: resolve_or_create_def linked_def split: sum.splits)
  from create_external_user_linked [OF c assms(2)] create_external_user_ok [OF c assms(2)] False show ?thesis
    by (simp add: linked_def)
qed

subsection \<open>New accounts\<close>

lemma no_space_strip:
  assumes "\<forall>c \<in> set s. \<not> py_space c"
  shows "py_strip s = s"
proof -
  have "dropWhile py_space t = t" if "\<forall>c \<in> set t. \<not> py_space c" for t using that by (cases t) auto
  from this [of s] this [of "rev s"] assms show ?thesis by (simp add: py_strip_def)
qed

lemma derived_plain: "derive_username cl \<noteq> []" "\<forall>c \<in> set (derive_username cl). \<not> py_space c"
proof -
  have sp: "\<not> py_space c" if "py_isalnum c \<or> c \<in> set ''-_.''" for c
    using that by (auto simp: py_isalnum_def py_space_def Let_def)
  have set: "set (strip_chars cs (filter P s)) \<subseteq> {c. P c}" for cs P s
    by (auto simp: strip_chars_def dest!: set_dropWhileD)
  show "derive_username cl \<noteq> []" by (simp add: derive_username_def Let_def)
  show "\<forall>c \<in> set (derive_username cl). \<not> py_space c"
    unfolding derive_username_def Let_def
    using set [of "''-_.''" "\<lambda>c. py_isalnum c \<or> c \<in> set ''-_.''"] sp by (auto simp: py_space_def)
qed

lemma candidate_clean: "py_strip (candidate (derive_username cl) i) = candidate (derive_username cl) i"
    "candidate (derive_username cl) i \<noteq> []"
proof -
  have "\<not> py_space c" if "c \<in> set (nat_digits n)" for c n using nat_digits_only [OF that] by (auto simp: py_space_def Let_def)
  then have "\<forall>c \<in> set (candidate (derive_username cl) i). \<not> py_space c"
    using derived_plain(2) [of cl] by (auto simp: candidate_def py_space_def)
  then show "py_strip (candidate (derive_username cl) i) = candidate (derive_username cl) i" by (rule no_space_strip)
  show "candidate (derive_username cl) i \<noteq> []" using derived_plain(1) by (simp add: candidate_def)
qed

text \<open>The search for a name ends with a new account as soon as one of the candidates is free.\<close>

lemma free_candidate_created:
  assumes "accounts_ok db" and "\<And>u. \<not> linked sub db u" and "sub \<noteq> []" and "hash_password hashpw salt token = Inr h"
    and "\<exists>i \<in> set is. \<not> username_exists (candidate (derive_username cl) i) db"
  shows "\<exists>r. try_candidates (\<lambda>n em. create_external_user hashpw salt token PROVIDER sub n em now) sub (derive_username cl) em is db = Inr r"
  using assms(5)
proof (induction "is")
  case (Cons i ks)
  let ?n = "candidate (derive_username cl) i"
  have no: "\<forall>e \<in> set (external_identities db). (provider e, subject e) \<noteq> (PROVIDER, sub)"
  proof (rule ballI, rule notI)
    fix e assume e: "e \<in> set (external_identities db)" "(provider e, subject e) = (PROVIDER, sub)"
    then have "ext_user_id e \<in> user_ids db" using assms(1) by (simp add: accounts_ok_def links_ok_def)
    then obtain u where "u \<in> set (users db)" "uid u = ext_user_id e" by (auto simp: user_ids_def)
    then have "linked sub db u" using e unfolding linked_def external_iff [OF assms(1)] by auto
    with assms(2) show False by blast
  qed
  show ?case
  proof (cases "username_exists ?n db")
    case True
    then have "create_external_user hashpw salt token PROVIDER sub ?n em now db = Inl (UsernameTakenError ?n)"
      using assms(3) candidate_clean by (simp add: create_external_user_def PROVIDER_def)
    moreover obtain e where "get_user_by_external_id PROVIDER sub db = Inl e"
      using assms(2) by (cases "get_user_by_external_id PROVIDER sub db") (auto simp: linked_def)
    ultimately show ?thesis using Cons True by simp
  next
    case False
    then have "\<exists>r. create_external_user hashpw salt token PROVIDER sub ?n em now db = Inr r"
      using assms(3,4) candidate_clean no
      by (auto simp: create_external_user_def PROVIDER_def username_exists_def insert_user_def insert_external_def Let_def fetchone_None)
    then show ?thesis by auto
  qed
qed simp

subsection \<open>The groups\<close>

definition direct_groups :: "int \<Rightarrow> accounts_db \<Rightarrow> str set" where
  "direct_groups u db = gname ` {g \<in> set (groups db). \<lparr>group_id = gid g, member_type = USER, member_id = u\<rparr> \<in> set (memberships db)}"

text \<open>The memberships that are not a user's own.\<close>

definition other_members :: "int \<Rightarrow> accounts_db \<Rightarrow> membership list" where
  "other_members u db = filter (\<lambda>m. \<not> (member_type m = USER \<and> member_id m = u)) (memberships db)"

lemma find_group_spec:
  assumes "accounts_ok db" and "clean_name n"
  obtains g db' where "find_group now n db = Inr (g, db')" "accounts_ok db'" "gname g = n" "g \<in> set (groups db')"
    "set (groups db') = insert g (set (groups db))" "memberships db' = memberships db" "users db' = users db"
proof (cases "get_group_by_name n db")
  case (Inr g)
  then have "fetchone (\<lambda>r. gname r = n) (groups db) = Some g" by (simp add: get_group_by_name_def split: option.splits)
  from fetchone_Some_mem [OF this] Inr assms(1) show ?thesis by (intro that [of g db]) (auto simp: find_group_def)
next
  case (Inl e)
  then have "\<not> group_name_exists n db" by (simp add: get_group_by_name_def group_name_exists_def split: option.splits)
  moreover have n: "length (py_strip n) \<noteq> 0" "py_strip n = n" using assms(2) by (simp_all add: clean_name_def)
  ultimately obtain g db' where c: "create_group n now db = Inr (g, db')" "gname g = n"
      "db' = db\<lparr>groups := groups db @ [g], groups_seq := groups_seq db + 1\<rparr>"
    by (auto simp: create_group_def Let_def)
  from create_group_ok [OF c(1) assms(1)] c Inl show ?thesis by (intro that [of g db']) (auto simp: find_group_def)
qed

lemma ensure_member_spec:
  assumes "accounts_ok db" and "clean_name n" and "u \<in> user_ids db"
  obtains db' where "ensure_member now u n db = (Inr (), db')" "accounts_ok db'" "user_ids db' = user_ids db"
    "direct_groups u db' = insert n (direct_groups u db)" "other_members u db' = other_members u db"
    "set (groups db) \<subseteq> set (groups db')"
proof -
  obtain g db1 where g: "find_group now n db = Inr (g, db1)" "accounts_ok db1" "gname g = n" "g \<in> set (groups db1)"
    "set (groups db1) = insert g (set (groups db))" "memberships db1 = memberships db" "users db1 = users db"
    using find_group_spec [OF assms(1,2)] by blast
  let ?m = "\<lparr>group_id = gid g, member_type = USER, member_id = u\<rparr>"
  have d1: "direct_groups u db1 \<subseteq> insert n (direct_groups u db)" "direct_groups u db \<subseteq> direct_groups u db1"
    using g by (auto simp: direct_groups_def)
  have ids: "gid g \<in> group_ids db1" "u \<in> user_ids db1" "user_ids db1 = user_ids db"
    using g(4,7) assms(3) by (auto simp: group_ids_def user_ids_def)
  show ?thesis
  proof (cases "?m \<in> set (memberships db)")
    case True
    then have "add_member (gid g) USER u db1 = Inl (DuplicateMembershipError (gid g) USER u)"
      using ids g(6) user_exists_iff [of u db1] group_exists_iff [of "gid g" db1]
      by (auto simp: add_member_def add_member_check_def res_bind_def membership_exists_def fetchone_None split: sum.splits)
    moreover have "n \<in> direct_groups u db1" using True g by (auto simp: direct_groups_def)
    ultimately show ?thesis using g d1 ids
      by (intro that [of db1]) (auto simp: ensure_member_def other_members_def)
  next
    case False
    let ?db2 = "db1\<lparr>memberships := memberships db1 @ [?m]\<rparr>"
    have a: "add_member (gid g) USER u db1 = Inr ?db2" using False g(6) ids by (simp add: add_member_Inr)
    have "direct_groups u ?db2 = insert n (direct_groups u db1)" using g(2,3,4)
      by (auto simp: direct_groups_def accounts_ok_def groups_ok_def distinct_map dest: inj_onD)
    with g a d1 ids add_member_ok [OF a g(2)] show ?thesis
      by (intro that [of ?db2]) (auto simp: ensure_member_def other_members_def user_ids_def)
  qed
qed

lemma ensure_members_spec:
  assumes "accounts_ok db" and "\<forall>n \<in> set ns. clean_name n" and "u \<in> user_ids db"
  shows "\<exists>db'. ensure_members now u ns db = (Inr (), db') \<and> accounts_ok db' \<and> user_ids db' = user_ids db \<and>
    direct_groups u db' = set ns \<union> direct_groups u db \<and> other_members u db' = other_members u db \<and>
    set (groups db) \<subseteq> set (groups db')"
  using assms
proof (induction ns arbitrary: db)
  case (Cons n ns)
  obtain db1 where 1: "ensure_member now u n db = (Inr (), db1)" "accounts_ok db1" "user_ids db1 = user_ids db"
    "direct_groups u db1 = insert n (direct_groups u db)" "other_members u db1 = other_members u db"
    "set (groups db) \<subseteq> set (groups db1)"
    using ensure_member_spec [of db n u] Cons.prems by auto
  from Cons.IH [of db1] 1 Cons.prems show ?case by auto
qed simp

definition revoked :: "str \<Rightarrow> str set \<Rightarrow> accounts_db \<Rightarrow> int \<Rightarrow> bool" where
  "revoked pre desired db g \<longleftrightarrow> (\<exists>r \<in> set (groups db). gid r = g \<and> py_startswith (gname r) pre \<and> gname r \<notin> desired)"

lemma revoke_members_spec:
  assumes "groups_ok db" and "set gs \<subseteq> group_ids db"
  shows "revoke_members pre desired u gs db = (Inr (), db\<lparr>memberships :=
    filter (\<lambda>m. \<not> (member_type m = USER \<and> member_id m = u \<and> group_id m \<in> set gs \<and> revoked pre desired db (group_id m))) (memberships db)\<rparr>)"
  using assms
proof (induction gs arbitrary: db)
  case (Cons g gs)
  from Cons.prems obtain r where r: "get_group_by_id g db = Inr r" using group_exists_iff [of g db] by auto
  then have rm: "r \<in> set (groups db) \<and> gid r = g"
    using fetchone_Some_mem [of "\<lambda>r. gid r = g" "groups db" r] by (simp add: get_group_by_id_def split: option.splits)
  have rv: "revoked pre desired db g \<longleftrightarrow> py_startswith (gname r) pre \<and> gname r \<notin> desired"
    using rm Cons.prems(1) by (auto simp: revoked_def groups_ok_def distinct_map dest: inj_onD)
  have same: "revoked pre desired (db\<lparr>memberships := ms\<rparr>) = revoked pre desired db" for ms
    by (simp add: revoked_def fun_eq_iff)
  show ?case
  proof (cases "revoked pre desired db g \<and> (\<exists>m \<in> set (memberships db). group_id m = g \<and> member_type m = USER \<and> member_id m = u)")
    case True
    let ?db' = "db\<lparr>memberships := delete_where (\<lambda>m. group_id m = g \<and> member_type m = USER \<and> member_id m = u) (memberships db)\<rparr>"
    have "remove_member g USER u db = Inr ?db'" using True by (auto simp: remove_member_def Let_def rowcount_0)
    moreover have "groups_ok ?db'" "set gs \<subseteq> group_ids ?db'" using Cons.prems by (simp_all add: groups_ok_def group_ids_def)
    ultimately show ?thesis using Cons.IH [of ?db'] True rv r
      by (auto simp: same delete_where_def intro!: arg_cong [where f = "\<lambda>ms. db\<lparr>memberships := ms\<rparr>"] filter_cong)
  next
    case False
    then have "revoke_members pre desired u (g # gs) db = revoke_members pre desired u gs db"
      using rv r by (auto simp: remove_member_def Let_def rowcount_0)
    with False Cons show ?thesis by (auto intro!: arg_cong [where f = "\<lambda>ms. db\<lparr>memberships := ms\<rparr>"] filter_cong)
  qed
qed (simp add: revoked_def)

lemma sync_groups_spec:
  assumes "accounts_ok db" and "\<forall>n \<in> set names. clean_name n \<and> py_startswith n pre" and "u \<in> user_ids db"
  shows "\<exists>db'. sync_groups now u names pre db = (Inr (), db') \<and> accounts_ok db' \<and>
    direct_groups u db' = set names \<union> {n \<in> direct_groups u db. \<not> py_startswith n pre} \<and>
    other_members u db' = other_members u db \<and> set (groups db) \<subseteq> set (groups db')"
proof -
  obtain db1 where 1: "ensure_members now u names db = (Inr (), db1)" "accounts_ok db1"
    "direct_groups u db1 = set names \<union> direct_groups u db" "other_members u db1 = other_members u db"
    "set (groups db) \<subseteq> set (groups db1)"
    using ensure_members_spec [OF assms(1) _ assms(3), of names now] assms(2) by auto
  let ?gs = "list_parent_group_ids USER u db1"
  let ?keep = "\<lambda>m. \<not> (member_type m = USER \<and> member_id m = u \<and> group_id m \<in> set ?gs \<and> revoked pre (set names) db1 (group_id m))"
  let ?db2 = "db1\<lparr>memberships := filter ?keep (memberships db1)\<rparr>"
  have ok: "groups_ok db1" "set ?gs \<subseteq> group_ids db1"
    using 1(2) by (auto simp: accounts_ok_def memberships_ok_def list_parent_group_ids_def)
  have r: "sync_groups now u names pre db = (Inr (), ?db2)"
    by (simp add: sync_groups_def 1(1) revoke_members_spec [OF ok])
  have inj: "g = g'" if "g \<in> set (groups db1)" "g' \<in> set (groups db1)" "gid g = gid g' \<or> gname g = gname g'" for g g'
    using ok(1) that by (auto simp: groups_ok_def distinct_map dest: inj_onD)
  have "accounts_ok (db1\<lparr>groups := groups db1, memberships := filter ?keep (memberships db1)\<rparr>)"
    using 1(2) by (intro accounts_ok_fewer_members [OF 1(2)]) (auto simp: accounts_ok_def memberships_ok_def groups_ok_def group_ids_def)
  moreover have "direct_groups u ?db2 = {n \<in> direct_groups u db1. \<not> (py_startswith n pre \<and> n \<notin> set names)}"
  proof -
    have "\<lparr>group_id = gid g, member_type = USER, member_id = u\<rparr> \<in> set (memberships ?db2) \<longleftrightarrow>
        \<lparr>group_id = gid g, member_type = USER, member_id = u\<rparr> \<in> set (memberships db1) \<and> \<not> (py_startswith (gname g) pre \<and> gname g \<notin> set names)"
      if g: "g \<in> set (groups db1)" for g
    proof -
      have "revoked pre (set names) db1 (gid g) \<longleftrightarrow> py_startswith (gname g) pre \<and> gname g \<notin> set names"
        using g inj by (auto simp: revoked_def)
      moreover have "\<lparr>group_id = gid g, member_type = USER, member_id = u\<rparr> \<in> set (memberships db1) \<Longrightarrow> gid g \<in> set ?gs"
        by (force simp: list_parent_group_ids_def)
      ultimately show ?thesis by auto
    qed
    then show ?thesis unfolding direct_groups_def by auto
  qed
  then have "direct_groups u ?db2 = set names \<union> {n \<in> direct_groups u db. \<not> py_startswith n pre}"
    using 1(3) assms(2) by auto
  moreover have "other_members u ?db2 = other_members u db1" by (auto simp: other_members_def intro!: filter_cong)
  ultimately show ?thesis using r 1(4,5) by auto
qed

text \<open>However a synchronisation ends, it is made of operations of the store that leave users and external
  identities alone.\<close>

definition same_users :: "accounts_db \<Rightarrow> accounts_db \<Rightarrow> bool" where
  "same_users db db' \<longleftrightarrow> (accounts_ok db \<longrightarrow> accounts_ok db') \<and> users db' = users db \<and>
     external_identities db' = external_identities db"

lemma same_users_refl [simp]: "same_users db db"
  by (simp add: same_users_def)

lemma same_users_trans: "same_users a b \<Longrightarrow> same_users b c \<Longrightarrow> same_users a c"
  by (simp add: same_users_def)

lemma group_ops_same_users:
  "create_group n now db = Inr (g, db') \<Longrightarrow> same_users db db'"
  "add_member gr ty m db = Inr db' \<Longrightarrow> same_users db db'"
  "remove_member gr ty m db = Inr db' \<Longrightarrow> same_users db db'"
  using create_group_ok [of n now db g db'] add_member_ok [of gr ty m db db'] remove_member_ok [of gr ty m db db']
  by (auto simp: same_users_def create_group_def add_member_Inr remove_member_def Let_def split: if_splits)

lemma find_group_same_users: "find_group now n db = Inr (g, db') \<Longrightarrow> same_users db db'"
  by (auto simp: find_group_def map_ok_def intro: group_ops_same_users split: sum.splits account_exn.splits)

lemma ensure_member_same_users: "same_users db (snd (ensure_member now u n db))"
  by (auto simp: ensure_member_def split: sum.splits account_exn.splits
      dest: find_group_same_users group_ops_same_users intro: same_users_trans)

lemma ensure_members_same_users: "same_users db (snd (ensure_members now u ns db))"
proof (induction ns arbitrary: db)
  case (Cons n ns)
  obtain r db1 where 1: "ensure_member now u n db = (r, db1)" by fastforce
  with ensure_member_same_users [of db now u n] have "same_users db db1" by simp
  then show ?case using Cons.IH [of db1] same_users_trans by (auto simp: 1 split: sum.split)
qed simp

lemma revoke_members_same_users: "same_users db (snd (revoke_members pre d u gs db))"
proof (induction gs arbitrary: db)
  case (Cons g gs)
  then show ?case
    by (auto split: sum.split account_exn.split dest: group_ops_same_users(3) intro: same_users_trans)
qed simp

lemma sync_groups_same_users: "sync_groups now u names pre db = (r, db') \<Longrightarrow> same_users db db'"
proof -
  assume a: "sync_groups now u names pre db = (r, db')"
  obtain q db1 where 1: "ensure_members now u names db = (q, db1)" by fastforce
  with ensure_members_same_users [of db now u names] have s: "same_users db db1" by simp
  show ?thesis
  proof (cases q)
    case (Inl e)
    with a 1 s show ?thesis by (simp add: sync_groups_def)
  next
    case (Inr x)
    with a 1 revoke_members_same_users [of db1 pre "set names" u "list_parent_group_ids USER u db1"]
    show ?thesis using s by (auto simp: sync_groups_def intro: same_users_trans)
  qed
qed

lemma linked_same_users: "same_users db db' \<Longrightarrow> linked sub db' u = linked sub db u"
  by (simp add: same_users_def linked_def get_user_by_external_id_def)

lemma callback_signed_in:
  assumes "oidc_callback dumps loads str_of http hashpw salt token now pre rq oc db = ((SsoLoggedIn next_url t, db'), oc')"
  obtains csrf cl where "given (cb_cookie rq)" "verify_oauth_state loads str_of (the (cb_state rq)) = Inr (next_url, csrf)"
    "compare_digest (the (cb_cookie rq)) csrf = Inr True" "fst (code_claims str_of http (the (cb_code rq)) oc) = Inr (JObj cl)"
    "sign_in dumps hashpw salt token now pre next_url cl db = (SsoLoggedIn next_url t, db')"
proof -
  have n: "sign_in dumps hashpw salt token now pre n cl db = (SsoLoggedIn next_url t, db') \<Longrightarrow> n = next_url" for n cl
    by (auto simp: sign_in_def split: if_splits sum.splits option.splits json.splits prod.splits)
  show thesis
    using assms that
    by (auto simp: oidc_callback_def split: if_splits sum.splits bool.splits option.splits json.splits prod.splits dest: n) 
qed

lemma authorize_url_query:
  assumes "fst (authorize_url str_of http st oc) = Inr url"
  shows "\<exists>endpoint q. url = endpoint @ ''?'' @ q \<and> (utf8_encode ''state'', utf8_encode st) \<in> set (parse_query q)"
proof -
  let ?ps = "authorize_params oc st"
  obtain endpoint where "url = endpoint @ ''?'' @ urlencode ?ps"
    using assms by (auto simp: authorize_url_def res_bind_eq_Inr split: prod.splits)
  moreover have "(utf8_encode ''state'', utf8_encode st) \<in> set (parse_query (urlencode ?ps))"
    using parse_urlencode [of ?ps] by (simp add: authorize_params_def)
  ultimately show ?thesis by blast
qed

lemma linked_user: "accounts_ok db \<Longrightarrow> linked sub db u \<Longrightarrow> uid u \<in> user_ids db \<and> username u \<noteq> []"
  unfolding linked_def external_iff by (auto simp: user_ids_def accounts_ok_def users_ok_def clean_name_def)

lemma sign_in_succeeds:
  assumes "accounts_ok db" and "map_of cl ''sub'' = Some (JStr sub)" and "sub \<noteq> []"
    and "(\<exists>u. linked sub db u) \<or> (\<exists>i < 50. \<not> username_exists (candidate (derive_username cl) i) db)"
    and "hash_password hashpw salt token = Inr h" and "\<forall>n \<in> set (claimed_groups cl pre). clean_name n"
  shows "\<exists>t u db'. sign_in dumps hashpw salt token now pre next_url cl db = (SsoLoggedIn next_url t, db') \<and> accounts_ok db' \<and>
    linked sub db' u \<and> t = dumps SESSION_SALT (session_payload (uid u) (username u))"
proof -
  have "\<exists>r. resolve_or_create hashpw salt token now sub cl db = Inr r"
  proof (cases "\<exists>u. linked sub db u")
    case False
    then have "\<exists>i \<in> set [0 ..< 50]. \<not> username_exists (candidate (derive_username cl) i) db" using assms(4) by auto
    from free_candidate_created [OF assms(1) _ assms(3,5) this] False show ?thesis
      by (cases "get_user_by_external_id PROVIDER sub db") (auto simp: resolve_or_create_def)
  qed (auto simp: resolve_or_create_def linked_def)
  then obtain u db1 where r: "resolve_or_create hashpw salt token now sub cl db = Inr (u, db1)" by auto
  have db1: "accounts_ok db1" "linked sub db1 u" using resolve_or_create_result [OF r assms(1)] by auto
  note u = linked_user [OF db1]
  have "\<forall>n \<in> set (remdups (claimed_groups cl pre)). clean_name n \<and> py_startswith n pre"
    using assms(6) by (auto simp: claimed_groups_def split: option.splits json.splits if_splits)
  from sync_groups_spec [OF db1(1) this conjunct1 [OF u], of now] obtain db2 where
    g: "sync_groups now (uid u) (remdups (claimed_groups cl pre)) pre db1 = (Inr (), db2)" "accounts_ok db2" by blast
  moreover have "linked sub db2 u" using linked_same_users [OF sync_groups_same_users [OF g(1)]] db1(2) by simp
  ultimately show ?thesis using r db1 u assms(2,3) by (cases "pre = []") (auto simp: sign_in_def issue_def)
qed

section \<open>Properties\<close>

text \<open>C16: a login through the provider is complete and its own. When the callback signs a user in, the
  browser presented the very random value that the signed state carries, the provider vouched for a
  subject, and the session is that of the account linked to the subject. Without a linked account a
  new one is made, so no account that existed before is taken over, whatever names the claims hold;
  with one, nothing about users changes. The users that existed stay as they were.\<close>

theorem sso_login_sound:
  assumes "accounts_ok db" and "oidc_callback dumps loads str_of http hashpw salt token now pre rq oc db = ((SsoLoggedIn next_url t, db'), oc')"
  shows "\<exists>csrf cl sub u. cb_cookie rq = Some csrf \<and> csrf \<noteq> [] \<and>
    verify_oauth_state loads str_of (the (cb_state rq)) = Inr (next_url, csrf) \<and>
    fst (code_claims str_of http (the (cb_code rq)) oc) = Inr (JObj cl) \<and> map_of cl ''sub'' = Some (JStr sub) \<and> sub \<noteq> [] \<and>
    linked sub db' u \<and> issue dumps (uid u) (username u) = Inr t \<and> accounts_ok db' \<and>
    (if \<exists>v. linked sub db v then users db' = users db \<and> linked sub db u
     else uid u \<notin> user_ids db \<and> users db' = users db @ [u])"
proof -
  from assms(2) obtain csrf cl where o: "given (cb_cookie rq)"
    "verify_oauth_state loads str_of (the (cb_state rq)) = Inr (next_url, csrf)" "compare_digest (the (cb_cookie rq)) csrf = Inr True"
    "fst (code_claims str_of http (the (cb_code rq)) oc) = Inr (JObj cl)"
    "sign_in dumps hashpw salt token now pre next_url cl db = (SsoLoggedIn next_url t, db')"
    by (rule callback_signed_in)
  from o(5) obtain sub u db1 where c: "map_of cl ''sub'' = Some (JStr sub)" "sub \<noteq> []"
    "resolve_or_create hashpw salt token now sub cl db = Inr (u, db1)" "issue dumps (uid u) (username u) = Inr t"
    "pre = [] \<and> db' = db1 \<or> (\<exists>x. sync_groups now (uid u) (remdups (claimed_groups cl pre)) pre db1 = (x, db'))"
    by (auto simp: sign_in_def split: if_splits sum.splits option.splits json.splits prod.splits)
  have "cb_cookie rq = Some csrf" "csrf \<noteq> []"
    using o(1,3) by (auto simp: given_def compare_digest_def split: if_splits)
  moreover have s: "same_users db1 db'" using c(5) sync_groups_same_users by auto
  moreover note r = resolve_or_create_result [OF c(3) assms(1)]
  ultimately show ?thesis
    using o(2,4) c(1,2,4) linked_same_users [OF s] by (auto simp: same_users_def split: if_splits)
qed

definition demo_callback :: callback_request where
  "demo_callback = \<lparr>cb_error = None, cb_code = Some ''k'', cb_state = Some ''s'', cb_cookie = Some ''c''\<rparr>"

definition demo_state :: loads_fn where
  "demo_state salt tok age = Loaded (JObj [(''next'', JStr ''/m/a''), (''csrf'', JStr ''c'')])"

definition demo_claims :: claims where
  "demo_claims = [(''sub'', JStr ''u1''), (''name'', JStr '' Ann-''), (''groups'', JList [JStr ''app:files:eng'', JStr ''x''])]"

definition demo_provider :: provider where
  "demo_provider rq = HttpReply 200 (Json (case rq of
     DiscoveryRequest u \<Rightarrow> JObj [(''authorization_endpoint'', JStr ''https://idp/auth''), (''token_endpoint'', JStr ''https://idp/token''),
       (''userinfo_endpoint'', JStr ''https://idp/me'')]
   | TokenRequest u ps \<Rightarrow> JObj [(''access_token'', JStr ''at'')]
   | UserinfoRequest u h \<Rightarrow> JObj demo_claims))"

definition demo_client :: OidcClient where
  "demo_client = OidcClient_init ''https://idp/'' ''wfs'' ''secret'' ''https://relay/auth/oidc/callback'' ''openid profile''"

definition demo_signed_in :: "sso_reply \<times> accounts_db" where
  "demo_signed_in = fst (oidc_callback (\<lambda>salt j. salt) demo_state (\<lambda>_. []) demo_provider (\<lambda>_ _. [1]) [] ''t'' 0
     ''app:files:'' demo_callback demo_client create_store)"

lemma demo_signed_in_reply: "fst demo_signed_in = SsoLoggedIn ''/m/a'' SESSION_SALT \<and> map username (users (snd demo_signed_in)) = [''Ann'']"
  by code_simp

lemma demo_code_claims: "fst (code_claims (\<lambda>_. []) demo_provider ''k'' demo_client) = Inr (JObj demo_claims)"
  by code_simp

theorem sso_login_sound_witness:
  "\<exists>u. linked ''u1'' (snd demo_signed_in) u \<and> uid u \<notin> user_ids create_store \<and> users (snd demo_signed_in) = users create_store @ [u]"
proof -
  obtain oc where "oidc_callback (\<lambda>salt j. salt) demo_state (\<lambda>_. []) demo_provider (\<lambda>_ _. [1]) [] ''t'' 0 ''app:files:''
      demo_callback demo_client create_store = ((SsoLoggedIn ''/m/a'' SESSION_SALT, snd demo_signed_in), oc)"
    using demo_signed_in_reply by (metis demo_signed_in_def prod.collapse)
  note s = sso_login_sound [OF create_store_ok this]
  have "\<not> linked ''u1'' create_store v" for v by (simp add: linked_def get_user_by_external_id_def create_store_def fetchone_def)
  with s demo_code_claims show ?thesis by (auto simp: demo_callback_def demo_claims_def)
qed

text \<open>C21: group synchronisation is exact. Afterwards the user's direct groups with the prefix are the
  claimed ones, those without it are what they were, and every other membership, nested groups
  included, is untouched; no group disappears and the invariant of the accounts holds. Names are
  taken to have no space at an end, as the store strips them.\<close>

theorem sso_groups_exact:
  assumes "accounts_ok db" and "user_id \<in> user_ids db" and "set names = set (claimed_groups cl pre)"
    and "\<forall>n \<in> set names. clean_name n"
  shows "\<exists>db'. sync_groups now user_id names pre db = (Inr (), db') \<and> accounts_ok db' \<and>
    direct_groups user_id db' = set (claimed_groups cl pre) \<union> {n \<in> direct_groups user_id db. \<not> py_startswith n pre} \<and>
    other_members user_id db' = other_members user_id db \<and> set (groups db) \<subseteq> set (groups db')"
proof -
  have "py_startswith n pre" if "n \<in> set (claimed_groups cl pre)" for n
    using that by (auto simp: claimed_groups_def split: option.splits json.splits if_splits)
  with sync_groups_spec [OF assms(1) _ assms(2), of names pre now] assms(3,4) show ?thesis by auto
qed

theorem sso_groups_exact_witness:
  "\<exists>db'. sync_groups 0 1 [''app:files:eng''] ''app:files:'' two_groups = (Inr (), db') \<and> ''app:files:eng'' \<in> direct_groups 1 db'"
proof -
  have c: "claimed_groups demo_claims ''app:files:'' = [''app:files:eng'']" by code_simp
  have n: "\<forall>n \<in> set [''app:files:eng'']. clean_name n" by code_simp
  have u: "1 \<in> user_ids two_groups" by (simp add: two_groups_eq user_ids_def)
  have s: "set [''app:files:eng''] = set (claimed_groups demo_claims ''app:files:'')" by (simp only: c)
  obtain db' where "sync_groups 0 1 [''app:files:eng''] ''app:files:'' two_groups = (Inr (), db')"
    "direct_groups 1 db' = set (claimed_groups demo_claims ''app:files:'') \<union> {n \<in> direct_groups 1 two_groups. \<not> py_startswith n ''app:files:''}"
    using sso_groups_exact [OF two_groups_ok u s n, of 0] by blast
  then show ?thesis unfolding c by auto
qed

text \<open>C22: the login through the provider works. A browser that starts it is sent to the provider with a
  query that carries the signed state; when it comes back with that state, the cookie it was given and
  a code for which the provider returns claims with a subject, it is signed in and sent to the page it
  asked for: as the account linked to the subject or, when one of the fifty candidate names is free, as
  a new account that is then linked to it. The token it gets verifies as that user. The signer has to
  give back what it signed, and the claimed groups to have no space at an end.\<close>

theorem sso_flow_completes:
  assumes "accounts_ok db" and "\<And>salt v age. json_plain v \<Longrightarrow> loads salt (dumps salt v) age = Loaded v \<and> dumps salt v \<noteq> []"
    and "oidc_login dumps str_of http csrf next_param oc = (SsoRedirect url st csrf, oc1)" and "is_ascii csrf"
    and "code_claims str_of http' code oc1 = (Inr (JObj cl), oc2)" and "code \<noteq> []"
    and "map_of cl ''sub'' = Some (JStr sub)" and "sub \<noteq> []"
    and "(\<exists>u. linked sub db u) \<or> (\<exists>i < 50. \<not> username_exists (candidate (derive_username cl) i) db)"
    and "hash_password hashpw salt token = Inr h" and "\<forall>n \<in> set (claimed_groups cl pre). clean_name n"
  shows "\<exists>u t db'. oidc_callback dumps loads str_of http' hashpw salt token now pre
      \<lparr>cb_error = None, cb_code = Some code, cb_state = Some st, cb_cookie = Some csrf\<rparr> oc1 db =
      ((SsoLoggedIn (safe_next next_param) t, db'), oc2) \<and> accounts_ok db' \<and> linked sub db' u \<and>
    verify_session_cookie loads str_of t = Inr \<lparr>ident_user_id = uid u, ident_username = username u\<rparr> \<and>
    (\<exists>endpoint q. url = endpoint @ ''?'' @ q \<and> (utf8_encode ''state'', utf8_encode st) \<in> set (parse_query q))"
proof -
  have st: "st = dumps OIDC_STATE_SALT (JObj [(''next'', JStr (safe_next next_param)), (''csrf'', JStr csrf)])" "csrf \<noteq> []"
    and url: "fst (authorize_url str_of http st oc) = Inr url"
    using assms(3) by (auto simp: oidc_login_def issue_oauth_state_def split: if_splits prod.splits sum.splits oidc_exn.splits)
  have v: "verify_oauth_state loads str_of st = Inr (safe_next next_param, csrf)" "st \<noteq> []"
    using assms(2) [of "JObj [(''next'', JStr (safe_next next_param)), (''csrf'', JStr csrf)]"]
    by (simp_all add: st(1) verify_oauth_state_def loads_or_raise_def)
  obtain t u db' where s: "sign_in dumps hashpw salt token now pre (safe_next next_param) cl db = (SsoLoggedIn (safe_next next_param) t, db')"
    "accounts_ok db'" "linked sub db' u" "t = dumps SESSION_SALT (session_payload (uid u) (username u))"
    using sign_in_succeeds [OF assms(1,7,8,9,10,11)] by blast
  have "oidc_callback dumps loads str_of http' hashpw salt token now pre
      \<lparr>cb_error = None, cb_code = Some code, cb_state = Some st, cb_cookie = Some csrf\<rparr> oc1 db =
      ((SsoLoggedIn (safe_next next_param) t, db'), oc2)"
    using v st(2) assms(4-6) s(1) by (simp add: oidc_callback_def given_def compare_digest_def)
  moreover have "verify_session_cookie loads str_of t = Inr \<lparr>ident_user_id = uid u, ident_username = username u\<rparr>"
    using assms(2) [of "session_payload (uid u) (username u)" SESSION_SALT]
    by (simp add: s(4) verify_session_cookie_def verify_def loads_or_raise_def to_identity_def session_payload_def)
  ultimately show ?thesis using s(2,3) authorize_url_query [OF url] by blast
qed

definition demo_sign :: dumps_fn where
  "demo_sign salt v = salt @ dumps_text v"

definition demo_unsign :: loads_fn where
  "demo_unsign salt tok age = (case json_loads (utf8_encode (drop (length salt) tok)) of Some v \<Rightarrow> Loaded v | None \<Rightarrow> BadSignature)"

lemma demo_sign_read: "json_plain v \<Longrightarrow> demo_unsign salt (demo_sign salt v) age = Loaded v \<and> demo_sign salt v \<noteq> []"
  using json_roundtrip [of v] dumps_pos [of v] by (simp add: demo_unsign_def demo_sign_def json_dumps_def)

theorem sso_flow_completes_witness:
  "\<exists>url st oc1 oc2 u t db'. oidc_login demo_sign (\<lambda>_. []) demo_provider ''c'' (Some ''/m/a'') demo_client = (SsoRedirect url st ''c'', oc1) \<and>
   oidc_callback demo_sign demo_unsign (\<lambda>_. []) demo_provider (\<lambda>_ _. [1]) [] ''t'' 0 ''app:files:''
     \<lparr>cb_error = None, cb_code = Some ''k'', cb_state = Some st, cb_cookie = Some ''c''\<rparr> oc1 create_store =
     ((SsoLoggedIn ''/m/a'' t, db'), oc2) \<and> linked ''u1'' db' u"
proof -
  obtain url st oc1 where l: "oidc_login demo_sign (\<lambda>_. []) demo_provider ''c'' (Some ''/m/a'') demo_client = (SsoRedirect url st ''c'', oc1)"
    and d: "oc_discovery oc1 \<noteq> None"
    by (simp add: oidc_login_def issue_oauth_state_def authorize_url_def discover_def demo_client_def OidcClient_init_def
        demo_provider_def res_bind_def)
  have cc: "\<exists>oc2. code_claims (\<lambda>_. []) demo_provider ''k'' oc1 = (Inr (JObj demo_claims), oc2)"
    using l by (auto simp: oidc_login_def issue_oauth_state_def authorize_url_def discover_def demo_client_def OidcClient_init_def
        demo_provider_def res_bind_def code_claims_def exchange_code_def fetch_userinfo_def is_ascii_def)
  then obtain oc2 where c: "code_claims (\<lambda>_. []) demo_provider ''k'' oc1 = (Inr (JObj demo_claims), oc2)" by blast
  have f: "\<not> username_exists (candidate (derive_username demo_claims) 0) create_store"
    by (simp add: username_exists_def create_store_def fetchone_def)
  have g: "\<forall>n \<in> set (claimed_groups demo_claims ''app:files:''). clean_name n" by code_simp
  have h: "hash_password (\<lambda>_ _. [1]) [] ''t'' = Inr [1]" by code_simp
  have n: "safe_next (Some ''/m/a'') = ''/m/a''" by code_simp
  from sso_flow_completes [OF create_store_ok demo_sign_read l _ c, of "''u1''" "\<lambda>_ _. [1]" "[]" "''t''" "[1]" "''app:files:''"] f g h n
  show ?thesis using l by (force simp: demo_claims_def is_ascii_def)
qed

text \<open>A browser takes a backslash for a slash, so that the check of the address to return to admits one on
  another host.\<close>

lemma safe_next_backslash:
  "safe_next (Some (''/'' @ [CHR 0x5C] @ ''evil.example'')) = ''/'' @ [CHR 0x5C] @ ''evil.example''"
  by (simp add: safe_next_def py_startswith_def)

text \<open>A user who was deactivated, whom the password login refuses, signs in through the provider.\<close>

lemma sso_ignores_deactivation:
  assumes "linked sub db u" and "\<not> is_active u" and "username u \<noteq> []" and "sub \<noteq> []"
    and "verify_oauth_state loads str_of s = Inr (next_url, csrf)" and "csrf \<noteq> []" and "is_ascii csrf"
    and "code_claims str_of http k oc = (Inr (JObj [(''sub'', JStr sub)]), oc')" and "s \<noteq> []" and "k \<noteq> []"
  shows "oidc_callback dumps loads str_of http hashpw salt token now []
     \<lparr>cb_error = None, cb_code = Some k, cb_state = Some s, cb_cookie = Some csrf\<rparr> oc db =
    ((SsoLoggedIn next_url (dumps SESSION_SALT (session_payload (uid u) (username u))), db), oc')"
  using assms by (simp add: oidc_callback_def sign_in_def given_def compare_digest_def resolve_or_create_def linked_def issue_def)

text \<open>A claimed group with a space at its end is never found under that name: once the group exists, the
  login of everyone who claims it so fails.\<close>

lemma padded_group_blocks_login:
  assumes "get_group_by_name (n @ '' '') db = Inl e" and "py_strip (n @ '' '') = n" and "n \<noteq> []" and "group_name_exists n db"
  shows "ensure_member now user_id (n @ '' '') db = (Inl e, db)"
  using assms by (simp add: ensure_member_def find_group_def create_group_def map_ok_def)

end
