(* ===== verification/Cookies.thy ===== *)
theory Cookies
  imports Server_Routes
begin

text \<open>
  From the raw headers of a request to the decision of the password gate: the reading of the \<open>Cookie\<close>
  header (\<open>_extract_session_cookie\<close> over \<open>http.cookies.SimpleCookie\<close>), the middleware of HTTP requests
  (\<open>middleware/auth_middleware.py\<close>) and the check of the WebSocket endpoint (\<open>routers/websocket.py\<close>).

  \<open>SimpleCookie\<close> reads the header with a regular expression. A pattern is a function from the text to the
  list of its matches, each with what is left, in the order in which Python's backtracking tries them;
  the match of the expression is the first one. Header names and values are \<open>latin-1\<close> text.
\<close>

section \<open>Patterns\<close>

type_synonym pattern = "str \<Rightarrow> (str \<times> str) list"

fun match_star :: "(char \<Rightarrow> bool) \<Rightarrow> pattern" where
  "match_star p [] = [([], [])]"
| "match_star p (c # s) = (if p c then map (apfst (Cons c)) (match_star p s) else []) @ [([], c # s)]"

fun match_lazy :: "(char \<Rightarrow> bool) \<Rightarrow> pattern" where
  "match_lazy p [] = [([], [])]"
| "match_lazy p (c # s) = ([], c # s) # (if p c then map (apfst (Cons c)) (match_lazy p s) else [])"

definition match_char :: "(char \<Rightarrow> bool) \<Rightarrow> pattern" where
  "match_char p s = (case s of [] \<Rightarrow> [] | c # r \<Rightarrow> if p c then [([c], r)] else [])"

definition match_seq :: "pattern \<Rightarrow> pattern \<Rightarrow> pattern" where
  "match_seq f g s = concat (map (\<lambda>(m, r). map (apfst ((@) m)) (g r)) (f s))"

definition match_times :: "nat \<Rightarrow> nat \<Rightarrow> (char \<Rightarrow> bool) \<Rightarrow> pattern" where
  "match_times lo hi p s = filter (\<lambda>(m, r). lo \<le> length m \<and> length m \<le> hi) (match_star p s)"

section \<open>The cookie pattern (http.cookies)\<close>

definition re_space :: "char \<Rightarrow> bool" where
  "re_space c = (let n = of_char c :: nat in (9 \<le> n \<and> n \<le> 13) \<or> n = 32)"

definition re_word :: "char \<Rightarrow> bool" where
  "re_word c = (let n = of_char c :: nat in
     (48 \<le> n \<and> n \<le> 57) \<or> (65 \<le> n \<and> n \<le> 90) \<or> (97 \<le> n \<and> n \<le> 122) \<or> n = 95)"

definition LegalKeyChars :: "char \<Rightarrow> bool" where
  "LegalKeyChars c = (re_word c \<or> c \<in> set ''!#%&~_`><@,:/$*+-.^|)(?}{='' \<or> c = CHR 0x27)"

definition LegalValueChars :: "char \<Rightarrow> bool" where
  "LegalValueChars c = (LegalKeyChars c \<or> c = CHR ''['' \<or> c = CHR '']'')"

definition LegalChars :: "char \<Rightarrow> bool" where
  "LegalChars c = ((re_word c \<or> c \<in> set ''!#$%&*+-.^_`|~:'') \<or> c = CHR 0x27)"

abbreviation "dquote \<equiv> CHR 0x22"
abbreviation "backslash \<equiv> CHR 0x5C"
abbreviation "newline \<equiv> CHR 0x0A"

text \<open>The rest of a quoted string, up to its first quote without a backslash.\<close>

fun quoted_rest :: pattern where
  "quoted_rest [] = []"
| "quoted_rest (c # s) =
     (if c = dquote then [([c], s)]
      else if c = backslash then
        (case s of [] \<Rightarrow> [] | d # r \<Rightarrow> if d = newline then [] else map (apfst (\<lambda>m. c # d # m)) (quoted_rest r))
      else map (apfst (Cons c)) (quoted_rest s))"

definition expires_date :: pattern where
  "expires_date = match_seq (match_times 3 3 re_word) (match_seq (match_char ((=) CHR '','')) (match_seq (match_char re_space)
     (match_seq (match_times 9 11 (\<lambda>c. re_word c \<or> re_space c \<or> c = CHR ''-'')) (match_seq (match_char re_space)
     (match_seq (match_times 8 8 (\<lambda>c. is_digit c \<or> c = CHR '':'')) (match_seq (match_char re_space)
     (match_seq (match_char ((=) CHR ''G'')) (match_seq (match_char ((=) CHR ''M'')) (match_char ((=) CHR ''T''))))))))))"

definition cookie_value :: pattern where
  "cookie_value s = match_seq (match_char ((=) dquote)) quoted_rest s @ expires_date s @ match_star LegalValueChars s"

definition value_group :: "str \<Rightarrow> (str option \<times> str) list" where
  "value_group s = [(Some v, r). (w, r1) \<leftarrow> match_star re_space s, (e, r2) \<leftarrow> match_char ((=) CHR ''='') r1,
     (w', r3) \<leftarrow> match_star re_space r2, (v, r) \<leftarrow> cookie_value r3] @ [(None, s)]"

definition cookie_end :: pattern where
  "cookie_end s = match_seq (match_char re_space) (match_star re_space) s @ match_char ((=) CHR '';'') s @
     (if s = [] \<or> s = [newline] then [([], s)] else [])"

text \<open>What follows a key: the value, blanks, and a separator or the end.\<close>

definition after_key :: "str \<Rightarrow> (str option \<times> str) list" where
  "after_key s = [(v, r). (v, r1) \<leftarrow> value_group s, (w, r2) \<leftarrow> match_star re_space r1, (e, r) \<leftarrow> cookie_end r2]"

definition CookiePattern :: "str \<Rightarrow> (str \<times> str option \<times> str) list" where
  "CookiePattern s = concat (map (\<lambda>(w, r1). concat (map (\<lambda>(k, r2). map (Pair k) (after_key r2))
     (match_seq (match_char LegalKeyChars) (match_lazy LegalKeyChars) r1))) (match_star re_space s))"

subsection \<open>Every match consumes text\<close>

text \<open>The loop over the header ends because the pattern consumes at least the first character of a key.\<close>

named_theorems consumes \<open>what a match leaves is not longer than the text\<close>

lemma match_star_consumes [consumes]: "(m, r) \<in> set (match_star p s) \<Longrightarrow> length r \<le> length s"
  by (induction s arbitrary: m) (auto split: if_splits intro: le_SucI)

lemma match_lazy_consumes [consumes]: "(m, r) \<in> set (match_lazy p s) \<Longrightarrow> length r \<le> length s"
  by (induction s arbitrary: m) (auto split: if_splits intro: le_SucI)

lemma match_char_consumes: "(m, r) \<in> set (match_char p s) \<Longrightarrow> length r < length s"
  by (auto simp: match_char_def split: list.splits if_splits)

lemma match_times_consumes [consumes]: "(m, r) \<in> set (match_times lo hi p s) \<Longrightarrow> length r \<le> length s"
  by (auto simp: match_times_def dest: match_star_consumes)

lemma match_seq_consumes:
  assumes "(m, r) \<in> set (match_seq f g s)"
    and "\<And>m r. (m, r) \<in> set (f s) \<Longrightarrow> length r \<le> length s" and "\<And>m r s. (m, r) \<in> set (g s) \<Longrightarrow> length r \<le> length s"
  shows "length r \<le> length s"
proof -
  from assms(1) obtain a t b where "(a, t) \<in> set (f s)" "(b, r) \<in> set (g t)" by (auto simp: match_seq_def)
  then show ?thesis using assms(2) [of a t] assms(3) [of b r t] by simp
qed

lemmas match_char_shrinks [consumes] = less_imp_le [OF match_char_consumes]

lemma quoted_rest_consumes [consumes]: "(m, r) \<in> set (quoted_rest s) \<Longrightarrow> length r \<le> length s"
  by (induction s arbitrary: m rule: quoted_rest.induct) (fastforce split: if_splits list.splits)+

lemma expires_date_consumes [consumes]: "(m, r) \<in> set (expires_date s) \<Longrightarrow> length r \<le> length s"
  unfolding expires_date_def by (rule match_seq_consumes, assumption | erule consumes)+

lemma cookie_value_consumes [consumes]: "(v, r) \<in> set (cookie_value s) \<Longrightarrow> length r \<le> length s"
  by (auto simp: cookie_value_def dest: consumes match_seq_consumes [OF _ match_char_shrinks quoted_rest_consumes])

lemma value_group_consumes [consumes]: "(v, r) \<in> set (value_group s) \<Longrightarrow> length r \<le> length s"
  by (fastforce simp: value_group_def dest: consumes)

lemma cookie_end_consumes [consumes]: "(m, r) \<in> set (cookie_end s) \<Longrightarrow> length r \<le> length s"
  by (auto simp: cookie_end_def split: if_splits
      dest: consumes match_seq_consumes [OF _ match_char_shrinks match_star_consumes])

lemma cookie_key_consumes:
  assumes "(k, r) \<in> set (match_seq (match_char p) (match_lazy q) s)"
  shows "length r < length s"
proof -
  from assms obtain a t b where "(a, t) \<in> set (match_char p s)" "(b, r) \<in> set (match_lazy q t)" by (auto simp: match_seq_def)
  then show ?thesis using match_char_consumes match_lazy_consumes by fastforce
qed

lemma after_key_consumes [consumes]: "(v, r) \<in> set (after_key s) \<Longrightarrow> length r \<le> length s"
  by (fastforce simp: after_key_def dest: consumes)

lemma CookiePattern_consumes: "(k, v, r) \<in> set (CookiePattern s) \<Longrightarrow> length r < length s"
  by (fastforce simp: CookiePattern_def dest: consumes cookie_key_consumes)

section \<open>Reading a header (http.cookies)\<close>

text \<open>Substitution of \<open>\OOO\<close> and \<open>\c\<close> in a quoted value.\<close>

fun unquote_sub :: "str \<Rightarrow> str" where
  "unquote_sub (c # a # b # d # s) =
     (if c \<noteq> backslash then c # unquote_sub (a # b # d # s)
      else if a \<in> set ''0123'' \<and> b \<in> set ''01234567'' \<and> d \<in> set ''01234567''
        then char_of ((of_char a - 48) * 64 + (of_char b - 48) * 8 + (of_char d - 48) :: nat) # unquote_sub s
      else if a \<noteq> newline then a # unquote_sub (b # d # s) else c # unquote_sub (a # b # d # s))"
| "unquote_sub (c # a # s) =
     (if c = backslash \<and> a \<noteq> newline then a # unquote_sub s else c # unquote_sub (a # s))"
| "unquote_sub s = s"

definition cookie_unquote :: "str \<Rightarrow> str" where
  "cookie_unquote s = (if length s < 2 \<or> hd s \<noteq> dquote \<or> last s \<noteq> dquote then s else unquote_sub (butlast (tl s)))"

definition morsel_reserved :: "str list" where
  "morsel_reserved = [''expires'', ''path'', ''comment'', ''domain'', ''max-age'', ''secure'', ''httponly'', ''version'', ''samesite'']"

definition morsel_flags :: "str list" where
  "morsel_flags = [''secure'', ''httponly'']"

datatype attr_value = AttrNone | AttrTrue | AttrText str
datatype cookie_item = Attribute str attr_value | KeyValue str str str
datatype cookie_exn = InvalidAttribute str | ReservedKey str | IllegalKey str | NoMorsel

text \<open>The first loop of \<open>__parse_string\<close>: the items of the header, or \<open>None\<close> where it gives up and loads
  nothing.\<close>

function parse_items :: "bool \<Rightarrow> str \<Rightarrow> cookie_item list option" where
  "parse_items morsel_seen s =
     (if s = [] then Some []
      else (case CookiePattern s of
          [] \<Rightarrow> Some []
        | (key, v, r) # _ \<Rightarrow>
            if hd key = CHR ''$'' then
              (if \<not> morsel_seen then parse_items morsel_seen r
               else map_option (Cons (Attribute (tl key) (case v of None \<Rightarrow> AttrNone | Some t \<Rightarrow> AttrText t)))
                 (parse_items morsel_seen r))
            else if py_lower key \<in> set morsel_reserved then
              (if \<not> morsel_seen then None
               else (case v of
                   None \<Rightarrow> if py_lower key \<in> set morsel_flags
                     then map_option (Cons (Attribute key AttrTrue)) (parse_items morsel_seen r) else None
                 | Some t \<Rightarrow> map_option (Cons (Attribute key (AttrText (cookie_unquote t)))) (parse_items morsel_seen r)))
            else (case v of
                None \<Rightarrow> None
              | Some t \<Rightarrow> map_option (Cons (KeyValue key (cookie_unquote t) t)) (parse_items True r))))"
  by pat_completeness auto
termination
  by (relation "measure (length \<circ> snd)") (auto intro: CookiePattern_consumes)

declare parse_items.simps [simp del]

record morsel =
  morsel_value :: str
  morsel_coded :: str
  morsel_attrs :: "(str \<times> attr_value) list"

type_synonym cookie_jar = "(str \<times> morsel) list"

definition set_morsel :: "str \<Rightarrow> str \<Rightarrow> str \<Rightarrow> cookie_jar \<Rightarrow> (cookie_exn, cookie_jar) result" where
  "set_morsel key rval cval jar =
     (if py_lower key \<in> set morsel_reserved then Inl (ReservedKey key)
      else if key = [] \<or> \<not> list_all LegalChars key then Inl (IllegalKey key)
      else Inr (AList.update key \<lparr>morsel_value = rval, morsel_coded = cval,
        morsel_attrs = (case map_of jar key of None \<Rightarrow> [] | Some m \<Rightarrow> morsel_attrs m)\<rparr> jar))"

definition set_attribute :: "str \<Rightarrow> str \<Rightarrow> attr_value \<Rightarrow> cookie_jar \<Rightarrow> (cookie_exn, cookie_jar) result" where
  "set_attribute key attr v jar =
     (if py_lower attr \<notin> set morsel_reserved then Inl (InvalidAttribute (py_lower attr))
      else Inr (AList.map_entry key (morsel_attrs_update (AList.update (py_lower attr) v)) jar))"

text \<open>The second loop: the current morsel is the one of the last key.\<close>

fun apply_items :: "str option \<Rightarrow> cookie_item list \<Rightarrow> cookie_jar \<Rightarrow> (cookie_exn, cookie_jar) result" where
  "apply_items cur [] jar = Inr jar"
| "apply_items cur (Attribute a v # items) jar = (case cur of
     None \<Rightarrow> Inl NoMorsel
   | Some key \<Rightarrow> res_bind (set_attribute key a v jar) (apply_items cur items))"
| "apply_items cur (KeyValue key rval cval # items) jar =
     res_bind (set_morsel key rval cval jar) (apply_items (Some key) items)"

definition cookie_load :: "str \<Rightarrow> (cookie_exn, cookie_jar) result" where
  "cookie_load header = (case parse_items False header of None \<Rightarrow> Inr [] | Some items \<Rightarrow> apply_items None items [])"

section \<open>The gates (auth_middleware.py, websocket.py)\<close>

definition extract_session_cookie :: "str \<Rightarrow> (cookie_exn, str option) result" where
  "extract_session_cookie cookie_header =
     (if cookie_header = [] then Inr None
      else res_bind (cookie_load cookie_header) (\<lambda>cookie.
        Inr (map_option morsel_value (map_of cookie ''session''))))"

datatype gate_exn = GateCookie cookie_exn | GateSignature sig_exn
datatype gate_reply = PassOn | Respond nat "(str \<times> str) list" bytes

definition send_401 :: gate_reply where
  "send_401 = (let body = json_dumps (JObj [(''detail'', JStr ''Not authenticated'')]) in
     Respond 401 [(''content-type'', ''application/json''), (''content-length'', nat_digits (length body))] body)"

definition AuthMiddleware_call ::
  "mac_fn \<Rightarrow> (str \<Rightarrow> loads_result) \<Rightarrow> server_config \<Rightarrow> str \<Rightarrow> str \<Rightarrow> (str \<times> str) list \<Rightarrow> (gate_exn, gate_reply) result" where
  "AuthMiddleware_call mac loads cfg scope_type path headers =
     (if scope_type \<noteq> ''http'' then Inr PassOn
      else if \<not> py_startswith path ''/api/'' then Inr PassOn
      else if list_ex (py_startswith path) EXEMPT_API_PREFIXES then Inr PassOn
      else res_bind (map_sum GateSignature id (is_auth_bypassed mac cfg (look (rev headers)))) (\<lambda>bypassed.
        if bypassed then Inr PassOn
        else
          let cookie_header = (case map_of (rev headers) ''cookie'' of None \<Rightarrow> [] | Some v \<Rightarrow> v) in
          res_bind (map_sum GateCookie id (extract_session_cookie cookie_header)) (\<lambda>token.
            Inr (case token of
                None \<Rightarrow> send_401
              | Some t \<Rightarrow> if validate_token loads t then PassOn else send_401))))"

definition ws_session :: "(str \<Rightarrow> loads_result) \<Rightarrow> server_config \<Rightarrow> (str \<times> str) list \<Rightarrow> (cookie_exn, bool) result" where
  "ws_session loads cfg headers =
     (if cfg_password_hash cfg = None then Inr True
      else
        let cookie_header = (case map_of headers ''cookie'' of None \<Rightarrow> [] | Some v \<Rightarrow> v) in
        if cookie_header = [] then Inr False
        else res_bind (cookie_load cookie_header) (\<lambda>cookie. Inr (case map_of cookie ''session'' of
            None \<Rightarrow> False
          | Some m \<Rightarrow> validate_token loads (morsel_value m))))"

section \<open>Lemmas\<close>

lemma match_star_none: "s = [] \<or> \<not> p (hd s) \<Longrightarrow> match_star p s = [([], s)]"
  by (cases s) auto

lemma match_star_first:
  assumes "list_all p v" and "t = [] \<or> \<not> p (hd t)"
  shows "\<exists>ms. match_star p (v @ t) = (v, t) # ms"
  using assms(1)
proof (induction v)
  case Nil
  then show ?case using match_star_none [of t p, OF assms(2)] by simp
next
  case (Cons c v)
  then obtain ms where "match_star p (v @ t) = (v, t) # ms" by auto
  then show ?case using Cons by simp
qed

text \<open>Characters that neither end a key nor start a value.\<close>

definition inner :: "char \<Rightarrow> bool" where
  "inner c = (\<not> re_space c \<and> c \<noteq> CHR ''='' \<and> c \<noteq> CHR '';'')"

lemma newline_space: "re_space newline"
  by (simp add: re_space_def)

lemma cookie_end_inner: "inner c \<Longrightarrow> cookie_end (c # s) = []"
  using newline_space by (auto simp: cookie_end_def inner_def match_seq_def match_char_def)

lemma value_group_inner: "inner c \<Longrightarrow> value_group (c # s) = [(None, c # s)]"
  by (auto simp: value_group_def inner_def match_char_def)

lemma after_key_inner: "inner c \<Longrightarrow> after_key (c # s) = []"
  by (simp add: after_key_def value_group_inner cookie_end_inner inner_def)

text \<open>Characters of a key, apart from the equals sign.\<close>

definition key_char :: "char \<Rightarrow> bool" where
  "key_char c = (LegalKeyChars c \<and> c \<noteq> CHR ''='')"

lemma key_char_inner: "key_char c \<Longrightarrow> inner c \<and> LegalKeyChars c"
  by (auto simp: key_char_def LegalKeyChars_def inner_def re_space_def re_word_def Let_def)

lemma legal_key_char: "LegalChars c \<Longrightarrow> key_char c"
  by (auto simp: LegalChars_def LegalKeyChars_def key_char_def re_word_def Let_def)

lemma lazy_key_first:
  assumes "list_all key_char k" and "after_key t = x # ms"
  shows "\<exists>ms. concat (map (\<lambda>(k, r). map (f k) (after_key r)) (match_lazy LegalKeyChars (k @ t))) = f k x # ms"
  using assms(1)
proof (induction k arbitrary: f)
  case Nil
  then show ?case using assms(2) by (cases t) auto
next
  case (Cons c k)
  from Cons.IH [of "f \<circ> Cons c"] Cons.prems obtain ms where
    "concat (map (\<lambda>(k', r). map ((f \<circ> Cons c) k') (after_key r)) (match_lazy LegalKeyChars (k @ t))) = f (c # k) x # ms" by auto
  moreover have "(\<lambda>(k, r). map (f k) (after_key r)) \<circ> apfst (Cons c) = (\<lambda>(k', r). map ((f \<circ> Cons c) k') (after_key r))"
    by (auto simp: fun_eq_iff)
  ultimately show ?case using Cons.prems key_char_inner by (simp add: after_key_inner)
qed

lemma value_chars:
  assumes "LegalValueChars c"
  shows "\<not> re_space c" and "c \<noteq> CHR '';''" and "c \<noteq> dquote"
  using assms by (auto simp: LegalValueChars_def LegalKeyChars_def re_space_def re_word_def Let_def)

text \<open>A value and what follows it, up to the next separator.\<close>

definition value_text :: "str \<Rightarrow> str \<Rightarrow> bool" where
  "value_text v tail \<longleftrightarrow> list_all LegalValueChars v \<and> (tail = [] \<or> hd tail = CHR '';'')"

lemma value_text_hd:
  assumes "value_text v tail"
  shows "v @ tail = [] \<or> \<not> re_space (hd (v @ tail)) \<and> hd (v @ tail) \<noteq> dquote"
  using assms value_chars [of "hd v"]
  by (cases v) (auto simp: value_text_def re_space_def)

lemma value_text_next:
  assumes "value_text v tail" and "v @ tail = p @ t" and "CHR '';'' \<notin> set p"
  shows "t = [] \<or> \<not> re_space (hd t)"
proof -
  have tail: "tail = [] \<or> \<not> re_space (hd tail)" using assms(1) by (auto simp: value_text_def re_space_def)
  from assms(2) consider us where "v = p @ us" "us @ tail = t" | us where "v @ us = p" "tail = us @ t"
    by (auto simp: append_eq_append_conv2)
  then show ?thesis
  proof cases
    case 1
    then show ?thesis using tail assms(1) value_chars(1) [of "hd us"] by (cases us) (auto simp: value_text_def)
  next
    case 2
    then show ?thesis using tail assms(1,3) by (cases us) (auto simp: value_text_def)
  qed
qed

lemma match_star_split: "(m, r) \<in> set (match_star p s) \<Longrightarrow> s = m @ r \<and> list_all p m"
  by (induction s arbitrary: m) (auto split: if_splits)

lemma no_date_in_value:
  assumes "value_text v tail"
  shows "expires_date (v @ tail) = []"
proof -
  have "match_seq (match_char ((=) CHR '','')) (match_seq (match_char re_space) g) r = []"
    if "(m, r) \<in> set (match_times 3 3 re_word (v @ tail))" for m r g
  proof -
    from that have e: "v @ tail = m @ r" and w: "list_all re_word m"
      by (auto simp: match_times_def dest: match_star_split)
    have sc: "CHR '';'' \<notin> set m" using w by (auto simp: list_all_iff re_word_def Let_def)
    have "t = [] \<or> \<not> re_space (hd t)" if "r = CHR '','' # t" for t
      using value_text_next [OF assms, of "m @ [CHR '','']" t] e sc that by simp
    then show ?thesis by (auto simp: match_seq_def match_char_def split: list.split)
  qed
  then show ?thesis unfolding expires_date_def match_seq_def [of "match_times 3 3 re_word"] by auto
qed

lemma after_key_first:
  assumes "value_text v tail"
  shows "\<exists>ms. after_key (CHR ''='' # v @ tail) = (Some v, tl tail) # ms"
proof -
  have v: "list_all LegalValueChars v" and t: "tail = [] \<or> hd tail = CHR '';''" using assms by (auto simp: value_text_def)
  have nl: "\<not> LegalValueChars CHR '';''" using value_chars(2) by blast
  obtain ms where star: "match_star LegalValueChars (v @ tail) = (v, tail) # ms"
    using match_star_first [of LegalValueChars v tail, OF v] t nl by auto
  have q: "match_seq (match_char ((=) dquote)) quoted_rest (v @ tail) = []"
    using value_text_hd [OF assms] by (cases "v @ tail") (auto simp: match_seq_def match_char_def)
  have val: "cookie_value (v @ tail) = (v, tail) # ms"
    using star q no_date_in_value [OF assms] by (simp add: cookie_value_def)
  have sp: "match_star re_space (v @ tail) = [([], v @ tail)]" using value_text_hd [OF assms] by (intro match_star_none) auto
  have eq: "\<not> re_space CHR ''=''" "\<not> re_space CHR '';''" by (simp_all add: re_space_def)
  have group: "\<exists>ns. value_group (CHR ''='' # v @ tail) = (Some v, tail) # ns"
    by (simp add: value_group_def eq match_char_def sp val)
  have "match_star re_space tail = [([], tail)]" using t eq by (intro match_star_none) auto
  moreover have "\<exists>es. cookie_end tail = (take 1 tail, tl tail) # es"
    using t eq by (cases tail) (auto simp: cookie_end_def match_seq_def match_char_def)
  ultimately show ?thesis using group by (auto simp: after_key_def)
qed

lemma pattern_first:
  assumes "k \<noteq> []" and "list_all key_char k" and "after_key t = (v, r) # ms" and "list_all re_space w"
  shows "\<exists>ms. CookiePattern (w @ k @ t) = (k, v, r) # ms"
proof -
  obtain c k' where k: "k = c # k'" using assms(1) by (cases k) auto
  have c: "LegalKeyChars c" "\<not> re_space c" using assms(2) key_char_inner [of c] by (auto simp: k inner_def)
  obtain ms' where key: "concat (map (\<lambda>(m, r). map (Pair (c # m)) (after_key r)) (match_lazy LegalKeyChars (k' @ t)))
      = (k, v, r) # ms'"
    using lazy_key_first [of k' t _ _ "\<lambda>m. Pair (c # m)", OF _ assms(3)] assms(2) by (auto simp: k)
  obtain ws where "match_star re_space (w @ k @ t) = (w, k @ t) # ws"
    using match_star_first [of re_space w "k @ t", OF assms(4)] c by (auto simp: k)
  moreover have "(\<lambda>(k, r). map (Pair k) (after_key r)) \<circ> apfst ((@) [c]) = (\<lambda>(m, r). map (Pair (c # m)) (after_key r))"
    by (auto simp: fun_eq_iff)
  ultimately show ?thesis using key c by (simp add: CookiePattern_def k match_seq_def match_char_def)
qed

text \<open>A name that the pattern takes for the name of a cookie, and a cookie as a browser sends it.\<close>

definition cookie_name :: "str \<Rightarrow> bool" where
  "cookie_name k \<longleftrightarrow> k \<noteq> [] \<and> list_all key_char k \<and> hd k \<noteq> CHR ''$'' \<and> py_lower k \<notin> set morsel_reserved"

definition plain_cookie :: "str \<times> str \<Rightarrow> bool" where
  "plain_cookie c \<longleftrightarrow> cookie_name (fst c) \<and> list_all LegalValueChars (snd c)"

text \<open>The header of a browser with these cookies.\<close>

definition cookie_text :: "(str \<times> str) list \<Rightarrow> str" where
  "cookie_text cs = join ''; '' (map (\<lambda>(k, v). k @ ''='' @ v) cs)"

lemma cookie_unquote_plain: "list_all LegalValueChars v \<Longrightarrow> cookie_unquote v = v"
  using value_chars(3) by (cases v) (auto simp: cookie_unquote_def)

lemma parse_items_cookie:
  assumes "plain_cookie (k, v)" and "tail = [] \<or> hd tail = CHR '';''" and "list_all re_space w"
  shows "parse_items seen (w @ k @ CHR ''='' # v @ tail) = map_option (Cons (KeyValue k v v)) (parse_items True (tl tail))"
proof -
  have k: "k \<noteq> []" "list_all key_char k" "hd k \<noteq> CHR ''$''" "py_lower k \<notin> set morsel_reserved"
    and v: "list_all LegalValueChars v" using assms(1) by (auto simp: plain_cookie_def cookie_name_def)
  have "value_text v tail" using v assms(2) by (simp add: value_text_def)
  then obtain ms where "CookiePattern (w @ k @ CHR ''='' # v @ tail) = (k, Some v, tl tail) # ms"
    using after_key_first pattern_first [OF k(1,2) _ assms(3)] by metis
  then show ?thesis using k(3,4) by (subst parse_items.simps) (simp add: cookie_unquote_plain [OF v])
qed

lemma parse_cookie_text:
  assumes "list_all plain_cookie cs" and "w = [] \<or> w = '' ''" and "cs \<noteq> []"
  shows "parse_items seen (w @ cookie_text cs) = Some (map (\<lambda>(k, v). KeyValue k v v) cs)"
  using assms
proof (induction cs arbitrary: w seen)
  case (Cons c cs)
  obtain k v where c: "c = (k, v)" by (cases c)
  have w: "list_all re_space w" using Cons.prems(2) by (auto simp: re_space_def)
  show ?case
  proof (cases cs)
    case Nil
    then show ?thesis using parse_items_cookie [of k v "[]" w seen] Cons.prems w
      by (simp add: c cookie_text_def parse_items.simps [of True "[]"])
  next
    case (Cons d ds)
    then have "w @ cookie_text (c # cs) = w @ k @ CHR ''='' # v @ CHR '';'' # ('' '' @ cookie_text cs)"
      by (simp add: cookie_text_def c)
    then show ?thesis using parse_items_cookie [of k v "CHR '';'' # ('' '' @ cookie_text cs)" w seen]
        Cons.prems Cons.IH [of "'' ''" True] w by (simp add: c Cons)
  qed
qed simp

lemma apply_cookies:
  assumes "\<forall>c \<in> set cs. cookie_name (fst c) \<and> list_all LegalChars (fst c)"
  shows "\<exists>jar'. apply_items cur (map (\<lambda>(k, v). KeyValue k v v) cs) jar = Inr jar' \<and>
    (\<forall>n. map_option morsel_value (map_of jar' n) =
      (case map_of (rev cs) n of Some v \<Rightarrow> Some v | None \<Rightarrow> map_option morsel_value (map_of jar n)))"
  using assms
proof (induction cs arbitrary: cur jar)
  case (Cons c cs)
  obtain k v where c: "c = (k, v)" by (cases c)
  have k: "cookie_name k" "list_all LegalChars k" using Cons.prems by (auto simp: c)
  define jar1 where "jar1 = AList.update k \<lparr>morsel_value = v, morsel_coded = v,
    morsel_attrs = (case map_of jar k of None \<Rightarrow> [] | Some m \<Rightarrow> morsel_attrs m)\<rparr> jar"
  have s: "set_morsel k v v jar = Inr jar1" using k by (simp add: set_morsel_def jar1_def cookie_name_def)
  from Cons.IH [of "Some k" jar1] Cons.prems s show ?case
    by (fastforce simp: c jar1_def update_conv' map_add_def split: option.splits)
qed simp

lemma apply_illegal:
  assumes "\<forall>c \<in> set cs. cookie_name (fst c)" and "\<exists>c \<in> set cs. \<not> list_all LegalChars (fst c)"
  shows "\<exists>k. apply_items cur (map (\<lambda>(k, v). KeyValue k v v) cs) jar = Inl (IllegalKey k)"
  using assms
proof (induction cs arbitrary: cur jar)
  case (Cons c cs)
  obtain k v where c: "c = (k, v)" by (cases c)
  then show ?case using Cons by (auto simp: set_morsel_def cookie_name_def)
qed simp

text \<open>The cookies of a browser whose names are tokens are read as they are; the last one of a name counts.\<close>

lemma extract_text:
  assumes "list_all plain_cookie cs" and "\<forall>c \<in> set cs. list_all LegalChars (fst c)"
  shows "extract_session_cookie (cookie_text cs) = Inr (map_of (rev cs) ''session'')"
proof (cases cs)
  case Nil
  then show ?thesis by (simp add: extract_session_cookie_def cookie_text_def)
next
  case (Cons c ds)
  then have p: "parse_items False (cookie_text cs) = Some (map (\<lambda>(k, v). KeyValue k v v) cs)"
    using parse_cookie_text [OF assms(1), of "[]" False] by simp
  have ne: "cookie_text cs \<noteq> []" using Cons by (cases ds) (auto simp: cookie_text_def split: prod.split)
  have "\<forall>c \<in> set cs. cookie_name (fst c) \<and> list_all LegalChars (fst c)"
    using assms by (auto simp: list_all_iff plain_cookie_def)
  from apply_cookies [OF this, of None "[]"] obtain jar where "apply_items None (map (\<lambda>(k, v). KeyValue k v v) cs) [] = Inr jar"
    and "\<forall>n. map_option morsel_value (map_of jar n) = 
      (case map_of (rev cs) n of Some v \<Rightarrow> Some v | None \<Rightarrow> map_option morsel_value (map_of ([] :: cookie_jar) n))" by blast
  then show ?thesis using p ne by (simp add: extract_session_cookie_def cookie_load_def split: option.split)
qed

lemma single_header:
  fixes t :: str
  assumes "filter (\<lambda>(n, v). n = ''cookie'') headers = [(''cookie'', t)]"
  shows "map_of headers ''cookie'' = Some t" and "map_of (rev headers) ''cookie'' = Some t"
proof -
  have m: "map_of h n = map_option snd (List.find (\<lambda>(k, v). k = n) h)" for h :: "(str \<times> str) list" and n
    by (induction h) auto
  have f: "List.find q h = (case filter q h of [] \<Rightarrow> None | x # _ \<Rightarrow> Some x)" for q and h :: "(str \<times> str) list"
    by (induction h) auto
  show "map_of headers ''cookie'' = Some t" using assms by (simp add: m f)
  have "filter (\<lambda>(n, v). n = ''cookie'') (rev headers) = [(''cookie'', t)]" using assms by (simp add: rev_filter [symmetric])
  then show "map_of (rev headers) ''cookie'' = Some t" by (simp add: m f)
qed

text \<open>Paths that the middleware guards.\<close>

definition guarded_path :: "str \<Rightarrow> bool" where
  "guarded_path path \<longleftrightarrow> py_startswith path ''/api/'' \<and> \<not> list_ex (py_startswith path) EXEMPT_API_PREFIXES"

lemma ws_session_extract:
  assumes "filter (\<lambda>(n, v). n = ''cookie'') headers = [(''cookie'', t)]" and "cfg_password_hash cfg \<noteq> None"
  shows "ws_session loads cfg headers = res_bind (extract_session_cookie t) (\<lambda>tok.
    Inr (case tok of None \<Rightarrow> False | Some x \<Rightarrow> validate_token loads x))"
  using assms(2) single_header [OF assms(1)]
  by (cases "cookie_load t") (auto simp: ws_session_def extract_session_cookie_def Let_def split: option.splits)

lemma middleware_extract:
  assumes "filter (\<lambda>(n, v). n = ''cookie'') headers = [(''cookie'', t)]" and "guarded_path path"
    and "is_auth_bypassed mac cfg (look (rev headers)) = Inr False"
  shows "AuthMiddleware_call mac loads cfg ''http'' path headers =
    res_bind (map_sum GateCookie id (extract_session_cookie t)) (\<lambda>tok.
      Inr (case tok of None \<Rightarrow> send_401 | Some x \<Rightarrow> if validate_token loads x then PassOn else send_401))"
  using assms single_header [OF assms(1)] by (simp add: AuthMiddleware_call_def guarded_path_def)

text \<open>The middleware on raw headers is the gate of \<open>Proxy_Identity\<close> on the cookie that was read, unless
  the reading raises.\<close>

lemma middleware_gate:
  assumes "extract_session_cookie (case map_of (rev headers) ''cookie'' of None \<Rightarrow> [] | Some v \<Rightarrow> v) = Inr tok"
    and "cfg_password_hash cfg \<noteq> None"
  shows "AuthMiddleware_call mac loads cfg scope_type path headers =
    map_sum GateSignature (\<lambda>ok. if ok then PassOn else send_401) (auth_gate mac loads cfg scope_type path (look (rev headers)) tok)"
  using assms
  by (cases "is_auth_bypassed mac cfg (look (rev headers))")
    (auto simp: AuthMiddleware_call_def auth_gate_def Let_def split: option.splits)

subsection \<open>What a session value comes from\<close>

text \<open>Every match splits the text, so the value of a cookie stands in the header after its name and \<open>=\<close>.\<close>

named_theorems splits \<open>a match and what it leaves make up the text\<close>

lemma match_star_splits [splits]: "(m, r) \<in> set (match_star p s) \<Longrightarrow> s = m @ r \<and> list_all p m"
  by (induction s arbitrary: m) (auto split: if_splits)

lemma match_lazy_splits [splits]: "(m, r) \<in> set (match_lazy p s) \<Longrightarrow> s = m @ r"
  by (induction s arbitrary: m) (auto split: if_splits)

lemma match_char_splits [splits]: "(m, r) \<in> set (match_char p s) \<Longrightarrow> \<exists>c. p c \<and> m = [c] \<and> s = m @ r"
  by (auto simp: match_char_def split: list.splits if_splits)

lemma match_times_splits [splits]: "(m, r) \<in> set (match_times lo hi p s) \<Longrightarrow> s = m @ r"
  by (auto simp: match_times_def dest: match_star_splits)

lemma match_seq_splits:
  assumes "(m, r) \<in> set (match_seq f g s)"
    and "\<And>m r s. (m, r) \<in> set (f s) \<Longrightarrow> s = m @ r" and "\<And>m r s. (m, r) \<in> set (g s) \<Longrightarrow> s = m @ r"
  shows "s = m @ r"
proof -
  from assms(1) obtain a t b where "(a, t) \<in> set (f s)" "(b, r) \<in> set (g t)" "m = a @ b" by (auto simp: match_seq_def)
  then show ?thesis using assms(2) [of a t s] assms(3) [of b r t] by simp
qed

lemma match_char_text: "(m, r) \<in> set (match_char p s) \<Longrightarrow> s = m @ r"
  using match_char_splits by blast

lemma quoted_rest_splits [splits]: "(m, r) \<in> set (quoted_rest s) \<Longrightarrow> s = m @ r"
  by (induction s arbitrary: m rule: quoted_rest.induct) (auto split: if_splits list.splits)

lemma expires_date_splits [splits]: "(m, r) \<in> set (expires_date s) \<Longrightarrow> s = m @ r"
  unfolding expires_date_def by (rule match_seq_splits, assumption | erule match_times_splits match_char_text)+

lemma cookie_value_splits [splits]: "(v, r) \<in> set (cookie_value s) \<Longrightarrow> s = v @ r"
  by (auto simp: cookie_value_def dest: splits match_seq_splits [OF _ match_char_text quoted_rest_splits])

lemma value_group_splits:
  assumes "(Some v, r) \<in> set (value_group s)"
  shows "\<exists>w w'. s = w @ CHR ''='' # w' @ v @ r \<and> list_all re_space w \<and> list_all re_space w'"
  using assms by (fastforce simp: value_group_def dest: splits)

lemma cookie_end_splits [splits]: "(m, r) \<in> set (cookie_end s) \<Longrightarrow> s = m @ r"
  by (auto simp: cookie_end_def split: if_splits
      dest: match_char_text match_seq_splits [OF _ match_char_text match_star_splits [THEN conjunct1]])

text \<open>\<open>holds_cookie h k raw\<close>: the text \<open>h\<close> contains \<open>k=raw\<close>, with blanks around the sign at most.\<close>

definition holds_cookie :: "str \<Rightarrow> str \<Rightarrow> str \<Rightarrow> bool" where
  "holds_cookie h k raw \<longleftrightarrow> (\<exists>a w w' b. h = a @ k @ w @ CHR ''='' # w' @ raw @ b \<and> list_all re_space w \<and> list_all re_space w')"

lemma holds_cookie_append: "holds_cookie h k raw \<Longrightarrow> holds_cookie (a @ h) k raw"
  unfolding holds_cookie_def by (metis append_assoc)

lemma CookiePattern_splits:
  assumes "(k, v, r) \<in> set (CookiePattern s)"
  shows "\<exists>a. s = a @ r" and "v = Some x \<Longrightarrow> holds_cookie s k x"
proof -
  obtain w r1 r2 where 1: "(w, r1) \<in> set (match_star re_space s)"
    "(k, r2) \<in> set (match_seq (match_char LegalKeyChars) (match_lazy LegalKeyChars) r1)" "(v, r) \<in> set (after_key r2)"
    using assms by (auto simp: CookiePattern_def)
  obtain r3 w2 r4 e where 2: "(v, r3) \<in> set (value_group r2)" "(w2, r4) \<in> set (match_star re_space r3)" "(e, r) \<in> set (cookie_end r4)"
    using 1(3) by (auto simp: after_key_def)
  have s: "s = w @ k @ r2" using match_star_splits [OF 1(1)] match_seq_splits [OF 1(2) match_char_text match_lazy_splits] by simp
  have r3: "r3 = w2 @ e @ r" using match_star_splits [OF 2(2)] cookie_end_splits [OF 2(3)] by simp
  have some: "\<exists>u u'. r2 = u @ CHR ''='' # u' @ x @ r3 \<and> list_all re_space u \<and> list_all re_space u'" if "v = Some x" for x
    using value_group_splits 2(1) that by blast
  have none: "r2 = r3" if "v = None" using 2(1) that by (auto simp: value_group_def)
  show "v = Some x \<Longrightarrow> holds_cookie s k x" unfolding holds_cookie_def using some [of x] s r3 by blast
  have "\<exists>a. r2 = a @ r3" using some none by (cases v) (auto intro: exI [of _ "[]"])
  then obtain a where "r2 = a @ r3" by blast
  with s r3 have "s = (w @ k @ a @ w2 @ e) @ r" by simp
  then show "\<exists>a. s = a @ r" by blast
qed

lemma parse_items_step:
  assumes "parse_items seen s = Some items" and "s \<noteq> []" and "CookiePattern s = (key, v, r) # ms"
  obtains b its where "parse_items b r = Some its"
    "items = its \<or> (\<exists>a x. items = Attribute a x # its) \<or> (\<exists>t. v = Some t \<and> items = KeyValue key (cookie_unquote t) t # its)"
  using assms unfolding parse_items.simps [of seen s] by (auto split: if_splits option.splits)

lemma parse_items_holds:
  assumes "parse_items seen s = Some items" and "KeyValue k rv cv \<in> set items"
  shows "rv = cookie_unquote cv \<and> holds_cookie s k cv"
  using assms
proof (induction "length s" arbitrary: seen s items rule: less_induct)
  case less
  have ne: "s \<noteq> []" using less.prems by (auto simp: parse_items.simps [of seen "[]"])
  have "CookiePattern s \<noteq> []" using less.prems ne by (subst (asm) parse_items.simps) auto
  then obtain key v r ms where c: "CookiePattern s = (key, v, r) # ms" by (cases "CookiePattern s") auto
  then have m: "(key, v, r) \<in> set (CookiePattern s)" by simp
  obtain b its where i: "parse_items b r = Some its"
    "items = its \<or> (\<exists>a x. items = Attribute a x # its) \<or> (\<exists>t. v = Some t \<and> items = KeyValue key (cookie_unquote t) t # its)"
    by (rule parse_items_step [OF less.prems(1) ne c])
  consider "KeyValue k rv cv \<in> set its" | "v = Some cv" "k = key" "rv = cookie_unquote cv" using i(2) less.prems(2) by auto
  then show ?case
  proof cases
    case 1
    have "length r < length s" by (rule CookiePattern_consumes [OF m])
    from less.hyps [OF this i(1) 1] show ?thesis using CookiePattern_splits(1) [OF m] holds_cookie_append by blast
  next
    case 2
    then show ?thesis using CookiePattern_splits(2) [OF m] by blast
  qed
qed

lemma apply_items_from:
  assumes "apply_items cur items jar = Inr jar'" and "map_of jar' n = Some m"
  shows "(\<exists>cv. KeyValue n (morsel_value m) cv \<in> set items) \<or> (\<exists>m0. map_of jar n = Some m0 \<and> morsel_value m0 = morsel_value m)"
  using assms
proof (induction cur items jar rule: apply_items.induct)
  case (2 cur a v items jar)
  then show ?case
    by (fastforce simp: res_bind_eq_Inr set_attribute_def map_of_map_entry split: option.splits if_splits)
next
  case (3 cur key rval cval items jar)
  then obtain jar1 where j: "set_morsel key rval cval jar = Inr jar1" "apply_items (Some key) items jar1 = Inr jar'"
    by (auto simp: res_bind_eq_Inr)
  then have "map_of jar1 n = map_of jar n \<or> n = key \<and> (\<exists>m1. map_of jar1 n = Some m1 \<and> morsel_value m1 = rval)"
    by (auto simp: set_morsel_def update_conv' split: if_splits)
  then show ?case using "3.IH" [OF j(2) "3.prems"(2)] by auto
qed auto

lemma map_sum_id_Inr: "map_sum f id r = Inr x \<longleftrightarrow> r = Inr x"
  by (cases r) auto

text \<open>A session value that is read stands in the header.\<close>

lemma session_value_from:
  assumes "cookie_load h = Inr jar" and "map_of jar ''session'' = Some m"
  shows "\<exists>raw. holds_cookie h ''session'' raw \<and> morsel_value m = cookie_unquote raw"
proof -
  obtain items where i: "parse_items False h = Some items" using assms by (auto simp: cookie_load_def split: option.splits)
  then obtain cv where "KeyValue ''session'' (morsel_value m) cv \<in> set items"
    using assms apply_items_from [of None items "[]" jar "''session''" m] by (auto simp: cookie_load_def)
  from parse_items_holds [OF i this] show ?thesis by blast
qed

lemma middleware_needs_session:
  assumes "AuthMiddleware_call mac loads cfg ''http'' path headers = Inr PassOn" and "guarded_path path"
    and "is_auth_bypassed mac cfg (look (rev headers)) = Inr False"
  shows "\<exists>h raw. (''cookie'', h) \<in> set headers \<and> holds_cookie h ''session'' raw \<and> validate_token loads (cookie_unquote raw)"
proof -
  have n: "send_401 \<noteq> PassOn" by (simp add: send_401_def Let_def)
  obtain h jar m where "map_of (rev headers) ''cookie'' = Some h" "cookie_load h = Inr jar" "map_of jar ''session'' = Some m"
    "validate_token loads (morsel_value m)"
    using assms n
    by (auto simp: AuthMiddleware_call_def guarded_path_def extract_session_cookie_def res_bind_eq_Inr Let_def map_sum_id_Inr
        split: option.splits if_splits)
  then show ?thesis using session_value_from map_of_SomeD [of "rev headers"] by (metis set_rev)
qed

lemma ws_needs_session:
  assumes "ws_session loads cfg headers = Inr True" and "cfg_password_hash cfg \<noteq> None"
  shows "\<exists>h raw. (''cookie'', h) \<in> set headers \<and> holds_cookie h ''session'' raw \<and> validate_token loads (cookie_unquote raw)"
proof -
  obtain h jar m where "map_of headers ''cookie'' = Some h" "cookie_load h = Inr jar" "map_of jar ''session'' = Some m"
    "validate_token loads (morsel_value m)"
    using assms by (auto simp: ws_session_def res_bind_eq_Inr Let_def split: option.splits if_splits)
  then show ?thesis using session_value_from map_of_SomeD [of headers] by metis
qed

section \<open>Results\<close>

text \<open>C25: who passes the password gate of a server with a password, when no relay vouches for the request. For
  any headers: a guarded path is passed on, and a WebSocket is accepted, only if a \<open>Cookie\<close> header contains
  \<open>session=\<close> and a value that the signer accepts; without a \<open>Cookie\<close> header the answer is 401, and the
  WebSocket is refused. With one \<open>Cookie\<close> header of cookies that have token names and a plain value each, the
  last session cookie decides: both gates let in exactly a value that the signer accepts, and the
  middleware answers 401 otherwise. The cookie that a successful login sets is such a cookie, with an accepted
  value, when the signer's tokens are made of token characters and verify.\<close>

theorem session_cookie_accepted:
  assumes pw: "cfg_password_hash cfg \<noteq> None" and guarded: "guarded_path path"
    and direct: "is_auth_bypassed mac cfg (look (rev headers)) = Inr False"
  shows "(AuthMiddleware_call mac loads cfg ''http'' path headers = Inr PassOn \<or> ws_session loads cfg headers = Inr True \<longrightarrow>
      (\<exists>h raw. (''cookie'', h) \<in> set headers \<and> holds_cookie h ''session'' raw \<and> validate_token loads (cookie_unquote raw))) \<and>
    (''cookie'' \<notin> fst ` set headers \<longrightarrow>
      AuthMiddleware_call mac loads cfg ''http'' path headers = Inr send_401 \<and> ws_session loads cfg headers = Inr False) \<and>
    (list_all plain_cookie cs \<and> (\<forall>c \<in> set cs. list_all LegalChars (fst c)) \<and>
        filter (\<lambda>(n, v). n = ''cookie'') headers = [(''cookie'', cookie_text cs)] \<longrightarrow>
      AuthMiddleware_call mac loads cfg ''http'' path headers =
        Inr (if \<exists>t. map_of (rev cs) ''session'' = Some t \<and> validate_token loads t then PassOn else send_401) \<and>
      ws_session loads cfg headers = Inr (\<exists>t. map_of (rev cs) ''session'' = Some t \<and> validate_token loads t)) \<and>
    (server_login checkpw token cfg password = (200, Some (tok, cpath)) \<and> loads token = Loaded d \<and> list_all LegalChars token \<longrightarrow>
      plain_cookie (''session'', tok) \<and> validate_token loads tok)"
proof (intro conjI impI)
  show "\<exists>h raw. (''cookie'', h) \<in> set headers \<and> holds_cookie h ''session'' raw \<and> validate_token loads (cookie_unquote raw)"
    if "AuthMiddleware_call mac loads cfg ''http'' path headers = Inr PassOn \<or> ws_session loads cfg headers = Inr True"
    using that middleware_needs_session [OF _ guarded direct] ws_needs_session [OF _ pw] by blast
next
  assume no: "''cookie'' \<notin> fst ` set headers"
  then have "map_of headers ''cookie'' = None" "map_of (rev headers) ''cookie'' = None" by (simp_all add: map_of_eq_None_iff)
  then show "AuthMiddleware_call mac loads cfg ''http'' path headers = Inr send_401" "ws_session loads cfg headers = Inr False"
    using pw guarded direct by (simp_all add: AuthMiddleware_call_def ws_session_def guarded_path_def extract_session_cookie_def)
next
  assume c: "list_all plain_cookie cs \<and> (\<forall>c \<in> set cs. list_all LegalChars (fst c)) \<and>
    filter (\<lambda>(n, v). n = ''cookie'') headers = [(''cookie'', cookie_text cs)]"
  then have header: "filter (\<lambda>(n, v). n = ''cookie'') headers = [(''cookie'', cookie_text cs)]"
    and ex: "extract_session_cookie (cookie_text cs) = Inr (map_of (rev cs) ''session'')" using extract_text by auto
  show "ws_session loads cfg headers = Inr (\<exists>t. map_of (rev cs) ''session'' = Some t \<and> validate_token loads t)"
    using ws_session_extract [OF header pw] ex by (simp split: option.split)
  show "AuthMiddleware_call mac loads cfg ''http'' path headers =
      Inr (if \<exists>t. map_of (rev cs) ''session'' = Some t \<and> validate_token loads t then PassOn else send_401)"
    using middleware_extract [OF header guarded direct, of loads] ex by (auto split: option.split)
next
  assume l: "server_login checkpw token cfg password = (200, Some (tok, cpath)) \<and> loads token = Loaded d \<and> list_all LegalChars token"
  then have tok: "tok = token" by (auto simp: server_login_def split: option.splits if_splits sum.splits)
  have "LegalChars c \<Longrightarrow> LegalValueChars c" for c using legal_key_char [of c] by (simp add: key_char_def LegalValueChars_def)
  then show "plain_cookie (''session'', tok)" using l
    by (auto simp: plain_cookie_def cookie_name_def key_char_def LegalKeyChars_def re_word_def tok morsel_reserved_def
        py_lower_def py_lower_char_def list_all_iff)
  show "validate_token loads tok" using l tok by (simp add: validate_token_def)
qed

definition demo_password_server :: server_config where
  "demo_password_server = demo_server\<lparr>cfg_password_hash := Some [1], cfg_mount_code := None\<rparr>"

definition demo_session_loads :: "str \<Rightarrow> loads_result" where
  "demo_session_loads t = (if t = ''to.k-n'' then Loaded (JObj []) else BadSignature)"

theorem session_cookie_accepted_witness:
  "AuthMiddleware_call demo_mac demo_session_loads demo_password_server ''http'' ''/api/files''
     [(''host'', ''h''), (''cookie'', cookie_text [(''theme'', ''dark''), (''session'', ''to.k-n'')])] = Inr PassOn"
proof -
  let ?cs = "[(''theme'', ''dark''), (''session'', ''to.k-n'')]"
  have w: "list_all plain_cookie ?cs \<and> (\<forall>c \<in> set ?cs. list_all LegalChars (fst c)) \<and> list_all LegalChars ''to.k-n''"
    by (simp add: plain_cookie_def cookie_name_def key_char_def LegalKeyChars_def LegalValueChars_def LegalChars_def re_word_def
        morsel_reserved_def py_lower_def py_lower_char_def)
  have nb: "is_auth_bypassed demo_mac demo_password_server get = Inr False" for get
    by (simp add: is_auth_bypassed_def verified_identity_def is_relay_served_def demo_password_server_def)
  show ?thesis
    using session_cookie_accepted [of demo_password_server "''/api/files''" demo_mac "[(''host'', ''h''), (''cookie'', cookie_text ?cs)]"
        demo_session_loads ?cs] w nb
    by (simp add: demo_session_loads_def demo_password_server_def guarded_path_def py_startswith_def EXEMPT_API_PREFIXES_def validate_token_def)
qed

text \<open>A cookie that another program set for the same host, under a name such as \<open>a/b\<close> that the pattern takes
  but \<open>Morsel\<close> does not: the reading raises \<open>CookieError\<close>, which no one catches, on every guarded path,
  whether or not the browser has a session.\<close>

lemma foreign_cookie_raises:
  assumes "list_all plain_cookie cs" and "\<exists>c \<in> set cs. \<not> list_all LegalChars (fst c)"
    and "filter (\<lambda>(n, v). n = ''cookie'') headers = [(''cookie'', cookie_text cs)]" and "guarded_path path"
    and "is_auth_bypassed mac cfg (look (rev headers)) = Inr False"
  shows "\<exists>k. AuthMiddleware_call mac loads cfg ''http'' path headers = Inl (GateCookie (IllegalKey k))"
proof -
  have ne: "cs \<noteq> []" using assms(2) by auto
  then have "cookie_text cs \<noteq> []" by (cases cs; cases "tl cs") (auto simp: cookie_text_def split: prod.split)
  moreover have "parse_items False (cookie_text cs) = Some (map (\<lambda>(k, v). KeyValue k v v) cs)"
    using parse_cookie_text [OF assms(1), of "[]" False] ne by simp
  moreover have "\<forall>c \<in> set cs. cookie_name (fst c)" using assms(1) by (auto simp: list_all_iff plain_cookie_def)
  ultimately have "\<exists>k. extract_session_cookie (cookie_text cs) = Inl (IllegalKey k)"
    using apply_illegal [OF _ assms(2), of None "[]"] by (auto simp: extract_session_cookie_def cookie_load_def)
  then show ?thesis using middleware_extract [OF assms(3,4,5), of loads] by auto
qed

text \<open>A cookie without a value in front hides every other cookie: the request is answered with 401.\<close>

lemma valueless_cookie_hides_session:
  assumes "cookie_name k" and "filter (\<lambda>(n, v). n = ''cookie'') headers = [(''cookie'', k @ CHR '';'' # rest)]"
    and "guarded_path path" and "is_auth_bypassed mac cfg (look (rev headers)) = Inr False"
  shows "AuthMiddleware_call mac loads cfg ''http'' path headers = Inr send_401"
proof -
  have "\<not> re_space CHR '';''" by (simp add: re_space_def)
  then have "after_key (CHR '';'' # rest) = [(None, rest)]"
    by (simp add: after_key_def value_group_def cookie_end_def match_char_def match_seq_def)
  then obtain ms where "CookiePattern (k @ CHR '';'' # rest) = (k, None, rest) # ms"
    using pattern_first [of k _ None rest _ "[]"] assms(1) by (force simp: cookie_name_def)
  then have "parse_items False (k @ CHR '';'' # rest) = None"
    using assms(1) by (subst parse_items.simps) (simp add: cookie_name_def)
  then have "extract_session_cookie (k @ CHR '';'' # rest) = Inr None" by (simp add: extract_session_cookie_def cookie_load_def)
  then show ?thesis using middleware_extract [OF assms(2,3,4)] by simp
qed

end
