(* ===== verification/Mounted_Server.thy ===== *)
theory Mounted_Server
  imports Mount_Transport Cookies
begin

text \<open>
  A server behind the relay, from the browser's request to the change of the server's state: the
  admission and the metadata of the relay's handler (\<open>routers/mount_proxy.py\<close>), the two ends of the tunnel,
  the password gate and the handlers of the server.

  The application of FastAPI finds the route of a request and parses its body: that is the argument
  \<open>route\<close>, which gives the path of the scope and the request of \<open>Server_Routes\<close>, or \<open>None\<close> where no route of
  a handler that changes state matches.
\<close>

section \<open>The request (routers/mount_proxy.py)\<close>

definition tunnel_metadata :: "str \<Rightarrow> str \<Rightarrow> str \<Rightarrow> headers \<Rightarrow> int \<Rightarrow> RequestMetadata" where
  "tunnel_metadata method path query hdrs content_length = \<lparr>rm_method = method, rm_path = CHR ''/'' # path,
     rm_query = query, rm_headers = hdrs, rm_content_length = content_length\<rparr>"

section \<open>The application (server/app/main.py)\<close>

definition gate_passes :: "(str \<Rightarrow> loads_result) \<Rightarrow> app_env \<Rightarrow> str \<Rightarrow> headers \<Rightarrow> bool" where
  "gate_passes loads env path hdrs \<longleftrightarrow> cfg_password_hash (env_cfg env) = None \<or>
     AuthMiddleware_call (env_mac env) loads (env_cfg env) ''http'' path hdrs = Inr PassOn"

definition serve_mounted ::
  "(asgi_request \<Rightarrow> str \<times> app_request option) \<Rightarrow> (str \<Rightarrow> loads_result) \<Rightarrow> signer \<Rightarrow> app_env \<Rightarrow> asgi_request \<Rightarrow> app_state \<Rightarrow> app_state" where
  "serve_mounted route loads sg env q app = (case route q of (path, rq) \<Rightarrow>
     if \<not> gate_passes loads env path (aq_headers q) then app
     else (case rq of None \<Rightarrow> app | Some x \<Rightarrow> handle sg env (look (aq_headers q)) x app))"

section \<open>Lemmas\<close>

text \<open>The headers of a forwarded request are a dict.\<close>

lemma forward_distinct: "distinct (map fst (forward_headers host items))"
proof -
  have "distinct (map fst (fold (\<lambda>(name, v) d. if not_forwarded name then d else AList.update name v d) items d))"
    if "distinct (map fst d)" for d :: headers
    using that by (induction items arbitrary: d) (auto simp: distinct_update)
  then show ?thesis by (simp add: forward_headers_def distinct_update)
qed

lemma identity_headers_distinct:
  assumes "identity_headers mac reg code d (forward_headers host items) = Inr hdrs"
  shows "distinct (map fst hdrs)"
  using assms forward_distinct [of host items]
  by (auto simp: identity_headers_def inject_identity_def Let_def res_bind_eq_Inr distinct_update split: if_splits option.splits sum.splits)

lemma identity_headers_clean:
  assumes "identity_headers mac reg code d (forward_headers host items) = Inr hdrs"
  shows "clean hdrs"
  using assms forward_clean [of host items]
  by (auto simp: identity_headers_def inject_identity_def Let_def res_bind_eq_Inr clean_def split: if_splits option.splits sum.splits)

text \<open>An identity header has one spelling and one value, so that it does not matter whether a reader takes
  the first or the last one of a name.\<close>

lemma look_wfs:
  assumes "clean h" and "wfs_header n" and "py_lower n = n"
  shows "look h n = map_of h n"
  using assms(1)
proof (induction h)
  case (Cons a h)
  obtain k v where a: "a = (k, v)" by (cases a)
  have "py_lower k = n \<longleftrightarrow> k = n" using Cons.prems assms(2,3) by (auto simp: clean_def keys_def a wfs_header_def)
  moreover have "clean h" using Cons.prems by (simp add: clean_def keys_def)
  ultimately show ?case using Cons.IH by (auto simp: look_def a)
qed (simp add: look_def)

lemma look_rev_wfs:
  assumes "clean h" and "distinct (map fst h)" and "wfs_header n" and "py_lower n = n"
  shows "look (rev h) n = look h n"
proof -
  have "clean (rev h)" using assms(1) by (simp add: clean_def keys_def)
  moreover have "map_of (rev h) = map_of h" using assms(2) by (intro map_of_inject_set [THEN iffD2]) (simp_all add: rev_map [symmetric])
  ultimately show ?thesis using assms look_wfs by simp
qed

lemma transported_rev:
  assumes "identity_headers mac reg code d (forward_headers host items) = Inr hdrs"
  shows "transported hdrs (look (rev hdrs))"
  using look_rev_wfs [OF identity_headers_clean [OF assms] identity_headers_distinct [OF assms]]
  by (auto simp: transported_def)

lemma map_sum_InrD: "map_sum f id r = Inr x \<Longrightarrow> r = Inr x"
  by (cases r) auto

text \<open>What a request through the tunnel becomes at the other end.\<close>

lemma tunnel_delivers:
  assumes "open_stream rid relay = Inr (ref, relay1)" and "open_stream rid agent = Inr (ref', agent1)"
    and "to_payload m = Inr p" and "distinct (map fst (rm_headers m))"
  obtains relay2 request where "proxy_send no_failure rid m chunks BodyEnd relay = (RequestSent, relay2)"
    and "tunnel.sent relay2 = tunnel.sent relay @ request"
    and "\<And>asgi r. asgi (agent_request m (concat chunks)) = Some r \<Longrightarrow>
      length (status_payload (ar_status r) (ar_headers r)) \<le> MAX_PAYLOAD_BYTES \<Longrightarrow>
      \<exists>agent2. agent_serve asgi no_failure request ([], agent) = Some ([TaskEnded AgentDone], agent2)"
proof -
  note p = from_to_payload [OF assms(3,4)]
  let ?req = "WsBytes (packed OPEN rid p) # body_frames rid (concat (map split_chunk chunks) @ [[]])"
  have "tunnel.sent relay1 = tunnel.sent relay" using assms(1) by (auto simp: open_stream_def Let_def split: if_splits)
  moreover note proxy_send_ok [OF assms(1,3) p(2), of chunks]
  moreover have "\<exists>agent2. agent_serve asgi no_failure ?req ([], agent) = Some ([TaskEnded AgentDone], agent2)"
    if "asgi (agent_request m (concat chunks)) = Some r" "length (status_payload (ar_status r) (ar_headers r)) \<le> MAX_PAYLOAD_BYTES"
    for asgi r
    unfolding agent_serves [OF assms(2) p(1,2)] agent_respond_ok [where app = asgi, OF that] by simp
  ultimately show ?thesis using that [of _ ?req] by fastforce
qed

section \<open>Results\<close>

text \<open>C6: a request that the relay forwards is served under the relay's decision. The relay's handler sends it
  through the tunnel; the agent hands the application one request, with the method, path, query and
  body of the browser, and the role that the server believes is the one of the decision. If that is
  READ, the shared folder, the tables, the devices and the expiry records stay as they are, whatever
  the request was, and no share link goes but expired ones. A user the relay knows needs no password;
  for anyone else, a request to a guarded path of a server with a password changes nothing without
  the session cookie of a login.\<close>

theorem relayed_request_decided:
  assumes admit: "proxy_admit mac dead locals reg store ident code rq = Some (Inr (ToTunnel tun hdrs))"
    and mac: "\<And>k m. mac k m \<noteq> [] \<and> is_ascii (mac k m)" "env_mac env = mac"
    and cfg: "cfg_mount_code (env_cfg env) = Some code" "cfg_identity_secret (env_cfg env) = Some secret"
    and reg: "get_identity_secret code reg = Some secret"
    and streams: "open_stream rid relay = Inr (ref, relay1)" "open_stream rid agent = Inr (ref', agent1)"
    and fits: "to_payload (tunnel_metadata method path query hdrs n) = Inr p"
  shows "\<exists>d q relay2 request. authorize reg store code ident = Some (Inr d) \<and>
    proxy_send no_failure rid (tunnel_metadata method path query hdrs n) chunks BodyEnd relay = (RequestSent, relay2) \<and>
    tunnel.sent relay2 = tunnel.sent relay @ request \<and>
    (\<forall>asgi r. asgi q = Some r \<and> length (status_payload (ar_status r) (ar_headers r)) \<le> MAX_PAYLOAD_BYTES \<longrightarrow>
      (\<exists>agent2. agent_serve asgi no_failure request ([], agent) = Some ([TaskEnded AgentDone], agent2))) \<and>
    aq_method q = method \<and> aq_url q = ''http://local/'' @ path @ (if query = [] then [] else CHR ''?'' # query) \<and>
    aq_body q = concat chunks \<and>
    trusted_role (env_mac env) (env_cfg env) (look (aq_headers q)) = Inr (decision_role d) \<and>
    (decision_role d = Some READ \<longrightarrow> (let app' = serve_mounted route loads sg env q app in
      app_fs app' = app_fs app \<and> other_tables (app_store app') = other_tables (app_store app) \<and>
      app_hub app' = app_hub app \<and> app_ttl app' = app_ttl app \<and>
      (\<forall>t. links (app_share app') t = links (app_share app) t \<or>
        (\<exists>r. links (app_share app) t = Some r \<and> sg_loads sg (env_now env) t (link_ttl_seconds r) = SignatureExpired)))) \<and>
    (identified d \<longrightarrow> gate_passes loads env scope_path (aq_headers q)) \<and>
    (\<not> identified d \<and> cfg_password_hash (env_cfg env) \<noteq> None \<and> guarded_path (fst (route q)) \<and>
      serve_mounted route loads sg env q app \<noteq> app \<longrightarrow>
      (\<exists>h t. map_of (rev (aq_headers q)) ''cookie'' = Some h \<and> extract_session_cookie h = Inr (Some t) \<and> validate_token loads t))"
proof -
  obtain d where d: "authorize reg store code ident = Some (Inr d)"
    and h: "identity_headers mac reg code d (forward_headers (host_header rq) (header_items rq)) = Inr hdrs"
    using proxy_admit_tunnel [OF admit] by blast
  let ?m = "tunnel_metadata method path query hdrs n"
  define q where "q = agent_request ?m (concat chunks)"
  have q: "aq_headers q = hdrs" "aq_method q = method" "aq_body q = concat chunks"
    "aq_url q = ''http://local/'' @ path @ (if query = [] then [] else CHR ''?'' # query)"
    by (auto simp: q_def agent_request_def tunnel_metadata_def)
  have "distinct (map fst (rm_headers ?m))" using identity_headers_distinct [OF h] by (simp add: tunnel_metadata_def)
  from tunnel_delivers [OF streams fits this, of chunks] obtain relay2 request
    where sent: "proxy_send no_failure rid ?m chunks BodyEnd relay = (RequestSent, relay2)" "tunnel.sent relay2 = tunnel.sent relay @ request"
    and serve: "\<And>asgi r. asgi q = Some r \<Longrightarrow> length (status_payload (ar_status r) (ar_headers r)) \<le> MAX_PAYLOAD_BYTES \<Longrightarrow>
      \<exists>agent2. agent_serve asgi no_failure request ([], agent) = Some ([TaskEnded AgentDone], agent2)"
    unfolding q_def by blast
  have served: "is_relay_served (env_cfg env)" using cfg(1) by (simp add: is_relay_served_def)
  have sec: "cfg_identity_secret (env_cfg env) = get_identity_secret code reg" using cfg(2) reg by simp
  have tr: "transported hdrs (look hdrs)" by (simp add: transported_def)
  note v = verified_relay [OF h mac(1) served sec]
  have role: "trusted_role mac (env_cfg env) (look hdrs) = Inr (decision_role d)"
    using v [OF tr] authorize_shape(1) [OF d] cfg(2) by (auto simp: trusted_role_def)
  have byp: "is_auth_bypassed mac (env_cfg env) (look (rev hdrs)) = Inr (identified d)"
    using v [OF transported_rev [OF h]] cfg(2) by (simp add: is_auth_bypassed_def)
  have read: "let app' = serve_mounted route loads sg env q app in
      app_fs app' = app_fs app \<and> other_tables (app_store app') = other_tables (app_store app) \<and>
      app_hub app' = app_hub app \<and> app_ttl app' = app_ttl app \<and>
      (\<forall>t. links (app_share app') t = links (app_share app) t \<or>
        (\<exists>r. links (app_share app) t = Some r \<and> sg_loads sg (env_now env) t (link_ttl_seconds r) = SignatureExpired))"
    if "decision_role d = Some READ"
    using read_role_changes_nothing [of env "look hdrs" sg _ app] role that mac(2)
    by (auto simp: serve_mounted_def q Let_def split: prod.split option.split)
  have gate: "gate_passes loads env scope_path (aq_headers q)" if "identified d"
    using byp that mac(2) by (simp add: gate_passes_def AuthMiddleware_call_def q)
  have cookie: "\<exists>h t. map_of (rev (aq_headers q)) ''cookie'' = Some h \<and> extract_session_cookie h = Inr (Some t) \<and> validate_token loads t"
    if "\<not> identified d" "cfg_password_hash (env_cfg env) \<noteq> None" "guarded_path (fst (route q))"
      "serve_mounted route loads sg env q app \<noteq> app"
  proof -
    have "gate_passes loads env (fst (route q)) hdrs" using that(4) by (auto simp: serve_mounted_def q split: prod.splits if_splits)
    then have "AuthMiddleware_call mac loads (env_cfg env) ''http'' (fst (route q)) hdrs = Inr PassOn"
      using that(2) mac(2) by (simp add: gate_passes_def)
    then show ?thesis using byp that(1,3)
      by (auto simp: AuthMiddleware_call_def guarded_path_def q res_bind_eq_Inr extract_session_cookie_def [of "[]"] send_401_def Let_def
          split: option.splits if_splits dest!: map_sum_InrD)
  qed
  show ?thesis using d sent serve q role read gate cookie mac(2)
    by (intro exI [of _ d] exI [of _ q] exI [of _ relay2] exI [of _ request]) auto
qed

definition demo_forwarded :: headers where
  "demo_forwarded = [(''accept'', ''text/html''), (''host'', ''relay''), (''x-wfs-user'', ''ann''), (''x-wfs-role'', ''read''),
     (''x-wfs-auth-bypass'', ''1''), (IDENTITY_SIG_HEADER, demo_mac (utf8_encode ''k'') (canonical ''ann'' ''read'' True))]"

lemma demo_forwarded_admitted:
  "proxy_admit demo_mac (\<lambda>_. False) [] demo_signed (Some two_groups) (Some demo_ann) ''a'' demo_forged
     = Some (Inr (ToTunnel 1 demo_forwarded))"
proof -
  have "forward_headers (host_header demo_forged) (header_items demo_forged) = [(''accept'', ''text/html''), (''host'', ''relay'')]"
    by code_simp
  then show ?thesis
    by (simp add: proxy_admit_def demo_authorize demo_connection identity_headers_def inject_identity_def
        get_identity_secret_def Let_def) (simp add: demo_signed_def sign_identity_def demo_forwarded_def IDENTITY_SIG_HEADER_def)
qed

lemma demo_forwarded_fits: "\<exists>p. to_payload (tunnel_metadata ''DELETE'' ''api/files'' [] demo_forwarded 0) = Inr p"
proof -
  have "is_ok (to_payload (tunnel_metadata ''DELETE'' ''api/files'' [] demo_forwarded 0))" by code_simp
  then show ?thesis by (simp add: is_ok_iff)
qed

definition demo_route :: "asgi_request \<Rightarrow> str \<times> app_request option" where
  "demo_route q = (''/api/files'', Some (QDelete [''a.txt'']))"

theorem relayed_request_decided_witness:
  "\<exists>q. app_fs (serve_mounted demo_route demo_session_loads demo_signer demo_env q demo_app) = demo_fs \<and> aq_method q = ''DELETE'' \<and>
     aq_url q = ''http://local/api/files'' \<and> aq_body q = [1, 2] \<and>
     trusted_role demo_mac demo_server (look (aq_headers q)) = Inr (Some READ)"
proof -
  obtain p where p: "to_payload (tunnel_metadata ''DELETE'' ''api/files'' [] demo_forwarded 0) = Inr p" using demo_forwarded_fits by blast
  have c: "cfg_mount_code (env_cfg demo_env) = Some ''a''" "cfg_identity_secret (env_cfg demo_env) = Some ''k''"
    "get_identity_secret ''a'' demo_signed = Some ''k''"
    by (simp_all add: demo_server_def demo_signed_def get_identity_secret_def)
  from relayed_request_decided [OF demo_forwarded_admitted demo_mac_ascii _ c demo_open demo_open p,
      of "[[1], [2]]" demo_route demo_session_loads demo_signer demo_app "[]"]
  obtain q where q: "aq_method q = ''DELETE''" "aq_url q = ''http://local/api/files''" "aq_body q = [1, 2]"
    "trusted_role demo_mac demo_server (look (aq_headers q)) = Inr (Some READ)"
    "app_fs (serve_mounted demo_route demo_session_loads demo_signer demo_env q demo_app) = app_fs demo_app"
    by (auto simp: demo_authorize Let_def)
  have "app_fs demo_app = demo_fs" by (simp add: demo_app_def)
  with q show ?thesis by (intro exI [of _ q]) simp
qed

end
