(* ===== verification/Account_Store.thy ===== *)
theory Account_Store
  imports Accounts
begin

text \<open>
  \<open>AccountStore\<close>, the interface of \<open>accounts/store.py\<close>, as a specification, and that \<open>SqliteAccountStore\<close>
  implements it.

  The specification knows no tables: a book holds users and groups by id, memberships as a set, quotas
  and links of external identities. Every abstract method is a relation between the book before, the
  result and the book after, as its documentation states it: the exceptions a call may raise are a
  set, a call that raises one of them changes nothing, and it succeeds only where there is none to
  raise. Which id a new record gets is left open.

  The locale \<open>account_store\<close> is what a caller may rely on: a representation of the book, an invariant, and
  that every call meets its specification. What callers need of it is proved there, and the
  interpretation on the sqlite tables gives it to them.
\<close>

section \<open>The interface (store.py)\<close>

record account_book =
  bk_users :: "int \<rightharpoonup> user"
  bk_groups :: "int \<rightharpoonup> grp"
  bk_members :: "(int \<times> SubjectType \<times> int) set"
  bk_quota :: "int \<rightharpoonup> int"
  bk_links :: "str \<times> str \<rightharpoonup> int"

definition contract :: "'e set \<Rightarrow> 'b \<Rightarrow> ('e, 'a) result \<Rightarrow> 'b \<Rightarrow> ('a \<Rightarrow> bool) \<Rightarrow> bool" where
  "contract errs b r b' ok = (case r of Inl e \<Rightarrow> e \<in> errs \<and> b' = b | Inr a \<Rightarrow> errs = {} \<and> ok a)"

definition raises_if :: "bool \<Rightarrow> 'e \<Rightarrow> 'e set" where
  "raises_if c e = (if c then {e} else {})"

definition name_taken :: "account_book \<Rightarrow> str \<Rightarrow> bool" where
  "name_taken b n \<longleftrightarrow> (\<exists>u \<in> ran (bk_users b). username u = n)"

subsection \<open>Users\<close>

definition spec_create_user ::
  "str \<Rightarrow> bytes \<Rightarrow> str option \<Rightarrow> account_book \<Rightarrow> (account_exn, user) result \<Rightarrow> account_book \<Rightarrow> bool" where
  "spec_create_user name ph em b r b' = contract
     (raises_if (py_strip name = [] \<or> ph = []) AccountValueError \<union> raises_if (name_taken b (py_strip name)) (UsernameTakenError (py_strip name)))
     b r b' (\<lambda>u. username u = py_strip name \<and> password_hash u = ph \<and> email u = em \<and> is_active u \<and>
       bk_users b (uid u) = None \<and> b' = b\<lparr>bk_users := (bk_users b)(uid u \<mapsto> u)\<rparr>)"

definition spec_get_user_by_username :: "str \<Rightarrow> account_book \<Rightarrow> (account_exn, user) result \<Rightarrow> account_book \<Rightarrow> bool" where
  "spec_get_user_by_username name b r b' = contract (raises_if (\<not> name_taken b name) (UserNotFoundError (ByName name))) b r b'
     (\<lambda>u. bk_users b (uid u) = Some u \<and> username u = name \<and> b' = b)"

definition spec_get_user_by_id :: "int \<Rightarrow> account_book \<Rightarrow> (account_exn, user) result \<Rightarrow> account_book \<Rightarrow> bool" where
  "spec_get_user_by_id i b r b' = contract (raises_if (i \<notin> dom (bk_users b)) (UserNotFoundError (ById i))) b r b'
     (\<lambda>u. bk_users b i = Some u \<and> b' = b)"

definition spec_get_users_by_ids :: "int list \<Rightarrow> account_book \<Rightarrow> (account_exn, (int \<times> user) list) result \<Rightarrow> account_book \<Rightarrow> bool" where
  "spec_get_users_by_ids ids b r b' = contract {} b r b'
     (\<lambda>us. map_of us = bk_users b |` set ids \<and> distinct (map fst us) \<and> b' = b)"

definition spec_set_user_active :: "int \<Rightarrow> bool \<Rightarrow> account_book \<Rightarrow> (account_exn, unit) result \<Rightarrow> account_book \<Rightarrow> bool" where
  "spec_set_user_active i active b r b' = contract (raises_if (i \<notin> dom (bk_users b)) (UserNotFoundError (ById i))) b r b'
     (\<lambda>_. b' = b\<lparr>bk_users := (bk_users b)(i \<mapsto> (the (bk_users b i))\<lparr>is_active := active\<rparr>)\<rparr>)"

definition spec_list_users :: "account_book \<Rightarrow> (account_exn, user list) result \<Rightarrow> account_book \<Rightarrow> bool" where
  "spec_list_users b r b' = contract {} b r b' (\<lambda>us. set us = ran (bk_users b) \<and> sorted_wrt (<) (map uid us) \<and> b' = b)"

subsection \<open>External identities\<close>

definition spec_get_user_by_external_id ::
  "str \<Rightarrow> str \<Rightarrow> account_book \<Rightarrow> (account_exn, user) result \<Rightarrow> account_book \<Rightarrow> bool" where
  "spec_get_user_by_external_id prov sub b r b' = contract
     (raises_if ((prov, sub) \<notin> dom (bk_links b)) (UserNotFoundError (ByExternal prov sub))) b r b'
     (\<lambda>u. bk_users b (the (bk_links b (prov, sub))) = Some u \<and> b' = b)"

text \<open>A subject that is linked already raises the exception of a taken name as well, which the documentation
  of the method does not say. \<open>hashed\<close> is the stored hash of the random password.\<close>

definition spec_create_external_user ::
  "(account_exn, bytes) result \<Rightarrow> str \<Rightarrow> str \<Rightarrow> str \<Rightarrow> str option \<Rightarrow> account_book \<Rightarrow> (account_exn, user) result \<Rightarrow> account_book \<Rightarrow> bool" where
  "spec_create_external_user hashed prov sub name em b r b' = contract
     (raises_if (py_strip name = [] \<or> prov = [] \<or> sub = []) AccountValueError \<union> (case hashed of Inl e \<Rightarrow> {e} | Inr _ \<Rightarrow> {}) \<union>
      raises_if (name_taken b (py_strip name) \<or> (prov, sub) \<in> dom (bk_links b)) (UsernameTakenError (py_strip name)))
     b r b' (\<lambda>u. username u = py_strip name \<and> hashed = Inr (password_hash u) \<and> email u = em \<and> is_active u \<and>
       bk_users b (uid u) = None \<and>
       b' = b\<lparr>bk_users := (bk_users b)(uid u \<mapsto> u), bk_links := (bk_links b)((prov, sub) \<mapsto> uid u)\<rparr>)"

subsection \<open>Groups\<close>

definition group_taken :: "account_book \<Rightarrow> str \<Rightarrow> bool" where
  "group_taken b n \<longleftrightarrow> (\<exists>g \<in> ran (bk_groups b). gname g = n)"

definition spec_create_group :: "str \<Rightarrow> account_book \<Rightarrow> (account_exn, grp) result \<Rightarrow> account_book \<Rightarrow> bool" where
  "spec_create_group name b r b' = contract
     (raises_if (py_strip name = []) AccountValueError \<union> raises_if (group_taken b (py_strip name)) (GroupNameTakenError (py_strip name)))
     b r b' (\<lambda>g. gname g = py_strip name \<and> bk_groups b (gid g) = None \<and> b' = b\<lparr>bk_groups := (bk_groups b)(gid g \<mapsto> g)\<rparr>)"

definition spec_get_group_by_id :: "int \<Rightarrow> account_book \<Rightarrow> (account_exn, grp) result \<Rightarrow> account_book \<Rightarrow> bool" where
  "spec_get_group_by_id i b r b' = contract (raises_if (i \<notin> dom (bk_groups b)) (GroupNotFoundError (ById i))) b r b'
     (\<lambda>g. bk_groups b i = Some g \<and> b' = b)"

definition spec_get_group_by_name :: "str \<Rightarrow> account_book \<Rightarrow> (account_exn, grp) result \<Rightarrow> account_book \<Rightarrow> bool" where
  "spec_get_group_by_name name b r b' = contract (raises_if (\<not> group_taken b name) (GroupNotFoundError (ByName name))) b r b'
     (\<lambda>g. bk_groups b (gid g) = Some g \<and> gname g = name \<and> b' = b)"

definition spec_list_groups :: "account_book \<Rightarrow> (account_exn, grp list) result \<Rightarrow> account_book \<Rightarrow> bool" where
  "spec_list_groups b r b' = contract {} b r b' (\<lambda>gs. set gs = ran (bk_groups b) \<and> sorted_wrt (<) (map gid gs) \<and> b' = b)"

definition spec_delete_group :: "int \<Rightarrow> account_book \<Rightarrow> (account_exn, unit) result \<Rightarrow> account_book \<Rightarrow> bool" where
  "spec_delete_group i b r b' = contract (raises_if (i \<notin> dom (bk_groups b)) (GroupNotFoundError (ById i))) b r b'
     (\<lambda>_. b' = b\<lparr>bk_groups := (bk_groups b)(i := None),
       bk_members := {(g, ty, m) \<in> bk_members b. g \<noteq> i \<and> (ty, m) \<noteq> (GROUP, i)}\<rparr>)"

subsection \<open>Memberships\<close>

definition contains :: "account_book \<Rightarrow> (int \<times> int) set" where
  "contains b = {(g, c). (g, GROUP, c) \<in> bk_members b}"

definition spec_add_member ::
  "int \<Rightarrow> SubjectType \<Rightarrow> int \<Rightarrow> account_book \<Rightarrow> (account_exn, unit) result \<Rightarrow> account_book \<Rightarrow> bool" where
  "spec_add_member g ty m b r b' = contract
     (raises_if (g \<notin> dom (bk_groups b)) (GroupNotFoundError (ById g)) \<union>
      raises_if (ty = GROUP \<and> m \<notin> dom (bk_groups b)) (GroupNotFoundError (ById m)) \<union>
      raises_if (ty = USER \<and> m \<notin> dom (bk_users b)) (UserNotFoundError (ById m)) \<union>
      raises_if ((g, ty, m) \<in> bk_members b) (DuplicateMembershipError g ty m) \<union>
      raises_if (ty = GROUP \<and> (m, g) \<in> (contains b)\<^sup>*) (GroupCycleError g m))
     b r b' (\<lambda>_. b' = b\<lparr>bk_members := insert (g, ty, m) (bk_members b)\<rparr>)"

definition spec_remove_member ::
  "int \<Rightarrow> SubjectType \<Rightarrow> int \<Rightarrow> account_book \<Rightarrow> (account_exn, unit) result \<Rightarrow> account_book \<Rightarrow> bool" where
  "spec_remove_member g ty m b r b' = contract (raises_if ((g, ty, m) \<notin> bk_members b) (MembershipNotFoundError g ty m)) b r b'
     (\<lambda>_. b' = b\<lparr>bk_members := bk_members b - {(g, ty, m)}\<rparr>)"

definition spec_list_group_members :: "int \<Rightarrow> account_book \<Rightarrow> (account_exn, membership list) result \<Rightarrow> account_book \<Rightarrow> bool" where
  "spec_list_group_members i b r b' = contract (raises_if (i \<notin> dom (bk_groups b)) (GroupNotFoundError (ById i))) b r b'
     (\<lambda>ms. distinct ms \<and> (\<lambda>r. (group_id r, member_type r, member_id r)) ` set ms = {x \<in> bk_members b. fst x = i} \<and> b' = b)"

definition spec_list_parent_group_ids ::
  "SubjectType \<Rightarrow> int \<Rightarrow> account_book \<Rightarrow> (account_exn, int list) result \<Rightarrow> account_book \<Rightarrow> bool" where
  "spec_list_parent_group_ids ty m b r b' = contract {} b r b'
     (\<lambda>gs. distinct gs \<and> set gs = {g. (g, ty, m) \<in> bk_members b} \<and> b' = b)"

definition spec_resolve_user_group_ids :: "int \<Rightarrow> account_book \<Rightarrow> (account_exn, int set) result \<Rightarrow> account_book \<Rightarrow> bool" where
  "spec_resolve_user_group_ids i b r b' = contract (raises_if (i \<notin> dom (bk_users b)) (UserNotFoundError (ById i))) b r b'
     (\<lambda>gs. gs = {g. \<exists>p. (p, USER, i) \<in> bk_members b \<and> (g, p) \<in> (contains b)\<^sup>*} \<and> b' = b)"

subsection \<open>Quotas\<close>

definition spec_set_user_quota :: "int \<Rightarrow> int \<Rightarrow> account_book \<Rightarrow> (account_exn, unit) result \<Rightarrow> account_book \<Rightarrow> bool" where
  "spec_set_user_quota i q b r b' = contract
     (raises_if (q < 0) AccountValueError \<union> raises_if (i \<notin> dom (bk_users b)) (UserNotFoundError (ById i))) b r b'
     (\<lambda>_. b' = b\<lparr>bk_quota := (bk_quota b)(i \<mapsto> q)\<rparr>)"

definition spec_get_user_quota :: "int \<Rightarrow> account_book \<Rightarrow> (account_exn, int) result \<Rightarrow> account_book \<Rightarrow> bool" where
  "spec_get_user_quota i b r b' = contract (raises_if (i \<notin> dom (bk_quota b)) (QuotaNotSetError i)) b r b'
     (\<lambda>q. bk_quota b i = Some q \<and> b' = b)"

section \<open>Calls\<close>

datatype store_call =
    CallCreateUser str bytes "str option" timestamp
  | CallGetUserByUsername str
  | CallGetUserById int
  | CallGetUsersByIds "int list"
  | CallSetUserActive int bool
  | CallListUsers
  | CallGetUserByExternalId str str
  | CallCreateExternalUser "bytes \<Rightarrow> bytes \<Rightarrow> bytes" bytes str str str str "str option" timestamp
  | CallCreateGroup str timestamp
  | CallGetGroupById int
  | CallGetGroupByName str
  | CallListGroups
  | CallDeleteGroup int
  | CallAddMember int SubjectType int
  | CallRemoveMember int SubjectType int
  | CallListGroupMembers int
  | CallListParentGroupIds SubjectType int
  | CallResolveUserGroupIds int
  | CallSetUserQuota int int
  | CallGetUserQuota int

datatype store_value =
    VUnit | VUser user | VUserDict "(int \<times> user) list" | VUsers "user list" | VGroup grp | VGroups "grp list"
  | VMembers "membership list" | VIds "int list" | VIdSet "int set" | VBytes int

text \<open>The result of a specification with its value.\<close>

definition wraps :: "('a \<Rightarrow> store_value) \<Rightarrow> ((account_exn, 'a) result \<Rightarrow> bool) \<Rightarrow> (account_exn, store_value) result \<Rightarrow> bool" where
  "wraps v sp r \<longleftrightarrow> (\<exists>r'. sp r' \<and> r = map_sum id v r')"

fun store_spec :: "store_call \<Rightarrow> account_book \<Rightarrow> (account_exn, store_value) result \<Rightarrow> account_book \<Rightarrow> bool" where
  "store_spec (CallCreateUser n ph em now) b r b' = wraps VUser (\<lambda>x. spec_create_user n ph em b x b') r"
| "store_spec (CallGetUserByUsername n) b r b' = wraps VUser (\<lambda>x. spec_get_user_by_username n b x b') r"
| "store_spec (CallGetUserById i) b r b' = wraps VUser (\<lambda>x. spec_get_user_by_id i b x b') r"
| "store_spec (CallGetUsersByIds is) b r b' = wraps VUserDict (\<lambda>x. spec_get_users_by_ids is b x b') r"
| "store_spec (CallSetUserActive i a) b r b' = wraps (\<lambda>_. VUnit) (\<lambda>x. spec_set_user_active i a b x b') r"
| "store_spec CallListUsers b r b' = wraps VUsers (\<lambda>x. spec_list_users b x b') r"
| "store_spec (CallGetUserByExternalId p sub) b r b' = wraps VUser (\<lambda>x. spec_get_user_by_external_id p sub b x b') r"
| "store_spec (CallCreateExternalUser h salt tok p sub n em now) b r b' =
     wraps VUser (\<lambda>x. spec_create_external_user (hash_password h salt tok) p sub n em b x b') r"
| "store_spec (CallCreateGroup n now) b r b' = wraps VGroup (\<lambda>x. spec_create_group n b x b') r"
| "store_spec (CallGetGroupById i) b r b' = wraps VGroup (\<lambda>x. spec_get_group_by_id i b x b') r"
| "store_spec (CallGetGroupByName n) b r b' = wraps VGroup (\<lambda>x. spec_get_group_by_name n b x b') r"
| "store_spec CallListGroups b r b' = wraps VGroups (\<lambda>x. spec_list_groups b x b') r"
| "store_spec (CallDeleteGroup i) b r b' = wraps (\<lambda>_. VUnit) (\<lambda>x. spec_delete_group i b x b') r"
| "store_spec (CallAddMember g ty m) b r b' = wraps (\<lambda>_. VUnit) (\<lambda>x. spec_add_member g ty m b x b') r"
| "store_spec (CallRemoveMember g ty m) b r b' = wraps (\<lambda>_. VUnit) (\<lambda>x. spec_remove_member g ty m b x b') r"
| "store_spec (CallListGroupMembers i) b r b' = wraps VMembers (\<lambda>x. spec_list_group_members i b x b') r"
| "store_spec (CallListParentGroupIds ty m) b r b' = wraps VIds (\<lambda>x. spec_list_parent_group_ids ty m b x b') r"
| "store_spec (CallResolveUserGroupIds i) b r b' = wraps VIdSet (\<lambda>x. spec_resolve_user_group_ids i b x b') r"
| "store_spec (CallSetUserQuota i q) b r b' = wraps (\<lambda>_. VUnit) (\<lambda>x. spec_set_user_quota i q b x b') r"
| "store_spec (CallGetUserQuota i) b r b' = wraps VBytes (\<lambda>x. spec_get_user_quota i b x b') r"

section \<open>The sqlite store behind the interface\<close>

definition book_of :: "accounts_db \<Rightarrow> account_book" where
  "book_of db = \<lparr>bk_users = (\<lambda>i. fetchone (\<lambda>u. uid u = i) (users db)), bk_groups = (\<lambda>i. fetchone (\<lambda>g. gid g = i) (groups db)),
     bk_members = (\<lambda>r. (group_id r, member_type r, member_id r)) ` set (memberships db),
     bk_quota = (\<lambda>i. map_option quota_bytes (fetchone (\<lambda>q. quota_user_id q = i) (user_quota db))),
     bk_links = (\<lambda>k. map_option ext_user_id (fetchone (\<lambda>e. (provider e, subject e) = k) (external_identities db)))\<rparr>"

definition reads :: "('a \<Rightarrow> store_value) \<Rightarrow> (account_exn, 'a) result \<Rightarrow> accounts_db \<Rightarrow> (account_exn, store_value) result \<times> accounts_db" where
  "reads v r db = (map_sum id v r, db)"

definition writes :: "(account_exn, accounts_db) result \<Rightarrow> accounts_db \<Rightarrow> (account_exn, store_value) result \<times> accounts_db" where
  "writes r db = (case r of Inl e \<Rightarrow> (Inl e, db) | Inr db' \<Rightarrow> (Inr VUnit, db'))"

definition makes :: "('a \<Rightarrow> store_value) \<Rightarrow> (account_exn, 'a \<times> accounts_db) result \<Rightarrow> accounts_db \<Rightarrow> (account_exn, store_value) result \<times> accounts_db" where
  "makes v r db = (case r of Inl e \<Rightarrow> (Inl e, db) | Inr (a, db') \<Rightarrow> (Inr (v a), db'))"

fun sqlite_run :: "store_call \<Rightarrow> accounts_db \<Rightarrow> (account_exn, store_value) result \<times> accounts_db" where
  "sqlite_run (CallCreateUser n ph em now) db = makes VUser (create_user n ph em now db) db"
| "sqlite_run (CallGetUserByUsername n) db = reads VUser (get_user_by_username n db) db"
| "sqlite_run (CallGetUserById i) db = reads VUser (get_user_by_id i db) db"
| "sqlite_run (CallGetUsersByIds is) db = reads VUserDict (Inr (get_users_by_ids is db)) db"
| "sqlite_run (CallSetUserActive i a) db = writes (set_user_active i a db) db"
| "sqlite_run CallListUsers db = reads VUsers (Inr (list_users db)) db"
| "sqlite_run (CallGetUserByExternalId p sub) db = reads VUser (get_user_by_external_id p sub db) db"
| "sqlite_run (CallCreateExternalUser h salt tok p sub n em now) db =
     makes VUser (create_external_user h salt tok p sub n em now db) db"
| "sqlite_run (CallCreateGroup n now) db = makes VGroup (create_group n now db) db"
| "sqlite_run (CallGetGroupById i) db = reads VGroup (get_group_by_id i db) db"
| "sqlite_run (CallGetGroupByName n) db = reads VGroup (get_group_by_name n db) db"
| "sqlite_run CallListGroups db = reads VGroups (Inr (list_groups db)) db"
| "sqlite_run (CallDeleteGroup i) db = writes (delete_group i db) db"
| "sqlite_run (CallAddMember g ty m) db = writes (add_member g ty m db) db"
| "sqlite_run (CallRemoveMember g ty m) db = writes (remove_member g ty m db) db"
| "sqlite_run (CallListGroupMembers i) db = reads VMembers (list_group_members i db) db"
| "sqlite_run (CallListParentGroupIds ty m) db = reads VIds (Inr (list_parent_group_ids ty m db)) db"
| "sqlite_run (CallResolveUserGroupIds i) db = reads VIdSet (the (resolve_user_group_ids i db)) db"
| "sqlite_run (CallSetUserQuota i q) db = writes (set_user_quota i q db) db"
| "sqlite_run (CallGetUserQuota i) db = reads VBytes (get_user_quota i db) db"

section \<open>Lemmas\<close>

lemma contract_Inl [simp]: "contract errs b (Inl e) b' ok \<longleftrightarrow> e \<in> errs \<and> b' = b"
  and contract_Inr [simp]: "contract errs b (Inr a) b' ok \<longleftrightarrow> errs = {} \<and> ok a"
  by (simp_all add: contract_def)

lemma raises_if_simps [simp]: "e \<in> raises_if c e' \<longleftrightarrow> c \<and> e = e'" "raises_if c e' = {} \<longleftrightarrow> \<not> c"
  by (auto simp: raises_if_def)

lemma book_of_simps [simp]:
  "bk_users (book_of db) i = fetchone (\<lambda>u. uid u = i) (users db)"
  "bk_groups (book_of db) i = fetchone (\<lambda>g. gid g = i) (groups db)"
  "bk_members (book_of db) = (\<lambda>r. (group_id r, member_type r, member_id r)) ` set (memberships db)"
  "bk_quota (book_of db) i = map_option quota_bytes (fetchone (\<lambda>q. quota_user_id q = i) (user_quota db))"
  "bk_links (book_of db) k = map_option ext_user_id (fetchone (\<lambda>e. (provider e, subject e) = k) (external_identities db))"
  by (simp_all add: book_of_def)

lemma keyed_ran:
  assumes "distinct (map key t)"
  shows "ran (\<lambda>k. fetchone (\<lambda>x. key x = k) t) = set t"
  using fetchone_key_iff [OF assms] by (auto simp: ran_def)

lemma book_ran:
  assumes "accounts_ok db"
  shows "ran (bk_users (book_of db)) = set (users db)" and "ran (bk_groups (book_of db)) = set (groups db)"
  using assms keyed_ran [of uid "users db"] keyed_ran [of gid "groups db"]
  by (simp_all add: book_of_def accounts_ok_def users_ok_def groups_ok_def)

lemma book_dom:
  "i \<in> dom (bk_users (book_of db)) \<longleftrightarrow> i \<in> user_ids db" "i \<in> dom (bk_groups (book_of db)) \<longleftrightarrow> i \<in> group_ids db"
  by (auto simp: dom_def user_ids_def group_ids_def fetchone_None simp del: not_None_eq)

lemma book_taken:
  assumes "accounts_ok db"
  shows "name_taken (book_of db) n \<longleftrightarrow> username_exists n db" and "group_taken (book_of db) n \<longleftrightarrow> group_name_exists n db"
  by (auto simp: name_taken_def group_taken_def book_ran [OF assms] username_exists_def group_name_exists_def fetchone_None)

lemma book_contains: "contains (book_of db) = group_edges (memberships db)"
  by (force simp: contains_def group_edges_def)

lemma member_in_book:
  "(g, ty, m) \<in> bk_members (book_of db) \<longleftrightarrow> \<lparr>group_id = g, member_type = ty, member_id = m\<rparr> \<in> set (memberships db)"
proof
  assume "(g, ty, m) \<in> bk_members (book_of db)"
  then obtain r where r: "r \<in> set (memberships db)" "group_id r = g" "member_type r = ty" "member_id r = m" by auto
  then have "r = \<lparr>group_id = g, member_type = ty, member_id = m\<rparr>" by (intro membership.equality) simp_all
  with r(1) show "\<lparr>group_id = g, member_type = ty, member_id = m\<rparr> \<in> set (memberships db)" by simp
qed force

lemma fetchone_snoc_fresh:
  "key x \<notin> key ` set t \<Longrightarrow> (\<lambda>k. fetchone (\<lambda>r. key r = k) (t @ [x])) = (\<lambda>k. fetchone (\<lambda>r. key r = k) t)(key x \<mapsto> x)"
  by (induction t) (auto simp: fetchone_def fun_eq_iff)

lemma wraps_cases: "wraps v sp (Inr y) \<longleftrightarrow> (\<exists>a. sp (Inr a) \<and> y = v a)" "wraps v sp (Inl e) \<longleftrightarrow> sp (Inl e)"
proof -
  show "wraps v sp (Inr y) \<longleftrightarrow> (\<exists>a. sp (Inr a) \<and> y = v a)"
    unfolding wraps_def by (auto intro: exI [of _ "Inr _"]) (metis map_sum.simps(1) map_sum.simps(2) old.sum.exhaust sum.inject(2) Inr_not_Inl)
  show "wraps v sp (Inl e) \<longleftrightarrow> sp (Inl e)"
    unfolding wraps_def by (auto intro: exI [of _ "Inl _"]) (metis id_apply map_sum.simps(1) map_sum.simps(2) old.sum.exhaust sum.inject(1) Inr_not_Inl)
qed

subsection \<open>Every call meets its specification\<close>

lemma insert_user_book:
  assumes "insert_user n em ph now db = Some (u, db')" and "users_ok db"
  shows "username u = n \<and> password_hash u = ph \<and> email u = em \<and> is_active u \<and> bk_users (book_of db) (uid u) = None \<and>
    book_of db' = (book_of db)\<lparr>bk_users := (bk_users (book_of db))(uid u \<mapsto> u)\<rparr> \<and> \<not> username_exists n db"
proof -
  have u: "u = \<lparr>uid = users_seq db + 1, username = n, email = em, password_hash = ph, user_created_at = now, is_active = True\<rparr>"
    "db' = db\<lparr>users := users db @ [u], users_seq := users_seq db + 1\<rparr>" "\<not> username_exists n db"
    using assms(1) by (auto simp: insert_user_def username_exists_def Let_def split: if_splits)
  have fresh: "uid u \<notin> uid ` set (users db)"
    using assms(2) fresh_id [of "users db" uid "users_seq db" "\<lambda>u. clean_name (username u)"] by (simp add: users_ok_def u(1))
  have "fetchone (\<lambda>x. uid x = uid u) (users db) = None" using fresh by (fastforce simp: fetchone_None image_iff)
  then show ?thesis using u fetchone_snoc_fresh [OF fresh] by (simp add: book_of_def)
qed

lemma create_user_spec:
  assumes "accounts_ok db"
  shows "store_spec (CallCreateUser n ph em now) (book_of db) (fst (sqlite_run (CallCreateUser n ph em now) db))
    (book_of (snd (sqlite_run (CallCreateUser n ph em now) db)))"
proof (cases "create_user n ph em now db")
  case (Inl e)
  then show ?thesis using book_taken(1) [OF assms, of "py_strip n"]
    by (auto simp: makes_def wraps_def spec_create_user_def create_user_def insert_user_def username_exists_def Let_def
        split: if_splits option.splits intro!: exI [of _ "Inl e"])
next
  case (Inr x)
  obtain u db' where x: "x = (u, db')" by (cases x)
  have ins: "insert_user (py_strip n) em ph now db = Some (u, db')" "py_strip n \<noteq> []" "ph \<noteq> []"
    using Inr by (auto simp: x create_user_def Let_def split: if_splits option.splits)
  have "users_ok db" using assms by (simp add: accounts_ok_def)
  note b = insert_user_book [OF ins(1) this]
  show ?thesis using b ins(2,3) book_taken(1) [OF assms, of "py_strip n"]
    by (simp add: Inr x makes_def wraps_def spec_create_user_def exI [of _ "Inr u"])
qed

lemma lookup_spec:
  assumes "accounts_ok db"
  shows "spec_get_user_by_username n (book_of db) (get_user_by_username n db) (book_of db)"
    and "spec_get_user_by_id i (book_of db) (get_user_by_id i db) (book_of db)"
    and "spec_get_group_by_id i (book_of db) (get_group_by_id i db) (book_of db)"
    and "spec_get_group_by_name n (book_of db) (get_group_by_name n db) (book_of db)"
    and "spec_get_user_quota i (book_of db) (get_user_quota i db) (book_of db)"
proof -
  have u: "distinct (map uid (users db))" and g: "distinct (map gid (groups db))"
    using assms by (simp_all add: accounts_ok_def users_ok_def groups_ok_def)
  note t = book_taken [OF assms, of n]
  show "spec_get_user_by_username n (book_of db) (get_user_by_username n db) (book_of db)"
    using t(1) fetchone_unique [OF u]
    by (auto simp: spec_get_user_by_username_def get_user_by_username_def username_exists_def split: option.split dest: fetchone_Some_mem)
  show "spec_get_group_by_name n (book_of db) (get_group_by_name n db) (book_of db)"
    using t(2) fetchone_unique [OF g]
    by (auto simp: spec_get_group_by_name_def get_group_by_name_def group_name_exists_def split: option.split dest: fetchone_Some_mem)
qed (auto simp: spec_get_user_by_id_def get_user_by_id_def spec_get_group_by_id_def get_group_by_id_def
    spec_get_user_quota_def get_user_quota_def dom_def split: option.split)

lemma list_spec:
  assumes "accounts_ok db"
  shows "spec_list_users (book_of db) (Inr (list_users db)) (book_of db)"
    and "spec_list_groups (book_of db) (Inr (list_groups db)) (book_of db)"
proof -
  have strict: "sorted_wrt (<) (map key (sort_key key t))" if "distinct (map key t)" for key :: "'r \<Rightarrow> int" and t
  proof -
    have "distinct (map key (sort_key key t))" using that by (simp add: distinct_map)
    then show ?thesis using sorted_sort_key [of key t] by (simp add: strict_sorted_iff)
  qed
  show "spec_list_users (book_of db) (Inr (list_users db)) (book_of db)"
    "spec_list_groups (book_of db) (Inr (list_groups db)) (book_of db)"
    using assms strict [of uid "users db"] strict [of gid "groups db"]
    by (auto simp: spec_list_users_def list_users_def spec_list_groups_def list_groups_def book_ran accounts_ok_def users_ok_def groups_ok_def)
qed

lemma get_users_by_ids_spec:
  assumes "accounts_ok db"
  shows "spec_get_users_by_ids ids (book_of db) (Inr (get_users_by_ids ids db)) (book_of db)"
proof -
  have d: "distinct (map uid (users db))" using assms by (simp add: accounts_ok_def users_ok_def)
  have e: "get_users_by_ids ids db = map (\<lambda>u. (uid u, u)) (filter (\<lambda>u. uid u \<in> set ids) (users db))"
  proof -
    have "sort (remdups ids) = [] \<longleftrightarrow> ids = []" by (metis set_empty set_remdups set_sort)
    then show ?thesis by (simp add: get_users_by_ids_def Let_def)
  qed
  have m: "map_of (map (\<lambda>u. (uid u, u)) (filter (\<lambda>u. uid u \<in> A) t)) = (\<lambda>i. fetchone (\<lambda>u. uid u = i) t) |` A" for A and t :: "user list"
    by (induction t) (auto simp: fetchone_def restrict_map_def fun_eq_iff)
  have "distinct (map fst (map (\<lambda>u. (uid u, u)) (filter (\<lambda>u. uid u \<in> set ids) (users db))))"
    using d by (simp add: comp_def distinct_map inj_on_def)
  moreover have "bk_users (book_of db) = (\<lambda>i. fetchone (\<lambda>u. uid u = i) (users db))" by (simp add: book_of_def)
  ultimately show ?thesis unfolding spec_get_users_by_ids_def e contract_Inr using m by simp
qed

lemma set_user_active_spec:
  "store_spec (CallSetUserActive i a) (book_of db) (fst (sqlite_run (CallSetUserActive i a) db))
    (book_of (snd (sqlite_run (CallSetUserActive i a) db)))"
proof (cases "i \<in> user_ids db")
  case True
  then obtain u where u: "fetchone (\<lambda>u. uid u = i) (users db) = Some u" using book_dom(1) [of i db] by auto
  have r: "set_user_active i a db = Inr (db\<lparr>users := update_where (\<lambda>u. uid u = i) (\<lambda>u. u\<lparr>is_active := a\<rparr>) (users db)\<rparr>)"
    using fetchone_Some_mem [OF u] by (auto simp: set_user_active_def rowcount_0)
  have "fetchone (\<lambda>u. uid u = k) (update_where (\<lambda>u. uid u = i) (\<lambda>u. u\<lparr>is_active := a\<rparr>) (users db)) =
      ((\<lambda>k. fetchone (\<lambda>u. uid u = k) (users db))(i \<mapsto> u\<lparr>is_active := a\<rparr>)) k" for k
    using u by (cases "fetchone (\<lambda>u. uid u = k) (users db)") (auto simp: fetchone_update_where dest: fetchone_Some_mem)
  then have "(\<lambda>k. fetchone (\<lambda>u. uid u = k) (update_where (\<lambda>u. uid u = i) (\<lambda>u. u\<lparr>is_active := a\<rparr>) (users db))) =
      (\<lambda>k. fetchone (\<lambda>u. uid u = k) (users db))(i \<mapsto> u\<lparr>is_active := a\<rparr>)" by (rule ext)
  then show ?thesis using r u True book_dom(1) [of i db]
    by (simp add: writes_def wraps_def spec_set_user_active_def book_of_def exI [of _ "Inr ()"])
next
  case False
  then have "set_user_active i a db = Inl (UserNotFoundError (ById i))"
    by (auto simp: set_user_active_def rowcount_0 user_ids_def)
  then show ?thesis using False book_dom(1) [of i db]
    by (simp add: writes_def wraps_def spec_set_user_active_def exI [of _ "Inl (UserNotFoundError (ById i))"])
qed

lemma group_spec:
  assumes "accounts_ok db"
  shows "store_spec (CallCreateGroup n now) (book_of db) (fst (sqlite_run (CallCreateGroup n now) db))
    (book_of (snd (sqlite_run (CallCreateGroup n now) db)))"
proof (cases "create_group n now db")
  case (Inl e)
  then show ?thesis using book_taken(2) [OF assms, of "py_strip n"]
    by (auto simp: makes_def wraps_def spec_create_group_def create_group_def Let_def split: if_splits intro!: exI [of _ "Inl e"])
next
  case (Inr x)
  obtain g db' where x: "x = (g, db')" by (cases x)
  have nm: "py_strip n \<noteq> []" "\<not> group_name_exists (py_strip n) db"
    "db' = db\<lparr>groups := groups db @ [g], groups_seq := groups_seq db + 1\<rparr>" "gid g = groups_seq db + 1" "gname g = py_strip n"
    using Inr by (auto simp: x create_group_def Let_def split: if_splits)
  have fresh: "gid g \<notin> gid ` set (groups db)"
    using assms fresh_id [of "groups db" gid "groups_seq db" "\<lambda>g. clean_name (gname g)"] by (simp add: accounts_ok_def groups_ok_def nm(4))
  then have "fetchone (\<lambda>r. gid r = gid g) (groups db) = None" by (fastforce simp: fetchone_None image_iff)
  then show ?thesis using nm(1,2,3,5) fetchone_snoc_fresh [OF fresh] book_taken(2) [OF assms, of "py_strip n"]
    by (simp add: Inr x makes_def wraps_def spec_create_group_def exI [of _ "Inr g"] book_of_def)
qed

lemma external_lookup_spec:
  assumes "accounts_ok db"
  shows "spec_get_user_by_external_id p sub (book_of db) (get_user_by_external_id p sub db) (book_of db)"
proof -
  have d: "distinct (map uid (users db))" "distinct (map (\<lambda>e. (provider e, subject e)) (external_identities db))"
    and in_users: "\<forall>e \<in> set (external_identities db). ext_user_id e \<in> user_ids db"
    using assms by (simp_all add: accounts_ok_def users_ok_def links_ok_def)
  let ?q = "fetchone (\<lambda>(u, e). ext_user_id e = uid u \<and> provider e = p \<and> subject e = sub) (List.product (users db) (external_identities db))"
  show ?thesis
  proof (cases ?q)
    case None
    have "\<not> (provider e = p \<and> subject e = sub)" if e: "e \<in> set (external_identities db)" for e
    proof -
      obtain u where "u \<in> set (users db)" "ext_user_id e = uid u" using in_users e by (auto simp: user_ids_def)
      then show ?thesis using None e by (auto simp: fetchone_None)
    qed
    then have "(p, sub) \<notin> dom (bk_links (book_of db))" by (auto simp: dom_def fetchone_None)
    then show ?thesis using None by (simp add: spec_get_user_by_external_id_def get_user_by_external_id_def dom_def)
  next
    case (Some x)
    obtain u e where x: "x = (u, e)" by (cases x)
    have ue: "u \<in> set (users db)" "e \<in> set (external_identities db)" "ext_user_id e = uid u" "provider e = p" "subject e = sub"
      using fetchone_Some_mem [OF Some] by (auto simp: x)
    have "fetchone (\<lambda>e. (provider e, subject e) = (p, sub)) (external_identities db) = Some e"
      using ue by (subst fetchone_key_iff [OF d(2)]) simp
    then have "bk_links (book_of db) (p, sub) = Some (uid u)" using ue(3) by simp
    then show ?thesis using Some x fetchone_unique [OF d(1) ue(1)]
      by (auto simp: spec_get_user_by_external_id_def get_user_by_external_id_def dom_def)
  qed
qed

lemma create_external_user_spec:
  assumes "accounts_ok db"
  shows "store_spec (CallCreateExternalUser h salt tok p sub n em now) (book_of db)
    (fst (sqlite_run (CallCreateExternalUser h salt tok p sub n em now) db))
    (book_of (snd (sqlite_run (CallCreateExternalUser h salt tok p sub n em now) db)))"
proof -
  let ?n = "py_strip n"
  have ok: "users_ok db" using assms by (simp add: accounts_ok_def)
  note taken = book_taken(1) [OF assms, of ?n]
  have link: "insert_external p sub i now d = None \<longleftrightarrow> (p, sub) \<in> dom (bk_links (book_of d))" for i d
    by (simp add: insert_external_def dom_def)
  have keep: "bk_links (book_of d) = bk_links (book_of db)" if "insert_user ?n em ph now db = Some (u, d)" for u d ph
    using insert_user_book [OF that ok] by simp
  show ?thesis
  proof (cases "create_external_user h salt tok p sub n em now db")
    case (Inl e)
    then have "e \<in> raises_if (?n = [] \<or> p = [] \<or> sub = []) AccountValueError \<union>
        (case hash_password h salt tok of Inl e \<Rightarrow> {e} | Inr _ \<Rightarrow> {}) \<union>
        raises_if (name_taken (book_of db) ?n \<or> (p, sub) \<in> dom (bk_links (book_of db))) (UsernameTakenError ?n)"
      using taken link keep
      by (auto simp: create_external_user_def res_bind_eq_Inl Let_def insert_user_def [of ?n] username_exists_def
          split: if_splits option.splits)
    then show ?thesis using Inl
      by (simp add: makes_def wraps_def spec_create_external_user_def exI [of _ "Inl e"])
  next
    case (Inr x)
    obtain u db' where x: "x = (u, db')" by (cases x)
    from Inr obtain ph where args: "?n \<noteq> []" "p \<noteq> []" "sub \<noteq> []" "hash_password h salt tok = Inr ph"
      and "(case insert_user ?n em ph now db of None \<Rightarrow> Inl (UsernameTakenError ?n)
        | Some (v, d) \<Rightarrow> (case insert_external p sub (uid v) now d of
            None \<Rightarrow> Inl (UsernameTakenError ?n) | Some d' \<Rightarrow> Inr (v, d'))) = Inr (u, db')"
      by (auto simp: x create_external_user_def Let_def res_bind_eq_Inr split: if_splits)
    then obtain v d where "insert_user ?n em ph now db = Some (v, d)"
      "(case insert_external p sub (uid v) now d of None \<Rightarrow> Inl (UsernameTakenError ?n) | Some d' \<Rightarrow> Inr (v, d')) = Inr (u, db')"
      by (cases "insert_user ?n em ph now db") auto
    then have parts: "insert_user ?n em ph now db = Some (u, d)" "insert_external p sub (uid u) now d = Some db'"
      by (auto split: option.split_asm)
    note b = insert_user_book [OF parts(1) ok]
    have fresh: "(p, sub) \<notin> dom (bk_links (book_of db))" using link [of "uid u" d] keep [OF parts(1)] parts(2) by simp
    have none: "fetchone (\<lambda>e. (provider e, subject e) = (p, sub)) (external_identities d) = None"
      using parts(2) by (auto simp: insert_external_def split: if_splits)
    let ?e = "\<lparr>provider = p, subject = sub, ext_user_id = uid u, ext_created_at = now\<rparr>"
    have db': "db' = d\<lparr>external_identities := external_identities d @ [?e]\<rparr>"
      using parts(2) by (auto simp: insert_external_def split: if_splits)
    have "bk_links (book_of db') = (bk_links (book_of d))((p, sub) \<mapsto> uid u)"
      using none by (auto simp: db' fun_eq_iff fetchone_append split: option.split) (auto simp: fetchone_def)
    then have "book_of db' = (book_of d)\<lparr>bk_links := (bk_links (book_of d))((p, sub) \<mapsto> uid u)\<rparr>"
      by (intro account_book.equality) (simp_all add: db' fun_eq_iff)
    then show ?thesis using b fresh args taken
      by (simp add: Inr x makes_def wraps_def spec_create_external_user_def exI [of _ "Inr u"])
  qed
qed

lemma delete_group_spec:
  "store_spec (CallDeleteGroup i) (book_of db) (fst (sqlite_run (CallDeleteGroup i) db)) (book_of (snd (sqlite_run (CallDeleteGroup i) db)))"
proof (cases "i \<in> group_ids db")
  case True
  let ?ms = "delete_where (\<lambda>m. member_type m = GROUP \<and> member_id m = i) (delete_where (\<lambda>m. group_id m = i) (memberships db))"
  let ?gs = "delete_where (\<lambda>r. gid r = i) (groups db)"
  have r: "delete_group i db = Inr (db\<lparr>groups := ?gs, memberships := ?ms\<rparr>)"
    using True by (auto simp: delete_group_def Let_def rowcount_0 group_ids_def)
  have g: "fetchone (\<lambda>g. gid g = k) ?gs = ((\<lambda>k. fetchone (\<lambda>g. gid g = k) (groups db))(i := None)) k" for k
    using fetchone_delete_where_other [of "\<lambda>g. gid g = k" "\<lambda>g. gid g = i" "groups db"] by (cases "k = i") (auto simp: table_simps)
  have m: "(\<lambda>r. (group_id r, member_type r, member_id r)) ` set ?ms =
      {(g, ty, m) \<in> (\<lambda>r. (group_id r, member_type r, member_id r)) ` set (memberships db). g \<noteq> i \<and> (ty, m) \<noteq> (GROUP, i)}"
    by (auto simp: delete_where_def image_iff)
  have "book_of (db\<lparr>groups := ?gs, memberships := ?ms\<rparr>) = (book_of db)\<lparr>bk_groups := (bk_groups (book_of db))(i := None),
      bk_members := {(g, ty, m) \<in> bk_members (book_of db). g \<noteq> i \<and> (ty, m) \<noteq> (GROUP, i)}\<rparr>"
    using g m by (simp add: book_of_def fun_eq_iff)
  then show ?thesis using True r book_dom(2) [of i db]
    by (simp add: writes_def wraps_def spec_delete_group_def exI [of _ "Inr ()"] del: book_of_simps)
next
  case False
  then have "delete_group i db = Inl (GroupNotFoundError (ById i))"
    by (auto simp: delete_group_def rowcount_0 group_ids_def)
  then show ?thesis using False book_dom(2) [of i db]
    by (simp add: writes_def wraps_def spec_delete_group_def exI [of _ "Inl (GroupNotFoundError (ById i))"])
qed

lemma add_member_spec:
  "store_spec (CallAddMember g ty m) (book_of db) (fst (sqlite_run (CallAddMember g ty m) db)) (book_of (snd (sqlite_run (CallAddMember g ty m) db)))"
proof -
  have ex: "membership_exists g ty m db \<longleftrightarrow> (g, ty, m) \<in> bk_members (book_of db)"
    by (force simp: membership_exists_def fetchone_None)
  have desc: "m = g \<or> g \<in> group_descendants m db \<longleftrightarrow> (m, g) \<in> (contains (book_of db))\<^sup>*"
    by (auto simp: group_descendants_trancl rtrancl_eq_or_trancl book_contains)
  note dom = book_dom(1) [of _ db] book_dom(2) [of _ db]
  have g: "get_group_by_id k db = (case bk_groups (book_of db) k of None \<Rightarrow> Inl (GroupNotFoundError (ById k)) | Some r \<Rightarrow> Inr r)" for k
    by (simp add: get_group_by_id_def)
  have u: "get_user_by_id k db = (case bk_users (book_of db) k of None \<Rightarrow> Inl (UserNotFoundError (ById k)) | Some r \<Rightarrow> Inr r)" for k
    by (simp add: get_user_by_id_def)
  show ?thesis
  proof (cases "add_member g ty m db")
    case (Inl e)
    then have "add_member_check g ty m db = Inl e \<or> membership_exists g ty m db \<and> e = DuplicateMembershipError g ty m"
      by (auto simp: add_member_def add_member_insert_def res_bind_eq_Inl split: if_splits)
    then have "e \<in> raises_if (g \<notin> dom (bk_groups (book_of db))) (GroupNotFoundError (ById g)) \<union>
        raises_if (ty = GROUP \<and> m \<notin> dom (bk_groups (book_of db))) (GroupNotFoundError (ById m)) \<union>
        raises_if (ty = USER \<and> m \<notin> dom (bk_users (book_of db))) (UserNotFoundError (ById m)) \<union>
        raises_if ((g, ty, m) \<in> bk_members (book_of db)) (DuplicateMembershipError g ty m) \<union>
        raises_if (ty = GROUP \<and> (m, g) \<in> (contains (book_of db))\<^sup>*) (GroupCycleError g m)"
      using ex desc by (cases ty)
        (auto simp: add_member_check_def g u res_bind_eq_Inl domIff simp del: book_of_simps split: if_splits option.splits)
    then show ?thesis using Inl by (simp add: writes_def wraps_def spec_add_member_def exI [of _ "Inl e"] del: book_of_simps)
  next
    case (Inr db')
    note a = Inr [unfolded add_member_Inr]
    have t: "ty \<noteq> GROUP \<Longrightarrow> ty = USER" by (cases ty) auto
    have "book_of db' = (book_of db)\<lparr>bk_members := insert (g, ty, m) (bk_members (book_of db))\<rparr>"
      using a by (simp add: book_of_def)
    then show ?thesis using Inr a dom t
      by (auto simp: writes_def wraps_def spec_add_member_def member_in_book book_contains exI [of _ "Inr ()"]
          simp del: book_of_simps split: if_splits)
  qed
qed

lemma remove_member_spec:
  "store_spec (CallRemoveMember g ty m) (book_of db) (fst (sqlite_run (CallRemoveMember g ty m) db))
    (book_of (snd (sqlite_run (CallRemoveMember g ty m) db)))"
proof -
  let ?sel = "\<lambda>r. group_id r = g \<and> member_type r = ty \<and> member_id r = m"
  have ex: "rowcount ?sel (memberships db) = 0 \<longleftrightarrow> (g, ty, m) \<notin> bk_members (book_of db)" by (force simp: rowcount_0)
  have "book_of (db\<lparr>memberships := delete_where ?sel (memberships db)\<rparr>) =
      (book_of db)\<lparr>bk_members := bk_members (book_of db) - {(g, ty, m)}\<rparr>"
    by (auto simp: book_of_def delete_where_def)
  then show ?thesis using ex
    by (cases "rowcount ?sel (memberships db) = 0")
      (simp_all add: remove_member_def Let_def writes_def wraps_def spec_remove_member_def
        exI [of _ "Inl (MembershipNotFoundError g ty m)"] exI [of _ "Inr ()"] del: book_of_simps)
qed

lemma member_lists_spec:
  assumes "accounts_ok db"
  shows "spec_list_group_members i (book_of db) (list_group_members i db) (book_of db)"
    and "spec_list_parent_group_ids ty m (book_of db) (Inr (list_parent_group_ids ty m db)) (book_of db)"
proof -
  have d: "distinct (memberships db)" using assms by (simp add: accounts_ok_def memberships_ok_def)
  show "spec_list_group_members i (book_of db) (list_group_members i db) (book_of db)"
    using d lookup_spec(3) [OF assms, of i]
    by (cases "get_group_by_id i db") (auto simp: spec_list_group_members_def spec_get_group_by_id_def list_group_members_def)
  have "inj_on group_id (set (filter (\<lambda>r. member_type r = ty \<and> member_id r = m) (memberships db)))"
    by (auto simp: inj_on_def intro: membership.equality)
  then show "spec_list_parent_group_ids ty m (book_of db) (Inr (list_parent_group_ids ty m db)) (book_of db)"
    using d by (force simp: spec_list_parent_group_ids_def list_parent_group_ids_def distinct_map)
qed

lemma resolve_user_group_ids_spec:
  assumes "accounts_ok db"
  shows "spec_resolve_user_group_ids i (book_of db) (the (resolve_user_group_ids i db)) (book_of db)"
proof (cases "get_user_by_id i db")
  case (Inl e)
  then show ?thesis using lookup_spec(2) [OF assms, of i]
    by (simp add: spec_resolve_user_group_ids_def spec_get_user_by_id_def resolve_user_group_ids_def resolve_user_groups_def)
next
  case (Inr u)
  have "acyclic (group_edges (memberships db))" using assms by (simp add: accounts_ok_def memberships_ok_def)
  then have "resolve_user_group_ids i db = Some (Inr (user_groups i db))"
    using resolve_spec [OF Inr] by (auto simp: acyclic_def split: if_splits)
  moreover have "user_groups i db = {g. \<exists>p. (p, USER, i) \<in> bk_members (book_of db) \<and> (g, p) \<in> (contains (book_of db))\<^sup>*}"
    by (force simp: user_groups_def book_contains)
  ultimately show ?thesis using lookup_spec(2) [OF assms, of i] Inr
    by (simp add: spec_resolve_user_group_ids_def spec_get_user_by_id_def)
qed

lemma set_user_quota_spec:
  "store_spec (CallSetUserQuota i q) (book_of db) (fst (sqlite_run (CallSetUserQuota i q) db))
    (book_of (snd (sqlite_run (CallSetUserQuota i q) db)))"
proof (cases "set_user_quota i q db")
  case (Inl e)
  then show ?thesis using book_dom(1) [of i db] user_exists_iff [of i db]
    by (auto simp: writes_def wraps_def spec_set_user_quota_def set_user_quota_def res_bind_eq_Inl get_user_by_id_def
        split: if_splits option.splits intro!: exI [of _ "Inl e"])
next
  case (Inr db')
  let ?r = "\<lparr>quota_user_id = i, quota_bytes = q\<rparr>"
  have a: "0 \<le> q" "i \<in> user_ids db" "db' = db\<lparr>user_quota := insert_or_replace quota_user_id ?r (user_quota db)\<rparr>"
    using Inr user_exists_iff [of i db] by (auto simp: set_user_quota_def res_bind_eq_Inr split: if_splits)
  have "map_option quota_bytes (fetchone (\<lambda>x. quota_user_id x = k) (insert_or_replace quota_user_id ?r (user_quota db))) =
      ((\<lambda>k. map_option quota_bytes (fetchone (\<lambda>x. quota_user_id x = k) (user_quota db)))(i \<mapsto> q)) k" for k
    using fetchone_insert_or_replace_same [of quota_user_id ?r "user_quota db"]
      fetchone_insert_or_replace_other [of k quota_user_id ?r "user_quota db"] by (cases "k = i") simp_all
  then have "book_of db' = (book_of db)\<lparr>bk_quota := (bk_quota (book_of db))(i \<mapsto> q)\<rparr>" by (simp add: a(3) book_of_def fun_eq_iff)
  then show ?thesis using Inr a(1,2) book_dom(1) [of i db]
    by (simp add: writes_def wraps_def spec_set_user_quota_def exI [of _ "Inr ()"] del: book_of_simps)
qed

text \<open>Reading calls leave the book as it is.\<close>

lemma reads_spec: "sp r \<Longrightarrow> wraps v sp (fst (reads v r db))" "snd (reads v r db) = db"
  by (auto simp: wraps_def reads_def)

lemma sqlite_meets_spec:
  assumes "accounts_ok db"
  shows "store_spec c (book_of db) (fst (sqlite_run c db)) (book_of (snd (sqlite_run c db)))"
proof (cases c)
  case (CallCreateUser n ph em now)
  then show ?thesis using create_user_spec [OF assms] by simp
next
  case (CallCreateExternalUser h salt tok p sub n em now)
  then show ?thesis using create_external_user_spec [OF assms] by simp
next
  case (CallCreateGroup n now)
  then show ?thesis using group_spec [OF assms] by simp
qed (use set_user_active_spec delete_group_spec add_member_spec remove_member_spec set_user_quota_spec
    lookup_spec [OF assms] list_spec [OF assms] get_users_by_ids_spec [OF assms] external_lookup_spec [OF assms]
    member_lists_spec [OF assms] resolve_user_group_ids_spec [OF assms] in \<open>simp_all add: reads_spec\<close>)

lemma sqlite_keeps_ok:
  assumes "accounts_ok db"
  shows "accounts_ok (snd (sqlite_run c db))"
proof -
  have w: "accounts_ok (snd (writes r db))" if "\<And>db'. r = Inr db' \<Longrightarrow> accounts_ok db'" for r
    using that assms by (auto simp: writes_def split: sum.split)
  have m: "accounts_ok (snd (makes v r db))" if "\<And>a db'. r = Inr (a, db') \<Longrightarrow> accounts_ok db'"
    for v :: "'x \<Rightarrow> store_value" and r
    using that assms by (auto simp: makes_def split: sum.split)
  show ?thesis by (cases c) (auto simp: reads_spec assms intro!: w m intro: account_ops_ok [OF _ assms])
qed

section \<open>What a caller may rely on\<close>

text \<open>Books in which records are found under their ids, names are unique and links lead to users.\<close>

definition book_ok :: "account_book \<Rightarrow> bool" where
  "book_ok b \<longleftrightarrow> (\<forall>i u. bk_users b i = Some u \<longrightarrow> uid u = i) \<and>
     (\<forall>u v. u \<in> ran (bk_users b) \<and> v \<in> ran (bk_users b) \<and> username u = username v \<longrightarrow> u = v) \<and>
     (\<forall>k i. bk_links b k = Some i \<longrightarrow> i \<in> dom (bk_users b))"

text \<open>What no call changes of a user: the id, the name, the hash of the password and the address.\<close>

definition same_person :: "user \<Rightarrow> user \<Rightarrow> bool" where
  "same_person u v \<longleftrightarrow> uid v = uid u \<and> username v = username u \<and> password_hash v = password_hash u \<and> email v = email u"

lemmas spec_defs = spec_create_user_def spec_get_user_by_username_def spec_get_user_by_id_def
  spec_get_users_by_ids_def spec_set_user_active_def spec_list_users_def spec_get_user_by_external_id_def spec_create_external_user_def
  spec_create_group_def spec_get_group_by_id_def spec_get_group_by_name_def spec_list_groups_def spec_delete_group_def
  spec_add_member_def spec_remove_member_def spec_list_group_members_def spec_list_parent_group_ids_def
  spec_resolve_user_group_ids_def spec_set_user_quota_def spec_get_user_quota_def

lemma spec_keeps_users:
  assumes "store_spec c b r b'" and "bk_users b i = Some u"
  shows "\<exists>v. bk_users b' i = Some v \<and> same_person u v"
  using assms
  by (cases c; cases r) (auto simp: same_person_def wraps_cases spec_defs split: if_splits)

lemma spec_keeps_links:
  assumes "store_spec c b r b'" and "bk_links b k = Some i"
  shows "bk_links b' k = Some i"
  using assms
  by (cases c; cases r) (auto simp: wraps_cases spec_defs split: if_splits)

locale account_store =
  fixes run :: "store_call \<Rightarrow> 's \<Rightarrow> (account_exn, store_value) result \<times> 's"
    and book :: "'s \<Rightarrow> account_book" and inv :: "'s \<Rightarrow> bool"
  assumes meets: "inv s \<Longrightarrow> store_spec c (book s) (fst (run c s)) (book (snd (run c s)))"
    and keeps: "inv s \<Longrightarrow> inv (snd (run c s))" and sound: "inv s \<Longrightarrow> book_ok (book s)"
begin

definition after :: "store_call list \<Rightarrow> 's \<Rightarrow> 's" where
  "after cs s = fold (\<lambda>c s. snd (run c s)) cs s"

lemma after_inv: "inv s \<Longrightarrow> inv (after cs s)"
  by (induction cs arbitrary: s) (simp_all add: after_def keeps)

lemma users_stay: "inv s \<Longrightarrow> bk_users (book s) i = Some u \<Longrightarrow> \<exists>v. bk_users (book (after cs s)) i = Some v \<and> same_person u v"
proof (induction cs arbitrary: s u)
  case (Cons c cs)
  obtain v where v: "bk_users (book (snd (run c s))) i = Some v" "same_person u v"
    using spec_keeps_users [OF meets [OF Cons.prems(1)] Cons.prems(2)] by blast
  from Cons.IH [OF keeps [OF Cons.prems(1)] v(1)] show ?case using v(2) by (auto simp: after_def same_person_def)
qed (auto simp: after_def same_person_def)

lemma links_stay: "inv s \<Longrightarrow> bk_links (book s) k = Some i \<Longrightarrow> bk_links (book (after cs s)) k = Some i"
  using spec_keeps_links [OF meets] by (induction cs arbitrary: s) (simp_all add: after_def keeps)

lemma found_by_name:
  assumes "inv s" and "bk_users (book s) i = Some u"
  shows "fst (run (CallGetUserByUsername (username u)) s) = Inr (VUser u)"
proof -
  have b: "book_ok (book s)" by (rule sound [OF assms(1)])
  have u: "u \<in> ran (bk_users (book s))" using assms(2) by (auto simp: ran_def)
  from meets [OF assms(1), of "CallGetUserByUsername (username u)"] obtain r
    where r: "spec_get_user_by_username (username u) (book s) r (book (snd (run (CallGetUserByUsername (username u)) s)))"
      "fst (run (CallGetUserByUsername (username u)) s) = map_sum id VUser r" by (auto simp: wraps_def)
  have "name_taken (book s) (username u)" using u by (auto simp: name_taken_def)
  then obtain v where v: "r = Inr v" "bk_users (book s) (uid v) = Some v" "username v = username u"
    using r(1) by (cases r) (auto simp: spec_get_user_by_username_def contract_def)
  then have "v = u" using b u ranI [of "bk_users (book s)", OF v(2)] by (auto simp: book_ok_def)
  then show ?thesis using r(2) v(1) by simp
qed

lemma found_by_subject:
  assumes "inv s" and "bk_links (book s) (p, sub) = Some i" and "bk_users (book s) i = Some u"
  shows "fst (run (CallGetUserByExternalId p sub) s) = Inr (VUser u)"
proof -
  from meets [OF assms(1), of "CallGetUserByExternalId p sub"] obtain r
    where "spec_get_user_by_external_id p sub (book s) r (book (snd (run (CallGetUserByExternalId p sub) s)))"
      "fst (run (CallGetUserByExternalId p sub) s) = map_sum id VUser r" by (auto simp: wraps_def)
  then show ?thesis using assms(2,3) by (cases r) (auto simp: spec_get_user_by_external_id_def)
qed

text \<open>An account is found under its name after whatever calls, with the same id and hash.\<close>

lemma created_user_stays:
  assumes "inv s" and "run (CallCreateUser n ph em now) s = (Inr (VUser u), s1)"
  shows "\<exists>v. fst (run (CallGetUserByUsername (py_strip n)) (after cs s1)) = Inr (VUser v) \<and> same_person u v \<and> password_hash v = ph"
proof -
  have s1: "inv s1" using keeps [OF assms(1), of "CallCreateUser n ph em now"] assms(2) by simp
  have u: "username u = py_strip n" "password_hash u = ph" "bk_users (book s1) (uid u) = Some u"
    using meets [OF assms(1), of "CallCreateUser n ph em now"] assms(2) by (auto simp: wraps_cases spec_create_user_def)
  obtain v where v: "bk_users (book (after cs s1)) (uid u) = Some v" "same_person u v" using users_stay [OF s1 u(3)] by blast
  then show ?thesis using found_by_name [OF after_inv [OF s1] v(1)] u(1,2) by (auto simp: same_person_def)
qed

text \<open>The account of a subject of an identity provider stays the same, whatever is called.\<close>

lemma linked_user_stays:
  assumes "inv s" and "run (CallCreateExternalUser h salt tok p sub n em now) s = (Inr (VUser u), s1)"
  shows "\<exists>v. fst (run (CallGetUserByExternalId p sub) (after cs s1)) = Inr (VUser v) \<and> same_person u v"
proof -
  let ?c = "CallCreateExternalUser h salt tok p sub n em now"
  have s1: "inv s1" using keeps [OF assms(1), of ?c] assms(2) by simp
  have u: "bk_users (book s1) (uid u) = Some u" and l: "bk_links (book s1) (p, sub) = Some (uid u)"
    using meets [OF assms(1), of ?c] assms(2) by (auto simp: wraps_cases spec_create_external_user_def)
  obtain v where v: "bk_users (book (after cs s1)) (uid u) = Some v" "same_person u v" using users_stay [OF s1 u] by blast
  then show ?thesis using found_by_subject [OF after_inv [OF s1] links_stay [OF s1 l] v(1)] by blast
qed

end

lemma book_of_ok:
  assumes "accounts_ok db"
  shows "book_ok (book_of db)"
proof -
  have d: "distinct (map username (users db))" using assms by (simp add: accounts_ok_def users_ok_def)
  then have "u = v" if "u \<in> set (users db)" "v \<in> set (users db)" "username u = username v" for u v
    using that by (auto simp: distinct_map inj_on_def)
  moreover have "i \<in> user_ids db" if "bk_links (book_of db) k = Some i" for k i
    using that assms by (auto simp: accounts_ok_def links_ok_def dest: fetchone_Some_mem)
  ultimately show ?thesis using book_ran(1) [OF assms] book_dom(1) [of _ db]
    by (auto simp: book_ok_def dest: fetchone_Some_mem)
qed

interpretation sqlite: account_store sqlite_run book_of accounts_ok
  by unfold_locales (simp_all add: sqlite_meets_spec sqlite_keeps_ok book_of_ok)

section \<open>Results\<close>


text \<open>An account that was created is found under its name, and the account of a provider's subject under that
  subject, after whatever calls: no call of the interface deletes, renames or relinks an account, or
  changes a password.\<close>

lemma accounts_stay:
  assumes "accounts_ok db"
  shows "sqlite_run (CallCreateUser n ph em now) db = (Inr (VUser u), db1) \<Longrightarrow>
      \<exists>v. fst (sqlite_run (CallGetUserByUsername (py_strip n)) (fold (\<lambda>c d. snd (sqlite_run c d)) cs db1)) = Inr (VUser v) \<and>
        same_person u v \<and> password_hash v = ph"
    and "sqlite_run (CallCreateExternalUser h salt tok p sub n em now) db = (Inr (VUser u), db1) \<Longrightarrow>
      \<exists>v. fst (sqlite_run (CallGetUserByExternalId p sub) (fold (\<lambda>c d. snd (sqlite_run c d)) cs db1)) = Inr (VUser v) \<and> same_person u v"
  using sqlite.created_user_stays [OF assms, unfolded sqlite.after_def] sqlite.linked_user_stays [OF assms, unfolded sqlite.after_def]
  by blast+

lemma accounts_stay_witness:
  "\<exists>u db1 v. sqlite_run (CallCreateUser '' ann '' [7] None 0) create_store = (Inr (VUser u), db1) \<and>
     fst (sqlite_run (CallGetUserByUsername ''ann'') (fold (\<lambda>c d. snd (sqlite_run c d))
       [CallSetUserActive 1 False, CallCreateUser ''ann'' [8] None 1, CallCreateGroup ''ann'' 2] db1)) = Inr (VUser v) \<and> password_hash v = [7]"
proof -
  have n: "py_strip '' ann '' = ''ann''" by (simp add: py_strip_def py_space_def)
  obtain u db1 where "sqlite_run (CallCreateUser '' ann '' [7] None 0) create_store = (Inr (VUser u), db1)"
    by (simp add: makes_def create_user_def n username_exists_def insert_user_def fetchone_def create_store_def Let_def)
  with accounts_stay(1) [OF create_store_ok this] show ?thesis unfolding n by blast
qed

end
