(* ===== verification/Agent_Adapter.thy ===== *)
theory Agent_Adapter
  imports Tunnel
begin

text \<open>
  The adapter between the tunnel and the \<open>websockets\<close> package (\<open>agent/ws_adapter.py\<close>). The package is
  outside of the source: what \<open>send\<close> puts on the wire (\<open>put\<close>) and what \<open>recv\<close> makes of a message for each
  value of its argument \<open>decode\<close> (\<open>recv\<close>) are arguments. The lemmas assume what the package documents: a
  message arrives as it was sent, and \<open>decode\<close> turns it into bytes or text, or leaves its kind alone.
\<close>

datatype py_message = PyBytes bytes | PyStr str

datatype adapter_exn = AdapterTypeError | AdapterUnicodeError

type_synonym 'wire recv_fn = "bool option \<Rightarrow> 'wire \<Rightarrow> (adapter_exn, py_message) result"

text \<open>Both methods hand their argument to the same function, which looks at its type.\<close>

definition adapter_send :: "(py_message \<Rightarrow> 'wire) \<Rightarrow> ws_frame \<Rightarrow> 'wire" where
  "adapter_send put f = put (case f of WsBytes b \<Rightarrow> PyBytes b | WsText m \<Rightarrow> PyStr (dumps_text m))"

definition receive_bytes :: "'wire recv_fn \<Rightarrow> 'wire \<Rightarrow> (adapter_exn, bytes) result" where
  "receive_bytes recv w = res_bind (recv (Some False) w) (\<lambda>m.
     case m of PyBytes b \<Rightarrow> Inr b | PyStr s \<Rightarrow> Inl AdapterTypeError)"

definition receive_text :: "'wire recv_fn \<Rightarrow> 'wire \<Rightarrow> (adapter_exn, str) result" where
  "receive_text recv w = res_bind (recv (Some True) w) (\<lambda>m.
     case m of PyStr s \<Rightarrow> Inr s | PyBytes b \<Rightarrow> Inl AdapterTypeError)"

text \<open>The dict of \<open>receive\<close>, with the text as the receive loop reads it.\<close>

definition adapter_receive :: "'wire recv_fn \<Rightarrow> 'wire \<Rightarrow> (adapter_exn, frame_dict) result" where
  "adapter_receive recv w = res_bind (recv None w) (\<lambda>m.
     Inr (case m of PyBytes b \<Rightarrow> FBytes b
       | PyStr s \<Rightarrow> FText (case loads_text s of None \<Rightarrow> NotJson | Some j \<Rightarrow> Json j)))"

section \<open>Lemmas\<close>

lemma loads_dumps_text:
  assumes "json_plain m"
  shows "loads_text (dumps_text m) = Some m"
  using json_roundtrip [OF assms] by (simp add: json_loads_def json_dumps_def utf8_roundtrip)

text \<open>What the tunnel sends through the adapter is what the receive loop of the other end gets: frames
  byte for byte, control messages as values.\<close>

lemma adapter_transparent:
  assumes "\<And>m. recv None (put m) = Inr m" and "case f of WsText m \<Rightarrow> json_plain m | WsBytes b \<Rightarrow> True"
  shows "adapter_receive recv (adapter_send put f) = Inr (case f of WsBytes b \<Rightarrow> FBytes b | WsText m \<Rightarrow> FText (Json m))"
  using assms by (cases f) (simp_all add: adapter_receive_def adapter_send_def res_bind_def loads_dumps_text)

fun receive_wire :: "'wire recv_fn \<Rightarrow> 'wire list \<Rightarrow> tunnel \<Rightarrow> tunnel option" where
  "receive_wire recv [] c = Some c"
| "receive_wire recv (w # ws) c = (case adapter_receive recv w of
     Inl e \<Rightarrow> None
   | Inr d \<Rightarrow> (case run_receive_loop_once True None d c of RxContinue c' \<Rightarrow> receive_wire recv ws c' | _ \<Rightarrow> None))"

lemma receive_through_adapter:
  assumes "\<And>m. recv None (put m) = Inr m" and "\<forall>m. WsText m \<in> set fs \<longrightarrow> json_plain m"
  shows "receive_wire recv (map (adapter_send put) fs) c = receive_all fs c"
  using assms(2)
proof (induction fs arbitrary: c)
  case (Cons f fs)
  have "adapter_receive recv (adapter_send put f) = Inr (case f of WsBytes b \<Rightarrow> FBytes b | WsText m \<Rightarrow> FText (Json m))"
    using Cons.prems by (intro adapter_transparent assms(1)) (auto split: ws_frame.split)
  then show ?case using Cons by (cases f) (auto split: rx_outcome.split)
qed simp

text \<open>\<open>receive_bytes\<close> and \<open>receive_text\<close> announce a \<open>TypeError\<close> for a message of the other kind. They ask the package to
  convert, so that a text message is returned as bytes.\<close>

lemma receive_bytes_never_refuses:
  assumes "\<And>s. recv (Some False) (put (PyStr s)) = Inr (PyBytes (utf8_encode s))"
  shows "receive_bytes recv (put (PyStr s)) = Inr (utf8_encode s)"
  using assms by (simp add: receive_bytes_def res_bind_def)

end
