(* ===== verification/Spec2Isabelle.thy ===== *)
theory Spec2Isabelle
  imports Server_Info Relay_System Command_Line Relay_Web Single_Sign_On User_Storage Mounted_Server Account_Store Agent_Adapter
begin

text \<open>
  A verification development for the network file server: a file server that shares a folder on the
  local network, a relay that makes such servers reachable from outside, and the agent that links
  the two.

  \<^bold>\<open>The program.\<close> A server (\<open>server/\<close>) serves one folder over HTTP, with a clipboard, file requests, share
  links and a WebSocket for live messages. An agent (\<open>agent/\<close>) connects a server to the relay over one
  WebSocket, the tunnel (\<open>tunnel/\<close>), on which the requests of many browsers are multiplexed as streams of
  frames. The relay (\<open>relay/\<close>) assigns each agent a mount code, keeps mounts, their owners and access
  policies in a database, authenticates users (\<open>accounts/\<close>), decides who may enter a mount and with
  which role, and forwards the request with that decision in signed headers
  (\<open>shared/identity_sig.py\<close>), which the server verifies and enforces.

  \<^bold>\<open>Theories and sources.\<close>
  \<^item> \<open>Prelude\<close>: types, results, Python strings, SQL tables as lists, dicts as association lists, and
    the locales \<open>inv_machine\<close>, \<open>transition_system\<close> and \<open>py_dict\<close> that the components interpret.
  \<^item> \<open>Json\<close>: \<open>json.dumps\<close> and \<open>json.loads\<close>, and that the second reads what the first wrote.
  \<^item> \<open>Frames\<close> (\<open>tunnel/frames.py\<close>, \<open>ws_payload.py\<close>, \<open>enums.py\<close>, \<open>constants.py\<close>): the frame codec at byte
    level. Frames within the cap round-trip and the parser accepts exactly the packed frames.
  \<^item> \<open>Tunnel\<close> (\<open>tunnel/connection.py\<close>): streams, queues, dispatch, readers, heartbeat, teardown, with every
    interleaving of the tasks as a step relation. Streams are first-in first-out, nothing is lost
    before the end of a stream, queues and streams are bounded, closed streams drain, payloads sent
    on one side are read on the other.
  \<^item> \<open>Accounts\<close> (\<open>accounts/\<close>): users, groups, memberships, passwords. Every sequence of operations keeps
    the group graph acyclic, and the resolution of a user's groups returns its transitive closure.
  \<^item> \<open>Mount_Registry\<close> (\<open>relay/app/services/mount_registry.py\<close>, \<open>sqlite_registry.py\<close>): both registries, reclaim,
    policies, access requests, start-up clean-up.
  \<^item> \<open>Access_Policy\<close> (\<open>services/access_policy.py\<close>, \<open>routers/access_requests.py\<close>): the access decision and the
    approval of access requests.
  \<^item> \<open>Relay_Ttl\<close> (\<open>services/ttl_sweep.py\<close>, \<open>file_ttl_db.py\<close>, \<open>file_ttl_sweep.py\<close>): expiry of mounts and files.
  \<^item> \<open>Relay_Session\<close> (\<open>services/session.py\<close>, \<open>routers/auth.py\<close>, \<open>admin.py\<close>): tokens, sign-up, login, admin routes.
  \<^item> \<open>Relay_Agent\<close> (\<open>routers/agent_ws.py\<close>): the handshake, admission, code assignment and registration of
    an agent, and what follows a disconnection.
  \<^item> \<open>Proxy_Identity\<close> (\<open>routers/mount_proxy.py\<close>, \<open>shared/identity_sig.py\<close>, \<open>server/app/services/relay_identity.py\<close>,
    \<open>middleware/mode_guard.py\<close>, \<open>auth_middleware.py\<close>): from the relay's decision through the signed headers to
    the guards of the server's routes.
  \<^item> \<open>Server_State\<close> (\<open>server/app/services/sqlite_store.py\<close>, \<open>clipboard_service.py\<close>, \<open>file_request_service.py\<close>,
    \<open>upload_index.py\<close>, \<open>share_service.py\<close>): the server's database and the services over it. The share service
    refines a map from tokens to links.
  \<^item> \<open>File_System\<close>, \<open>File_Service\<close> (\<open>server/app/services/file_service.py\<close>): a file system with symbolic links,
    and the operations on the shared folder over it. Paths stay in the folder, with the two exceptions
    named in the property; uploads are downloaded unchanged, the search for a free name ends.
  \<^item> \<open>Devices\<close> (\<open>services/connection_manager.py\<close>, \<open>routers/websocket.py\<close>): connected devices, broadcasts and
    the WebSocket endpoint as an event system, and broadcasts whose sends interleave with other tasks.
  \<^item> \<open>Server_Routes\<close> (\<open>routers/files.py\<close>, \<open>share_target.py\<close>, \<open>clipboard.py\<close>, \<open>file_requests.py\<close>, \<open>share.py\<close>, \<open>auth.py\<close>,
    \<open>error_handlers.py\<close>): the HTTP handlers over all of the server's services: the invariant of the whole
    server, and what each role can see and change.
  \<^item> \<open>Mount_Transport\<close> (\<open>tunnel/metadata.py\<close>, \<open>agent/proxy.py\<close>, \<open>agent/connection.py\<close>, \<open>routers/mount_proxy.py\<close>,
    \<open>services/html_rewriter.py\<close>, \<open>local_mount.py\<close>): one HTTP request through a mount, from the relay's handler
    over the tunnel to the application behind the agent and back. The application sees the request
    unchanged, once, the browser its response, and both ends forget the stream.
  \<^item> \<open>Mount_Bridge\<close> (the same files): WebSockets through a mount. Messages arrive in order with kind and
    content until one does not fit a frame, and one end's closing ends the other.
  \<^item> \<open>Agent\<close> (\<open>agent/cli.py\<close>, \<open>auth.py\<close>, \<open>connection.py\<close>, \<open>shared/backoff.py\<close>, \<open>duration.py\<close>): the mount command, the
    handshake, one connection and the reconnection loop. The relay stores the policy of the command
    line, and reconnections keep the mount's code unless the rate limiter or the cap refuses them.
  \<^item> \<open>Oidc_Client\<close> (\<open>services/oidc.py\<close>), \<open>Single_Sign_On\<close> (\<open>routers/oidc_auth.py\<close>): the client of the identity
    provider with its discovery document, login through it, the account of a subject and the
    synchronisation of groups. A login is bound to the browser, takes over no account, and completes.
  \<^item> \<open>User_Storage\<close> (\<open>services/user_storage.py\<close>, \<open>routers/user_storage.py\<close>): a user's own directory with its quota.
  \<^item> \<open>Relay_Startup\<close> (\<open>relay/app/config.py\<close>, \<open>main.py\<close>, \<open>rate_limit.py\<close>, \<open>secure_cookies.py\<close>, \<open>error_handlers.py\<close>): the
    settings, the start over the databases of the last run, and what surrounds every request.
  \<^item> \<open>Relay_System\<close> (\<open>routers/agent_ws.py\<close>): the relay as one step relation, with the handlers of all agents
    interleaved between their calls of the registry. Requests for a code only reach the agent whose
    handler works for it; the races that remain are lemmas.
  \<^item> \<open>Server_Startup\<close> (\<open>server/app/cli.py\<close>, \<open>bootstrap.py\<close>, \<open>config.py\<close>, \<open>main.py\<close>): the server's configuration, its state
    over the databases on disk, the catch-all route, and what keeps a mount's policy between two connections of its agent.
  \<^item> \<open>Server_Info\<close> (\<open>server/app/routers/server_info.py\<close>, \<open>agent/display.py\<close>, \<open>shared/network.py\<close>): the addresses that
    are shown to users, and the identity that the server reports to the caller.
  \<^item> \<open>Cookies\<close> (\<open>server/app/middleware/auth_middleware.py\<close>, \<open>routers/websocket.py\<close>): the password gate over raw headers,
    with the parser of \<open>http.cookies\<close> and its regular expression. Nobody passes without a session value that the signer
    accepts; the cookie of a login is accepted; the cookies that break the gate are lemmas.
  \<^item> \<open>Mounted_Server\<close> (\<open>routers/mount_proxy.py\<close>, \<open>server/app/main.py\<close>): a server behind the relay, from the
    browser's request through admission, tunnel, gate and guards to the change of the server's state.
  \<^item> \<open>Account_Store\<close> (\<open>accounts/store.py\<close>): the contract of the store over an abstract book of accounts, the
    locale \<open>account_store\<close> with what its clients rely on, and that the sqlite store refines it.
  \<^item> \<open>Relay_Lifecycle\<close> (\<open>services/ttl_sweep.py\<close>, \<open>state.py\<close>, \<open>main.py\<close>, \<open>relay/cli.py\<close>, \<open>routers/health.py\<close>, \<open>landing.py\<close>,
    \<open>pages.py\<close>): the sweep task with the clock among all other tasks, start and shutdown, and the pages.
    A mount is unreachable within a bound after it has expired.
  \<^item> \<open>Relay_Web\<close> (\<open>services/dropbox.py\<close>, \<open>routers/auth.py\<close>, \<open>admin.py\<close>, \<open>main.py\<close>, \<open>logging.py\<close>): the drop box, sessions
    in a browser, the assembly of the application and the lines of its log.
  \<^item> \<open>Command_Line\<close> (\<open>server/app/cli.py\<close>, \<open>relay/cli.py\<close>): the parsers and the algorithm of \<open>argparse\<close>. What is
    typed, in any order, is what the agent is started with.
  \<^item> \<open>Agent_Adapter\<close> (\<open>agent/ws_adapter.py\<close>): the tunnel over the \<open>websockets\<close> package.
  This theory holds the properties that span agent, relay and server: from the owner's command line
  to the guards of the server's routes.

  \<^bold>\<open>Modelling.\<close> A class is a record, an enumeration a datatype, an exception the left value of a result.
  Operations that change state before they fail return the state with the exception. Where the code
  makes two database or network calls with other tasks running in between, the two halves are
  separate definitions, and the races this admits are stated as lemmas. Clocks, random ids, bcrypt,
  HMAC and the signing of tokens are arguments; a theorem that needs one of their documented
  properties names it as a hypothesis, and its witness instantiates it. Strings are code points
  below 256. Fuel occurs in the resolution of groups, where the number of stored memberships is enough
  (\<open>resolve_user_groups_spec\<close>), and in one resumption of the reader of a tunnelled response
  (\<open>relay_resume\<close>), which takes at most as many chunks as are queued: the fuel is the length of the
  queue and two for the end of the stream. All other loops are functions proved to terminate.

  \<^bold>\<open>Limits of the model.\<close> One call of a registry, a store or the share service is one step, also where it makes several
  calls of sqlite; ids and counters are unbounded integers, where sqlite has 64 bits. The admission of a
  request (\<open>proxy_admit\<close>, \<open>ws_admit\<close>) reads the policy, the tunnel and the secret from one state of the registry,
  although the code awaits between them; \<open>Relay_System\<close> has the window of a registration. \<open>create_link\<close> has one value for
  its two readings of the clock. In \<open>live_step\<close> a broadcast is one step; \<open>traffic_step\<close> is the interleaved
  version. The agent's client is handed the URL and headers as they stand: that httpx parses the URL and adds its
  default headers is not modelled. Recursion is not limited as Python limits it, which chains of some thousand
  groups would meet in \<open>_collect_parents\<close>. Decoded JSON has no fractional numbers.

  \<^bold>\<open>Results about defects.\<close> Lemmas outside of the numbered properties state behaviour that departs from
  what the code means to do: races (\<open>add_member_race\<close>, \<open>snippet_limit_race\<close>, \<open>fulfill_after_dismiss_race\<close>,
  \<open>newer_connection_evicted\<close>, \<open>registration_window_open\<close>, \<open>same_code_race\<close>, \<open>mount_cap_race\<close>), missing checks (\<open>deactivation_not_enforced\<close>,
  \<open>websocket_ignores_relay_identity\<close>, \<open>agent_control_crosses_mounts\<close>, \<open>receive_overwrites\<close>,
  \<open>share_root_not_protected\<close>), and lost data (\<open>overwrite_loses_tmp_sibling\<close>, \<open>approval_lost_on_reconnect\<close>,
  \<open>fulfill_uploads_first\<close>, \<open>upload_through_dangling_link\<close>, \<open>ownership_ignores_spaces\<close>, \<open>padded_name_escapes_scope\<close>, \<open>rollback_deletes_skipped\<close>,
  \<open>conflict_escapes_quota\<close>);
  files served to anyone (\<open>catch_all_serves_any_file\<close>), mounts taken over by a header
  (\<open>spoofed_address_takes_mount\<close>), streams that are never released (\<open>aborted_uploads_exhaust_mount\<close>,
  \<open>refused_websockets_stop_agent\<close>), and agents or relays that stop (\<open>lost_upload_hangs_agent\<close>,
  \<open>reconnect_refused_at_cap\<close>, \<open>locked_entry_blocks_start\<close>, \<open>padded_group_blocks_login\<close>,
  \<open>dead_sweep_blocks_shutdown\<close>, \<open>bad_port_variable_blocks_start\<close>); sessions that are lost to other cookies
  (\<open>foreign_cookie_raises\<close>, \<open>valueless_cookie_hides_session\<close>); and wrong displays
  (\<open>default_port_ignores_scheme\<close>, \<open>access_mode_never_forwarded\<close>) and command lines (\<open>folder_named_mount\<close>).

  \<^bold>\<open>Not modelled.\<close> The counting of the rate limiter, the identity provider, bcrypt, HMAC, itsdangerous,
  sqlite and the choice of a route by FastAPI are other packages or services: their results are
  arguments. The lines of the terminal, the templates of pages, pictures of QR codes and the schemas
  of requests and responses are input and output; \<open>services/persistence.py\<close> has no caller; the web
  client is TypeScript.
\<close>

section \<open>Properties that span components\<close>

text \<open>C3: a restricted mount without a password, which is not one of the relay's own folders, is only reached
  by accounts on its allowlist. An anonymous HTTP request is sent to the login page, or answered 401 when it does
  not accept HTML, and an anonymous WebSocket is closed with 1008. A signed-in user who has no account any more, or
  whom no entry names directly or through a chain of groups, gets the 403 page, and a WebSocket of theirs
  is closed with 1008. Whatever is forwarded into the mount's tunnel carries the name of a
  signed-in user with an account and the most permissive of the roles that the entries naming that
  user grant, whatever identity headers the client sent. The account store is one that satisfies its
  invariant.\<close>

theorem restricted_mount_protected:
  assumes "accounts_ok db" and "get_policy code reg = Inr p" and "policy_mode p = RESTRICTED" and "\<not> policy_has_password p"
    and "code \<notin> set local_mounts"
  shows "proxy_admit mac dead local_mounts reg (Some db) None code rq =
      Some (Inr (if py_contains (accept_header rq) ''text/html'' then LoginRedirect (login_url rq) else JsonUnauthorized)) \<and>
    ws_admit mac dead local_mounts reg (Some db) None code rq = Some (Inr (WsClosed 1008)) \<and>
    (ident_user_id i \<notin> user_ids db \<or> granted_roles p (ident_user_id i) db = {} \<longrightarrow>
      proxy_admit mac dead local_mounts reg (Some db) (Some i) code rq = Some (Inr ForbiddenPage) \<and>
      ws_admit mac dead local_mounts reg (Some db) (Some i) code rq = Some (Inr (WsClosed 1008))) \<and>
    (proxy_admit mac dead local_mounts reg (Some db) ident code rq = Some (Inr (ToTunnel tun hdrs)) \<or>
     ws_admit mac dead local_mounts reg (Some db) ident code rq = Some (Inr (WsTunnel tun hdrs)) \<longrightarrow>
      (\<exists>j r. ident = Some j \<and> ident_user_id j \<in> user_ids db \<and> r \<in> granted_roles p (ident_user_id j) db \<and>
        (\<forall>r' \<in> granted_roles p (ident_user_id j) db. ROLE_RANK r' \<le> ROLE_RANK r) \<and>
        look hdrs ''x-wfs-user'' = Some (ident_username j) \<and> look hdrs ''x-wfs-role'' = Some (role_value r)))"
proof (intro conjI impI)
  note rest = assms(2-5)
  show "proxy_admit mac dead local_mounts reg (Some db) None code rq =
      Some (Inr (if py_contains (accept_header rq) ''text/html'' then LoginRedirect (login_url rq) else JsonUnauthorized))"
    and "ws_admit mac dead local_mounts reg (Some db) None code rq = Some (Inr (WsClosed 1008))"
    using rest by (simp_all add: proxy_admit_def ws_admit_def authorize_def fallback_decision_def)
next
  assume "ident_user_id i \<notin> user_ids db \<or> granted_roles p (ident_user_id i) db = {}"
  note a = unlisted_refused [OF assms(1-4) this]
  show "proxy_admit mac dead local_mounts reg (Some db) (Some i) code rq = Some (Inr ForbiddenPage)"
    and "ws_admit mac dead local_mounts reg (Some db) (Some i) code rq = Some (Inr (WsClosed 1008))"
    using assms(5) by (simp_all add: proxy_admit_def ws_admit_def a)
next
  assume "proxy_admit mac dead local_mounts reg (Some db) ident code rq = Some (Inr (ToTunnel tun hdrs)) \<or>
     ws_admit mac dead local_mounts reg (Some db) ident code rq = Some (Inr (WsTunnel tun hdrs))"
  then obtain d where d: "authorize reg (Some db) code ident = Some (Inr d)"
    and h: "identity_headers mac reg code d (forward_headers (host_header rq) (header_items rq)) = Inr hdrs"
    by (metis proxy_admit_tunnel ws_admit_tunnel)
  obtain j r where j: "ident = Some j" "ident_user_id j \<in> user_ids db" "r \<in> granted_roles p (ident_user_id j) db"
    "\<forall>r' \<in> granted_roles p (ident_user_id j) db. ROLE_RANK r' \<le> ROLE_RANK r"
    "d = \<lparr>identified = True, decision_username = Some (ident_username j), decision_role = Some r\<rparr>"
    by (rule restricted_allowlist [OF assms(1-4) d])
  then have "inject_identity mac (forward_headers (host_header rq) (header_items rq)) (ident_username j)
      (role_value r) (get_identity_secret code reg) = Inr hdrs"
    using h by (simp add: identity_headers_def split: sum.splits)
  from inject_look [OF this forward_no_wfs] j
  show "\<exists>j r. ident = Some j \<and> ident_user_id j \<in> user_ids db \<and> r \<in> granted_roles p (ident_user_id j) db \<and>
      (\<forall>r' \<in> granted_roles p (ident_user_id j) db. ROLE_RANK r' \<le> ROLE_RANK r) \<and>
      look hdrs ''x-wfs-user'' = Some (ident_username j) \<and> look hdrs ''x-wfs-role'' = Some (role_value r)" by blast
qed

theorem restricted_mount_protected_witness:
  "proxy_admit demo_mac (\<lambda>_. False) [] demo_signed (Some two_groups) None ''a'' demo_forged =
     Some (Inr (LoginRedirect (login_url demo_forged))) \<and>
   proxy_admit demo_mac (\<lambda>_. False) [] demo_signed (Some two_groups) (Some \<lparr>ident_user_id = 2, ident_username = ''bob''\<rparr>) ''a'' demo_forged =
     Some (Inr ForbiddenPage) \<and>
   (\<exists>hdrs. proxy_admit demo_mac (\<lambda>_. False) [] demo_signed (Some two_groups) (Some demo_ann) ''a'' demo_forged =
       Some (Inr (ToTunnel 1 hdrs)) \<and> look hdrs ''x-wfs-role'' = Some ''read'')"
proof -
  obtain hdrs where h: "proxy_admit demo_mac (\<lambda>_. False) [] demo_signed (Some two_groups) (Some demo_ann) ''a''
      demo_forged = Some (Inr (ToTunnel 1 hdrs))"
    using demo_admitted by blast
  have c: "py_contains (accept_header demo_forged) ''text/html''" by (simp add: demo_forged_def py_contains_def)
  show ?thesis
    using restricted_mount_protected [OF two_groups_ok demo_policy, of "[]" demo_mac "\<lambda>_. False" demo_forged
        "\<lparr>ident_user_id = 2, ident_username = ''bob''\<rparr>" "Some demo_ann" 1 hdrs] h c
    by (auto simp: granted_roles_def)
qed

text \<open>C2: what the owner types on the command line is what the server enforces. An agent started with
  \<open>--login\<close>, with any \<open>--access-mode\<close>, \<open>--allow\<close> and \<open>--password\<close>, is connected and serves its folder with the
  mount code, the secret and the password of that connection. Until the code is registered, reclaimed
  or given a policy or secret anew, whatever else happens in the registry, every request, HTTP or
  WebSocket, that the relay forwards into the mount's tunnel is of one of two kinds. Either it comes
  from a signed-in user, the server takes that user's name and a role for the request, and that role
  is the one of an \<open>--allow\<close> argument that names the user or a group of theirs, or of an
  access request for the mount that was approved since. Or the server trusts no name, no
  role and no bypass of its password gate, which keeps the password of the command line; and this happens only
  with an access mode other than \<open>restricted\<close> or with a password. The headers the client sent do
  not matter.\<close>

theorem allow_arguments_enforced:
  assumes "build_owner (Some name) mode stdin line specs = Inr (Some o')"
    and "agent_connect config loads str_of db allowed gen tun ip now code ttl
      (Json (agent_auth_message s token (Some o') pw)) reg = Inr (c, t, reg')" and "registry_ok reg" and "s \<noteq> []"
    and "build_mount_app fs ctx = Inr cfg" and "ctx_mount_code ctx = c" and "ctx_identity_secret ctx = s" and "ctx_password_hash ctx = pw"
    and "\<forall>op \<in> set ops. \<not> renews c op" and "reg2 = fold registry_step ops reg'"
    and "proxy_admit mac dead locals reg2 (Some db') ident c rq = Some (Inr (ToTunnel k hdrs)) \<or>
      ws_admit mac dead locals reg2 (Some db') ident c rq = Some (Inr (WsTunnel k hdrs))"
    and "\<And>x m. mac x m \<noteq> [] \<and> is_ascii (mac x m)" and "transported hdrs get"
  shows "(\<exists>i r. ident = Some i \<and> trusted_role mac cfg get = Inr (Some r) \<and> trusted_user mac cfg get = Inr (Some (ident_username i)) \<and>
      ((\<exists>spec \<in> set specs. \<exists>e. parse_allow_entry spec = Inr e \<and> allow_role e = r \<and> names_user db db' e i) \<or>
       (\<exists>entry \<in> approved c ops. \<exists>gs. entry_role entry = r \<and> resolve_user_group_ids (ident_user_id i) db' = Some (Inr gs) \<and>
          entry_matches i gs entry))) \<or>
    (mode \<notin> {None, Some ''restricted''} \<or> pw \<noteq> None) \<and> cfg_password_hash cfg = pw \<and> is_auth_bypassed mac cfg get = Inr False \<and>
      trusted_role mac cfg get = Inr None \<and> trusted_user mac cfg get = Inr None"
proof -
  note b = build_owner_parts [OF assms(1)]
  obtain p where p: "get_policy c reg' = Inr p" "policy_mode p = owner_mode o'" "policy_has_password p = (pw \<noteq> None)"
      "get_identity_secret c reg' = Some s"
    and es: "\<And>x. x \<in> set (policy_entries p) \<Longrightarrow> \<exists>spec \<in> set specs. \<exists>e. parse_allow_entry spec = Inr e \<and> resolve_entry db e = Inr x"
    by (rule agent_policy [OF assms(3,4) b(1) assms(2)]) blast
  have "registry_ok reg'" using agent_connect_ok [OF assms(3,2)] by blast
  moreover have "policy_kept c s p {} reg'" using p by (simp add: policy_kept_def)
  ultimately have kept: "policy_kept c s p (approved c ops) reg2"
    using policy_kept_run [of reg' c s p "{}" ops] assms(9,10) by simp
  obtain d where a: "authorize reg2 (Some db') c ident = Some (Inr d)" and g: "get_connection dead c reg2 = Inr k"
    and h: "identity_headers mac reg2 c d (forward_headers (host_header rq) (header_items rq)) = Inr hdrs"
    using assms(11) by (metis proxy_admit_tunnel ws_admit_tunnel)
  have live: "map_of (connections reg2) c \<noteq> None"
    using g by (simp add: get_connection_def split: option.splits if_splits)
  obtain q where q: "get_policy c reg2 = Inr q" "policy_mode q = owner_mode o'" "policy_has_password q = (pw \<noteq> None)"
      "get_identity_secret c reg2 = Some s" "set (policy_entries q) \<subseteq> set (policy_entries p) \<union> approved c ops"
    using kept live p(2,3) by (auto simp: policy_kept_def)
  have cfg: "is_relay_served cfg" "cfg_identity_secret cfg = get_identity_secret c reg2" "cfg_password_hash cfg = pw"
    using assms(5-8) q(4)
    by (auto simp: build_mount_app_def ServerConfig_init_def is_relay_served_def split: if_splits option.splits)
  note v = verified_relay [OF h assms(12) cfg(1,2) assms(13)]
  from q(1) a show ?thesis
  proof (cases rule: listed_decision)
    case (listed i r)
    obtain x gs where x: "x \<in> set (policy_entries q)" "entry_role x = r"
      "resolve_user_group_ids (ident_user_id i) db' = Some (Inr gs)" "entry_matches i gs x"
      by (rule matched_role_entry [OF listed(5)])
    have "x \<in> approved c ops \<or> (\<exists>spec \<in> set specs. \<exists>e. parse_allow_entry spec = Inr e \<and> allow_role e = r \<and> names_user db db' e i)"
      using x(1,2) q(5) es [of x] resolved_names [OF _ x(3,4)] by (metis (no_types) UnE subsetD)
    moreover have "trusted_role mac cfg get = Inr (Some r)" "trusted_user mac cfg get = Inr (Some (ident_username i))"
      using v listed cfg(2) q(4) by (simp_all add: trusted_role_def trusted_user_def)
    ultimately show ?thesis using listed(1) x by blast
  next
    case unlisted
    have "mode \<notin> {None, Some ''restricted''} \<or> pw \<noteq> None"
      using unlisted(2) b(2) q(2,3) by (cases "owner_mode o'") auto
    then show ?thesis using v unlisted(1) cfg(3) by (simp add: trusted_role_def trusted_user_def is_auth_bypassed_def)
  qed
qed

definition demo_ctx :: MountAppContext where
  "demo_ctx = \<lparr>ctx_folder = [], ctx_password_hash = None, ctx_mount_code = ''gen'', ctx_relay_url = ''http://r'',
     ctx_identity_secret = ''key''\<rparr>"

theorem allow_arguments_enforced_witness:
  "\<exists>t reg' hdrs cfg. agent_connect demo_config demo_loads (\<lambda>_. []) two_groups True ''gen'' 4 ''ip2'' 10 None None
     (Json (agent_auth_message ''key'' (JStr (AGENT_SALT @ ''.a'')) (Some demo_owner) None)) fresh_registry = Inr (''gen'', t, reg') \<and>
   build_mount_app demo_fs demo_ctx = Inr cfg \<and>
   proxy_admit demo_mac (\<lambda>_. False) [] reg' (Some two_groups) (Some demo_ann) ''gen'' demo_forged = Some (Inr (ToTunnel 4 hdrs)) \<and>
   trusted_user demo_mac cfg (look hdrs) = Inr (Some ''ann'')"
proof -
  obtain t reg' hdrs where c: "agent_connect demo_config demo_loads (\<lambda>_. []) two_groups True ''gen'' 4 ''ip2'' 10 None None
     (Json (agent_auth_message ''key'' (JStr (AGENT_SALT @ ''.a'')) (Some demo_owner) None)) fresh_registry = Inr (''gen'', t, reg')"
    and h: "proxy_admit demo_mac (\<lambda>_. False) [] reg' (Some two_groups) (Some demo_ann) ''gen'' demo_forged = Some (Inr (ToTunnel 4 hdrs))"
    using demo_owner_reached by blast
  obtain cfg where cfg: "build_mount_app demo_fs demo_ctx = Inr cfg"
    by (simp add: build_mount_app_def ServerConfig_init_def demo_ctx_def path_exists_def is_dir_def stat_def lstat_def demo_fs_def)
  have "transported hdrs (look hdrs)" by (simp add: transported_def)
  from allow_arguments_enforced [OF demo_owner_built c fresh_registry_ok _ cfg _ _ _ _ _ disjI1 [OF h] demo_mac_ascii this, of "[]"]
  have "trusted_user demo_mac cfg (look hdrs) = Inr (Some ''ann'')" by (auto simp: demo_ctx_def demo_ann_def)
  with c cfg h show ?thesis by blast
qed

end
